(* ===== verification/Prelude.thy ===== *)
theory Prelude
  imports Main "HOL-Library.Word" "HOL-Library.Signed_Division"
begin

text \<open>
  Shared vocabulary of the development: the C integer types of
  \<^verbatim>\<open>student-distrib/types.h\<close> as machine words, the return codes, the
  collections of simplification rules the component theories fill, and the generic
  facts about words, lists and bounded loops that several components use.
\<close>

unbundle bit_operations_syntax

section \<open>C types and return codes (types.h)\<close>

type_synonym u8 = "8 word"
type_synonym u16 = "16 word"
type_synonym u32 = "32 word"

text \<open>Byte memory, as seen by the physical address bus.\<close>

type_synonym mem = "u32 \<Rightarrow> u8"

abbreviation (input) SUCCESS :: int where "SUCCESS \<equiv> 0"
abbreviation (input) FAILURE :: int where "FAILURE \<equiv> -1"
abbreviation (input) ERROR :: int where "ERROR \<equiv> -1"
abbreviation (input) STDIN :: int where "STDIN \<equiv> 0"
abbreviation (input) STDOUT :: int where "STDOUT \<equiv> 1"
abbreviation (input) LITERAL_4KB :: u32 where "LITERAL_4KB \<equiv> 0x1000"
abbreviation (input) LITERAL_8KB :: u32 where "LITERAL_8KB \<equiv> 0x2000"
abbreviation (input) LITERAL_12KB :: u32 where "LITERAL_12KB \<equiv> 0x3000"
abbreviation (input) LITERAL_4MB :: u32 where "LITERAL_4MB \<equiv> 0x400000"

text \<open>ASCII characters of the sources, as bytes.\<close>

abbreviation (input) NULL_CHAR :: u8 where "NULL_CHAR \<equiv> 0"
abbreviation (input) BKSP_CHAR :: u8 where "BKSP_CHAR \<equiv> 8"
abbreviation (input) NEW_LINE :: u8 where "NEW_LINE \<equiv> 10"
abbreviation (input) CARRIAGE_RETURN :: u8 where "CARRIAGE_RETURN \<equiv> 13"
abbreviation (input) EMPTY_SPACE :: u8 where "EMPTY_SPACE \<equiv> 32"

definition bytes_of :: "string \<Rightarrow> u8 list" where
  "bytes_of cs = map of_char cs"

section \<open>Rule collections\<close>

named_theorems mem_simps \<open>reads over writes, and fields a memory write does not touch\<close>
named_theorems frame_simps \<open>fields an operation leaves unchanged\<close>

section \<open>Words\<close>

lemma of_nat_u32_eq [simp]:
  "i < 4294967296 \<Longrightarrow> j < 4294967296 \<Longrightarrow> ((of_nat i :: u32) = of_nat j) = (i = j)"
  by (simp add: word_of_nat_eq_iff take_bit_nat_eq_self)

lemma u32_add_of_nat_eq [simp]:
  "i < 4294967296 \<Longrightarrow> j < 4294967296 \<Longrightarrow> (a + (of_nat i :: u32) = a + of_nat j) = (i = j)"
  by simp

lemma unat_of_nat_u32 [simp]: "n < 4294967296 \<Longrightarrow> unat (of_nat n :: u32) = n"
  by (simp add: unat_of_nat take_bit_nat_eq_self)

lemma unat_u32_less [simp]: "unat (w :: u32) < 4294967296"
  using unsigned_less [of w] by simp

lemma unat_u8_less [simp]: "unat (w :: u8) < 256"
  using unsigned_less [of w] by simp

lemma sint_of_nat_u32: "n < 2147483648 \<Longrightarrow> sint (of_nat n :: u32) = int n"
  by (simp add: signed_of_nat signed_take_bit_int_eq_self)

lemma of_nat_Suc_shift: "a + (of_nat (Suc i) :: u32) = a + 1 + of_nat i"
  by simp

section \<open>Lists\<close>

lemma map_upt_shift: "map f [Suc a..<Suc b] = map (\<lambda>i. f (Suc i)) [a..<b]"
  by (simp flip: map_Suc_upt del: upt_Suc)

lemma map_upt_Cons0: "map f [0..<Suc n] = f 0 # map (\<lambda>i. f (Suc i)) [0..<n]"
  by (simp add: upt_conv_Cons map_upt_shift del: upt_Suc)

lemma replicate_add_list: "replicate (m + n) x = replicate m x @ replicate n x"
  by (rule replicate_add)

section \<open>Counting loops\<close>

text \<open>\<^verbatim>\<open>for (i = a; i < b; i++) body\<close> with a body that neither leaves the loop nor changes \<open>i\<close>.\<close>

definition for_loop :: "nat \<Rightarrow> nat \<Rightarrow> (nat \<Rightarrow> 's \<Rightarrow> 's) \<Rightarrow> 's \<Rightarrow> 's" where
  "for_loop a b body s = fold body [a..<b] s"

lemma for_loop_same [simp]: "for_loop a a body s = s"
  by (simp add: for_loop_def)

lemma for_loop_Suc: "a \<le> b \<Longrightarrow> for_loop a (Suc b) body s = body b (for_loop a b body s)"
  by (simp add: for_loop_def)

text \<open>Loop rule: what holds before and is kept by every round holds after.\<close>

lemma for_loop_inv:
  assumes "a \<le> b" and "P a s" and "\<And>i s. a \<le> i \<Longrightarrow> i < b \<Longrightarrow> P i s \<Longrightarrow> P (Suc i) (body i s)"
  shows "P b (for_loop a b body s)"
proof -
  have "P n (for_loop a n body s)" if "a \<le> n" "n \<le> b" for n
    using that
  proof (induction n)
    case 0
    then show ?case using assms(2) by simp
  next
    case (Suc n)
    show ?case
    proof (cases "a = Suc n")
      case False
      then have "a \<le> n" using Suc.prems by simp
      then show ?thesis using Suc assms(3) by (simp add: for_loop_Suc)
    qed (use assms(2) in simp)
  qed
  then show ?thesis using assms(1) by simp
qed

text \<open>A projection that every round maps to a round on the abstract side.\<close>

lemma for_loop_abs:
  assumes "Q s" and "\<And>i s. a \<le> i \<Longrightarrow> i < b \<Longrightarrow> Q s \<Longrightarrow> Q (body i s) \<and> h (body i s) = body' i (h s)"
  shows "Q (for_loop a b body s) \<and> h (for_loop a b body s) = for_loop a b body' (h s)"
proof (cases "a \<le> b")
  case True
  have "Q (for_loop a n body s) \<and> h (for_loop a n body s) = for_loop a n body' (h s)"
    if "a \<le> n" "n \<le> b" for n
    using that
  proof (induction n)
    case (Suc n)
    show ?case
    proof (cases "a = Suc n")
      case False
      then have "a \<le> n" using Suc.prems by simp
      then show ?thesis using Suc assms(2) by (simp add: for_loop_Suc)
    qed (use assms(1) in simp)
  qed (use assms(1) in simp)
  then show ?thesis using True by simp
qed (use assms(1) in \<open>simp add: for_loop_def\<close>)

section \<open>Busy waiting\<close>

text \<open>
  \<^verbatim>\<open>while (flag);\<close> on a flag that only an interrupt handler changes. The interrupts that
  arrive are not up to the waiting code: \<open>env k\<close> is what they do to the state during
  round \<open>k\<close>. The value \<open>None\<close> means that the loop never ends.
\<close>

partial_function (option) spin :: "(nat \<Rightarrow> 's \<Rightarrow> 's) \<Rightarrow> ('s \<Rightarrow> bool) \<Rightarrow> nat \<Rightarrow> 's \<Rightarrow> 's option" where
  "spin env busy k s = (if busy s then spin env busy (Suc k) (env k s) else Some s)"

primrec after :: "(nat \<Rightarrow> 's \<Rightarrow> 's) \<Rightarrow> nat \<Rightarrow> nat \<Rightarrow> 's \<Rightarrow> 's" where
  "after env k 0 s = s"
| "after env k (Suc n) s = after env (Suc k) n (env k s)"

lemma spin_ends:
  "\<forall>j<n. busy (after env k j s) \<Longrightarrow> \<not> busy (after env k n s) \<Longrightarrow>
     spin env busy k s = Some (after env k n s)"
proof (induction n arbitrary: k s)
  case 0
  then show ?case by (subst spin.simps) simp
next
  case (Suc n)
  have "\<forall>j<n. busy (after env (Suc k) j (env k s))"
    using Suc.prems(1) by (metis Suc_mono after.simps(2))
  then have "spin env busy (Suc k) (env k s) = Some (after env (Suc k) n (env k s))"
    using Suc.IH Suc.prems(2) by simp
  moreover have "busy s" using Suc.prems(1) by (metis after.simps(1) zero_less_Suc)
  ultimately show ?case by (subst spin.simps) simp
qed

lemma spin_result:
  assumes "spin env busy k s = Some t"
  shows "\<exists>n. t = after env k n s \<and> \<not> busy t \<and> (\<forall>j<n. busy (after env k j s))"
  using _ assms
proof (rule spin.raw_induct)
  fix f :: "(nat \<Rightarrow> 's \<Rightarrow> 's) \<Rightarrow> ('s \<Rightarrow> bool) \<Rightarrow> nat \<Rightarrow> 's \<Rightarrow> 's option"
    and env busy and k :: nat and s t :: 's
  assume IH: "\<And>env busy k s t. f env busy k s = Some t \<Longrightarrow>
      \<exists>n. t = after env k n s \<and> \<not> busy t \<and> (\<forall>j<n. busy (after env k j s))"
    and step: "(if busy s then f env busy (Suc k) (env k s) else Some s) = Some t"
  show "\<exists>n. t = after env k n s \<and> \<not> busy t \<and> (\<forall>j<n. busy (after env k j s))"
  proof (cases "busy s")
    case True
    then have "f env busy (Suc k) (env k s) = Some t" using step by simp
    from IH [OF this] obtain n where n: "t = after env (Suc k) n (env k s)" "\<not> busy t"
      "\<forall>j<n. busy (after env (Suc k) j (env k s))" by auto
    then have "\<forall>j<Suc n. busy (after env k j s)"
      using True by (auto simp: less_Suc_eq_0_disj)
    then show ?thesis using n by (intro exI [of _ "Suc n"]) simp
  next
    case False
    then show ?thesis using step by (intro exI [of _ 0]) auto
  qed
qed

text \<open>The wait ends exactly if some round leaves the flag down.\<close>

lemma spin_iff: "(\<exists>t. spin env busy k s = Some t) \<longleftrightarrow> (\<exists>n. \<not> busy (after env k n s))"
proof
  assume "\<exists>n. \<not> busy (after env k n s)"
  then have "\<not> busy (after env k (LEAST n. \<not> busy (after env k n s)) s)"
    by (rule LeastI_ex)
  moreover have "\<forall>j<(LEAST n. \<not> busy (after env k n s)). busy (after env k j s)"
    using not_less_Least by blast
  ultimately show "\<exists>t. spin env busy k s = Some t" using spin_ends by metis
qed (metis spin_result)

end
