(* ===== verification/Machine.thy ===== *)
theory Machine
  imports Prelude
begin

text \<open>
  The machine the kernel runs on, as far as its C code can see it: byte memory behind an
  address translation, port input/output, and the flags register.

  \<^item> \<open>ram\<close> is physical memory and \<open>xlat\<close> the translation the MMU
    currently applies to an address (it is rebuilt when CR3 is written, see theory
    \<open>Paging\<close>). Every C load or store of a byte goes through
    \<open>load\<close> and \<open>store\<close>, so two virtual addresses that are mapped
    to the same frame alias each other, as they do on the machine.
  \<^item> \<open>io_log\<close> is the history of port accesses, newest first. What a device
    answers to \<^verbatim>\<open>inb\<close> is not code of the kernel: it is the argument
    \<open>dev\<close>, a function of the history and the port.
  \<^item> \<open>eflags\<close> is the EFLAGS register; bit 9 enables interrupts.

  The component records extend this one, so that an operation of a component is an
  operation on every larger state of the kernel.
\<close>

section \<open>State\<close>

datatype io_event = Out u16 u8 | In u16 u8

type_synonym device = "io_event list \<Rightarrow> u16 \<Rightarrow> u8"

record machine =
  ram :: mem
  xlat :: "u32 \<Rightarrow> u32"
  io_log :: "io_event list"
  eflags :: u32

section \<open>Memory\<close>

definition load :: "'a machine_scheme \<Rightarrow> u32 \<Rightarrow> u8" where
  "load s a = ram s (xlat s a)"

definition store :: "u32 \<Rightarrow> u8 \<Rightarrow> 'a machine_scheme \<Rightarrow> 'a machine_scheme" where
  "store a v s = s\<lparr>ram := (ram s)(xlat s a := v)\<rparr>"

text \<open>Little-endian words, as \<^verbatim>\<open>uint32_t\<close> fields of structures in memory.\<close>

definition word_of_bytes :: "u8 \<Rightarrow> u8 \<Rightarrow> u8 \<Rightarrow> u8 \<Rightarrow> u32" where
  "word_of_bytes b0 b1 b2 b3 =
     of_nat (unat b0 + 256 * unat b1 + 65536 * unat b2 + 16777216 * unat b3)"

definition load32 :: "'a machine_scheme \<Rightarrow> u32 \<Rightarrow> u32" where
  "load32 s a = word_of_bytes (load s a) (load s (a + 1)) (load s (a + 2)) (load s (a + 3))"

text \<open>The specification side: a run of bytes read from, and written to, memory.\<close>

definition read_bytes :: "'a machine_scheme \<Rightarrow> u32 \<Rightarrow> nat \<Rightarrow> u8 list" where
  "read_bytes s a n = map (\<lambda>i. load s (a + of_nat i)) [0..<n]"

primrec write_bytes :: "u32 \<Rightarrow> u8 list \<Rightarrow> 'a machine_scheme \<Rightarrow> 'a machine_scheme" where
  "write_bytes a [] s = s"
| "write_bytes a (b # bs) s = write_bytes (a + 1) bs (store a b s)"

text \<open>
  The \<open>n\<close> bytes at \<open>a\<close> occupy \<open>n\<close> different frames
  bytes; the \<open>n\<close> bytes at \<open>a\<close> share none with the \<open>m\<close>
  bytes at \<open>b\<close>.
\<close>

definition spread :: "'a machine_scheme \<Rightarrow> u32 \<Rightarrow> nat \<Rightarrow> bool" where
  "spread s a n \<longleftrightarrow> inj_on (\<lambda>i. xlat s (a + of_nat i)) {..<n}"

definition apart :: "'a machine_scheme \<Rightarrow> u32 \<Rightarrow> nat \<Rightarrow> u32 \<Rightarrow> nat \<Rightarrow> bool" where
  "apart s a n b m \<longleftrightarrow>
     (\<forall>i<n. \<forall>j<m. xlat s (a + of_nat i) \<noteq> xlat s (b + of_nat j))"

section \<open>Ports and flags (lib.h)\<close>

definition outb :: "u8 \<Rightarrow> u16 \<Rightarrow> 'a machine_scheme \<Rightarrow> 'a machine_scheme" where
  "outb data port s = s\<lparr>io_log := Out port data # io_log s\<rparr>"

definition inb :: "device \<Rightarrow> u16 \<Rightarrow> 'a machine_scheme \<Rightarrow> u8 \<times> 'a machine_scheme" where
  "inb dev port s =
     (let v = dev (io_log s) port in (v, s\<lparr>io_log := In port v # io_log s\<rparr>))"

text \<open>\<^verbatim>\<open>io_wait\<close> writes 0 to the unused port 0x80.\<close>

definition io_wait :: "'a machine_scheme \<Rightarrow> 'a machine_scheme" where
  "io_wait s = outb 0 0x80 s"

abbreviation (input) IF_MASK :: u32 where "IF_MASK \<equiv> 0x200"

definition cli :: "'a machine_scheme \<Rightarrow> 'a machine_scheme" where
  "cli s = s\<lparr>eflags := eflags s AND NOT IF_MASK\<rparr>"

definition sti :: "'a machine_scheme \<Rightarrow> 'a machine_scheme" where
  "sti s = s\<lparr>eflags := eflags s OR IF_MASK\<rparr>"

definition cli_and_save :: "'a machine_scheme \<Rightarrow> u32 \<times> 'a machine_scheme" where
  "cli_and_save s = (eflags s, cli s)"

definition restore_flags :: "u32 \<Rightarrow> 'a machine_scheme \<Rightarrow> 'a machine_scheme" where
  "restore_flags fl s = s\<lparr>eflags := fl\<rparr>"

definition get_flags :: "'a machine_scheme \<Rightarrow> u32" where
  "get_flags s = eflags s"

section \<open>Reads over writes\<close>

lemma load_store [mem_simps]:
  "load (store a v s) b = (if xlat s b = xlat s a then v else load s b)"
  by (simp add: load_def store_def)

lemma store_frame [mem_simps, simp]:
  "xlat (store a v s) = xlat s"
  "io_log (store a v s) = io_log s"
  "eflags (store a v s) = eflags s"
  by (simp_all add: store_def)

lemma more_store [simp]: "machine.more (store a v s) = machine.more s"
  by (simp add: store_def)

lemma write_bytes_frame [mem_simps, simp]:
  "xlat (write_bytes a bs s) = xlat s"
  "io_log (write_bytes a bs s) = io_log s"
  "eflags (write_bytes a bs s) = eflags s"
  "machine.more (write_bytes a bs s) = machine.more s"
  by (induction bs arbitrary: a s) simp_all

lemma spread_store [mem_simps, simp]: "spread (store x v s) a n = spread s a n"
  by (simp add: spread_def)

lemma apart_store [mem_simps, simp]: "apart (store x v s) a n b m = apart s a n b m"
  by (simp add: apart_def)

lemma spread_write [mem_simps, simp]: "spread (write_bytes x bs s) a n = spread s a n"
  by (simp add: spread_def)

lemma apart_write [mem_simps, simp]: "apart (write_bytes x bs s) a n b m = apart s a n b m"
  by (simp add: apart_def)

lemma apart_sym: "apart s a n b m \<Longrightarrow> apart s b m a n"
  unfolding apart_def by metis

lemma apart_mono: "apart s a n b m \<Longrightarrow> n' \<le> n \<Longrightarrow> m' \<le> m \<Longrightarrow> apart s a n' b m'"
  by (auto simp: apart_def)

lemma spread_mono: "spread s a n \<Longrightarrow> m \<le> n \<Longrightarrow> spread s a m"
  unfolding spread_def by (rule inj_on_subset) auto

lemma spread_Suc_iff:
  "spread s a (Suc n) \<longleftrightarrow>
     spread s (a + 1) n \<and> (\<forall>i<n. xlat s (a + 1 + of_nat i) \<noteq> xlat s a)"
proof -
  have "inj_on (\<lambda>i. xlat s (a + of_nat i)) (Suc ` {..<n})
      \<longleftrightarrow> inj_on (\<lambda>i. xlat s (a + 1 + of_nat i)) {..<n}"
    by (simp add: inj_on_def add.assoc)
  then show ?thesis
    unfolding spread_def lessThan_Suc_eq_insert_0
    by (auto simp: add.assoc image_iff) (metis lessThan_iff)
qed

lemma apart_Suc_left: "apart s a (Suc n) b m \<Longrightarrow> apart s (a + 1) n b m"
  unfolding apart_def by (metis Suc_less_eq of_nat_Suc_shift)

lemma apart_Suc_right: "apart s a n b (Suc m) \<Longrightarrow> apart s a n (b + 1) m"
  by (rule apart_sym, rule apart_Suc_left, erule apart_sym)

lemma apart_shift:
  "apart s a n b m \<Longrightarrow> k + j \<le> m \<Longrightarrow> apart s a n (b + of_nat k) j"
  unfolding apart_def
proof (intro allI impI)
  fix i l
  assume *: "\<forall>i<n. \<forall>j<m. xlat s (a + of_nat i) \<noteq> xlat s (b + of_nat j)" "k + j \<le> m" "i < n" "l < j"
  then have "k + l < m" by simp
  with * have "xlat s (a + of_nat i) \<noteq> xlat s (b + of_nat (k + l))" by blast
  then show "xlat s (a + of_nat i) \<noteq> xlat s (b + of_nat k + of_nat l)" by (simp add: add.assoc)
qed

lemma apart_shift_left:
  "apart s a n b m \<Longrightarrow> k + j \<le> n \<Longrightarrow> apart s (a + of_nat k) j b m"
  using apart_shift [OF apart_sym, of s a n b m k j] by (blast intro: apart_sym)

lemma apart_xlat: "xlat t = xlat s \<Longrightarrow> apart t a n b m = apart s a n b m"
  by (simp add: apart_def)

lemma spread_xlat: "xlat t = xlat s \<Longrightarrow> spread t a n = spread s a n"
  by (simp add: spread_def)

lemma length_read_bytes [simp]: "length (read_bytes s a n) = n"
  by (simp add: read_bytes_def)

lemma nth_read_bytes [simp]: "i < n \<Longrightarrow> read_bytes s a n ! i = load s (a + of_nat i)"
  by (simp add: read_bytes_def)

lemma read_bytes_0 [simp]: "read_bytes s a 0 = []"
  by (simp add: read_bytes_def)

lemma read_bytes_Suc: "read_bytes s a (Suc n) = load s a # read_bytes s (a + 1) n"
  by (simp add: read_bytes_def map_upt_Cons0 add.assoc del: upt_Suc)

lemma read_bytes_add: "read_bytes s a (m + n) = read_bytes s a m @ read_bytes s (a + of_nat m) n"
  by (induction m arbitrary: a) (simp_all add: read_bytes_Suc add.assoc)

lemma take_read_bytes: "m \<le> n \<Longrightarrow> take m (read_bytes s a n) = read_bytes s a m"
  by (simp add: read_bytes_def take_map)

lemma write_bytes_append:
  "write_bytes a (xs @ ys) s = write_bytes (a + of_nat (length xs)) ys (write_bytes a xs s)"
  by (induction xs arbitrary: a s) (simp_all add: add.assoc)

lemma load_write_other:
  "(\<And>j. j < length bs \<Longrightarrow> xlat s (a + of_nat j) \<noteq> xlat s b) \<Longrightarrow>
     load (write_bytes a bs s) b = load s b"
proof (induction bs arbitrary: a s)
  case (Cons x xs)
  have "load (write_bytes (a + 1) xs (store a x s)) b = load (store a x s) b"
  proof (rule Cons.IH)
    fix j assume "j < length xs"
    then show "xlat (store a x s) (a + 1 + of_nat j) \<noteq> xlat (store a x s) b"
      using Cons.prems [of "Suc j"] by (simp add: add.assoc)
  qed
  moreover have "xlat s b \<noteq> xlat s a" using Cons.prems [of 0] by simp
  ultimately show ?case by (simp add: load_store)
qed simp

lemma load_write_nth:
  "spread s a (length bs) \<Longrightarrow> i < length bs \<Longrightarrow> load (write_bytes a bs s) (a + of_nat i) = bs ! i"
proof (induction bs arbitrary: a s i)
  case (Cons x xs)
  from Cons.prems(1) have sp: "spread s (a + 1) (length xs)"
    and ne: "\<And>j. j < length xs \<Longrightarrow> xlat s (a + 1 + of_nat j) \<noteq> xlat s a"
    by (auto simp: spread_Suc_iff)
  show ?case
  proof (cases i)
    case 0
    have "load (write_bytes (a + 1) xs (store a x s)) a = load (store a x s) a"
      by (rule load_write_other) (simp add: ne)
    with 0 show ?thesis by (simp add: load_store)
  next
    case (Suc k)
    then show ?thesis using Cons.IH [of "store a x s" "a + 1" k] Cons.prems(2) sp
      by (simp add: add.assoc)
  qed
qed simp

lemma read_write_same:
  "spread s a (length bs) \<Longrightarrow> read_bytes (write_bytes a bs s) a (length bs) = bs"
  by (rule nth_equalityI) (simp_all add: load_write_nth)

lemma read_write_apart:
  "apart s a (length bs) b n \<Longrightarrow> read_bytes (write_bytes a bs s) b n = read_bytes s b n"
  by (rule nth_equalityI) (auto simp: apart_def intro: load_write_other)

lemma machine_eqI:
  "ram s = ram t \<Longrightarrow> xlat s = xlat t \<Longrightarrow> io_log s = io_log t \<Longrightarrow> eflags s = eflags t \<Longrightarrow>
     machine.more s = machine.more t \<Longrightarrow> s = (t :: 'a machine_scheme)"
  by simp

text \<open>Stores to different frames commute, so disjoint writes may be reordered.\<close>

lemma store_commute:
  "xlat s a \<noteq> xlat s b \<Longrightarrow> store a v (store b w s) = store b w (store a v s)"
  by (simp add: store_def fun_upd_twist)

lemma store_write_commute:
  "(\<And>j. j < length bs \<Longrightarrow> xlat s (b + of_nat j) \<noteq> xlat s a) \<Longrightarrow>
     store a v (write_bytes b bs s) = write_bytes b bs (store a v s)"
proof (induction bs arbitrary: b s)
  case (Cons x xs)
  have "store a v (write_bytes (b + 1) xs (store b x s))
      = write_bytes (b + 1) xs (store a v (store b x s))"
  proof (rule Cons.IH)
    fix j assume "j < length xs"
    then show "xlat (store b x s) (b + 1 + of_nat j) \<noteq> xlat (store b x s) a"
      using Cons.prems [of "Suc j"] by (simp add: add.assoc)
  qed
  also have "store a v (store b x s) = store b x (store a v s)"
    using Cons.prems [of 0] by (intro store_commute) auto
  finally show ?case by simp
qed simp

lemma spread_distinct:
  "spread s a n \<Longrightarrow> i < n \<Longrightarrow> j < n \<Longrightarrow> i \<noteq> j \<Longrightarrow> xlat s (a + of_nat i) \<noteq> xlat s (a + of_nat j)"
  unfolding spread_def by (metis inj_onD lessThan_iff)

lemma write_bytes_snoc:
  "spread s a (Suc (length bs)) \<Longrightarrow>
     write_bytes a (bs @ [v]) s = write_bytes a bs (store (a + of_nat (length bs)) v s)"
  using spread_distinct [of s a "Suc (length bs)" _ "length bs"]
  by (simp add: write_bytes_append) (intro store_write_commute, simp)

text \<open>A region of distinct bytes behaves as an array: its content can be replaced as a whole.\<close>

lemma store_load_id: "store a (load s a) s = s"
  by (simp add: store_def load_def)

lemma store_store_same [simp]: "store a v (store a w s) = store a v s"
  by (simp add: store_def)

lemma write_read_id: "write_bytes a (read_bytes s a n) s = s"
  by (induction n arbitrary: a) (simp_all add: read_bytes_Suc store_load_id)

lemma write_write_same:
  "length xs = length ys \<Longrightarrow> spread s a (length ys) \<Longrightarrow>
     write_bytes a xs (write_bytes a ys s) = write_bytes a xs s"
proof (induction xs ys arbitrary: a s rule: list_induct2)
  case (Cons x xs y ys)
  then have sp: "spread s (a + 1) (length ys)"
    and ne: "\<And>j. j < length ys \<Longrightarrow> xlat s (a + 1 + of_nat j) \<noteq> xlat s a"
    by (auto simp: spread_Suc_iff)
  have "store a x (write_bytes (a + 1) ys (store a y s)) = write_bytes (a + 1) ys (store a x s)"
    using ne by (subst store_write_commute) simp_all
  then show ?case using Cons.IH [of "store a x s" "a + 1"] sp by simp
qed simp

lemma drop_read_bytes: "drop m (read_bytes s a n) = read_bytes s (a + of_nat m) (n - m)"
  by (rule nth_equalityI) (simp_all add: add.assoc)

lemma store_as_update:
  assumes "spread s a n" and "i < n"
  shows "store (a + of_nat i) v s = write_bytes a ((read_bytes s a n)[i := v]) s"
proof -
  let ?xs = "read_bytes s a n" and ?t = "store (a + of_nat i) v s"
  have same: "read_bytes ?t (a + of_nat (Suc i)) (n - Suc i) = drop (Suc i) ?xs"
  proof (rule nth_equalityI)
    fix j assume "j < length (read_bytes ?t (a + of_nat (Suc i)) (n - Suc i))"
    then have j: "j < n - Suc i" by simp
    then have "xlat s (a + of_nat (Suc i + j)) \<noteq> xlat s (a + of_nat i)"
      using assms inj_onD [of _ "{..<n}" "Suc i + j" i] unfolding spread_def by fastforce
    then show "read_bytes ?t (a + of_nat (Suc i)) (n - Suc i) ! j = drop (Suc i) ?xs ! j"
      using j assms(2) by (simp add: load_store add.assoc)
  qed simp
  have "write_bytes a (?xs[i := v]) s = write_bytes a (take i ?xs @ v # drop (Suc i) ?xs) s"
    using assms(2) by (simp add: upd_conv_take_nth_drop)
  also have "\<dots> = write_bytes (a + of_nat (Suc i)) (drop (Suc i) ?xs) ?t"
    using assms(2) by (simp add: write_bytes_append take_read_bytes write_read_id add.commute add.left_commute)
  also have "\<dots> = ?t" unfolding same [symmetric] by (rule write_read_id)
  finally show ?thesis by simp
qed

section \<open>Flags\<close>

lemma flag_ops_frame [frame_simps, simp]:
  "ram (cli s) = ram s" "xlat (cli s) = xlat s" "io_log (cli s) = io_log s"
  "ram (sti s) = ram s" "xlat (sti s) = xlat s" "io_log (sti s) = io_log s"
  "ram (restore_flags f s) = ram s" "xlat (restore_flags f s) = xlat s"
  "io_log (restore_flags f s) = io_log s"
  by (simp_all add: cli_def sti_def restore_flags_def)

lemma outb_frame [frame_simps, simp]:
  "ram (outb d p s) = ram s" "xlat (outb d p s) = xlat s" "eflags (outb d p s) = eflags s"
  "io_log (outb d p s) = Out p d # io_log s"
  "machine.more (outb d p s) = machine.more s"
  by (simp_all add: outb_def)

lemma write_bytes_ram: "q \<notin> (\<lambda>i. xlat s (a + of_nat i)) ` {..<length bs} \<Longrightarrow> ram (write_bytes a bs s) q = ram s q"
proof (induction bs arbitrary: a s)
  case (Cons b bs)
  have "q \<noteq> xlat s a" using Cons.prems image_eqI [of "xlat s a" "\<lambda>i. xlat s (a + of_nat i)" 0 "{..<length (b # bs)}"] by auto
  moreover have "q \<notin> (\<lambda>i. xlat (store a b s) (a + 1 + of_nat i)) ` {..<length bs}"
  proof
    assume "q \<in> (\<lambda>i. xlat (store a b s) (a + 1 + of_nat i)) ` {..<length bs}"
    then obtain i where "i < length bs" "q = xlat s (a + 1 + of_nat i)" by auto
    then have "q = xlat s (a + of_nat (Suc i))" "Suc i < length (b # bs)" by (simp_all add: add.assoc)
    then show False using Cons.prems by blast
  qed
  ultimately show ?case using Cons.IH [of "store a b s" "a + 1"] by (simp add: store_def)
qed simp

end
