(* ===== verification/Lib_Memory.thy ===== *)
theory Lib_Memory
  imports Machine
begin

text \<open>
  The block memory routines of \<^verbatim>\<open>student-distrib/lib.c\<close>
  (\<^verbatim>\<open>memset\<close>, \<^verbatim>\<open>memset_word\<close>, \<^verbatim>\<open>memset_dword\<close>, \<^verbatim>\<open>memcpy\<close>,
  \<^verbatim>\<open>memmove\<close>). They are inline assembly; each definition follows the instructions:
  a register is an argument, a backward jump is a recursive call, and \<^verbatim>\<open>rep\<close>
  repeats a string instruction \<open>ecx\<close> times. The theorems say that the routines,
  which move four bytes at a time once the destination is aligned, have the same effect
  as one run of byte writes.
\<close>

section \<open>String instructions\<close>

definition movsb :: "u32 \<Rightarrow> u32 \<Rightarrow> 'a machine_scheme \<Rightarrow> 'a machine_scheme" where
  "movsb esi edi s = store edi (load s esi) s"

text \<open>A doubleword is loaded whole before any of it is stored.\<close>

definition store32 :: "u32 \<Rightarrow> u32 \<Rightarrow> 'a machine_scheme \<Rightarrow> 'a machine_scheme" where
  "store32 a w s = write_bytes a
     [ucast w, ucast (drop_bit 8 w), ucast (drop_bit 16 w), ucast (drop_bit 24 w)] s"

definition movsl :: "u32 \<Rightarrow> u32 \<Rightarrow> 'a machine_scheme \<Rightarrow> 'a machine_scheme" where
  "movsl esi edi s = write_bytes edi (read_bytes s esi 4) s"

fun rep_movsl :: "nat \<Rightarrow> u32 \<Rightarrow> u32 \<Rightarrow> 'a machine_scheme \<Rightarrow> 'a machine_scheme" where
  "rep_movsl 0 esi edi s = s"
| "rep_movsl (Suc ecx) esi edi s = rep_movsl ecx (esi + 4) (edi + 4) (movsl esi edi s)"

fun rep_stosl :: "nat \<Rightarrow> u32 \<Rightarrow> u32 \<Rightarrow> 'a machine_scheme \<Rightarrow> 'a machine_scheme" where
  "rep_stosl 0 eax edi s = s"
| "rep_stosl (Suc ecx) eax edi s = rep_stosl ecx eax (edi + 4) (store32 edi eax s)"

fun rep_stosw :: "nat \<Rightarrow> u32 \<Rightarrow> u32 \<Rightarrow> 'a machine_scheme \<Rightarrow> 'a machine_scheme" where
  "rep_stosw 0 eax edi s = s"
| "rep_stosw (Suc ecx) eax edi s =
     rep_stosw ecx eax (edi + 2) (write_bytes edi [ucast eax, ucast (drop_bit 8 eax)] s)"

text \<open>\<open>rep movsb\<close> with the direction flag clear (step 1) or set (step -1).\<close>

fun rep_movsb :: "u32 \<Rightarrow> nat \<Rightarrow> u32 \<Rightarrow> u32 \<Rightarrow> 'a machine_scheme \<Rightarrow> 'a machine_scheme" where
  "rep_movsb d 0 esi edi s = s"
| "rep_movsb d (Suc ecx) esi edi s = rep_movsb d ecx (esi + d) (edi + d) (movsb esi edi s)"

section \<open>memset\<close>

text \<open>The loop at \<^verbatim>\<open>.memset_bottom\<close>: the last one to three bytes.\<close>

fun memset_bottom :: "nat \<Rightarrow> u32 \<Rightarrow> u32 \<Rightarrow> 'a machine_scheme \<Rightarrow> 'a machine_scheme" where
  "memset_bottom 0 eax edi s = s"
| "memset_bottom (Suc edx) eax edi s = memset_bottom edx eax (edi + 1) (store edi (ucast eax) s)"

text \<open>The loop at \<^verbatim>\<open>.memset_top\<close>: single bytes until the destination is aligned.\<close>

fun memset_top :: "nat \<Rightarrow> u32 \<Rightarrow> u32 \<Rightarrow> 'a machine_scheme \<Rightarrow> 'a machine_scheme" where
  "memset_top 0 eax edi s = s"
| "memset_top (Suc ecx) eax edi s =
     (if edi AND 3 = 0
      then memset_bottom (Suc ecx mod 4) eax (edi + of_nat (4 * (Suc ecx div 4)))
             (rep_stosl (Suc ecx div 4) eax edi s)
      else memset_top ecx eax (edi + 1) (store edi (ucast eax) s))"

definition memset :: "u32 \<Rightarrow> u32 \<Rightarrow> u32 \<Rightarrow> 'a machine_scheme \<Rightarrow> 'a machine_scheme" where
  "memset a c n s =
     (let c = c AND 0xFF
      in memset_top (unat n) (push_bit 24 c OR push_bit 16 c OR push_bit 8 c OR c) a s)"

definition memset_word :: "u32 \<Rightarrow> u32 \<Rightarrow> u32 \<Rightarrow> 'a machine_scheme \<Rightarrow> 'a machine_scheme" where
  "memset_word a c n s = rep_stosw (unat n) c a s"

definition memset_dword :: "u32 \<Rightarrow> u32 \<Rightarrow> u32 \<Rightarrow> 'a machine_scheme \<Rightarrow> 'a machine_scheme" where
  "memset_dword a c n s = rep_stosl (unat n) c a s"

section \<open>memcpy and memmove\<close>

fun memcpy_bottom :: "nat \<Rightarrow> u32 \<Rightarrow> u32 \<Rightarrow> 'a machine_scheme \<Rightarrow> 'a machine_scheme" where
  "memcpy_bottom 0 esi edi s = s"
| "memcpy_bottom (Suc edx) esi edi s = memcpy_bottom edx (esi + 1) (edi + 1) (movsb esi edi s)"

fun memcpy_top :: "nat \<Rightarrow> u32 \<Rightarrow> u32 \<Rightarrow> 'a machine_scheme \<Rightarrow> 'a machine_scheme" where
  "memcpy_top 0 esi edi s = s"
| "memcpy_top (Suc ecx) esi edi s =
     (if edi AND 3 = 0
      then memcpy_bottom (Suc ecx mod 4)
             (esi + of_nat (4 * (Suc ecx div 4))) (edi + of_nat (4 * (Suc ecx div 4)))
             (rep_movsl (Suc ecx div 4) esi edi s)
      else memcpy_top ecx (esi + 1) (edi + 1) (movsb esi edi s))"

definition memcpy :: "u32 \<Rightarrow> u32 \<Rightarrow> u32 \<Rightarrow> 'a machine_scheme \<Rightarrow> 'a machine_scheme" where
  "memcpy dest src n s = memcpy_top (unat n) src dest s"

definition memmove :: "u32 \<Rightarrow> u32 \<Rightarrow> u32 \<Rightarrow> 'a machine_scheme \<Rightarrow> 'a machine_scheme" where
  "memmove dest src n s =
     (if dest \<le> src then rep_movsb 1 (unat n) src dest s
      else rep_movsb (- 1) (unat n) (src + n - 1) (dest + n - 1) s)"

section \<open>memset fills exactly its range\<close>

definition fill_word :: "u8 \<Rightarrow> u32" where
  "fill_word b = (let c = ucast b in push_bit 24 c OR push_bit 16 c OR push_bit 8 c OR c)"

lemma mask_u8: "(mask 8 :: u32) = 0xFF"
  by (simp add: mask_eq_exp_minus_1)

lemma fill_word_bytes:
  "ucast (fill_word b) = b" "ucast (drop_bit 8 (fill_word b)) = b"
  "ucast (drop_bit 16 (fill_word b)) = b" "ucast (drop_bit 24 (fill_word b)) = b"
  by (rule bit_word_eqI;
      auto simp: fill_word_def bit_simps Let_def dest: bit_imp_le_length)+

lemma memset_bottom_eq:
  "memset_bottom n eax a s = write_bytes a (replicate n (ucast eax)) s"
  by (induction n arbitrary: a s) simp_all

lemma store32_fill: "store32 a (fill_word b) s = write_bytes a (replicate 4 b) s"
proof -
  have "replicate 4 b = [b, b, b, b]" by (simp add: numeral_eq_Suc)
  then show ?thesis by (simp add: store32_def fill_word_bytes)
qed

lemma rep_stosl_fill:
  "rep_stosl n (fill_word b) a s = write_bytes a (replicate (4 * n) b) s"
proof (induction n arbitrary: a s)
  case (Suc n)
  have "replicate (4 * Suc n) b = replicate 4 b @ replicate (4 * n) b"
    by (simp flip: replicate_add)
  then show ?case using Suc by (simp add: store32_fill write_bytes_append)
qed simp

lemma memset_top_fill:
  "memset_top n (fill_word b) a s = write_bytes a (replicate n b) s"
proof (induction n arbitrary: a s)
  case (Suc ecx)
  show ?case
  proof (cases "a AND 3 = 0")
    case True
    let ?q = "Suc ecx div 4" and ?r = "Suc ecx mod 4"
    have "replicate (Suc ecx) b = replicate (4 * ?q) b @ replicate ?r b"
      by (simp flip: replicate_add)
    with True show ?thesis
      by (simp add: memset_bottom_eq rep_stosl_fill fill_word_bytes write_bytes_append
            del: replicate_Suc write_bytes.simps)
  qed (simp add: Suc fill_word_bytes)
qed simp

lemma memset_eq: "memset a c n s = write_bytes a (replicate (unat n) (ucast c)) s"
proof -
  have "c AND 0xFF = ucast (ucast c :: u8)"
    by (rule bit_word_eqI)
      (auto simp: bit_simps bit_mask_iff simp flip: mask_u8)
  then show ?thesis by (simp add: memset_def Let_def fill_word_def flip: memset_top_fill)
qed

section \<open>memcpy copies\<close>

lemma movsb_eq: "movsb a b s = write_bytes b (read_bytes s a 1) s"
  by (simp add: movsb_def read_bytes_Suc)

text \<open>
  One block move followed by the rest of the copy is the whole copy, when source and
  destination share no byte.
\<close>

lemma copy_step:
  assumes "apart s src (k + n) dst (k + n)"
  shows "write_bytes (dst + of_nat k)
           (read_bytes (write_bytes dst (read_bytes s src k) s) (src + of_nat k) n)
           (write_bytes dst (read_bytes s src k) s)
       = write_bytes dst (read_bytes s src (k + n)) s"
proof -
  have "apart s dst k (src + of_nat k) n"
    unfolding apart_def
  proof (intro allI impI)
    fix i j assume "i < k" "j < n"
    then show "xlat s (dst + of_nat i) \<noteq> xlat s (src + of_nat k + of_nat j)"
      using assms [unfolded apart_def, rule_format, of "k + j" i] by (simp add: add.assoc)
  qed
  then show ?thesis by (simp add: read_bytes_add write_bytes_append read_write_apart)
qed

lemma apart_advance:
  "apart s a (k + n) b (k + n) \<Longrightarrow> apart s (a + of_nat k) n (b + of_nat k) n"
  by (auto simp: apart_def add.assoc simp flip: of_nat_add)

lemma memcpy_bottom_eq:
  "apart s src n dst n \<Longrightarrow> memcpy_bottom n src dst s = write_bytes dst (read_bytes s src n) s"
proof (induction n arbitrary: src dst s)
  case (Suc n)
  have "memcpy_bottom n (src + 1) (dst + 1) (movsb src dst s)
      = write_bytes (dst + 1) (read_bytes (movsb src dst s) (src + 1) n) (movsb src dst s)"
    using apart_advance [of s src 1 n dst] Suc.prems
    by (intro Suc.IH) (simp add: movsb_def)
  then show ?case using copy_step [of s src 1 n dst] Suc.prems by (simp add: movsb_eq)
qed simp

lemma rep_movsl_eq:
  "apart s src (4 * n) dst (4 * n) \<Longrightarrow>
     rep_movsl n src dst s = write_bytes dst (read_bytes s src (4 * n)) s"
proof (induction n arbitrary: src dst s)
  case (Suc n)
  have "rep_movsl n (src + 4) (dst + 4) (movsl src dst s)
      = write_bytes (dst + 4) (read_bytes (movsl src dst s) (src + 4) (4 * n)) (movsl src dst s)"
    using apart_advance [of s src 4 "4 * n" dst] Suc.prems
    by (intro Suc.IH) (simp add: movsl_def)
  then show ?case using copy_step [of s src 4 "4 * n" dst] Suc.prems by (simp add: movsl_def)
qed simp

lemma memcpy_top_eq:
  "apart s src n dst n \<Longrightarrow> memcpy_top n src dst s = write_bytes dst (read_bytes s src n) s"
proof (induction n src dst s rule: memcpy_top.induct)
  case (2 ecx esi edi s)
  let ?q = "Suc ecx div 4" and ?r = "Suc ecx mod 4"
  have split: "4 * ?q + ?r = Suc ecx" by simp
  show ?case
  proof (cases "edi AND 3 = 0")
    case True
    have a: "apart s esi (4 * ?q + ?r) edi (4 * ?q + ?r)" using "2.prems" split by simp
    have b: "rep_movsl ?q esi edi s = write_bytes edi (read_bytes s esi (4 * ?q)) s"
      using a by (intro rep_movsl_eq) (rule apart_mono, auto)
    have "memcpy_bottom ?r (esi + of_nat (4 * ?q)) (edi + of_nat (4 * ?q)) (rep_movsl ?q esi edi s)
      = write_bytes (edi + of_nat (4 * ?q))
          (read_bytes (rep_movsl ?q esi edi s) (esi + of_nat (4 * ?q)) ?r) (rep_movsl ?q esi edi s)"
      using apart_advance [OF a] b by (intro memcpy_bottom_eq) simp
    then show ?thesis using True copy_step [OF a] b split by simp
  next
    case False
    have "memcpy_top ecx (esi + 1) (edi + 1) (movsb esi edi s)
      = write_bytes (edi + 1) (read_bytes (movsb esi edi s) (esi + 1) ecx) (movsb esi edi s)"
      using apart_advance [of s esi 1 ecx edi] "2.prems" False
      by (intro "2.IH") (simp_all add: movsb_def)
    then show ?thesis using False copy_step [of s esi 1 ecx edi] "2.prems" by (simp add: movsb_eq)
  qed
qed simp

lemma memcpy_eq:
  "apart s src (unat n) dst (unat n) \<Longrightarrow>
     memcpy dst src n s = write_bytes dst (read_bytes s src (unat n)) s"
  by (simp add: memcpy_def memcpy_top_eq)

section \<open>memmove copies, overlapping or not\<close>

lemma rep_movsb_forward:
  assumes "\<And>j k. j < k \<Longrightarrow> k < n \<Longrightarrow> xlat s (dst + of_nat j) \<noteq> xlat s (src + of_nat k)"
  shows "rep_movsb 1 n src dst s = write_bytes dst (read_bytes s src n) s"
  using assms
proof (induction n arbitrary: src dst s)
  case (Suc n)
  let ?t = "movsb src dst s"
  have "rep_movsb 1 n (src + 1) (dst + 1) ?t
      = write_bytes (dst + 1) (read_bytes ?t (src + 1) n) ?t"
  proof (rule Suc.IH)
    fix j k assume "j < k" "k < n"
    then show "xlat ?t (dst + 1 + of_nat j) \<noteq> xlat ?t (src + 1 + of_nat k)"
      using Suc.prems [of "Suc j" "Suc k"] by (simp add: movsb_def add.assoc)
  qed
  moreover have "read_bytes ?t (src + 1) n = read_bytes s (src + 1) n"
  proof (rule nth_equalityI)
    fix i assume "i < length (read_bytes ?t (src + 1) n)"
    then show "read_bytes ?t (src + 1) n ! i = read_bytes s (src + 1) n ! i"
      using Suc.prems [of 0 "Suc i"] by (simp add: movsb_def load_store add.assoc eq_commute)
  qed simp
  ultimately show ?case by (simp add: read_bytes_Suc movsb_def)
qed simp

lemma rep_movsb_backward:
  assumes "\<And>j k. k < j \<Longrightarrow> j < n \<Longrightarrow> xlat s (dst + of_nat j) \<noteq> xlat s (src + of_nat k)"
    and "spread s dst n"
  shows "rep_movsb (- 1) n (src + of_nat n - 1) (dst + of_nat n - 1) s
       = write_bytes dst (read_bytes s src n) s"
  using assms
proof (induction n arbitrary: s)
  case (Suc n)
  let ?t = "movsb (src + of_nat n) (dst + of_nat n) s"
  have "rep_movsb (- 1) n (src + of_nat n - 1) (dst + of_nat n - 1) ?t
      = write_bytes dst (read_bytes ?t src n) ?t"
  proof (rule Suc.IH)
    show "xlat ?t (dst + of_nat j) \<noteq> xlat ?t (src + of_nat k)" if "k < j" "j < n" for j k
      using Suc.prems(1) [of k j] that by (simp add: movsb_def)
    show "spread ?t dst n" using Suc.prems(2) by (simp add: movsb_def spread_mono)
  qed
  moreover have "read_bytes ?t src n = read_bytes s src n"
  proof (rule nth_equalityI)
    fix i assume "i < length (read_bytes ?t src n)"
    then show "read_bytes ?t src n ! i = read_bytes s src n ! i"
      using Suc.prems(1) [of i n] by (simp add: movsb_def load_store eq_commute)
  qed simp
  moreover have "store (dst + of_nat n) v (write_bytes dst bs s)
      = write_bytes dst bs (store (dst + of_nat n) v s)" if "length bs = n" for v bs
    using Suc.prems(2) that
    by (intro store_write_commute) (fastforce simp: spread_def inj_on_def)
  ultimately show ?case
    using read_bytes_add [of s src n 1]
    by (simp add: write_bytes_append read_bytes_Suc movsb_def algebra_simps)
qed simp

lemma u32_add_less_iff:
  "unat (a :: u32) + n \<le> 4294967296 \<Longrightarrow> i < n \<Longrightarrow> unat (a + of_nat i) = unat a + i"
  by (simp add: unat_word_ariths unat_of_nat take_bit_nat_eq_self)

lemma memmove_eq:
  assumes inj: "inj_on (xlat s) ((\<lambda>i. src + of_nat i) ` {..<unat n} \<union> (\<lambda>i. dst + of_nat i) ` {..<unat n})"
    and src: "unat src + unat n \<le> 4294967296" and dst: "unat dst + unat n \<le> 4294967296"
  shows "memmove dst src n s = write_bytes dst (read_bytes s src (unat n)) s"
proof -
  have ne: "xlat s (dst + of_nat j) \<noteq> xlat s (src + of_nat k)"
    if "j < unat n" "k < unat n" "unat dst + j \<noteq> unat src + k" for j k
  proof
    assume "xlat s (dst + of_nat j) = xlat s (src + of_nat k)"
    then have "dst + of_nat j = src + of_nat k"
      using inj that(1,2) by (auto dest: inj_onD)
    then have "unat (dst + of_nat j) = unat (src + of_nat k)" by simp
    then show False using that u32_add_less_iff [OF src] u32_add_less_iff [OF dst] by simp
  qed
  show ?thesis
  proof (cases "dst \<le> src")
    case True
    then have "unat dst \<le> unat src" by (simp add: word_le_nat_alt)
    then show ?thesis using True
      by (simp add: memmove_def) (rule rep_movsb_forward, rule ne, auto)
  next
    case False
    then have lt: "unat src < unat dst" by (simp add: word_le_nat_alt)
    have "spread s dst (unat n)"
      unfolding spread_def
    proof (rule inj_onI)
      fix i j assume "i \<in> {..<unat n}" "j \<in> {..<unat n}"
        and "xlat s (dst + of_nat i) = xlat s (dst + of_nat j)"
      then have "dst + of_nat i = dst + of_nat j" and "i < 4294967296" and "j < 4294967296"
        using inj unat_u32_less [of n] by (auto dest: inj_onD simp del: unat_u32_less)
      then show "i = j" by simp
    qed
    then have "rep_movsb (- 1) (unat n) (src + of_nat (unat n) - 1) (dst + of_nat (unat n) - 1) s
       = write_bytes dst (read_bytes s src (unat n)) s"
      using lt by (intro rep_movsb_backward ne) auto
    then show ?thesis using False by (simp add: memmove_def)
  qed
qed

end
