(* ===== verification/Lib_String.thy ===== *)
theory Lib_String
  imports Lib_Memory
begin

text \<open>
  The string routines of \<^verbatim>\<open>student-distrib/lib.c\<close>: \<^verbatim>\<open>strlen\<close>,
  \<^verbatim>\<open>strcpy\<close>, \<^verbatim>\<open>strncpy\<close>, \<^verbatim>\<open>strncmp\<close>, \<^verbatim>\<open>strrev\<close>
  and \<^verbatim>\<open>itoa\<close>, on the byte memory of theory \<open>Machine\<close>.
  A loop that only stops at a terminating zero is a
  \<^theory_text>\<open>partial_function (option)\<close>: \<open>None\<close> is a loop that does not
  end (or, in \<^verbatim>\<open>itoa\<close>, the divide error of radix 0). The theorems give the
  result on well-formed strings, so they include termination.
\<close>

section \<open>Definitions\<close>

partial_function (option) strlen_from :: "'a machine_scheme \<Rightarrow> u32 \<Rightarrow> u32 \<Rightarrow> u32 option" where
  "strlen_from s p len = (if load s (p + len) \<noteq> 0 then strlen_from s p (len + 1) else Some len)"

definition strlen :: "'a machine_scheme \<Rightarrow> u32 \<Rightarrow> u32 option" where
  "strlen s p = strlen_from s p 0"

partial_function (option) strcpy_from ::
    "u32 \<Rightarrow> u32 \<Rightarrow> u32 \<Rightarrow> 'a machine_scheme \<Rightarrow> 'a machine_scheme option" where
  "strcpy_from dest src i s =
     (if load s (src + i) \<noteq> 0
      then strcpy_from dest src (i + 1) (store (dest + i) (load s (src + i)) s)
      else Some (store (dest + i) 0 s))"

definition strcpy :: "u32 \<Rightarrow> u32 \<Rightarrow> 'a machine_scheme \<Rightarrow> 'a machine_scheme option" where
  "strcpy dest src s = strcpy_from dest src 0 s"

text \<open>The two loops of \<^verbatim>\<open>strncpy\<close>: copy up to the terminator, then pad with zeros.\<close>

function strncpy_copy ::
    "u32 \<Rightarrow> u32 \<Rightarrow> nat \<Rightarrow> nat \<Rightarrow> 'a machine_scheme \<Rightarrow> nat \<times> 'a machine_scheme" where
  "strncpy_copy dest src n i s =
     (if load s (src + of_nat i) \<noteq> 0 \<and> i < n
      then strncpy_copy dest src n (Suc i)
             (store (dest + of_nat i) (load s (src + of_nat i)) s)
      else (i, s))"
  by pat_completeness auto
termination
  by (relation "measure (\<lambda>(dest, src, n, i, s). n - i)") auto

function strncpy_pad :: "u32 \<Rightarrow> nat \<Rightarrow> nat \<Rightarrow> 'a machine_scheme \<Rightarrow> 'a machine_scheme" where
  "strncpy_pad dest n i s =
     (if i < n then strncpy_pad dest n (Suc i) (store (dest + of_nat i) 0 s) else s)"
  by pat_completeness auto
termination
  by (relation "measure (\<lambda>(dest, n, i, s). n - i)") auto

definition strncpy :: "u32 \<Rightarrow> u32 \<Rightarrow> u32 \<Rightarrow> 'a machine_scheme \<Rightarrow> 'a machine_scheme" where
  "strncpy dest src n s =
     (let (i, s') = strncpy_copy dest src (unat n) 0 s in strncpy_pad dest (unat n) i s')"

text \<open>\<^verbatim>\<open>int8_t\<close> is a signed \<^verbatim>\<open>char\<close>: the difference of two bytes is signed.\<close>

function strncmp_from :: "'a machine_scheme \<Rightarrow> u32 \<Rightarrow> u32 \<Rightarrow> nat \<Rightarrow> nat \<Rightarrow> int" where
  "strncmp_from s s1 s2 n i =
     (if i < n then
        let a = load s (s1 + of_nat i); b = load s (s2 + of_nat i)
        in if a \<noteq> b \<or> a = 0 then sint a - sint b else strncmp_from s s1 s2 n (Suc i)
      else 0)"
  by pat_completeness auto
termination
  by (relation "measure (\<lambda>(s, s1, s2, n, i). n - i)") auto

definition strncmp :: "'a machine_scheme \<Rightarrow> u32 \<Rightarrow> u32 \<Rightarrow> u32 \<Rightarrow> int" where
  "strncmp s s1 s2 n = strncmp_from s s1 s2 (unat n) 0"

text \<open>The swap loop of \<^verbatim>\<open>strrev\<close>; \<open>beg\<close> and \<open>end\<close> are the C variables.\<close>

function strrev_loop :: "u32 \<Rightarrow> int \<Rightarrow> int \<Rightarrow> 'a machine_scheme \<Rightarrow> 'a machine_scheme" where
  "strrev_loop p beg end s =
     (if beg < end then
        let tmp = load s (p + of_int end);
            s = store (p + of_int end) (load s (p + of_int beg)) s;
            s = store (p + of_int beg) tmp s
        in strrev_loop p (beg + 1) (end - 1) s
      else s)"
  by pat_completeness auto
termination
  by (relation "measure (\<lambda>(p, b, e, s). nat (e - b))") auto

definition strrev :: "u32 \<Rightarrow> 'a machine_scheme \<Rightarrow> 'a machine_scheme option" where
  "strrev p s = (case strlen s p of None \<Rightarrow> None
     | Some len \<Rightarrow> Some (strrev_loop p 0 (sint (len - 1)) s))"

definition itoa_lookup :: "u8 list" where
  "itoa_lookup = bytes_of ''0123456789ABCDEFGHIJKLMNOPQRSTUVWXYZ'' @ [0]"

partial_function (option) itoa_digits ::
    "u32 \<Rightarrow> u32 \<Rightarrow> u32 \<Rightarrow> 'a machine_scheme \<Rightarrow> 'a machine_scheme option" where
  "itoa_digits newbuf newval radix s =
     (if newval > 0 then
        if radix = 0 then None
        else itoa_digits (newbuf + 1) (newval div radix) radix
               (store newbuf (itoa_lookup ! unat (newval mod radix)) s)
      else Some (store newbuf 0 s))"

definition itoa :: "u32 \<Rightarrow> u32 \<Rightarrow> u32 \<Rightarrow> 'a machine_scheme \<Rightarrow> 'a machine_scheme option" where
  "itoa val buf radix s =
     (if val = 0 then Some (store (buf + 1) 0 (store buf (of_char (CHR ''0'')) s))
      else case itoa_digits buf val radix s of None \<Rightarrow> None | Some s' \<Rightarrow> strrev buf s')"

declare strncpy_copy.simps [simp del] strncpy_pad.simps [simp del]
  strncmp_from.simps [simp del] strrev_loop.simps [simp del]

section \<open>Strings in memory\<close>

text \<open>The C string at \<open>p\<close> is \<open>bs\<close>: no zero inside, a zero after.\<close>

definition cstr :: "'a machine_scheme \<Rightarrow> u32 \<Rightarrow> u8 list \<Rightarrow> bool" where
  "cstr s p bs \<longleftrightarrow> 0 \<notin> set bs \<and> length bs < 4294967296 \<and>
     read_bytes s p (length bs) = bs \<and> load s (p + of_nat (length bs)) = 0"

lemma cstr_nth: "cstr s p bs \<Longrightarrow> i < length bs \<Longrightarrow> load s (p + of_nat i) = bs ! i"
  by (metis cstr_def nth_read_bytes)

lemma cstr_nth_nz: "cstr s p bs \<Longrightarrow> i < length bs \<Longrightarrow> load s (p + of_nat i) \<noteq> 0"
  by (metis cstr_def nth_mem cstr_nth)

lemma cstr_end: "cstr s p bs \<Longrightarrow> load s (p + of_nat (length bs)) = 0"
  by (simp add: cstr_def)

lemma cstr_unique:
  assumes "cstr s p xs" and "cstr s p ys"
  shows "xs = ys"
proof -
  have "length xs = length ys"
    using assms by (metis cstr_end cstr_nth_nz linorder_neqE_nat)
  then show ?thesis using assms by (metis cstr_def)
qed

lemma cstr_write:
  assumes "0 \<notin> set bs" and "length bs < 4294967296" and "spread s p (Suc (length bs))"
  shows "cstr (write_bytes p (bs @ [0]) s) p bs"
proof -
  let ?t = "write_bytes p (bs @ [0]) s"
  have "read_bytes ?t p (length bs) = take (length bs) (read_bytes ?t p (Suc (length bs)))"
    by (simp add: take_read_bytes)
  also have "read_bytes ?t p (Suc (length bs)) = bs @ [0]"
    using assms(3) read_write_same [of s p "bs @ [0]"] by simp
  finally show ?thesis
    using assms load_write_nth [of s p "bs @ [0]" "length bs"] by (simp add: cstr_def)
qed

section \<open>strlen\<close>

lemma strlen_from_cstr:
  "cstr s p bs \<Longrightarrow> i \<le> length bs \<Longrightarrow> strlen_from s p (of_nat i) = Some (of_nat (length bs))"
proof (induction "length bs - i" arbitrary: i)
  case 0
  then have "i = length bs" by simp
  with 0 show ?case by (subst strlen_from.simps) (simp add: cstr_end)
next
  case (Suc k)
  have "load s (p + of_nat i) \<noteq> 0" using Suc.hyps(2) Suc.prems by (intro cstr_nth_nz) auto
  moreover have "strlen_from s p (of_nat (Suc i)) = Some (of_nat (length bs))"
    using Suc by (intro Suc.hyps) auto
  ultimately show ?case by (subst strlen_from.simps) (simp add: add.commute)
qed

lemma strlen_cstr: "cstr s p bs \<Longrightarrow> strlen s p = Some (of_nat (length bs))"
  using strlen_from_cstr [of s p bs 0] by (simp add: strlen_def)

section \<open>strcpy and strncpy\<close>

lemma write_take_Suc:
  "i < length bs \<Longrightarrow> store (a + of_nat i) (bs ! i) (write_bytes a (take i bs) s)
     = write_bytes a (take (Suc i) bs) s"
  by (simp add: take_Suc_conv_app_nth write_bytes_append)

lemma load_write_apart:
  "apart s a (length bs) b m \<Longrightarrow> j < m \<Longrightarrow>
     load (write_bytes a bs s) (b + of_nat j) = load s (b + of_nat j)"
  by (rule load_write_other) (simp add: apart_def)

lemma strcpy_loop:
  assumes "cstr s src bs" and "apart s dest (length bs) src (Suc (length bs))"
    and "i \<le> length bs"
  shows "strcpy_from dest src (of_nat i) (write_bytes dest (take i bs) s)
       = Some (write_bytes dest (bs @ [0]) s)"
  using assms(3)
proof (induction "length bs - i" arbitrary: i)
  case 0
  have "load (write_bytes dest bs s) (src + of_nat (length bs)) = 0"
    using load_write_apart [OF assms(2)] cstr_end [OF assms(1)] by simp
  then show ?case using 0 by (subst strcpy_from.simps) (simp add: write_bytes_append)
next
  case (Suc k)
  let ?t = "write_bytes dest (take i bs) s"
  have i: "i < length bs" using Suc.hyps(2) by simp
  have "apart s dest (length (take i bs)) src (Suc (length bs))"
    using assms(2) by (rule apart_mono) auto
  then have "load ?t (src + of_nat i) = load s (src + of_nat i)"
    using i by (intro load_write_apart [where m = "Suc (length bs)"]) auto
  then have "load ?t (src + of_nat i) = bs ! i" and "bs ! i \<noteq> 0"
    using cstr_nth [OF assms(1) i] cstr_nth_nz [OF assms(1) i] by auto
  moreover have "strcpy_from dest src (of_nat (Suc i)) (write_bytes dest (take (Suc i) bs) s)
      = Some (write_bytes dest (bs @ [0]) s)"
    using Suc.hyps(2) i by (intro Suc.hyps(1)) auto
  ultimately show ?case
    using i by (subst strcpy_from.simps) (simp add: write_take_Suc add.commute)
qed

lemma strcpy_cstr:
  "cstr s src bs \<Longrightarrow> apart s dest (length bs) src (Suc (length bs)) \<Longrightarrow>
     strcpy dest src s = Some (write_bytes dest (bs @ [0]) s)"
  using strcpy_loop [of s src bs dest 0] by (simp add: strcpy_def)

text \<open>The text of a field of \<open>n\<close> bytes that is zero-padded but need not be zero-terminated.\<close>

definition field_text :: "'a machine_scheme \<Rightarrow> u32 \<Rightarrow> nat \<Rightarrow> u8 list" where
  "field_text s p n = takeWhile (\<lambda>b. b \<noteq> 0) (read_bytes s p n)"

lemma length_field_text: "length (field_text s p n) \<le> n"
  unfolding field_text_def by (metis length_takeWhile_le length_read_bytes)

lemma field_text_0 [simp]: "field_text s p 0 = []"
  by (simp add: field_text_def)

lemma field_text_Suc:
  "field_text s p (Suc n) = (if load s p = 0 then [] else load s p # field_text s (p + 1) n)"
  by (simp add: field_text_def read_bytes_Suc)

lemma field_text_nth:
  assumes "i < length (field_text s p n)"
  shows "field_text s p n ! i = load s (p + of_nat i)" and "load s (p + of_nat i) \<noteq> 0"
proof -
  have "i < n" using assms length_field_text [of s p n] by simp
  then show e: "field_text s p n ! i = load s (p + of_nat i)"
    using assms by (simp add: field_text_def takeWhile_nth)
  have "field_text s p n ! i \<in> set (field_text s p n)" using assms by (rule nth_mem)
  then have "field_text s p n ! i \<noteq> 0"
    by (auto simp: field_text_def dest: set_takeWhileD)
  with e show "load s (p + of_nat i) \<noteq> 0" by simp
qed

lemma field_text_stop:
  assumes "length (field_text s p n) < n"
  shows "load s (p + of_nat (length (field_text s p n))) = 0"
  using nth_length_takeWhile [of "\<lambda>b. b \<noteq> 0" "read_bytes s p n"] assms
  by (simp add: field_text_def)

lemma cstr_field_text: "cstr s p bs \<Longrightarrow> field_text s p n = take n bs"
proof (induction n arbitrary: p bs)
  case (Suc n)
  show ?case
  proof (cases bs)
    case Nil
    then show ?thesis using Suc.prems cstr_end [OF Suc.prems] by (simp add: field_text_Suc)
  next
    case (Cons b cs)
    then have "cstr s (p + 1) cs" and "load s p = b" and "b \<noteq> 0"
      using Suc.prems by (auto simp: cstr_def read_bytes_Suc add.assoc)
    then show ?thesis using Suc.IH Cons by (simp add: field_text_Suc)
  qed
qed simp

lemma strncpy_copy_eq:
  assumes "apart s dest n src n" and "i \<le> length (field_text s src n)"
  shows "strncpy_copy dest src n i (write_bytes dest (take i (field_text s src n)) s)
       = (length (field_text s src n), write_bytes dest (field_text s src n) s)"
  using assms(2)
proof (induction "length (field_text s src n) - i" arbitrary: i)
  case 0
  let ?bs = "field_text s src n"
  have i: "i = length ?bs" using 0 by simp
  have ap: "apart s dest (length ?bs) src n"
    using assms(1) by (rule apart_mono) (simp_all add: length_field_text)
  have "load (write_bytes dest ?bs s) (src + of_nat i) = 0 \<or> \<not> i < n"
    using field_text_stop [of s src n] load_write_apart [OF ap] i by auto
  then show ?case by (subst strncpy_copy.simps) (auto simp: i)
next
  case (Suc k)
  let ?bs = "field_text s src n"
  let ?t = "write_bytes dest (take i ?bs) s"
  have i: "i < length ?bs" using Suc.hyps(2) by simp
  have "apart s dest (length (take i ?bs)) src n"
    using assms(1) by (rule apart_mono) (use length_field_text [of s src n] in auto)
  then have ld: "load ?t (src + of_nat i) = ?bs ! i" "?bs ! i \<noteq> 0" "i < n"
    using field_text_nth [OF i] i length_field_text [of s src n]
    by (simp_all add: load_write_apart)
  moreover have "strncpy_copy dest src n (Suc i) (write_bytes dest (take (Suc i) ?bs) s)
      = (length ?bs, write_bytes dest ?bs s)"
    using Suc.hyps i by simp
  ultimately show ?case
    using i by (subst strncpy_copy.simps) (simp add: write_take_Suc)
qed

lemma strncpy_pad_eq: "strncpy_pad dest n i s = write_bytes (dest + of_nat i) (replicate (n - i) 0) s"
proof (induction "n - i" arbitrary: i s)
  case 0
  then show ?case by (subst strncpy_pad.simps) simp
next
  case (Suc k)
  then have "n - i = Suc (n - Suc i)" and "i < n" by auto
  moreover have "strncpy_pad dest n (Suc i) (store (dest + of_nat i) 0 s)
      = write_bytes (dest + of_nat (Suc i)) (replicate (n - Suc i) 0) (store (dest + of_nat i) 0 s)"
    using Suc.hyps(2) by (intro Suc.hyps(1)) simp
  ultimately show ?case
    by (subst strncpy_pad.simps) (simp add: add.commute add.left_commute)
qed

lemma strncpy_eq:
  fixes n :: u32
  assumes "apart s dest (unat n) src (unat n)"
  shows "strncpy dest src n s =
    (let bs = field_text s src (unat n)
     in write_bytes dest (bs @ replicate (unat n - length bs) 0) s)"
  using strncpy_copy_eq [OF assms, of 0]
  by (simp add: strncpy_def Let_def strncpy_pad_eq write_bytes_append)

section \<open>strncmp\<close>

lemma strncmp_from_eq_0:
  "strncmp_from s a b n i = 0 \<longleftrightarrow>
     field_text s (a + of_nat i) (n - i) = field_text s (b + of_nat i) (n - i)"
proof (induction "n - i" arbitrary: i)
  case 0
  then show ?case by (subst strncmp_from.simps) simp
next
  case (Suc k)
  then have n: "n - i = Suc (n - Suc i)" and lt: "i < n" by auto
  have IH: "strncmp_from s a b n (Suc i) = 0 \<longleftrightarrow>
     field_text s (a + of_nat (Suc i)) (n - Suc i) = field_text s (b + of_nat (Suc i)) (n - Suc i)"
    using Suc.hyps(2) by (intro Suc.hyps(1)) simp
  have sh: "x + of_nat i + 1 = x + of_nat (Suc i)" for x :: u32 by simp
  show ?case
    using lt IH by (subst strncmp_from.simps) (auto simp: n field_text_Suc Let_def sh signed_word_eqI simp del: of_nat_Suc)
qed

lemma strncmp_eq_0:
  "strncmp s a b n = 0 \<longleftrightarrow> field_text s a (unat n) = field_text s b (unat n)"
  using strncmp_from_eq_0 [of s a b "unat n" 0] by (simp add: strncmp_def)

section \<open>In-place reversal\<close>

text \<open>
  The swap loop that \<^verbatim>\<open>strrev\<close> runs, over any byte array: \<open>get\<close>
  and \<open>put\<close> access one element, \<open>view\<close> is the content as a list and
  \<open>set_view\<close> replaces it. The laws say that single accesses are accesses of
  the list; reversal is proved from them once.
\<close>

function swap_loop ::
    "('s \<Rightarrow> int \<Rightarrow> u8) \<Rightarrow> (int \<Rightarrow> u8 \<Rightarrow> 's \<Rightarrow> 's) \<Rightarrow> int \<Rightarrow> int \<Rightarrow> 's \<Rightarrow> 's" where
  "swap_loop get put b e s =
     (if b < e then swap_loop get put (b + 1) (e - 1) (put b (get s e) (put e (get s b) s)) else s)"
  by pat_completeness auto
termination
  by (relation "measure (\<lambda>(g, p, b, e, s). nat (e - b))") auto

declare swap_loop.simps [simp del]

locale byte_array =
  fixes get :: "'s \<Rightarrow> int \<Rightarrow> u8" and put :: "int \<Rightarrow> u8 \<Rightarrow> 's \<Rightarrow> 's"
    and view :: "'s \<Rightarrow> u8 list" and set_view :: "u8 list \<Rightarrow> 's \<Rightarrow> 's" and ok :: "'s \<Rightarrow> bool"
  assumes get_view: "ok s \<Longrightarrow> 0 \<le> i \<Longrightarrow> nat i < length (view s) \<Longrightarrow> get s i = view s ! nat i"
    and put_view: "ok s \<Longrightarrow> 0 \<le> i \<Longrightarrow> nat i < length (view s) \<Longrightarrow>
      put i v s = set_view ((view s)[nat i := v]) s"
    and view_set: "ok s \<Longrightarrow> length xs = length (view s) \<Longrightarrow> view (set_view xs s) = xs"
    and set_view_id: "ok s \<Longrightarrow> set_view (view s) s = s"
    and set_set: "ok s \<Longrightarrow> length xs = length (view s) \<Longrightarrow> length ys = length (view s) \<Longrightarrow>
      set_view xs (set_view ys s) = set_view xs s"
    and ok_set: "ok s \<Longrightarrow> ok (set_view xs s)"
begin

lemma put_twice:
  assumes "ok s" and "view s = xs @ a # ms @ b # ys"
  shows "put (int (length xs)) b (put (int (length xs + length ms + 1)) a s)
       = set_view (xs @ b # ms @ a # ys) s"
proof -
  have 1: "put (int (length xs + length ms + 1)) a s = set_view (xs @ a # ms @ a # ys) s"
    using assms by (simp add: put_view list_update_append nat_add_distrib)
  then show ?thesis
    using assms by (simp add: put_view ok_set view_set set_set list_update_append)
qed

lemma swap_loop_reverses:
  assumes "ok s" and "view s = xs @ ms @ ys"
  shows "swap_loop get put (int (length xs)) (int (length xs + length ms) - 1) s
       = set_view (xs @ rev ms @ ys) s"
  using assms
proof (induction ms arbitrary: xs ys s rule: length_induct)
  case (1 ms)
  consider "ms = []" | x where "ms = [x]" | x ns y where "ms = x # ns @ [y]"
    by (metis append_butlast_last_id list.exhaust)
  then show ?case
  proof cases
    case 3
    let ?t = "set_view (xs @ y # ns @ x # ys) s"
    have v: "view s = xs @ x # ns @ y # ys" using "1.prems" 3 by simp
    have "get s (int (length xs)) = x" "get s (int (length xs + length ns + 1)) = y"
      using "1.prems" v by (simp_all add: get_view nth_append nat_add_distrib)
    then have step: "swap_loop get put (int (length xs)) (int (length xs + length ms) - 1) s
        = swap_loop get put (int (length xs) + 1) (int (length xs + length ns)) ?t"
      using put_twice [OF "1.prems"(1) v] 3 by (subst swap_loop.simps) (simp add: algebra_simps)
    have "view ?t = (xs @ [y]) @ ns @ (x # ys)" "ok ?t"
      using "1.prems" v by (simp_all add: view_set ok_set)
    then have "swap_loop get put (int (length (xs @ [y]))) (int (length (xs @ [y]) + length ns) - 1) ?t
        = set_view ((xs @ [y]) @ rev ns @ (x # ys)) ?t"
      using "1.IH" [rule_format, of ns "?t" "xs @ [y]" "x # ys"] 3 by simp
    then show ?thesis using step "1.prems" v 3 by (simp add: set_set algebra_simps)
  qed (use "1.prems" set_view_id in \<open>subst swap_loop.simps; force\<close>)+
qed

lemma swap_loop_rev:
  assumes "ok s"
  shows "swap_loop get put 0 (int (length (view s)) - 1) s = set_view (rev (view s)) s"
  using swap_loop_reverses [OF assms, of "[]" "view s" "[]"] by simp

end

text \<open>Memory provides such an array at every region of distinct bytes.\<close>

interpretation mem_array: byte_array
  "\<lambda>s i. load s (p + of_int i)" "\<lambda>i v. store (p + of_int i) v"
  "\<lambda>s. read_bytes s p n" "\<lambda>xs. write_bytes p (take n xs)" "\<lambda>s. spread s p n"
  for p :: u32 and n :: nat
proof unfold_locales
  fix s :: "'a machine_scheme" and i :: int and v :: u8 and xs ys :: "u8 list"
  assume sp: "spread s p n"
  show "load s (p + of_int i) = read_bytes s p n ! nat i"
    if "0 \<le> i" "nat i < length (read_bytes s p n)"
    using that by (cases i) auto
  show "store (p + of_int i) v s = write_bytes p (take n ((read_bytes s p n)[nat i := v])) s"
    if "0 \<le> i" "nat i < length (read_bytes s p n)"
    using that store_as_update [OF sp, of "nat i" v] by (cases i) auto
  show "read_bytes (write_bytes p (take n xs) s) p n = xs" if "length xs = length (read_bytes s p n)"
    using that sp read_write_same [of s p xs] by simp
  show "write_bytes p (take n (read_bytes s p n)) s = s"
    by (simp add: write_read_id)
  show "write_bytes p (take n xs) (write_bytes p (take n ys) s) = write_bytes p (take n xs) s"
    if "length xs = length (read_bytes s p n)" "length ys = length (read_bytes s p n)"
    using that sp by (simp add: write_write_same)
  show "spread (write_bytes p (take n xs) s) p n"
    using sp by simp
qed

lemma strrev_loop_swap:
  "strrev_loop p b e s = swap_loop (\<lambda>s i. load s (p + of_int i)) (\<lambda>i v. store (p + of_int i) v) b e s"
proof (induction p b e s rule: strrev_loop.induct)
  case (1 p b e s)
  then show ?case
    by (subst strrev_loop.simps, subst swap_loop.simps) (simp add: Let_def)
qed

lemma strrev_cstr:
  assumes "cstr s p bs" and "spread s p (length bs)" and "length bs < 2147483648"
  shows "strrev p s = Some (write_bytes p (rev bs) s)"
proof -
  have "read_bytes s p (length bs) = bs" using assms(1) by (simp add: cstr_def)
  then have "strrev_loop p 0 (int (length bs) - 1) s = write_bytes p (rev bs) s"
    using mem_array.swap_loop_rev [OF assms(2)] by (simp add: strrev_loop_swap)
  moreover have "sint ((of_nat (length bs) :: u32) - 1) = int (length bs) - 1"
  proof -
    have "(of_nat (length bs) :: u32) - 1 = of_int (int (length bs) - 1)" by simp
    also have "sint (of_int (int (length bs) - 1) :: u32) = int (length bs) - 1"
      using assms(3) by (subst signed_of_int) (simp add: signed_take_bit_int_eq_self)
    finally show ?thesis .
  qed
  ultimately show ?thesis using strlen_cstr [OF assms(1)] by (simp add: strrev_def)
qed

section \<open>itoa\<close>

text \<open>
  The numeral a call of \<^verbatim>\<open>itoa\<close> should leave in the buffer, and the value of
  such a numeral read back.
\<close>

fun radix_digits :: "nat \<Rightarrow> nat \<Rightarrow> nat list" where
  "radix_digits r v = (if v = 0 \<or> r < 2 then [] else v mod r # radix_digits r (v div r))"

declare radix_digits.simps [simp del]

lemma radix_digits_0 [simp]: "radix_digits r 0 = []"
  by (simp add: radix_digits.simps)

definition digit_char :: "nat \<Rightarrow> u8" where
  "digit_char d = (if d < 10 then of_nat (48 + d) else of_nat (55 + d))"

definition char_digit :: "u8 \<Rightarrow> nat" where
  "char_digit b = (if unat b < 58 then unat b - 48 else unat b - 55)"

definition numeral_text :: "nat \<Rightarrow> nat \<Rightarrow> u8 list" where
  "numeral_text r v = (if v = 0 then [48] else map digit_char (rev (radix_digits r v)))"

definition numeral_value :: "nat \<Rightarrow> u8 list \<Rightarrow> nat" where
  "numeral_value r bs = foldl (\<lambda>n b. n * r + char_digit b) 0 bs"

lemma itoa_lookup_nth: "d < 36 \<Longrightarrow> itoa_lookup ! d = digit_char d"
proof -
  have "map digit_char [0..<36] = take 36 itoa_lookup" by code_simp
  then show "d < 36 \<Longrightarrow> itoa_lookup ! d = digit_char d"
    by (metis add.left_neutral diff_zero length_map length_upt nth_map nth_take nth_upt)
qed

lemma unat_digit_char: "d < 36 \<Longrightarrow> unat (digit_char d) = (if d < 10 then 48 + d else 55 + d)"
  by (simp add: digit_char_def unat_of_nat take_bit_nat_eq_self del: of_nat_add)

lemma char_digit_char [simp]: "d < 36 \<Longrightarrow> char_digit (digit_char d) = d"
  by (simp add: char_digit_def unat_digit_char)

lemma digit_char_nz: "d < 36 \<Longrightarrow> digit_char d \<noteq> 0"
  using unat_digit_char [of d] by (metis add_is_0 unat_0 zero_neq_numeral)

lemma radix_digits_less: "2 \<le> r \<Longrightarrow> d \<in> set (radix_digits r v) \<Longrightarrow> d < r"
proof (induction r v rule: radix_digits.induct)
  case (1 r v)
  then show ?case
    by (cases "v = 0") (auto simp: radix_digits.simps [of r v])
qed

lemma length_radix_digits: "2 \<le> r \<Longrightarrow> v < 2 ^ k \<Longrightarrow> length (radix_digits r v) \<le> k"
proof (induction k arbitrary: v)
  case (Suc k)
  have "v div r \<le> v div 2" using Suc.prems(1) by (simp add: div_le_mono2)
  also have "\<dots> < 2 ^ k" using Suc.prems(2) by (simp add: less_mult_imp_div_less mult.commute)
  finally have "length (radix_digits r (v div r)) \<le> k" using Suc by simp
  then show ?case by (subst radix_digits.simps) simp
qed (simp add: radix_digits.simps)

lemma numeral_value_digits:
  "2 \<le> r \<Longrightarrow> r \<le> 36 \<Longrightarrow> numeral_value r (map digit_char (rev (radix_digits r v))) = v"
proof (induction r v rule: radix_digits.induct)
  case (1 r v)
  show ?case
  proof (cases "v = 0")
    case False
    have "v mod r < r" using "1.prems" by simp
    then have "v mod r < 36" using "1.prems"(2) by (rule order_less_le_trans)
    then show ?thesis
      using False "1.prems" "1.IH" by (simp add: radix_digits.simps [of r v] numeral_value_def)
  qed (simp add: radix_digits.simps numeral_value_def)
qed

lemma numeral_text_value: "2 \<le> r \<Longrightarrow> r \<le> 36 \<Longrightarrow> numeral_value r (numeral_text r v) = v"
  using numeral_value_digits [of r v]
  by (simp add: numeral_text_def) (simp add: numeral_value_def char_digit_def)

lemma numeral_text_nz: "2 \<le> r \<Longrightarrow> r \<le> 36 \<Longrightarrow> 0 \<notin> set (numeral_text r v)"
  using radix_digits_less [of r _ v] digit_char_nz
  by (auto simp: numeral_text_def) (metis le_trans not_le)

lemma length_numeral_text: "2 \<le> r \<Longrightarrow> v < 2 ^ 32 \<Longrightarrow> length (numeral_text r v) \<le> 32"
  using length_radix_digits [of r v 32] by (simp add: numeral_text_def)

lemma itoa_digits_eq:
  fixes v r :: u32
  assumes "2 \<le> unat r" and "unat r \<le> 36"
  shows "itoa_digits buf v r s
       = Some (write_bytes buf (map digit_char (radix_digits (unat r) (unat v)) @ [0]) s)"
proof (induction "unat v" arbitrary: v buf s rule: less_induct)
  case less
  show ?case
  proof (cases "v = 0")
    case True
    then show ?thesis
      by (subst itoa_digits.simps) (simp add: radix_digits.simps)
  next
    case False
    then have pos: "0 < unat v" "0 < v" by (auto simp: unat_gt_0 word_gt_0)
    have r0: "r \<noteq> 0" using assms(1) by auto
    have lk: "itoa_lookup ! unat (v mod r) = digit_char (unat v mod unat r)"
      using assms by (simp add: unat_mod itoa_lookup_nth order_less_le_trans [OF mod_less_divisor])
    have "unat (v div r) < unat v" using pos assms(1) by (simp add: unat_div)
    from less [OF this] show ?thesis
      using pos r0 assms lk
      by (subst itoa_digits.simps)
        (simp add: radix_digits.simps [of "unat r" "unat v"] unat_div)
  qed
qed

lemma itoa_eq:
  fixes v r :: u32
  assumes "2 \<le> unat r" and "unat r \<le> 36" and "spread s buf 33"
  shows "itoa v buf r s = Some (write_bytes buf (numeral_text (unat r) (unat v) @ [0]) s)"
proof (cases "v = 0")
  case True
  then show ?thesis by (simp add: itoa_def numeral_text_def)
next
  case False
  let ?ds = "map digit_char (radix_digits (unat r) (unat v))"
  let ?t = "write_bytes buf (?ds @ [0]) s"
  have len: "length ?ds \<le> 32" using length_radix_digits [of "unat r" "unat v" 32] assms by simp
  have sp: "spread s buf (length ?ds)" "spread s buf (Suc (length ?ds))"
    using spread_mono [OF assms(3)] len by auto
  have "0 \<notin> set ?ds"
    using radix_digits_less [of "unat r" _ "unat v"] digit_char_nz assms by fastforce
  then have c: "cstr ?t buf ?ds" using len sp by (intro cstr_write) auto
  have "strrev buf ?t = Some (write_bytes buf (rev ?ds) ?t)"
    using len sp by (intro strrev_cstr [OF c]) auto
  also have "write_bytes buf (rev ?ds) ?t
      = write_bytes buf (rev ?ds) (write_bytes buf ?ds (store (buf + of_nat (length ?ds)) 0 s))"
    using sp(2) by (simp add: write_bytes_snoc)
  also have "\<dots> = write_bytes buf (rev ?ds) (store (buf + of_nat (length ?ds)) 0 s)"
    using sp by (intro write_write_same) auto
  also have "\<dots> = write_bytes buf (rev ?ds @ [0]) s"
    using sp(2) by (simp add: write_bytes_snoc)
  finally show ?thesis
    using False itoa_digits_eq [OF assms(1,2), of buf v s]
    by (simp add: itoa_def numeral_text_def unat_eq_zero rev_map)
qed

end
