(* ===== verification/Screen.thy ===== *)
theory Screen
  imports Lib_String
begin

text \<open>
  The text console of \<^verbatim>\<open>student-distrib/lib.c\<close>: the cursor variables
  \<^verbatim>\<open>screen_x\<close>, \<^verbatim>\<open>screen_y\<close>, the colour \<^verbatim>\<open>curr_attribute\<close> and video memory
  at \<^verbatim>\<open>VIDEO\<close>, two bytes per cell (character, attribute). Video memory is accessed
  through the current address translation, because the kernel maps that page to a
  backing store while a background terminal runs.

  The theorems relate the operations to a terminal over a list of bytes
  (\<open>vterm\<close>): characters land at the cursor, lines wrap, a full screen scrolls.
\<close>

section \<open>State\<close>

record console = machine +
  screen_x :: int
  screen_y :: int
  curr_attribute :: int

abbreviation (input) NUM_COLS :: int where "NUM_COLS \<equiv> 80"
abbreviation (input) NUM_ROWS :: int where "NUM_ROWS \<equiv> 25"
abbreviation (input) NUM_TERMINALS :: nat where "NUM_TERMINALS \<equiv> 3"
abbreviation (input) VIDEO :: u32 where "VIDEO \<equiv> 0xB8000"

section \<open>Operations\<close>

definition set_screen_x_y :: "int \<Rightarrow> int \<Rightarrow> 'a console_scheme \<Rightarrow> 'a console_scheme" where
  "set_screen_x_y x y s = s\<lparr>screen_x := x, screen_y := y\<rparr>"

definition get_screen_x :: "'a console_scheme \<Rightarrow> int" where
  "get_screen_x s = screen_x s"

definition get_screen_y :: "'a console_scheme \<Rightarrow> int" where
  "get_screen_y s = screen_y s"

text \<open>
  The two stores of a cell, \<^verbatim>\<open>video_mem + (i << 1)\<close> and the byte after it.
\<close>

definition put_cell :: "int \<Rightarrow> u8 \<Rightarrow> 'a console_scheme \<Rightarrow> 'a console_scheme" where
  "put_cell i c s =
     (let s = store (VIDEO + of_int (2 * i)) c s
      in store (VIDEO + of_int (2 * i) + 1) (of_int (curr_attribute s)) s)"

definition clear :: "'a console_scheme \<Rightarrow> 'a console_scheme" where
  "clear s = for_loop 0 2000 (\<lambda>i. put_cell (int i) EMPTY_SPACE) s"

definition clear_video_and_backing_stores :: "'a console_scheme \<Rightarrow> 'a console_scheme" where
  "clear_video_and_backing_stores s =
     for_loop 0 (2000 * (NUM_TERMINALS + 1)) (\<lambda>i. put_cell (int i) EMPTY_SPACE) s"

definition set_cursor_location :: "int \<Rightarrow> int \<Rightarrow> 'a console_scheme \<Rightarrow> 'a console_scheme" where
  "set_cursor_location x y s =
     (if x < 0 \<or> y < 0 \<or> x \<ge> NUM_COLS \<or> y \<ge> NUM_ROWS then s
      else
        let cursor_location = (of_int (y * NUM_COLS + x) :: u32);
            s = outb 0x0F 0x3D4 s;
            s = outb (ucast (cursor_location AND 0xFF)) 0x3D5 s;
            s = outb 0x0E 0x3D4 s
        in outb (ucast (drop_bit 8 cursor_location AND 0xFF)) 0x3D5 s)"

definition clear_and_reset :: "'a console_scheme \<Rightarrow> 'a console_scheme" where
  "clear_and_reset s = (clear s)\<lparr>screen_x := 0, screen_y := 0\<rparr>"

definition initialize_video_memory :: "'a console_scheme \<Rightarrow> 'a console_scheme" where
  "initialize_video_memory s = (clear_video_and_backing_stores s)\<lparr>screen_x := 0, screen_y := 0\<rparr>"

definition shift_cell :: "nat \<Rightarrow> 'a console_scheme \<Rightarrow> 'a console_scheme" where
  "shift_cell i s =
     (let s = store (VIDEO + of_nat (2 * i)) (load s (VIDEO + of_nat (2 * (i + 80)))) s
      in store (VIDEO + of_nat (2 * i) + 1) (load s (VIDEO + of_nat (2 * (i + 80)) + 1)) s)"

definition shift_screen_up :: "'a console_scheme \<Rightarrow> 'a console_scheme" where
  "shift_screen_up s =
     (let s = for_loop 0 1920 shift_cell s;
          s = for_loop 0 80 (\<lambda>i. put_cell (int (i + 1920)) EMPTY_SPACE) s
      in s\<lparr>screen_y := screen_y s - 1\<rparr>)"

text \<open>The common body of \<^verbatim>\<open>putc_kbd\<close> and \<^verbatim>\<open>putc_screen\<close>, which the source repeats.\<close>

definition putc_body :: "u8 \<Rightarrow> 'a console_scheme \<Rightarrow> 'a console_scheme" where
  "putc_body c s =
     (let s =
        (if c = NEW_LINE \<or> c = CARRIAGE_RETURN then s\<lparr>screen_y := screen_y s + 1, screen_x := 0\<rparr>
         else if c = BKSP_CHAR then
           let s = s\<lparr>screen_x := screen_x s - 1\<rparr>;
               s = (if screen_x s < 0 then
                      let s = s\<lparr>screen_x := NUM_COLS - 1, screen_y := screen_y s - 1\<rparr>
                      in if screen_y s < 0 then s\<lparr>screen_y := 0\<rparr> else s
                    else s)
           in put_cell (NUM_COLS * screen_y s + screen_x s) EMPTY_SPACE s
         else
           let s = put_cell (NUM_COLS * screen_y s + screen_x s) c s;
               s = s\<lparr>screen_x := screen_x s + 1\<rparr>;
               s = s\<lparr>screen_y := screen_y s + screen_x s sdiv NUM_COLS\<rparr>
           in s\<lparr>screen_x := screen_x s smod NUM_COLS\<rparr>)
      in if screen_y s \<ge> NUM_ROWS then shift_screen_up s else s)"

definition putc_kbd :: "u8 \<Rightarrow> 'a console_scheme \<Rightarrow> 'a console_scheme" where
  "putc_kbd c s = (let s = putc_body c s in set_cursor_location (screen_x s) (screen_y s) s)"

definition putc_screen :: "u8 \<Rightarrow> 'a console_scheme \<Rightarrow> 'a console_scheme" where
  "putc_screen c s = putc_body c s"

definition putc :: "u8 \<Rightarrow> 'a console_scheme \<Rightarrow> 'a console_scheme" where
  "putc c s =
     (if c = NEW_LINE \<or> c = CARRIAGE_RETURN then s\<lparr>screen_y := screen_y s + 1, screen_x := 0\<rparr>
      else
        let s = put_cell (NUM_COLS * screen_y s + screen_x s) c s;
            s = s\<lparr>screen_x := screen_x s + 1\<rparr>;
            s = s\<lparr>screen_y := screen_y s + screen_x s sdiv NUM_COLS\<rparr>;
            s = s\<lparr>screen_x := screen_x s smod NUM_COLS\<rparr>
        in if screen_y s \<ge> NUM_ROWS then shift_screen_up s else s)"

text \<open>
  The byte a \<^verbatim>\<open>uint8_t*\<close> argument yields at an index: a buffer in memory, or a
  constant string of the kernel image, followed by its terminator.
\<close>

definition at_addr :: "u32 \<Rightarrow> 'a machine_scheme \<Rightarrow> nat \<Rightarrow> u8" where
  "at_addr p s i = load s (p + of_nat i)"

definition at_text :: "u8 list \<Rightarrow> 'a machine_scheme \<Rightarrow> nat \<Rightarrow> u8" where
  "at_text bs s i = (if i < length bs then bs ! i else NULL_CHAR)"

function put_t_from ::
    "('a console_scheme \<Rightarrow> nat \<Rightarrow> u8) \<Rightarrow> nat \<Rightarrow> nat \<Rightarrow> 'a console_scheme \<Rightarrow> nat \<times> 'a console_scheme" where
  "put_t_from buf n index s =
     (if buf s index \<noteq> NULL_CHAR \<and> index < n
      then put_t_from buf n (Suc index) (putc_screen (buf s index) s)
      else (index, s))"
  by pat_completeness auto
termination
  by (relation "measure (\<lambda>(buf, n, index, s). n - index)") auto

declare put_t_from.simps [simp del]

definition put_t ::
    "('a console_scheme \<Rightarrow> nat \<Rightarrow> u8) \<Rightarrow> u32 \<Rightarrow> 'a console_scheme \<Rightarrow> nat \<times> 'a console_scheme" where
  "put_t buf n s = put_t_from buf (unat n) 0 s"

partial_function (option) puts_from ::
    "('a console_scheme \<Rightarrow> nat \<Rightarrow> u8) \<Rightarrow> nat \<Rightarrow> 'a console_scheme \<Rightarrow> (nat \<times> 'a console_scheme) option" where
  "puts_from buf index s =
     (if buf s index \<noteq> NULL_CHAR then puts_from buf (Suc index) (putc (buf s index) s)
      else Some (index, s))"

definition puts :: "('a console_scheme \<Rightarrow> nat \<Rightarrow> u8) \<Rightarrow> 'a console_scheme \<Rightarrow> (nat \<times> 'a console_scheme) option" where
  "puts buf s = puts_from buf 0 s"

definition change_atribute :: "u8 \<Rightarrow> 'a console_scheme \<Rightarrow> 'a console_scheme" where
  "change_atribute attribute s =
     (for_loop 0 2000 (\<lambda>i. store (VIDEO + of_nat (2 * i) + 1) attribute) s)
       \<lparr>curr_attribute := uint attribute\<rparr>"

definition change_atribute_specific :: "int \<Rightarrow> u8 \<Rightarrow> 'a console_scheme \<Rightarrow> 'a console_scheme" where
  "change_atribute_specific position attribute s =
     store (VIDEO + of_int (2 * position) + 1) attribute s"

definition test_interrupts :: "'a console_scheme \<Rightarrow> 'a console_scheme" where
  "test_interrupts s =
     for_loop 0 2000 (\<lambda>i s. store (VIDEO + of_nat (2 * i)) (load s (VIDEO + of_nat (2 * i)) + 1) s) s"

section \<open>Frame facts\<close>

lemma store_console [mem_simps, simp]:
  "screen_x (store a v s) = screen_x s" "screen_y (store a v s) = screen_y s"
  "curr_attribute (store a v s) = curr_attribute s" "console.more (store a v s) = console.more s"
  by (simp_all add: store_def)

lemma outb_console [frame_simps, simp]:
  "screen_x (outb d p s) = screen_x s" "screen_y (outb d p s) = screen_y s"
  "curr_attribute (outb d p s) = curr_attribute s" "console.more (outb d p s) = console.more s"
  by (simp_all add: outb_def)

lemma put_cell_frame [simp]:
  "screen_x (put_cell i c s) = screen_x s" "screen_y (put_cell i c s) = screen_y s"
  "curr_attribute (put_cell i c s) = curr_attribute s" "xlat (put_cell i c s) = xlat s"
  "io_log (put_cell i c s) = io_log s" "eflags (put_cell i c s) = eflags s"
  "console.more (put_cell i c s) = console.more s"
  by (simp_all add: put_cell_def Let_def)

lemma shift_cell_frame [simp]:
  "screen_x (shift_cell i s) = screen_x s" "screen_y (shift_cell i s) = screen_y s"
  "curr_attribute (shift_cell i s) = curr_attribute s" "xlat (shift_cell i s) = xlat s"
  "io_log (shift_cell i s) = io_log s" "eflags (shift_cell i s) = eflags s"
  "console.more (shift_cell i s) = console.more s"
  by (simp_all add: shift_cell_def Let_def)

section \<open>The terminal the screen implements\<close>

text \<open>
  \<open>cells\<close> is the visible part of video memory: 25 rows of 80 cells, each a
  character and its attribute. A newline moves to the start of the next row, a
  backspace erases the cell before the cursor (and stays put at the top left corner's
  row), any other character is written at the cursor; when the cursor leaves the last
  row, the text moves up by one row and the last row becomes blank.
\<close>

record vterm =
  cells :: "u8 list"
  cx :: int
  cy :: int
  attr :: u8

definition vt_put :: "int \<Rightarrow> u8 \<Rightarrow> vterm \<Rightarrow> vterm" where
  "vt_put i c t = t\<lparr>cells := (cells t)[nat (2 * i) := c, nat (2 * i) + 1 := attr t]\<rparr>"

lemma vt_put_sel [simp]:
  "cx (vt_put i c t) = cx t" "cy (vt_put i c t) = cy t" "attr (vt_put i c t) = attr t"
  by (simp_all add: vt_put_def)

definition blank_cells :: "nat \<Rightarrow> u8 \<Rightarrow> u8 list" where
  "blank_cells n a = concat (replicate n [EMPTY_SPACE, a])"

definition vt_scroll :: "vterm \<Rightarrow> vterm" where
  "vt_scroll t = t\<lparr>cells := drop 160 (cells t) @ blank_cells 80 (attr t), cy := cy t - 1\<rparr>"

definition vt_putc :: "u8 \<Rightarrow> vterm \<Rightarrow> vterm" where
  "vt_putc c t =
     (let t =
        (if c = NEW_LINE \<or> c = CARRIAGE_RETURN then t\<lparr>cy := cy t + 1, cx := 0\<rparr>
         else if c = BKSP_CHAR then
           let t = (if cx t = 0 then t\<lparr>cx := 79, cy := max 0 (cy t - 1)\<rparr> else t\<lparr>cx := cx t - 1\<rparr>)
           in vt_put (80 * cy t + cx t) EMPTY_SPACE t
         else
           let t = vt_put (80 * cy t + cx t) c t
           in if cx t = 79 then t\<lparr>cy := cy t + 1, cx := 0\<rparr> else t\<lparr>cx := cx t + 1\<rparr>)
      in if cy t = 25 then vt_scroll t else t)"

definition abs_vt :: "'a console_scheme \<Rightarrow> vterm" where
  "abs_vt s = \<lparr>cells = read_bytes s VIDEO 4000, cx = screen_x s, cy = screen_y s,
     attr = of_int (curr_attribute s)\<rparr>"

definition screen_ok :: "'a console_scheme \<Rightarrow> bool" where
  "screen_ok s \<longleftrightarrow> 0 \<le> screen_x s \<and> screen_x s < 80 \<and> 0 \<le> screen_y s \<and> screen_y s < 25"

text \<open>The screen page is mapped so that its 4000 visible bytes are distinct.\<close>

definition video_mapped :: "'a machine_scheme \<Rightarrow> bool" where
  "video_mapped s \<longleftrightarrow> spread s VIDEO 4000"

lemma video_mapped_cong: "xlat t = xlat s \<Longrightarrow> video_mapped t = video_mapped s"
  by (simp add: video_mapped_def spread_def)

subsection \<open>Single cells\<close>

lemma cells_store:
  assumes "video_mapped s" and "k < 4000"
  shows "read_bytes (store (VIDEO + of_nat k) v s) VIDEO 4000 = (read_bytes s VIDEO 4000)[k := v]"
proof -
  have "store (VIDEO + of_nat k) v s = write_bytes VIDEO ((read_bytes s VIDEO 4000)[k := v]) s"
    using assms by (intro store_as_update) (auto simp: video_mapped_def)
  then show ?thesis
    using assms read_write_same [of s VIDEO "(read_bytes s VIDEO 4000)[k := v]"]
    by (simp add: video_mapped_def)
qed

lemma put_cell_nat:
  "put_cell (int k) c s = store (VIDEO + of_nat (2 * k + 1)) (of_int (curr_attribute s))
     (store (VIDEO + of_nat (2 * k)) c s)"
  by (simp add: put_cell_def Let_def add.assoc add.commute)

lemma shift_cell_nat:
  "shift_cell k s =
     (let s' = store (VIDEO + of_nat (2 * k)) (load s (VIDEO + of_nat (2 * k + 160))) s
      in store (VIDEO + of_nat (2 * k + 1)) (load s' (VIDEO + of_nat (2 * k + 161))) s')"
  by (simp add: shift_cell_def Let_def algebra_simps)

lemma video_mapped_store [simp]: "video_mapped (store a v s) = video_mapped s"
  by (simp add: video_mapped_def)

lemma video_mapped_cell [simp]:
  "video_mapped (put_cell i c s) = video_mapped s" "video_mapped (shift_cell k s) = video_mapped s"
  by (simp_all add: video_mapped_def spread_def)

lemma cells_put_cell:
  assumes "video_mapped s" and "k < 2000"
  shows "read_bytes (put_cell (int k) c s) VIDEO 4000
       = (read_bytes s VIDEO 4000)[2 * k := c, 2 * k + 1 := of_int (curr_attribute s)]"
  unfolding put_cell_nat using assms by (subst cells_store; simp del: of_nat_add of_nat_mult)+

lemma cells_shift_cell:
  assumes "video_mapped s" and "k < 1920"
  shows "read_bytes (shift_cell k s) VIDEO 4000 =
    (let xs = read_bytes s VIDEO 4000; ys = xs[2 * k := xs ! (2 * k + 160)]
     in ys[2 * k + 1 := ys ! (2 * k + 161)])"
proof -
  let ?s = "store (VIDEO + of_nat (2 * k)) (load s (VIDEO + of_nat (2 * k + 160))) s"
  have ld: "load t (VIDEO + of_nat j) = read_bytes t VIDEO 4000 ! j" if "j < 4000"
    for t :: "'a console_scheme" and j using that by simp
  have "read_bytes ?s VIDEO 4000
      = (read_bytes s VIDEO 4000)[2 * k := read_bytes s VIDEO 4000 ! (2 * k + 160)]"
    using assms ld by (subst cells_store) (simp_all del: of_nat_add of_nat_mult)
  then show ?thesis
    unfolding shift_cell_nat Let_def using assms ld [of "2 * k + 161" ?s]
    by (subst cells_store) (simp_all del: of_nat_add of_nat_mult)
qed

lemma abs_put_cell:
  assumes "video_mapped s" and "0 \<le> i" and "i < 2000"
  shows "abs_vt (put_cell i c s) = vt_put i c (abs_vt s)"
proof -
  obtain k where k: "i = int k" "k < 2000" using assms(2,3) by (cases i) auto
  then show ?thesis using cells_put_cell [OF assms(1) k(2)]
    by (simp add: abs_vt_def vt_put_def nat_mult_distrib)
qed

subsection \<open>Whole rows\<close>

lemma length_blank_cells [simp]: "length (blank_cells n a) = 2 * n"
  by (induction n) (simp_all add: blank_cells_def)

lemma nth_blank_cells: "j < 2 * n \<Longrightarrow> blank_cells n a ! j = (if even j then EMPTY_SPACE else a)"
proof (induction n arbitrary: j)
  case (Suc n)
  show ?case
  proof (cases j)
    case (Suc i)
    then show ?thesis using Suc.IH [of "i - 1"] Suc.prems
      by (cases i) (auto simp: blank_cells_def)
  qed (simp add: blank_cells_def)
qed simp

text \<open>Blanking \<open>n\<close> cells from cell \<open>m\<close> on, as a loop over the byte list.\<close>

lemma blank_loop:
  fixes xs :: "u8 list"
  assumes "2 * (m + n) \<le> length xs"
  shows "for_loop 0 n (\<lambda>i ys. ys[2 * (i + m) := EMPTY_SPACE, 2 * (i + m) + 1 := a]) xs
       = take (2 * m) xs @ blank_cells n a @ drop (2 * (m + n)) xs" (is "?loop = _")
proof -
  let ?P = "\<lambda>k ys. length ys = length xs \<and> (\<forall>j<length xs. ys ! j =
    (if 2 * m \<le> j \<and> j < 2 * (m + k) then if even j then EMPTY_SPACE else a else xs ! j))"
  have "?P n ?loop"
  proof (rule for_loop_inv [where P = ?P])
    fix i and ys :: "u8 list" assume "i < n" and P: "?P i ys"
    show "?P (Suc i) (ys[2 * (i + m) := EMPTY_SPACE, 2 * (i + m) + 1 := a])"
    proof (intro conjI allI impI)
      fix j assume j: "j < length xs"
      consider "j = 2 * (i + m)" | "j = 2 * (i + m) + 1" | "j \<noteq> 2 * (i + m)" "j \<noteq> 2 * (i + m) + 1"
        by blast
      then show "ys[2 * (i + m) := EMPTY_SPACE, 2 * (i + m) + 1 := a] ! j =
        (if 2 * m \<le> j \<and> j < 2 * (m + Suc i) then if even j then EMPTY_SPACE else a else xs ! j)"
        using P j by cases auto
    qed (use P in simp)
  qed auto
  then show ?thesis
    using assms by (intro nth_equalityI) (auto simp: nth_append nth_blank_cells)
qed

lemma shift_loop:
  fixes xs :: "u8 list"
  assumes "length xs = 4000"
  shows "for_loop 0 1920 (\<lambda>k xs. let ys = xs[2 * k := xs ! (2 * k + 160)]
           in ys[2 * k + 1 := ys ! (2 * k + 161)]) xs
       = drop 160 xs @ drop 3840 xs" (is "?loop = _")
proof -
  let ?P = "\<lambda>k ys. length ys = 4000 \<and>
    (\<forall>j<4000. ys ! j = (if j < 2 * k then xs ! (j + 160) else xs ! j))"
  have "?P 1920 ?loop"
  proof (rule for_loop_inv [where P = ?P])
    fix i and ys :: "u8 list" assume i: "i < 1920" and P: "?P i ys"
    let ?zs = "let zs = ys[2 * i := ys ! (2 * i + 160)] in zs[2 * i + 1 := zs ! (2 * i + 161)]"
    show "?P (Suc i) ?zs"
    proof (intro conjI allI impI)
      fix j :: nat assume j: "j < 4000"
      consider "j = 2 * i" | "j = 2 * i + 1" | "j \<noteq> 2 * i" "j \<noteq> 2 * i + 1" by blast
      then show "?zs ! j = (if j < 2 * Suc i then xs ! (j + 160) else xs ! j)"
        using P j i by cases (auto simp: Let_def add.commute)
    qed (use P in \<open>simp add: Let_def\<close>)
  qed (use assms in auto)
  then show ?thesis
    using assms by (intro nth_equalityI) (auto simp: nth_append add.commute)
qed

subsection \<open>Refinement\<close>

text \<open>Facts of a loop of cell writes: the rest of the console state is untouched.\<close>

lemma for_loop_frame:
  assumes "\<And>i s. a \<le> i \<Longrightarrow> i < b \<Longrightarrow> f (body i s) = f s"
  shows "f (for_loop a b body s) = f s"
  using for_loop_abs [where Q = "\<lambda>_. True" and h = f and body' = "\<lambda>_ x. x" and a = a and b = b and body = body]
    assms by (simp add: for_loop_def fold_invariant [where P = "\<lambda>x. x = f s"])

lemma cells_blank_loop:
  assumes "video_mapped s" and "m + n \<le> 2000"
  shows "read_bytes (for_loop 0 n (\<lambda>i. put_cell (int (i + m)) EMPTY_SPACE) s) VIDEO 4000
       = take (2 * m) (read_bytes s VIDEO 4000)
         @ blank_cells n (of_int (curr_attribute s)) @ drop (2 * (m + n)) (read_bytes s VIDEO 4000)"
proof -
  let ?Q = "\<lambda>t. video_mapped t \<and> curr_attribute t = curr_attribute s"
  have "read_bytes (for_loop 0 n (\<lambda>i. put_cell (int (i + m)) EMPTY_SPACE) s) VIDEO 4000
      = for_loop 0 n (\<lambda>i ys. ys[2 * (i + m) := EMPTY_SPACE, 2 * (i + m) + 1 := of_int (curr_attribute s)])
          (read_bytes s VIDEO 4000)"
  proof (rule for_loop_abs [where Q = ?Q and h = "\<lambda>s. read_bytes s VIDEO 4000", THEN conjunct2])
    fix i t assume "i < n" and "?Q t"
    then show "?Q (put_cell (int (i + m)) EMPTY_SPACE t) \<and>
      read_bytes (put_cell (int (i + m)) EMPTY_SPACE t) VIDEO 4000
      = (read_bytes t VIDEO 4000)[2 * (i + m) := EMPTY_SPACE, 2 * (i + m) + 1 := of_int (curr_attribute s)]"
      using assms(2) by (subst cells_put_cell) auto
  qed (use assms(1) in simp)
  also have "\<dots> = take (2 * m) (read_bytes s VIDEO 4000)
      @ blank_cells n (of_int (curr_attribute s)) @ drop (2 * (m + n)) (read_bytes s VIDEO 4000)"
    using assms(2) by (intro blank_loop) simp
  finally show ?thesis .
qed

lemma console_loop_frame:
  "(\<And>i s. f (body i s) = f s) \<Longrightarrow> f (for_loop a b body s) = f (s :: 'a console_scheme)"
  by (rule for_loop_frame)

lemma shift_screen_up_frame [simp]:
  "screen_x (shift_screen_up s) = screen_x s" "screen_y (shift_screen_up s) = screen_y s - 1"
  "curr_attribute (shift_screen_up s) = curr_attribute s" "xlat (shift_screen_up s) = xlat s"
  "io_log (shift_screen_up s) = io_log s" "eflags (shift_screen_up s) = eflags s"
  "console.more (shift_screen_up s) = console.more s"
  by (simp_all add: shift_screen_up_def Let_def console_loop_frame)

lemma abs_shift_screen_up:
  assumes "video_mapped s"
  shows "abs_vt (shift_screen_up s) = vt_scroll (abs_vt s)"
proof -
  let ?t = "for_loop 0 1920 shift_cell s"
  have t: "video_mapped ?t \<and> read_bytes ?t VIDEO 4000
      = for_loop 0 1920 (\<lambda>k xs. let ys = xs[2 * k := xs ! (2 * k + 160)]
           in ys[2 * k + 1 := ys ! (2 * k + 161)]) (read_bytes s VIDEO 4000)"
    by (rule for_loop_abs) (use assms cells_shift_cell in \<open>simp_all add: Let_def\<close>)
  have a: "curr_attribute ?t = curr_attribute s" by (rule console_loop_frame) simp
  have "read_bytes (shift_screen_up s) VIDEO 4000
      = take 3840 (read_bytes ?t VIDEO 4000) @ blank_cells 80 (of_int (curr_attribute s))"
    using cells_blank_loop [of ?t 1920 80] t a
    by (simp add: shift_screen_up_def Let_def read_bytes_def load_def)
  also have "take 3840 (read_bytes ?t VIDEO 4000) = drop 160 (read_bytes s VIDEO 4000)"
    using t shift_loop [of "read_bytes s VIDEO 4000"] by (simp only: length_read_bytes) simp
  finally show ?thesis by (simp add: abs_vt_def vt_scroll_def)
qed

lemma abs_upd_cursor [simp]:
  "abs_vt (s\<lparr>screen_x := x\<rparr>) = (abs_vt s)\<lparr>cx := x\<rparr>"
  "abs_vt (s\<lparr>screen_y := y\<rparr>) = (abs_vt s)\<lparr>cy := y\<rparr>"
  by (simp_all add: abs_vt_def read_bytes_def load_def)

lemma abs_sel [simp]:
  "cx (abs_vt s) = screen_x s" "cy (abs_vt s) = screen_y s" "attr (abs_vt s) = of_int (curr_attribute s)"
  by (simp_all add: abs_vt_def)

lemma sdiv_col: "0 \<le> x \<Longrightarrow> x < 80 \<Longrightarrow> (x + 1) sdiv (80 :: int) = (if x = 79 then 1 else 0)"
  by (auto simp: signed_divide_int_def div_pos_pos_trivial)

lemma smod_col: "0 \<le> x \<Longrightarrow> x < 80 \<Longrightarrow> (x + 1) smod (80 :: int) = (if x = 79 then 0 else x + 1)"
  by (auto simp: signed_modulo_int_def)

lemma putc_body_refines:
  assumes "screen_ok s" and "video_mapped s"
  shows "abs_vt (putc_body c s) = vt_putc c (abs_vt s)"
proof -
  note ok = assms(1) [unfolded screen_ok_def]
  consider (nl) "c = NEW_LINE \<or> c = CARRIAGE_RETURN" | (bs) "c = BKSP_CHAR"
    | (chr) "c \<noteq> NEW_LINE" "c \<noteq> CARRIAGE_RETURN" "c \<noteq> BKSP_CHAR" by blast
  then show ?thesis
  proof cases
    case nl
    then show ?thesis using ok assms(2)
      by (auto simp: putc_body_def vt_putc_def Let_def abs_shift_screen_up video_mapped_def spread_def)
  next
    case bs
    then show ?thesis using ok assms(2)
      by (auto simp: putc_body_def vt_putc_def Let_def abs_put_cell video_mapped_def spread_def max_def)
  next
    case chr
    have "0 \<le> 80 * screen_y s + screen_x s" "80 * screen_y s + screen_x s < 2000" using ok by auto
    then show ?thesis using chr ok assms(2)
      by (auto simp: putc_body_def vt_putc_def Let_def abs_put_cell abs_shift_screen_up
          sdiv_col smod_col video_mapped_def spread_def vt_put_def)
  qed
qed

lemma putc_body_ok:
  assumes "screen_ok s"
  shows "screen_ok (putc_body c s)"
  using assms by (auto simp: putc_body_def screen_ok_def Let_def sdiv_col smod_col)

section \<open>Footprint\<close>

text \<open>The frames behind the visible screen, and states that differ there at most.\<close>

definition window :: "'a machine_scheme \<Rightarrow> u32 set" where
  "window s = (\<lambda>i. xlat s (VIDEO + of_nat i)) ` {..<4000}"

definition only_window :: "'a machine_scheme \<Rightarrow> 'a machine_scheme \<Rightarrow> bool" where
  "only_window s t \<longleftrightarrow> xlat t = xlat s \<and> (\<forall>p. p \<notin> window s \<longrightarrow> ram t p = ram s p)"

lemma only_window_refl [simp]: "only_window s s"
  by (simp add: only_window_def)

lemma only_window_trans: "only_window s t \<Longrightarrow> only_window t u \<Longrightarrow> only_window s u"
  by (auto simp: only_window_def window_def)

lemma only_window_store:
  "k < 4000 \<Longrightarrow> only_window s (store (VIDEO + of_nat k) v s)"
  by (auto simp: only_window_def window_def store_def)

lemma only_window_put_cell:
  assumes "0 \<le> i" and "i < 2000"
  shows "only_window s (put_cell i c s)"
proof -
  obtain k where "i = int k" "k < 2000" using assms by (cases i) auto
  then show ?thesis
    unfolding \<open>i = int k\<close> put_cell_nat
    by (intro only_window_trans [OF only_window_store only_window_store]) auto
qed

lemma only_window_shift_cell: "k < 1920 \<Longrightarrow> only_window s (shift_cell k s)"
  unfolding shift_cell_nat Let_def
  by (intro only_window_trans [OF only_window_store only_window_store]) auto

lemma only_window_loop:
  assumes "a \<le> b" and "\<And>i t. a \<le> i \<Longrightarrow> i < b \<Longrightarrow> only_window t (body i t)"
  shows "only_window s (for_loop a b body s)"
  using assms(1) by (rule for_loop_inv [where P = "\<lambda>_. only_window s"])
    (auto intro: only_window_trans assms(2))

lemma only_window_upd [simp]:
  "only_window s (t\<lparr>screen_x := x\<rparr>) = only_window s t" "only_window s (t\<lparr>screen_y := y\<rparr>) = only_window s t"
  "only_window (s\<lparr>screen_x := x\<rparr>) t = only_window s t" "only_window (s\<lparr>screen_y := y\<rparr>) t = only_window s t"
  by (simp_all add: only_window_def window_def)

lemma only_window_shift_screen_up: "only_window s (shift_screen_up s)"
proof -
  let ?t = "for_loop 0 1920 shift_cell s"
  have "only_window s ?t" by (rule only_window_loop) (auto intro: only_window_shift_cell)
  moreover have "only_window ?t (for_loop 0 80 (\<lambda>i. put_cell (int (i + 1920)) EMPTY_SPACE) ?t)"
    by (rule only_window_loop) (auto intro: only_window_put_cell)
  ultimately show ?thesis
    by (simp add: shift_screen_up_def Let_def) (rule only_window_trans)
qed

lemma putc_body_window:
  assumes "screen_ok s"
  shows "only_window s (putc_body c s)"
proof -
  note ok = assms [unfolded screen_ok_def]
  have "only_window s (put_cell k b (s\<lparr>screen_x := x, screen_y := y\<rparr>))"
    "only_window s (put_cell k b (s\<lparr>screen_x := x\<rparr>))" "only_window s (put_cell k b s)"
    if "0 \<le> k" "k < 2000" for k x y b
    using that only_window_put_cell [of k "s\<lparr>screen_x := x, screen_y := y\<rparr>" b]
      only_window_put_cell [of k "s\<lparr>screen_x := x\<rparr>" b] only_window_put_cell [of k s b] by auto
  then show ?thesis
    using ok by (auto simp: putc_body_def Let_def sdiv_col smod_col
        intro!: only_window_trans [OF _ only_window_shift_screen_up])
qed

lemma putc_body_frame [simp]:
  "curr_attribute (putc_body c s) = curr_attribute s" "xlat (putc_body c s) = xlat s"
  "io_log (putc_body c s) = io_log s" "eflags (putc_body c s) = eflags s"
  "console.more (putc_body c s) = console.more s"
  by (simp_all add: putc_body_def Let_def)

section \<open>Character devices\<close>

text \<open>
  What a routine that prints text relies on: a function that prints one character,
  keeps the well-formedness of the screen, and refines a step of the abstract terminal.
  Printing a text is then the abstract terminal's run over it.
\<close>

locale char_device =
  fixes putch :: "u8 \<Rightarrow> 's \<Rightarrow> 's" and ok :: "'s \<Rightarrow> bool"
    and abs :: "'s \<Rightarrow> 't" and spec :: "u8 \<Rightarrow> 't \<Rightarrow> 't"
  assumes ok_putch: "ok s \<Longrightarrow> ok (putch c s)"
    and abs_putch: "ok s \<Longrightarrow> abs (putch c s) = spec c (abs s)"
begin

lemma print_ok: "ok s \<Longrightarrow> ok (fold putch bs s)"
  by (induction bs arbitrary: s) (simp_all add: ok_putch)

lemma print_refines: "ok s \<Longrightarrow> abs (fold putch bs s) = fold spec bs (abs s)"
  by (induction bs arbitrary: s) (simp_all add: ok_putch abs_putch)

end

definition console_ok :: "'a console_scheme \<Rightarrow> bool" where
  "console_ok s \<longleftrightarrow> screen_ok s \<and> video_mapped s"

lemma set_cursor_frame [simp]:
  "screen_x (set_cursor_location x y s) = screen_x s" "screen_y (set_cursor_location x y s) = screen_y s"
  "curr_attribute (set_cursor_location x y s) = curr_attribute s"
  "xlat (set_cursor_location x y s) = xlat s" "ram (set_cursor_location x y s) = ram s"
  "eflags (set_cursor_location x y s) = eflags s"
  "console.more (set_cursor_location x y s) = console.more s"
  by (simp_all add: set_cursor_location_def Let_def)

lemma abs_vt_cong:
  "ram t = ram s \<Longrightarrow> xlat t = xlat s \<Longrightarrow> screen_x t = screen_x s \<Longrightarrow> screen_y t = screen_y s \<Longrightarrow>
     curr_attribute t = curr_attribute s \<Longrightarrow> abs_vt t = abs_vt s"
  by (simp add: abs_vt_def read_bytes_def load_def)

interpretation screen_dev: char_device putc_screen console_ok abs_vt vt_putc
  by unfold_locales
    (auto simp: console_ok_def putc_screen_def putc_body_ok putc_body_refines video_mapped_def spread_def)

interpretation kbd_dev: char_device putc_kbd console_ok abs_vt vt_putc
proof unfold_locales
  fix s :: "'a console_scheme" and c assume "console_ok s"
  then show "console_ok (putc_kbd c s)"
    using putc_body_ok [of s c]
    by (simp add: console_ok_def putc_kbd_def Let_def screen_ok_def video_mapped_def spread_def)
  have "abs_vt (putc_kbd c s) = abs_vt (putc_body c s)"
    by (rule abs_vt_cong) (simp_all add: putc_kbd_def Let_def)
  then show "abs_vt (putc_kbd c s) = vt_putc c (abs_vt s)"
    using \<open>console_ok s\<close> by (simp add: console_ok_def putc_body_refines)
qed

section \<open>Printing a buffer\<close>

text \<open>The text a call of \<^verbatim>\<open>put_t\<close> prints: up to the terminator or \<open>n\<close> bytes.\<close>

definition buf_text :: "('s \<Rightarrow> nat \<Rightarrow> u8) \<Rightarrow> nat \<Rightarrow> 's \<Rightarrow> u8 list" where
  "buf_text buf n s = takeWhile (\<lambda>b. b \<noteq> 0) (map (buf s) [0..<n])"

text \<open>A buffer that writes to the screen do not change.\<close>

definition steady :: "('a console_scheme \<Rightarrow> nat \<Rightarrow> u8) \<Rightarrow> nat \<Rightarrow> 'a console_scheme \<Rightarrow> bool" where
  "steady buf n s \<longleftrightarrow> (\<forall>t i. only_window s t \<longrightarrow> i < n \<longrightarrow> buf t i = buf s i)"

lemma steady_text: "steady (at_text bs) n s"
  by (simp add: steady_def at_text_def)

lemma steady_addr:
  assumes "apart s p n VIDEO 4000"
  shows "steady (at_addr p) n s"
proof -
  have "xlat s (p + of_nat i) \<notin> window s" if "i < n" for i
    using assms that by (auto simp: apart_def window_def)
  then show ?thesis by (auto simp: steady_def only_window_def at_addr_def load_def)
qed

lemma fold_putc_window: "screen_ok s \<Longrightarrow> only_window s (fold putc_screen bs s) \<and> screen_ok (fold putc_screen bs s)"
proof (induction bs arbitrary: s)
  case (Cons b bs)
  then have "only_window (putc_screen b s) (fold putc_screen bs (putc_screen b s))
      \<and> screen_ok (fold putc_screen bs (putc_screen b s))"
    by (intro Cons.IH) (simp add: putc_screen_def putc_body_ok)
  then show ?case
    using putc_body_window [OF Cons.prems, of b] by (auto simp: putc_screen_def [of b s] intro: only_window_trans)
qed simp

lemma buf_text_prefix:
  assumes "i < length (buf_text buf n s)"
  shows "buf_text buf n s ! i = buf s i" "buf s i \<noteq> 0" "i < n"
proof -
  have "length (buf_text buf n s) \<le> n"
    unfolding buf_text_def by (rule order_trans [OF length_takeWhile_le]) simp
  then show "i < n" using assms by simp
  then show e: "buf_text buf n s ! i = buf s i"
    using assms by (simp add: buf_text_def takeWhile_nth)
  have "buf_text buf n s ! i \<in> set (buf_text buf n s)" using assms by (rule nth_mem)
  then show "buf s i \<noteq> 0" using e by (auto simp: buf_text_def dest: set_takeWhileD)
qed

lemma buf_text_end:
  "length (buf_text buf n s) < n \<Longrightarrow> buf s (length (buf_text buf n s)) = 0"
  using nth_length_takeWhile [of "\<lambda>b. b \<noteq> 0" "map (buf s) [0..<n]"] by (simp add: buf_text_def)

lemma put_t_from_eq:
  assumes "screen_ok s" and "steady buf n s" and "i \<le> length (buf_text buf n s)"
  shows "put_t_from buf n i (fold putc_screen (take i (buf_text buf n s)) s)
       = (length (buf_text buf n s), fold putc_screen (buf_text buf n s) s)"
  using assms(3)
proof (induction "length (buf_text buf n s) - i" arbitrary: i)
  case 0
  let ?bs = "buf_text buf n s"
  have i: "i = length ?bs" using 0 by simp
  have "buf (fold putc_screen ?bs s) i = 0 \<or> \<not> i < n"
    using buf_text_end [of buf n s] fold_putc_window [OF assms(1)] assms(2) i
    by (metis steady_def linorder_not_less)
  then show ?case by (subst put_t_from.simps) (auto simp: i)
next
  case (Suc k)
  let ?bs = "buf_text buf n s"
  let ?t = "fold putc_screen (take i ?bs) s"
  have i: "i < length ?bs" using Suc.hyps(2) by simp
  note p = buf_text_prefix [OF i]
  have "buf ?t i = ?bs ! i"
    using fold_putc_window [OF assms(1)] assms(2) p by (metis steady_def)
  moreover have "put_t_from buf n (Suc i) (fold putc_screen (take (Suc i) ?bs) s)
      = (length ?bs, fold putc_screen ?bs s)"
    using Suc.hyps(2) i by (intro Suc.hyps(1)) auto
  ultimately show ?case
    using i p by (subst put_t_from.simps) (simp add: take_Suc_conv_app_nth)
qed

lemma put_t_eq:
  "screen_ok s \<Longrightarrow> steady buf (unat n) s \<Longrightarrow>
     put_t buf n s = (length (buf_text buf (unat n) s), fold putc_screen (buf_text buf (unat n) s) s)"
  using put_t_from_eq [of s buf "unat n" 0] by (simp add: put_t_def)

section \<open>Clearing\<close>

lemma clear_frame [simp]:
  "screen_x (clear s) = screen_x s" "screen_y (clear s) = screen_y s"
  "curr_attribute (clear s) = curr_attribute s" "xlat (clear s) = xlat s"
  "io_log (clear s) = io_log s" "eflags (clear s) = eflags s"
  "console.more (clear s) = console.more s"
  by (simp_all add: clear_def console_loop_frame)

lemma clear_cells:
  assumes "video_mapped s"
  shows "read_bytes (clear s) VIDEO 4000 = blank_cells 2000 (of_int (curr_attribute s))"
  using cells_blank_loop [OF assms, of 0 2000] by (simp add: clear_def)

lemma only_window_clear: "only_window s (clear s)"
  unfolding clear_def by (rule only_window_loop) (auto intro: only_window_put_cell)

end
