(* ===== verification/Pids.thy ===== *)
theory Pids
  imports Screen
begin

text \<open>
  Process identifiers, from \<^verbatim>\<open>student-distrib/scheduling.c\<close>: a bitmap
  \<^verbatim>\<open>pid_avail\<close> whose set bits are the identifiers in use, and the physical
  block of memory an identifier owns. The state record also carries
  \<^verbatim>\<open>terminal_being_serviced\<close>, the other variable of that file.

  The interface \<open>pid_pool\<close> states what \<^verbatim>\<open>internal_execute\<close> and
  \<^verbatim>\<open>halt\<close> rely on; the bitmap is its interpretation.
\<close>

section \<open>State and operations\<close>

record sched = console +
  pid_avail :: u32
  terminal_being_serviced :: u8

abbreviation (input) MAX_NUM_PROCS :: nat where "MAX_NUM_PROCS \<equiv> 6"

definition all_pids_available :: "'a sched_scheme \<Rightarrow> bool" where
  "all_pids_available s \<longleftrightarrow> pid_avail s = 0"

definition get_terminal_of_current_process :: "'a sched_scheme \<Rightarrow> u8" where
  "get_terminal_of_current_process s = terminal_being_serviced s"

definition set_terminal_of_current_process :: "u8 \<Rightarrow> 'a sched_scheme \<Rightarrow> 'a sched_scheme" where
  "set_terminal_of_current_process dest_terminal s = s\<lparr>terminal_being_serviced := dest_terminal\<rparr>"

text \<open>The loop of \<^verbatim>\<open>get_available_pid\<close>: \<open>k\<close> rounds are left.\<close>

fun get_available_pid_from :: "nat \<Rightarrow> int \<Rightarrow> u32 \<Rightarrow> u32 \<Rightarrow> int" where
  "get_available_pid_from 0 i current avail = FAILURE"
| "get_available_pid_from (Suc k) i current avail =
     (if avail AND current = 0 then i else get_available_pid_from k (i + 1) (push_bit 1 current) avail)"

definition get_available_pid :: "'a sched_scheme \<Rightarrow> int" where
  "get_available_pid s = get_available_pid_from MAX_NUM_PROCS 0 1 (pid_avail s)"

definition mark_pid_used :: "int \<Rightarrow> 'a sched_scheme \<Rightarrow> int \<times> 'a sched_scheme" where
  "mark_pid_used pid s =
     (if pid \<ge> 0 \<and> pid < int MAX_NUM_PROCS
      then (SUCCESS, s\<lparr>pid_avail := pid_avail s OR push_bit (nat pid) 1\<rparr>) else (FAILURE, s))"

definition mark_pid_free :: "int \<Rightarrow> 'a sched_scheme \<Rightarrow> int \<times> 'a sched_scheme" where
  "mark_pid_free pid s =
     (if pid \<ge> 0 \<and> pid < int MAX_NUM_PROCS
      then (SUCCESS, s\<lparr>pid_avail := pid_avail s AND NOT (push_bit (nat pid) 1)\<rparr>) else (FAILURE, s))"

text \<open>The result is a \<^verbatim>\<open>uint8_t\<close>, so the failure code -1 arrives as 255.\<close>

definition is_pid_used :: "int \<Rightarrow> 'a sched_scheme \<Rightarrow> u8" where
  "is_pid_used pid s =
     (if pid < 0 \<or> pid \<ge> int MAX_NUM_PROCS then of_int FAILURE
      else ucast (drop_bit (nat pid) (pid_avail s AND push_bit (nat pid) 1)))"

definition block_address_for_process :: "int \<Rightarrow> u32" where
  "block_address_for_process pid =
     (if pid \<ge> 0 \<and> pid < int MAX_NUM_PROCS then 0x800000 + 0x400000 * of_int pid else of_int FAILURE)"

section \<open>The bitmap as a set\<close>

definition pid_set :: "'a sched_scheme \<Rightarrow> int set" where
  "pid_set s = {pid. 0 \<le> pid \<and> pid < int MAX_NUM_PROCS \<and> bit (pid_avail s) (nat pid)}"

text \<open>Only the low six bits are ever set.\<close>

definition pids_ok :: "'a sched_scheme \<Rightarrow> bool" where
  "pids_ok s \<longleftrightarrow> (\<forall>n. bit (pid_avail s) n \<longrightarrow> n < MAX_NUM_PROCS)"

lemma and_single_bit: "(w :: u32) AND 2 ^ n = 0 \<longleftrightarrow> \<not> bit w n"
  by (simp add: bit_iff_and_push_bit_not_eq_0)

lemma get_available_pid_from_eq:
  "n + k \<le> 32 \<Longrightarrow>
   get_available_pid_from k (int n) (push_bit n 1) w =
     (if \<forall>i. n \<le> i \<and> i < n + k \<longrightarrow> bit w i then FAILURE
      else int (LEAST i. n \<le> i \<and> \<not> bit w i))"
proof (induction k arbitrary: n)
  case (Suc k)
  show ?case
  proof (cases "bit w n")
    case False
    then have "(LEAST i. n \<le> i \<and> \<not> bit w i) = n" by (intro Least_equality) auto
    then show ?thesis using False Suc.prems by (auto simp: and_single_bit)
  next
    case True
    have "(n \<le> i \<and> \<not> bit w i) = (Suc n \<le> i \<and> \<not> bit w i)" for i
      using True by (metis Suc_leD le_antisym not_less_eq_eq)
    moreover have "(\<forall>i. n \<le> i \<and> i < n + Suc k \<longrightarrow> bit w i) = (\<forall>i. Suc n \<le> i \<and> i < Suc n + k \<longrightarrow> bit w i)"
      using True by (metis Suc_leD add_Suc_shift le_antisym not_less_eq_eq)
    ultimately show ?thesis
      using True Suc.IH [of "Suc n"] Suc.prems by (simp add: and_single_bit mult.commute add.commute)
  qed
qed simp

lemma get_available_pid_cases:
  "get_available_pid s = FAILURE \<and> pid_set s = {0..<6} \<or>
   (\<exists>n<6. get_available_pid s = int n \<and> int n \<notin> pid_set s \<and> (\<forall>i<n. int i \<in> pid_set s))"
proof (cases "\<forall>i<6. bit (pid_avail s) i")
  case True
  then have "pid_set s = {0..<6}" by (auto simp: pid_set_def)
  then show ?thesis
    using True get_available_pid_from_eq [of 0 6 "pid_avail s"] by (simp add: get_available_pid_def)
next
  case False
  let ?n = "LEAST i. \<not> bit (pid_avail s) i"
  have n: "\<not> bit (pid_avail s) ?n" "?n < 6"
    using False by (metis (lifting) LeastI, metis (lifting) Least_le le_less_trans)
  have "get_available_pid s = int ?n"
    using False get_available_pid_from_eq [of 0 6 "pid_avail s"] by (simp add: get_available_pid_def)
  moreover have "int ?n \<notin> pid_set s" using n(1) by (simp add: pid_set_def)
  moreover have "int i \<in> pid_set s" if "i < ?n" for i
    using not_less_Least [OF that] that n(2) by (simp add: pid_set_def)
  ultimately show ?thesis using n(2) by blast
qed

lemma pid_set_mark_used:
  "0 \<le> pid \<Longrightarrow> pid < 6 \<Longrightarrow> pid_set (snd (mark_pid_used pid s)) = insert pid (pid_set s)"
  by (auto simp: pid_set_def mark_pid_used_def bit_simps nat_eq_iff)

lemma pid_set_mark_free:
  "0 \<le> pid \<Longrightarrow> pid < 6 \<Longrightarrow> pid_set (snd (mark_pid_free pid s)) = pid_set s - {pid}"
  by (auto simp: pid_set_def mark_pid_free_def bit_simps nat_eq_iff)

lemma is_pid_used_iff:
  assumes "0 \<le> pid" and "pid < 6"
  shows "is_pid_used pid s = (if pid \<in> pid_set s then 1 else 0)"
proof -
  have "drop_bit (nat pid) (pid_avail s AND push_bit (nat pid) 1) = (of_bool (bit (pid_avail s) (nat pid)) :: u32)"
    using assms by (intro bit_word_eqI) (auto simp: bit_simps)
  then show ?thesis using assms by (simp add: is_pid_used_def pid_set_def)
qed

lemma all_pids_available_iff: "pids_ok s \<Longrightarrow> all_pids_available s \<longleftrightarrow> pid_set s = {}"
proof -
  assume ok: "pids_ok s"
  have "pid_avail s = 0" if e: "pid_set s = {}"
  proof (rule bit_word_eqI)
    fix n show "bit (pid_avail s) n = bit 0 n"
      using ok e by (auto simp: pids_ok_def pid_set_def) (metis int_ops(3) nat_int of_nat_0_le_iff of_nat_less_iff)
  qed
  then show ?thesis by (auto simp: all_pids_available_def pid_set_def)
qed

lemma pids_ok_mark_used: "pids_ok s \<Longrightarrow> pids_ok (snd (mark_pid_used pid s))"
  by (auto simp: pids_ok_def mark_pid_used_def bit_simps nat_less_iff)

lemma pids_ok_mark_free: "pids_ok s \<Longrightarrow> pids_ok (snd (mark_pid_free pid s))"
  by (auto simp: pids_ok_def mark_pid_free_def bit_simps)

lemma finite_pid_set [simp]: "finite (pid_set s)"
  by (rule finite_subset [of _ "{0..<6}"]) (auto simp: pid_set_def)

section \<open>The pool interface\<close>

text \<open>
  A pool of identifiers \<open>U\<close>: \<open>used\<close> is the set handed out,
  \<open>pick\<close> proposes a free one or fails when there is none, \<open>take_id\<close>
  and \<open>drop_id\<close> mark an identifier.
\<close>

locale pid_pool =
  fixes U :: "int set" and used :: "'s \<Rightarrow> int set" and ok :: "'s \<Rightarrow> bool"
    and pick :: "'s \<Rightarrow> int" and take_id :: "int \<Rightarrow> 's \<Rightarrow> 's" and drop_id :: "int \<Rightarrow> 's \<Rightarrow> 's"
  assumes finite_U: "finite U" and fail_notin: "FAILURE \<notin> U"
    and used_U: "used s \<subseteq> U"
    and pick_fail: "pick s = FAILURE \<longleftrightarrow> used s = U"
    and pick_fresh: "used s \<noteq> U \<Longrightarrow> pick s \<in> U - used s"
    and used_take: "p \<in> U \<Longrightarrow> used (take_id p s) = insert p (used s)"
    and used_drop: "p \<in> U \<Longrightarrow> used (drop_id p s) = used s - {p}"
    and ok_take: "ok s \<Longrightarrow> ok (take_id p s)" and ok_drop: "ok s \<Longrightarrow> ok (drop_id p s)"
begin

lemma take_then_drop:
  "pick s \<noteq> FAILURE \<Longrightarrow> used (drop_id (pick s) (take_id (pick s) s)) = used s"
  using pick_fresh [of s] pick_fail [of s] by (auto simp: used_take used_drop)

lemma take_counts:
  "pick s \<noteq> FAILURE \<Longrightarrow> card (used (take_id (pick s) s)) = Suc (card (used s))"
  using pick_fresh [of s] pick_fail [of s] finite_subset [OF used_U finite_U]
  by (simp add: used_take)

text \<open>Allocating \<open>n\<close> times from a pool with \<open>n\<close> free identifiers succeeds; once more fails.\<close>

primrec take_many :: "nat \<Rightarrow> 's \<Rightarrow> 's" where
  "take_many 0 s = s"
| "take_many (Suc n) s = (let t = take_many n s in take_id (pick t) t)"

lemma take_many_used:
  "card (used s) + n \<le> card U \<Longrightarrow> card (used (take_many n s)) = card (used s) + n"
proof (induction n)
  case (Suc n)
  let ?t = "take_many n s"
  have "card (used ?t) = card (used s) + n" using Suc by simp
  then have "used ?t \<noteq> U" using Suc.prems by auto
  then show ?case
    using Suc take_counts [of ?t] pick_fail [of ?t] by (simp add: Let_def)
qed simp

lemma pool_exhausted:
  assumes "card (used s) + n = card U"
  shows "pick (take_many n s) = FAILURE"
proof -
  have "card (used (take_many n s)) = card U" using take_many_used [of s n] assms by simp
  then have "used (take_many n s) = U" by (metis card_subset_eq finite_U used_U)
  then show ?thesis by (simp add: pick_fail)
qed

end

interpretation bitmap: pid_pool "{0..<6}" pid_set pids_ok get_available_pid
  "\<lambda>p s. snd (mark_pid_used p s)" "\<lambda>p s. snd (mark_pid_free p s)"
proof unfold_locales
  fix s :: "'a sched_scheme"
  show "pid_set s \<subseteq> {0..<6}" by (auto simp: pid_set_def)
  show "(get_available_pid s = FAILURE) = (pid_set s = {0..<6})"
    using get_available_pid_cases [of s] by force
  show "get_available_pid s \<in> {0..<6} - pid_set s" if "pid_set s \<noteq> {0..<6}"
    using get_available_pid_cases [of s] that by auto
qed (auto simp: pid_set_mark_used pid_set_mark_free pids_ok_mark_used pids_ok_mark_free)

section \<open>Memory blocks\<close>

lemma block_address_eq:
  "0 \<le> pid \<Longrightarrow> pid < 6 \<Longrightarrow> unat (block_address_for_process pid) = 0x800000 + 0x400000 * nat pid"
proof -
  assume "0 \<le> pid" "pid < 6"
  then have "pid \<in> {0, 1, 2, 3, 4, 5}" by auto
  then show ?thesis by (auto simp: block_address_for_process_def)
qed

end
