(* ===== verification/Paging.thy ===== *)
theory Paging
  imports Pids
begin

text \<open>
  Paging, from \<^verbatim>\<open>student-distrib/paging.c\<close>, \<^verbatim>\<open>paging.h\<close> and
  \<^verbatim>\<open>paging_asm.S\<close>. Page directories and page tables are arrays of 32-bit entries;
  they are kept in a heap of their own, \<open>ptmem\<close>, indexed by the address of the
  entry. Where the linker puts the arrays is not part of the sources: the addresses are the
  argument \<open>lay\<close>, and the theorems assume the 4096-byte alignment and the
  disjointness that the declarations give them.

  \<open>translate\<close> is the page walk of the processor (Intel IA-32, 32-bit paging with
  PSE): the frame address an access goes to and whether user code may make it.
  Writing CR3 and \<^verbatim>\<open>invlpg\<close> are the two ways in which new entries take effect:
  they rebuild the translation \<open>xlat\<close> that loads and stores use. An access to a page
  that is not present faults on the machine; \<open>xlat\<close> leaves such an address
  unchanged, and no theorem about memory uses it there.
\<close>

section \<open>State\<close>

record paging = sched +
  ptmem :: "u32 \<Rightarrow> u32"
  cr3 :: u32

record layout =
  kernel_page_directory :: u32
  kernel_page_table :: u32
  user_level_page_directories :: u32
  user_level_base_page_tables :: u32

abbreviation (input) TWENTY_BIT_ADDRESS_MASK :: u32 where "TWENTY_BIT_ADDRESS_MASK \<equiv> 0xFFFFF000"
abbreviation (input) TASK_VIRTUAL_BASE_ADDRESS :: u32 where "TASK_VIRTUAL_BASE_ADDRESS \<equiv> 0x08000000"
abbreviation (input) TASK_PROGRAM_IMAGE_OFFSET :: u32 where "TASK_PROGRAM_IMAGE_OFFSET \<equiv> 0x00048000"
abbreviation (input) KERNEL_BASE_ADDRESS :: u32 where "KERNEL_BASE_ADDRESS \<equiv> 0x400000"
abbreviation (input) PTE_ENTRY_PRESENT :: u32 where "PTE_ENTRY_PRESENT \<equiv> 3"
abbreviation (input) PTE_ENTRY_NOT_PRESENT :: u32 where "PTE_ENTRY_NOT_PRESENT \<equiv> 2"
abbreviation (input) PDE_ENTRY_4MB_PRESENT :: u32 where "PDE_ENTRY_4MB_PRESENT \<equiv> 0x83"
abbreviation (input) PDE_ENTRY_PRESENT :: u32 where "PDE_ENTRY_PRESENT \<equiv> 3"
abbreviation (input) PDE_ENTRY_NOT_PRESENT :: u32 where "PDE_ENTRY_NOT_PRESENT \<equiv> 2"
abbreviation (input) PDE_USER_ACCESSIBLE :: u32 where "PDE_USER_ACCESSIBLE \<equiv> 4"
abbreviation (input) GRANT_USER_ACCESS :: u32 where "GRANT_USER_ACCESS \<equiv> 6"

section \<open>The processor's page walk\<close>

definition translate :: "(u32 \<Rightarrow> u32) \<Rightarrow> u32 \<Rightarrow> u32 \<Rightarrow> (u32 \<times> bool) option" where
  "translate pt c va =
     (let pde = pt ((c AND 0xFFFFF000) + 4 * drop_bit 22 va)
      in if pde AND 1 = 0 then None
         else if pde AND 0x80 \<noteq> 0
         then Some ((pde AND 0xFFC00000) OR (va AND 0x3FFFFF), pde AND 4 \<noteq> 0)
         else
           let pte = pt ((pde AND 0xFFFFF000) + 4 * (drop_bit 12 va AND 0x3FF))
           in if pte AND 1 = 0 then None
              else Some ((pte AND 0xFFFFF000) OR (va AND 0xFFF), pde AND 4 \<noteq> 0 \<and> pte AND 4 \<noteq> 0))"

definition mmu_xlat :: "(u32 \<Rightarrow> u32) \<Rightarrow> u32 \<Rightarrow> u32 \<Rightarrow> u32" where
  "mmu_xlat pt c va = (case translate pt c va of None \<Rightarrow> va | Some (pa, _) \<Rightarrow> pa)"

section \<open>Operations\<close>

definition get_entry :: "u32 \<Rightarrow> nat \<Rightarrow> 'a paging_scheme \<Rightarrow> u32" where
  "get_entry tab i s = ptmem s (tab + of_nat (4 * i))"

definition set_entry :: "u32 \<Rightarrow> nat \<Rightarrow> u32 \<Rightarrow> 'a paging_scheme \<Rightarrow> 'a paging_scheme" where
  "set_entry tab i v s = s\<lparr>ptmem := (ptmem s)(tab + of_nat (4 * i) := v)\<rparr>"

definition PDE_ADDRESS_ASSIGN :: "u32 \<Rightarrow> u32" where
  "PDE_ADDRESS_ASSIGN address = address AND TWENTY_BIT_ADDRESS_MASK"

definition PTE_ADDRESS_ASSIGN :: "u32 \<Rightarrow> u32" where
  "PTE_ADDRESS_ASSIGN address = address AND TWENTY_BIT_ADDRESS_MASK"

definition base_page_entry :: "nat \<Rightarrow> u32" where
  "base_page_entry i =
     (let a = of_nat i * 4096
      in if a = VIDEO \<or> a = VIDEO + LITERAL_4KB \<or> a = VIDEO + LITERAL_8KB \<or> a = VIDEO + LITERAL_12KB
         then PTE_ADDRESS_ASSIGN a OR PTE_ENTRY_PRESENT
         else PTE_ADDRESS_ASSIGN a OR PTE_ENTRY_NOT_PRESENT)"

definition setup_base_page_table :: "u32 \<Rightarrow> 'a paging_scheme \<Rightarrow> 'a paging_scheme" where
  "setup_base_page_table base_page_table s =
     for_loop 0 1024 (\<lambda>i. set_entry base_page_table i (base_page_entry i)) s"

definition init_kernel_pages :: "layout \<Rightarrow> 'a paging_scheme \<Rightarrow> 'a paging_scheme" where
  "init_kernel_pages lay s =
     (let pd = kernel_page_directory lay;
          s = set_entry pd 0 (PDE_ADDRESS_ASSIGN (kernel_page_table lay) OR PDE_ENTRY_PRESENT) s;
          s = setup_base_page_table (kernel_page_table lay) s;
          s = set_entry pd 1 (PDE_ADDRESS_ASSIGN KERNEL_BASE_ADDRESS OR PDE_ENTRY_4MB_PRESENT) s;
          s = for_loop 2 8 (\<lambda>i. set_entry pd i
                (PDE_ADDRESS_ASSIGN (of_nat i * 0x400000) OR PDE_ENTRY_4MB_PRESENT)) s
      in for_loop 8 1024 (\<lambda>i. set_entry pd i
           (PDE_ADDRESS_ASSIGN (of_nat i * 0x400000) OR PDE_ENTRY_NOT_PRESENT)) s)"

definition set_new_page_directory :: "u32 \<Rightarrow> 'a paging_scheme \<Rightarrow> 'a paging_scheme" where
  "set_new_page_directory base s = s\<lparr>cr3 := base, xlat := mmu_xlat (ptmem s) base\<rparr>"

text \<open>
  Before \<^verbatim>\<open>paging_hw_enable\<close> runs, addresses are physical; afterwards they are
  translated. The routine loads CR3 and turns on PSE and PG.
\<close>

definition paging_hw_enable :: "u32 \<Rightarrow> 'a paging_scheme \<Rightarrow> 'a paging_scheme" where
  "paging_hw_enable base s = s\<lparr>cr3 := base, xlat := mmu_xlat (ptmem s) base\<rparr>"

definition vm_flush_page :: "u32 \<Rightarrow> 'a paging_scheme \<Rightarrow> 'a paging_scheme" where
  "vm_flush_page entry s =
     s\<lparr>xlat := (\<lambda>va. if va AND 0xFFFFF000 = entry AND 0xFFFFF000 then mmu_xlat (ptmem s) (cr3 s) va
                else xlat s va)\<rparr>"

definition init_paging :: "layout \<Rightarrow> 'a paging_scheme \<Rightarrow> 'a paging_scheme" where
  "init_paging lay s = paging_hw_enable (kernel_page_directory lay) (init_kernel_pages lay s)"

definition get_kernel_page_directory :: "layout \<Rightarrow> u32" where
  "get_kernel_page_directory lay = kernel_page_directory lay"

text \<open>Only the upper bound of the identifier is checked; NULL is 0.\<close>

definition get_page_directory_for_pid :: "layout \<Rightarrow> int \<Rightarrow> u32" where
  "get_page_directory_for_pid lay pid =
     (if pid \<ge> 6 then 0 else user_level_page_directories lay + 4096 * of_int pid)"

definition get_base_page_table_for_pid :: "layout \<Rightarrow> int \<Rightarrow> u32" where
  "get_base_page_table_for_pid lay pid =
     (if pid \<ge> 6 then 0 else user_level_base_page_tables lay + 4096 * of_int pid)"

definition setup_task_paging :: "u32 \<Rightarrow> u32 \<Rightarrow> u32 \<Rightarrow> 'a paging_scheme \<Rightarrow> 'a paging_scheme" where
  "setup_task_paging page_directory base_page_table phys_program_address s =
     (let s = set_entry page_directory 0 (PDE_ADDRESS_ASSIGN base_page_table OR PDE_ENTRY_PRESENT) s;
          s = setup_base_page_table base_page_table s;
          s = set_entry page_directory 1
                (PDE_ADDRESS_ASSIGN KERNEL_BASE_ADDRESS OR PDE_ENTRY_4MB_PRESENT) s;
          s = for_loop 2 8 (\<lambda>i. set_entry page_directory i
                (PDE_ADDRESS_ASSIGN (of_nat i * 0x400000) OR PDE_ENTRY_4MB_PRESENT)) s
      in for_loop 8 1024 (\<lambda>i. set_entry page_directory i
           (if (of_nat i * 0x400000 :: u32) = TASK_VIRTUAL_BASE_ADDRESS
            then PDE_ADDRESS_ASSIGN phys_program_address OR (PDE_ENTRY_4MB_PRESENT OR PDE_USER_ACCESSIBLE)
            else PDE_ADDRESS_ASSIGN (of_nat i * 0x400000) OR PDE_ENTRY_NOT_PRESENT)) s)"

text \<open>The mask is written 0x003FF in the source, which keeps ten bits although its name says twelve.\<close>

abbreviation (input) ISOLATE_PTE_IDX :: u32 where "ISOLATE_PTE_IDX \<equiv> 0x3FF"
abbreviation (input) ISOLATE_BTM_12BITS :: u32 where "ISOLATE_BTM_12BITS \<equiv> 0x3FF"

definition change_table_mapping :: "u32 \<Rightarrow> u32 \<Rightarrow> u32 \<Rightarrow> 'a paging_scheme \<Rightarrow> 'a paging_scheme" where
  "change_table_mapping table address_of_entry new_value s =
     (let index = unat (drop_bit 12 address_of_entry AND ISOLATE_PTE_IDX);
          entry = get_entry table index s
      in set_entry table index (PTE_ADDRESS_ASSIGN new_value OR (entry AND ISOLATE_BTM_12BITS)) s)"

definition setup_user_access_pte :: "u32 \<Rightarrow> u32 \<Rightarrow> 'a paging_scheme \<Rightarrow> 'a paging_scheme" where
  "setup_user_access_pte base_page_table videomem s =
     (let index = unat (drop_bit 12 videomem AND ISOLATE_PTE_IDX)
      in set_entry base_page_table index (get_entry base_page_table index s OR GRANT_USER_ACCESS) s)"

definition setup_user_access_pde :: "u32 \<Rightarrow> u32 \<Rightarrow> 'a paging_scheme \<Rightarrow> 'a paging_scheme" where
  "setup_user_access_pde page_directory videomem s =
     (let index = unat (drop_bit 22 videomem)
      in set_entry page_directory index (get_entry page_directory index s OR GRANT_USER_ACCESS) s)"

section \<open>Addresses and entries\<close>

definition page_aligned :: "u32 \<Rightarrow> bool" where
  "page_aligned a \<longleftrightarrow> take_bit 12 a = 0"

definition big_aligned :: "u32 \<Rightarrow> bool" where
  "big_aligned a \<longleftrightarrow> take_bit 22 a = 0"

lemma masks_u32:
  "(0xFFFFF000 :: u32) = NOT (mask 12)" "(0xFFC00000 :: u32) = NOT (mask 22)"
  "(0x3FFFFF :: u32) = mask 22" "(0xFFF :: u32) = mask 12" "(0x3FF :: u32) = mask 10"
  by (simp_all add: mask_eq_exp_minus_1)

lemma take_bit_0_iff: "take_bit n (a :: u32) = 0 \<longleftrightarrow> (\<forall>i<n. \<not> bit a i)"
proof
  assume "take_bit n a = 0"
  then have "\<not> bit (take_bit n a) i" for i by simp
  then show "\<forall>i<n. \<not> bit a i" by (simp add: bit_take_bit_iff)
next
  assume "\<forall>i<n. \<not> bit a i"
  then show "take_bit n a = 0" by (intro bit_word_eqI) (auto simp: bit_simps)
qed

lemma page_aligned_bits: "page_aligned a \<longleftrightarrow> (\<forall>i<12. \<not> bit a i)"
  by (simp add: page_aligned_def take_bit_0_iff)

lemma big_aligned_bits: "big_aligned a \<longleftrightarrow> (\<forall>i<22. \<not> bit a i)"
  by (simp add: big_aligned_def take_bit_0_iff)

lemma big_aligned_page [simp]: "big_aligned a \<Longrightarrow> page_aligned a"
  by (simp add: page_aligned_bits big_aligned_bits)

text \<open>An entry is an aligned address with flags in its low twelve bits.\<close>

lemma flag_bits: "take_bit 12 f = (f :: u32) \<Longrightarrow> 12 \<le> i \<Longrightarrow> \<not> bit f i"
  by (metis bit_take_bit_iff linorder_not_less)

lemma entry_address [simp]:
  "page_aligned a \<Longrightarrow> take_bit 12 f = f \<Longrightarrow> (a OR f) AND 0xFFFFF000 = a"
  unfolding masks_u32 page_aligned_bits
  by (rule bit_word_eqI) (auto simp: bit_simps not_less dest: flag_bits)

lemma entry_address_big [simp]:
  assumes "big_aligned a" and "take_bit 12 f = f"
  shows "(a OR f) AND 0xFFC00000 = a"
proof (rule bit_word_eqI)
  fix n assume "n < LENGTH(32)"
  then show "bit ((a OR f) AND 0xFFC00000) n = bit a n"
    using assms(1) flag_bits [OF assms(2), of n] unfolding masks_u32 big_aligned_bits
    by (cases "n < 22") (auto simp: bit_simps)
qed

lemma entry_flags:
  assumes "page_aligned a" and "take_bit 12 m = m"
  shows "(a OR f) AND m = f AND m"
proof (rule bit_word_eqI)
  fix n show "bit ((a OR f) AND m) n = bit (f AND m) n"
    using assms flag_bits [OF assms(2), of n]
    by (cases "n < 12") (auto simp: bit_simps page_aligned_bits)
qed

lemma address_assign [simp]:
  "page_aligned a \<Longrightarrow> PDE_ADDRESS_ASSIGN a = a" "page_aligned a \<Longrightarrow> PTE_ADDRESS_ASSIGN a = a"
  using entry_address [of a 0] by (simp_all add: PDE_ADDRESS_ASSIGN_def PTE_ADDRESS_ASSIGN_def)

lemma page_aligned_frame [simp]: "page_aligned (of_nat i * 4096)"
proof -
  have "of_nat i * 4096 = (push_bit 12 (of_nat i) :: u32)" by (simp add: push_bit_eq_mult)
  then show ?thesis by (simp add: page_aligned_bits bit_simps)
qed

lemma big_aligned_block [simp]: "big_aligned (of_nat i * 0x400000)"
proof -
  have "of_nat i * 0x400000 = (push_bit 22 (of_nat i) :: u32)" by (simp add: push_bit_eq_mult)
  then show ?thesis by (simp add: big_aligned_bits bit_simps)
qed

lemma page_base_add:
  assumes "page_aligned a" and "k < 4096"
  shows "unat (a + of_nat k) = unat a + k" and "4096 dvd unat a"
proof -
  have "take_bit 12 (unat a) = 0"
    using assms(1) unfolding page_aligned_def by (metis unsigned_0 unsigned_take_bit_eq)
  then show d: "4096 dvd unat a" by (simp add: take_bit_eq_mod dvd_eq_mod_eq_0)
  then obtain q where q: "unat a = 4096 * q" by blast
  have "unat a < 4294967296" using unsigned_less [of a] by simp
  then have "q < 1048576" using q by simp
  then have "unat a + k < 4294967296" using q assms(2) by simp
  then show "unat (a + of_nat k) = unat a + k"
    using assms(2) by (simp add: unat_word_ariths unat_of_nat take_bit_nat_eq_self)
qed

text \<open>Entries of different tables, or different entries of one table, have different addresses.\<close>

lemma entry_distinct:
  assumes "page_aligned a" "page_aligned b" "i < 1024" "j < 1024"
  shows "(a + of_nat (4 * i) = b + of_nat (4 * j)) \<longleftrightarrow> a = b \<and> i = j"
proof
  assume eq: "a + of_nat (4 * i) = b + of_nat (4 * j)"
  have "unat a + 4 * i = unat b + 4 * j"
    using page_base_add(1) [of a "4 * i"] page_base_add(1) [of b "4 * j"] assms eq by simp
  moreover obtain p q where "unat a = 4096 * p" "unat b = 4096 * q"
    using page_base_add(2) assms(1,2) by (metis dvd_def zero_less_numeral)
  ultimately have e: "4096 * p + 4 * i = 4096 * q + 4 * j" by simp
  then have "(4096 * p + 4 * i) div 4096 = (4096 * q + 4 * j) div 4096" by simp
  then have "p = q" using assms(3,4) by simp
  then have "i = j" using e by simp
  then show "a = b \<and> i = j"
    using \<open>p = q\<close> \<open>unat a = 4096 * p\<close> \<open>unat b = 4096 * q\<close> by (metis unsigned_word_eqI)
qed simp

lemma get_set_entry:
  "page_aligned a \<Longrightarrow> page_aligned b \<Longrightarrow> i < 1024 \<Longrightarrow> j < 1024 \<Longrightarrow>
     get_entry a i (set_entry b j v s) = (if a = b \<and> i = j then v else get_entry a i s)"
  by (simp add: get_entry_def set_entry_def entry_distinct del: of_nat_mult)

lemma get_entry_loop:
  assumes "page_aligned a" "page_aligned b" "i < 1024" "m \<le> n" "n \<le> 1024"
  shows "get_entry a i (for_loop m n (\<lambda>k. set_entry b k (f k)) s)
       = (if a = b \<and> m \<le> i \<and> i < n then f i else get_entry a i s)"
proof -
  let ?P = "\<lambda>k t. get_entry a i t = (if a = b \<and> m \<le> i \<and> i < k then f i else get_entry a i s)"
  have "?P n (for_loop m n (\<lambda>k. set_entry b k (f k)) s)"
    by (rule for_loop_inv [where P = ?P]) (use assms in \<open>auto simp: get_set_entry\<close>)
  then show ?thesis .
qed


section \<open>Address spaces\<close>

text \<open>The walk reads entries of the directory and of the table that the directory points to.\<close>

definition walk_pte :: "u32 \<Rightarrow> bool \<Rightarrow> u32 \<Rightarrow> (u32 \<times> bool) option" where
  "walk_pte pte usr va =
     (if pte AND 1 = 0 then None
      else Some ((pte AND 0xFFFFF000) OR (va AND 0xFFF), usr \<and> pte AND 4 \<noteq> 0))"

lemma index_word: "unat (4 * x) = 4 * unat x \<Longrightarrow> of_nat (4 * unat x) = (4 * x :: u32)"
  by simp

lemma dir_index_less [simp]: "unat (drop_bit 22 (va :: u32)) < 1024"
proof -
  have "unat va < 4294967296" using unsigned_less [of va, where 'a = nat] by simp
  then have "unat va div 4194304 < 1024" by (simp add: less_mult_imp_div_less)
  then show ?thesis by (simp add: drop_bit_eq_div unat_div)
qed

lemma table_index_less [simp]: "unat (drop_bit 12 va AND 0x3FF :: u32) < 1024"
proof -
  have "unat (drop_bit 12 va AND 0x3FF) = take_bit 10 (unat (drop_bit 12 va))"
    unfolding masks_u32 take_bit_eq_mask [symmetric] by (rule unsigned_take_bit_eq)
  then show ?thesis using take_bit_nat_less_exp [of 10] by simp
qed

lemma translate_entry:
  assumes "page_aligned c"
  shows "translate (ptmem s) c va =
    (let pde = get_entry c (unat (drop_bit 22 va)) s
     in if pde AND 1 = 0 then None
        else if pde AND 0x80 \<noteq> 0 then Some ((pde AND 0xFFC00000) OR (va AND 0x3FFFFF), pde AND 4 \<noteq> 0)
        else walk_pte (get_entry (pde AND 0xFFFFF000) (unat (drop_bit 12 va AND 0x3FF)) s)
               (pde AND 4 \<noteq> 0) va)"
  using entry_address [OF assms, of 0]
  by (simp add: translate_def get_entry_def walk_pte_def Let_def)

lemma big_frame [simp]: "of_nat (unat (drop_bit 22 va)) * 0x400000 OR (va AND 0x3FFFFF) = (va :: u32)"
proof -
  have "of_nat (unat (drop_bit 22 va)) * 0x400000 = push_bit 22 (drop_bit 22 va)"
    by (simp add: push_bit_eq_mult)
  then show ?thesis
    unfolding masks_u32 by (simp only:) (rule bit_word_eqI, auto simp: bit_simps)
qed

lemma small_frame:
  assumes "drop_bit 22 va = (0 :: u32)"
  shows "of_nat (unat (drop_bit 12 va AND 0x3FF)) * 4096 OR (va AND 0xFFF) = va"
proof (rule bit_word_eqI)
  have *: "of_nat (unat (drop_bit 12 va AND 0x3FF)) * 4096 = push_bit 12 (drop_bit 12 va AND 0x3FF)"
    by (simp add: push_bit_eq_mult)
  fix n assume n: "n < LENGTH(32)"
  have "\<not> bit (drop_bit 22 va) (n - 22)" using assms by simp
  then have "22 \<le> n \<Longrightarrow> \<not> bit va n" by (simp add: bit_simps)
  then show "bit (of_nat (unat (drop_bit 12 va AND 0x3FF)) * 4096 OR (va AND 0xFFF)) n = bit va n"
    using n unfolding * unfolding masks_u32 by (cases "n < 22") (auto simp: bit_simps)
qed

text \<open>
  The address space that \<^verbatim>\<open>setup_task_paging\<close> is to build: the four pages of video
  memory, the kernel (4-8MB) and the process blocks (8-32MB) map to themselves for the
  kernel only; the 4MB page at 128MB maps to the program's block, for user code too;
  everything else is absent.
\<close>

definition video_page :: "u32 \<Rightarrow> bool" where
  "video_page va \<longleftrightarrow> 0xB8 \<le> unat (drop_bit 12 va) \<and> unat (drop_bit 12 va) < 0xBC"

definition kernel_view :: "u32 \<Rightarrow> (u32 \<times> bool) option" where
  "kernel_view va =
     (let i = unat (drop_bit 22 va)
      in if i = 0 then (if video_page va then Some (va, False) else None)
         else if i < 8 then Some (va, False) else None)"

definition task_view :: "u32 \<Rightarrow> u32 \<Rightarrow> (u32 \<times> bool) option" where
  "task_view phys va =
     (if unat (drop_bit 22 va) = 32 then Some (phys OR (va AND 0x3FFFFF), True) else kernel_view va)"

lemma frame_inject:
  assumes "i < 1024" "k < 1024"
  shows "(of_nat i * 4096 = (of_nat k * 4096 :: u32)) \<longleftrightarrow> i = k"
proof -
  have "unat (of_nat i * 4096 :: u32) = i * 4096" "unat (of_nat k * 4096 :: u32) = k * 4096"
    using assms by (simp_all add: unat_word_ariths unat_of_nat take_bit_nat_eq_self)
  then show ?thesis by (metis mult_cancel2 zero_neq_numeral)
qed

lemma base_page_entry_eq:
  "i < 1024 \<Longrightarrow> base_page_entry i =
     of_nat i * 4096 OR (if 0xB8 \<le> i \<and> i < 0xBC then 3 else 2)"
  using frame_inject [of i "0xB8"] frame_inject [of i "0xB9"] frame_inject [of i "0xBA"] frame_inject [of i "0xBB"]
  by (auto simp: base_page_entry_def Let_def)

lemma get_entry_base_table:
  "page_aligned a \<Longrightarrow> page_aligned b \<Longrightarrow> i < 1024 \<Longrightarrow>
     get_entry a i (setup_base_page_table b s) = (if a = b then base_page_entry i else get_entry a i s)"
  by (simp add: setup_base_page_table_def get_entry_loop)

lemma walk_base_page:
  assumes "i < 1024"
  shows "walk_pte (base_page_entry i) usr va
       = (if 0xB8 \<le> i \<and> i < 0xBC then Some (of_nat i * 4096 OR (va AND 0xFFF), False) else None)"
  using assms by (simp add: base_page_entry_eq walk_pte_def entry_flags)

lemma table_index_eq:
  assumes "drop_bit 22 va = (0 :: u32)"
  shows "drop_bit 12 va AND 0x3FF = drop_bit 12 va"
proof (rule bit_word_eqI)
  fix n show "bit (drop_bit 12 va AND 0x3FF) n = bit (drop_bit 12 va) n"
  proof (cases "n < 10")
    case False
    have "\<not> bit (drop_bit 22 va) (n - 10)" using assms by simp
    with False have "\<not> bit va (12 + n)" by (simp add: bit_simps)
    then show ?thesis by (simp add: bit_simps)
  qed (simp add: masks_u32 bit_simps)
qed

lemma walk_base_entry:
  assumes "drop_bit 22 va = 0"
  shows "walk_pte (base_page_entry (unat (drop_bit 12 va AND 0x3FF))) usr va
       = (if video_page va then Some (va, False) else None)"
  unfolding video_page_def
  using table_index_eq [OF assms] small_frame [OF assms] walk_base_page [OF table_index_less, of va usr va]
  by presburger

text \<open>
  The abstract state of one process's address space: the block its program runs in,
  whether user code was given video memory, and the frame behind the page at
  \<^verbatim>\<open>VIDEO\<close> (video memory itself or the backing store of the terminal that owns the
  process). \<open>task_space\<close> relates it to the entries in memory and \<open>space_view\<close> is the
  translation it stands for.
\<close>

record space =
  block :: u32
  vidmapped :: bool
  video_frame :: u32

definition task_pde :: "u32 \<Rightarrow> space \<Rightarrow> nat \<Rightarrow> u32" where
  "task_pde bt sp i =
     (if i = 0 then bt OR (if vidmapped sp then 7 else 3)
      else if i < 8 then of_nat i * 0x400000 OR 0x83
      else if i = 32 then block sp OR 0x87
      else of_nat i * 0x400000 OR 2)"

definition task_pte :: "space \<Rightarrow> nat \<Rightarrow> u32" where
  "task_pte sp i =
     (if i = 0xB8 then video_frame sp OR (if vidmapped sp then 7 else 3) else base_page_entry i)"

definition space_ok :: "space \<Rightarrow> bool" where
  "space_ok sp \<longleftrightarrow> big_aligned (block sp) \<and> page_aligned (video_frame sp)"

definition task_space :: "u32 \<Rightarrow> u32 \<Rightarrow> space \<Rightarrow> 'a paging_scheme \<Rightarrow> bool" where
  "task_space pd bt sp s \<longleftrightarrow>
     (\<forall>i<1024. get_entry pd i s = task_pde bt sp i) \<and> (\<forall>i<1024. get_entry bt i s = task_pte sp i)"

definition space_view :: "space \<Rightarrow> u32 \<Rightarrow> (u32 \<times> bool) option" where
  "space_view sp va =
     (if drop_bit 12 va = 0xB8 then Some (video_frame sp OR (va AND 0xFFF), vidmapped sp)
      else task_view (block sp) va)"

definition tables_ok :: "u32 \<Rightarrow> u32 \<Rightarrow> bool" where
  "tables_ok pd bt \<longleftrightarrow> page_aligned pd \<and> page_aligned bt \<and> pd \<noteq> bt"

lemma block_inject:
  assumes "i < 1024" "k < 1024"
  shows "(of_nat i * 0x400000 = (of_nat k * 0x400000 :: u32)) \<longleftrightarrow> i = k"
proof -
  have "unat (of_nat i * 0x400000 :: u32) = i * 0x400000" "unat (of_nat k * 0x400000 :: u32) = k * 0x400000"
    using assms by (simp_all add: unat_word_ariths unat_of_nat take_bit_nat_eq_self)
  then show ?thesis by (metis mult_cancel2 zero_neq_numeral)
qed

lemma setup_task_paging_space:
  assumes "tables_ok pd bt" "big_aligned phys"
  shows "task_space pd bt \<lparr>block = phys, vidmapped = False, video_frame = VIDEO\<rparr>
           (setup_task_paging pd bt phys s)"
proof -
  have block_kernel: "PDE_ADDRESS_ASSIGN 0x400000 = 0x400000" by (simp add: PDE_ADDRESS_ASSIGN_def)
  have c: "get_entry pd i (setup_task_paging pd bt phys s)
      = task_pde bt \<lparr>block = phys, vidmapped = False, video_frame = VIDEO\<rparr> i" if "i < 1024" for i
    using that assms block_inject [of i 32] block_kernel
    by (cases "i = 1") (auto simp: setup_task_paging_def tables_ok_def get_entry_loop get_set_entry
        get_entry_base_table task_pde_def less_Suc_eq_le big_aligned_page [OF big_aligned_block])
  have "get_entry bt i (setup_task_paging pd bt phys s)
      = task_pte \<lparr>block = phys, vidmapped = False, video_frame = VIDEO\<rparr> i" if "i < 1024" for i
    using that assms
    by (auto simp: setup_task_paging_def tables_ok_def get_entry_loop get_set_entry
        get_entry_base_table task_pte_def base_page_entry_eq)
  with c show ?thesis by (simp add: task_space_def)
qed

lemma page_index_0xB8: "drop_bit 12 va = (0xB8 :: u32) \<Longrightarrow> drop_bit 22 va = 0"
proof -
  assume "drop_bit 12 va = 0xB8"
  then have "drop_bit 10 (drop_bit 12 va) = (drop_bit 10 0xB8 :: u32)" by simp
  then show ?thesis by (simp add: drop_bit_drop_bit)
qed

lemma translate_task_space:
  assumes "tables_ok pd bt" "space_ok sp" "task_space pd bt sp s"
  shows "translate (ptmem s) pd va = space_view sp va"
proof -
  let ?i = "unat (drop_bit 22 va)" and ?j = "unat (drop_bit 12 va AND 0x3FF)"
  have al: "page_aligned pd" "page_aligned bt" using assms(1) by (auto simp: tables_ok_def)
  have pde: "get_entry pd ?i s = task_pde bt sp ?i" and pte: "get_entry bt ?j s = task_pte sp ?j"
    using assms(3) by (simp_all add: task_space_def)
  consider "?i = 0" | "0 < ?i" by blast
  then show ?thesis
  proof cases
    case 1
    then have z: "drop_bit 22 va = 0" by (simp add: unat_eq_0)
    have "?i \<noteq> 32" using 1 by simp
    have j: "?j = unat (drop_bit 12 va)" using table_index_eq [OF z] by simp
    have "translate (ptmem s) pd va = walk_pte (task_pte sp ?j) (vidmapped sp) va"
      using pde pte al unfolding translate_entry [OF al(1)] 1
      by (simp add: task_pde_def Let_def entry_flags)
    also have "\<dots> = space_view sp va"
    proof (cases "?j = 0xB8")
      case True
      then have "unat (drop_bit 12 va) = unat (0xB8 :: u32)" using j by simp
      then have "drop_bit 12 va = 0xB8" by (rule unsigned_word_eqI)
      then show ?thesis using True assms(2)
        by (simp add: space_view_def task_pte_def walk_pte_def space_ok_def entry_flags)
    next
      case False
      then show ?thesis using j \<open>?i \<noteq> 32\<close> 1 walk_base_entry [OF z]
        by (auto simp: space_view_def task_pte_def task_view_def kernel_view_def)
    qed
    finally show ?thesis .
  next
    case 2
    then have "drop_bit 12 va \<noteq> 0xB8" using page_index_0xB8 by fastforce
    then show ?thesis
      using 2 pde al assms(2) unfolding translate_entry [OF al(1)]
      by (auto simp: task_pde_def Let_def entry_flags space_view_def task_view_def kernel_view_def
          space_ok_def simp del: of_nat_unat)
  qed
qed

lemma video_index [simp]:
  "unat (drop_bit 12 VIDEO AND ISOLATE_PTE_IDX) = 0xB8" "unat (drop_bit 22 VIDEO) = 0"
  by simp_all

lemma or_flags: "(a OR 3) OR 6 = (a OR 7 :: u32)" "(a OR 7) OR 6 = (a OR 7 :: u32)"
  by (simp_all add: or.assoc)

lemma vidmap_grants_space:
  assumes "tables_ok pd bt" "task_space pd bt sp s"
  shows "task_space pd bt (sp\<lparr>vidmapped := True\<rparr>)
           (setup_user_access_pte bt VIDEO (setup_user_access_pde pd VIDEO s))"
  using assms unfolding setup_user_access_pte_def setup_user_access_pde_def Let_def video_index
  by (auto simp: task_space_def tables_ok_def get_set_entry task_pde_def task_pte_def or_flags)

lemma change_mapping_space:
  assumes "tables_ok pd bt" "space_ok sp" "page_aligned frame" "task_space pd bt sp s"
  shows "task_space pd bt (sp\<lparr>video_frame := frame\<rparr>) (change_table_mapping bt VIDEO frame s)"
  using assms unfolding change_table_mapping_def Let_def video_index
  by (auto simp: task_space_def tables_ok_def get_set_entry task_pde_def task_pte_def
      space_ok_def entry_flags)

text \<open>What the operations leave alone: every table other than the ones they are given.\<close>

definition only_tables :: "u32 set \<Rightarrow> 'a paging_scheme \<Rightarrow> 'a paging_scheme \<Rightarrow> bool" where
  "only_tables T s t \<longleftrightarrow>
     (\<forall>a i. page_aligned a \<longrightarrow> a \<notin> T \<longrightarrow> i < 1024 \<longrightarrow> get_entry a i t = get_entry a i s)"

lemma only_tables_refl [simp]: "only_tables T s s"
  by (simp add: only_tables_def)

lemma only_tables_trans: "only_tables T s t \<Longrightarrow> only_tables T t u \<Longrightarrow> only_tables T s u"
  by (simp add: only_tables_def)

lemma only_tables_mono: "only_tables T s t \<Longrightarrow> T \<subseteq> U \<Longrightarrow> only_tables U s t"
  by (auto simp: only_tables_def)

lemma only_tables_space:
  assumes "only_tables T s t" "tables_ok pd bt" "pd \<notin> T" "bt \<notin> T"
  shows "task_space pd bt sp t = task_space pd bt sp s"
  using assms by (auto simp: only_tables_def tables_ok_def task_space_def)

lemma setup_task_only:
  assumes "tables_ok pd bt"
  shows "only_tables {pd, bt} s (setup_task_paging pd bt phys s)"
  using assms
  by (auto simp: only_tables_def tables_ok_def setup_task_paging_def get_entry_loop get_set_entry
      get_entry_base_table)

lemma change_mapping_only:
  assumes "page_aligned bt"
  shows "only_tables {bt} s (change_table_mapping bt va frame s)"
  using assms by (auto simp: only_tables_def change_table_mapping_def Let_def get_set_entry)

lemma user_access_only:
  assumes "tables_ok pd bt"
  shows "only_tables {pd, bt} s (setup_user_access_pte bt va (setup_user_access_pde pd vb s))"
  using assms
  by (auto simp: only_tables_def tables_ok_def setup_user_access_pte_def setup_user_access_pde_def
      Let_def get_set_entry)

text \<open>The kernel's own address space.\<close>

lemma init_kernel_pages_view:
  assumes "tables_ok (kernel_page_directory lay) (kernel_page_table lay)"
  shows "translate (ptmem (init_kernel_pages lay s)) (kernel_page_directory lay) va = kernel_view va"
proof -
  let ?pd = "kernel_page_directory lay" and ?bt = "kernel_page_table lay"
  let ?t = "init_kernel_pages lay s"
  let ?i = "unat (drop_bit 22 va)" and ?j = "unat (drop_bit 12 va AND 0x3FF)"
  have al: "page_aligned ?pd" "page_aligned ?bt" using assms by (auto simp: tables_ok_def)
  have k: "PDE_ADDRESS_ASSIGN 0x400000 = 0x400000" by (simp add: PDE_ADDRESS_ASSIGN_def)
  have d: "get_entry ?pd i ?t = (if i = 0 then ?bt OR 3 else if i < 8 then of_nat i * 0x400000 OR 0x83
      else of_nat i * 0x400000 OR 2)" if "i < 1024" for i
    using that assms k
    by (cases "i = 1") (auto simp: init_kernel_pages_def Let_def tables_ok_def get_entry_loop get_set_entry
        get_entry_base_table less_Suc_eq_le big_aligned_page [OF big_aligned_block])
  have t: "get_entry ?bt i ?t = base_page_entry i" if "i < 1024" for i
    using that assms
    by (auto simp: init_kernel_pages_def Let_def tables_ok_def get_entry_loop get_set_entry get_entry_base_table)
  show ?thesis
  proof (cases "?i = 0")
    case True
    then have z: "drop_bit 22 va = 0" by (simp add: unat_eq_0)
    have "translate (ptmem ?t) ?pd va = walk_pte (base_page_entry ?j) False va"
      using d [of 0] t [of ?j] al unfolding translate_entry [OF al(1)] True
      by (simp add: Let_def entry_flags)
    then show ?thesis using walk_base_entry [OF z] True by (simp add: kernel_view_def)
  next
    case False
    then show ?thesis
      using d [of ?i] al unfolding translate_entry [OF al(1)]
      by (simp add: Let_def entry_flags kernel_view_def del: of_nat_unat)
  qed
qed

text \<open>
  The arrays as the linker lays them out: every table starts on a page boundary and no two
  overlap. The identifiers 0 to 5 select one directory and one table each.
\<close>

definition all_tables :: "layout \<Rightarrow> u32 list" where
  "all_tables lay = [kernel_page_directory lay, kernel_page_table lay]
     @ map (\<lambda>p. user_level_page_directories lay + 4096 * of_nat p) [0..<6]
     @ map (\<lambda>p. user_level_base_page_tables lay + 4096 * of_nat p) [0..<6]"

definition layout_ok :: "layout \<Rightarrow> bool" where
  "layout_ok lay \<longleftrightarrow> distinct (all_tables lay) \<and> list_all page_aligned (all_tables lay)"

lemma length_all_tables: "length (all_tables lay) = 14"
  by (simp add: all_tables_def)

lemma all_tables_nth:
  assumes "0 \<le> pid" "pid < 6"
  shows "all_tables lay ! (2 + nat pid) = get_page_directory_for_pid lay pid"
    and "all_tables lay ! (8 + nat pid) = get_base_page_table_for_pid lay pid"
proof -
  have "nat pid < 6" "of_nat (nat pid) = (of_int pid :: u32)" "[0..<6] ! nat pid = nat pid"
    using assms by (simp_all add: nth_upt del: upt_rec_numeral)
  then show "all_tables lay ! (2 + nat pid) = get_page_directory_for_pid lay pid"
    "all_tables lay ! (8 + nat pid) = get_base_page_table_for_pid lay pid"
    using assms by (simp_all add: all_tables_def nth_append get_page_directory_for_pid_def
        get_base_page_table_for_pid_def del: upt_rec_numeral)
qed

lemma table_neq:
  assumes "layout_ok lay" "m < 14" "n < 14" "m \<noteq> n"
  shows "all_tables lay ! m \<noteq> all_tables lay ! n"
  using assms nth_eq_iff_index_eq [of "all_tables lay" m n] by (simp add: layout_ok_def length_all_tables)

lemma table_aligned: "layout_ok lay \<Longrightarrow> m < 14 \<Longrightarrow> page_aligned (all_tables lay ! m)"
  by (simp add: layout_ok_def list_all_length length_all_tables)

lemma layout_tables:
  assumes "layout_ok lay" "0 \<le> pid" "pid < 6"
  shows "tables_ok (get_page_directory_for_pid lay pid) (get_base_page_table_for_pid lay pid)"
  using assms table_neq [OF assms(1), of "2 + nat pid" "8 + nat pid"]
    table_aligned [OF assms(1), of "2 + nat pid"] table_aligned [OF assms(1), of "8 + nat pid"]
  by (simp add: tables_ok_def all_tables_nth del: add_2_eq_Suc)

lemma layout_kernel_tables:
  "layout_ok lay \<Longrightarrow> tables_ok (kernel_page_directory lay) (kernel_page_table lay)"
  by (simp add: layout_ok_def all_tables_def tables_ok_def)

lemma layout_apart:
  assumes "layout_ok lay" "0 \<le> p" "p < 6" "0 \<le> q" "q < 6" "p \<noteq> q"
  shows "get_page_directory_for_pid lay q \<notin> {get_page_directory_for_pid lay p, get_base_page_table_for_pid lay p}"
    and "get_base_page_table_for_pid lay q \<notin> {get_page_directory_for_pid lay p, get_base_page_table_for_pid lay p}"
  using assms all_tables_nth [of p lay] all_tables_nth [of q lay]
    table_neq [OF assms(1), of "2 + nat q" "2 + nat p"] table_neq [OF assms(1), of "2 + nat q" "8 + nat p"]
    table_neq [OF assms(1), of "8 + nat q" "2 + nat p"] table_neq [OF assms(1), of "8 + nat q" "8 + nat p"]
  by (auto simp del: add_2_eq_Suc)

end
