(* ===== verification/Filesystem.thy ===== *)
theory Filesystem
  imports Paging
begin

text \<open>
  The read-only file system image, from \<^verbatim>\<open>student-distrib/filesystem.c\<close> and
  \<^verbatim>\<open>filesystem.h\<close>: the boot block with the directory, the index nodes and the data
  blocks, all read from the memory the image was loaded to. The three global pointers of the
  file are the fields of the state. The operations on open files, which go through the
  process control block, are in theory \<open>Files\<close>.

  A \<^verbatim>\<open>dentry_t *\<close> out-parameter is the address of a local variable in every caller;
  the routine returns the entry as a value instead of writing through it.
\<close>

section \<open>State and layout\<close>

record fsys = paging +
  bootblock :: u32
  inodes :: u32
  datablocks :: u32

abbreviation (input) FS_BLOCK_LENGTH :: u32 where "FS_BLOCK_LENGTH \<equiv> 4096"
abbreviation (input) FILE_NAME_SIZE :: u32 where "FILE_NAME_SIZE \<equiv> 32"
abbreviation (input) FILETYPE_DEVICE :: u32 where "FILETYPE_DEVICE \<equiv> 0"
abbreviation (input) FILETYPE_DIRECTORY :: u32 where "FILETYPE_DIRECTORY \<equiv> 1"
abbreviation (input) FILETYPE_REGULAR :: u32 where "FILETYPE_REGULAR \<equiv> 2"

record dentry =
  filename :: "u8 list"
  filetype :: u32
  inode :: u32
  reserved :: "u8 list"

text \<open>The fields of \<^verbatim>\<open>boot_block_t\<close>, \<^verbatim>\<open>dentry_t\<close> and \<^verbatim>\<open>inode_t\<close> at their offsets.\<close>

definition boot_direntries :: "'a fsys_scheme \<Rightarrow> u32" where
  "boot_direntries s = load32 s (bootblock s)"

definition boot_inodes :: "'a fsys_scheme \<Rightarrow> u32" where
  "boot_inodes s = load32 s (bootblock s + 4)"

definition boot_datablocks :: "'a fsys_scheme \<Rightarrow> u32" where
  "boot_datablocks s = load32 s (bootblock s + 8)"

definition boot_file :: "'a fsys_scheme \<Rightarrow> u32 \<Rightarrow> u32" where
  "boot_file s i = bootblock s + 64 + 64 * i"

definition load_dentry :: "'a fsys_scheme \<Rightarrow> u32 \<Rightarrow> dentry" where
  "load_dentry s a = \<lparr>filename = read_bytes s a 32, filetype = load32 s (a + 32),
     inode = load32 s (a + 36), reserved = read_bytes s (a + 40) 24\<rparr>"

definition inode_length :: "'a fsys_scheme \<Rightarrow> u32 \<Rightarrow> u32" where
  "inode_length s ino = load32 s (inodes s + 4096 * ino)"

definition inode_block :: "'a fsys_scheme \<Rightarrow> u32 \<Rightarrow> u32 \<Rightarrow> u32" where
  "inode_block s ino b = load32 s (inodes s + 4096 * ino + 4 + 4 * b)"

section \<open>Directory lookup\<close>

text \<open>\<^verbatim>\<open>num_files\<close> is a signed int, so a count with the top bit set gives no round.\<close>

function read_dentry_by_name_from ::
    "u32 \<Rightarrow> int \<Rightarrow> int \<Rightarrow> 'a fsys_scheme \<Rightarrow> int \<times> dentry option" where
  "read_dentry_by_name_from fname num_files i s =
     (if i < num_files then
        if strncmp s fname (boot_file s (of_int i)) FILE_NAME_SIZE = 0
        then (SUCCESS, Some (load_dentry s (boot_file s (of_int i))))
        else read_dentry_by_name_from fname num_files (i + 1) s
      else (FAILURE, None))"
  by pat_completeness auto
termination
  by (relation "measure (\<lambda>(fname, n, i, s). nat (n - i))") auto

declare read_dentry_by_name_from.simps [simp del]

definition read_dentry_by_name :: "u32 \<Rightarrow> 'a fsys_scheme \<Rightarrow> int \<times> dentry option" where
  "read_dentry_by_name fname s = read_dentry_by_name_from fname (sint (boot_direntries s)) 0 s"

definition read_dentry_by_index :: "u32 \<Rightarrow> 'a fsys_scheme \<Rightarrow> int \<times> dentry option" where
  "read_dentry_by_index index s =
     (if index \<ge> boot_direntries s then (FAILURE, None)
      else (SUCCESS, Some (load_dentry s (boot_file s index))))"

section \<open>Reading file data\<close>

text \<open>
  The error check after each read of a block number: \<^verbatim>\<open>block_num\<close> is a signed int, and
  the comparison with the unsigned count is unsigned.
\<close>

definition bad_block :: "'a fsys_scheme \<Rightarrow> u32 \<Rightarrow> bool" where
  "bad_block s block_num \<longleftrightarrow> sint block_num < 0 \<or> block_num \<ge> boot_datablocks s"

text \<open>
  The loop that walks to \<open>offset\<close> byte by byte; \<open>None\<close> is the early return of FAILURE,
  otherwise the block number, the index in its list and the index inside the block.
\<close>

lemma unat_sub_Suc: "i \<noteq> n \<Longrightarrow> unat (n - i) = Suc (unat (n - (i + 1)))" for i n :: u32
proof -
  assume "i \<noteq> n"
  then have "n - i \<noteq> 0" by simp
  then have "unat (n - i - 1) = unat (n - i) - 1" "unat (n - i) \<noteq> 0"
    by (simp_all add: unat_minus_one unat_eq_0)
  then show ?thesis by (simp add: algebra_simps)
qed

function seek_data ::
    "u32 \<Rightarrow> u32 \<Rightarrow> u32 \<Rightarrow> u32 \<Rightarrow> u32 \<Rightarrow> u32 \<Rightarrow> 'a fsys_scheme \<Rightarrow> (u32 \<times> u32 \<times> u32) option" where
  "seek_data ino offset i j block_numbers_idx block_num s =
     (if i \<noteq> offset then
        if i \<noteq> 0 \<and> i mod FS_BLOCK_LENGTH = 0 then
          let block_num = inode_block s ino (block_numbers_idx + 1)
          in if bad_block s block_num then None
             else seek_data ino offset (i + 1) 1 (block_numbers_idx + 1) block_num s
        else seek_data ino offset (i + 1) (j + 1) block_numbers_idx block_num s
      else Some (block_num, block_numbers_idx, j))"
  by pat_completeness auto
termination
  by (relation "measure (\<lambda>(ino, offset, i, j, idx, b, s). unat (offset - i))")
    (auto simp: unat_sub_Suc)

declare seek_data.simps [simp del]

text \<open>The loop that copies; it returns the number of bytes or FAILURE.\<close>

function copy_data ::
    "u32 \<Rightarrow> u32 \<Rightarrow> u32 \<Rightarrow> u32 \<Rightarrow> u32 \<Rightarrow> u32 \<Rightarrow> u32 \<Rightarrow> u32 \<Rightarrow> 'a fsys_scheme \<Rightarrow> int \<times> 'a fsys_scheme" where
  "copy_data ino buf len i k overall_byte_counter block_numbers_idx block_num s =
     (if i < len \<and> overall_byte_counter < inode_length s ino then
        if k \<noteq> 0 \<and> k mod FS_BLOCK_LENGTH = 0 then
          let block_num = inode_block s ino (block_numbers_idx + 1)
          in if bad_block s block_num then (FAILURE, s)
             else copy_data ino buf len (i + 1) 1 (overall_byte_counter + 1) (block_numbers_idx + 1) block_num
                    (store (buf + i) (load s (datablocks s + 4096 * block_num)) s)
        else copy_data ino buf len (i + 1) (k + 1) (overall_byte_counter + 1) block_numbers_idx block_num
               (store (buf + i) (load s (datablocks s + 4096 * block_num + k)) s)
      else (sint i, s))"
  by pat_completeness auto
termination
  by (relation "measure (\<lambda>(ino, buf, len, i, k, c, idx, b, s). unat (len - i))")
    (auto simp: unat_sub_Suc)

declare copy_data.simps [simp del]

definition read_data :: "u32 \<Rightarrow> u32 \<Rightarrow> u32 \<Rightarrow> u32 \<Rightarrow> 'a fsys_scheme \<Rightarrow> int \<times> 'a fsys_scheme" where
  "read_data ino offset buf len s =
     (if ino \<ge> boot_inodes s then (FAILURE, s)
      else let block_num = inode_block s ino 0
           in if bad_block s block_num then (FAILURE, s)
              else if offset \<ge> inode_length s ino then (0, s)
              else case seek_data ino offset 0 0 0 block_num s of
                     None \<Rightarrow> (FAILURE, s)
                   | Some (block_num, idx, j) \<Rightarrow> copy_data ino buf len 0 j offset idx block_num s)"

section \<open>Index nodes\<close>

text \<open>
  \<^verbatim>\<open>inodes\<close> points to 4096-byte structures, so adding
  \<^verbatim>\<open>inode_idx*FS_BLOCK_LENGTH\<close> to it scales by 4096 twice; the pointer difference of
  \<^verbatim>\<open>get_inode_num\<close> is a signed number of structures, which is divided by their size again.
  \<^verbatim>\<open>num_inodes\<close> is converted back to unsigned by the comparison.
\<close>

definition get_inode_ptr :: "u32 \<Rightarrow> 'a fsys_scheme \<Rightarrow> u32" where
  "get_inode_ptr inode_idx s =
     (if inode_idx < boot_inodes s then inodes s + 4096 * (inode_idx * FS_BLOCK_LENGTH) else 0)"

definition get_inode_num :: "u32 \<Rightarrow> 'a fsys_scheme \<Rightarrow> u32" where
  "get_inode_num inode_ptr s =
     (word_of_int (sint (inode_ptr - inodes s) div 4096) :: u32) div 4096"

text \<open>\<^verbatim>\<open>entry->inode\<close> is unsigned: the test for a negative number never succeeds.\<close>

definition get_file_length :: "dentry \<Rightarrow> 'a fsys_scheme \<Rightarrow> int" where
  "get_file_length entry s =
     (if inode entry \<ge> boot_inodes s then FAILURE else sint (inode_length s (inode entry)))"

definition init_filesystem :: "u32 \<Rightarrow> u32 \<Rightarrow> 'a fsys_scheme \<Rightarrow> 'a fsys_scheme" where
  "init_filesystem start_addr sz s =
     (let s = s\<lparr>bootblock := start_addr\<rparr>;
          s = s\<lparr>inodes := start_addr + FS_BLOCK_LENGTH\<rparr>
      in s\<lparr>datablocks := start_addr + FS_BLOCK_LENGTH + FS_BLOCK_LENGTH * boot_inodes s\<rparr>)"


section \<open>The image as data\<close>

text \<open>
  Specification of the image: the bytes of a file, found through the block list of its
  index node, and the conditions under which the list makes sense.
\<close>

definition data_addr :: "'a fsys_scheme \<Rightarrow> u32 \<Rightarrow> nat \<Rightarrow> u32" where
  "data_addr s ino p =
     datablocks s + 4096 * inode_block s ino (of_nat (p div 4096)) + of_nat (p mod 4096)"

definition file_bytes :: "'a fsys_scheme \<Rightarrow> u32 \<Rightarrow> nat \<Rightarrow> nat \<Rightarrow> u8 list" where
  "file_bytes s ino p n = map (\<lambda>i. load s (data_addr s ino (p + i))) [0..<n]"

definition inode_wf :: "'a fsys_scheme \<Rightarrow> u32 \<Rightarrow> bool" where
  "inode_wf s ino \<longleftrightarrow> ino < boot_inodes s \<and> unat (inode_length s ino) \<le> 1023 * 4096 \<and>
     (\<forall>b \<le> (unat (inode_length s ino) - 1) div 4096. \<not> bad_block s (inode_block s ino (of_nat b)))"

definition image_size :: "'a fsys_scheme \<Rightarrow> nat" where
  "image_size s = 4096 * (1 + unat (boot_inodes s) + unat (boot_datablocks s))"

definition mounted :: "'a fsys_scheme \<Rightarrow> bool" where
  "mounted s \<longleftrightarrow> inodes s = bootblock s + 4096 \<and>
     datablocks s = bootblock s + 4096 + 4096 * boot_inodes s"

text \<open>Two states that hold the same image.\<close>

definition same_image :: "'a fsys_scheme \<Rightarrow> 'a fsys_scheme \<Rightarrow> bool" where
  "same_image s t \<longleftrightarrow> bootblock t = bootblock s \<and> inodes t = inodes s \<and> datablocks t = datablocks s \<and>
     (\<forall>k<image_size s. load t (bootblock s + of_nat k) = load s (bootblock s + of_nat k))"

lemma same_image_refl [simp]: "same_image s s"
  by (simp add: same_image_def)

lemma same_image_load:
  "same_image s t \<Longrightarrow> k < image_size s \<Longrightarrow> a = bootblock s + of_nat k \<Longrightarrow> load t a = load s a"
  by (simp add: same_image_def)

lemma same_image_load32:
  assumes "same_image s t" "k + 3 < image_size s" "a = bootblock s + of_nat k"
  shows "load32 t a = load32 s a"
  using assms same_image_load [OF assms(1), of k a] same_image_load [OF assms(1), of "k + 1" "a + 1"]
    same_image_load [OF assms(1), of "k + 2" "a + 2"] same_image_load [OF assms(1), of "k + 3" "a + 3"]
  by (simp add: load32_def add.assoc)

lemma same_image_boot:
  assumes "same_image s t"
  shows "boot_direntries t = boot_direntries s" "boot_inodes t = boot_inodes s"
    "boot_datablocks t = boot_datablocks s"
  using assms same_image_load32 [OF assms, of 0] same_image_load32 [OF assms, of 4]
    same_image_load32 [OF assms, of 8]
  by (simp_all add: same_image_def boot_direntries_def boot_inodes_def boot_datablocks_def image_size_def)

lemma same_image_inode:
  assumes "same_image s t" "mounted s" "ino < boot_inodes s"
  shows "inode_length t ino = inode_length s ino"
    and "b \<le> 1022 \<Longrightarrow> inode_block t ino (of_nat b) = inode_block s ino (of_nat b)"
proof -
  have i: "unat ino < unat (boot_inodes s)" using assms(3) by (simp add: word_less_nat_alt)
  have p: "inodes t = bootblock s + 4096" using assms by (simp add: same_image_def mounted_def)
  show "inode_length t ino = inode_length s ino"
    using same_image_load32 [OF assms(1), of "4096 + 4096 * unat ino" "inodes t + 4096 * ino"] i p assms(2)
    by (simp add: inode_length_def image_size_def mounted_def add.assoc)
  assume b: "b \<le> 1022"
  show "inode_block t ino (of_nat b) = inode_block s ino (of_nat b)"
    using same_image_load32 [OF assms(1), of "4096 + 4096 * unat ino + 4 + 4 * b"
        "inodes t + 4096 * ino + 4 + 4 * of_nat b"] i b p assms(2)
    by (simp add: inode_block_def image_size_def mounted_def add.assoc)
qed

lemma same_image_data:
  assumes "same_image s t" "mounted s" "ino < boot_inodes s" "blk < boot_datablocks s" "k < 4096"
  shows "load t (datablocks s + 4096 * blk + of_nat k) = load s (datablocks s + 4096 * blk + of_nat k)"
proof (rule same_image_load [OF assms(1)])
  have "unat blk < unat (boot_datablocks s)" using assms(4) by (simp add: word_less_nat_alt)
  then show "4096 + 4096 * unat (boot_inodes s) + 4096 * unat blk + k < image_size s"
    using assms(5) by (simp add: image_size_def)
  show "datablocks s + 4096 * blk + of_nat k = bootblock s
      + of_nat (4096 + 4096 * unat (boot_inodes s) + 4096 * unat blk + k)"
    using assms(2) by (simp add: mounted_def)
qed

lemma fsys_store [mem_simps, simp]:
  "bootblock (store a v s) = bootblock s" "inodes (store a v s) = inodes s"
  "datablocks (store a v s) = datablocks s"
  by (simp_all add: store_def)

lemma fsys_write [mem_simps, simp]:
  "bootblock (write_bytes a bs s) = bootblock s" "inodes (write_bytes a bs s) = inodes s"
  "datablocks (write_bytes a bs s) = datablocks s"
  by (induction bs arbitrary: a s) simp_all

lemma write_same_image:
  assumes "apart s buf (length bs) (bootblock s) (image_size s)"
  shows "same_image s (write_bytes buf bs s)"
  using assms load_write_apart [OF assms] by (simp add: same_image_def)


section \<open>read_data returns the bytes of the file\<close>

text \<open>
  Both loops hold, at byte \<open>p\<close> of the file, the block of the byte before \<open>p\<close>
  (the first block for \<open>p = 0\<close>) and an index in it that may be one past its end.
\<close>

definition blk_idx :: "nat \<Rightarrow> nat" where
  "blk_idx p = (p - 1) div 4096"

definition blk_off :: "nat \<Rightarrow> nat" where
  "blk_off p = (if p = 0 then 0 else (p - 1) mod 4096 + 1)"

lemma blk_same:
  assumes "p = 0 \<or> p mod 4096 \<noteq> 0"
  shows "blk_idx (Suc p) = blk_idx p" "blk_off (Suc p) = Suc (blk_off p)"
    "p div 4096 = blk_idx p" "p mod 4096 = blk_off p" "blk_off p < 4096"
proof -
  show "p div 4096 = blk_idx p" "p mod 4096 = blk_off p"
    using assms by (cases p; auto simp: blk_idx_def blk_off_def div_Suc mod_Suc split: if_splits)+
  then show "blk_idx (Suc p) = blk_idx p" "blk_off (Suc p) = Suc (blk_off p)" "blk_off p < 4096"
    by (simp_all add: blk_idx_def [of "Suc p"] blk_off_def [of "Suc p"])
qed

lemma blk_next:
  assumes "p \<noteq> 0" "p mod 4096 = 0"
  shows "blk_idx (Suc p) = Suc (blk_idx p)" "blk_off (Suc p) = 1"
    "p div 4096 = Suc (blk_idx p)" "blk_off p = 4096"
  using assms by (cases p; auto simp: blk_idx_def blk_off_def div_Suc mod_Suc split: if_splits)+

lemma u32_mod_4096: "n < 4294967296 \<Longrightarrow> (of_nat n mod 4096 = (0 :: u32)) \<longleftrightarrow> n mod 4096 = 0"
proof -
  assume "n < 4294967296"
  then have "unat (of_nat n mod 4096 :: u32) = n mod 4096" by (simp add: unat_mod)
  then show ?thesis by (metis unat_eq_0)
qed

lemma seek_data_eq:
  assumes "inode_wf s ino" "n < unat (inode_length s ino)" "i \<le> n"
  shows "seek_data ino (of_nat n) (of_nat i) (of_nat (blk_off i)) (of_nat (blk_idx i))
           (inode_block s ino (of_nat (blk_idx i))) s
       = Some (inode_block s ino (of_nat (blk_idx n)), of_nat (blk_idx n), of_nat (blk_off n))"
  using assms(3)
proof (induction "n - i" arbitrary: i)
  case 0
  then show ?case by (subst seek_data.simps) simp
next
  case (Suc d)
  have big: "n < 4294967296" using assms(2) unat_u32_less [of "inode_length s ino"] by linarith
  have ne: "(of_nat i :: u32) \<noteq> of_nat n" using Suc big by simp
  have step: "of_nat i + 1 = (of_nat (Suc i) :: u32)" by simp
  have IH: "seek_data ino (of_nat n) (of_nat (Suc i)) (of_nat (blk_off (Suc i))) (of_nat (blk_idx (Suc i)))
           (inode_block s ino (of_nat (blk_idx (Suc i)))) s
       = Some (inode_block s ino (of_nat (blk_idx n)), of_nat (blk_idx n), of_nat (blk_off n))"
    by (rule Suc.hyps(1)) (use Suc in simp_all)
  have z: "(of_nat i :: u32) = 0 \<longleftrightarrow> i = 0" using of_nat_u32_eq [of i 0] Suc.prems big by simp
  have m: "(of_nat i mod 4096 = (0 :: u32)) \<longleftrightarrow> i mod 4096 = 0" using Suc.prems big by (simp add: u32_mod_4096)
  show ?case
  proof (cases "i \<noteq> 0 \<and> i mod 4096 = 0")
    case True
    then have b: "blk_idx (Suc i) = Suc (blk_idx i)" "blk_off (Suc i) = 1" by (simp_all add: blk_next)
    have "blk_idx (Suc i) \<le> (unat (inode_length s ino) - 1) div 4096"
      using Suc.hyps(2) assms(2) by (simp add: blk_idx_def div_le_mono)
    then have "\<not> bad_block s (inode_block s ino (of_nat (blk_idx (Suc i))))"
      using assms(1) by (simp add: inode_wf_def)
    then show ?thesis
      using True IH ne z m b by (subst seek_data.simps) (simp add: Let_def add.commute)
  next
    case False
    then have b: "blk_idx (Suc i) = blk_idx i" "blk_off (Suc i) = Suc (blk_off i)"
      by (auto intro: blk_same)
    show ?thesis
      using False IH ne z m b by (subst seek_data.simps) (auto simp: add.commute)
  qed
qed

lemma nth_file_bytes [simp]: "i < n \<Longrightarrow> file_bytes s ino p n ! i = load s (data_addr s ino (p + i))"
  by (simp add: file_bytes_def)

lemma length_file_bytes [simp]: "length (file_bytes s ino p n) = n"
  by (simp add: file_bytes_def)


lemma inode_wf_block:
  assumes "inode_wf s ino" "p < unat (inode_length s ino)"
  shows "inode_block s ino (of_nat (p div 4096)) < boot_datablocks s"
    and "\<not> bad_block s (inode_block s ino (of_nat (p div 4096)))" and "p div 4096 \<le> 1022"
proof -
  have "p div 4096 \<le> (unat (inode_length s ino) - 1) div 4096"
    using assms(2) by (intro div_le_mono) simp
  then show "\<not> bad_block s (inode_block s ino (of_nat (p div 4096)))"
    using assms(1) by (simp add: inode_wf_def)
  then show "inode_block s ino (of_nat (p div 4096)) < boot_datablocks s"
    by (simp add: bad_block_def not_le)
  have "p < 1023 * 4096" using assms by (simp add: inode_wf_def)
  then show "p div 4096 \<le> 1022" by simp
qed

text \<open>What the loops read is the same after bytes were written outside the image.\<close>

lemma same_image_file:
  assumes "same_image s t" "mounted s" "inode_wf s ino" "p < unat (inode_length s ino)"
  shows "inode_block t ino (of_nat (p div 4096)) = inode_block s ino (of_nat (p div 4096))"
    and "bad_block t (inode_block t ino (of_nat (p div 4096))) = False"
    and "load t (datablocks t + 4096 * inode_block s ino (of_nat (p div 4096)) + of_nat (p mod 4096))
         = load s (data_addr s ino p)"
proof -
  have ino: "ino < boot_inodes s" using assms(3) by (simp add: inode_wf_def)
  note b = inode_wf_block [OF assms(3,4)]
  show e: "inode_block t ino (of_nat (p div 4096)) = inode_block s ino (of_nat (p div 4096))"
    by (rule same_image_inode(2) [OF assms(1,2) ino b(3)])
  show "bad_block t (inode_block t ino (of_nat (p div 4096))) = False"
    using b(2) unfolding e by (simp add: bad_block_def same_image_boot [OF assms(1)])
  have "datablocks t = datablocks s" using assms(1) by (simp add: same_image_def)
  then show "load t (datablocks t + 4096 * inode_block s ino (of_nat (p div 4096)) + of_nat (p mod 4096))
         = load s (data_addr s ino p)"
    using same_image_data [OF assms(1,2) ino b(1), of "p mod 4096"] by (simp add: data_addr_def)
qed

lemma copy_data_stop:
  "\<not> (i < len \<and> c < inode_length s ino) \<Longrightarrow> copy_data ino buf len i k c idx b s = (sint i, s)"
  by (subst copy_data.simps) (simp only: if_False simp_thms)

lemma copy_data_next:
  "i < len \<Longrightarrow> c < inode_length s ino \<Longrightarrow> k \<noteq> 0 \<Longrightarrow> k mod 4096 = 0 \<Longrightarrow>
     b' = inode_block s ino (idx + 1) \<Longrightarrow> \<not> bad_block s b' \<Longrightarrow>
     copy_data ino buf len i k c idx b s
     = copy_data ino buf len (i + 1) 1 (c + 1) (idx + 1) b' (store (buf + i) (load s (datablocks s + 4096 * b')) s)"
  by (subst copy_data.simps) (simp only: if_True simp_thms Let_def if_False)

lemma copy_data_same:
  "i < len \<Longrightarrow> c < inode_length s ino \<Longrightarrow> k = 0 \<or> k mod 4096 \<noteq> 0 \<Longrightarrow>
     copy_data ino buf len i k c idx b s
     = copy_data ino buf len (i + 1) (k + 1) (c + 1) idx b (store (buf + i) (load s (datablocks s + 4096 * b + k)) s)"
  by (subst copy_data.simps) (auto simp only: if_True simp_thms Let_def if_False)

lemma copy_data_eq:
  assumes "mounted s" "inode_wf s ino" "off < unat (inode_length s ino)"
    and "n = min (unat len) (unat (inode_length s ino) - off)"
    and "apart s buf n (bootblock s) (image_size s)" and "i \<le> n"
  shows "copy_data ino buf len (of_nat i) (of_nat (blk_off (off + i))) (of_nat (off + i))
           (of_nat (blk_idx (off + i))) (inode_block s ino (of_nat (blk_idx (off + i))))
           (write_bytes buf (take i (file_bytes s ino off n)) s)
       = (int n, write_bytes buf (file_bytes s ino off n) s)"
  using assms(6)
proof (induction "n - i" arbitrary: i)
  case 0
  then have [simp]: "i = n" by simp
  have L: "unat (inode_length s ino) \<le> 1023 * 4096" using assms(2) by (simp add: inode_wf_def)
  then have "n < 2147483648" using assms(4) by simp
  then have sint: "sint (of_nat n :: u32) = int n" by (rule sint_of_nat_u32)
  have "\<not> ((of_nat n :: u32) < len \<and> (of_nat (off + n) :: u32) < inode_length s ino)"
    using assms(3,4) by (auto simp: word_less_nat_alt unat_of_nat_u32 min_def
        simp del: of_nat_add split: if_splits)
  moreover have "inode_length (write_bytes buf (file_bytes s ino off n) s) ino = inode_length s ino"
    using assms(1,2,5) by (intro same_image_inode(1) write_same_image) (simp_all add: inode_wf_def)
  ultimately show ?case using sint by (simp add: copy_data_stop del: of_nat_add)
next
  case (Suc d)
  let ?p = "off + i" and ?t = "write_bytes buf (take i (file_bytes s ino off n)) s"
  have i: "i < n" using Suc.hyps(2) by simp
  then have p: "?p < unat (inode_length s ino)" using assms(4) by (simp add: less_diff_conv add.commute)
  have big: "?p < 4294967296" using p unat_u32_less [of "inode_length s ino"] by linarith
  have im: "same_image s ?t"
    using i assms(5) by (intro write_same_image) (auto elim: apart_mono)
  note f = same_image_file [OF im assms(1,2) p]
  have len: "inode_length ?t ino = inode_length s ino"
    using assms(1,2) by (intro same_image_inode(1) [OF im]) (simp_all add: inode_wf_def)
  have go: "(of_nat i :: u32) < len" "(of_nat ?p :: u32) < inode_length ?t ino"
    using i p big assms(4) unfolding len by (simp_all add: word_less_nat_alt del: of_nat_add)
  have st: "store (buf + of_nat i) (load s (data_addr s ino ?p)) ?t
      = write_bytes buf (take (Suc i) (file_bytes s ino off n)) s"
    using i write_take_Suc [of i "file_bytes s ino off n" buf s] by simp
  have IH: "copy_data ino buf len (of_nat (Suc i)) (of_nat (blk_off (Suc ?p))) (of_nat (Suc ?p))
           (of_nat (blk_idx (Suc ?p))) (inode_block s ino (of_nat (blk_idx (Suc ?p))))
           (write_bytes buf (take (Suc i) (file_bytes s ino off n)) s)
       = (int n, write_bytes buf (file_bytes s ino off n) s)"
    using Suc.hyps(1) [of "Suc i"] Suc.hyps(2) i by simp
  show ?case
  proof (cases "?p \<noteq> 0 \<and> ?p mod 4096 = 0")
    case True
    then have b: "blk_idx (Suc ?p) = Suc (blk_idx ?p)" "blk_off (Suc ?p) = 1"
      "?p div 4096 = Suc (blk_idx ?p)" "blk_off ?p = 4096" by (simp_all add: blk_next)
    have idx: "(of_nat (blk_idx ?p) :: u32) + 1 = of_nat (?p div 4096)" using b(3) by simp
    have "load ?t (datablocks ?t + 4096 * inode_block s ino (of_nat (?p div 4096))) = load s (data_addr s ino ?p)"
      using f(3) True by simp
    then have v: "store (buf + of_nat i) (load ?t (datablocks ?t + 4096 * inode_block s ino (of_nat (?p div 4096)))) ?t
        = write_bytes buf (take (Suc i) (file_bytes s ino off n)) s"
      using st by simp
    have "copy_data ino buf len (of_nat i) (of_nat (blk_off ?p)) (of_nat ?p) (of_nat (blk_idx ?p))
          (inode_block s ino (of_nat (blk_idx ?p))) ?t
        = copy_data ino buf len (of_nat i + 1) 1 (of_nat ?p + 1) (of_nat (blk_idx ?p) + 1)
            (inode_block s ino (of_nat (?p div 4096))) (store (buf + of_nat i)
              (load ?t (datablocks ?t + 4096 * inode_block s ino (of_nat (?p div 4096)))) ?t)"
      by (rule copy_data_next [OF go]) (use f(1,2) b(4) in \<open>simp_all add: idx del: of_nat_add\<close>)
    note nx = this [unfolded v]
    show ?thesis using nx IH b by (simp add: add.commute)
  next
    case False
    then have b: "blk_idx (Suc ?p) = blk_idx ?p" "blk_off (Suc ?p) = Suc (blk_off ?p)"
      "?p div 4096 = blk_idx ?p" "?p mod 4096 = blk_off ?p" "blk_off ?p < 4096"
      using blk_same [of ?p] by auto
    have k: "(of_nat (blk_off ?p) :: u32) = 0 \<or> of_nat (blk_off ?p) mod 4096 \<noteq> (0 :: u32)"
      using b(5) by (auto simp: u32_mod_4096)
    have "load ?t (datablocks ?t + 4096 * inode_block s ino (of_nat (blk_idx ?p)) + of_nat (blk_off ?p))
        = load s (data_addr s ino ?p)"
      using f(3) b(3,4) by simp
    then show ?thesis
      using copy_data_same [OF go k, of buf "of_nat (blk_idx ?p)" "inode_block s ino (of_nat (blk_idx ?p))"]
        st IH b(1,2) by (simp add: add.commute)
  qed
qed


lemma read_data_eq:
  assumes "mounted s" "inode_wf s ino"
    and "n = min (unat len) (unat (inode_length s ino) - unat offset)"
    and "apart s buf n (bootblock s) (image_size s)"
  shows "read_data ino offset buf len s
       = (int n, write_bytes buf (file_bytes s ino (unat offset) n) s)"
proof -
  let ?o = "unat offset"
  have ino: "\<not> boot_inodes s \<le> ino" using assms(2) by (simp add: inode_wf_def not_le)
  have b0: "\<not> bad_block s (inode_block s ino 0)" using assms(2) by (auto simp: inode_wf_def)
  show ?thesis
  proof (cases "offset < inode_length s ino")
    case True
    then have o: "?o < unat (inode_length s ino)" by (simp add: word_less_nat_alt)
    have "seek_data ino offset 0 0 0 (inode_block s ino 0) s
        = Some (inode_block s ino (of_nat (blk_idx ?o)), of_nat (blk_idx ?o), of_nat (blk_off ?o))"
      using seek_data_eq [OF assms(2) o, of 0] by (simp add: blk_off_def [of 0] blk_idx_def [of 0])
    moreover have "copy_data ino buf len 0 (of_nat (blk_off ?o)) offset (of_nat (blk_idx ?o))
          (inode_block s ino (of_nat (blk_idx ?o))) s
        = (int n, write_bytes buf (file_bytes s ino ?o n) s)"
      using copy_data_eq [OF assms(1,2) o assms(3,4), of 0] by simp
    moreover have "\<not> inode_length s ino \<le> offset" using True by simp
    ultimately show ?thesis using ino b0 by (simp add: read_data_def Let_def)
  next
    case False
    then have "n = 0" using assms(3) by (simp add: word_less_nat_alt)
    then show ?thesis using ino b0 False by (simp add: read_data_def Let_def not_less file_bytes_def)
  qed
qed

text \<open>
  Whatever the image holds, \<^verbatim>\<open>read_data\<close> writes to the buffer only, stays inside it, and
  reports an error or a count.
\<close>

definition writes_buf :: "u32 \<Rightarrow> u32 \<Rightarrow> u32 \<Rightarrow> 'a fsys_scheme \<Rightarrow> int \<times> 'a fsys_scheme \<Rightarrow> bool" where
  "writes_buf buf i len s res \<longleftrightarrow> (\<exists>bs. snd res = write_bytes (buf + i) bs s \<and>
     unat i + length bs \<le> unat len \<and> (fst res = FAILURE \<or> fst res = sint (i + of_nat (length bs))))"

lemma writes_buf_store:
  assumes "writes_buf buf (i + 1) len (store (buf + i) v s) res" "i < len"
  shows "writes_buf buf i len s res"
proof -
  have "unat i < unat len" using assms(2) by (simp add: word_less_nat_alt)
  then have "Suc (unat i) < 4294967296" using unat_u32_less [of len] by linarith
  then have "unat (i + 1) = Suc (unat i)" by (simp add: unat_word_ariths)
  moreover obtain bs where "snd res = write_bytes (buf + (i + 1)) bs (store (buf + i) v s)"
    "unat (i + 1) + length bs \<le> unat len" "fst res = FAILURE \<or> fst res = sint (i + 1 + of_nat (length bs))"
    using assms(1) by (auto simp: writes_buf_def)
  ultimately show ?thesis
    unfolding writes_buf_def by (intro exI [of _ "v # bs"]) (simp add: ac_simps)
qed

lemma copy_data_footprint:
  "i \<le> len \<Longrightarrow> writes_buf buf i len s (copy_data ino buf len i k c idx b s)"
proof (induction ino buf len i k c idx b s rule: copy_data.induct)
  case (1 ino buf len i k c idx b s)
  have stopped: "writes_buf buf i len s (r, s)" if "r = FAILURE \<or> r = sint i" for r
    using that 1(3) by (auto simp: writes_buf_def word_le_nat_alt intro: exI [of _ "[]"])
  show ?case
  proof (cases "i < len \<and> c < inode_length s ino")
    case True
    then have le: "i + 1 \<le> len" by (simp add: inc_le)
    show ?thesis
    proof (cases "k \<noteq> 0 \<and> k mod 4096 = 0")
      case k: True
      show ?thesis
      proof (cases "bad_block s (inode_block s ino (idx + 1))")
        case bad: True
        then show ?thesis using True k stopped by (subst copy_data.simps) (simp add: Let_def)
      next
        case False
        then show ?thesis
          using 1(1) [OF True k refl False le] True k
          by (auto simp: copy_data_next intro: writes_buf_store)
      qed
    next
      case k: False
      then show ?thesis
        using 1(2) [OF True k le] True copy_data_same [of i len c s ino k buf idx b]
        by (auto intro: writes_buf_store)
    qed
  qed (simp add: copy_data_stop stopped)
qed

lemma read_data_footprint: "writes_buf buf 0 len s (read_data ino offset buf len s)"
proof -
  have "writes_buf buf 0 len s (r, s)" if "r = FAILURE \<or> r = 0" for r
    using that by (auto simp: writes_buf_def intro: exI [of _ "[]"])
  then show ?thesis
    by (auto simp: read_data_def Let_def copy_data_footprint split: option.split)
qed


section \<open>The directory\<close>

definition dentry_name :: "dentry \<Rightarrow> u8 list" where
  "dentry_name d = takeWhile (\<lambda>b. b \<noteq> 0) (filename d)"

definition directory :: "'a fsys_scheme \<Rightarrow> dentry list" where
  "directory s = map (\<lambda>i. load_dentry s (boot_file s (of_nat i))) [0..<nat (sint (boot_direntries s))]"

lemma dentry_name_load: "dentry_name (load_dentry s a) = field_text s a 32"
  by (simp add: dentry_name_def load_dentry_def field_text_def)

lemma lookup_from:
  "i \<le> n \<Longrightarrow> read_dentry_by_name_from fname (int n) (int i) s =
     (case find (\<lambda>d. dentry_name d = field_text s fname 32)
             (map (\<lambda>i. load_dentry s (boot_file s (of_nat i))) [i..<n]) of
        None \<Rightarrow> (FAILURE, None) | Some d \<Rightarrow> (SUCCESS, Some d))"
proof (induction "n - i" arbitrary: i)
  case 0
  then show ?case by (subst read_dentry_by_name_from.simps) simp
next
  case (Suc d)
  have lt: "i < n" using Suc.hyps(2) by simp
  have up: "[i..<n] = i # [Suc i..<n]" using Suc.hyps(2) by (simp add: upt_conv_Cons)
  have nm: "strncmp s fname a 32 = 0 \<longleftrightarrow> dentry_name (load_dentry s a) = field_text s fname 32" for a
    by (auto simp: strncmp_eq_0 dentry_name_load)
  show ?case
    using Suc.hyps(1) [of "Suc i"] Suc.hyps(2) nm [of "boot_file s (of_nat i)"] lt
    by (subst read_dentry_by_name_from.simps) (simp add: up add.commute)
qed

lemma read_dentry_by_name_eq:
  "read_dentry_by_name fname s =
     (case find (\<lambda>d. dentry_name d = field_text s fname 32) (directory s) of
        None \<Rightarrow> (FAILURE, None) | Some d \<Rightarrow> (SUCCESS, Some d))"
proof (cases "0 \<le> sint (boot_direntries s)")
  case True
  then show ?thesis
    using lookup_from [of 0 "nat (sint (boot_direntries s))" fname s]
    by (simp add: read_dentry_by_name_def directory_def)
next
  case False
  then show ?thesis
    by (simp add: read_dentry_by_name_def directory_def read_dentry_by_name_from.simps)
qed

section \<open>Index node pointers\<close>

text \<open>The two scalings by 4096 cancel as long as the product does not reach the sign bit.\<close>

lemma inode_ptr_num:
  assumes "ino < boot_inodes s" "ino < 128"
  shows "get_inode_num (get_inode_ptr ino s) s = ino"
proof -
  have i: "unat ino < 128" using assms(2) by (simp add: word_less_nat_alt)
  have "get_inode_ptr ino s - inodes s = of_nat (16777216 * unat ino)"
    using assms(1) by (simp add: get_inode_ptr_def)
  moreover have "sint (of_nat (16777216 * unat ino) :: u32) = int (16777216 * unat ino)"
    using i by (intro sint_of_nat_u32) simp
  moreover have "int (16777216 * unat ino) div 4096 = int (4096 * unat ino)" by simp
  ultimately have "get_inode_num (get_inode_ptr ino s) s = (of_nat (4096 * unat ino) :: u32) div 4096"
    unfolding get_inode_num_def by (simp only: of_int_of_nat_eq)
  also have "\<dots> = of_nat (unat ino)"
  proof (rule unsigned_word_eqI)
    have "unat (of_nat (4096 * unat ino) :: u32) = 4096 * unat ino" using i by (intro unat_of_nat_u32) simp
    then show "unat ((of_nat (4096 * unat ino) :: u32) div 4096) = unat (of_nat (unat ino) :: u32)"
      unfolding unat_div by simp
  qed
  finally show ?thesis by simp
qed

lemma init_filesystem_mounted: "mounted (init_filesystem a n s)"
  by (simp add: init_filesystem_def mounted_def Let_def boot_inodes_def load32_def load_def)

end
