(* ===== verification/I8259.thy ===== *)
theory I8259
  imports Filesystem
begin

text \<open>
  The two cascaded interrupt controllers, from \<^verbatim>\<open>student-distrib/devices/i8259.c\<close>.
  The kernel keeps a copy of each mask register; reading a mask back goes through the port,
  so it depends on the controller, the argument \<open>dev\<close>. The one documented behaviour the
  theorems use is \<open>reads_back\<close>: a mask register reads as the byte last written to it.
\<close>

section \<open>State and operations\<close>

record i8259 = fsys +
  master_mask :: u8
  slave_mask :: u8

abbreviation (input) MASTER_8259_PORT :: u16 where "MASTER_8259_PORT \<equiv> 0x20"
abbreviation (input) SLAVE_8259_PORT :: u16 where "SLAVE_8259_PORT \<equiv> 0xA0"
abbreviation (input) MASTER_8259_PORT_DATA :: u16 where "MASTER_8259_PORT_DATA \<equiv> 0x21"
abbreviation (input) SLAVE_8259_PORT_DATA :: u16 where "SLAVE_8259_PORT_DATA \<equiv> 0xA1"
abbreviation (input) EOI :: u8 where "EOI \<equiv> 0x60"
abbreviation (input) SLAVE_IRQ :: u8 where "SLAVE_IRQ \<equiv> 2"
abbreviation (input) NUM_INTERRUPTS_PER_PIC :: u32 where "NUM_INTERRUPTS_PER_PIC \<equiv> 8"

definition i8259_init :: "'a i8259_scheme \<Rightarrow> 'a i8259_scheme" where
  "i8259_init s =
     (let s = s\<lparr>slave_mask := 0xFF\<rparr>;
          s = s\<lparr>master_mask := 0xFB\<rparr>;
          s = io_wait (outb 0x11 MASTER_8259_PORT s);
          s = io_wait (outb 0x11 SLAVE_8259_PORT s);
          s = io_wait (outb 0x20 MASTER_8259_PORT_DATA s);
          s = io_wait (outb 0x28 SLAVE_8259_PORT_DATA s);
          s = io_wait (outb 0x04 MASTER_8259_PORT_DATA s);
          s = io_wait (outb 0x02 SLAVE_8259_PORT_DATA s);
          s = io_wait (outb 0x01 MASTER_8259_PORT_DATA s);
          s = io_wait (outb 0x01 SLAVE_8259_PORT_DATA s);
          s = io_wait (outb (master_mask s) MASTER_8259_PORT_DATA s)
      in outb (slave_mask s) SLAVE_8259_PORT_DATA s)"

definition enable_irq :: "device \<Rightarrow> u32 \<Rightarrow> 'a i8259_scheme \<Rightarrow> 'a i8259_scheme" where
  "enable_irq dev irq_num s =
     (let port_number = if irq_num \<ge> NUM_INTERRUPTS_PER_PIC then SLAVE_8259_PORT_DATA else MASTER_8259_PORT_DATA;
          irq_num = if port_number = SLAVE_8259_PORT_DATA then irq_num - NUM_INTERRUPTS_PER_PIC else irq_num;
          (v, s) = inb dev port_number s;
          mask = v AND NOT (push_bit (unat irq_num) 1);
          s = if port_number = SLAVE_8259_PORT_DATA then s\<lparr>slave_mask := mask\<rparr> else s\<lparr>master_mask := mask\<rparr>
      in outb mask port_number s)"

definition disable_irq :: "device \<Rightarrow> u32 \<Rightarrow> 'a i8259_scheme \<Rightarrow> 'a i8259_scheme" where
  "disable_irq dev irq_num s =
     (let port_number = if irq_num \<ge> NUM_INTERRUPTS_PER_PIC then SLAVE_8259_PORT_DATA else MASTER_8259_PORT_DATA;
          irq_num = if port_number = SLAVE_8259_PORT_DATA then irq_num - NUM_INTERRUPTS_PER_PIC else irq_num;
          (v, s) = inb dev port_number s;
          mask = v OR push_bit (unat irq_num) 1;
          s = if port_number = SLAVE_8259_PORT_DATA then s\<lparr>slave_mask := mask\<rparr> else s\<lparr>master_mask := mask\<rparr>
      in outb mask port_number s)"

text \<open>The source subtracts in this order: 8 minus the interrupt number, in unsigned arithmetic.\<close>

definition send_eoi :: "u32 \<Rightarrow> 'a i8259_scheme \<Rightarrow> 'a i8259_scheme" where
  "send_eoi irq_num s =
     (if irq_num \<ge> NUM_INTERRUPTS_PER_PIC then
        let s = outb (ucast (0x60 OR (NUM_INTERRUPTS_PER_PIC - irq_num))) SLAVE_8259_PORT s
        in outb (EOI OR SLAVE_IRQ) MASTER_8259_PORT s
      else outb (ucast (0x60 OR irq_num)) MASTER_8259_PORT s)"

section \<open>Masks\<close>

text \<open>The byte last written to a port.\<close>

fun last_out :: "u16 \<Rightarrow> io_event list \<Rightarrow> u8 option" where
  "last_out p [] = None"
| "last_out p (Out q v # l) = (if q = p then Some v else last_out p l)"
| "last_out p (In q v # l) = last_out p l"

definition reads_back :: "device \<Rightarrow> bool" where
  "reads_back dev \<longleftrightarrow> (\<forall>l v. (last_out 0x21 l = Some v \<longrightarrow> dev l 0x21 = v) \<and>
     (last_out 0xA1 l = Some v \<longrightarrow> dev l 0xA1 = v))"

definition pic_sync :: "'a i8259_scheme \<Rightarrow> bool" where
  "pic_sync s \<longleftrightarrow> last_out 0x21 (io_log s) = Some (master_mask s) \<and>
     last_out 0xA1 (io_log s) = Some (slave_mask s)"

definition irq_masked :: "'a i8259_scheme \<Rightarrow> nat \<Rightarrow> bool" where
  "irq_masked s irq \<longleftrightarrow> (if irq < 8 then bit (master_mask s) irq else bit (slave_mask s) (irq - 8))"

lemma i8259_init_sync: "pic_sync (i8259_init s)"
  by (simp add: i8259_init_def io_wait_def pic_sync_def Let_def outb_def)

lemma i8259_init_masked: "irq < 16 \<Longrightarrow> irq_masked (i8259_init s) irq \<longleftrightarrow> irq \<noteq> 2"
proof -
  have m: "master_mask (i8259_init s) = 0xFB" "slave_mask (i8259_init s) = 0xFF"
    by (simp_all add: i8259_init_def io_wait_def Let_def outb_def)
  have "list_all (\<lambda>i. (if i < 8 then bit (0xFB :: u8) i else bit (0xFF :: u8) (i - 8)) = (i \<noteq> 2)) [0..<16]"
    by code_simp
  then show "irq < 16 \<Longrightarrow> irq_masked (i8259_init s) irq \<longleftrightarrow> irq \<noteq> 2"
    unfolding irq_masked_def m list_all_iff by (simp del: upt_rec_numeral)
qed

lemma bit_push_1: "bit (2 ^ n :: u8) m \<longleftrightarrow> n = m \<and> m < 8"
  by (auto simp: bit_exp_iff)

lemma slave_irq: "n < 16 \<Longrightarrow> 8 \<le> n \<Longrightarrow> unat (of_nat n - 8 :: u32) = n - 8"
proof -
  assume "n < 16" "8 \<le> n"
  then have "(of_nat n - 8 :: u32) = of_nat (n - 8)" "n - 8 < 4294967296"
    using of_nat_diff [of 8 n, where 'a = "32 word"] by simp_all
  then show ?thesis by (simp only: unat_of_nat_u32)
qed

lemma irq_le: "n < 16 \<Longrightarrow> ((8 :: u32) \<le> of_nat n) \<longleftrightarrow> 8 \<le> n"
  by (simp add: word_le_nat_alt)

lemma enable_irq_eq:
  assumes "n < 16" "pic_sync s" "reads_back dev"
  shows "enable_irq dev (of_nat n) s =
    (if 8 \<le> n then let m = slave_mask s AND NOT (push_bit (n - 8) 1)
                   in s\<lparr>io_log := [Out 0xA1 m, In 0xA1 (slave_mask s)] @ io_log s, slave_mask := m\<rparr>
     else let m = master_mask s AND NOT (push_bit n 1)
          in s\<lparr>io_log := [Out 0x21 m, In 0x21 (master_mask s)] @ io_log s, master_mask := m\<rparr>)"
  using assms by (auto simp: enable_irq_def Let_def irq_le slave_irq inb_def outb_def reads_back_def pic_sync_def)

lemma disable_irq_eq:
  assumes "n < 16" "pic_sync s" "reads_back dev"
  shows "disable_irq dev (of_nat n) s =
    (if 8 \<le> n then let m = slave_mask s OR push_bit (n - 8) 1
                   in s\<lparr>io_log := [Out 0xA1 m, In 0xA1 (slave_mask s)] @ io_log s, slave_mask := m\<rparr>
     else let m = master_mask s OR push_bit n 1
          in s\<lparr>io_log := [Out 0x21 m, In 0x21 (master_mask s)] @ io_log s, master_mask := m\<rparr>)"
  using assms by (auto simp: disable_irq_def Let_def irq_le slave_irq inb_def outb_def reads_back_def pic_sync_def)

section \<open>The controller as an interface\<close>

text \<open>
  What drivers rely on: enabling or disabling a line changes the mask of that line only.
  Any sequence of such requests then leaves a line masked exactly when the last request for
  it was to disable it, or there was none and it was masked before.
\<close>

datatype irq_request = Enable nat | Disable nat

fun irq_line :: "irq_request \<Rightarrow> nat" where
  "irq_line (Enable n) = n"
| "irq_line (Disable n) = n"

fun serve :: "(nat \<Rightarrow> 's \<Rightarrow> 's) \<Rightarrow> (nat \<Rightarrow> 's \<Rightarrow> 's) \<Rightarrow> irq_request \<Rightarrow> 's \<Rightarrow> 's" where
  "serve enable disable (Enable n) s = enable n s"
| "serve enable disable (Disable n) s = disable n s"

locale irq_controller =
  fixes enable disable :: "nat \<Rightarrow> 's \<Rightarrow> 's" and masked :: "'s \<Rightarrow> nat \<Rightarrow> bool" and ok :: "'s \<Rightarrow> bool"
  assumes enable_ok: "ok s \<Longrightarrow> n < 16 \<Longrightarrow> ok (enable n s)"
    and disable_ok: "ok s \<Longrightarrow> n < 16 \<Longrightarrow> ok (disable n s)"
    and masked_enable: "ok s \<Longrightarrow> n < 16 \<Longrightarrow> m < 16 \<Longrightarrow> masked (enable n s) m \<longleftrightarrow> m \<noteq> n \<and> masked s m"
    and masked_disable: "ok s \<Longrightarrow> n < 16 \<Longrightarrow> m < 16 \<Longrightarrow> masked (disable n s) m \<longleftrightarrow> m = n \<or> masked s m"
begin

lemma requests_masked:
  assumes "ok s" "m < 16" "\<forall>r \<in> set rs. irq_line r < 16"
  shows "ok (fold (serve enable disable) rs s) \<and> masked (fold (serve enable disable) rs s) m =
     (case filter (\<lambda>r. irq_line r = m) rs of [] \<Rightarrow> masked s m | qs \<Rightarrow> last qs = Disable m)"
  using assms(3)
proof (induction rs rule: rev_induct)
  case (snoc r rs)
  then show ?case
    by (cases r) (auto simp: enable_ok disable_ok masked_enable masked_disable assms(2)
        split: list.splits if_splits)
qed (use assms in simp)

end

lemma irq_masked_enable:
  assumes "n < 16" "m < 16" "pic_sync s" "reads_back dev"
  shows "irq_masked (enable_irq dev (of_nat n) s) m \<longleftrightarrow> m \<noteq> n \<and> irq_masked s m"
  using assms(1,2) unfolding enable_irq_eq [OF assms(1,3,4)]
  by (auto simp: irq_masked_def Let_def bit_and_iff bit_not_iff_eq bit_push_1 not_less)

lemma irq_masked_disable:
  assumes "n < 16" "m < 16" "pic_sync s" "reads_back dev"
  shows "irq_masked (disable_irq dev (of_nat n) s) m \<longleftrightarrow> m = n \<or> irq_masked s m"
  using assms(1,2) unfolding disable_irq_eq [OF assms(1,3,4)]
  by (auto simp: irq_masked_def Let_def bit_or_iff bit_push_1 not_less)

lemma pic_sync_kept:
  "pic_sync s \<Longrightarrow> pic_sync (enable_irq dev n s)" "pic_sync s \<Longrightarrow> pic_sync (disable_irq dev n s)"
  by (auto simp: pic_sync_def enable_irq_def disable_irq_def Let_def inb_def outb_def)

interpretation pic: irq_controller
  "\<lambda>n. enable_irq dev (of_nat n)" "\<lambda>n. disable_irq dev (of_nat n)" irq_masked
  "\<lambda>s :: 'a i8259_scheme. pic_sync s \<and> reads_back dev" for dev
  by unfold_locales (auto simp: pic_sync_kept irq_masked_enable irq_masked_disable)

end
