(* ===== verification/Rtc.thy ===== *)
theory Rtc
  imports I8259
begin

text \<open>
  The real-time clock driver, from \<^verbatim>\<open>student-distrib/devices/rtc.c\<close>. Reading the clock
  waits until the interrupt handler clears \<^verbatim>\<open>rtc_flag\<close>; writing it checks the frequency
  and programs register A.
\<close>

section \<open>State and operations\<close>

record rtc = i8259 +
  been_inited :: u8
  rtc_flag :: int

abbreviation (input) RTC_CONTROL_PORT :: u16 where "RTC_CONTROL_PORT \<equiv> 0x70"
abbreviation (input) RTC_DATA_PORT :: u16 where "RTC_DATA_PORT \<equiv> 0x71"
abbreviation (input) RTC_CREG_A :: u8 where "RTC_CREG_A \<equiv> 0x8A"
abbreviation (input) RTC_CREG_B :: u8 where "RTC_CREG_B \<equiv> 0x8B"
abbreviation (input) RTC_LINE_NO :: u32 where "RTC_LINE_NO \<equiv> 8"
abbreviation (input) RTC_FREQ_MIN :: int where "RTC_FREQ_MIN \<equiv> 2"
abbreviation (input) RTC_FREQ_MAX :: int where "RTC_FREQ_MAX \<equiv> 1024"
abbreviation (input) FREQ_FORMULA_VAL :: int where "FREQ_FORMULA_VAL \<equiv> 32768"

definition init_rtc :: "device \<Rightarrow> 'a rtc_scheme \<Rightarrow> 'a rtc_scheme" where
  "init_rtc dev s =
     (let (flags, s) = cli_and_save s;
          s = outb RTC_CREG_B RTC_CONTROL_PORT s;
          (v, s) = inb dev RTC_DATA_PORT s;
          portdata = v OR 0x40;
          s = outb RTC_CREG_B RTC_CONTROL_PORT s;
          s = outb portdata RTC_DATA_PORT s;
          s = outb RTC_CREG_A RTC_CONTROL_PORT s;
          (v, s) = inb dev RTC_DATA_PORT s;
          portdata = (v AND 0xF0) OR 0x0F;
          s = outb RTC_CREG_A RTC_CONTROL_PORT s;
          s = outb portdata RTC_DATA_PORT s;
          s = restore_flags flags s
      in enable_irq dev RTC_LINE_NO s)"

definition read_rtc ::
    "(nat \<Rightarrow> 'a rtc_scheme \<Rightarrow> 'a rtc_scheme) \<Rightarrow> int \<Rightarrow> u32 \<Rightarrow> int \<Rightarrow> 'a rtc_scheme \<Rightarrow> (int \<times> 'a rtc_scheme) option" where
  "read_rtc env fd buf nbytes s =
     (case spin env (\<lambda>s. rtc_flag s \<noteq> 0) 0 (s\<lparr>rtc_flag := 1\<rparr>) of
        None \<Rightarrow> None
      | Some s \<Rightarrow> Some (0, s))"

partial_function (option) rate_loop :: "int \<Rightarrow> int \<Rightarrow> int option" where
  "rate_loop i rate = (if i \<noteq> 1 then rate_loop (drop_bit 1 i) (rate + 1) else Some rate)"

definition rtc_cond :: "int \<Rightarrow> bool" where
  "rtc_cond freq \<longleftrightarrow> freq \<ge> RTC_FREQ_MIN \<and> freq \<le> RTC_FREQ_MAX \<and> freq AND (freq - 1) = 0"

definition write_rtc :: "device \<Rightarrow> int \<Rightarrow> u32 \<Rightarrow> int \<Rightarrow> 'a rtc_scheme \<Rightarrow> (int \<times> 'a rtc_scheme) option" where
  "write_rtc dev fd buf num_bytes s =
     (let freq = sint (load32 s buf)
      in if \<not> rtc_cond freq then Some (-1, s)
         else case rate_loop (FREQ_FORMULA_VAL div freq) 1 of
           None \<Rightarrow> None
         | Some rate \<Rightarrow>
             (let (flags, s) = cli_and_save s;
                  s = outb RTC_CREG_A RTC_CONTROL_PORT s;
                  (v, s) = inb dev RTC_DATA_PORT s;
                  portdata = (v AND 0xF0) OR word_of_int rate;
                  s = outb RTC_CREG_A RTC_CONTROL_PORT s;
                  s = outb portdata RTC_DATA_PORT s;
                  s = restore_flags flags s;
                  s = enable_irq dev RTC_LINE_NO s
              in Some (1, s)))"

definition open_rtc :: "device \<Rightarrow> 'a rtc_scheme \<Rightarrow> int \<times> 'a rtc_scheme" where
  "open_rtc dev s =
     (let (flags, s) = cli_and_save s;
          s = if been_inited s = 0 then init_rtc dev s else s;
          s = s\<lparr>been_inited := 1\<rparr>
      in (0, restore_flags flags s))"

definition close_rtc :: "int \<Rightarrow> 'a rtc_scheme \<Rightarrow> int \<times> 'a rtc_scheme" where
  "close_rtc fd s = (0, s)"

section \<open>Frequencies and rates\<close>

lemma power_of_two_int:
  fixes x :: int
  assumes "0 < x"
  shows "x AND (x - 1) = 0 \<longleftrightarrow> (\<exists>k. x = 2 ^ k)"
  using assms
proof (induction "nat x" arbitrary: x rule: less_induct)
  case less
  show ?case
  proof (cases "even x")
    case True
    then obtain y where y: "x = 2 * y" by (rule evenE)
    moreover have "(2 * y - 1) div 2 = y - 1" by simp
    ultimately have "x AND (x - 1) = 2 * (y AND (y - 1))"
      by (subst and_int_rec) simp
    then have "x AND (x - 1) = 0 \<longleftrightarrow> (\<exists>k. y = 2 ^ k)" using less.hyps [of y] less.prems y by simp
    also have "\<dots> \<longleftrightarrow> (\<exists>k. x = 2 ^ k)"
    proof
      assume "\<exists>k. x = 2 ^ k"
      then obtain k where "x = 2 ^ k" by blast
      moreover have "k \<noteq> 0" using calculation True by (cases k) auto
      ultimately show "\<exists>k. y = 2 ^ k" using y by (cases k) auto
    qed (auto simp: y intro: exI [of _ "Suc _"])
    finally show ?thesis .
  next
    case False
    then obtain y where y: "x = 2 * y + 1" by (rule oddE)
    then have "x AND (x - 1) = 2 * y" by (subst and_int_rec) simp
    moreover have "(\<exists>k. x = 2 ^ k) \<longleftrightarrow> x = 1"
    proof
      assume "\<exists>k. x = 2 ^ k"
      then obtain k where "x = 2 ^ k" by blast
      then show "x = 1" using False by (cases k) auto
    qed (auto intro: exI [of _ 0])
    ultimately show ?thesis using y by auto
  qed
qed

text \<open>The test accepts the ten powers of two from 2 to 1024 and nothing else.\<close>

lemma rtc_cond_iff: "rtc_cond freq \<longleftrightarrow> (\<exists>k\<in>{1..10}. freq = 2 ^ k)"
proof
  assume c: "rtc_cond freq"
  then obtain k where k: "freq = 2 ^ k" using power_of_two_int [of freq] by (auto simp: rtc_cond_def)
  then have "(2 :: int) ^ 1 \<le> 2 ^ k" "(2 :: int) ^ k \<le> 2 ^ 10" using c by (simp_all add: rtc_cond_def)
  then have "1 \<le> k" "k \<le> 10" by (metis one_less_numeral_iff power_increasing_iff semiring_norm(76))+
  then show "\<exists>k\<in>{1..10}. freq = 2 ^ k" using k by auto
next
  assume "\<exists>k\<in>{1..10}. freq = 2 ^ k"
  then obtain k where k: "1 \<le> k" "k \<le> 10" "freq = 2 ^ k" by auto
  have "(2 :: int) ^ 1 \<le> 2 ^ k" "(2 :: int) ^ k \<le> 2 ^ 10" using k(1,2) by (intro power_increasing; simp)+
  then show "rtc_cond freq" using k power_of_two_int [of freq] by (auto simp: rtc_cond_def)
qed

lemma rate_loop_pow: "rate_loop (2 ^ n) r = Some (r + int n)"
proof (induction n arbitrary: r)
  case (Suc n)
  have "(2 :: int) ^ Suc n \<noteq> 1" by (metis numeral_One power_inject_exp zero_less_Suc less_numeral_extra(3) nat.distinct(1) one_less_numeral_iff power_0 semiring_norm(76))
  then show ?case using Suc by (subst rate_loop.simps) (simp add: drop_bit_eq_div)
qed (subst rate_loop.simps, simp)

lemma rate_of_freq: "k \<in> {1..10} \<Longrightarrow> rate_loop (32768 div 2 ^ k) 1 = Some (16 - int k)"
proof -
  assume k: "k \<in> {1..10}"
  have "(32768 :: int) = 2 ^ k * 2 ^ (15 - k)"
    using k by (simp flip: power_add)
  then have "(32768 :: int) div 2 ^ k = 2 ^ (15 - k)"
    by (metis nonzero_mult_div_cancel_left power_not_zero zero_neq_numeral)
  then show ?thesis using k rate_loop_pow [of "15 - k" 1] by (simp add: of_nat_diff)
qed

end
