(* ===== verification/Scancodes.thy ===== *)
theory Scancodes
  imports Rtc
begin

text \<open>
  The keyboard tables, from \<^verbatim>\<open>student-distrib/devices/scancodes.c\<close> and
  \<^verbatim>\<open>scancodes.h\<close>: what each scan code stands for, and the shifted form of characters
  that are not letters. The initialiser is one long run of assignments; it is split here
  into consecutive groups.
\<close>

section \<open>Tables\<close>

record scancode =
  result :: u8
  scflags :: u8

record scancodes = rtc +
  scancode_table :: "u8 \<Rightarrow> scancode"
  non_alpha_shift_table :: "u8 \<Rightarrow> u8"

abbreviation (input) SCANCODE_MAKE :: u8 where "SCANCODE_MAKE \<equiv> 0"
abbreviation (input) SCANCODE_BREAK :: u8 where "SCANCODE_BREAK \<equiv> 1"
abbreviation (input) SCANCODE_PRINTABLE :: u8 where "SCANCODE_PRINTABLE \<equiv> 2"
abbreviation (input) SCANCODE_LETTER :: u8 where "SCANCODE_LETTER \<equiv> 4"
abbreviation (input) SCANCODE_NUMBER :: u8 where "SCANCODE_NUMBER \<equiv> 8"
abbreviation (input) SCANCODE_MODIFIER :: u8 where "SCANCODE_MODIFIER \<equiv> 16"

definition IS_MAKE_SC :: "scancode \<Rightarrow> bool" where
  "IS_MAKE_SC c \<longleftrightarrow> scflags c AND 1 = 0"

definition IS_PRINTABLE_SC :: "scancode \<Rightarrow> bool" where
  "IS_PRINTABLE_SC c \<longleftrightarrow> drop_bit 1 (scflags c AND SCANCODE_PRINTABLE) \<noteq> 0"

definition IS_LETTER_SC :: "scancode \<Rightarrow> bool" where
  "IS_LETTER_SC c \<longleftrightarrow> drop_bit 2 (scflags c AND SCANCODE_LETTER) \<noteq> 0"

text \<open>The assignments to the shift table, in order, as pairs of index and value.\<close>

definition shift_assignments :: "(u8 \<times> u8) list" where
  "shift_assignments =
    [(of_char (CHR ''1''), of_char (CHR ''!'')), (of_char (CHR ''2''), of_char (CHR ''@'')),
     (of_char (CHR ''3''), of_char (CHR ''#'')), (of_char (CHR ''4''), of_char (CHR ''$'')),
     (of_char (CHR ''5''), of_char (CHR ''%'')), (of_char (CHR ''6''), of_char (CHR ''^'')),
     (of_char (CHR ''7''), of_char (CHR ''&'')), (of_char (CHR ''8''), of_char (CHR ''*'')),
     (of_char (CHR ''9''), of_char (CHR ''('')), (of_char (CHR ''0''), of_char (CHR '')'')),
     (of_char (CHR ''-''), of_char (CHR ''_'')), (of_char (CHR ''=''), of_char (CHR ''+'')),
     (of_char (CHR ''[''), of_char (CHR ''{'')), (of_char (CHR '']''), of_char (CHR ''}'')),
     (of_char (CHR 0x5C), of_char (CHR ''|'')), (of_char (CHR 0x27), of_char (CHR 0x22)),
     (of_char (CHR '';''), of_char (CHR '':'')), (of_char (CHR '',''), of_char (CHR ''<'')),
     (of_char (CHR ''.''), of_char (CHR ''>'')), (of_char (CHR ''/''), of_char (CHR ''?'')),
     (of_char (CHR 0x60), of_char (CHR ''~''))]"

definition scancode_group_1 :: "(u8 \<times> u8 \<times> u8) list" where
  "scancode_group_1 =
    [(0x01, 12, SCANCODE_MAKE), (0x0E, 0, SCANCODE_MAKE),
     (0x1D, 3, SCANCODE_MAKE OR SCANCODE_MODIFIER), (0x2A, 2, SCANCODE_MAKE OR SCANCODE_MODIFIER),
     (0x36, 6, SCANCODE_MAKE OR SCANCODE_MODIFIER), (0x37, 7, SCANCODE_MAKE),
     (0x38, 5, SCANCODE_MAKE OR SCANCODE_MODIFIER), (0x3A, 1, SCANCODE_MAKE),
     (0x3B, 14, SCANCODE_MAKE), (0x3C, 16, SCANCODE_MAKE), (0x3D, 18, SCANCODE_MAKE),
     (0x3E, 20, SCANCODE_MAKE), (0x3F, 22, SCANCODE_MAKE), (0x40, 24, SCANCODE_MAKE),
     (0x41, 26, SCANCODE_MAKE), (0x42, 28, SCANCODE_MAKE), (0x43, 30, SCANCODE_MAKE),
     (0x44, 31, SCANCODE_MAKE), (0x45, 4, SCANCODE_MAKE), (0x46, 34, SCANCODE_MAKE),
     (0x47, 25, SCANCODE_MAKE), (0x48, 27, SCANCODE_MAKE), (0x49, 29, SCANCODE_MAKE),
     (0x4A, 8, SCANCODE_MAKE), (0x4B, 19, SCANCODE_MAKE), (0x4C, 21, SCANCODE_MAKE),
     (0x4D, 23, SCANCODE_MAKE), (0x4E, 9, SCANCODE_MAKE), (0x4F, 13, SCANCODE_MAKE),
     (0x50, 15, SCANCODE_MAKE), (0x51, 17, SCANCODE_MAKE), (0x52, 11, SCANCODE_MAKE),
     (0x53, 10, SCANCODE_MAKE), (0x57, 32, SCANCODE_MAKE), (0x58, 33, SCANCODE_MAKE),
     (0x81, 12, SCANCODE_BREAK)]"

definition scancode_group_2 :: "(u8 \<times> u8 \<times> u8) list" where
  "scancode_group_2 =
    [(0x8E, 0, SCANCODE_BREAK), (0x9D, 3, SCANCODE_BREAK OR SCANCODE_MODIFIER),
     (0xAA, 2, SCANCODE_BREAK OR SCANCODE_MODIFIER), (0xB6, 6, SCANCODE_BREAK OR SCANCODE_MODIFIER),
     (0xB7, 7, SCANCODE_BREAK), (0xB8, 5, SCANCODE_BREAK OR SCANCODE_MODIFIER),
     (0xBA, 1, SCANCODE_BREAK), (0xBB, 14, SCANCODE_BREAK), (0xBC, 16, SCANCODE_BREAK),
     (0xBD, 18, SCANCODE_BREAK), (0xBE, 20, SCANCODE_BREAK), (0xBF, 22, SCANCODE_BREAK),
     (0xC0, 24, SCANCODE_BREAK), (0xC1, 26, SCANCODE_BREAK), (0xC2, 28, SCANCODE_BREAK),
     (0xC3, 30, SCANCODE_BREAK), (0xC4, 31, SCANCODE_BREAK), (0xC5, 4, SCANCODE_BREAK),
     (0xC6, 34, SCANCODE_BREAK), (0xC7, 25, SCANCODE_BREAK), (0xC8, 27, SCANCODE_BREAK),
     (0xC9, 29, SCANCODE_BREAK), (0xCA, 8, SCANCODE_BREAK), (0xCB, 19, SCANCODE_BREAK),
     (0xCC, 21, SCANCODE_BREAK), (0xCD, 23, SCANCODE_BREAK), (0xCE, 9, SCANCODE_BREAK),
     (0xCF, 13, SCANCODE_BREAK), (0xD0, 15, SCANCODE_BREAK), (0xD1, 17, SCANCODE_BREAK),
     (0xD2, 11, SCANCODE_BREAK), (0xD3, 10, SCANCODE_BREAK), (0xD7, 32, SCANCODE_BREAK),
     (0xD8, 33, SCANCODE_BREAK), (0x02, 49, SCANCODE_MAKE OR SCANCODE_NUMBER OR SCANCODE_PRINTABLE),
     (0x03, 50, SCANCODE_MAKE OR SCANCODE_NUMBER OR SCANCODE_PRINTABLE)]"

definition scancode_group_3 :: "(u8 \<times> u8 \<times> u8) list" where
  "scancode_group_3 =
    [(0x04, 51, SCANCODE_MAKE OR SCANCODE_NUMBER OR SCANCODE_PRINTABLE),
     (0x05, 52, SCANCODE_MAKE OR SCANCODE_NUMBER OR SCANCODE_PRINTABLE),
     (0x06, 53, SCANCODE_MAKE OR SCANCODE_NUMBER OR SCANCODE_PRINTABLE),
     (0x07, 54, SCANCODE_MAKE OR SCANCODE_NUMBER OR SCANCODE_PRINTABLE),
     (0x08, 55, SCANCODE_MAKE OR SCANCODE_NUMBER OR SCANCODE_PRINTABLE),
     (0x09, 56, SCANCODE_MAKE OR SCANCODE_NUMBER OR SCANCODE_PRINTABLE),
     (0x0A, 57, SCANCODE_MAKE OR SCANCODE_NUMBER OR SCANCODE_PRINTABLE),
     (0x0B, 48, SCANCODE_MAKE OR SCANCODE_NUMBER OR SCANCODE_PRINTABLE),
     (0x0C, 45, SCANCODE_MAKE OR SCANCODE_PRINTABLE),
     (0x0D, 61, SCANCODE_MAKE OR SCANCODE_PRINTABLE), (0x0F, 9, SCANCODE_MAKE),
     (0x10, 113, SCANCODE_MAKE OR SCANCODE_LETTER OR SCANCODE_PRINTABLE),
     (0x11, 119, SCANCODE_MAKE OR SCANCODE_LETTER OR SCANCODE_PRINTABLE),
     (0x12, 101, SCANCODE_MAKE OR SCANCODE_LETTER OR SCANCODE_PRINTABLE),
     (0x13, 114, SCANCODE_MAKE OR SCANCODE_LETTER OR SCANCODE_PRINTABLE),
     (0x14, 116, SCANCODE_MAKE OR SCANCODE_LETTER OR SCANCODE_PRINTABLE),
     (0x15, 121, SCANCODE_MAKE OR SCANCODE_LETTER OR SCANCODE_PRINTABLE),
     (0x16, 117, SCANCODE_MAKE OR SCANCODE_LETTER OR SCANCODE_PRINTABLE),
     (0x17, 105, SCANCODE_MAKE OR SCANCODE_LETTER OR SCANCODE_PRINTABLE),
     (0x18, 111, SCANCODE_MAKE OR SCANCODE_LETTER OR SCANCODE_PRINTABLE),
     (0x19, 112, SCANCODE_MAKE OR SCANCODE_LETTER OR SCANCODE_PRINTABLE),
     (0x1A, 91, SCANCODE_MAKE OR SCANCODE_PRINTABLE),
     (0x1B, 93, SCANCODE_MAKE OR SCANCODE_PRINTABLE),
     (0x1C, 10, SCANCODE_MAKE OR SCANCODE_PRINTABLE),
     (0x1E, 97, SCANCODE_MAKE OR SCANCODE_LETTER OR SCANCODE_PRINTABLE),
     (0x1F, 115, SCANCODE_MAKE OR SCANCODE_LETTER OR SCANCODE_PRINTABLE),
     (0x20, 100, SCANCODE_MAKE OR SCANCODE_LETTER OR SCANCODE_PRINTABLE),
     (0x21, 102, SCANCODE_MAKE OR SCANCODE_LETTER OR SCANCODE_PRINTABLE),
     (0x22, 103, SCANCODE_MAKE OR SCANCODE_LETTER OR SCANCODE_PRINTABLE),
     (0x23, 104, SCANCODE_MAKE OR SCANCODE_LETTER OR SCANCODE_PRINTABLE),
     (0x24, 106, SCANCODE_MAKE OR SCANCODE_LETTER OR SCANCODE_PRINTABLE),
     (0x25, 107, SCANCODE_MAKE OR SCANCODE_LETTER OR SCANCODE_PRINTABLE),
     (0x26, 108, SCANCODE_MAKE OR SCANCODE_LETTER OR SCANCODE_PRINTABLE),
     (0x27, 59, SCANCODE_MAKE OR SCANCODE_PRINTABLE),
     (0x28, 39, SCANCODE_MAKE OR SCANCODE_PRINTABLE),
     (0x29, 96, SCANCODE_MAKE OR SCANCODE_PRINTABLE)]"

definition scancode_group_4 :: "(u8 \<times> u8 \<times> u8) list" where
  "scancode_group_4 =
    [(0x2B, 92, SCANCODE_MAKE OR SCANCODE_PRINTABLE),
     (0x2C, 122, SCANCODE_MAKE OR SCANCODE_LETTER OR SCANCODE_PRINTABLE),
     (0x2D, 120, SCANCODE_MAKE OR SCANCODE_LETTER OR SCANCODE_PRINTABLE),
     (0x2E, 99, SCANCODE_MAKE OR SCANCODE_LETTER OR SCANCODE_PRINTABLE),
     (0x2F, 118, SCANCODE_MAKE OR SCANCODE_LETTER OR SCANCODE_PRINTABLE),
     (0x30, 98, SCANCODE_MAKE OR SCANCODE_LETTER OR SCANCODE_PRINTABLE),
     (0x31, 110, SCANCODE_MAKE OR SCANCODE_LETTER OR SCANCODE_PRINTABLE),
     (0x32, 109, SCANCODE_MAKE OR SCANCODE_LETTER OR SCANCODE_PRINTABLE),
     (0x33, 44, SCANCODE_MAKE OR SCANCODE_PRINTABLE),
     (0x34, 46, SCANCODE_MAKE OR SCANCODE_PRINTABLE),
     (0x35, 47, SCANCODE_MAKE OR SCANCODE_PRINTABLE),
     (0x39, 32, SCANCODE_MAKE OR SCANCODE_PRINTABLE),
     (0x82, 49, SCANCODE_BREAK OR SCANCODE_NUMBER OR SCANCODE_PRINTABLE),
     (0x83, 50, SCANCODE_BREAK OR SCANCODE_NUMBER OR SCANCODE_PRINTABLE),
     (0x84, 51, SCANCODE_BREAK OR SCANCODE_NUMBER OR SCANCODE_PRINTABLE),
     (0x85, 52, SCANCODE_BREAK OR SCANCODE_NUMBER OR SCANCODE_PRINTABLE),
     (0x86, 53, SCANCODE_BREAK OR SCANCODE_NUMBER OR SCANCODE_PRINTABLE),
     (0x87, 54, SCANCODE_BREAK OR SCANCODE_NUMBER OR SCANCODE_PRINTABLE),
     (0x88, 55, SCANCODE_BREAK OR SCANCODE_NUMBER OR SCANCODE_PRINTABLE),
     (0x89, 96, SCANCODE_BREAK OR SCANCODE_PRINTABLE),
     (0x89, 56, SCANCODE_BREAK OR SCANCODE_NUMBER OR SCANCODE_PRINTABLE),
     (0x8A, 57, SCANCODE_BREAK OR SCANCODE_NUMBER OR SCANCODE_PRINTABLE),
     (0x8B, 48, SCANCODE_BREAK OR SCANCODE_NUMBER OR SCANCODE_PRINTABLE),
     (0x8C, 45, SCANCODE_BREAK OR SCANCODE_PRINTABLE),
     (0x8D, 61, SCANCODE_BREAK OR SCANCODE_PRINTABLE),
     (0x8F, 9, SCANCODE_BREAK OR SCANCODE_PRINTABLE),
     (0x90, 113, SCANCODE_BREAK OR SCANCODE_LETTER OR SCANCODE_PRINTABLE),
     (0x91, 119, SCANCODE_BREAK OR SCANCODE_LETTER OR SCANCODE_PRINTABLE),
     (0x92, 101, SCANCODE_BREAK OR SCANCODE_LETTER OR SCANCODE_PRINTABLE),
     (0x93, 114, SCANCODE_BREAK OR SCANCODE_LETTER OR SCANCODE_PRINTABLE),
     (0x94, 116, SCANCODE_BREAK OR SCANCODE_LETTER OR SCANCODE_PRINTABLE),
     (0x95, 121, SCANCODE_BREAK OR SCANCODE_LETTER OR SCANCODE_PRINTABLE),
     (0x96, 117, SCANCODE_BREAK OR SCANCODE_LETTER OR SCANCODE_PRINTABLE),
     (0x97, 105, SCANCODE_BREAK OR SCANCODE_LETTER OR SCANCODE_PRINTABLE),
     (0x98, 111, SCANCODE_BREAK OR SCANCODE_LETTER OR SCANCODE_PRINTABLE),
     (0x99, 112, SCANCODE_BREAK OR SCANCODE_LETTER OR SCANCODE_PRINTABLE)]"

definition scancode_group_5 :: "(u8 \<times> u8 \<times> u8) list" where
  "scancode_group_5 =
    [(0x9A, 91, SCANCODE_BREAK OR SCANCODE_PRINTABLE),
     (0x9B, 93, SCANCODE_BREAK OR SCANCODE_PRINTABLE),
     (0x9C, 10, SCANCODE_BREAK OR SCANCODE_PRINTABLE),
     (0x9E, 97, SCANCODE_BREAK OR SCANCODE_LETTER OR SCANCODE_PRINTABLE),
     (0x9F, 115, SCANCODE_BREAK OR SCANCODE_LETTER OR SCANCODE_PRINTABLE),
     (0xA0, 100, SCANCODE_BREAK OR SCANCODE_LETTER OR SCANCODE_PRINTABLE),
     (0xA1, 102, SCANCODE_BREAK OR SCANCODE_LETTER OR SCANCODE_PRINTABLE),
     (0xA2, 103, SCANCODE_BREAK OR SCANCODE_LETTER OR SCANCODE_PRINTABLE),
     (0xA3, 104, SCANCODE_BREAK OR SCANCODE_LETTER OR SCANCODE_PRINTABLE),
     (0xA4, 106, SCANCODE_BREAK OR SCANCODE_LETTER OR SCANCODE_PRINTABLE),
     (0xA5, 107, SCANCODE_BREAK OR SCANCODE_LETTER OR SCANCODE_PRINTABLE),
     (0xA6, 108, SCANCODE_BREAK OR SCANCODE_LETTER OR SCANCODE_PRINTABLE),
     (0xA7, 59, SCANCODE_BREAK OR SCANCODE_PRINTABLE),
     (0xA8, 39, SCANCODE_BREAK OR SCANCODE_PRINTABLE),
     (0xAB, 92, SCANCODE_BREAK OR SCANCODE_PRINTABLE),
     (0xAC, 122, SCANCODE_BREAK OR SCANCODE_LETTER OR SCANCODE_PRINTABLE),
     (0xAD, 120, SCANCODE_BREAK OR SCANCODE_LETTER OR SCANCODE_PRINTABLE),
     (0xAE, 99, SCANCODE_BREAK OR SCANCODE_LETTER OR SCANCODE_PRINTABLE),
     (0xAF, 118, SCANCODE_BREAK OR SCANCODE_LETTER OR SCANCODE_PRINTABLE),
     (0xB0, 98, SCANCODE_BREAK OR SCANCODE_LETTER OR SCANCODE_PRINTABLE),
     (0xB1, 110, SCANCODE_BREAK OR SCANCODE_LETTER OR SCANCODE_PRINTABLE),
     (0xB2, 109, SCANCODE_BREAK OR SCANCODE_LETTER OR SCANCODE_PRINTABLE),
     (0xB3, 44, SCANCODE_BREAK OR SCANCODE_PRINTABLE),
     (0xB4, 46, SCANCODE_BREAK OR SCANCODE_PRINTABLE),
     (0xB5, 47, SCANCODE_BREAK OR SCANCODE_PRINTABLE),
     (0xB9, 32, SCANCODE_BREAK OR SCANCODE_PRINTABLE)]"

definition scancode_assignments :: "(u8 \<times> u8 \<times> u8) list" where
  "scancode_assignments = scancode_group_1 @ scancode_group_2 @ scancode_group_3 @ scancode_group_4 @ scancode_group_5"

text \<open>Each entry has its two fields assigned; entries never assigned stay zero.\<close>

definition assign_scancode :: "u8 \<times> u8 \<times> u8 \<Rightarrow> (u8 \<Rightarrow> scancode) \<Rightarrow> (u8 \<Rightarrow> scancode)" where
  "assign_scancode = (\<lambda>(i, r, f) tab.
     let tab = tab(i := (tab i)\<lparr>result := r\<rparr>) in tab(i := (tab i)\<lparr>scflags := f\<rparr>))"

definition init_scancode_table :: "'a scancodes_scheme \<Rightarrow> 'a scancodes_scheme" where
  "init_scancode_table s =
     (let s = s\<lparr>non_alpha_shift_table := (\<lambda>_. 0)\<rparr>;
          s = s\<lparr>non_alpha_shift_table := fold (\<lambda>(i, v) tab. tab(i := v)) shift_assignments (non_alpha_shift_table s)\<rparr>
      in s\<lparr>scancode_table := fold assign_scancode scancode_assignments (scancode_table s)\<rparr>)"

section \<open>What the tables hold\<close>

lemma fold_assign:
  "fold assign_scancode xs tab i =
     (case map_of (rev xs) i of None \<Rightarrow> tab i
      | Some (r, f) \<Rightarrow> (tab i)\<lparr>result := r, scflags := f\<rparr>)"
  by (induction xs arbitrary: tab)
    (auto simp: assign_scancode_def Let_def map_add_def split: option.splits)

definition scancode_of :: "u8 \<Rightarrow> (u8 \<times> u8) option" where
  "scancode_of = map_of (rev scancode_assignments)"

lemma table_entry:
  "scancode_table (init_scancode_table s) i =
     (case scancode_of i of None \<Rightarrow> scancode_table s i
      | Some (r, f) \<Rightarrow> (scancode_table s i)\<lparr>result := r, scflags := f\<rparr>)"
  by (simp add: init_scancode_table_def Let_def fold_assign scancode_of_def)

text \<open>
  Every printable entry stands for a character that is not NUL, and letters are the
  lower-case letters, so that subtracting 32 gives the capital.
\<close>

definition entry_sound :: "u8 \<times> u8 \<times> u8 \<Rightarrow> bool" where
  "entry_sound = (\<lambda>(i, r, f).
     (f AND SCANCODE_PRINTABLE \<noteq> 0 \<longrightarrow> r \<noteq> 0) \<and>
     (f AND SCANCODE_LETTER \<noteq> 0 \<longrightarrow> f AND SCANCODE_PRINTABLE \<noteq> 0 \<and> 97 \<le> r \<and> r \<le> 122))"

lemma entries_sound: "list_all entry_sound scancode_assignments"
  by code_simp

lemma scancode_of_sound: "scancode_of i = Some (r, f) \<Longrightarrow> entry_sound (i, r, f)"
proof -
  assume "scancode_of i = Some (r, f)"
  then have "(i, r, f) \<in> set scancode_assignments" by (auto simp: scancode_of_def dest: map_of_SomeD)
  then show ?thesis using entries_sound by (simp add: list_all_iff)
qed

lemma shift_table_values: "list_all (\<lambda>(i, v). v \<noteq> 0) shift_assignments"
  by code_simp

end
