(* ===== verification/Process.thy ===== *)
theory Process
  imports Scancodes
begin

text \<open>
  The state of processes and terminals: process control blocks, file descriptors, the
  task state segment's stack pointer and the table of terminals, from
  \<^verbatim>\<open>student-distrib/syscalls.h\<close>, \<^verbatim>\<open>devices/keyboard.h\<close> and
  \<^verbatim>\<open>scheduling.c\<close>.

  The control block of process \<open>pid\<close> lies at the bottom of its kernel stack, at
  \<open>0x800000 - (pid + 1) * 0x2000\<close>; \<open>pcbs\<close> is the heap of these blocks, indexed by
  their address. A pointer to a jump table of file operations is \<open>None\<close> for NULL.
\<close>

section \<open>Data\<close>

datatype fops = rtc_table | terminal_table | regular_file_table | directory_table

record file_info =
  fops_jmp_table :: "fops option"
  fd_inode :: u32
  position :: int
  fd_flags :: int

record pcb =
  fd_array :: "nat \<Rightarrow> file_info"
  ret_val :: u32
  args :: u32
  parentPCB :: u32
  pcb_esp0 :: u32
  pcb_eip :: u32
  esp_k :: u32
  ebp_k :: u32
  pcb_eflags :: u32
  pcb_flags :: u32
  pid :: int
  owned_by_terminal :: u8

record terminal =
  t_screen_x :: int
  t_screen_y :: int
  stdin :: "u8 list"
  stdin_index :: int
  allowed_to_read :: int
  read_waiting :: int
  t_pid :: u8

text \<open>
  The local variables of an activation of \<^verbatim>\<open>internal_execute\<close> that are still needed after
  the started program halts. They stay on the kernel stack; the frame is found again by its
  base pointer.
\<close>

record exec_frame =
  fr_pid :: int
  fr_pcb_child :: u32
  fr_interrupt_flags :: u32

record kernel = scancodes +
  pcbs :: "u32 \<Rightarrow> pcb"
  tss_esp0 :: u32
  frames :: "u32 \<Rightarrow> exec_frame"
  terminals :: "nat \<Rightarrow> terminal"
  terminal_state :: u8
  terminals_launched :: u8
  keyboard_state :: u8
  curr_back_attribute :: int

abbreviation (input) MASK_8KB_ALIGNED :: u32 where "MASK_8KB_ALIGNED \<equiv> 0xFFFFE000"
abbreviation (input) KERNEL_STACK_START :: u32 where "KERNEL_STACK_START \<equiv> 0x800000"
abbreviation (input) KERNEL_PID :: int where "KERNEL_PID \<equiv> -1"
abbreviation (input) USER_EXECUTE :: u32 where "USER_EXECUTE \<equiv> 0"
abbreviation (input) FIRST_TERM_SHELL :: u32 where "FIRST_TERM_SHELL \<equiv> 1"
abbreviation (input) IN_INTERRUPT_FLAG :: u32 where "IN_INTERRUPT_FLAG \<equiv> 2"
abbreviation (input) ISOLATE_BIT_0 :: int where "ISOLATE_BIT_0 \<equiv> 1"
abbreviation (input) KEYBOARD_BUFF_SIZE :: nat where "KEYBOARD_BUFF_SIZE \<equiv> 128"

section \<open>The current process\<close>

definition current_pcb :: "'a kernel_scheme \<Rightarrow> u32" where
  "current_pcb s = (tss_esp0 s - 1) AND MASK_8KB_ALIGNED"

definition pcb_address :: "int \<Rightarrow> u32" where
  "pcb_address p = KERNEL_STACK_START - (of_int p + 1) * LITERAL_8KB"

definition kernel_stack :: "int \<Rightarrow> u32" where
  "kernel_stack p = KERNEL_STACK_START - of_int p * LITERAL_8KB"

definition upd_pcb :: "u32 \<Rightarrow> (pcb \<Rightarrow> pcb) \<Rightarrow> 'a kernel_scheme \<Rightarrow> 'a kernel_scheme" where
  "upd_pcb a f s = s\<lparr>pcbs := (pcbs s)(a := f (pcbs s a))\<rparr>"

definition upd_fd :: "u32 \<Rightarrow> nat \<Rightarrow> (file_info \<Rightarrow> file_info) \<Rightarrow> 'a kernel_scheme \<Rightarrow> 'a kernel_scheme" where
  "upd_fd a i f = upd_pcb a (\<lambda>p. p\<lparr>fd_array := (fd_array p)(i := f (fd_array p i))\<rparr>)"

definition upd_terminal :: "nat \<Rightarrow> (terminal \<Rightarrow> terminal) \<Rightarrow> 'a kernel_scheme \<Rightarrow> 'a kernel_scheme" where
  "upd_terminal i f s = s\<lparr>terminals := (terminals s)(i := f (terminals s i))\<rparr>"

definition get_terminal_state :: "'a kernel_scheme \<Rightarrow> u8" where
  "get_terminal_state s = terminal_state s"

definition get_launched_terminals :: "'a kernel_scheme \<Rightarrow> u8" where
  "get_launched_terminals s = terminals_launched s"

definition in_hardware_int :: "'a kernel_scheme \<Rightarrow> bool" where
  "in_hardware_int s \<longleftrightarrow> pcb_flags (pcbs s (current_pcb s)) AND IN_INTERRUPT_FLAG \<noteq> 0"

definition save_process_context :: "u32 \<Rightarrow> u32 \<Rightarrow> u32 \<Rightarrow> 'a kernel_scheme \<Rightarrow> 'a kernel_scheme" where
  "save_process_context eip esp ebp s =
     upd_pcb (current_pcb s)
       (\<lambda>p. p\<lparr>pcb_eip := eip, esp_k := esp, ebp_k := ebp, pcb_eflags := get_flags s\<rparr>) s"

section \<open>Stacks and control blocks\<close>

text \<open>The stack pointer of a process leads back to its own control block.\<close>

lemma six_pids: "0 \<le> p \<Longrightarrow> p < 6 \<Longrightarrow> p \<in> {0, 1, 2, 3, 4, 5 :: int}"
  by auto

lemma kernel_stack_pcb:
  "0 \<le> p \<Longrightarrow> p < 6 \<Longrightarrow> (kernel_stack p - 1) AND 0xFFFFE000 = pcb_address p"
  by (drule (1) six_pids) (auto simp: kernel_stack_def pcb_address_def)

lemma pcb_address_inject:
  "0 \<le> p \<Longrightarrow> p < 6 \<Longrightarrow> 0 \<le> q \<Longrightarrow> q < 6 \<Longrightarrow> pcb_address p = pcb_address q \<longleftrightarrow> p = q"
  by (drule (1) six_pids, drule (1) six_pids) (auto simp: pcb_address_def)

lemma upd_pcb_sel [simp]:
  "pcbs (upd_pcb a f s) = (pcbs s)(a := f (pcbs s a))" "tss_esp0 (upd_pcb a f s) = tss_esp0 s"
  "terminals (upd_pcb a f s) = terminals s" "frames (upd_pcb a f s) = frames s"
  "terminal_state (upd_pcb a f s) = terminal_state s" "terminals_launched (upd_pcb a f s) = terminals_launched s"
  "keyboard_state (upd_pcb a f s) = keyboard_state s"
  by (simp_all add: upd_pcb_def)

lemma upd_terminal_sel [simp]:
  "terminals (upd_terminal i g s) = (terminals s)(i := g (terminals s i))"
  "pcbs (upd_terminal i g s) = pcbs s" "tss_esp0 (upd_terminal i g s) = tss_esp0 s"
  "frames (upd_terminal i g s) = frames s" "terminal_state (upd_terminal i g s) = terminal_state s"
  "terminals_launched (upd_terminal i g s) = terminals_launched s"
  "keyboard_state (upd_terminal i g s) = keyboard_state s"
  by (simp_all add: upd_terminal_def)

lemma upd_base_sel [simp]:
  "ram (upd_pcb a f s) = ram s" "xlat (upd_pcb a f s) = xlat s" "io_log (upd_pcb a f s) = io_log s"
  "eflags (upd_pcb a f s) = eflags s" "pid_avail (upd_pcb a f s) = pid_avail s"
  "ptmem (upd_pcb a f s) = ptmem s" "cr3 (upd_pcb a f s) = cr3 s"
  "ram (upd_terminal i g s) = ram s" "xlat (upd_terminal i g s) = xlat s"
  "io_log (upd_terminal i g s) = io_log s" "eflags (upd_terminal i g s) = eflags s"
  "pid_avail (upd_terminal i g s) = pid_avail s" "ptmem (upd_terminal i g s) = ptmem s"
  "cr3 (upd_terminal i g s) = cr3 s"
  by (simp_all add: upd_pcb_def upd_terminal_def)

lemma current_pcb_upd [simp]:
  "current_pcb (upd_pcb a f s) = current_pcb s" "current_pcb (upd_terminal i g s) = current_pcb s"
  by (simp_all add: current_pcb_def)

end
