(* ===== verification/Files.thy ===== *)
theory Files
  imports Process
begin

text \<open>
  Operations on open files and directories, from \<^verbatim>\<open>student-distrib/filesystem.c\<close>: they
  find the process control block through the task state segment and keep the position in
  the file descriptor.
\<close>

section \<open>Operations\<close>

definition open_file :: "u32 \<Rightarrow> 'a kernel_scheme \<Rightarrow> int \<times> 'a kernel_scheme" where
  "open_file name s = (SUCCESS, s)"

definition close_file :: "int \<Rightarrow> 'a kernel_scheme \<Rightarrow> int \<times> 'a kernel_scheme" where
  "close_file fd s = (SUCCESS, s)"

definition read_file :: "int \<Rightarrow> u32 \<Rightarrow> int \<Rightarrow> 'a kernel_scheme \<Rightarrow> int \<times> 'a kernel_scheme" where
  "read_file fd buf nbytes s =
     (let p = current_pcb s;
          pos = position (fd_array (pcbs s p) (nat fd));
          file_inode_ptr = fd_inode (fd_array (pcbs s p) (nat fd));
          inode_num = get_inode_num file_inode_ptr s;
          (res, s) = read_data inode_num (of_int pos) buf (of_int nbytes) s
      in if res > 0
         then (res, upd_fd p (nat fd) (\<lambda>f. f\<lparr>position := pos + res\<rparr>) s)
         else (res, s))"

definition write_file :: "int \<Rightarrow> u32 \<Rightarrow> int \<Rightarrow> 'a kernel_scheme \<Rightarrow> int \<times> 'a kernel_scheme" where
  "write_file fd buf nbytes s = (FAILURE, s)"

definition open_directory :: "u32 \<Rightarrow> 'a kernel_scheme \<Rightarrow> int \<times> 'a kernel_scheme" where
  "open_directory name s = (SUCCESS, s)"

definition close_directory :: "int \<Rightarrow> 'a kernel_scheme \<Rightarrow> int \<times> 'a kernel_scheme" where
  "close_directory fd s = (0, s)"

text \<open>The name length is found by scanning the buffer, which may not end: hence the option.\<close>

definition read_directory :: "int \<Rightarrow> u32 \<Rightarrow> int \<Rightarrow> 'a kernel_scheme \<Rightarrow> (int \<times> 'a kernel_scheme) option" where
  "read_directory fd buf nbytes s =
     (let p = current_pcb s;
          entry_count = sint (boot_direntries s);
          ls_count = position (fd_array (pcbs s p) (nat fd))
      in if ls_count \<ge> entry_count then Some (0, s)
         else
           let s = strncpy buf (boot_file s (of_int ls_count)) (of_int nbytes) s;
               s = upd_fd p (nat fd) (\<lambda>f. f\<lparr>position := ls_count + 1\<rparr>) s
           in if load s (buf + 31) \<noteq> 0 then Some (32, s)
              else case strlen s buf of None \<Rightarrow> None | Some n \<Rightarrow> Some (sint n, s))"

definition write_directory :: "int \<Rightarrow> u32 \<Rightarrow> int \<Rightarrow> 'a kernel_scheme \<Rightarrow> int \<times> 'a kernel_scheme" where
  "write_directory fd buf nbytes s = (FAILURE, s)"

section \<open>Frame facts\<close>

lemma kernel_store [mem_simps, simp]:
  "pcbs (store a v s) = pcbs s" "tss_esp0 (store a v s) = tss_esp0 s" "frames (store a v s) = frames s"
  "terminals (store a v s) = terminals s" "terminal_state (store a v s) = terminal_state s"
  "terminals_launched (store a v s) = terminals_launched s" "keyboard_state (store a v s) = keyboard_state s"
  "curr_back_attribute (store a v s) = curr_back_attribute s"
  by (simp_all add: store_def)

lemma kernel_write [mem_simps, simp]:
  "pcbs (write_bytes a bs s) = pcbs s" "tss_esp0 (write_bytes a bs s) = tss_esp0 s"
  "frames (write_bytes a bs s) = frames s"
  "terminals (write_bytes a bs s) = terminals s" "terminal_state (write_bytes a bs s) = terminal_state s"
  "terminals_launched (write_bytes a bs s) = terminals_launched s"
  "keyboard_state (write_bytes a bs s) = keyboard_state s"
  "curr_back_attribute (write_bytes a bs s) = curr_back_attribute s"
  by (induction bs arbitrary: a s) simp_all

lemma sched_write [mem_simps, simp]:
  "pid_avail (store a v s) = pid_avail s" "terminal_being_serviced (store a v s) = terminal_being_serviced s"
  "pid_avail (write_bytes a bs s) = pid_avail s"
  "terminal_being_serviced (write_bytes a bs s) = terminal_being_serviced s"
proof -
  show st: "pid_avail (store a v s) = pid_avail s"
    "terminal_being_serviced (store a v s) = terminal_being_serviced s" for a v and s :: "'b sched_scheme"
    by (simp_all add: store_def)
  show "pid_avail (write_bytes a bs s) = pid_avail s"
    "terminal_being_serviced (write_bytes a bs s) = terminal_being_serviced s"
    by (induction bs arbitrary: a s) (simp_all add: st)
qed

lemma paging_write [mem_simps, simp]:
  "ptmem (store a v s) = ptmem s" "cr3 (store a v s) = cr3 s"
  "ptmem (write_bytes a bs s) = ptmem s" "cr3 (write_bytes a bs s) = cr3 s"
proof -
  show st: "ptmem (store a v s) = ptmem s" "cr3 (store a v s) = cr3 s" for a v and s :: "'b paging_scheme"
    by (simp_all add: store_def)
  show "ptmem (write_bytes a bs s) = ptmem s" "cr3 (write_bytes a bs s) = cr3 s"
    by (induction bs arbitrary: a s) (simp_all add: st)
qed

lemma current_pcb_write [simp]:
  "current_pcb (store a v s) = current_pcb s" "current_pcb (write_bytes a bs s) = current_pcb s"
  by (simp_all add: current_pcb_def)

section \<open>Reading a file in pieces\<close>

text \<open>Descriptor \<open>fd\<close> of the current process is open on index node \<open>ino\<close> at \<open>pos\<close>.\<close>

definition open_at :: "'a kernel_scheme \<Rightarrow> nat \<Rightarrow> u32 \<Rightarrow> nat \<Rightarrow> bool" where
  "open_at s fd ino pos \<longleftrightarrow>
     fd_inode (fd_array (pcbs s (current_pcb s)) fd) = get_inode_ptr ino s \<and>
     position (fd_array (pcbs s (current_pcb s)) fd) = int pos"

definition file_ok :: "'a kernel_scheme \<Rightarrow> u32 \<Rightarrow> bool" where
  "file_ok s ino \<longleftrightarrow> mounted s \<and> inode_wf s ino \<and> ino < 128"

lemma upd_fd_sel [simp]:
  "pcbs (upd_fd a i f s) = (pcbs s)(a := (pcbs s a)\<lparr>fd_array := (fd_array (pcbs s a))(i := f (fd_array (pcbs s a) i))\<rparr>)"
  "tss_esp0 (upd_fd a i f s) = tss_esp0 s" "ram (upd_fd a i f s) = ram s" "xlat (upd_fd a i f s) = xlat s"
  "current_pcb (upd_fd a i f s) = current_pcb s" "terminals (upd_fd a i f s) = terminals s"
  "pid_avail (upd_fd a i f s) = pid_avail s" "ptmem (upd_fd a i f s) = ptmem s" "cr3 (upd_fd a i f s) = cr3 s"
  "terminal_state (upd_fd a i f s) = terminal_state s" "frames (upd_fd a i f s) = frames s"
  "eflags (upd_fd a i f s) = eflags s" "io_log (upd_fd a i f s) = io_log s"
  by (simp_all add: upd_fd_def)

lemma upd_fd_same: "f (fd_array (pcbs s a) i) = fd_array (pcbs s a) i \<Longrightarrow> upd_fd a i f s = s"
  by (simp add: upd_fd_def upd_pcb_def)

lemma int_of_nat_u32: "of_int (int n) = (of_nat n :: u32)"
  by simp

lemma read_file_eq:
  assumes "file_ok s ino" "open_at s fd ino pos" "pos < 4294967296" "c < 4294967296"
    and "n = min c (unat (inode_length s ino) - pos)"
    and "apart s buf n (bootblock s) (image_size s)"
  shows "read_file (int fd) buf (int c) s =
    (int n, upd_fd (current_pcb s) fd (\<lambda>f. f\<lparr>position := int (pos + n)\<rparr>)
              (write_bytes buf (file_bytes s ino pos n) s))"
proof -
  have ino: "get_inode_num (get_inode_ptr ino s) s = ino"
    using assms(1) by (intro inode_ptr_num) (auto simp: file_ok_def inode_wf_def)
  have "read_data ino (of_nat pos) buf (of_nat c) s = (int n, write_bytes buf (file_bytes s ino pos n) s)"
    using read_data_eq [of s ino n "of_nat c" "of_nat pos" buf] assms by (simp add: file_ok_def)
  moreover have "upd_fd (current_pcb s) fd (\<lambda>f. f\<lparr>position := int pos\<rparr>) s = s"
    using assms(2) by (intro upd_fd_same) (simp add: open_at_def)
  ultimately show ?thesis
    using assms(2) ino by (auto simp: read_file_def open_at_def Let_def file_bytes_def)
qed

text \<open>
  A program that reads until the end of the file: what it receives, piece after piece.
\<close>

fun read_pieces :: "nat \<Rightarrow> int \<Rightarrow> u32 \<Rightarrow> int \<Rightarrow> 'a kernel_scheme \<Rightarrow> u8 list \<times> 'a kernel_scheme" where
  "read_pieces 0 fd buf c s = ([], s)"
| "read_pieces (Suc k) fd buf c s =
     (let (n, s) = read_file fd buf c s
      in if n \<le> 0 then ([], s)
         else let piece = read_bytes s buf (nat n); (rest, s) = read_pieces k fd buf c s
              in (piece @ rest, s))"

lemma same_image_kernel_upd:
  "same_image s t \<Longrightarrow> same_image s (upd_fd a i f t)"
  by (simp add: same_image_def load_def upd_fd_def upd_pcb_def)

lemma same_image_trans:
  assumes "same_image s t" "same_image t u"
  shows "same_image s u"
  using assms same_image_boot [OF assms(1)] by (simp add: same_image_def image_size_def)

lemma same_image_wf:
  assumes "same_image s t" "mounted s" "inode_wf s ino"
  shows "inode_wf t ino" "mounted t" "inode_length t ino = inode_length s ino"
    "p + n \<le> unat (inode_length s ino) \<Longrightarrow> file_bytes t ino p n = file_bytes s ino p n"
proof -
  have ino: "ino < boot_inodes s" using assms(3) by (simp add: inode_wf_def)
  show len: "inode_length t ino = inode_length s ino" by (rule same_image_inode(1) [OF assms(1,2) ino])
  show "mounted t" using assms(1,2) same_image_boot [OF assms(1)] by (auto simp: mounted_def same_image_def)
  have "inode_block t ino (of_nat b) = inode_block s ino (of_nat b)"
    if "b \<le> (unat (inode_length s ino) - 1) div 4096" for b
  proof (rule same_image_inode(2) [OF assms(1,2) ino])
    have "unat (inode_length s ino) \<le> 1023 * 4096" using assms(3) by (simp add: inode_wf_def)
    then have "unat (inode_length s ino) - 1 < 1023 * 4096" by linarith
    then have "(unat (inode_length s ino) - 1) div 4096 < 1023" by (rule less_mult_imp_div_less)
    then show "b \<le> 1022" using that by linarith
  qed
  then show "inode_wf t ino"
    using assms(3) by (simp add: inode_wf_def len same_image_boot [OF assms(1)] bad_block_def)
  show "file_bytes t ino p n = file_bytes s ino p n" if "p + n \<le> unat (inode_length s ino)"
  proof (rule nth_equalityI)
    fix i assume "i < length (file_bytes t ino p n)"
    then have "p + i < unat (inode_length s ino)" using that by simp
    from same_image_file [OF assms this] \<open>i < length _\<close>
    show "file_bytes t ino p n ! i = file_bytes s ino p n ! i"
      by (simp add: data_addr_def del: of_nat_add)
  qed simp
qed

lemma file_bytes_append: "file_bytes s ino p (m + n) = file_bytes s ino p m @ file_bytes s ino (p + m) n"
  by (rule nth_equalityI) (auto simp: nth_append add.assoc)


lemma read_pieces_eq:
  assumes "file_ok s ino" "open_at s fd ino pos" "0 < c" "c < 2147483648" "pos < 4294967296"
    and "apart s buf c (bootblock s) (image_size s)" "spread s buf c"
  shows "fst (read_pieces k (int fd) buf (int c) s)
       = file_bytes s ino pos (min (k * c) (unat (inode_length s ino) - pos))"
  using assms(1,2,5-7)
proof (induction k arbitrary: s pos)
  case 0
  then show ?case by (simp add: file_bytes_def)
next
  case (Suc k)
  let ?L = "unat (inode_length s ino)"
  define n where "n = min c (?L - pos)"
  define t where "t = upd_fd (current_pcb s) fd (\<lambda>f. f\<lparr>position := int (pos + n)\<rparr>)
                        (write_bytes buf (file_bytes s ino pos n) s)"
  have rd: "read_file (int fd) buf (int c) s = (int n, t)"
    unfolding t_def using Suc.prems assms(4)
    by (intro read_file_eq [OF Suc.prems(1,2)]) (auto simp: n_def elim: apart_mono)
  have L: "?L \<le> 1023 * 4096" using Suc.prems(1) by (simp add: file_ok_def inode_wf_def)
  show ?case
  proof (cases "n = 0")
    case True
    then have "?L \<le> pos" using assms(3) by (auto simp: n_def min_def split: if_splits)
    then show ?thesis using rd True by (simp add: file_bytes_def)
  next
    case False
    then have lt: "pos < ?L" by (auto simp: n_def)
    have im: "same_image s t"
      unfolding t_def using Suc.prems(4)
      by (intro same_image_kernel_upd write_same_image) (auto simp: n_def elim: apart_mono)
    note wf = same_image_wf [OF im, of ino] and bt = same_image_boot [OF im]
    have ok: "file_ok t ino" using Suc.prems(1) wf(1,2) by (auto simp: file_ok_def)
    have op: "open_at t fd ino (pos + n)"
      using Suc.prems(2) im bt unfolding open_at_def get_inode_ptr_def same_image_def
      by (simp add: t_def)
    have ap: "apart t buf c (bootblock t) (image_size t)"
      using Suc.prems(4) im bt by (simp add: same_image_def image_size_def apart_def t_def)
    have sp: "spread t buf c" using Suc.prems(5) by (simp add: spread_def t_def)
    have pc: "read_bytes t buf n = file_bytes s ino pos n"
      using read_write_same [of s buf "file_bytes s ino pos n"] spread_mono [OF Suc.prems(5), of n]
      by (simp add: t_def read_bytes_def load_def n_def)
    have "fst (read_pieces k (int fd) buf (int c) t)
        = file_bytes t ino (pos + n) (min (k * c) (unat (inode_length t ino) - (pos + n)))"
      using L lt by (intro Suc.IH ok op ap sp) (simp add: n_def)
    also have "\<dots> = file_bytes s ino (pos + n) (min (k * c) (?L - (pos + n)))"
      using Suc.prems(1) wf(3,4) lt by (auto simp: file_ok_def n_def)
    finally have "fst (read_pieces (Suc k) (int fd) buf (int c) s)
        = file_bytes s ino pos n @ file_bytes s ino (pos + n) (min (k * c) (?L - (pos + n)))"
      using rd False pc by (simp add: Let_def case_prod_beta)
    also have "\<dots> = file_bytes s ino pos (n + min (k * c) (?L - (pos + n)))"
      by (rule file_bytes_append [symmetric])
    also have "n + min (k * c) (?L - (pos + n)) = min (Suc k * c) (?L - pos)"
      by (auto simp: n_def min_def)
    finally show ?thesis .
  qed
qed


section \<open>Listing a directory\<close>

definition padded_name :: "dentry \<Rightarrow> u8 list" where
  "padded_name d = dentry_name d @ replicate (32 - length (dentry_name d)) 0"

lemma length_directory: "length (directory s) = nat (sint (boot_direntries s))"
  by (simp add: directory_def)

lemma directory_nth:
  "i < length (directory s) \<Longrightarrow> dentry_name (directory s ! i) = field_text s (boot_file s (of_nat i)) 32"
  by (simp add: directory_def dentry_name_load)

lemma dentry_in_image:
  assumes "i < 63" "apart s buf n (bootblock s) (image_size s)"
  shows "apart s buf n (boot_file s (of_nat i)) 32"
  unfolding apart_def
proof (intro allI impI)
  fix k j :: nat assume k: "k < n" and j: "j < 32"
  have "64 + 64 * i + j < image_size s" using assms(1) j by (simp add: image_size_def)
  moreover have "boot_file s (of_nat i) + of_nat j = bootblock s + of_nat (64 + 64 * i + j)"
    by (simp add: boot_file_def)
  ultimately show "xlat s (buf + of_nat k) \<noteq> xlat s (boot_file s (of_nat i) + of_nat j)"
    using assms(2) k unfolding apart_def by metis
qed

lemma read_directory_eq:
  assumes "position (fd_array (pcbs s (current_pcb s)) fd) = int i"
    and "i < length (directory s)" "length (directory s) \<le> 63"
    and "apart s buf 32 (bootblock s) (image_size s)" "spread s buf 32"
  shows "read_directory (int fd) buf 32 s =
    Some (int (length (dentry_name (directory s ! i))),
      upd_fd (current_pcb s) fd (\<lambda>f. f\<lparr>position := int (Suc i)\<rparr>)
        (write_bytes buf (padded_name (directory s ! i)) s))"
proof -
  let ?d = "directory s ! i" and ?src = "boot_file s (of_nat i)"
  let ?nm = "dentry_name ?d"
  let ?t = "write_bytes buf (padded_name ?d) s"
  let ?u = "upd_fd (current_pcb s) fd (\<lambda>f. f\<lparr>position := int (Suc i)\<rparr>) ?t"
  have nm: "?nm = field_text s ?src 32" using assms(2) by (rule directory_nth)
  have le: "length ?nm \<le> 32" unfolding nm by (rule length_field_text)
  have nz: "0 \<notin> set ?nm" unfolding nm field_text_def by (auto dest: set_takeWhileD)
  have cp: "strncpy buf ?src 32 s = ?t"
    using strncpy_eq [of s buf 32 ?src] dentry_in_image [OF _ assms(4), of i] assms(2,3) nm
    by (simp add: padded_name_def Let_def)
  have ld: "load ?u (buf + of_nat k) = padded_name ?d ! k" if "k < 32" for k
  proof -
    have "load ?t (buf + of_nat k) = padded_name ?d ! k"
      using that assms(5) le by (intro load_write_nth) (simp_all add: padded_name_def)
    then show ?thesis by (simp add: load_def)
  qed
  have e: "int i + 1 = int (Suc i)" by simp
  have "\<not> sint (boot_direntries s) \<le> int i" using assms(2) by (simp add: length_directory)
  then have rd: "read_directory (int fd) buf 32 s =
      (if load ?u (buf + 31) \<noteq> 0 then Some (32, ?u)
       else case strlen ?u buf of None \<Rightarrow> None | Some n \<Rightarrow> Some (sint n, ?u))"
    using assms(1) cp unfolding e [symmetric] by (simp add: read_directory_def Let_def)
  show ?thesis
  proof (cases "length ?nm = 32")
    case True
    then have "padded_name ?d ! 31 \<in> set ?nm" by (simp add: padded_name_def)
    then have "load ?u (buf + 31) \<noteq> 0" using ld [of 31] nz by auto
    then show ?thesis using rd True by simp
  next
    case False
    then have lt: "length ?nm < 32" using le by simp
    then have "load ?u (buf + 31) = 0" using ld [of 31] by (simp add: padded_name_def nth_append)
    moreover have "cstr ?u buf ?nm"
      unfolding cstr_def
    proof (intro conjI nz)
      show "read_bytes ?u buf (length ?nm) = ?nm"
      proof (rule nth_equalityI)
        fix k assume "k < length (read_bytes ?u buf (length ?nm))"
        then have "k < length ?nm" by simp
        then show "read_bytes ?u buf (length ?nm) ! k = ?nm ! k"
          using ld [of k] lt by (simp add: padded_name_def nth_append)
      qed simp
      show "load ?u (buf + of_nat (length ?nm)) = 0"
        using lt ld [of "length ?nm"] by (simp add: padded_name_def nth_append)
    qed (use lt in simp)
    then have "strlen ?u buf = Some (of_nat (length ?nm))" by (rule strlen_cstr)
    moreover have "sint (of_nat (length ?nm) :: u32) = int (length ?nm)"
      using lt by (intro sint_of_nat_u32) simp
    ultimately show ?thesis using rd by simp
  qed
qed

lemma read_directory_end:
  "position (fd_array (pcbs s (current_pcb s)) fd) = int (length (directory s)) \<Longrightarrow>
     read_directory (int fd) buf nbytes s = Some (0, s)"
  by (simp add: read_directory_def length_directory)

end
