(* ===== verification/Terminal.thy ===== *)
theory Terminal
  imports Files
begin

text \<open>
  The terminal driver, from \<^verbatim>\<open>student-distrib/devices/keyboard.c\<close>: reading a line,
  printing, and switching the displayed terminal. The three terminals share one screen: the
  page at \<^verbatim>\<open>VIDEO\<close> shows the displayed terminal, and every terminal has a backing store
  in one of the three pages behind it.

  \<^verbatim>\<open>read_terminal\<close> waits for the keyboard handler; what interrupts do in the meantime is the
  argument \<open>env\<close> (see \<open>spin\<close>).
\<close>

section \<open>Operations\<close>

definition open_terminal :: "u32 \<Rightarrow> 'a kernel_scheme \<Rightarrow> int \<times> 'a kernel_scheme" where
  "open_terminal pathname s = (0, s)"

definition close_terminal :: "int \<Rightarrow> 'a kernel_scheme \<Rightarrow> int \<times> 'a kernel_scheme" where
  "close_terminal fd s = (0, s)"

text \<open>
  The copy loop tests the byte before the index; the byte at index 128, outside the array,
  does not change the outcome, because the index test then ends the loop.
\<close>

function copy_stdin :: "nat \<Rightarrow> u32 \<Rightarrow> nat \<Rightarrow> 'a kernel_scheme \<Rightarrow> nat \<times> 'a kernel_scheme" where
  "copy_stdin t buf i s =
     (if i < KEYBOARD_BUFF_SIZE \<and> stdin (terminals s t) ! i \<noteq> NULL_CHAR
      then copy_stdin t buf (Suc i) (store (buf + of_nat i) (stdin (terminals s t) ! i) s)
      else (i, s))"
  by pat_completeness auto
termination
  by (relation "measure (\<lambda>(t, buf, i, s). KEYBOARD_BUFF_SIZE - i)") auto

declare copy_stdin.simps [simp del]

definition flush_stdin :: "terminal \<Rightarrow> terminal" where
  "flush_stdin t = t\<lparr>stdin := replicate KEYBOARD_BUFF_SIZE NULL_CHAR, stdin_index := 0\<rparr>"

definition read_terminal ::
    "(nat \<Rightarrow> 'a kernel_scheme \<Rightarrow> 'a kernel_scheme) \<Rightarrow> int \<Rightarrow> u32 \<Rightarrow> int \<Rightarrow> 'a kernel_scheme
       \<Rightarrow> (int \<times> 'a kernel_scheme) option" where
  "read_terminal env fd buf nbytes s =
     (if fd \<noteq> STDIN then Some (ERROR, s)
      else
        let t = unat (get_terminal_of_current_process s)
        in if nbytes < 0 then Some (FAILURE, s)
           else case spin env (\<lambda>s. allowed_to_read (terminals s t) = 0) 0
                       (upd_terminal t (\<lambda>x. x\<lparr>read_waiting := 1\<rparr>) s) of
             None \<Rightarrow> None
           | Some s \<Rightarrow>
               (let (flags, s) = cli_and_save s;
                    (i, s) = copy_stdin t buf 0 s;
                    s = upd_terminal t flush_stdin s;
                    s = upd_terminal t (\<lambda>x. x\<lparr>allowed_to_read := 0, read_waiting := 0\<rparr>) s;
                    s = restore_flags flags s
                in Some (int i, s)))"

text \<open>
  The buffer of \<^verbatim>\<open>write_terminal\<close> is a function of the state and an index, as in \<open>put_t\<close>:
  memory behind an address, or a text of the kernel itself.
\<close>

definition write_terminal_from ::
    "int \<Rightarrow> ('a kernel_scheme \<Rightarrow> nat \<Rightarrow> u8) \<Rightarrow> int \<Rightarrow> 'a kernel_scheme \<Rightarrow> int \<times> 'a kernel_scheme" where
  "write_terminal_from fd buf nbytes s =
     (if fd \<noteq> STDOUT then (ERROR, s)
      else if nbytes < 0 then (FAILURE, s)
      else
        let (flags, s) = cli_and_save s;
            shown = unat (terminal_state s);
            s = upd_terminal shown (\<lambda>t. t\<lparr>t_screen_x := get_screen_x s, t_screen_y := get_screen_y s\<rparr>) s;
            cur = unat (get_terminal_of_current_process s);
            s = set_screen_x_y (t_screen_x (terminals s cur)) (t_screen_y (terminals s cur)) s;
            (_, s) = put_t buf (of_int nbytes) s;
            s = upd_terminal cur (\<lambda>t. t\<lparr>t_screen_x := get_screen_x s, t_screen_y := get_screen_y s\<rparr>) s;
            s = set_screen_x_y (t_screen_x (terminals s shown)) (t_screen_y (terminals s shown)) s;
            s = set_cursor_location (t_screen_x (terminals s shown)) (t_screen_y (terminals s shown)) s
        in (nbytes, restore_flags flags s))"

definition write_terminal :: "int \<Rightarrow> u32 \<Rightarrow> int \<Rightarrow> 'a kernel_scheme \<Rightarrow> int \<times> 'a kernel_scheme" where
  "write_terminal fd buf nbytes s = write_terminal_from fd (at_addr buf) nbytes s"

definition remap_video :: "layout \<Rightarrow> int \<Rightarrow> int \<Rightarrow> nat \<Rightarrow> 'a kernel_scheme \<Rightarrow> 'a kernel_scheme" where
  "remap_video lay from to i s =
     (if is_pid_used (int i) s = 0 then s
      else
        let cur_pcb = pcb_address (int i);
            s = (if uint (owned_by_terminal (pcbs s cur_pcb)) = from
                 then change_table_mapping (get_base_page_table_for_pid lay (int i)) VIDEO
                        (VIDEO + of_int (from + 1) * LITERAL_4KB) s
                 else s)
        in if uint (owned_by_terminal (pcbs s cur_pcb)) = to
           then change_table_mapping (get_base_page_table_for_pid lay (int i)) VIDEO VIDEO s
           else s)"

definition change_terminal_state :: "layout \<Rightarrow> int \<Rightarrow> int \<Rightarrow> 'a kernel_scheme \<Rightarrow> 'a kernel_scheme" where
  "change_terminal_state lay from to s =
     (let s = memcpy (VIDEO + of_int (from + 1) * LITERAL_4KB) VIDEO LITERAL_4KB s;
          s = memcpy VIDEO (VIDEO + of_int (to + 1) * LITERAL_4KB) LITERAL_4KB s;
          s = upd_terminal (nat from) (\<lambda>t. t\<lparr>t_screen_x := get_screen_x s, t_screen_y := get_screen_y s\<rparr>) s;
          s = set_screen_x_y (t_screen_x (terminals s (nat to))) (t_screen_y (terminals s (nat to))) s;
          s = set_cursor_location (t_screen_x (terminals s (nat to))) (t_screen_y (terminals s (nat to))) s;
          s = for_loop 0 MAX_NUM_PROCS (remap_video lay from to) s;
          s = vm_flush_page VIDEO s
      in s\<lparr>terminal_state := of_int to\<rparr>)"

section \<open>Reading a line\<close>

text \<open>The line in the buffer: everything up to the first NUL.\<close>

definition line_of :: "terminal \<Rightarrow> u8 list" where
  "line_of t = takeWhile (\<lambda>b. b \<noteq> 0) (stdin t)"

definition terminal_ok :: "terminal \<Rightarrow> bool" where
  "terminal_ok t \<longleftrightarrow> length (stdin t) = KEYBOARD_BUFF_SIZE"

lemma line_nth:
  assumes "i < length (line_of t)"
  shows "stdin t ! i = line_of t ! i \<and> line_of t ! i \<noteq> 0"
proof -
  have "line_of t ! i \<in> set (line_of t)" using assms by (rule nth_mem)
  then have "line_of t ! i \<noteq> 0" unfolding line_of_def by (auto dest: set_takeWhileD)
  then show ?thesis using assms by (simp add: line_of_def takeWhile_nth)
qed

lemma line_stop: "length (line_of t) < length (stdin t) \<Longrightarrow> stdin t ! length (line_of t) = 0"
  unfolding line_of_def using nth_length_takeWhile by blast

lemma copy_stdin_eq:
  assumes "terminal_ok (terminals s t)" "i \<le> length (line_of (terminals s t))"
  shows "copy_stdin t buf i (write_bytes buf (take i (line_of (terminals s t))) s)
       = (length (line_of (terminals s t)), write_bytes buf (line_of (terminals s t)) s)"
  using assms(2)
proof (induction "length (line_of (terminals s t)) - i" arbitrary: i)
  case 0
  let ?l = "line_of (terminals s t)"
  have i: "i = length ?l" using 0 by simp
  have "\<not> (i < 128 \<and> stdin (terminals s t) ! i \<noteq> 0)"
    using line_stop [of "terminals s t"] assms(1) i by (auto simp: terminal_ok_def)
  then show ?case using i by (subst copy_stdin.simps) auto
next
  case (Suc k)
  let ?l = "line_of (terminals s t)"
  have i: "i < length ?l" using Suc.hyps(2) by simp
  have "length ?l \<le> 128" using assms(1) length_takeWhile_le unfolding line_of_def terminal_ok_def by metis
  then have "i < 128" using i by simp
  moreover have "copy_stdin t buf (Suc i) (write_bytes buf (take (Suc i) ?l) s)
      = (length ?l, write_bytes buf ?l s)"
    using Suc.hyps(2) i by (intro Suc.hyps(1)) auto
  ultimately show ?case
    using i line_nth [OF i] write_take_Suc [OF i, of buf s] by (subst copy_stdin.simps) auto
qed


lemma write_bytes_eflags:
  "write_bytes a bs (s\<lparr>eflags := f\<rparr>) = (write_bytes a bs s)\<lparr>eflags := f\<rparr>"
proof (induction bs arbitrary: a s)
  case (Cons b bs)
  have "store a b (s\<lparr>eflags := f\<rparr>) = (store a b s)\<lparr>eflags := f\<rparr>" by (simp add: store_def)
  then show ?case using Cons by simp
qed simp

text \<open>
  Once the keyboard handler has allowed it, the call copies the line, empties the buffer
  and leaves the interrupt flag as it was.
\<close>

lemma read_terminal_eq:
  assumes "spin env (\<lambda>s. allowed_to_read (terminals s t) = 0) 0
             (upd_terminal t (\<lambda>x. x\<lparr>read_waiting := 1\<rparr>) s) = Some w"
    and "t = unat (terminal_being_serviced s)" "0 \<le> nbytes" "terminal_ok (terminals w t)"
  shows "read_terminal env STDIN buf nbytes s =
    Some (int (length (line_of (terminals w t))),
      upd_terminal t (\<lambda>x. (flush_stdin x)\<lparr>allowed_to_read := 0, read_waiting := 0\<rparr>)
        (write_bytes buf (line_of (terminals w t)) w))"
proof -
  let ?c = "w\<lparr>eflags := eflags w AND NOT 0x200\<rparr>" and ?l = "line_of (terminals w t)"
  have "copy_stdin t buf 0 ?c = (length ?l, write_bytes buf ?l ?c)"
    using copy_stdin_eq [of ?c t 0 buf] assms(4) by simp
  then have "read_terminal env STDIN buf nbytes s = Some (int (length ?l),
      restore_flags (eflags w) (upd_terminal t (\<lambda>x. x\<lparr>allowed_to_read := 0, read_waiting := 0\<rparr>)
        (upd_terminal t flush_stdin (write_bytes buf ?l ?c))))"
    using assms by (simp add: read_terminal_def get_terminal_of_current_process_def Let_def
        cli_and_save_def cli_def)
  also have "restore_flags (eflags w) (upd_terminal t (\<lambda>x. x\<lparr>allowed_to_read := 0, read_waiting := 0\<rparr>)
        (upd_terminal t flush_stdin (write_bytes buf ?l ?c)))
      = upd_terminal t (\<lambda>x. (flush_stdin x)\<lparr>allowed_to_read := 0, read_waiting := 0\<rparr>) (write_bytes buf ?l w)"
    using write_bytes_frame(3) [of buf ?l w]
    by (simp add: write_bytes_eflags upd_terminal_def restore_flags_def)
  finally show ?thesis .
qed

lemma read_terminal_returns:
  assumes "0 \<le> nbytes"
  shows "(\<exists>r. read_terminal env STDIN buf nbytes s = Some r) \<longleftrightarrow>
    (\<exists>n. allowed_to_read (terminals (after env 0 n
       (upd_terminal (unat (terminal_being_serviced s)) (\<lambda>x. x\<lparr>read_waiting := 1\<rparr>) s))
       (unat (terminal_being_serviced s))) \<noteq> 0)"
  using assms spin_iff [of env "\<lambda>s'. allowed_to_read (terminals s' (unat (terminal_being_serviced s))) = 0" 0
      "upd_terminal (unat (terminal_being_serviced s)) (\<lambda>x. x\<lparr>read_waiting := 1\<rparr>) s"]
  by (auto simp: read_terminal_def get_terminal_of_current_process_def Let_def case_prod_beta
      split: option.splits)

section \<open>Printing\<close>

text \<open>
  The abstract terminal of terminal \<open>i\<close>, as a process that runs on it sees it: its cells are
  behind \<^verbatim>\<open>VIDEO\<close>, its cursor is on the screen when it is displayed and saved otherwise.
\<close>

definition cursor_of :: "nat \<Rightarrow> 'a kernel_scheme \<Rightarrow> int \<times> int" where
  "cursor_of i s = (if i = unat (terminal_state s) then (screen_x s, screen_y s)
     else (t_screen_x (terminals s i), t_screen_y (terminals s i)))"

definition term_vt :: "nat \<Rightarrow> 'a kernel_scheme \<Rightarrow> vterm" where
  "term_vt i s = \<lparr>cells = read_bytes s VIDEO 4000, cx = fst (cursor_of i s), cy = snd (cursor_of i s),
     attr = of_int (curr_attribute s)\<rparr>"

definition cursor_ok :: "int \<times> int \<Rightarrow> bool" where
  "cursor_ok c \<longleftrightarrow> 0 \<le> fst c \<and> fst c < 80 \<and> 0 \<le> snd c \<and> snd c < 25"

text \<open>What lies behind the console in the state record is untouched when the console's tail is.\<close>

lemma console_more_sel:
  fixes s t :: "'a kernel_scheme"
  assumes "console.more s = console.more t"
  shows "pcbs s = pcbs t" "terminals s = terminals t" "terminal_state s = terminal_state t"
    "tss_esp0 s = tss_esp0 t" "terminal_being_serviced s = terminal_being_serviced t"
    "pid_avail s = pid_avail t" "cr3 s = cr3 t" "ptmem s = ptmem t" "frames s = frames t"
    "bootblock s = bootblock t" "inodes s = inodes t" "datablocks s = datablocks t"
    "keyboard_state s = keyboard_state t" "terminals_launched s = terminals_launched t"
  using assms by (cases s; cases t; simp)+

lemmas putc_kernel_frame [simp] = console_more_sel [OF putc_body_frame(5)]
lemmas cursor_kernel_frame [simp] = console_more_sel [OF set_cursor_frame(7)]

lemma fold_putc_more: "console.more (fold putc_screen bs s) = console.more s"
  by (induction bs arbitrary: s) (simp_all add: putc_screen_def)

lemma fold_putc_frame [simp]:
  "curr_attribute (fold putc_screen bs s) = curr_attribute s" "xlat (fold putc_screen bs s) = xlat s"
  "eflags (fold putc_screen bs s) = eflags s" "io_log (fold putc_screen bs s) = io_log s"
  by (induction bs arbitrary: s) (simp_all add: putc_screen_def)

lemmas fold_kernel_frame [simp] = console_more_sel [OF fold_putc_more]


lemma steady_cong:
  fixes s t :: "'a console_scheme"
  assumes "steady buf n s" "ram t = ram s" "xlat t = xlat s"
  shows "steady buf n t" "buf_text buf n t = buf_text buf n s"
proof -
  have w: "only_window s t" "\<And>u. only_window t u = only_window s u"
    using assms(2,3) by (simp_all add: only_window_def window_def)
  have b: "buf t i = buf s i" if "i < n" for i using assms(1) w(1) that unfolding steady_def by blast
  show "steady buf n t"
    unfolding steady_def
  proof (intro allI impI)
    fix u i assume "only_window t u" "i < n"
    then have "buf u i = buf s i" using assms(1) unfolding steady_def w(2) by blast
    then show "buf u i = buf t i" using b [OF \<open>i < n\<close>] by simp
  qed
  have "map (buf t) [0..<n] = map (buf s) [0..<n]" using b by simp
  then show "buf_text buf n t = buf_text buf n s" by (simp only: buf_text_def)
qed

lemma write_terminal_state:
  fixes s :: "'a kernel_scheme"
  assumes "0 \<le> nbytes" "nbytes < 2147483648"
    and "cur = unat (terminal_being_serviced s)" "shown = unat (terminal_state s)"
    and "cursor_ok (cursor_of cur s)" "steady buf (nat nbytes) s"
    and "s1 = (upd_terminal shown (\<lambda>t. t\<lparr>t_screen_x := screen_x s, t_screen_y := screen_y s\<rparr>) (cli s))
                \<lparr>screen_x := fst (cursor_of cur s), screen_y := snd (cursor_of cur s)\<rparr>"
    and "s2 = fold putc_screen (buf_text buf (nat nbytes) s) s1"
    and "s3 = upd_terminal cur (\<lambda>t. t\<lparr>t_screen_x := screen_x s2, t_screen_y := screen_y s2\<rparr>) s2"
    and "x = t_screen_x (terminals s3 shown)" "y = t_screen_y (terminals s3 shown)"
  shows "write_terminal_from STDOUT buf nbytes s =
    (nbytes, restore_flags (eflags s) (set_cursor_location x y (s3\<lparr>screen_x := x, screen_y := y\<rparr>)))"
proof -
  have n: "unat (of_int nbytes :: u32) = nat nbytes"
    using assms(1,2) unat_of_nat_u32 [of "nat nbytes"] by simp
  have "ram s1 = ram s" "xlat s1 = xlat s" using assms(7) by simp_all
  note st = steady_cong [OF assms(6) this]
  have "screen_ok s1" using assms(5,7) by (simp add: screen_ok_def cursor_ok_def)
  then have "put_t buf (of_int nbytes) s1 = (length (buf_text buf (nat nbytes) s), s2)"
    using put_t_eq [of s1 buf "of_int nbytes"] st assms(8) by (simp add: n)
  then show ?thesis
    using assms(1,3,4,7,9-11)
    by (auto simp: write_terminal_from_def cli_and_save_def Let_def get_screen_x_def get_screen_y_def
        set_screen_x_y_def get_terminal_of_current_process_def cursor_of_def cli_def upd_terminal_def)
qed

lemma write_text_refines:
  fixes s :: "'a kernel_scheme"
  assumes "0 \<le> nbytes" "nbytes < 2147483648"
    and cur: "cur = unat (terminal_being_serviced s)"
    and ok: "cursor_ok (cursor_of cur s)" and vm: "video_mapped s" and st: "steady buf (nat nbytes) s"
    and t: "t = snd (write_terminal_from STDOUT buf nbytes s)"
  shows "fst (write_terminal_from STDOUT buf nbytes s) = nbytes"
    and "term_vt cur t = fold vt_putc (buf_text buf (nat nbytes) s) (term_vt cur s)"
    and "i \<noteq> cur \<Longrightarrow> cursor_of i t = cursor_of i s" and "eflags t = eflags s" and "xlat t = xlat s"
    and "only_window s t" and "cursor_ok (cursor_of cur t)"
proof -
  let ?shown = "unat (terminal_state s)" and ?bs = "buf_text buf (nat nbytes) s"
  define s1 where "s1 = (upd_terminal ?shown (\<lambda>t. t\<lparr>t_screen_x := screen_x s, t_screen_y := screen_y s\<rparr>) (cli s))
                \<lparr>screen_x := fst (cursor_of cur s), screen_y := snd (cursor_of cur s)\<rparr>"
  define s2 where "s2 = fold putc_screen ?bs s1"
  define s3 where "s3 = upd_terminal cur (\<lambda>t. t\<lparr>t_screen_x := screen_x s2, t_screen_y := screen_y s2\<rparr>) s2"
  let ?x = "t_screen_x (terminals s3 ?shown)" and ?y = "t_screen_y (terminals s3 ?shown)"
  note w = write_terminal_state [OF assms(1,2) cur refl ok st s1_def s2_def s3_def refl refl]
  show "fst (write_terminal_from STDOUT buf nbytes s) = nbytes" using w by simp
  have t': "t = restore_flags (eflags s) (set_cursor_location ?x ?y (s3\<lparr>screen_x := ?x, screen_y := ?y\<rparr>))"
    using w t by simp
  have c1: "console_ok s1"
    using ok vm by (simp add: console_ok_def s1_def screen_ok_def cursor_ok_def video_mapped_def spread_def cli_def)
  have rt: "ram t = ram s2" "xlat t = xlat s2" "curr_attribute t = curr_attribute s2"
    by (simp_all add: t' s3_def restore_flags_def upd_terminal_def)
  have "abs_vt s1 = term_vt cur s"
    by (simp add: abs_vt_def term_vt_def s1_def cli_def upd_terminal_def read_bytes_def load_def)
  then have a2: "abs_vt s2 = fold vt_putc ?bs (term_vt cur s)"
    unfolding s2_def using screen_dev.print_refines [OF c1] by simp
  have s1f: "terminals s1 = (terminals s)(?shown := (terminals s ?shown)\<lparr>t_screen_x := screen_x s, t_screen_y := screen_y s\<rparr>)"
    "terminal_state s1 = terminal_state s" "curr_attribute s1 = curr_attribute s" "xlat s1 = xlat s"
    by (simp_all add: s1_def cli_def upd_terminal_def)
  have tt: "terminals t = (terminals s1)(cur := (terminals s1 cur)\<lparr>t_screen_x := screen_x s2, t_screen_y := screen_y s2\<rparr>)"
    "terminal_state t = terminal_state s" "screen_x t = ?x" "screen_y t = ?y"
    by (simp_all add: t' s3_def s2_def s1f restore_flags_def upd_terminal_def)
  have ct: "cursor_of cur t = (screen_x s2, screen_y s2)"
    using tt by (simp add: cursor_of_def s3_def)
  have "read_bytes t VIDEO 4000 = read_bytes s2 VIDEO 4000" using rt by (simp add: read_bytes_def load_def)
  then have "term_vt cur t = abs_vt s2" using ct rt by (simp add: term_vt_def abs_vt_def)
  then show "term_vt cur t = fold vt_putc ?bs (term_vt cur s)" using a2 by simp
  show "cursor_of i t = cursor_of i s" if "i \<noteq> cur"
    using that tt s1f by (auto simp: cursor_of_def s3_def s2_def)
  show "eflags t = eflags s" by (simp add: t' restore_flags_def)
  show "xlat t = xlat s" using rt(2) by (simp add: s2_def s1f)
  have "screen_ok s1" using c1 by (simp add: console_ok_def)
  then have f: "only_window s1 s2" "screen_ok s2" unfolding s2_def by (simp_all add: fold_putc_window)
  have "ram s1 = ram s" by (simp add: s1_def cli_def upd_terminal_def)
  then show "only_window s t" using f rt s1f by (simp add: only_window_def window_def)
  show "cursor_ok (cursor_of cur t)" using f(2) ct by (simp add: cursor_ok_def screen_ok_def)
qed

lemma write_terminal_refines:
  fixes s :: "'a kernel_scheme"
  assumes "0 \<le> nbytes" "nbytes < 2147483648" "cur = unat (terminal_being_serviced s)"
    and "cursor_ok (cursor_of cur s)" "video_mapped s" "apart s buf (nat nbytes) VIDEO 4000"
    and t: "t = snd (write_terminal STDOUT buf nbytes s)"
  shows "fst (write_terminal STDOUT buf nbytes s) = nbytes"
    and "term_vt cur t = fold vt_putc (field_text s buf (nat nbytes)) (term_vt cur s)"
    and "i \<noteq> cur \<Longrightarrow> cursor_of i t = cursor_of i s" and "eflags t = eflags s" and "xlat t = xlat s"
    and "only_window s t" and "cursor_ok (cursor_of cur t)"
proof -
  have "buf_text (at_addr buf) (nat nbytes) s = field_text s buf (nat nbytes)"
    by (simp add: buf_text_def field_text_def read_bytes_def at_addr_def [abs_def])
  note w = write_text_refines [OF assms(1-5) steady_addr [OF assms(6)] t [unfolded write_terminal_def], unfolded this]
  show "fst (write_terminal STDOUT buf nbytes s) = nbytes" using w(1) by (simp add: write_terminal_def)
  show "term_vt cur t = fold vt_putc (field_text s buf (nat nbytes)) (term_vt cur s)"
    "i \<noteq> cur \<Longrightarrow> cursor_of i t = cursor_of i s" "eflags t = eflags s" "xlat t = xlat s"
    "only_window s t" "cursor_ok (cursor_of cur t)" by (fact w)+
qed


section \<open>Switching terminals\<close>

definition backing_store :: "int \<Rightarrow> u32" where
  "backing_store i = VIDEO + of_int (i + 1) * LITERAL_4KB"

text \<open>The four pages of video memory are mapped to themselves.\<close>

definition video_identity :: "'a kernel_scheme \<Rightarrow> bool" where
  "video_identity s \<longleftrightarrow> (\<forall>k<0x4000. xlat s (VIDEO + of_nat k) = VIDEO + of_nat k)"

definition phys :: "'a kernel_scheme \<Rightarrow> u32 \<Rightarrow> nat \<Rightarrow> u8 list" where
  "phys s a n = map (\<lambda>k. ram s (a + of_nat k)) [0..<n]"

text \<open>The page of text a terminal has: on the screen or in its backing store.\<close>

definition screen_page :: "int \<Rightarrow> 'a kernel_scheme \<Rightarrow> u8 list" where
  "screen_page i s = phys s (if i = uint (terminal_state s) then VIDEO else backing_store i) 4096"

lemma store_offset: "0 \<le> i \<Longrightarrow> backing_store i + of_nat k = VIDEO + of_nat (4096 * (nat i + 1) + k)"
proof -
  assume "0 \<le> i"
  then have "of_int (i + 1) = (of_nat (nat i + 1) :: u32)" by simp
  then show ?thesis by (simp add: backing_store_def add.commute)
qed

text \<open>Page number \<open>p\<close> of video memory (0 the screen, \<open>i + 1\<close> the store of terminal \<open>i\<close>).\<close>

definition vpage :: "nat \<Rightarrow> u32" where
  "vpage p = VIDEO + of_nat (4096 * p)"

lemma vpage_cases: "vpage 0 = VIDEO" "0 \<le> i \<Longrightarrow> backing_store i = vpage (nat i + 1)"
  using store_offset [of i 0] by (simp_all add: vpage_def)

lemma vpage_offset: "vpage p + of_nat k = VIDEO + of_nat (4096 * p + k)"
  by (simp add: vpage_def)

lemma vpage_xlat:
  assumes "video_identity s" "p < 4" "k < 4096"
  shows "xlat s (vpage p + of_nat k) = vpage p + of_nat k"
proof -
  have "4096 * p + k < 0x4000" using assms(2,3) by simp
  then show ?thesis using assms(1) unfolding vpage_offset video_identity_def by blast
qed

lemma vpage_inject:
  assumes "p < 4" "q < 4" "j < 4096" "k < 4096"
  shows "vpage p + of_nat j = vpage q + of_nat k \<longleftrightarrow> p = q \<and> j = k"
proof -
  have "4096 * p + j < 4294967296" "4096 * q + k < 4294967296" using assms by simp_all
  then have "vpage p + of_nat j = vpage q + of_nat k \<longleftrightarrow> 4096 * p + j = 4096 * q + k"
    unfolding vpage_offset by (rule u32_add_of_nat_eq)
  also have "\<dots> \<longleftrightarrow> p = q \<and> j = k"
  proof
    assume e: "4096 * p + j = 4096 * q + k"
    then have "(4096 * p + j) div 4096 = (4096 * q + k) div 4096" by simp
    then have "p = q" using assms(3,4) by simp
    then show "p = q \<and> j = k" using e by simp
  qed simp
  finally show ?thesis .
qed

text \<open>One page copied onto another.\<close>

lemma copy_page:
  assumes "video_identity s" "p < 4" "q < 4" "p \<noteq> q" "r < 4"
  shows "phys (memcpy (vpage p) (vpage q) LITERAL_4KB s) (vpage r) 4096
       = phys s (vpage (if r = p then q else r)) 4096"
    and "xlat (memcpy (vpage p) (vpage q) LITERAL_4KB s) = xlat s"
    and "machine.more (memcpy (vpage p) (vpage q) LITERAL_4KB s) = machine.more s"
    and "io_log (memcpy (vpage p) (vpage q) LITERAL_4KB s) = io_log s"
    and "eflags (memcpy (vpage p) (vpage q) LITERAL_4KB s) = eflags s"
proof -
  have ap: "apart s (vpage p) 4096 (vpage q) 4096"
    using assms by (auto simp: apart_def vpage_xlat vpage_inject simp del: One_nat_def)
  have e: "memcpy (vpage p) (vpage q) LITERAL_4KB s = write_bytes (vpage p) (read_bytes s (vpage q) 4096) s"
    using memcpy_eq [of s "vpage q" "0x1000" "vpage p"] apart_sym [OF ap] by simp
  let ?t = "write_bytes (vpage p) (read_bytes s (vpage q) 4096) s"
  have ram: "ram ?t (vpage r + of_nat k) = load ?t (vpage r + of_nat k)" if "k < 4096" for k
    using that assms(1,5) by (simp add: load_def vpage_xlat)
  have sp: "spread s (vpage p) 4096"
    using assms(1,2) by (auto simp: spread_def inj_on_def vpage_xlat vpage_inject)
  have ld: "load ?t (vpage r + of_nat k) = load s (vpage (if r = p then q else r) + of_nat k)" if "k < 4096" for k
  proof (cases "r = p")
    case True
    then show ?thesis using load_write_nth [of s "vpage p" "read_bytes s (vpage q) 4096" k] sp that by simp
  next
    case False
    then show ?thesis using that assms
      by (auto intro!: load_write_other simp: vpage_xlat vpage_inject)
  qed
  have "ram ?t (vpage r + of_nat k) = ram s (vpage (if r = p then q else r) + of_nat k)" if "k < 4096" for k
    unfolding ram [OF that] ld [OF that] using that assms by (simp add: load_def vpage_xlat)
  then show "phys (memcpy (vpage p) (vpage q) LITERAL_4KB s) (vpage r) 4096
       = phys s (vpage (if r = p then q else r)) 4096"
    unfolding e phys_def by (intro map_cong [OF refl]) (simp del: upt_rec_numeral)
  show "xlat (memcpy (vpage p) (vpage q) LITERAL_4KB s) = xlat s"
    "machine.more (memcpy (vpage p) (vpage q) LITERAL_4KB s) = machine.more s"
    "io_log (memcpy (vpage p) (vpage q) LITERAL_4KB s) = io_log s"
    "eflags (memcpy (vpage p) (vpage q) LITERAL_4KB s) = eflags s"
    unfolding e by simp_all
qed


lemma change_table_mapping_ptmem: "\<exists>m. change_table_mapping tab a v s = s\<lparr>ptmem := m\<rparr>"
  by (auto simp: change_table_mapping_def set_entry_def Let_def)

lemma remap_video_ptmem: "\<exists>m. remap_video lay from to i s = s\<lparr>ptmem := m\<rparr>"
proof -
  have "\<exists>m. (if b then change_table_mapping tab a v t else t) = t\<lparr>ptmem := m\<rparr>"
    for b tab a v and t :: "'a kernel_scheme"
    using change_table_mapping_ptmem [of tab a v t] by (cases b) (auto intro: exI [of _ "ptmem t"])
  then obtain m where "(if uint (owned_by_terminal (pcbs s (pcb_address (int i)))) = from
      then change_table_mapping (get_base_page_table_for_pid lay (int i)) VIDEO
             (VIDEO + of_int (from + 1) * LITERAL_4KB) s else s) = s\<lparr>ptmem := m\<rparr>" by blast
  moreover obtain m' where "(if uint (owned_by_terminal (pcbs (s\<lparr>ptmem := m\<rparr>) (pcb_address (int i)))) = to
      then change_table_mapping (get_base_page_table_for_pid lay (int i)) VIDEO VIDEO (s\<lparr>ptmem := m\<rparr>)
      else s\<lparr>ptmem := m\<rparr>) = s\<lparr>ptmem := m\<rparr>\<lparr>ptmem := m'\<rparr>"
    using \<open>\<And>t b tab a v. \<exists>m. (if b then change_table_mapping tab a v t else t) = t\<lparr>ptmem := m\<rparr>\<close> by blast
  ultimately show ?thesis
    unfolding remap_video_def Let_def by (auto intro: exI [of _ "ptmem s"])
qed

lemma remap_loop_ptmem: "\<exists>m. for_loop 0 n (remap_video lay from to) s = s\<lparr>ptmem := m\<rparr>"
proof (rule for_loop_inv [where P = "\<lambda>_ t. \<exists>m. t = s\<lparr>ptmem := m\<rparr>"])
  show "\<exists>m. s = s\<lparr>ptmem := m\<rparr>" by (rule exI [of _ "ptmem s"]) simp
next
  fix i t assume "\<exists>m. t = s\<lparr>ptmem := m\<rparr>"
  then show "\<exists>m. remap_video lay from to i t = s\<lparr>ptmem := m\<rparr>"
    using remap_video_ptmem [of lay "from" to i t] by auto
qed simp

text \<open>
  The state after a switch: the pages are moved, the cursor of the new terminal is on the
  screen, and only page tables and the translation of \<^verbatim>\<open>VIDEO\<close> change besides.
\<close>

lemma switch_eq:
  assumes "s1 = memcpy (backing_store from) VIDEO LITERAL_4KB s"
    and "s2 = memcpy VIDEO (backing_store to) LITERAL_4KB s1"
    and "s3 = (upd_terminal (nat from) (\<lambda>t. t\<lparr>t_screen_x := screen_x s2, t_screen_y := screen_y s2\<rparr>) s2)"
    and "x = t_screen_x (terminals s3 (nat to))" "y = t_screen_y (terminals s3 (nat to))"
    and "s4 = set_cursor_location x y (s3\<lparr>screen_x := x, screen_y := y\<rparr>)"
    and "s5 = for_loop 0 6 (remap_video lay from to) s4"
  shows "change_terminal_state lay from to s = (vm_flush_page VIDEO s5)\<lparr>terminal_state := of_int to\<rparr>"
  using assms by (simp add: change_terminal_state_def backing_store_def Let_def get_screen_x_def
      get_screen_y_def set_screen_x_y_def)

lemma machine_more_sel:
  fixes s t :: "'a kernel_scheme"
  assumes "machine.more s = machine.more t"
  shows "screen_x s = screen_x t" "screen_y s = screen_y t" "curr_attribute s = curr_attribute t"
    "pcbs s = pcbs t" "terminals s = terminals t" "terminal_state s = terminal_state t"
    "tss_esp0 s = tss_esp0 t" "terminal_being_serviced s = terminal_being_serviced t"
    "pid_avail s = pid_avail t" "cr3 s = cr3 t" "ptmem s = ptmem t"
  using assms by (cases s; cases t; simp)+

lemma switch_screens:
  assumes "video_identity s" "from \<in> {0, 1, 2}" "to \<in> {0, 1, 2}" "from \<noteq> to"
    and "from = uint (terminal_state s)" "i \<in> {0, 1, 2}"
  shows "screen_page i (change_terminal_state lay from to s) = screen_page i s"
    and "cursor_of (nat i) (change_terminal_state lay from to s) = cursor_of (nat i) s"
    and "uint (terminal_state (change_terminal_state lay from to s)) = to"
proof -
  define s1 where "s1 = memcpy (backing_store from) VIDEO LITERAL_4KB s"
  define s2 where "s2 = memcpy VIDEO (backing_store to) LITERAL_4KB s1"
  define s3 where "s3 = upd_terminal (nat from) (\<lambda>t. t\<lparr>t_screen_x := screen_x s2, t_screen_y := screen_y s2\<rparr>) s2"
  define x where "x = t_screen_x (terminals s3 (nat to))"
  define y where "y = t_screen_y (terminals s3 (nat to))"
  define s4 where "s4 = set_cursor_location x y (s3\<lparr>screen_x := x, screen_y := y\<rparr>)"
  define s5 where "s5 = for_loop 0 6 (remap_video lay from to) s4"
  note t = switch_eq [OF s1_def s2_def s3_def x_def y_def s4_def s5_def]
  obtain m where s5: "s5 = s4\<lparr>ptmem := m\<rparr>" using remap_loop_ptmem s5_def by blast
  have v: "backing_store from = vpage (nat from + 1)" "backing_store to = vpage (nat to + 1)" "VIDEO = vpage 0"
    using assms(2,3) by (auto simp: vpage_cases)
  have b: "nat from + 1 < 4" "nat to + 1 < 4" "nat from \<noteq> nat to" using assms(2-4) by auto
  note c1 = copy_page [OF assms(1), of "nat from + 1" 0, folded v, folded s1_def]
  have id1: "video_identity s1" using c1(2) [of 1] b assms(1) by (simp add: video_identity_def)
  note c2 = copy_page [OF id1, of 0 "nat to + 1", folded v(2,3), folded s2_def]
  have p1: "phys s1 (vpage r) 4096 = phys s (vpage (if r = nat from + 1 then 0 else r)) 4096" if "r < 4" for r
    using c1(1) [of r] b that by simp
  have p2: "phys s2 (vpage r) 4096 = phys s1 (vpage (if r = 0 then nat to + 1 else r)) 4096" if "r < 4" for r
    using c2(1) [of r] b that by simp
  have more: "machine.more s2 = machine.more s" using c1(3) [of 1] c2(3) [of 1] b by simp
  note ms = machine_more_sel [OF more]
  let ?t = "change_terminal_state lay from to s"
  have r: "ram ?t = ram s2" "screen_x ?t = x" "screen_y ?t = y" "terminals ?t = terminals s3"
    "terminal_state ?t = of_int to"
    by (simp_all add: t vm_flush_page_def s5 s4_def s3_def)
  show ts: "uint (terminal_state ?t) = to" using r(5) assms(3) by auto
  have ph: "phys ?t a n = phys s2 a n" for a n by (simp add: phys_def r(1))
  have vi: "backing_store i = vpage (nat i + 1)" "nat i + 1 < 4" using assms(6) by (auto simp: vpage_cases)
  show "screen_page i ?t = screen_page i s"
    using assms(2-6) b vi ts unfolding screen_page_def ph ts assms(5) [symmetric] v
    by (auto simp: p1 p2 vpage_cases(2) nat_eq_iff split: if_splits)
  have tm: "terminals s3 = (terminals s)(nat from := (terminals s (nat from))\<lparr>t_screen_x := screen_x s, t_screen_y := screen_y s\<rparr>)"
    by (simp add: s3_def ms)
  have u: "unat (terminal_state s) = nat from" "unat (terminal_state ?t) = nat to"
    unfolding unat_eq_nat_uint ts assms(5) [symmetric] by (rule refl)+
  show "cursor_of (nat i) ?t = cursor_of (nat i) s"
    using assms(2-4,6) b unfolding cursor_of_def u r tm x_def y_def by auto
qed


section \<open>Who writes to the screen\<close>

text \<open>
  The frame behind the page at \<^verbatim>\<open>VIDEO\<close> in the address space of process \<open>p\<close>: video memory
  if its terminal is displayed, the backing store of its terminal otherwise. \<open>sps\<close> names the
  abstract address space of every process.
\<close>

definition owner :: "'a kernel_scheme \<Rightarrow> int \<Rightarrow> int" where
  "owner s p = uint (owned_by_terminal (pcbs s (pcb_address p)))"

definition terminal_frame :: "'a kernel_scheme \<Rightarrow> int \<Rightarrow> u32" where
  "terminal_frame s i = (if i = uint (terminal_state s) then VIDEO else backing_store i)"

definition spaces_ok :: "layout \<Rightarrow> (int \<Rightarrow> space) \<Rightarrow> 'a kernel_scheme \<Rightarrow> bool" where
  "spaces_ok lay sps s \<longleftrightarrow> (\<forall>p\<in>pid_set s. space_ok (sps p) \<and>
     task_space (get_page_directory_for_pid lay p) (get_base_page_table_for_pid lay p) (sps p) s \<and>
     video_frame (sps p) = terminal_frame s (owner s p))"

lemma page_aligned_vpage: "page_aligned (vpage p)"
proof -
  have "vpage p = of_nat (0xB8 + p) * 4096" by (simp add: vpage_def)
  then show ?thesis by (simp only: page_aligned_frame)
qed

lemma page_aligned_store: "0 \<le> i \<Longrightarrow> page_aligned (backing_store i)" "page_aligned VIDEO"
  using page_aligned_vpage [of "nat i + 1"] page_aligned_vpage [of 0] by (simp_all add: vpage_cases)

definition remapped :: "int \<Rightarrow> int \<Rightarrow> int \<Rightarrow> space \<Rightarrow> space" where
  "remapped from to own sp =
     (if own = to then sp\<lparr>video_frame := VIDEO\<rparr>
      else if own = from then sp\<lparr>video_frame := backing_store from\<rparr> else sp)"

lemma pid_set_cong: "pid_avail t = pid_avail s \<Longrightarrow> pid_set t = pid_set s"
  by (simp add: pid_set_def)

lemma pid_set_bounds: "p \<in> pid_set s \<Longrightarrow> 0 \<le> p \<and> p < 6"
  by (simp add: pid_set_def)

lemma remap_video_space:
  assumes "layout_ok lay" "i < 6" "int i \<in> pid_set s" "space_ok sp" "0 \<le> from"
    and "task_space (get_page_directory_for_pid lay (int i)) (get_base_page_table_for_pid lay (int i)) sp s"
  shows "task_space (get_page_directory_for_pid lay (int i)) (get_base_page_table_for_pid lay (int i))
           (remapped from to (owner s (int i)) sp) (remap_video lay from to i s)"
proof -
  have tok: "tables_ok (get_page_directory_for_pid lay (int i)) (get_base_page_table_for_pid lay (int i))"
    using assms(1,2) by (intro layout_tables) simp_all
  have u: "is_pid_used (int i) s \<noteq> 0" using assms(2,3) by (simp add: is_pid_used_iff)
  note m = change_mapping_space [OF tok]
  have f: "VIDEO + of_int (from + 1) * LITERAL_4KB = backing_store from" by (simp add: backing_store_def)
  have sok: "space_ok (sp\<lparr>video_frame := backing_store from\<rparr>)"
    using assms(4,5) by (simp add: space_ok_def page_aligned_store)
  obtain w where w: "change_table_mapping (get_base_page_table_for_pid lay (int i)) VIDEO (backing_store from) s
      = s\<lparr>ptmem := w\<rparr>" using change_table_mapping_ptmem by blast
  note m1 = m [OF assms(4) page_aligned_store(1) [OF assms(5)] assms(6)]
  note m2 = m [OF sok page_aligned_store(2) m1]
  note m3 = m [OF assms(4) page_aligned_store(2) assms(6)]
  show ?thesis
    using u m1 m2 m3 assms(6) w unfolding remap_video_def Let_def f remapped_def owner_def by auto
qed

lemma remap_video_other:
  assumes "layout_ok lay" "i < 6" "0 \<le> p" "p < 6" "p \<noteq> int i"
  shows "task_space (get_page_directory_for_pid lay p) (get_base_page_table_for_pid lay p) sp (remap_video lay from to i s)
       = task_space (get_page_directory_for_pid lay p) (get_base_page_table_for_pid lay p) sp s"
proof -
  let ?T = "{get_page_directory_for_pid lay (int i), get_base_page_table_for_pid lay (int i)}"
  have al: "page_aligned (get_base_page_table_for_pid lay (int i))"
    using layout_tables [OF assms(1), of "int i"] assms(2) by (simp add: tables_ok_def)
  have c: "only_tables ?T t (change_table_mapping (get_base_page_table_for_pid lay (int i)) a v t)"
    for a v and t :: "'a kernel_scheme"
    using change_mapping_only [OF al] by (rule only_tables_mono) simp
  have "only_tables ?T s (remap_video lay from to i s)"
    unfolding remap_video_def Let_def by (auto intro: c only_tables_trans)
  then show ?thesis
    using layout_apart [OF assms(1), of "int i" p] layout_tables [OF assms(1,3,4)] assms
    by (intro only_tables_space) auto
qed

lemma remap_loop_spaces:
  assumes "layout_ok lay" "0 \<le> from" "\<forall>p\<in>pid_set s. space_ok (sps p) \<and>
     task_space (get_page_directory_for_pid lay p) (get_base_page_table_for_pid lay p) (sps p) s"
    and "p \<in> pid_set s"
  shows "task_space (get_page_directory_for_pid lay p) (get_base_page_table_for_pid lay p)
           (remapped from to (owner s p) (sps p)) (for_loop 0 6 (remap_video lay from to) s)"
proof -
  let ?ts = "\<lambda>p. task_space (get_page_directory_for_pid lay p) (get_base_page_table_for_pid lay p)"
  let ?P = "\<lambda>k t. (\<exists>m. t = s\<lparr>ptmem := m\<rparr>) \<and>
    (\<forall>p\<in>pid_set s. ?ts p (if p < int k then remapped from to (owner s p) (sps p) else sps p) t)"
  have "?P 6 (for_loop 0 6 (remap_video lay from to) s)"
  proof (rule for_loop_inv [where P = ?P])
    show "?P 0 s" using assms(3) by (auto intro: exI [of _ "ptmem s"] dest: pid_set_bounds)
  next
    fix i t assume i: "i < 6" and P: "?P i t"
    then obtain m where m: "t = s\<lparr>ptmem := m\<rparr>" by blast
    have eq: "pid_set t = pid_set s" "owner t = owner s"
      by (simp_all add: m pid_set_def owner_def fun_eq_iff)
    have "?ts p (if p < int (Suc i) then remapped from to (owner s p) (sps p) else sps p) (remap_video lay from to i t)"
      if p: "p \<in> pid_set s" for p
    proof (cases "p = int i")
      case True
      then show ?thesis
        using remap_video_space [OF assms(1) i, of t "sps p" "from" to] P p eq assms(2,3) by auto
    next
      case False
      then show ?thesis
        using remap_video_other [OF assms(1) i _ _ False, of _ "from" to t] P p pid_set_bounds [OF p] by auto
    qed
    moreover have "\<exists>m. remap_video lay from to i t = s\<lparr>ptmem := m\<rparr>"
      using remap_video_ptmem [of lay "from" to i t] m by auto
    ultimately show "?P (Suc i) (remap_video lay from to i t)" by blast
  qed simp
  then show ?thesis using assms(4) pid_set_bounds [OF assms(4)] by auto
qed


lemma memcpy_kernel_ptmem:
  assumes "video_identity s" "p < 4" "q < 4" "p \<noteq> q"
  shows "machine.more (memcpy (vpage p) (vpage q) LITERAL_4KB s) = machine.more s"
    "video_identity (memcpy (vpage p) (vpage q) LITERAL_4KB s)"
  using copy_page [OF assms, of 0] assms(1) by (simp_all add: video_identity_def)

lemma task_space_cong: "ptmem t = ptmem s \<Longrightarrow> task_space pd bt sp t = task_space pd bt sp s"
  by (simp add: task_space_def get_entry_def)

lemma switch_spaces:
  assumes "layout_ok lay" "video_identity s" "spaces_ok lay sps s"
    and "from \<in> {0, 1, 2}" "to \<in> {0, 1, 2}" "from \<noteq> to" "from = uint (terminal_state s)"
  shows "spaces_ok lay (\<lambda>p. remapped from to (owner s p) (sps p)) (change_terminal_state lay from to s)"
proof -
  define s1 where "s1 = memcpy (backing_store from) VIDEO LITERAL_4KB s"
  define s2 where "s2 = memcpy VIDEO (backing_store to) LITERAL_4KB s1"
  define s3 where "s3 = upd_terminal (nat from) (\<lambda>t. t\<lparr>t_screen_x := screen_x s2, t_screen_y := screen_y s2\<rparr>) s2"
  define x where "x = t_screen_x (terminals s3 (nat to))"
  define y where "y = t_screen_y (terminals s3 (nat to))"
  define s4 where "s4 = set_cursor_location x y (s3\<lparr>screen_x := x, screen_y := y\<rparr>)"
  define s5 where "s5 = for_loop 0 6 (remap_video lay from to) s4"
  note t = switch_eq [OF s1_def s2_def s3_def x_def y_def s4_def s5_def]
  let ?t = "change_terminal_state lay from to s"
  have v: "backing_store from = vpage (nat from + 1)" "backing_store to = vpage (nat to + 1)" "VIDEO = vpage 0"
    using assms(4,5) by (auto simp: vpage_cases)
  have b: "nat from + 1 < 4" "nat to + 1 < 4" using assms(4,5) by auto
  have "machine.more s1 = machine.more s" "video_identity s1"
    using memcpy_kernel_ptmem [OF assms(2) b(1), of 0] by (simp_all add: s1_def v)
  then have "machine.more s2 = machine.more s"
    using memcpy_kernel_ptmem [of s1 0 "nat to + 1"] b by (simp add: s2_def v)
  note ms = machine_more_sel [OF this]
  have s4: "pid_avail s4 = pid_avail s" "pcbs s4 = pcbs s" "ptmem s4 = ptmem s"
    by (simp_all add: s4_def s3_def upd_terminal_def ms)
  have eq4: "pid_set s4 = pid_set s" "owner s4 = owner s"
    by (simp_all add: s4 pid_set_def owner_def fun_eq_iff)
  obtain m where s5: "s5 = s4\<lparr>ptmem := m\<rparr>" using remap_loop_ptmem s5_def by blast
  have tt: "ptmem ?t = ptmem s5" "pid_set ?t = pid_set s" "owner ?t = owner s" "uint (terminal_state ?t) = to"
    using assms(5) by (auto simp: t vm_flush_page_def s5 pid_set_def owner_def s4 fun_eq_iff)
  show ?thesis
    unfolding spaces_ok_def tt
  proof (intro ballI conjI)
    fix p assume p: "p \<in> pid_set s"
    then have sp: "space_ok (sps p)" "video_frame (sps p) = terminal_frame s (owner s p)"
      using assms(3) by (auto simp: spaces_ok_def)
    show "space_ok (remapped from to (owner s p) (sps p))"
      using sp(1) assms(4) page_aligned_store by (auto simp: remapped_def space_ok_def)
    show "video_frame (remapped from to (owner s p) (sps p)) = terminal_frame ?t (owner s p)"
      unfolding terminal_frame_def tt using sp(2) assms(6,7)
      by (auto simp: remapped_def terminal_frame_def)
    have "task_space (get_page_directory_for_pid lay p) (get_base_page_table_for_pid lay p)
        (remapped from to (owner s4 p) (sps p)) s5"
      unfolding s5_def
    proof (rule remap_loop_spaces [OF assms(1)])
      show "\<forall>p\<in>pid_set s4. space_ok (sps p) \<and> task_space (get_page_directory_for_pid lay p)
          (get_base_page_table_for_pid lay p) (sps p) s4"
        using assms(3) unfolding eq4 spaces_ok_def by (auto simp: task_space_cong [of s4 s] s4)
    qed (use assms(4) p eq4 in auto)
    then show "task_space (get_page_directory_for_pid lay p) (get_base_page_table_for_pid lay p)
        (remapped from to (owner s p) (sps p)) ?t"
      using task_space_cong [of ?t s5] tt eq4 by simp
  qed
qed

end
