(* ===== verification/Syscalls.thy ===== *)
theory Syscalls
  imports Terminal
begin

text \<open>
  The system calls on file descriptors, program arguments and video memory, from
  \<^verbatim>\<open>student-distrib/syscalls.c\<close>. A call of an operation through a jump table is a case
  distinction over the four tables. The value \<open>None\<close> means that the call does not return:
  it waits for ever, runs off the end of memory looking for a terminator, or jumps through
  a NULL table, which the theorems exclude for open descriptors.
\<close>

section \<open>The jump tables\<close>

definition o_func :: "device \<Rightarrow> fops \<Rightarrow> u32 \<Rightarrow> 'a kernel_scheme \<Rightarrow> int \<times> 'a kernel_scheme" where
  "o_func dev t fname s = (case t of
     rtc_table \<Rightarrow> open_rtc dev s
   | terminal_table \<Rightarrow> open_terminal fname s
   | regular_file_table \<Rightarrow> open_file fname s
   | directory_table \<Rightarrow> open_directory fname s)"

definition c_func :: "fops \<Rightarrow> int \<Rightarrow> 'a kernel_scheme \<Rightarrow> int \<times> 'a kernel_scheme" where
  "c_func t fd s = (case t of
     rtc_table \<Rightarrow> close_rtc fd s
   | terminal_table \<Rightarrow> close_terminal fd s
   | regular_file_table \<Rightarrow> close_file fd s
   | directory_table \<Rightarrow> close_directory fd s)"

definition r_func ::
    "(nat \<Rightarrow> 'a kernel_scheme \<Rightarrow> 'a kernel_scheme) \<Rightarrow> fops \<Rightarrow> int \<Rightarrow> u32 \<Rightarrow> int \<Rightarrow> 'a kernel_scheme
       \<Rightarrow> (int \<times> 'a kernel_scheme) option" where
  "r_func env t fd buf nbytes s = (case t of
     rtc_table \<Rightarrow> read_rtc env fd buf nbytes s
   | terminal_table \<Rightarrow> read_terminal env fd buf nbytes s
   | regular_file_table \<Rightarrow> Some (read_file fd buf nbytes s)
   | directory_table \<Rightarrow> read_directory fd buf nbytes s)"

definition w_func ::
    "device \<Rightarrow> fops \<Rightarrow> int \<Rightarrow> u32 \<Rightarrow> int \<Rightarrow> 'a kernel_scheme \<Rightarrow> (int \<times> 'a kernel_scheme) option" where
  "w_func dev t fd buf nbytes s = (case t of
     rtc_table \<Rightarrow> write_rtc dev fd buf nbytes s
   | terminal_table \<Rightarrow> Some (write_terminal fd buf nbytes s)
   | regular_file_table \<Rightarrow> Some (write_file fd buf nbytes s)
   | directory_table \<Rightarrow> Some (write_directory fd buf nbytes s))"

section \<open>File descriptors\<close>

definition user_pointer :: "u32 \<Rightarrow> bool" where
  "user_pointer a \<longleftrightarrow> \<not> (a < TASK_VIRTUAL_BASE_ADDRESS \<or> a \<ge> TASK_VIRTUAL_BASE_ADDRESS + LITERAL_4MB)"

definition sys_read ::
    "(nat \<Rightarrow> 'a kernel_scheme \<Rightarrow> 'a kernel_scheme) \<Rightarrow> int \<Rightarrow> u32 \<Rightarrow> int \<Rightarrow> 'a kernel_scheme
       \<Rightarrow> (int \<times> 'a kernel_scheme) option" where
  "sys_read env fd buf num_bytes s =
     (let p = current_pcb s
      in if \<not> user_pointer buf then Some (FAILURE, s)
         else if fd \<ge> 8 \<or> fd < 0 then Some (ERROR, s)
         else if fd_flags (fd_array (pcbs s p) (nat fd)) AND ISOLATE_BIT_0 = 0 then Some (ERROR, s)
         else case fops_jmp_table (fd_array (pcbs s p) (nat fd)) of
           None \<Rightarrow> None
         | Some t \<Rightarrow> r_func env t fd buf num_bytes s)"

definition sys_write ::
    "device \<Rightarrow> int \<Rightarrow> u32 \<Rightarrow> int \<Rightarrow> 'a kernel_scheme \<Rightarrow> (int \<times> 'a kernel_scheme) option" where
  "sys_write dev fd buf num_bytes s =
     (let p = current_pcb s
      in if \<not> user_pointer buf then Some (FAILURE, s)
         else if fd \<ge> 8 \<or> fd < 0 then Some (ERROR, s)
         else if fd_flags (fd_array (pcbs s p) (nat fd)) AND ISOLATE_BIT_0 = 0 then Some (ERROR, s)
         else case fops_jmp_table (fd_array (pcbs s p) (nat fd)) of
           None \<Rightarrow> None
         | Some t \<Rightarrow> w_func dev t fd buf num_bytes s)"

text \<open>The search loop of \<^verbatim>\<open>open\<close>: the first descriptor from 2 on that is not in use, or 8.\<close>

fun free_fd_from :: "nat \<Rightarrow> nat \<Rightarrow> (nat \<Rightarrow> file_info) \<Rightarrow> nat" where
  "free_fd_from 0 i fds = i"
| "free_fd_from (Suc n) i fds =
     (if fd_flags (fds i) AND ISOLATE_BIT_0 = 0 then i else free_fd_from n (Suc i) fds)"

definition sys_open :: "device \<Rightarrow> u32 \<Rightarrow> 'a kernel_scheme \<Rightarrow> (int \<times> 'a kernel_scheme) option" where
  "sys_open dev name s =
     (let p = current_pcb s
      in if \<not> user_pointer name then Some (FAILURE, s)
         else case read_dentry_by_name name s of
           (r, None) \<Rightarrow> Some (FAILURE, s)
         | (r, Some entry) \<Rightarrow>
             (let i = free_fd_from 6 2 (fd_array (pcbs s p))
              in if i = 8 then Some (FAILURE, s)
                 else
                   let s = upd_fd p i (\<lambda>f. f\<lparr>fd_inode :=
                             if filetype entry \<noteq> FILETYPE_REGULAR then 0 else get_inode_ptr (inode entry) s\<rparr>) s;
                       s = upd_fd p i (\<lambda>f. f\<lparr>position := 0\<rparr>) s;
                       s = upd_fd p i (\<lambda>f. f\<lparr>fd_flags := 1\<rparr>) s;
                       s = (if filetype entry = FILETYPE_DEVICE
                            then upd_fd p i (\<lambda>f. f\<lparr>fops_jmp_table := Some rtc_table\<rparr>) s
                            else if filetype entry = FILETYPE_DIRECTORY
                            then upd_fd p i (\<lambda>f. f\<lparr>fops_jmp_table := Some directory_table\<rparr>) s
                            else if filetype entry = FILETYPE_REGULAR
                            then upd_fd p i (\<lambda>f. f\<lparr>fops_jmp_table := Some regular_file_table\<rparr>) s
                            else s)
                   in case fops_jmp_table (fd_array (pcbs s p) i) of
                        None \<Rightarrow> None
                      | Some t \<Rightarrow> Some (int i, snd (o_func dev t name s))))"

definition sys_close :: "int \<Rightarrow> 'a kernel_scheme \<Rightarrow> (int \<times> 'a kernel_scheme) option" where
  "sys_close fd s =
     (let p = current_pcb s
      in if fd < 2 \<or> fd \<ge> 8 then Some (FAILURE, s)
         else if fd_flags (fd_array (pcbs s p) (nat fd)) = 0 then Some (FAILURE, s)
         else
           let s = upd_fd p (nat fd) (\<lambda>f. f\<lparr>fd_flags := 0\<rparr>) s
           in case fops_jmp_table (fd_array (pcbs s p) (nat fd)) of
                None \<Rightarrow> None
              | Some t \<Rightarrow> Some (0, snd (c_func t fd s)))"

section \<open>Arguments and video memory\<close>

definition sys_getargs :: "u32 \<Rightarrow> int \<Rightarrow> 'a kernel_scheme \<Rightarrow> (int \<times> 'a kernel_scheme) option" where
  "sys_getargs buf num_bytes s =
     (if num_bytes < 0 then Some (FAILURE, s)
      else if \<not> user_pointer buf then Some (FAILURE, s)
      else
        let arguments = args (pcbs s (current_pcb s))
        in case strlen s arguments of
             None \<Rightarrow> None
           | Some n \<Rightarrow>
               if n > of_int num_bytes then Some (FAILURE, s)
               else Some (SUCCESS, strncpy buf arguments (of_int num_bytes) s))"

definition sys_vidmap :: "layout \<Rightarrow> u32 \<Rightarrow> 'a kernel_scheme \<Rightarrow> int \<times> 'a kernel_scheme" where
  "sys_vidmap lay screen_start s =
     (let p = pcbs s (current_pcb s);
          pd = get_page_directory_for_pid lay (pid p);
          pt = get_base_page_table_for_pid lay (pid p)
      in if \<not> user_pointer screen_start then (FAILURE, s)
         else
           let s = store32 screen_start VIDEO s;
               s = setup_user_access_pde pd (load32 s screen_start) s;
               s = setup_user_access_pte pt (load32 s screen_start) s
           in (SUCCESS, s))"

definition sys_set_handler :: "int \<Rightarrow> u32 \<Rightarrow> 'a kernel_scheme \<Rightarrow> int \<times> 'a kernel_scheme" where
  "sys_set_handler signum handler_address s = (FAILURE, s)"

definition sys_sigreturn :: "'a kernel_scheme \<Rightarrow> int \<times> 'a kernel_scheme" where
  "sys_sigreturn s = (FAILURE, s)"

definition clear_fd_array :: "(nat \<Rightarrow> file_info) \<Rightarrow> nat \<Rightarrow> file_info" where
  "clear_fd_array fds =
     for_loop 2 8 (\<lambda>i fds. fds(i := \<lparr>fops_jmp_table = None, fd_inode = 0, position = 0, fd_flags = 0\<rparr>)) fds"

section \<open>What the drivers leave alone\<close>

text \<open>
  The part of the state that belongs to processes: the bitmap of identifiers, the page
  tables, the address space in use, and the control blocks up to file positions.
\<close>

definition same_procs :: "'a kernel_scheme \<Rightarrow> 'a kernel_scheme \<Rightarrow> bool" where
  "same_procs s t \<longleftrightarrow> pcbs t = pcbs s \<and> pid_avail t = pid_avail s \<and> tss_esp0 t = tss_esp0 s \<and>
     ptmem t = ptmem s \<and> cr3 t = cr3 s \<and> frames t = frames s \<and> terminal_state t = terminal_state s \<and>
     terminals_launched t = terminals_launched s \<and> (\<forall>i. t_pid (terminals t i) = t_pid (terminals s i))"

lemma same_procs_refl [simp]: "same_procs s s"
  by (simp add: same_procs_def)

lemma same_procs_trans: "same_procs s t \<Longrightarrow> same_procs t u \<Longrightarrow> same_procs s u"
  by (simp add: same_procs_def)

lemma same_procs_more: "console.more t = console.more s \<Longrightarrow> same_procs s t"
  using console_more_sel [of t s] by (simp add: same_procs_def)

lemma put_t_from_more: "console.more (snd (put_t_from buf n i s)) = console.more s"
proof (induction buf n i s rule: put_t_from.induct)
  case (1 buf n i s)
  have "console.more (putc_screen c s) = console.more s" for c by (simp add: putc_screen_def)
  then show ?case using 1 by (simp add: put_t_from.simps [of buf n i s])
qed

lemma same_procs_simps [simp]:
  "same_procs s (restore_flags f t) = same_procs s t" "same_procs s (cli t) = same_procs s t"
  "(\<And>x. t_pid (g x) = t_pid x) \<Longrightarrow> same_procs s (upd_terminal i g t) = same_procs s t" "same_procs s (set_screen_x_y x y t) = same_procs s t"
  "same_procs s (set_cursor_location x y t) = same_procs s t" "same_procs s (store a v t) = same_procs s t"
  "same_procs s (write_bytes a bs t) = same_procs s t" "same_procs s (outb d p t) = same_procs s t"
  "same_procs s (snd (inb dev p t)) = same_procs s t" "same_procs s (t\<lparr>been_inited := b\<rparr>) = same_procs s t"
  "same_procs s (t\<lparr>rtc_flag := r\<rparr>) = same_procs s t" "same_procs s (t\<lparr>screen_x := x, screen_y := y\<rparr>) = same_procs s t"
  by (auto simp: same_procs_def restore_flags_def cli_def upd_terminal_def set_screen_x_y_def outb_def inb_def Let_def
      split: if_splits)

lemma t_pid_flush [simp]: "t_pid (flush_stdin x) = t_pid x"
  by (simp add: flush_stdin_def)

lemma same_procs_put_t: "same_procs s (snd (put_t buf n t)) = same_procs s t"
  using same_procs_more [OF put_t_from_more [of buf "unat n" 0 t]]
  by (auto simp: put_t_def same_procs_def)

lemma same_procs_irq [simp]:
  "same_procs s (enable_irq dev n t) = same_procs s t" "same_procs s (disable_irq dev n t) = same_procs s t"
  "same_procs s (send_eoi n t) = same_procs s t"
  by (auto simp: enable_irq_def disable_irq_def send_eoi_def Let_def inb_def outb_def same_procs_def)

lemma write_terminal_same: "same_procs s (snd (write_terminal fd buf n s))"
proof -
  have "same_procs s (snd (put_t buf' m t)) = same_procs s t" for buf' m t by (rule same_procs_put_t)
  then show ?thesis
    by (simp add: write_terminal_def write_terminal_from_def Let_def case_prod_beta cli_and_save_def)
qed

lemma init_rtc_same [simp]: "same_procs s (init_rtc dev t) = same_procs s t"
  by (simp add: init_rtc_def Let_def case_prod_beta cli_and_save_def)

lemma open_rtc_same: "same_procs s (snd (open_rtc dev s))"
  by (simp add: open_rtc_def Let_def cli_and_save_def)

lemma write_rtc_same: "write_rtc dev fd buf n s = Some (r, t) \<Longrightarrow> same_procs s t"
  by (auto simp: write_rtc_def Let_def cli_and_save_def case_prod_beta split: if_splits option.splits)

lemma o_func_same: "same_procs s (snd (o_func dev tab f s))"
  by (cases tab) (simp_all add: o_func_def open_rtc_same open_terminal_def open_file_def open_directory_def)

lemma c_func_same: "snd (c_func tab fd s) = s"
  by (cases tab) (simp_all add: c_func_def close_rtc_def close_terminal_def close_file_def close_directory_def)

lemma w_func_same: "w_func dev tab fd buf n s = Some (r, t) \<Longrightarrow> same_procs s t"
  using write_terminal_same [of s fd buf n]
  by (cases tab) (auto simp: w_func_def write_file_def write_directory_def dest: write_rtc_same)

section \<open>Well-formed descriptor tables\<close>

text \<open>
  Standard input and output are terminals and always open; a descriptor that is in use has
  a jump table, so that no call jumps through NULL.
\<close>

definition fds_ok :: "(nat \<Rightarrow> file_info) \<Rightarrow> bool" where
  "fds_ok fds \<longleftrightarrow>
     (\<forall>i<8. fd_flags (fds i) \<in> {0, 1} \<and> (fd_flags (fds i) = 1 \<longrightarrow> fops_jmp_table (fds i) \<noteq> None)) \<and>
     (\<forall>i<2. fd_flags (fds i) = 1 \<and> fops_jmp_table (fds i) = Some terminal_table)"

definition procs_ok :: "'a kernel_scheme \<Rightarrow> bool" where
  "procs_ok s \<longleftrightarrow> (\<forall>p\<in>pid_set s. pid (pcbs s (pcb_address p)) = p \<and>
     fds_ok (fd_array (pcbs s (pcb_address p))) \<and> uint (owned_by_terminal (pcbs s (pcb_address p))) < 3)"

text \<open>The process whose stack the task state segment names is one of them.\<close>

definition running :: "'a kernel_scheme \<Rightarrow> int \<Rightarrow> bool" where
  "running s p \<longleftrightarrow> p \<in> pid_set s \<and> tss_esp0 s = kernel_stack p"

definition in_use :: "(nat \<Rightarrow> file_info) \<Rightarrow> nat set" where
  "in_use fds = {i. i < 8 \<and> fd_flags (fds i) AND 1 \<noteq> 0}"

lemma running_pcb: "running s p \<Longrightarrow> current_pcb s = pcb_address p"
  using kernel_stack_pcb [of p] by (auto simp: running_def current_pcb_def dest: pid_set_bounds)

lemma running_fds: "procs_ok s \<Longrightarrow> running s p \<Longrightarrow> fds_ok (fd_array (pcbs s (current_pcb s)))"
  by (auto simp: procs_ok_def running_pcb running_def)

lemma same_procs_ok: "same_procs s t \<Longrightarrow> procs_ok s \<Longrightarrow> procs_ok t"
  by (auto simp: same_procs_def procs_ok_def pid_set_def)

lemma same_procs_running: "same_procs s t \<Longrightarrow> running s p \<Longrightarrow> running t p"
  by (auto simp: same_procs_def running_def pid_set_def)

lemma flag_bit: "x \<in> {0, 1 :: int} \<Longrightarrow> x AND 1 = x"
  by auto

lemma fds_ok_upd:
  assumes "fds_ok fds" "fd_flags f \<in> {0, 1}" "fd_flags f = 1 \<longrightarrow> fops_jmp_table f \<noteq> None"
    and "i < 2 \<longrightarrow> fd_flags f = 1 \<and> fops_jmp_table f = Some terminal_table"
  shows "fds_ok (fds(i := f))"
  using assms by (auto simp: fds_ok_def)

lemma procs_ok_upd_fd:
  assumes "procs_ok s" "fds_ok ((fd_array (pcbs s a))(i := f (fd_array (pcbs s a) i))) \<or> a \<notin> pcb_address ` pid_set s"
  shows "procs_ok (upd_fd a i f s)"
proof -
  have "pid_set (upd_fd a i f s) = pid_set s" by (simp add: pid_set_def)
  then show ?thesis using assms by (auto simp: procs_ok_def)
qed

lemma procs_ok_position:
  assumes "procs_ok s" "running s p"
  shows "procs_ok (upd_fd (current_pcb s) i (\<lambda>f. f\<lparr>position := n\<rparr>) s)"
  using running_fds [OF assms] by (intro procs_ok_upd_fd [OF assms(1)]) (auto simp: fds_ok_def)

section \<open>The driver interface\<close>

text \<open>
  What the system calls rely on when they call through a jump table: every operation of a
  driver keeps the invariant of the kernel and the identity of the running process. The
  invariant that the calls keep then follows once for all drivers.
\<close>

locale file_driver =
  fixes inv :: "'s \<Rightarrow> bool" and rd wr :: "int \<Rightarrow> u32 \<Rightarrow> int \<Rightarrow> 's \<Rightarrow> (int \<times> 's) option"
    and op :: "u32 \<Rightarrow> 's \<Rightarrow> int \<times> 's" and cl :: "int \<Rightarrow> 's \<Rightarrow> int \<times> 's"
  assumes rd_inv: "inv s \<Longrightarrow> rd fd buf n s = Some (r, t) \<Longrightarrow> inv t"
    and wr_inv: "inv s \<Longrightarrow> wr fd buf n s = Some (r, t) \<Longrightarrow> inv t"
    and op_inv: "inv s \<Longrightarrow> inv (snd (op f s))"
    and cl_inv: "inv s \<Longrightarrow> inv (snd (cl fd s))"
begin

text \<open>Any sequence of reads and writes that all return keeps the invariant.\<close>

lemma transfers_inv:
  assumes "inv s" "foldl (\<lambda>so (is_rd, fd, buf, n). case so of None \<Rightarrow> None
      | Some s \<Rightarrow> map_option snd ((if is_rd then rd else wr) fd buf n s)) (Some s) ops = Some t"
  shows "inv t"
  using assms
proof (induction ops arbitrary: s)
  case (Cons x ops)
  obtain is_rd fd buf n where x: "x = (is_rd, fd, buf, n)" by (metis prod_cases4)
  have none: "foldl (\<lambda>so (is_rd, fd, buf, n). case so of None \<Rightarrow> None
      | Some s \<Rightarrow> map_option snd ((if is_rd then rd else wr) fd buf n s)) None ops = None" for ops
    by (induction ops) auto
  from Cons.prems(2) obtain u where u: "map_option snd ((if is_rd then rd else wr) fd buf n s) = Some u"
    using none [of ops] x by (cases "map_option snd ((if is_rd then rd else wr) fd buf n s)") auto
  then obtain r where "(if is_rd then rd else wr) fd buf n s = Some (r, u)" by auto
  then have "inv u"
    using rd_inv [OF Cons.prems(1), of fd buf n r u] wr_inv [OF Cons.prems(1), of fd buf n r u]
    by (cases is_rd) auto
  then show ?case using Cons.IH [of u] Cons.prems(2) u x by simp
qed simp

end

text \<open>
  A further property \<open>I\<close> of the kernel may be carried along: one that no driver can break, because it
  does not depend on memory, devices and file descriptors.
\<close>

definition stable :: "('a kernel_scheme \<Rightarrow> bool) \<Rightarrow> bool" where
  "stable I \<longleftrightarrow> (\<forall>s t. same_procs s t \<longrightarrow> I s \<longrightarrow> I t) \<and> (\<forall>a i f s. I s \<longrightarrow> I (upd_fd a i f s))"

definition kernel_inv :: "('a kernel_scheme \<Rightarrow> bool) \<Rightarrow> (nat \<Rightarrow> 'a kernel_scheme \<Rightarrow> 'a kernel_scheme) \<Rightarrow> int \<Rightarrow> 'a kernel_scheme \<Rightarrow> bool" where
  "kernel_inv I env p s \<longleftrightarrow> stable I \<and> procs_ok s \<and> I s \<and> running s p \<and>
     (\<forall>k s. procs_ok s \<and> I s \<and> running s p \<longrightarrow> procs_ok (env k s) \<and> I (env k s) \<and> running (env k s) p)"

lemma kernel_inv_same: "same_procs s t \<Longrightarrow> kernel_inv I env p s \<Longrightarrow> kernel_inv I env p t"
  using same_procs_ok [of s t] same_procs_running [of s t p] by (auto simp: kernel_inv_def stable_def)

lemma kernel_inv_after: "kernel_inv I env p s \<Longrightarrow> kernel_inv I env p (after env k n s)"
proof (induction n arbitrary: k s)
  case (Suc n)
  have "procs_ok (env k s)" "I (env k s)" "running (env k s) p" using Suc.prems by (simp_all add: kernel_inv_def)
  then have "kernel_inv I env p (env k s)" using Suc.prems by (simp add: kernel_inv_def)
  then show ?case using Suc.IH by simp
qed simp

lemma kernel_inv_spin: "spin env busy k s = Some t \<Longrightarrow> kernel_inv I env p s \<Longrightarrow> kernel_inv I env p t"
  using spin_result [of env busy k s t] kernel_inv_after by blast

lemma running_upd_fd: "running (upd_fd a i f s) p = running s p"
  by (simp add: running_def pid_set_def)

lemma kernel_inv_position:
  "kernel_inv I env p s \<Longrightarrow> kernel_inv I env p (upd_fd (current_pcb s) i (\<lambda>f. f\<lparr>position := n\<rparr>) s)"
  using procs_ok_position [of s p i n] by (simp add: kernel_inv_def running_upd_fd stable_def)

lemma strncpy_same [simp]: "same_procs s (strncpy dst src n t) = same_procs s t"
proof -
  have "same_procs s (snd (strncpy_copy dst src m i u)) = same_procs s u" for m i and u :: "'a kernel_scheme"
    by (induction dst src m i u rule: strncpy_copy.induct) (subst strncpy_copy.simps, auto)
  moreover have "same_procs s (strncpy_pad dst m i u) = same_procs s u" for m i and u :: "'a kernel_scheme"
    by (simp add: strncpy_pad_eq)
  ultimately show ?thesis by (simp add: strncpy_def case_prod_beta)
qed


lemma read_data_same: "same_procs s (snd (read_data ino off buf n s))"
  using read_data_footprint [of buf n s ino off] by (auto simp: writes_buf_def)

lemma copy_stdin_same: "same_procs s (snd (copy_stdin t buf i u)) = same_procs s u"
proof (induction t buf i u rule: copy_stdin.induct)
  case (1 t buf i u)
  then show ?case by (simp add: copy_stdin.simps [of t buf i u])
qed

lemma read_terminal_inv:
  assumes "kernel_inv I env p s" "read_terminal env fd buf n s = Some (r, t)"
  shows "kernel_inv I env p t"
proof (cases "fd \<noteq> 0 \<or> n < 0")
  case True
  then show ?thesis using assms by (auto simp: read_terminal_def Let_def split: if_splits)
next
  case False
  let ?i = "unat (terminal_being_serviced s)"
  let ?s0 = "upd_terminal ?i (\<lambda>x. x\<lparr>read_waiting := 1\<rparr>) s"
  from False assms(2) obtain w where w: "spin env (\<lambda>s. allowed_to_read (terminals s ?i) = 0) 0 ?s0 = Some w"
    and t: "same_procs w t"
    by (auto simp: read_terminal_def Let_def get_terminal_of_current_process_def copy_stdin_same
        cli_and_save_def case_prod_beta split: option.splits)
  have "kernel_inv I env p ?s0" by (rule kernel_inv_same [OF _ assms(1)]) simp
  then have "kernel_inv I env p w" using kernel_inv_spin [OF w] by blast
  then show ?thesis using kernel_inv_same [OF t] by blast
qed

lemma read_rtc_inv:
  assumes "kernel_inv I env p s" "read_rtc env fd buf n s = Some (r, t)"
  shows "kernel_inv I env p t"
proof -
  have "spin env (\<lambda>s. rtc_flag s \<noteq> 0) 0 (s\<lparr>rtc_flag := 1\<rparr>) = Some t"
    using assms(2) by (auto simp: read_rtc_def split: option.splits)
  moreover have "kernel_inv I env p (s\<lparr>rtc_flag := 1\<rparr>)" by (rule kernel_inv_same [OF _ assms(1)]) simp
  ultimately show ?thesis by (rule kernel_inv_spin)
qed

lemma read_file_inv:
  assumes "kernel_inv I env p s"
  shows "kernel_inv I env p (snd (read_file fd buf n s))"
proof -
  obtain r t where rd: "read_data (get_inode_num (fd_inode (fd_array (pcbs s (current_pcb s)) (nat fd))) s)
      (of_int (position (fd_array (pcbs s (current_pcb s)) (nat fd)))) buf (of_int n) s = (r, t)"
    by fastforce
  then have sp: "same_procs s t" by (metis read_data_same snd_conv)
  have i: "kernel_inv I env p t" by (rule kernel_inv_same [OF sp assms])
  have "current_pcb t = current_pcb s" using sp by (simp add: same_procs_def current_pcb_def)
  then show ?thesis
    using i kernel_inv_position [OF i, of "nat fd"] rd by (auto simp: read_file_def Let_def)
qed

lemma read_directory_inv:
  assumes "kernel_inv I env p s" "read_directory fd buf n s = Some (r, t)"
  shows "kernel_inv I env p t"
proof (cases "position (fd_array (pcbs s (current_pcb s)) (nat fd)) \<ge> sint (boot_direntries s)")
  case True
  then show ?thesis using assms by (simp add: read_directory_def Let_def)
next
  case False
  let ?pos = "position (fd_array (pcbs s (current_pcb s)) (nat fd))"
  let ?u = "strncpy buf (boot_file s (of_int ?pos)) (of_int n) s"
  have sp: "same_procs s ?u" by simp
  then have i: "kernel_inv I env p ?u" using assms(1) by (rule kernel_inv_same)
  have "current_pcb ?u = current_pcb s" using sp by (simp add: same_procs_def current_pcb_def)
  moreover have "t = upd_fd (current_pcb s) (nat fd) (\<lambda>f. f\<lparr>position := ?pos + 1\<rparr>) ?u"
    using assms(2) False by (auto simp: read_directory_def Let_def split: if_splits option.splits)
  ultimately show ?thesis using kernel_inv_position [OF i, of "nat fd"] by simp
qed

lemma r_func_inv:
  "kernel_inv I env p s \<Longrightarrow> r_func env tab fd buf n s = Some (r, t) \<Longrightarrow> kernel_inv I env p t"
  using read_file_inv [of I env p s fd buf n]
  by (cases tab) (auto simp: r_func_def dest: read_rtc_inv read_terminal_inv read_directory_inv)

interpretation driver: file_driver "kernel_inv I env p" "r_func env tab" "w_func dev tab" "o_func dev tab" "c_func tab"
  for I env p tab dev
  by unfold_locales
    (auto intro: r_func_inv kernel_inv_same [OF w_func_same] kernel_inv_same [OF o_func_same] simp: c_func_same)

section \<open>Descriptors\<close>

text \<open>\<^verbatim>\<open>open\<close> takes the smallest free descriptor from 2 on.\<close>

lemma free_fd_from_eq:
  "free_fd_from n i fds = (if \<exists>j. i \<le> j \<and> j < i + n \<and> fd_flags (fds j) AND 1 = 0
     then LEAST j. i \<le> j \<and> fd_flags (fds j) AND 1 = 0 else i + n)"
proof (induction n arbitrary: i)
  case (Suc n)
  show ?case
  proof (cases "fd_flags (fds i) AND 1 = 0")
    case True
    then have "(LEAST j. i \<le> j \<and> fd_flags (fds j) AND 1 = 0) = i" by (intro Least_equality) auto
    moreover have "\<exists>j. i \<le> j \<and> j < i + Suc n \<and> fd_flags (fds j) AND 1 = 0"
      using True by (intro exI [of _ i]) simp
    ultimately show ?thesis using True by simp
  next
    case False
    then have e: "(i \<le> j \<and> fd_flags (fds j) AND 1 = 0) = (Suc i \<le> j \<and> fd_flags (fds j) AND 1 = 0)" for j
      by (metis Suc_leD le_antisym not_less_eq_eq)
    then have x: "(\<exists>j. i \<le> j \<and> j < i + Suc n \<and> fd_flags (fds j) AND 1 = 0)
        = (\<exists>j. Suc i \<le> j \<and> j < Suc i + n \<and> fd_flags (fds j) AND 1 = 0)"
      by (metis add_Suc_shift)
    have "free_fd_from (Suc n) i fds = free_fd_from n (Suc i) fds" using False by simp
    also note Suc.IH [of "Suc i"]
    finally show ?thesis unfolding x e by (simp only: add_Suc_shift)
  qed
qed auto

lemma free_fd:
  obtains (none) "free_fd_from 6 2 fds = 8" "{2..<8} \<subseteq> in_use fds"
  | (some) i where "free_fd_from 6 2 fds = i" "2 \<le> i" "i < 8" "i \<notin> in_use fds"
      "\<forall>j. 2 \<le> j \<and> j < i \<longrightarrow> j \<in> in_use fds"
proof (cases "\<exists>j. 2 \<le> j \<and> j < 8 \<and> fd_flags (fds j) AND 1 = 0")
  case True
  let ?P = "\<lambda>j. 2 \<le> j \<and> fd_flags (fds j) AND 1 = 0"
  from True obtain k where k: "?P k" "k < 8" by blast
  have L: "?P (Least ?P)" using k(1) by (rule LeastI)
  have lt: "Least ?P < 8" using Least_le [of ?P k] k by simp
  have "j \<in> in_use fds" if "2 \<le> j" "j < Least ?P" for j
    using not_less_Least [OF that(2)] that lt by (simp add: in_use_def)
  moreover have "free_fd_from 6 2 fds = Least ?P" using free_fd_from_eq [of 6 2 fds] True by simp
  ultimately show ?thesis using some [of "Least ?P"] L lt by (simp add: in_use_def)
next
  case False
  then have "{2..<8} \<subseteq> in_use fds" by (auto simp: in_use_def)
  moreover have "free_fd_from 6 2 fds = 8" using free_fd_from_eq [of 6 2 fds] False by simp
  ultimately show ?thesis using none by blast
qed


definition fops_of :: "u32 \<Rightarrow> fops" where
  "fops_of ft = (if ft = FILETYPE_DEVICE then rtc_table
     else if ft = FILETYPE_DIRECTORY then directory_table else regular_file_table)"

definition opened :: "dentry \<Rightarrow> 'a kernel_scheme \<Rightarrow> file_info" where
  "opened d s = \<lparr>fops_jmp_table = Some (fops_of (filetype d)),
     fd_inode = (if filetype d \<noteq> FILETYPE_REGULAR then 0 else get_inode_ptr (inode d) s),
     position = 0, fd_flags = 1\<rparr>"

lemma upd_fd_upd_fd: "upd_fd a i g (upd_fd a i f s) = upd_fd a i (\<lambda>x. g (f x)) s"
  by (simp add: upd_fd_def upd_pcb_def)

lemma upd_fd_cong: "f (fd_array (pcbs s a) i) = g (fd_array (pcbs s a) i) \<Longrightarrow> upd_fd a i f s = upd_fd a i g s"
  by (simp add: upd_fd_def upd_pcb_def)

lemma file_info_eqI:
  "fops_jmp_table f = fops_jmp_table g \<Longrightarrow> fd_inode f = fd_inode g \<Longrightarrow> position f = position g \<Longrightarrow>
     fd_flags f = fd_flags g \<Longrightarrow> f = (g :: file_info)"
  by simp

lemma sys_open_found:
  assumes "user_pointer name" "read_dentry_by_name name s = (r, Some d)" "filetype d \<le> 2"
    and "free_fd_from 6 2 (fd_array (pcbs s (current_pcb s))) = i" "i \<noteq> 8"
  shows "sys_open dev name s =
    Some (int i, snd (o_func dev (fops_of (filetype d)) name (upd_fd (current_pcb s) i (\<lambda>_. opened d s) s)))"
proof -
  have ft: "filetype d = 0 \<or> filetype d = 1 \<or> filetype d = 2"
  proof -
    have "unat (filetype d) \<le> 2" using assms(3) by (simp add: word_le_nat_alt)
    then have "unat (filetype d) = unat (0 :: u32) \<or> unat (filetype d) = unat (1 :: u32)
        \<or> unat (filetype d) = unat (2 :: u32)" by auto
    then show ?thesis by (metis unsigned_word_eqI)
  qed
  let ?p = "current_pcb s" and ?g = "if filetype d \<noteq> 2 then 0 else get_inode_ptr (inode d) s"
  have e: "upd_fd ?p i (\<lambda>x. x\<lparr>fd_inode := ?g, position := 0, fd_flags := 1, fops_jmp_table := Some (fops_of (filetype d))\<rparr>) s
      = upd_fd ?p i (\<lambda>_. opened d s) s"
    by (rule upd_fd_cong) (rule file_info_eqI, simp_all add: opened_def)
  show ?thesis
    using ft assms(1,2,4,5) e [symmetric]
    by (auto simp: sys_open_def Let_def upd_fd_upd_fd fops_of_def)
qed

lemma sys_open_fails:
  assumes "\<not> user_pointer name \<or> read_dentry_by_name name s = (r, None)
    \<or> free_fd_from 6 2 (fd_array (pcbs s (current_pcb s))) = 8"
  shows "sys_open dev name s = Some (FAILURE, s)"
  using assms by (auto simp: sys_open_def Let_def split: prod.splits option.splits)

lemma sys_close_ok:
  assumes "2 \<le> i" "i < 8" "fd_flags (fd_array (pcbs s (current_pcb s)) i) \<noteq> 0"
    and "fops_jmp_table (fd_array (pcbs s (current_pcb s)) i) = Some tab"
  shows "sys_close (int i) s = Some (0, upd_fd (current_pcb s) i (\<lambda>f. f\<lparr>fd_flags := 0\<rparr>) s)"
  using assms by (simp add: sys_close_def Let_def c_func_same)

lemma kernel_inv_upd_fd:
  assumes "kernel_inv I env p s" "fds_ok ((fd_array (pcbs s (current_pcb s)))(i := f (fd_array (pcbs s (current_pcb s)) i)))"
  shows "kernel_inv I env p (upd_fd (current_pcb s) i f s)"
  using assms procs_ok_upd_fd [of s "current_pcb s" i f] by (simp add: kernel_inv_def running_upd_fd stable_def)

lemma sys_open_inv:
  assumes "kernel_inv I env p s" "\<forall>d \<in> set (directory s). filetype d \<le> 2" "sys_open dev name s = Some (r, t)"
  shows "kernel_inv I env p t"
proof (cases "\<not> user_pointer name \<or> (\<exists>r. read_dentry_by_name name s = (r, None))
    \<or> free_fd_from 6 2 (fd_array (pcbs s (current_pcb s))) = 8")
  case True
  then have "sys_open dev name s = Some (FAILURE, s)" using sys_open_fails by metis
  then show ?thesis using assms by simp
next
  case False
  then obtain r' d where d: "read_dentry_by_name name s = (r', Some d)" by (metis not_Some_eq surj_pair)
  have "d \<in> set (directory s)"
    using d by (auto simp: read_dentry_by_name_eq find_Some_iff split: option.splits)
  then have ft: "filetype d \<le> 2" using assms(2) by blast
  let ?fds = "fd_array (pcbs s (current_pcb s))"
  obtain i where i: "free_fd_from 6 2 ?fds = i" "2 \<le> i" "i < 8"
    using False by (rule_tac fds = ?fds in free_fd) auto
  let ?u = "upd_fd (current_pcb s) i (\<lambda>_. opened d s) s"
  have "fds_ok ?fds" using assms(1) running_fds by (auto simp: kernel_inv_def)
  then have "fds_ok (?fds(i := opened d s))" using i by (intro fds_ok_upd) (auto simp: opened_def)
  then have "kernel_inv I env p ?u" by (intro kernel_inv_upd_fd [OF assms(1)])
  moreover have "t = snd (o_func dev (fops_of (filetype d)) name ?u)"
    using sys_open_found [OF _ d ft i(1), of dev] False i assms(3) by auto
  ultimately show ?thesis using driver.op_inv by blast
qed

lemma sys_close_inv:
  assumes "kernel_inv I env p s" "sys_close fd s = Some (r, t)"
  shows "kernel_inv I env p t"
proof (cases "fd < 2 \<or> fd \<ge> 8 \<or> fd_flags (fd_array (pcbs s (current_pcb s)) (nat fd)) = 0")
  case True
  then show ?thesis using assms by (auto simp: sys_close_def Let_def split: if_splits)
next
  case False
  let ?fds = "fd_array (pcbs s (current_pcb s))"
  have ok: "fds_ok ?fds" using assms(1) running_fds by (auto simp: kernel_inv_def)
  have t: "t = upd_fd (current_pcb s) (nat fd) (\<lambda>f. f\<lparr>fd_flags := 0\<rparr>) s"
    using False assms(2) by (auto simp: sys_close_def Let_def c_func_same split: option.splits)
  have "fds_ok (?fds(nat fd := (?fds (nat fd))\<lparr>fd_flags := 0\<rparr>))"
    using ok False by (intro fds_ok_upd) auto
  then show ?thesis unfolding t by (intro kernel_inv_upd_fd [OF assms(1)])
qed

lemma sys_read_inv:
  "kernel_inv I env p s \<Longrightarrow> sys_read env fd buf n s = Some (r, t) \<Longrightarrow> kernel_inv I env p t"
  by (auto simp: sys_read_def Let_def split: if_splits option.splits intro: r_func_inv)

lemma sys_write_inv:
  "kernel_inv I env p s \<Longrightarrow> sys_write dev fd buf n s = Some (r, t) \<Longrightarrow> kernel_inv I env p t"
  by (auto simp: sys_write_def Let_def split: if_splits option.splits intro: driver.wr_inv)


section \<open>Arguments\<close>

lemma getargs_eq:
  assumes "user_pointer buf" "cstr s (args (pcbs s (current_pcb s))) bs"
    and "0 \<le> n" "n < 2147483648"
    and "apart s buf (nat n) (args (pcbs s (current_pcb s))) (nat n)"
  shows "sys_getargs buf n s =
    (if int (length bs) > n then Some (FAILURE, s)
     else Some (SUCCESS, write_bytes buf (bs @ replicate (nat n - length bs) 0) s))"
proof -
  let ?a = "args (pcbs s (current_pcb s))"
  have n: "unat (of_int n :: u32) = nat n"
    using assms(3,4) unat_of_nat_u32 [of "nat n"] by simp
  have l: "strlen s ?a = Some (of_nat (length bs))" using assms(2) by (rule strlen_cstr)
  have b: "length bs < 4294967296" using assms(2) by (simp add: cstr_def)
  have gt: "(of_int n < (of_nat (length bs) :: u32)) \<longleftrightarrow> int (length bs) > n"
    using n b assms(3) by (auto simp: word_less_nat_alt)
  have "field_text s ?a (nat n) = bs" if "\<not> int (length bs) > n"
    using cstr_field_text [OF assms(2), of "nat n"] that by simp
  then have "strncpy buf ?a (of_int n) s = write_bytes buf (bs @ replicate (nat n - length bs) 0) s"
    if "\<not> int (length bs) > n"
    using strncpy_eq [of s buf "of_int n" ?a] assms(5) that by (simp add: n Let_def)
  then show ?thesis using assms(1,3) l gt by (simp add: sys_getargs_def Let_def)
qed

section \<open>Video memory for user code\<close>

lemma store32_video: "spread s a 4 \<Longrightarrow> load32 (store32 a VIDEO s) a = VIDEO"
proof -
  assume sp: "spread s a 4"
  have "[ucast (VIDEO :: u32), ucast (drop_bit 8 VIDEO :: u32), ucast (drop_bit 16 VIDEO :: u32),
      ucast (drop_bit 24 VIDEO :: u32)] = ([0x00, 0x80, 0x0B, 0x00] :: u8 list)" by simp
  then have e: "store32 a VIDEO s = write_bytes a [0x00, 0x80, 0x0B, 0x00] s" by (simp only: store32_def)
  have "load (store32 a VIDEO s) (a + of_nat i) = [0x00, 0x80, 0x0B, 0x00] ! i" if "i < 4" for i
    unfolding e using that sp by (intro load_write_nth) (simp_all add: numeral_eq_Suc)
  from this [of 0] this [of 1] this [of 2] this [of 3] show ?thesis
    by (simp add: load32_def word_of_bytes_def)
qed

lemma store32_same [simp]: "same_procs s (store32 a w t) = same_procs s t"
  by (simp add: store32_def)

text \<open>
  The call stores the address of video memory and opens exactly the page at \<^verbatim>\<open>VIDEO\<close> to user
  code, in the address space of the calling process.
\<close>

lemma vidmap_eq:
  assumes "procs_ok s" "running s p" "user_pointer a" "spread s a 4"
  shows "sys_vidmap lay a s = (SUCCESS,
    setup_user_access_pte (get_base_page_table_for_pid lay p) VIDEO
      (setup_user_access_pde (get_page_directory_for_pid lay p) VIDEO (store32 a VIDEO s)))"
proof -
  have pid: "pid (pcbs s (current_pcb s)) = p"
    using assms(1,2) by (auto simp: procs_ok_def running_pcb running_def)
  have "load32 (setup_user_access_pde pd VIDEO t) a = load32 t a" for pd and t :: "'a kernel_scheme"
    by (simp add: setup_user_access_pde_def set_entry_def Let_def load32_def load_def)
  then show ?thesis
    using assms(3) store32_video [OF assms(4)] by (simp add: sys_vidmap_def Let_def pid)
qed

lemma vidmap_space:
  assumes "layout_ok lay" "procs_ok s" "running s p" "user_pointer a" "spread s a 4"
    and "task_space (get_page_directory_for_pid lay p) (get_base_page_table_for_pid lay p) sp s"
  shows "task_space (get_page_directory_for_pid lay p) (get_base_page_table_for_pid lay p)
           (sp\<lparr>vidmapped := True\<rparr>) (snd (sys_vidmap lay a s))"
    and "q \<in> pid_set s \<Longrightarrow> q \<noteq> p \<Longrightarrow>
      task_space (get_page_directory_for_pid lay q) (get_base_page_table_for_pid lay q) sq (snd (sys_vidmap lay a s))
      = task_space (get_page_directory_for_pid lay q) (get_base_page_table_for_pid lay q) sq s"
proof -
  have p: "0 \<le> p" "p < 6" using assms(3) by (auto simp: running_def dest: pid_set_bounds)
  note e = vidmap_eq [OF assms(2-5), of lay] and tok = layout_tables [OF assms(1) p]
  have pm: "ptmem (store32 a VIDEO s) = ptmem s" by (simp add: store32_def)
  show "task_space (get_page_directory_for_pid lay p) (get_base_page_table_for_pid lay p)
           (sp\<lparr>vidmapped := True\<rparr>) (snd (sys_vidmap lay a s))"
    unfolding e snd_conv
    by (rule vidmap_grants_space [OF tok]) (use assms(6) task_space_cong [OF pm] in simp)
  assume q: "q \<in> pid_set s" "q \<noteq> p"
  then have "0 \<le> q" "q < 6" by (auto dest: pid_set_bounds)
  then show "task_space (get_page_directory_for_pid lay q) (get_base_page_table_for_pid lay q) sq (snd (sys_vidmap lay a s))
      = task_space (get_page_directory_for_pid lay q) (get_base_page_table_for_pid lay q) sq s"
    unfolding e snd_conv
    using only_tables_space [OF user_access_only [OF tok], of _ _ sq VIDEO VIDEO "store32 a VIDEO s"]
      layout_apart [OF assms(1) p, of q] layout_tables [OF assms(1), of q] q(2) task_space_cong [OF pm]
    by simp
qed

end
