(* ===== verification/Execute.thy ===== *)
theory Execute
  imports Syscalls
begin

text \<open>
  Starting and ending programs: \<^verbatim>\<open>execute\<close>, \<^verbatim>\<open>internal_execute\<close>, \<^verbatim>\<open>halt\<close> and
  \<^verbatim>\<open>halt_excep\<close> from \<^verbatim>\<open>student-distrib/syscalls.c\<close>.

  \<^verbatim>\<open>internal_execute\<close> either returns an error or leaves for user code with an
  \<^verbatim>\<open>iret\<close>; its frame stays on the kernel stack. \<^verbatim>\<open>halt\<close> of the started program loads
  the parent's stack and base pointer and jumps to the label \<^verbatim>\<open>JMP_POS_HALT\<close> in that frame:
  the code from there to the end is \<open>execute_resume\<close>, and what it returns is what the
  parent's call of \<^verbatim>\<open>execute\<close> returns.

  Where the compiler puts the local arrays and what the stack and base pointer are is not in
  the sources: these are the fields of the argument \<open>fr\<close>. The command pointer of the
  shells that the kernel starts itself, the constant \<^verbatim>\<open>"shell"\<close>, is the argument
  \<open>shell_str\<close> of \<^verbatim>\<open>halt\<close>.
\<close>

section \<open>Operations\<close>

record exec_locals =
  commandstring :: u32
  magic :: u32
  entry_point_address :: u32
  frame_esp :: u32
  frame_ebp :: u32

datatype flow = Return int | To_user (user_eip: u32) (user_eflags: u32) (user_esp: u32)

text \<open>
  The loop that ends the file name at the first space; \<^verbatim>\<open>strlen\<close> is evaluated in every round.
\<close>

partial_function (option) split_command ::
    "u32 \<Rightarrow> u32 \<Rightarrow> u32 \<Rightarrow> 'a machine_scheme \<Rightarrow> (u32 \<times> 'a machine_scheme) option" where
  "split_command cs i argstring s =
     (case strlen s cs of
        None \<Rightarrow> None
      | Some n \<Rightarrow>
          if i < n then
            (if load s (cs + i) = EMPTY_SPACE then Some (cs + (i + 1), store (cs + i) NULL_CHAR s)
             else split_command cs (i + 1) (cs + (i + 1)) s)
          else Some (argstring, s))"

definition elf_magic :: "'a machine_scheme \<Rightarrow> u32 \<Rightarrow> bool" where
  "elf_magic s m \<longleftrightarrow> load s m = 0x7F \<and> load s (m + 1) = 0x45 \<and> load s (m + 2) = 0x4C \<and> load s (m + 3) = 0x46"

text \<open>From the page directory to the switch to user mode (lines 139 to 207).\<close>

definition start_process ::
    "layout \<Rightarrow> exec_locals \<Rightarrow> u32 \<Rightarrow> u32 \<Rightarrow> u32 \<Rightarrow> int \<Rightarrow> u32 \<Rightarrow> u32 \<Rightarrow> u32 \<Rightarrow> 'a kernel_scheme \<Rightarrow> flow \<times> 'a kernel_scheme" where
  "start_process lay fr flags interrupt_flags pcb_curr new_pid ino argstring entry_point s =
     (let pd = get_page_directory_for_pid lay new_pid;
          base_pt = get_base_page_table_for_pid lay new_pid;
          proc_memory_start = block_address_for_process new_pid;
          (_, s) = read_data ino 0 (proc_memory_start + TASK_PROGRAM_IMAGE_OFFSET)
                     (LITERAL_4MB - TASK_PROGRAM_IMAGE_OFFSET) s;
          s = setup_task_paging pd base_pt proc_memory_start s;
          pcb_child = pcb_address new_pid;
          term = get_terminal_state s;
          s = upd_pcb pcb_child (\<lambda>p. p\<lparr>pcb_esp0 := tss_esp0 s, parentPCB := pcb_curr, pid := new_pid,
                args := argstring, pcb_flags := flags, owned_by_terminal := term\<rparr>) s;
          s = upd_terminal (unat term) (\<lambda>t. t\<lparr>t_pid := of_int new_pid\<rparr>) s;
          s = s\<lparr>tss_esp0 := kernel_stack new_pid\<rparr>;
          std = \<lparr>fops_jmp_table = Some terminal_table, fd_inode = 0, position = 0, fd_flags = 1\<rparr>;
          s = upd_fd pcb_child 0 (\<lambda>_. std) s;
          s = upd_fd pcb_child 1 (\<lambda>_. std) s;
          s = upd_pcb pcb_child (\<lambda>p. p\<lparr>fd_array := clear_fd_array (fd_array p)\<rparr>) s;
          (_, s) = mark_pid_used new_pid s;
          s = set_new_page_directory pd s;
          s = (if flags AND 1 = 0
               then upd_pcb pcb_curr (\<lambda>p. p\<lparr>esp_k := frame_esp fr, ebp_k := frame_ebp fr\<rparr>) s
               else s);
          s = s\<lparr>frames := (frames s)(frame_ebp fr :=
                 \<lparr>fr_pid = new_pid, fr_pcb_child = pcb_child, fr_interrupt_flags = interrupt_flags\<rparr>)\<rparr>
      in (To_user entry_point 0x3206 (TASK_VIRTUAL_BASE_ADDRESS + LITERAL_4MB), s\<lparr>eflags := 0x3206\<rparr>))"

text \<open>The checks of the named file: it exists, is a regular file and starts with the magic bytes.\<close>

definition load_program ::
    "layout \<Rightarrow> exec_locals \<Rightarrow> u32 \<Rightarrow> u32 \<Rightarrow> u32 \<Rightarrow> int \<Rightarrow> u32 \<Rightarrow> 'a kernel_scheme \<Rightarrow> flow \<times> 'a kernel_scheme" where
  "load_program lay fr flags interrupt_flags pcb_curr new_pid argstring s =
     (case read_dentry_by_name (commandstring fr) s of
        (r, None) \<Rightarrow> (Return FAILURE, s)
      | (r, Some entry) \<Rightarrow>
          if filetype entry \<noteq> FILETYPE_REGULAR then (Return FAILURE, s)
          else
            let (_, s) = read_data (inode entry) 0 (magic fr) 4 s
            in if \<not> elf_magic s (magic fr) then (Return FAILURE, s)
               else
                 let (_, s) = read_data (inode entry) 24 (entry_point_address fr) 4 s
                 in start_process lay fr flags interrupt_flags pcb_curr new_pid (inode entry) argstring
                      (load32 s (entry_point_address fr)) s)"

definition internal_execute ::
    "layout \<Rightarrow> exec_locals \<Rightarrow> u32 \<Rightarrow> u32 \<Rightarrow> 'a kernel_scheme \<Rightarrow> (flow \<times> 'a kernel_scheme) option" where
  "internal_execute lay fr command flags s =
     (let pcb_curr = current_pcb s;
          (interrupt_flags, s) = cli_and_save s;
          s = (if all_pids_available s
               then upd_pcb pcb_curr (\<lambda>p. p\<lparr>pid := KERNEL_PID, parentPCB := 0, args := 0, ret_val := 0, pcb_esp0 := 0\<rparr>) s
               else s);
          new_pid = get_available_pid s
      in if new_pid = FAILURE then Some (Return FAILURE, s)
         else case strlen s command of
           None \<Rightarrow> None
         | Some n \<Rightarrow>
             if n \<ge> 128 then Some (Return FAILURE, s)
             else case strcpy (commandstring fr) command s of
               None \<Rightarrow> None
             | Some s \<Rightarrow>
                 case split_command (commandstring fr) 0 0 s of
                   None \<Rightarrow> None
                 | Some (argstring, s) \<Rightarrow>
                     Some (load_program lay fr flags interrupt_flags pcb_curr new_pid argstring s))"

definition execute :: "layout \<Rightarrow> exec_locals \<Rightarrow> u32 \<Rightarrow> 'a kernel_scheme \<Rightarrow> (flow \<times> 'a kernel_scheme) option" where
  "execute lay fr command s = internal_execute lay fr command USER_EXECUTE s"

text \<open>The end of \<^verbatim>\<open>internal_execute\<close>, from \<^verbatim>\<open>JMP_POS_HALT\<close> on, in the frame at \<open>ebp\<close>.\<close>

definition execute_resume :: "u32 \<Rightarrow> 'a kernel_scheme \<Rightarrow> flow \<times> 'a kernel_scheme" where
  "execute_resume ebp s =
     (let f = frames s ebp;
          halt_status = sint (ret_val (pcbs s (fr_pcb_child f)));
          (_, s) = mark_pid_free (fr_pid f) s;
          s = restore_flags (fr_interrupt_flags f) s
      in (Return halt_status, s))"

text \<open>What \<^verbatim>\<open>halt\<close> and \<^verbatim>\<open>halt_excep\<close> share after the shell check.\<close>

definition leave_process :: "layout \<Rightarrow> u32 \<Rightarrow> u32 \<Rightarrow> u32 \<Rightarrow> 'a kernel_scheme \<Rightarrow> flow \<times> 'a kernel_scheme" where
  "leave_process lay pcb_curr pcb_parent status s =
     (let par = pcbs s pcb_parent;
          pd = (if pid par = KERNEL_PID then get_kernel_page_directory lay
                else get_page_directory_for_pid lay (pid par));
          s = set_new_page_directory pd s;
          s = upd_pcb pcb_curr (\<lambda>p. p\<lparr>ret_val := status\<rparr>) s;
          par = pcbs s pcb_parent;
          s = upd_terminal (unat (owned_by_terminal par)) (\<lambda>t. t\<lparr>t_pid := of_int (pid par)\<rparr>) s
      in execute_resume (ebp_k par) s)"

definition halt ::
    "layout \<Rightarrow> exec_locals \<Rightarrow> u32 \<Rightarrow> u8 \<Rightarrow> 'a kernel_scheme \<Rightarrow> (flow \<times> 'a kernel_scheme) option" where
  "halt lay fr shell_str status s =
     (let s = cli s;
          pcb_curr = current_pcb s;
          s = s\<lparr>tss_esp0 := pcb_esp0 (pcbs s pcb_curr)\<rparr>;
          pcb_parent = parentPCB (pcbs s pcb_curr)
      in if pcb_flags (pcbs s pcb_curr) = FIRST_TERM_SHELL
         then
           let s = cli s;
               (_, s) = mark_pid_free (pid (pcbs s pcb_curr)) s
           in case internal_execute lay fr shell_str FIRST_TERM_SHELL s of
                None \<Rightarrow> None
              | Some (To_user e f p, s) \<Rightarrow> Some (To_user e f p, s)
              | Some (Return r, s) \<Rightarrow> Some (leave_process lay pcb_curr pcb_parent (ucast status) s)
         else Some (leave_process lay pcb_curr pcb_parent (ucast status) s))"

definition halt_excep :: "layout \<Rightarrow> int \<Rightarrow> 'a kernel_scheme \<Rightarrow> flow \<times> 'a kernel_scheme" where
  "halt_excep lay status s =
     (let s = cli s;
          pcb_curr = current_pcb s;
          s = s\<lparr>tss_esp0 := pcb_esp0 (pcbs s pcb_curr)\<rparr>;
          pcb_parent = parentPCB (pcbs s pcb_curr)
      in leave_process lay pcb_curr pcb_parent (of_int status) s)"

section \<open>The effect of starting a process\<close>

definition std_fd :: file_info where
  "std_fd = \<lparr>fops_jmp_table = Some terminal_table, fd_inode = 0, position = 0, fd_flags = 1\<rparr>"

definition fresh_fds :: "(nat \<Rightarrow> file_info) \<Rightarrow> nat \<Rightarrow> file_info" where
  "fresh_fds fds i = (if i < 2 then std_fd
     else if i < 8 then \<lparr>fops_jmp_table = None, fd_inode = 0, position = 0, fd_flags = 0\<rparr> else fds i)"

lemma clear_fd_array_eq:
  "clear_fd_array fds i = (if 2 \<le> i \<and> i < 8
     then \<lparr>fops_jmp_table = None, fd_inode = 0, position = 0, fd_flags = 0\<rparr> else fds i)"
  by (auto simp: clear_fd_array_def for_loop_def upt_rec)

lemma fds_ok_fresh: "fds_ok (fresh_fds fds)"
  by (auto simp: fds_ok_def fresh_fds_def std_fd_def)

definition child_pcb :: "u32 \<Rightarrow> u32 \<Rightarrow> u32 \<Rightarrow> u8 \<Rightarrow> int \<Rightarrow> u32 \<Rightarrow> pcb \<Rightarrow> pcb" where
  "child_pcb esp0 parent flags term new_pid argstring p =
     p\<lparr>pcb_esp0 := esp0, parentPCB := parent, pid := new_pid, args := argstring, pcb_flags := flags,
       owned_by_terminal := term, fd_array := fresh_fds (fd_array p)\<rparr>"

lemma setup_task_paging_ptmem: "\<exists>m. setup_task_paging pd bt a s = s\<lparr>ptmem := m\<rparr>"
proof -
  have se: "\<exists>m. set_entry tab i v t = t\<lparr>ptmem := m\<rparr>" for tab i v and t :: "'a paging_scheme"
    by (auto simp: set_entry_def)
  have lp: "\<exists>m. for_loop i j (\<lambda>k. set_entry tab k (f k)) t = t\<lparr>ptmem := m\<rparr>" if "i \<le> j"
    for i j tab f and t :: "'a paging_scheme"
  proof (rule for_loop_inv [OF that, where P = "\<lambda>_ u. \<exists>m. u = t\<lparr>ptmem := m\<rparr>"])
    show "\<exists>m. t = t\<lparr>ptmem := m\<rparr>" by (rule exI [of _ "ptmem t"]) simp
  next
    fix k u assume "\<exists>m. u = t\<lparr>ptmem := m\<rparr>"
    then show "\<exists>m. set_entry tab k (f k) u = t\<lparr>ptmem := m\<rparr>" using se [of tab k "f k" u] by auto
  qed
  obtain m1 where 1: "set_entry pd 0 (PDE_ADDRESS_ASSIGN bt OR PDE_ENTRY_PRESENT) s = s\<lparr>ptmem := m1\<rparr>"
    using se by blast
  obtain m2 where 2: "setup_base_page_table bt (s\<lparr>ptmem := m1\<rparr>) = s\<lparr>ptmem := m2\<rparr>"
    using lp [of 0 1024 bt base_page_entry "s\<lparr>ptmem := m1\<rparr>"] by (auto simp: setup_base_page_table_def)
  obtain m3 where 3: "set_entry pd 1 (PDE_ADDRESS_ASSIGN KERNEL_BASE_ADDRESS OR PDE_ENTRY_4MB_PRESENT)
      (s\<lparr>ptmem := m2\<rparr>) = s\<lparr>ptmem := m3\<rparr>" using se [of pd 1 _ "s\<lparr>ptmem := m2\<rparr>"] by auto
  obtain m4 where 4: "for_loop 2 8 (\<lambda>i. set_entry pd i (PDE_ADDRESS_ASSIGN (of_nat i * 0x400000) OR PDE_ENTRY_4MB_PRESENT))
      (s\<lparr>ptmem := m3\<rparr>) = s\<lparr>ptmem := m4\<rparr>"
    using lp [of 2 8 pd "\<lambda>i. PDE_ADDRESS_ASSIGN (of_nat i * 0x400000) OR PDE_ENTRY_4MB_PRESENT" "s\<lparr>ptmem := m3\<rparr>"]
    by auto
  have "\<exists>m. for_loop 8 1024 (\<lambda>k. set_entry pd k (f k)) (s\<lparr>ptmem := m4\<rparr>) = s\<lparr>ptmem := m\<rparr>" for f
    using lp [of 8 1024 pd f "s\<lparr>ptmem := m4\<rparr>"] by auto
  note last = this
  show ?thesis unfolding setup_task_paging_def Let_def 1 2 3 4 by (rule last)
qed

lemma setup_task_frame [simp]:
  fixes s :: "'a kernel_scheme"
  shows "pcbs (setup_task_paging pd bt a s) = pcbs s" "tss_esp0 (setup_task_paging pd bt a s) = tss_esp0 s"
    "terminal_state (setup_task_paging pd bt a s) = terminal_state s" "terminals (setup_task_paging pd bt a s) = terminals s"
    "frames (setup_task_paging pd bt a s) = frames s" "pid_avail (setup_task_paging pd bt a s) = pid_avail s"
    "ram (setup_task_paging pd bt a s) = ram s" "eflags (setup_task_paging pd bt a s) = eflags s"
    "terminal_being_serviced (setup_task_paging pd bt a s) = terminal_being_serviced s"
    "bootblock (setup_task_paging pd bt a s) = bootblock s" "inodes (setup_task_paging pd bt a s) = inodes s"
    "datablocks (setup_task_paging pd bt a s) = datablocks s" "xlat (setup_task_paging pd bt a s) = xlat s"
  using setup_task_paging_ptmem [of pd bt a s] by auto

lemma start_process_sel:
  assumes "start_process lay fr flags ifl cur n ino arg ep s = (fl, t)" "0 \<le> n" "n < 6" "cur \<noteq> pcb_address n"
    and "s0 = snd (read_data ino 0 (block_address_for_process n + TASK_PROGRAM_IMAGE_OFFSET)
                     (LITERAL_4MB - TASK_PROGRAM_IMAGE_OFFSET) s)"
    and "s1 = setup_task_paging (get_page_directory_for_pid lay n) (get_base_page_table_for_pid lay n)
                (block_address_for_process n) s0"
  shows "fl = To_user ep 0x3206 0x08400000"
    and "pcbs t = (pcbs s)(pcb_address n := child_pcb (tss_esp0 s) cur flags (terminal_state s) n arg (pcbs s (pcb_address n)),
           cur := (if flags AND 1 = 0 then (pcbs s cur)\<lparr>esp_k := frame_esp fr, ebp_k := frame_ebp fr\<rparr> else pcbs s cur))"
    and "pid_avail t = pid_avail (snd (mark_pid_used n s))"
    and "ptmem t = ptmem s1" and "cr3 t = get_page_directory_for_pid lay n" and "tss_esp0 t = kernel_stack n"
    and "frames t = (frames s)(frame_ebp fr := \<lparr>fr_pid = n, fr_pcb_child = pcb_address n, fr_interrupt_flags = ifl\<rparr>)"
    and "terminals t = (terminals s)(unat (terminal_state s) := (terminals s (unat (terminal_state s)))\<lparr>t_pid := of_int n\<rparr>)"
    and "terminal_state t = terminal_state s" and "eflags t = 0x3206" and "ram t = ram s0"
    and "xlat t = mmu_xlat (ptmem s1) (get_page_directory_for_pid lay n)"
    and "terminals_launched t = terminals_launched s"
proof -
  obtain bs where s0: "s0 = write_bytes (block_address_for_process n + TASK_PROGRAM_IMAGE_OFFSET) bs s"
    using read_data_footprint [of "block_address_for_process n + TASK_PROGRAM_IMAGE_OFFSET"
        "LITERAL_4MB - TASK_PROGRAM_IMAGE_OFFSET" s ino 0] assms(5) by (auto simp: writes_buf_def)
  obtain m where s1: "s1 = s0\<lparr>ptmem := m\<rparr>" using setup_task_paging_ptmem assms(6) by blast
  have cl: "(clear_fd_array (fds(0 := std_fd, Suc 0 := std_fd))) = fresh_fds fds" for fds
    by (rule ext) (auto simp: clear_fd_array_eq fresh_fds_def less_Suc_eq numeral_2_eq_2)
  have mk: "snd (mark_pid_used n u) = u\<lparr>pid_avail := pid_avail u OR push_bit (nat n) 1\<rparr>"
    for u :: "'b sched_scheme"
    using assms(2,3) by (simp add: mark_pid_used_def)
  have t: "(fl, t) = start_process lay fr flags ifl cur n ino arg ep s" using assms(1) by simp
  note defs = start_process_def Let_def case_prod_beta std_fd_def [symmetric] assms(5) [symmetric] mk
    get_terminal_state_def set_new_page_directory_def child_pcb_def
  show "fl = To_user ep 0x3206 0x08400000" using t by (simp add: start_process_def Let_def case_prod_beta)
  show "pcbs t = (pcbs s)(pcb_address n := child_pcb (tss_esp0 s) cur flags (terminal_state s) n arg (pcbs s (pcb_address n)),
           cur := (if flags AND 1 = 0 then (pcbs s cur)\<lparr>esp_k := frame_esp fr, ebp_k := frame_ebp fr\<rparr> else pcbs s cur))"
    using t assms(4) unfolding defs by (auto simp: cl s0)
  show "pid_avail t = pid_avail (snd (mark_pid_used n s))" using t unfolding defs by (simp add: s0)
  show "ptmem t = ptmem s1" using t unfolding defs assms(6) [symmetric] by simp
  show "cr3 t = get_page_directory_for_pid lay n" using t unfolding defs by simp
  show "tss_esp0 t = kernel_stack n" using t unfolding defs by simp
  show "frames t = (frames s)(frame_ebp fr := \<lparr>fr_pid = n, fr_pcb_child = pcb_address n, fr_interrupt_flags = ifl\<rparr>)"
    using t unfolding defs by (simp add: s0)
  show "terminals t = (terminals s)(unat (terminal_state s) := (terminals s (unat (terminal_state s)))\<lparr>t_pid := of_int n\<rparr>)"
    using t unfolding defs by (simp add: s0)
  show "terminal_state t = terminal_state s" using t unfolding defs by (simp add: s0)
  show "eflags t = 0x3206" using t unfolding defs by simp
  show "ram t = ram s0" using t unfolding defs by simp
  show "xlat t = mmu_xlat (ptmem s1) (get_page_directory_for_pid lay n)"
    using t unfolding defs assms(6) [symmetric] by simp
  show "terminals_launched t = terminals_launched s"
    using t unfolding defs assms(6) [symmetric] by (simp add: s0 s1 upd_fd_def)
qed


section \<open>Runs of execute\<close>

text \<open>Everything up to \<open>start_process\<close> changes memory only.\<close>

definition mem_only :: "'a machine_scheme \<Rightarrow> 'a machine_scheme \<Rightarrow> bool" where
  "mem_only s t \<longleftrightarrow> machine.more t = machine.more s \<and> xlat t = xlat s \<and> eflags t = eflags s"

lemma mem_only_refl [simp]: "mem_only s s"
  by (simp add: mem_only_def)

lemma mem_only_trans: "mem_only s t \<Longrightarrow> mem_only t u \<Longrightarrow> mem_only s u"
  by (simp add: mem_only_def)

lemma mem_only_store [simp]: "mem_only s (store a v t) = mem_only s t"
  "mem_only s (write_bytes a bs t) = mem_only s t"
  by (simp_all add: mem_only_def)

lemma mem_only_strcpy: "strcpy d r s = Some t \<Longrightarrow> mem_only s t"
proof -
  have "mem_only s t" if "strcpy_from d r i s = Some t" for i
    using _ that
  proof (rule strcpy_from.raw_induct)
    fix f :: "u32 \<Rightarrow> u32 \<Rightarrow> u32 \<Rightarrow> 'a machine_scheme \<Rightarrow> 'a machine_scheme option"
      and d r i and s t :: "'a machine_scheme"
    assume IH: "\<And>d r i s t. f d r i s = Some t \<Longrightarrow> mem_only s t"
      and e: "(if load s (r + i) \<noteq> 0 then f d r (i + 1) (store (d + i) (load s (r + i)) s)
               else Some (store (d + i) 0 s)) = Some t"
    show "mem_only s t"
    proof (cases "load s (r + i) \<noteq> 0")
      case True
      then have "mem_only (store (d + i) (load s (r + i)) s) t" using e by (auto intro: IH)
      then show ?thesis by (simp add: mem_only_def)
    qed (use e in auto)
  qed
  then show "strcpy d r s = Some t \<Longrightarrow> mem_only s t" by (simp add: strcpy_def)
qed

lemma mem_only_split: "split_command cs i arg s = Some (a, t) \<Longrightarrow> mem_only s t"
proof -
  have "mem_only s (snd at)" if "split_command cs i arg s = Some at" for at
    using _ that
  proof (rule split_command.raw_induct)
    fix f :: "u32 \<Rightarrow> u32 \<Rightarrow> u32 \<Rightarrow> 'a machine_scheme \<Rightarrow> (u32 \<times> 'a machine_scheme) option"
      and cs i arg and s :: "'a machine_scheme" and at
    assume IH: "\<And>cs i arg s at. f cs i arg s = Some at \<Longrightarrow> mem_only s (snd at)"
      and e: "(case strlen s cs of None \<Rightarrow> None
        | Some n \<Rightarrow> if i < n then if load s (cs + i) = 32 then Some (cs + (i + 1), store (cs + i) 0 s)
                     else f cs (i + 1) (cs + (i + 1)) s else Some (arg, s)) = Some at"
    show "mem_only s (snd at)" using e by (auto split: option.splits if_splits dest: IH)
  qed
  from this [of "(a, t)"] show "split_command cs i arg s = Some (a, t) \<Longrightarrow> mem_only s t" by simp
qed

lemma mem_only_read_data: "mem_only s (snd (read_data ino off buf n s))"
  using read_data_footprint [of buf n s ino off] by (auto simp: writes_buf_def)

lemma mem_only_same: "mem_only s t \<Longrightarrow> same_procs s (t :: 'a kernel_scheme)"
  unfolding mem_only_def same_procs_def by (cases s; cases t) simp

text \<open>The state in which the checks of the command begin.\<close>

definition exec_entry :: "'a kernel_scheme \<Rightarrow> 'a kernel_scheme" where
  "exec_entry s = (if all_pids_available s
     then upd_pcb (current_pcb s) (\<lambda>p. p\<lparr>pid := KERNEL_PID, parentPCB := 0, args := 0, ret_val := 0, pcb_esp0 := 0\<rparr>) (cli s)
     else cli s)"

lemma load_program_cases:
  assumes "load_program lay fr flags ifl cur n arg s = (fl, t)"
  obtains (fail) "fl = Return FAILURE" "mem_only s t"
  | (start) u ino ep where "mem_only s u" "start_process lay fr flags ifl cur n ino arg ep u = (fl, t)"
proof -
  obtain r e where d: "read_dentry_by_name (commandstring fr) s = (r, e)" by fastforce
  show thesis
  proof (cases e)
    case None
    then show thesis using assms d fail by (simp add: load_program_def)
  next
    case (Some entry)
    let ?s1 = "snd (read_data (inode entry) 0 (magic fr) 4 s)"
    let ?s2 = "snd (read_data (inode entry) 24 (entry_point_address fr) 4 ?s1)"
    have m: "mem_only s ?s1" "mem_only s ?s2"
      using mem_only_read_data [of s] mem_only_trans [OF mem_only_read_data mem_only_read_data] by blast+
    show thesis
      using assms d Some fail start [OF m(2)] m(1)
      by (auto simp: load_program_def Let_def case_prod_beta split: if_splits)
  qed
qed

lemma internal_execute_cases:
  assumes "internal_execute lay fr command flags s = Some (fl, t)"
  obtains (fail) "fl = Return FAILURE" "mem_only (exec_entry s) t"
  | (start) u arg ino ep where "get_available_pid s \<noteq> FAILURE" "mem_only (exec_entry s) u"
      "start_process lay fr flags (eflags s) (current_pcb s) (get_available_pid s) ino arg ep u = (fl, t)"
proof -
  have e: "(if all_pids_available (cli s)
      then upd_pcb (current_pcb s) (\<lambda>p. p\<lparr>pid := KERNEL_PID, parentPCB := 0, args := 0, ret_val := 0, pcb_esp0 := 0\<rparr>) (cli s)
      else cli s) = exec_entry s"
    by (simp add: exec_entry_def all_pids_available_def cli_def)
  have g: "get_available_pid (exec_entry s) = get_available_pid s"
    by (simp add: get_available_pid_def exec_entry_def cli_def)
  note x = assms [unfolded internal_execute_def Let_def cli_and_save_def prod.case e g]
  show thesis
  proof (cases "get_available_pid s = FAILURE")
    case True
    then show thesis using x fail by simp
  next
    case False
    obtain n where n: "strlen (exec_entry s) command = Some n"
      using x False by (cases "strlen (exec_entry s) command") auto
    show thesis
    proof (cases "n \<ge> 128")
      case True
      then show thesis using x n False fail by simp
    next
      case short: False
      obtain s1 where s1: "strcpy (commandstring fr) command (exec_entry s) = Some s1"
        using x False n short by (cases "strcpy (commandstring fr) command (exec_entry s)") auto
      obtain arg s2 where s2: "split_command (commandstring fr) 0 0 s1 = Some (arg, s2)"
        using x False n short s1 by (cases "split_command (commandstring fr) 0 0 s1") auto
      have m: "mem_only (exec_entry s) s2"
        using mem_only_strcpy [OF s1] mem_only_split [OF s2] by (rule mem_only_trans)
      have "load_program lay fr flags (eflags s) (current_pcb s) (get_available_pid s) arg s2 = (fl, t)"
        using x False n short s1 s2 by simp
      then show thesis
      proof (cases rule: load_program_cases)
        case fail
        then show thesis using that(1) mem_only_trans [OF m] by blast
      next
        case (start u ino ep)
        then show thesis using that(2) [OF False] mem_only_trans [OF m] by blast
      qed
    qed
  qed
qed


lemma running_exec_entry: "running s p \<Longrightarrow> exec_entry s = cli s"
proof -
  assume "running s p"
  then have "bit (pid_avail s) (nat p)" by (simp add: running_def pid_set_def)
  then have "\<not> all_pids_available s" by (auto simp: all_pids_available_def)
  then show ?thesis by (simp add: exec_entry_def)
qed

lemma mem_only_fields:
  fixes s u :: "'a kernel_scheme"
  assumes "mem_only (cli s) u"
  shows "pcbs u = pcbs s" "pid_avail u = pid_avail s" "tss_esp0 u = tss_esp0 s" "ptmem u = ptmem s"
    "frames u = frames s" "terminals u = terminals s" "terminal_state u = terminal_state s" "xlat u = xlat s"
    "terminal_being_serviced u = terminal_being_serviced s" "cr3 u = cr3 s" "terminals_launched u = terminals_launched s"
proof -
  have "machine.more u = machine.more (cli s)" "xlat u = xlat s" using assms by (simp_all add: mem_only_def)
  then show "pcbs u = pcbs s" "pid_avail u = pid_avail s" "tss_esp0 u = tss_esp0 s" "ptmem u = ptmem s"
    "frames u = frames s" "terminals u = terminals s" "terminal_state u = terminal_state s" "xlat u = xlat s"
    "terminal_being_serviced u = terminal_being_serviced s" "cr3 u = cr3 s" "terminals_launched u = terminals_launched s"
    by (cases s; cases u; simp add: cli_def)+
qed

text \<open>A started program: \<open>n\<close> is the new process and \<open>p\<close> the one that called.\<close>

lemma execute_started:
  fixes s t :: "'a kernel_scheme"
  assumes "running s p" "internal_execute lay fr command flags s = Some (To_user e f u, t)"
    and n: "n = get_available_pid s"
  obtains arg and w :: "'a kernel_scheme" where
    "n \<notin> pid_set s" "0 \<le> n" "n < 6" "pid_set t = insert n (pid_set s)"
    "pcbs t = (pcbs s)(pcb_address n := child_pcb (kernel_stack p) (pcb_address p) flags (terminal_state s) n arg (pcbs s (pcb_address n)),
       pcb_address p := (if flags AND 1 = 0 then (pcbs s (pcb_address p))\<lparr>esp_k := frame_esp fr, ebp_k := frame_ebp fr\<rparr>
                         else pcbs s (pcb_address p)))"
    "ptmem t = ptmem (setup_task_paging (get_page_directory_for_pid lay n) (get_base_page_table_for_pid lay n)
                (block_address_for_process n) w)" "ptmem w = ptmem s"
    "cr3 t = get_page_directory_for_pid lay n" "tss_esp0 t = kernel_stack n"
    "frames t = (frames s)(frame_ebp fr := \<lparr>fr_pid = n, fr_pcb_child = pcb_address n, fr_interrupt_flags = eflags s\<rparr>)"
    "terminals t = (terminals s)(unat (terminal_state s) := (terminals s (unat (terminal_state s)))\<lparr>t_pid := of_int n\<rparr>)"
    "terminal_state t = terminal_state s" "f = 0x3206" "u = 0x08400000" "eflags t = 0x3206"
    "terminals_launched t = terminals_launched s"
  using assms(2)
proof (cases rule: internal_execute_cases)
  case (start v arg ino ep)
  have fresh: "n \<in> {0..<6} - pid_set s"
    using bitmap.pick_fresh [of s] bitmap.pick_fail [of s] start(1) n by blast
  then have nb: "0 \<le> n" "n < 6" "n \<notin> pid_set s" by auto
  have p: "p \<in> pid_set s" "current_pcb s = pcb_address p" "tss_esp0 s = kernel_stack p"
    using assms(1) running_pcb by (auto simp: running_def)
  have m: "mem_only (cli s) v" using start(2) running_exec_entry [OF assms(1)] by simp
  note mf = mem_only_fields [OF m]
  have "p \<noteq> n" using p(1) nb(3) by blast
  then have ne: "current_pcb s \<noteq> pcb_address n"
    using pcb_address_inject [of p n] pid_set_bounds [OF p(1)] nb p(2) by simp
  define w where "w = snd (read_data ino 0 (block_address_for_process n + TASK_PROGRAM_IMAGE_OFFSET)
                     (LITERAL_4MB - TASK_PROGRAM_IMAGE_OFFSET) v)"
  note sel = start_process_sel [OF start(3) [folded n] nb(1,2) ne w_def refl]
  have ps: "pid_set t = insert n (pid_set s)"
  proof -
    have "pid_set t = pid_set (snd (mark_pid_used n v))" using sel(3) by (rule pid_set_cong)
    also have "\<dots> = insert n (pid_set v)" using nb by (intro pid_set_mark_used) auto
    also have "pid_set v = pid_set s" using mf(2) by (rule pid_set_cong)
    finally show ?thesis .
  qed
  have w: "ptmem w = ptmem s"
    using mem_only_same [OF mem_only_read_data, of v ino 0] mf(4) by (simp add: w_def same_procs_def)
  show thesis
    by (rule that [of arg w, OF nb(3,1,2) ps _ sel(4) w sel(5,6)]) (use sel mf p in \<open>simp_all add: w_def\<close>)
qed simp


definition fresh_space :: "int \<Rightarrow> space" where
  "fresh_space n = \<lparr>block = block_address_for_process n, vidmapped = False, video_frame = VIDEO\<rparr>"

lemma block_big_aligned: "0 \<le> n \<Longrightarrow> n < 6 \<Longrightarrow> big_aligned (block_address_for_process n)"
  by (drule (1) six_pids) (auto simp: block_address_for_process_def big_aligned_def)

lemma fresh_space_ok: "0 \<le> n \<Longrightarrow> n < 6 \<Longrightarrow> space_ok (fresh_space n)"
  by (simp add: fresh_space_def space_ok_def block_big_aligned page_aligned_store)

lemma child_pcb_sel [simp]:
  "pid (child_pcb e q fl tm n a b) = n" "fd_array (child_pcb e q fl tm n a b) = fresh_fds (fd_array b)"
  "owned_by_terminal (child_pcb e q fl tm n a b) = tm" "parentPCB (child_pcb e q fl tm n a b) = q"
  "pcb_esp0 (child_pcb e q fl tm n a b) = e" "pcb_flags (child_pcb e q fl tm n a b) = fl"
  "args (child_pcb e q fl tm n a b) = a"
  by (simp_all add: child_pcb_def)

lemma execute_procs_ok:
  assumes "procs_ok s" "running s p" "uint (terminal_state s) < 3"
    and "internal_execute lay fr command flags s = Some (To_user e f u, t)"
  shows "procs_ok t" "running t (get_available_pid s)" "pid_set t = insert (get_available_pid s) (pid_set s)"
    and "get_available_pid s \<notin> pid_set s"
proof -
  let ?n = "get_available_pid s"
  from execute_started [OF assms(2,4) refl] obtain arg w where
    n: "?n \<notin> pid_set s" "0 \<le> ?n" "?n < 6" and ps: "pid_set t = insert ?n (pid_set s)"
    and pc: "pcbs t = (pcbs s)(pcb_address ?n := child_pcb (kernel_stack p) (pcb_address p) flags (terminal_state s) ?n arg (pcbs s (pcb_address ?n)),
       pcb_address p := (if flags AND 1 = 0 then (pcbs s (pcb_address p))\<lparr>esp_k := frame_esp fr, ebp_k := frame_ebp fr\<rparr>
                         else pcbs s (pcb_address p)))"
    and ts: "tss_esp0 t = kernel_stack ?n" by metis
  show "pid_set t = insert ?n (pid_set s)" "?n \<notin> pid_set s" using ps n by simp_all
  show "running t ?n" using ps ts by (simp add: running_def)
  have p: "p \<in> pid_set s" using assms(2) by (simp add: running_def)
  show "procs_ok t"
    unfolding procs_ok_def ps
  proof
    fix q assume "q \<in> insert ?n (pid_set s)"
    then consider "q = ?n" | "q \<in> pid_set s" "q \<noteq> ?n" by blast
    then show "pid (pcbs t (pcb_address q)) = q \<and> fds_ok (fd_array (pcbs t (pcb_address q))) \<and>
        uint (owned_by_terminal (pcbs t (pcb_address q))) < 3"
    proof cases
      case 1
      have "pcb_address ?n \<noteq> pcb_address p"
        using pcb_address_inject [of ?n p] n pid_set_bounds [OF p] p by auto
      then show ?thesis using 1 pc assms(3) by (simp add: fds_ok_fresh)
    next
      case 2
      have "pcb_address q \<noteq> pcb_address ?n"
        using pcb_address_inject [of q ?n] n pid_set_bounds [OF 2(1)] 2 by auto
      moreover have "pcb_address q = pcb_address p \<longleftrightarrow> q = p"
        using pcb_address_inject [of q p] pid_set_bounds [OF p] pid_set_bounds [OF 2(1)] by blast
      ultimately show ?thesis using 2 pc assms(1) p by (auto simp: procs_ok_def)
    qed
  qed
qed

lemma execute_spaces:
  assumes "layout_ok lay" "running s p" "spaces_ok lay sps s"
    and "internal_execute lay fr command flags s = Some (To_user e f u, t)"
  shows "spaces_ok lay (sps(get_available_pid s := fresh_space (get_available_pid s))) t"
    and "cr3 t = get_page_directory_for_pid lay (get_available_pid s)"
proof -
  let ?n = "get_available_pid s"
  let ?pd = "get_page_directory_for_pid lay" and ?bt = "get_base_page_table_for_pid lay"
  from execute_started [OF assms(2,4) refl] obtain arg and w :: "'a kernel_scheme" where
    n: "?n \<notin> pid_set s" "0 \<le> ?n" "?n < 6" and ps: "pid_set t = insert ?n (pid_set s)"
    and pc: "pcbs t = (pcbs s)(pcb_address ?n := child_pcb (kernel_stack p) (pcb_address p) flags (terminal_state s) ?n arg (pcbs s (pcb_address ?n)),
       pcb_address p := (if flags AND 1 = 0 then (pcbs s (pcb_address p))\<lparr>esp_k := frame_esp fr, ebp_k := frame_ebp fr\<rparr>
                         else pcbs s (pcb_address p)))"
    and pt: "ptmem t = ptmem (setup_task_paging (?pd ?n) (?bt ?n) (block_address_for_process ?n) w)" "ptmem w = ptmem s"
    and cr: "cr3 t = ?pd ?n" and tm: "terminal_state t = terminal_state s" by metis
  show "cr3 t = ?pd ?n" by (rule cr)
  have p: "p \<in> pid_set s" using assms(2) by (simp add: running_def)
  note tok = layout_tables [OF assms(1) n(2,3)]
  let ?w = "setup_task_paging (?pd ?n) (?bt ?n) (block_address_for_process ?n) w"
  show "spaces_ok lay (sps(?n := fresh_space ?n)) t"
    unfolding spaces_ok_def ps
  proof
    fix q assume "q \<in> insert ?n (pid_set s)"
    then consider "q = ?n" | "q \<in> pid_set s" "q \<noteq> ?n" by blast
    then show "space_ok ((sps(?n := fresh_space ?n)) q) \<and> task_space (?pd q) (?bt q) ((sps(?n := fresh_space ?n)) q) t
        \<and> video_frame ((sps(?n := fresh_space ?n)) q) = terminal_frame t (owner t q)"
    proof cases
      case 1
      have "pcb_address ?n \<noteq> pcb_address p"
        using pcb_address_inject [of ?n p] n pid_set_bounds [OF p] p by auto
      then have "owner t ?n = uint (terminal_state t)" using pc tm by (simp add: owner_def)
      moreover have "task_space (?pd ?n) (?bt ?n) (fresh_space ?n) t"
        using setup_task_paging_space [OF tok block_big_aligned [OF n(2,3)], of w] task_space_cong [OF pt(1)]
        by (simp add: fresh_space_def)
      ultimately show ?thesis
        using 1 fresh_space_ok [OF n(2,3)] by (simp add: terminal_frame_def fresh_space_def)
    next
      case 2
      note b = pid_set_bounds [OF 2(1)]
      have "pcb_address q \<noteq> pcb_address ?n" using pcb_address_inject [of q ?n] n b 2 by auto
      then have "owner t q = owner s q" using pc by (simp add: owner_def)
      moreover have "task_space (?pd q) (?bt q) (sps q) t = task_space (?pd q) (?bt q) (sps q) s"
      proof -
        have "task_space (?pd q) (?bt q) (sps q) t = task_space (?pd q) (?bt q) (sps q) ?w"
          using pt(1) by (rule task_space_cong)
        also have "\<dots> = task_space (?pd q) (?bt q) (sps q) w"
          using layout_apart [OF assms(1) n(2,3), of q] b 2(2) layout_tables [OF assms(1), of q]
          by (intro only_tables_space [OF setup_task_only [OF tok]]) auto
        also have "\<dots> = task_space (?pd q) (?bt q) (sps q) s" using pt(2) by (rule task_space_cong)
        finally show ?thesis .
      qed
      ultimately show ?thesis using 2 assms(3) tm by (simp add: spaces_ok_def terminal_frame_def)
    qed
  qed
qed


section \<open>Halting returns to the caller of execute\<close>

text \<open>
  What the kernel leaves alone of process \<open>n\<close>, of its parent \<open>p\<close> and of the
  parent's frame while \<open>n\<close> runs, from \<open>t\<close> to \<open>u\<close>.
\<close>

definition kept :: "'a kernel_scheme \<Rightarrow> 'a kernel_scheme \<Rightarrow> int \<Rightarrow> int \<Rightarrow> u32 \<Rightarrow> bool" where
  "kept t u n p ebp \<longleftrightarrow> running u n \<and> p \<in> pid_set u \<and>
     (let a = pcbs t (pcb_address n); b = pcbs u (pcb_address n)
      in parentPCB b = parentPCB a \<and> pcb_esp0 b = pcb_esp0 a \<and> pcb_flags b = pcb_flags a \<and> pid b = pid a) \<and>
     (let a = pcbs t (pcb_address p); b = pcbs u (pcb_address p)
      in pid b = pid a \<and> ebp_k b = ebp_k a \<and> owned_by_terminal b = owned_by_terminal a) \<and>
     frames u ebp = frames t ebp"

lemma leave_process_eq:
  assumes "pid (pcbs u par) = p" "0 \<le> p" "cur \<noteq> par"
    and "frames u (ebp_k (pcbs u par)) = \<lparr>fr_pid = n, fr_pcb_child = cur, fr_interrupt_flags = fl\<rparr>"
  shows "leave_process lay cur par st u =
    (Return (sint st), restore_flags fl (snd (mark_pid_free n
       (upd_terminal (unat (owned_by_terminal (pcbs u par))) (\<lambda>x. x\<lparr>t_pid := of_int p\<rparr>)
         (upd_pcb cur (\<lambda>q. q\<lparr>ret_val := st\<rparr>)
           (set_new_page_directory (get_page_directory_for_pid lay p) u))))))"
  using assms
  by (simp add: leave_process_def execute_resume_def Let_def case_prod_beta set_new_page_directory_def)

lemma mark_pid_free_sel [simp]:
  "tss_esp0 (snd (mark_pid_free n u)) = tss_esp0 u" "cr3 (snd (mark_pid_free n u)) = cr3 u"
  "terminals (snd (mark_pid_free n u)) = terminals u" "pcbs (snd (mark_pid_free n u)) = pcbs u"
  "ptmem (snd (mark_pid_free n u)) = ptmem u" "xlat (snd (mark_pid_free n u)) = xlat u"
  "terminal_state (snd (mark_pid_free n u)) = terminal_state u" "ram (snd (mark_pid_free n u)) = ram u"
  by (simp_all add: mark_pid_free_def)

text \<open>A process that leaves: its parent runs again, in its own address space, with its own flags.\<close>

lemma leave_process_sel:
  assumes "leave_process lay (pcb_address n) (pcb_address p) st u = (fl, v)"
    and "pid (pcbs u (pcb_address p)) = p" "p \<in> pid_set u" "0 \<le> n" "n < 6" "n \<noteq> p"
    and "frames u (ebp_k (pcbs u (pcb_address p))) = \<lparr>fr_pid = n, fr_pcb_child = pcb_address n, fr_interrupt_flags = ifl\<rparr>"
    and "tss_esp0 u = kernel_stack p"
  shows "fl = Return (sint st)" and "running v p" and "pid_set v = pid_set u - {n}"
    and "cr3 v = get_page_directory_for_pid lay p" and "eflags v = ifl" and "ptmem v = ptmem u"
    and "t_pid (terminals v (unat (owned_by_terminal (pcbs u (pcb_address p))))) = of_int p"
    and "\<And>a. a \<noteq> pcb_address n \<Longrightarrow> pcbs v a = pcbs u a"
    and "xlat v = mmu_xlat (ptmem u) (get_page_directory_for_pid lay p)"
    and "terminals v = (terminals u)(unat (owned_by_terminal (pcbs u (pcb_address p))) :=
          (terminals u (unat (owned_by_terminal (pcbs u (pcb_address p)))))\<lparr>t_pid := of_int p\<rparr>)"
    and "pcbs v (pcb_address n) = (pcbs u (pcb_address n))\<lparr>ret_val := st\<rparr>"
    and "frames v = frames u" "terminal_state v = terminal_state u" "terminals_launched v = terminals_launched u"
proof -
  have pb: "0 \<le> p" "p < 6" using pid_set_bounds [OF assms(3)] by auto
  have ne: "pcb_address n \<noteq> pcb_address p"
    using pcb_address_inject [of n p] assms(4-6) pb by auto
  define x where "x = upd_terminal (unat (owned_by_terminal (pcbs u (pcb_address p)))) (\<lambda>x. x\<lparr>t_pid := of_int p\<rparr>)
         (upd_pcb (pcb_address n) (\<lambda>q. q\<lparr>ret_val := st\<rparr>)
           (set_new_page_directory (get_page_directory_for_pid lay p) u))"
  have e: "(fl, v) = (Return (sint st), restore_flags ifl (snd (mark_pid_free n x)))"
    unfolding x_def assms(1) [symmetric] by (rule leave_process_eq [OF assms(2) pb(1) ne assms(7)])
  then have v: "v = restore_flags ifl (snd (mark_pid_free n x))" by simp
  show "fl = Return (sint st)" using e by simp
  have "pid_set x = pid_set u" by (simp add: x_def pid_set_def set_new_page_directory_def)
  then show ps: "pid_set v = pid_set u - {n}"
    using pid_set_mark_free [OF assms(4,5), of x] by (simp add: v pid_set_def restore_flags_def)
  have sel: "tss_esp0 v = tss_esp0 u" "cr3 v = get_page_directory_for_pid lay p" "ptmem v = ptmem u"
    "terminals v = terminals x" "pcbs v = pcbs x" "eflags v = ifl"
    "xlat v = mmu_xlat (ptmem u) (get_page_directory_for_pid lay p)"
    by (simp_all add: v x_def restore_flags_def set_new_page_directory_def upd_terminal_def upd_pcb_def)
  then show "cr3 v = get_page_directory_for_pid lay p" "eflags v = ifl" "ptmem v = ptmem u"
    "xlat v = mmu_xlat (ptmem u) (get_page_directory_for_pid lay p)" by simp_all
  show "running v p" using assms(3,6,8) ps sel(1) by (simp add: running_def)
  show "t_pid (terminals v (unat (owned_by_terminal (pcbs u (pcb_address p))))) = of_int p"
    using sel(4) by (simp add: x_def)
  show "pcbs v a = pcbs u a" if "a \<noteq> pcb_address n" for a
    using that sel(5) by (simp add: x_def set_new_page_directory_def)
  show "pcbs v (pcb_address n) = (pcbs u (pcb_address n))\<lparr>ret_val := st\<rparr>"
    using sel(5) by (simp add: x_def set_new_page_directory_def)
  show "terminals v = (terminals u)(unat (owned_by_terminal (pcbs u (pcb_address p))) :=
          (terminals u (unat (owned_by_terminal (pcbs u (pcb_address p)))))\<lparr>t_pid := of_int p\<rparr>)"
    using sel(4) by (simp add: x_def set_new_page_directory_def)
  show "frames v = frames u" "terminal_state v = terminal_state u" "terminals_launched v = terminals_launched u"
    by (simp_all add: v x_def restore_flags_def set_new_page_directory_def upd_terminal_def upd_pcb_def mark_pid_free_def)
qed

lemma execute_kept:
  assumes "procs_ok s" "running s p" "internal_execute lay fr command USER_EXECUTE s = Some (To_user e f x, t)"
    and "n = get_available_pid s" "kept t u n p (frame_ebp fr)"
  shows "0 \<le> n" "n < 6" "n \<noteq> p" "current_pcb u = pcb_address n" "pid (pcbs u (pcb_address p)) = p"
    and "parentPCB (pcbs u (pcb_address n)) = pcb_address p" "pcb_esp0 (pcbs u (pcb_address n)) = kernel_stack p"
    and "pcb_flags (pcbs u (pcb_address n)) = 0"
    and "frames u (ebp_k (pcbs u (pcb_address p))) = \<lparr>fr_pid = n, fr_pcb_child = pcb_address n, fr_interrupt_flags = eflags s\<rparr>"
    and "owned_by_terminal (pcbs u (pcb_address p)) = owned_by_terminal (pcbs s (pcb_address p))"
proof -
  from execute_started [OF assms(2-4)] obtain arg and w :: "'a kernel_scheme" where
    n: "n \<notin> pid_set s" "0 \<le> n" "n < 6"
    and pc: "pcbs t = (pcbs s)(pcb_address n := child_pcb (kernel_stack p) (pcb_address p) 0 (terminal_state s) n arg (pcbs s (pcb_address n)),
       pcb_address p := (if (0 :: u32) AND 1 = 0 then (pcbs s (pcb_address p))\<lparr>esp_k := frame_esp fr, ebp_k := frame_ebp fr\<rparr>
                         else pcbs s (pcb_address p)))"
    and fr: "frames t = (frames s)(frame_ebp fr := \<lparr>fr_pid = n, fr_pcb_child = pcb_address n, fr_interrupt_flags = eflags s\<rparr>)"
    by metis
  have p: "p \<in> pid_set s" using assms(2) by (simp add: running_def)
  have np: "n \<noteq> p" using n(1) p by blast
  have ne: "pcb_address n \<noteq> pcb_address p"
    using pcb_address_inject [of n p] n np pid_set_bounds [OF p] by auto
  have k: "running u n" "frames u (frame_ebp fr) = frames t (frame_ebp fr)"
    using assms(5) by (simp_all add: kept_def)
  have "pid (pcbs s (pcb_address p)) = p" using assms(1) p by (simp add: procs_ok_def)
  then show "0 \<le> n" "n < 6" "n \<noteq> p" "current_pcb u = pcb_address n" "pid (pcbs u (pcb_address p)) = p"
    "parentPCB (pcbs u (pcb_address n)) = pcb_address p" "pcb_esp0 (pcbs u (pcb_address n)) = kernel_stack p"
    "pcb_flags (pcbs u (pcb_address n)) = 0"
    "frames u (ebp_k (pcbs u (pcb_address p))) = \<lparr>fr_pid = n, fr_pcb_child = pcb_address n, fr_interrupt_flags = eflags s\<rparr>"
    "owned_by_terminal (pcbs u (pcb_address p)) = owned_by_terminal (pcbs s (pcb_address p))"
    using n np running_pcb [OF k(1)] assms(5) ne by (simp_all add: kept_def pc fr Let_def)
qed


section \<open>Splitting the command\<close>

text \<open>The program name is what precedes the first space; the arguments are what follows it.\<close>

definition cmd_name :: "u8 list \<Rightarrow> u8 list" where
  "cmd_name bs = takeWhile (\<lambda>b. b \<noteq> EMPTY_SPACE) bs"

definition cmd_args :: "u8 list \<Rightarrow> u8 list" where
  "cmd_args bs = drop (Suc (length (cmd_name bs))) bs"

lemma cmd_name_nth: "i < length (cmd_name bs) \<Longrightarrow> bs ! i \<noteq> EMPTY_SPACE"
proof -
  assume i: "i < length (cmd_name bs)"
  then have "cmd_name bs ! i \<in> set (cmd_name bs)" by (rule nth_mem)
  then have "cmd_name bs ! i \<noteq> EMPTY_SPACE" unfolding cmd_name_def by (auto dest: set_takeWhileD)
  then show ?thesis using i by (simp add: cmd_name_def takeWhile_nth)
qed

lemma cmd_name_le: "length (cmd_name bs) \<le> length bs"
  by (simp add: cmd_name_def length_takeWhile_le)

lemma cmd_name_stop: "length (cmd_name bs) < length bs \<Longrightarrow> bs ! length (cmd_name bs) = EMPTY_SPACE"
  using nth_length_takeWhile [of "\<lambda>b. b \<noteq> EMPTY_SPACE" bs] by (simp add: cmd_name_def)

definition split_store :: "u32 \<Rightarrow> u8 list \<Rightarrow> 'a machine_scheme \<Rightarrow> 'a machine_scheme" where
  "split_store cs bs s =
     (if length (cmd_name bs) < length bs then store (cs + of_nat (length (cmd_name bs))) NULL_CHAR s else s)"

definition split_arg :: "u32 \<Rightarrow> u8 list \<Rightarrow> u32" where
  "split_arg cs bs = cs + of_nat (if length (cmd_name bs) < length bs then Suc (length (cmd_name bs)) else length bs)"

lemma split_command_from:
  assumes "cstr s cs bs" "i \<le> length (cmd_name bs)" "i = 0 \<longrightarrow> bs \<noteq> []" "0 < i \<longrightarrow> arg = cs + of_nat i"
  shows "split_command cs (of_nat i) arg s = Some (split_arg cs bs, split_store cs bs s)"
  using assms(2-4)
proof (induction "length (cmd_name bs) - i" arbitrary: i arg)
  case 0
  have b: "length bs < 4294967296" using assms(1) by (simp add: cstr_def)
  have i: "i = length (cmd_name bs)" using 0 by simp
  show ?case
  proof (cases "i < length bs")
    case True
    then have "load s (cs + of_nat i) = EMPTY_SPACE"
      using cstr_nth [OF assms(1) True] cmd_name_stop [of bs] i by simp
    moreover have "(of_nat i :: u32) < of_nat (length bs)" using True b by (simp add: word_less_nat_alt)
    ultimately show ?thesis
      using strlen_cstr [OF assms(1)] True i
      by (subst split_command.simps) (simp add: split_arg_def split_store_def add.commute)
  next
    case False
    then have "i = length bs" using i cmd_name_le [of bs] by simp
    then show ?thesis
      using strlen_cstr [OF assms(1)] i 0(3,4)
      by (subst split_command.simps) (cases "bs = []", simp_all add: split_arg_def split_store_def)
  qed
next
  case (Suc k)
  have b: "length bs < 4294967296" using assms(1) by (simp add: cstr_def)
  have i: "i < length (cmd_name bs)" using Suc.hyps(2) by simp
  then have il: "i < length bs" using cmd_name_le [of bs] by simp
  then have "(of_nat i :: u32) < of_nat (length bs)" using b by (simp add: word_less_nat_alt)
  moreover have "load s (cs + of_nat i) \<noteq> EMPTY_SPACE"
    using cstr_nth [OF assms(1) il] cmd_name_nth [OF i] by simp
  moreover have "split_command cs (of_nat (Suc i)) (cs + of_nat (Suc i)) s
      = Some (split_arg cs bs, split_store cs bs s)"
    using Suc.hyps(2) i by (intro Suc.hyps(1)) auto
  ultimately show ?case
    using strlen_cstr [OF assms(1)] by (subst split_command.simps) (simp add: add.commute)
qed

lemma split_command_eq:
  "cstr s cs bs \<Longrightarrow> bs \<noteq> [] \<Longrightarrow>
     split_command cs 0 0 s = Some (split_arg cs bs, split_store cs bs s)"
  using split_command_from [of s cs bs 0 0] by simp

text \<open>After the split, the buffer holds two strings: the name, and the arguments behind it.\<close>

lemma split_strings:
  assumes "cstr s cs bs" "spread s cs (Suc (length bs))"
  shows "cstr (split_store cs bs s) cs (cmd_name bs)"
    and "cstr (split_store cs bs s) (split_arg cs bs) (cmd_args bs)"
proof -
  let ?k = "length (cmd_name bs)" and ?t = "split_store cs bs s"
  have nz: "0 \<notin> set (cmd_name bs)" "0 \<notin> set (cmd_args bs)" and b: "length bs < 4294967296"
    using assms(1) set_takeWhileD [of _ "\<lambda>b. b \<noteq> EMPTY_SPACE" bs] set_drop_subset [of "Suc ?k" bs]
    by (auto simp: cstr_def cmd_name_def cmd_args_def)
  have nm: "bs ! i = cmd_name bs ! i" if "i < ?k" for i using that by (simp add: cmd_name_def takeWhile_nth)
  show "cstr ?t cs (cmd_name bs)"
  proof (cases "?k < length bs")
    case True
    have ld: "load ?t (cs + of_nat i) = (if i = ?k then 0 else load s (cs + of_nat i))" if "i \<le> length bs" for i
      using True that spread_distinct [OF assms(2), of i ?k] by (auto simp: split_store_def load_store)
    have "read_bytes ?t cs ?k = cmd_name bs"
      using cmd_name_le [of bs] by (intro nth_equalityI) (simp_all add: ld cstr_nth [OF assms(1)] nm)
    then show ?thesis using nz b ld [of ?k] True by (simp add: cstr_def)
  next
    case False
    then have "?k = length bs" using cmd_name_le [of bs] by simp
    then have "cmd_name bs = bs" unfolding cmd_name_def by (metis takeWhile_eq_take take_all order_refl)
    then show ?thesis using False assms(1) by (simp add: split_store_def)
  qed
  show "cstr ?t (split_arg cs bs) (cmd_args bs)"
  proof (cases "?k < length bs")
    case True
    let ?m = "length (cmd_args bs)"
    have m: "Suc ?k + ?m = length bs" using True by (simp add: cmd_args_def)
    have ld: "load ?t (split_arg cs bs + of_nat i) = load s (cs + of_nat (Suc ?k + i))" if "i \<le> ?m" for i
    proof -
      have "split_arg cs bs + of_nat i = cs + of_nat (Suc ?k + i)" using True by (simp add: split_arg_def)
      then show ?thesis
        using True m that spread_distinct [OF assms(2), of "Suc ?k + i" ?k]
        by (simp add: split_store_def load_store del: of_nat_add of_nat_Suc)
    qed
    have "read_bytes ?t (split_arg cs bs) ?m = cmd_args bs"
      using m by (intro nth_equalityI) (simp_all add: ld cstr_nth [OF assms(1)] cmd_args_def del: of_nat_add of_nat_Suc)
    moreover have "load ?t (split_arg cs bs + of_nat ?m) = 0"
      using ld [of ?m] cstr_end [OF assms(1)] unfolding m by simp
    ultimately show ?thesis using nz b m by (simp add: cstr_def)
  next
    case False
    then have "cmd_args bs = []" by (simp add: cmd_args_def)
    then show ?thesis using False cstr_end [OF assms(1)] by (simp add: split_store_def split_arg_def cstr_def)
  qed
qed


section \<open>Running a program from the image\<close>

lemma same_image_dentry:
  assumes "same_image s t" "i < 63"
  shows "load_dentry t (boot_file t (of_nat i)) = load_dentry s (boot_file s (of_nat i))"
proof -
  have bf: "boot_file t (of_nat i) = boot_file s (of_nat i)" using assms(1) by (simp add: same_image_def boot_file_def)
  have a: "boot_file s (of_nat i) + of_nat k = bootblock s + of_nat (64 + 64 * i + k)" for k
    by (simp add: boot_file_def)
  have in_range: "64 + 64 * i + k < image_size s" if "k < 64" for k
    using that assms(2) by (simp add: image_size_def)
  have ld: "load t (boot_file s (of_nat i) + of_nat k) = load s (boot_file s (of_nat i) + of_nat k)" if "k < 64" for k
    using same_image_load [OF assms(1) in_range [OF that] a] .
  have rb: "read_bytes t (boot_file s (of_nat i) + of_nat m) n = read_bytes s (boot_file s (of_nat i) + of_nat m) n"
    if "m + n \<le> 64" for m n
    using that ld [of "m + _"] by (intro nth_equalityI) (simp_all add: add.assoc)
  have l32: "load32 t (boot_file s (of_nat i) + of_nat m) = load32 s (boot_file s (of_nat i) + of_nat m)"
    if "m + 3 < 64" for m
    using same_image_load32 [OF assms(1) _ a, of m] in_range [OF that] by (simp add: add.assoc)
  show ?thesis
    using rb [of 0 32] rb [of 40 24] l32 [of 32] l32 [of 36] by (simp add: bf load_dentry_def)
qed

lemma same_image_directory:
  assumes "same_image s t" "length (directory s) \<le> 63"
  shows "directory t = directory s"
  using same_image_dentry [OF assms(1)] same_image_boot(1) [OF assms(1)] assms(2)
  by (intro nth_equalityI) (simp_all add: directory_def)

definition prog_area :: "int \<Rightarrow> u32" where
  "prog_area n = block_address_for_process n + TASK_PROGRAM_IMAGE_OFFSET"

text \<open>An ELF file: a regular file with at least the 28 bytes the loader looks at, and the magic bytes.\<close>

definition executable :: "'a fsys_scheme \<Rightarrow> dentry \<Rightarrow> bool" where
  "executable s d \<longleftrightarrow> filetype d = FILETYPE_REGULAR \<and> inode_wf s (inode d) \<and>
     28 \<le> unat (inode_length s (inode d)) \<and> file_bytes s (inode d) 0 4 = [0x7F, 0x45, 0x4C, 0x46]"

definition entry_word :: "'a fsys_scheme \<Rightarrow> u32 \<Rightarrow> u32" where
  "entry_word s ino = (let b = file_bytes s ino 24 4 in word_of_bytes (b ! 0) (b ! 1) (b ! 2) (b ! 3))"

text \<open>
  Where things are: the command (\<open>k\<close> bytes and its terminator), the loader's local arrays
  and the \<open>len\<close> bytes of the program share no memory with each other or with the image.
\<close>

definition exec_memory :: "exec_locals \<Rightarrow> u32 \<Rightarrow> nat \<Rightarrow> u32 \<Rightarrow> nat \<Rightarrow> 'a fsys_scheme \<Rightarrow> bool" where
  "exec_memory fr command k pr len s \<longleftrightarrow>
     apart s (commandstring fr) (Suc k) command (Suc k) \<and>
     list_all (\<lambda>(a, n). spread s a n \<and> apart s a n (bootblock s) (image_size s))
       [(commandstring fr, Suc k), (magic fr, 4), (entry_point_address fr, 4), (pr, len)] \<and>
     list_all (\<lambda>(a, n). apart s a n (commandstring fr) (Suc k))
       [(magic fr, 4), (entry_point_address fr, 4), (pr, len)]"

lemma exec_memory_cong:
  assumes "xlat t = xlat s" "bootblock t = bootblock s" "image_size t = image_size s"
  shows "exec_memory fr command k pr len t = exec_memory fr command k pr len s"
  using assms by (simp add: exec_memory_def apart_def spread_def)

lemma cstr_write_apart:
  assumes "cstr s a bs" "apart s b (length cs) a (Suc (length bs))"
  shows "cstr (write_bytes b cs s) a bs"
proof -
  have ld: "load (write_bytes b cs s) (a + of_nat i) = load s (a + of_nat i)" if "i \<le> length bs" for i
    using load_write_apart [OF assms(2), of i] that by simp
  have "read_bytes (write_bytes b cs s) a (length bs) = read_bytes s a (length bs)"
    by (intro nth_equalityI) (simp_all add: ld)
  then show ?thesis using assms(1) ld [of "length bs"] by (simp add: cstr_def)
qed


text \<open>The states the loader passes through: after copying, splitting and the two reads of the header.\<close>

lemma load_program_eq:
  fixes s :: "'a kernel_scheme"
  assumes s: "mounted s" "length (directory s) \<le> 63"
    and nm: "cstr s (commandstring fr) nm"
    and d: "find (\<lambda>d. dentry_name d = take 32 nm) (directory s) = Some d" "executable s d"
    and m: "spread s (magic fr) 4" "apart s (magic fr) 4 (bootblock s) (image_size s)"
    and e: "spread s (entry_point_address fr) 4" "apart s (entry_point_address fr) 4 (bootblock s) (image_size s)"
    and u: "u = write_bytes (entry_point_address fr) (file_bytes s (inode d) 24 4)
                  (write_bytes (magic fr) (file_bytes s (inode d) 0 4) s)"
  shows "load_program lay fr flags ifl cur n arg s
       = start_process lay fr flags ifl cur n (inode d) arg (entry_word s (inode d)) u"
proof -
  let ?ino = "inode d" and ?L = "unat (inode_length s (inode d))"
  have wf: "inode_wf s ?ino" and L: "28 \<le> ?L" and reg: "filetype d = 2"
    and mg: "file_bytes s ?ino 0 4 = [0x7F, 0x45, 0x4C, 0x46]"
    using d(2) by (auto simp: executable_def)
  have rd: "read_dentry_by_name (commandstring fr) s = (SUCCESS, Some d)"
    using d(1) cstr_field_text [OF nm, of 32] by (simp add: read_dentry_by_name_eq)
  let ?s1 = "write_bytes (magic fr) (file_bytes s ?ino 0 4) s"
  have r1: "read_data ?ino 0 (magic fr) 4 s = (4, ?s1)"
    using read_data_eq [OF s(1) wf, of 4 4 0 "magic fr"] L m(2) by simp
  have em: "elf_magic ?s1 (magic fr)"
  proof -
    have "load ?s1 (magic fr + of_nat i) = [0x7F, 0x45, 0x4C, 0x46] ! i" if "i < 4" for i
    proof -
      have "load ?s1 (magic fr + of_nat i) = file_bytes s ?ino 0 4 ! i"
        using that m(1) by (intro load_write_nth) simp_all
      also have "\<dots> = [0x7F, 0x45, 0x4C, 0x46] ! i" by (simp only: mg)
      finally show ?thesis .
    qed
    from this [of 0] this [of 1] this [of 2] this [of 3] show ?thesis by (simp add: elf_magic_def)
  qed
  have im: "same_image s ?s1" using m(2) by (intro write_same_image) simp
  note w1 = same_image_wf [OF im s(1) wf]
  have b1: "bootblock ?s1 = bootblock s" "image_size ?s1 = image_size s"
    using same_image_boot [OF im] by (simp_all add: image_size_def)
  have "file_bytes ?s1 ?ino 24 4 = file_bytes s ?ino 24 4" using L by (intro w1(4)) simp
  then have r2: "read_data ?ino 24 (entry_point_address fr) 4 ?s1 = (4, u)"
    using read_data_eq [OF w1(2,1), of 4 4 24 "entry_point_address fr"] L e(2) b1 unfolding w1(3)
    by (simp add: u)
  have "load u (entry_point_address fr + of_nat i) = file_bytes s ?ino 24 4 ! i" if "i < 4" for i
    unfolding u using that e(1) by (intro load_write_nth) simp_all
  from this [of 0] this [of 1] this [of 2] this [of 3]
  have "load32 u (entry_point_address fr) = entry_word s ?ino"
    by (simp add: load32_def entry_word_def Let_def)
  then show ?thesis using rd reg r1 r2 em by (simp add: load_program_def Let_def)
qed


lemma exec_memory_facts:
  assumes "exec_memory fr command k pr len s"
  shows "apart s (commandstring fr) (Suc k) command (Suc k)" "spread s (commandstring fr) (Suc k)"
    "apart s (commandstring fr) (Suc k) (bootblock s) (image_size s)"
    "spread s (magic fr) 4" "apart s (magic fr) 4 (bootblock s) (image_size s)"
    "spread s (entry_point_address fr) 4" "apart s (entry_point_address fr) 4 (bootblock s) (image_size s)"
    "spread s pr len" "apart s pr len (bootblock s) (image_size s)"
    "apart s (magic fr) 4 (commandstring fr) (Suc k)" "apart s (entry_point_address fr) 4 (commandstring fr) (Suc k)"
    "apart s pr len (commandstring fr) (Suc k)"
  using assms by (simp_all add: exec_memory_def)

lemma same_image_executable:
  assumes "same_image s t" "mounted s" "executable s d"
  shows "executable t d" "entry_word t (inode d) = entry_word s (inode d)"
    "inode_length t (inode d) = inode_length s (inode d)"
proof -
  have wf: "inode_wf s (inode d)" and L: "28 \<le> unat (inode_length s (inode d))"
    using assms(3) by (auto simp: executable_def)
  note w = same_image_wf [OF assms(1,2) wf]
  show "inode_length t (inode d) = inode_length s (inode d)" by (rule w(3))
  show "executable t d" using assms(3) w(1,3) w(4) [of 0 4] L by (simp add: executable_def)
  show "entry_word t (inode d) = entry_word s (inode d)" using w(4) [of 24 4] L by (simp add: entry_word_def)
qed

lemma same_image_cli: "same_image s (cli s)"
  by (simp add: same_image_def load_def cli_def)

lemma split_store_write: "split_store cs bs s = write_bytes (cs + of_nat (length (cmd_name bs)))
    (if length (cmd_name bs) < length bs then [0] else []) s"
  by (simp add: split_store_def)

end
