(* ===== verification/Scheduler.thy ===== *)
theory Scheduler
  imports Execute
begin

text \<open>
  The round robin scheduler, from \<^verbatim>\<open>student-distrib/scheduling.c\<close>:
  \<^verbatim>\<open>save_and_switch_process_context\<close>, \<^verbatim>\<open>init_scheduling\<close> and
  \<^verbatim>\<open>round_robin_scheduler\<close>.

  A switch ends in a computed jump: the result \<open>Jump eip esp ebp\<close> says where the processor
  goes on and with which stack. \<open>Stay\<close> is an ordinary return. The address of the label
  \<^verbatim>\<open>SWITCH_CONTEXT\<close> and the stack and base pointers of the activation are compiler
  values: the fields of \<open>switch_locals\<close>.
\<close>

section \<open>Operations\<close>

datatype resume = Stay | Jump (jump_eip: u32) (jump_esp: u32) (jump_ebp: u32)

record switch_locals =
  sw_label :: u32
  sw_esp :: u32
  sw_ebp :: u32

abbreviation (input) CHANNEL_0_PORT :: u8 where "CHANNEL_0_PORT \<equiv> 0x40"
abbreviation (input) PIT_CMD_PORT :: u8 where "PIT_CMD_PORT \<equiv> 0x43"
abbreviation (input) PIT_COMMAND :: u16 where "PIT_COMMAND \<equiv> 0x36"
abbreviation (input) PIT_RELOAD_VAL :: u16 where "PIT_RELOAD_VAL \<equiv> 35794"
abbreviation (input) TIMER_CHIP_LINE_NO :: u32 where "TIMER_CHIP_LINE_NO \<equiv> 0"
abbreviation (input) ACCOUNT_FOR_RET_ADDR :: u32 where "ACCOUNT_FOR_RET_ADDR \<equiv> 4"

definition save_and_switch_process_context ::
    "layout \<Rightarrow> switch_locals \<Rightarrow> int \<Rightarrow> 'a kernel_scheme \<Rightarrow> resume \<times> 'a kernel_scheme" where
  "save_and_switch_process_context lay sw p s =
     (let s = set_new_page_directory (get_page_directory_for_pid lay p) s;
          s = save_process_context (sw_label sw) (sw_esp sw + ACCOUNT_FOR_RET_ADDR) (sw_ebp sw) s;
          s = s\<lparr>tss_esp0 := KERNEL_STACK_START - of_int p * LITERAL_8KB\<rparr>;
          pcb_next = pcbs s (KERNEL_STACK_START - (of_int p + 1) * LITERAL_8KB);
          jmp_addr = pcb_eip pcb_next;
          s = restore_flags (pcb_eflags pcb_next) s
      in (Jump jmp_addr (esp_k pcb_next) (ebp_k pcb_next), s))"

text \<open>
  The arguments of the three \<^verbatim>\<open>outb\<close> are the other way round: the macro takes the data
  first and the port second.
\<close>

definition init_scheduling :: "device \<Rightarrow> 'a kernel_scheme \<Rightarrow> 'a kernel_scheme" where
  "init_scheduling dev s =
     (let (flags, s) = cli_and_save s;
          s = outb PIT_CMD_PORT PIT_COMMAND s;
          s = outb CHANNEL_0_PORT (PIT_RELOAD_VAL AND 0xFF) s;
          s = outb CHANNEL_0_PORT (drop_bit 8 PIT_RELOAD_VAL AND 0xFF) s;
          s = restore_flags flags s
      in enable_irq dev TIMER_CHIP_LINE_NO s)"

fun round_robin_from ::
    "layout \<Rightarrow> switch_locals \<Rightarrow> u8 \<Rightarrow> nat \<Rightarrow> 'a kernel_scheme \<Rightarrow> resume \<times> 'a kernel_scheme" where
  "round_robin_from lay sw launched 0 s = (Stay, s)"
| "round_robin_from lay sw launched (Suc n) s =
     (let s = s\<lparr>terminal_being_serviced := of_nat ((unat (terminal_being_serviced s) + 1) mod NUM_TERMINALS)\<rparr>
      in if drop_bit (unat (terminal_being_serviced s)) launched AND 1 \<noteq> 0
         then save_and_switch_process_context lay sw
                (sint (t_pid (terminals s (unat (terminal_being_serviced s))))) s
         else round_robin_from lay sw launched n s)"

definition round_robin_scheduler ::
    "layout \<Rightarrow> switch_locals \<Rightarrow> 'a kernel_scheme \<Rightarrow> resume \<times> 'a kernel_scheme" where
  "round_robin_scheduler lay sw s =
     (let launched = get_launched_terminals s
      in if launched = 1 then (Stay, s) else round_robin_from lay sw launched NUM_TERMINALS s)"

section \<open>A context switch\<close>

definition saved_context :: "switch_locals \<Rightarrow> 'a kernel_scheme \<Rightarrow> pcb \<Rightarrow> pcb" where
  "saved_context sw s p = p\<lparr>pcb_eip := sw_label sw, esp_k := sw_esp sw + 4, ebp_k := sw_ebp sw, pcb_eflags := eflags s\<rparr>"

lemma context_switch_eq:
  assumes "save_and_switch_process_context lay sw q s = (r, t)"
    and "nxt = (if pcb_address q = current_pcb s then saved_context sw s (pcbs s (current_pcb s)) else pcbs s (pcb_address q))"
  shows "r = Jump (pcb_eip nxt) (esp_k nxt) (ebp_k nxt)" "eflags t = pcb_eflags nxt"
    "pcbs t = (pcbs s)(current_pcb s := saved_context sw s (pcbs s (current_pcb s)))"
    "tss_esp0 t = kernel_stack q" "cr3 t = get_page_directory_for_pid lay q"
    "xlat t = mmu_xlat (ptmem s) (get_page_directory_for_pid lay q)" "ptmem t = ptmem s" "ram t = ram s"
    "pid_avail t = pid_avail s" "terminals t = terminals s" "terminal_state t = terminal_state s"
    "terminal_being_serviced t = terminal_being_serviced s" "terminals_launched t = terminals_launched s" "frames t = frames s"
  using assms
  by (auto simp: save_and_switch_process_context_def Let_def save_process_context_def set_new_page_directory_def
      restore_flags_def current_pcb_def saved_context_def upd_pcb_def pcb_address_def kernel_stack_def get_flags_def)

section \<open>Whose turn it is\<close>

definition next_terminal :: "u8 \<Rightarrow> nat \<Rightarrow> nat" where
  "next_terminal launched c =
     (if bit launched ((c + 1) mod 3) then (c + 1) mod 3
      else if bit launched ((c + 2) mod 3) then (c + 2) mod 3 else c)"

lemma shifted_bit: "drop_bit n (l :: u8) AND 1 \<noteq> 0 \<longleftrightarrow> bit l n"
  by (simp add: and_one_eq bit_iff_odd_drop_bit odd_iff_mod_2_eq_one)

lemma unat_terminal: "c < 3 \<Longrightarrow> unat (of_nat c :: u8) = c"
  by (simp add: unat_of_nat)

lemma round_robin_step:
  assumes "n = (unat (terminal_being_serviced s) + 1) mod 3"
  shows "round_robin_from lay sw l (Suc k) s =
    (if bit l n then save_and_switch_process_context lay sw (sint (t_pid (terminals s n)))
                       (s\<lparr>terminal_being_serviced := of_nat n\<rparr>)
     else round_robin_from lay sw l k (s\<lparr>terminal_being_serviced := of_nat n\<rparr>))"
proof -
  have "n < 3" using assms by simp
  then show ?thesis using assms by (simp add: Let_def shifted_bit unat_terminal)
qed

lemma round_robin_switches:
  assumes "c = unat (terminal_being_serviced s)" "c < 3" "terminals_launched s \<noteq> 1" "bit (terminals_launched s) c"
    and "n = next_terminal (terminals_launched s) c"
  shows "round_robin_scheduler lay sw s =
    save_and_switch_process_context lay sw (sint (t_pid (terminals s n))) (s\<lparr>terminal_being_serviced := of_nat n\<rparr>)"
proof -
  let ?l = "terminals_launched s" and ?a = "(c + 1) mod 3" and ?b = "(c + 2) mod 3"
  let ?go = "\<lambda>n. save_and_switch_process_context lay sw (sint (t_pid (terminals s n))) (s\<lparr>terminal_being_serviced := of_nat n\<rparr>)"
    and ?at = "\<lambda>n. s\<lparr>terminal_being_serviced := of_nat n\<rparr>"
  have r1: "round_robin_from lay sw ?l (Suc 2) s = (if bit ?l ?a then ?go ?a else round_robin_from lay sw ?l (Suc 1) (?at ?a))"
    by (subst round_robin_step [OF refl]) (simp add: assms(1) numeral_2_eq_2)
  have r2: "round_robin_from lay sw ?l (Suc 1) (?at ?a) = (if bit ?l ?b then ?go ?b else round_robin_from lay sw ?l (Suc 0) (?at ?b))"
    using round_robin_step [of ?b "?at ?a" lay sw ?l 1] by (simp add: unat_terminal mod_Suc_eq del: round_robin_from.simps)
  have r3: "round_robin_from lay sw ?l (Suc 0) (?at ?b) = ?go c"
    using round_robin_step [of c "?at ?b" lay sw ?l 0] assms(2,4) by (simp add: unat_terminal mod_Suc_eq del: round_robin_from.simps)
  have "round_robin_from lay sw ?l (Suc 2) s = (if bit ?l ?a then ?go ?a else if bit ?l ?b then ?go ?b else ?go c)"
    unfolding r1 r2 r3 ..
  also have "\<dots> = ?go n" unfolding assms(5) next_terminal_def by (simp only: if_distrib [of ?go])
  finally show ?thesis
    using assms(3) by (simp add: round_robin_scheduler_def get_launched_terminals_def del: round_robin_from.simps)
qed

lemma next_terminal_launched:
  "c < 3 \<Longrightarrow> bit l c \<Longrightarrow> next_terminal l c < 3 \<and> bit l (next_terminal l c)"
  by (auto simp: next_terminal_def)

text \<open>Every launched terminal has its turn within three steps.\<close>

lemma next_terminal_fair:
  assumes "c < 3" "bit l c" "t < 3" "bit l t"
  shows "\<exists>k. 1 \<le> k \<and> k \<le> 3 \<and> (next_terminal l ^^ k) c = t"
proof -
  have "c = 0 \<or> c = 1 \<or> c = 2" "t = 0 \<or> t = 1 \<or> t = 2" using assms(1,3) by auto
  then have "next_terminal l c = t \<or> next_terminal l (next_terminal l c) = t
      \<or> next_terminal l (next_terminal l (next_terminal l c)) = t"
    using assms(2,4) by (elim disjE) (auto simp: next_terminal_def numeral_2_eq_2)
  then have "(next_terminal l ^^ 1) c = t \<or> (next_terminal l ^^ 2) c = t \<or> (next_terminal l ^^ 3) c = t"
    by (simp add: numeral_2_eq_2 numeral_3_eq_3)
  moreover have "(1 :: nat) \<le> 1 \<and> (1 :: nat) \<le> 3" "(1 :: nat) \<le> 2 \<and> (2 :: nat) \<le> 3" "(1 :: nat) \<le> 3 \<and> (3 :: nat) \<le> 3" by simp_all
  ultimately show ?thesis by blast
qed


end
