(* ===== verification/Lib_Properties.thy ===== *)
theory Lib_Properties
  imports Lib_String
begin

text \<open>
  What the memory and string routines of \<^verbatim>\<open>student-distrib/lib.c\<close> guarantee their
  callers, and the concrete memories on which the guarantees are tried out.
\<close>

section \<open>Concrete memories\<close>

text \<open>A machine whose addresses are physical.\<close>

definition flat :: "(u32 \<Rightarrow> u8) \<Rightarrow> machine" where
  "flat m = \<lparr>ram = m, xlat = (\<lambda>a. a), io_log = [], eflags = 0x202\<rparr>"

lemma flat_sel [simp]: "ram (flat m) = m" "xlat (flat m) = (\<lambda>a. a)" "io_log (flat m) = []" "eflags (flat m) = 0x202"
  by (simp_all add: flat_def)

definition identity_on :: "'a machine_scheme \<Rightarrow> u32 \<Rightarrow> nat \<Rightarrow> bool" where
  "identity_on s a n \<longleftrightarrow> unat a + n \<le> 4294967296 \<and> (\<forall>i<n. xlat s (a + of_nat i) = a + of_nat i)"

lemma identity_on_flat [simp]: "identity_on (flat m) a n \<longleftrightarrow> unat a + n \<le> 4294967296"
  by (simp add: identity_on_def)

lemma spread_identity:
  assumes "identity_on s a n"
  shows "spread s a n"
  unfolding spread_def
proof (rule inj_onI)
  fix i j assume ij: "i \<in> {..<n}" "j \<in> {..<n}" and "xlat s (a + of_nat i) = xlat s (a + of_nat j)"
  then have "a + of_nat i = a + of_nat j" using assms by (simp add: identity_on_def)
  moreover have "i < 4294967296" "j < 4294967296" using ij assms by (auto simp: identity_on_def)
  ultimately show "i = j" by simp
qed

lemma apart_identity:
  assumes "identity_on s a n" "identity_on s b m" "unat a + n \<le> unat b \<or> unat b + m \<le> unat a"
  shows "apart s a n b m"
  unfolding apart_def
proof (intro allI impI)
  fix i j assume ij: "i < n" "j < m"
  have "unat (a + of_nat i) = unat a + i" "unat (b + of_nat j) = unat b + j"
    using assms(1,2) ij by (auto simp: identity_on_def intro: u32_add_less_iff)
  then have "a + of_nat i \<noteq> b + of_nat j" using assms(3) ij by force
  then show "xlat s (a + of_nat i) \<noteq> xlat s (b + of_nat j)"
    using assms(1,2) ij by (simp add: identity_on_def)
qed

section \<open>Guarantees\<close>

definition keeps_outside :: "u32 \<Rightarrow> nat \<Rightarrow> 'a machine_scheme \<Rightarrow> 'a machine_scheme \<Rightarrow> bool" where
  "keeps_outside a n s t \<longleftrightarrow>
     xlat t = xlat s \<and> io_log t = io_log s \<and> eflags t = eflags s \<and> machine.more t = machine.more s \<and>
     (\<forall>f. f \<notin> (\<lambda>i. xlat s (a + of_nat i)) ` {..<n} \<longrightarrow> ram t f = ram s f)"

lemma keeps_outside_write: "keeps_outside a (length bs) s (write_bytes a bs s)"
proof -
  have "ram (write_bytes a bs s) f = ram s f"
    if "f \<notin> (\<lambda>i. xlat s (a + of_nat i)) ` {..<length bs}" for f
    using that
  proof (induction bs arbitrary: a s)
    case (Cons b bs)
    have "f \<notin> (\<lambda>i. xlat (store a b s) (a + 1 + of_nat i)) ` {..<length bs}"
    proof
      assume "f \<in> (\<lambda>i. xlat (store a b s) (a + 1 + of_nat i)) ` {..<length bs}"
      then obtain i where "i < length bs" "f = xlat s (a + of_nat (Suc i))"
        by (auto simp: of_nat_Suc_shift simp del: of_nat_Suc)
      then show False using Cons.prems by (auto simp del: of_nat_Suc)
    qed
    moreover have "f \<noteq> xlat s a" using Cons.prems by force
    ultimately show ?case using Cons.IH [of "store a b s" "a + 1"] by (simp add: store_def)
  qed simp
  then show ?thesis by (simp add: keeps_outside_def)
qed

lemma keeps_outside_mono: "keeps_outside a m s t \<Longrightarrow> m \<le> n \<Longrightarrow> keeps_outside a n s t"
proof -
  assume *: "keeps_outside a m s t" "m \<le> n"
  have "(\<lambda>i. xlat s (a + of_nat i)) ` {..<m} \<subseteq> (\<lambda>i. xlat s (a + of_nat i)) ` {..<n}"
    using *(2) by (intro image_mono) auto
  then show ?thesis using *(1) unfolding keeps_outside_def by blast
qed

text \<open>
  \<^verbatim>\<open>memset\<close>, which stores single bytes up to an aligned address, then doublewords and
  then the rest, makes every byte of the range equal to the low byte of its argument and changes
  nothing outside the range.
\<close>

theorem memset_fills:
  assumes "spread s a (unat n)"
  shows "read_bytes (memset a c n s) a (unat n) = replicate (unat n) (ucast c) \<and>
     keeps_outside a (unat n) s (memset a c n s)"
  using read_write_same [of s a "replicate (unat n) (ucast c)"] assms
    keeps_outside_write [of a "replicate (unat n) (ucast c)" s]
  by (simp add: memset_eq)

theorem memset_fills_witness:
  "read_bytes (memset 0x1003 0x141 10 (flat (\<lambda>_. 7))) 0x1003 10 = replicate 10 0x41 \<and>
   keeps_outside 0x1003 10 (flat (\<lambda>_. 7)) (memset 0x1003 0x141 10 (flat (\<lambda>_. 7)))"
  using memset_fills [of "flat (\<lambda>_. 7)" "0x1003" 10 "0x141"] spread_identity [of "flat (\<lambda>_. 7)" "0x1003" 10] by simp

text \<open>
  C38: \<^verbatim>\<open>memcpy\<close> between areas that share no frame copies every byte and changes nothing
  outside the destination.
\<close>

theorem memcpy_copies:
  assumes "apart s src (unat n) dest (unat n)" "spread s dest (unat n)"
  shows "read_bytes (memcpy dest src n s) dest (unat n) = read_bytes s src (unat n) \<and>
     keeps_outside dest (unat n) s (memcpy dest src n s)"
  using read_write_same [of s dest "read_bytes s src (unat n)"] assms
    keeps_outside_write [of dest "read_bytes s src (unat n)" s]
  by (simp add: memcpy_eq)

theorem memcpy_copies_witness:
  "read_bytes (memcpy 0x2001 0x1000 9 (flat ucast)) 0x2001 9 = read_bytes (flat ucast) 0x1000 9 \<and>
   keeps_outside 0x2001 9 (flat ucast) (memcpy 0x2001 0x1000 9 (flat ucast))"
  using memcpy_copies [of "flat ucast" "0x1000" 9 "0x2001"] spread_identity [of "flat ucast" "0x2001" 9]
    apart_identity [of "flat ucast" "0x1000" 9 "0x2001" 9]
  by simp

text \<open>
  \<^verbatim>\<open>memmove\<close> moves the bytes also when source and destination overlap, as long as
  neither range wraps around and no two of their addresses share a frame: the destination ends up
  with what the source held before the call.
\<close>

theorem memmove_moves:
  assumes "inj_on (xlat s) ((\<lambda>i. src + of_nat i) ` {..<unat n} \<union> (\<lambda>i. dest + of_nat i) ` {..<unat n})"
    and "unat src + unat n \<le> 4294967296" "unat dest + unat n \<le> 4294967296" "spread s dest (unat n)"
  shows "read_bytes (memmove dest src n s) dest (unat n) = read_bytes s src (unat n) \<and>
     keeps_outside dest (unat n) s (memmove dest src n s)"
  using read_write_same [of s dest "read_bytes s src (unat n)"] assms
    keeps_outside_write [of dest "read_bytes s src (unat n)" s]
  by (simp add: memmove_eq)

theorem memmove_moves_witness:
  "read_bytes (memmove 0x1002 0x1000 5 (flat ucast)) 0x1002 5 = read_bytes (flat ucast) 0x1000 5 \<and>
   keeps_outside 0x1002 5 (flat ucast) (memmove 0x1002 0x1000 5 (flat ucast))"
  using memmove_moves [of "flat ucast" "0x1000" 5 "0x1002"] spread_identity [of "flat ucast" "0x1002" 5] by simp

text \<open>
  \<^verbatim>\<open>strcpy\<close> of a string returns, and leaves a copy of the string at the
  destination, of which \<^verbatim>\<open>strlen\<close> returns the length and which \<^verbatim>\<open>strncmp\<close>
  finds equal to the original, for any bound.
\<close>

theorem strcpy_copies:
  assumes "cstr s src bs" "apart s dest (Suc (length bs)) src (Suc (length bs))" "spread s dest (Suc (length bs))"
  shows "\<exists>t. strcpy dest src s = Some t \<and> cstr t dest bs \<and> cstr t src bs \<and>
     strlen t dest = Some (of_nat (length bs)) \<and> strncmp t dest src n = 0"
proof -
  let ?t = "write_bytes dest (bs @ [0]) s"
  have "strcpy dest src s = Some ?t"
    using assms(1) apart_mono [OF assms(2), of "length bs" "Suc (length bs)"] by (simp add: strcpy_cstr)
  moreover have d: "cstr ?t dest bs" using assms(1,3) by (intro cstr_write) (auto simp: cstr_def)
  moreover have c: "cstr ?t src bs"
  proof -
    have ld: "load ?t (src + of_nat i) = load s (src + of_nat i)" if "i \<le> length bs" for i
      using load_write_apart [of s dest "bs @ [0]" src "Suc (length bs)" i] assms(2) that by simp
    have "read_bytes ?t src (length bs) = read_bytes s src (length bs)"
      by (intro nth_equalityI) (simp_all add: ld)
    then show ?thesis using assms(1) ld [of "length bs"] by (simp add: cstr_def)
  qed
  moreover have "strncmp ?t dest src n = 0"
    using cstr_field_text [OF d] cstr_field_text [OF c] by (simp add: strncmp_eq_0)
  ultimately show ?thesis using strlen_cstr [OF d] by blast
qed

definition hi_memory :: "u32 \<Rightarrow> u8" where
  "hi_memory a = (if a = 0x1000 then 0x68 else if a = 0x1001 then 0x69 else 0)"

lemma hi_cstr: "cstr (flat hi_memory) 0x1000 [0x68, 0x69]"
  by (simp add: cstr_def read_bytes_def load_def hi_memory_def)

theorem strcpy_copies_witness:
  "\<exists>t. strcpy 0x2000 0x1000 (flat hi_memory) = Some t \<and> cstr t 0x2000 [0x68, 0x69] \<and>
     cstr t 0x1000 [0x68, 0x69] \<and> strlen t 0x2000 = Some 2 \<and> strncmp t 0x2000 0x1000 32 = 0"
proof -
  let ?s = "flat hi_memory"
  have "spread ?s 0x2000 (Suc (length [0x68, 0x69 :: u8]))" by (rule spread_identity) simp
  moreover have "apart ?s 0x2000 (Suc (length [0x68, 0x69 :: u8])) 0x1000 (Suc (length [0x68, 0x69 :: u8]))"
    by (rule apart_identity) simp_all
  ultimately show ?thesis using strcpy_copies [OF hi_cstr, of "0x2000" 32] by simp
qed

text \<open>
  C39: \<^verbatim>\<open>itoa\<close> with a radix from 2 to 36 returns, stays within 33 bytes, and leaves a
  string whose digits, read in that radix, give back the number.
\<close>

theorem itoa_value:
  assumes "2 \<le> unat radix" "unat radix \<le> 36" "spread s buf 33"
  shows "\<exists>t bs. itoa v buf radix s = Some t \<and> cstr t buf bs \<and> length bs \<le> 32 \<and>
     numeral_value (unat radix) bs = unat v \<and> keeps_outside buf 33 s t"
proof -
  let ?bs = "numeral_text (unat radix) (unat v)"
  let ?t = "write_bytes buf (?bs @ [0]) s"
  have len: "length ?bs \<le> 32" using length_numeral_text [OF assms(1), of "unat v"] by simp
  have "cstr ?t buf ?bs"
    using len numeral_text_nz [OF assms(1,2)] spread_mono [OF assms(3)] by (intro cstr_write) auto
  moreover have "keeps_outside buf 33 s ?t"
    using len by (intro keeps_outside_mono [OF keeps_outside_write]) simp
  ultimately show ?thesis
    using itoa_eq [OF assms, of v] len numeral_text_value [OF assms(1,2), of "unat v"]
    by (intro exI [of _ ?t] exI [of _ ?bs]) simp
qed

theorem itoa_value_witness:
  "\<exists>t bs. itoa 391 0x1000 10 (flat (\<lambda>_. 1)) = Some t \<and> cstr t 0x1000 bs \<and> length bs \<le> 32 \<and>
     numeral_value 10 bs = 391 \<and> keeps_outside 0x1000 33 (flat (\<lambda>_. 1)) t"
  using itoa_value [of 10 "flat (\<lambda>_. 1)" "0x1000" 391] spread_identity [of "flat (\<lambda>_. 1)" "0x1000" 33] by simp

end
