(* ===== verification/Printf.thy ===== *)
theory Printf
  imports Syscalls Lib_Properties
begin

text \<open>
  \<^verbatim>\<open>printf\<close> and \<^verbatim>\<open>printf_t\<close> from \<^verbatim>\<open>student-distrib/lib.c\<close>. The two have the
  same loop and differ in the routines they print with, which are collected in a
  \<open>printer\<close>.

  The format string is a function of the state and an index, as for \<open>put_t\<close>. The words
  above the format parameter on the stack, which the loop reads one after the other through
  \<^verbatim>\<open>esp\<close>, are the argument \<open>stk\<close>: a slot has the word itself and the text
  behind it when it is used as a pointer. The addresses of the local arrays
  \<^verbatim>\<open>conv_buf\<close> are not in the sources: \<open>cb\<close> gives the one of each conversion.
\<close>

section \<open>Operations\<close>

datatype 's slot = Slot (slot_word: u32) (slot_text: "'s \<Rightarrow> nat \<Rightarrow> u8")

record 's printer =
  put_char :: "('s \<Rightarrow> nat \<Rightarrow> u8) \<Rightarrow> 's \<Rightarrow> 's option"
  put_buf :: "u32 \<Rightarrow> int \<Rightarrow> 's \<Rightarrow> 's option"
  put_str :: "('s \<Rightarrow> nat \<Rightarrow> u8) \<Rightarrow> 's \<Rightarrow> 's option"

abbreviation (input) CH_percent :: u8 where "CH_percent \<equiv> 37"
abbreviation (input) CH_hash :: u8 where "CH_hash \<equiv> 35"
abbreviation (input) CH_x :: u8 where "CH_x \<equiv> 120"
abbreviation (input) CH_u :: u8 where "CH_u \<equiv> 117"
abbreviation (input) CH_d :: u8 where "CH_d \<equiv> 100"
abbreviation (input) CH_c :: u8 where "CH_c \<equiv> 99"
abbreviation (input) CH_s :: u8 where "CH_s \<equiv> 115"

definition convert_x :: "'a kernel_scheme printer \<Rightarrow> u32 \<Rightarrow> bool \<Rightarrow> u32 \<Rightarrow> 'a kernel_scheme \<Rightarrow> 'a kernel_scheme option" where
  "convert_x pr conv_buf alternate w s =
     (if \<not> alternate
      then case itoa w conv_buf 16 s of None \<Rightarrow> None | Some s \<Rightarrow> put_buf pr conv_buf 64 s
      else case itoa w (conv_buf + 8) 16 s of
        None \<Rightarrow> None
      | Some s \<Rightarrow>
          (case strlen s (conv_buf + 8) of
             None \<Rightarrow> None
           | Some starting_index \<Rightarrow>
               let s = for_loop (unat starting_index) 8 (\<lambda>i. store (conv_buf + of_nat i) 48) s
               in put_buf pr (conv_buf + starting_index) (64 - sint starting_index) s))"

definition convert_u :: "'a kernel_scheme printer \<Rightarrow> u32 \<Rightarrow> u32 \<Rightarrow> 'a kernel_scheme \<Rightarrow> 'a kernel_scheme option" where
  "convert_u pr conv_buf w s =
     (case itoa w conv_buf 10 s of None \<Rightarrow> None | Some s \<Rightarrow> put_buf pr conv_buf 36 s)"

definition convert_d :: "'a kernel_scheme printer \<Rightarrow> u32 \<Rightarrow> u32 \<Rightarrow> 'a kernel_scheme \<Rightarrow> 'a kernel_scheme option" where
  "convert_d pr conv_buf w s =
     (case (if sint w < 0 then itoa (- w) (conv_buf + 1) 10 (store conv_buf 45 s) else itoa w conv_buf 10 s) of
        None \<Rightarrow> None | Some s \<Rightarrow> put_buf pr conv_buf 36 s)"

text \<open>From the label \<^verbatim>\<open>format_char_switch\<close>: \<open>buf\<close> and \<open>esp\<close> are the C variables, as indices.\<close>

partial_function (option) format_char_switch ::
    "'a kernel_scheme printer \<Rightarrow> (u8 \<Rightarrow> u32) \<Rightarrow> ('a kernel_scheme \<Rightarrow> nat \<Rightarrow> u8) \<Rightarrow> (nat \<Rightarrow> 'a kernel_scheme slot) \<Rightarrow>
     bool \<Rightarrow> nat \<Rightarrow> nat \<Rightarrow> 'a kernel_scheme \<Rightarrow> (nat \<times> nat \<times> 'a kernel_scheme) option" where
  "format_char_switch pr cb fmt stk alternate buf esp s =
     (let c = fmt s buf; w = slot_word (stk esp)
      in if c = CH_percent then map_option (\<lambda>s. (buf, esp, s)) (put_char pr (\<lambda>_ _. CH_percent) s)
         else if c = CH_hash then format_char_switch pr cb fmt stk True (Suc buf) esp s
         else if c = CH_x then map_option (\<lambda>s. (buf, Suc esp, s)) (convert_x pr (cb CH_x) alternate w s)
         else if c = CH_u then map_option (\<lambda>s. (buf, Suc esp, s)) (convert_u pr (cb CH_u) w s)
         else if c = CH_d then map_option (\<lambda>s. (buf, Suc esp, s)) (convert_d pr (cb CH_d) w s)
         else if c = CH_c then map_option (\<lambda>s. (buf, Suc esp, s)) (put_char pr (\<lambda>_ _. ucast w) s)
         else if c = CH_s then map_option (\<lambda>s. (buf, Suc esp, s)) (put_str pr (slot_text (stk esp)) s)
         else Some (buf, esp, s))"

partial_function (option) printf_loop ::
    "'a kernel_scheme printer \<Rightarrow> (u8 \<Rightarrow> u32) \<Rightarrow> ('a kernel_scheme \<Rightarrow> nat \<Rightarrow> u8) \<Rightarrow> (nat \<Rightarrow> 'a kernel_scheme slot) \<Rightarrow>
     nat \<Rightarrow> nat \<Rightarrow> 'a kernel_scheme \<Rightarrow> (int \<times> 'a kernel_scheme) option" where
  "printf_loop pr cb fmt stk buf esp s =
     (if fmt s buf = NULL_CHAR then Some (int buf, s)
      else if fmt s buf = CH_percent
      then case format_char_switch pr cb fmt stk False (Suc buf) esp s of
             None \<Rightarrow> None
           | Some (buf, esp, s) \<Rightarrow> printf_loop pr cb fmt stk (Suc buf) esp s
      else case put_char pr (\<lambda>s i. fmt s (buf + i)) s of
             None \<Rightarrow> None
           | Some s \<Rightarrow> printf_loop pr cb fmt stk (Suc buf) esp s)"

text \<open>The length of the text behind a pointer, as \<^verbatim>\<open>strlen\<close> counts it.\<close>

partial_function (option) text_length :: "('s \<Rightarrow> nat \<Rightarrow> u8) \<Rightarrow> 's \<Rightarrow> nat \<Rightarrow> nat option" where
  "text_length r s i = (if r s i = NULL_CHAR then Some i else text_length r s (Suc i))"

definition kernel_printer :: "'a kernel_scheme printer" where
  "kernel_printer = \<lparr>put_char = (\<lambda>r s. Some (putc (r s 0) s)),
     put_buf = (\<lambda>a n s. map_option snd (puts (at_addr a) s)),
     put_str = (\<lambda>r s. map_option snd (puts r s))\<rparr>"

definition terminal_printer :: "'a kernel_scheme printer" where
  "terminal_printer = \<lparr>put_char = (\<lambda>r s. Some (snd (write_terminal_from STDOUT r 1 s))),
     put_buf = (\<lambda>a n s. Some (snd (write_terminal STDOUT a n s))),
     put_str = (\<lambda>r s. map_option (\<lambda>n. snd (write_terminal_from STDOUT r (sint (of_nat n :: u32)) s))
                        (text_length r s 0))\<rparr>"

definition printf ::
    "(u8 \<Rightarrow> u32) \<Rightarrow> ('a kernel_scheme \<Rightarrow> nat \<Rightarrow> u8) \<Rightarrow> (nat \<Rightarrow> 'a kernel_scheme slot) \<Rightarrow>
     'a kernel_scheme \<Rightarrow> (int \<times> 'a kernel_scheme) option" where
  "printf cb fmt stk s = printf_loop kernel_printer cb fmt stk 0 0 s"

definition printf_t ::
    "(u8 \<Rightarrow> u32) \<Rightarrow> ('a kernel_scheme \<Rightarrow> nat \<Rightarrow> u8) \<Rightarrow> (nat \<Rightarrow> 'a kernel_scheme slot) \<Rightarrow>
     'a kernel_scheme \<Rightarrow> (int \<times> 'a kernel_scheme) option" where
  "printf_t cb fmt stk s = printf_loop terminal_printer cb fmt stk 0 0 s"

section \<open>Specification\<close>

text \<open>The text a conversion stands for, and the text of a whole format with its arguments.\<close>

definition hex_text :: "bool \<Rightarrow> u32 \<Rightarrow> u8 list" where
  "hex_text alternate w = (let t = numeral_text 16 (unat w)
     in if alternate then replicate (8 - length t) 48 @ t else t)"

definition signed_text :: "u32 \<Rightarrow> u8 list" where
  "signed_text w = (if sint w < 0 then 45 # numeral_text 10 (unat (- w)) else numeral_text 10 (unat w))"

definition conv_text :: "(nat \<Rightarrow> u32 \<times> u8 list) \<Rightarrow> nat \<Rightarrow> bool \<Rightarrow> u8 \<Rightarrow> u8 list" where
  "conv_text a n alt c =
     (if c = CH_percent then [CH_percent]
      else if c = CH_x then hex_text alt (fst (a n))
      else if c = CH_u then numeral_text 10 (unat (fst (a n)))
      else if c = CH_d then signed_text (fst (a n))
      else if c = CH_c then (if ucast (fst (a n)) = (0 :: u8) then [] else [ucast (fst (a n))])
      else if c = CH_s then snd (a n)
      else [])"

definition conv_args :: "nat \<Rightarrow> u8 \<Rightarrow> nat" where
  "conv_args n c = (if c \<in> {CH_x, CH_u, CH_d, CH_c, CH_s} then Suc n else n)"

fun render :: "(nat \<Rightarrow> u32 \<times> u8 list) \<Rightarrow> nat \<Rightarrow> u8 list \<Rightarrow> u8 list"
  and render_conv :: "(nat \<Rightarrow> u32 \<times> u8 list) \<Rightarrow> nat \<Rightarrow> bool \<Rightarrow> u8 list \<Rightarrow> u8 list" where
  "render a n [] = []"
| "render a n (c # cs) = (if c = CH_percent then render_conv a n False cs else c # render a n cs)"
| "render_conv a n alt [] = []"
| "render_conv a n alt (c # cs) =
     (if c = CH_hash then render_conv a n True cs else conv_text a n alt c @ render a (conv_args n c) cs)"

text \<open>
  A format that ends in the middle of a conversion makes the loop step over the terminator of the
  string. The theorems are about the others.
\<close>

fun complete :: "u8 list \<Rightarrow> bool" and complete_conv :: "u8 list \<Rightarrow> bool" where
  "complete [] = True"
| "complete (c # cs) = (if c = CH_percent then complete_conv cs else complete cs)"
| "complete_conv [] = False"
| "complete_conv (c # cs) = (if c = CH_hash then complete_conv cs else complete cs)"

section \<open>Printing pieces\<close>

text \<open>
  The frames the loop may write: the screen and the conversion buffers. A step from \<open>s\<close> to
  \<open>t\<close> that prints \<open>bs\<close> on terminal \<open>cur\<close> and does nothing else the kernel
  could notice.
\<close>

definition conv_ready :: "(u8 \<Rightarrow> u32) \<Rightarrow> 'a kernel_scheme \<Rightarrow> bool" where
  "conv_ready cb s \<longleftrightarrow> (\<forall>c \<in> {CH_x, CH_u, CH_d}. spread s (cb c) 64 \<and> apart s (cb c) 64 VIDEO 4000)"

definition print_ready :: "(u8 \<Rightarrow> u32) \<Rightarrow> nat \<Rightarrow> 'a kernel_scheme \<Rightarrow> bool" where
  "print_ready cb cur s \<longleftrightarrow> cur = unat (terminal_being_serviced s) \<and> cursor_ok (cursor_of cur s) \<and>
     video_mapped s \<and> conv_ready cb s"

definition conv_frames :: "(u8 \<Rightarrow> u32) \<Rightarrow> 'a machine_scheme \<Rightarrow> u32 set" where
  "conv_frames cb s = (\<Union>c \<in> {CH_x, CH_u, CH_d}. (\<lambda>i. xlat s (cb c + of_nat i)) ` {..<64})"

definition prints :: "(u8 \<Rightarrow> u32) \<Rightarrow> nat \<Rightarrow> u8 list \<Rightarrow> 'a kernel_scheme \<Rightarrow> 'a kernel_scheme \<Rightarrow> bool" where
  "prints cb cur bs s t \<longleftrightarrow> print_ready cb cur t \<and> term_vt cur t = fold vt_putc bs (term_vt cur s) \<and>
     xlat t = xlat s \<and> eflags t = eflags s \<and> terminal_state t = terminal_state s \<and>
     (\<forall>f. f \<notin> window s \<union> conv_frames cb s \<longrightarrow> ram t f = ram s f) \<and>
     (\<forall>i. i \<noteq> cur \<longrightarrow> cursor_of i t = cursor_of i s)"

lemma prints_refl: "print_ready cb cur s \<Longrightarrow> prints cb cur [] s s"
  by (simp add: prints_def)

lemma frames_cong: "xlat t = xlat s \<Longrightarrow> window t = window s" "xlat t = xlat s \<Longrightarrow> conv_frames cb t = conv_frames cb s"
  by (simp_all add: window_def conv_frames_def)

lemma prints_trans:
  assumes "prints cb cur xs s t" "prints cb cur ys t u"
  shows "prints cb cur (xs @ ys) s u"
proof -
  have "xlat t = xlat s" using assms(1) by (simp add: prints_def)
  note fc = frames_cong [OF this]
  show ?thesis using assms unfolding prints_def fc by simp
qed

lemma conv_ready_cong: "xlat t = xlat s \<Longrightarrow> conv_ready cb t = conv_ready cb s"
  by (simp add: conv_ready_def spread_def apart_def)

lemma write_text_frame:
  "terminal_being_serviced (snd (write_terminal_from fd r n s)) = terminal_being_serviced s"
  "terminal_state (snd (write_terminal_from fd r n s)) = terminal_state s"
proof -
  have "console.more (snd (put_t r m u)) = console.more u" for m and u :: "'a kernel_scheme"
    using put_t_from_more [of r "unat m" 0 u] by (simp add: put_t_def)
  note sel = console_more_sel [OF this]
  show "terminal_being_serviced (snd (write_terminal_from fd r n s)) = terminal_being_serviced s"
    "terminal_state (snd (write_terminal_from fd r n s)) = terminal_state s"
    by (simp_all add: write_terminal_from_def Let_def case_prod_beta cli_and_save_def restore_flags_def
        set_screen_x_y_def upd_terminal_def sel cli_def)
qed

lemma prints_write:
  assumes "print_ready cb cur s" "steady r n s" "n < 2147483648"
  shows "prints cb cur (buf_text r n s) s (snd (write_terminal_from STDOUT r (int n) s))"
proof -
  let ?t = "snd (write_terminal_from STDOUT r (int n) s)"
  have r: "cur = unat (terminal_being_serviced s)" "cursor_ok (cursor_of cur s)" "video_mapped s" "conv_ready cb s"
    using assms(1) by (auto simp: print_ready_def)
  have st: "steady r (nat (int n)) s" using assms(2) by simp
  have n: "0 \<le> int n" "int n < 2147483648" using assms(3) by simp_all
  note w = write_text_refines [OF n r(1-3) st refl]
  have "print_ready cb cur ?t"
    using r(1,3,4) w(7) write_text_frame(1) [of STDOUT r "int n" s] video_mapped_cong [OF w(5)] conv_ready_cong [OF w(5)]
    by (simp add: print_ready_def)
  then show ?thesis
    using w(2-6) write_text_frame(2) [of STDOUT r "int n" s] by (simp add: prints_def only_window_def)
qed

lemma prints_conv:
  fixes s :: "'a kernel_scheme"
  assumes "print_ready cb cur s" "c \<in> {CH_x, CH_u, CH_d}" "k + length bs \<le> 64"
  shows "prints cb cur [] s (write_bytes (cb c + of_nat k) bs s)"
proof -
  let ?t = "write_bytes (cb c + of_nat k) bs s"
  have ap: "apart s (cb c) 64 VIDEO 4000" using assms(1,2) by (auto simp: print_ready_def conv_ready_def)
  have "read_bytes ?t VIDEO 4000 = read_bytes s VIDEO 4000"
    by (rule read_write_apart) (rule apart_shift_left [OF ap assms(3)])
  moreover have more: "machine.more ?t = machine.more s" by simp
  note sel = machine_more_sel [OF more]
  have cur: "cursor_of i ?t = cursor_of i s" for i by (simp add: cursor_of_def sel)
  ultimately have "term_vt cur ?t = term_vt cur s" by (simp add: term_vt_def sel)
  moreover have "ram ?t f = ram s f" if "f \<notin> conv_frames cb s" for f
  proof -
    have "f \<noteq> xlat s (cb c + of_nat k + of_nat i)" if "i < length bs" for i
    proof
      assume e: "f = xlat s (cb c + of_nat k + of_nat i)"
      have "k + i < 64" using that assms(3) by simp
      then have "xlat s (cb c + of_nat (k + i)) \<in> conv_frames cb s" using assms(2) unfolding conv_frames_def by blast
      then show False using e \<open>f \<notin> conv_frames cb s\<close> by (simp add: add.assoc)
    qed
    then show ?thesis
      using keeps_outside_write [of "cb c + of_nat k" bs s] by (auto simp: keeps_outside_def)
  qed
  moreover have "print_ready cb cur ?t"
    using assms(1) conv_ready_cong [of ?t s cb] video_mapped_cong [of ?t s] cur
    by (auto simp: print_ready_def sel)
  ultimately show ?thesis using cur by (simp add: prints_def sel)
qed


lemma spread_shift:
  assumes "spread s a n" "k + j \<le> n"
  shows "spread s (a + of_nat k) j"
  unfolding spread_def
proof (rule inj_onI)
  fix i l assume "i \<in> {..<j}" "l \<in> {..<j}" "xlat s (a + of_nat k + of_nat i) = xlat s (a + of_nat k + of_nat l)"
  then show "i = l" using spread_distinct [OF assms(1), of "k + i" "k + l"] assms(2) by (auto simp: add.assoc)
qed

text \<open>A string in a conversion buffer is printed whole.\<close>

lemma prints_buffer:
  fixes s :: "'a kernel_scheme"
  assumes "print_ready cb cur s" "c \<in> {CH_x, CH_u, CH_d}" "k + length bs < n" "n \<le> 64" "0 \<notin> set bs"
  shows "prints cb cur bs s (snd (write_terminal STDOUT (cb c + of_nat k) (int (n - k)) (write_bytes (cb c + of_nat k) (bs @ [0]) s)))"
proof -
  let ?a = "cb c + of_nat k" and ?t = "write_bytes (cb c + of_nat k) (bs @ [0]) s"
  have p: "prints cb cur [] s ?t" using assms by (intro prints_conv) auto
  then have rt: "print_ready cb cur ?t" by (simp add: prints_def)
  have ap: "apart s (cb c) 64 VIDEO 4000" and sp: "spread s (cb c) 64"
    using assms(1,2) by (auto simp: print_ready_def conv_ready_def)
  have "apart s ?a (n - k) VIDEO 4000" using assms(3,4) by (intro apart_shift_left [OF ap]) simp
  then have st: "steady (at_addr ?a) (n - k) ?t" by (intro steady_addr) simp
  have "spread s ?a (Suc (length bs))" using assms(3,4) by (intro spread_shift [OF sp]) simp
  then have "cstr ?t ?a bs" using assms(3,4,5) by (intro cstr_write) auto
  then have "field_text ?t ?a (n - k) = bs" using cstr_field_text [of ?t ?a bs "n - k"] assms(3) by simp
  then have "buf_text (at_addr ?a) (n - k) ?t = bs"
    by (simp add: buf_text_def field_text_def read_bytes_def at_addr_def [abs_def])
  then show ?thesis
    using prints_trans [OF p prints_write [OF rt st]] assms(4) by (simp add: write_terminal_def)
qed

lemma itoa_text:
  fixes w r :: u32
  assumes "2 \<le> unat r" "unat r \<le> 36" "spread s a 33"
  shows "itoa w a r s = Some (write_bytes a (numeral_text (unat r) (unat w) @ [0]) s)"
    and "length (numeral_text (unat r) (unat w)) \<le> 32" "0 \<notin> set (numeral_text (unat r) (unat w))"
  using itoa_eq [OF assms] length_numeral_text [OF assms(1), of "unat w"] numeral_text_nz [OF assms(1,2)] by simp_all


lemma write_bytes_commute:
  "apart s a (length xs) b (length ys) \<Longrightarrow>
     write_bytes a xs (write_bytes b ys s) = write_bytes b ys (write_bytes a xs s)"
proof (induction xs arbitrary: a s)
  case (Cons x xs)
  have "store a x (write_bytes b ys s) = write_bytes b ys (store a x s)"
  proof (rule store_write_commute)
    fix j assume "j < length ys"
    then show "xlat s (b + of_nat j) \<noteq> xlat s a" using Cons.prems unfolding apart_def by fastforce
  qed
  moreover have "apart (store a x s) (a + 1) (length xs) b (length ys)"
    using apart_Suc_left [of s a "length xs" b "length ys"] Cons.prems by simp
  ultimately show ?case using Cons.IH [of "store a x s" "a + 1"] by simp
qed simp

lemma fill_loop:
  "m \<le> n \<Longrightarrow> spread s p n \<Longrightarrow>
     for_loop m n (\<lambda>i. store (p + of_nat i) v) s = write_bytes (p + of_nat m) (replicate (n - m) v) s"
proof (induction n)
  case (Suc n)
  show ?case
  proof (cases "m = Suc n")
    case False
    then have m: "m \<le> n" using Suc.prems(1) by simp
    have e: "replicate (Suc n - m) v = replicate (n - m) v @ [v]"
      using m by (simp add: Suc_diff_le replicate_append_same)
    have "p + of_nat m + of_nat (n - m) = p + of_nat n" using m by (simp add: add.assoc flip: of_nat_add)
    then show ?thesis
      using Suc.IH m spread_mono [OF Suc.prems(2), of n]
      by (simp add: for_loop_Suc e write_bytes_append del: replicate_Suc)
  qed simp
qed simp

lemma length_hex: "v < 16 ^ k \<Longrightarrow> length (radix_digits 16 v) \<le> k"
proof (induction k arbitrary: v)
  case (Suc k)
  then have "v div 16 < 16 ^ k" by (simp add: less_mult_imp_div_less mult.commute)
  then have "length (radix_digits 16 (v div 16)) \<le> k" by (rule Suc.IH)
  then show ?case by (subst radix_digits.simps) simp
qed simp

lemma length_hex_text: "length (numeral_text 16 (unat (w :: u32))) \<le> 8" "numeral_text 16 (unat (w :: u32)) \<noteq> []"
proof -
  have "unat w < 16 ^ 8" using unat_u32_less [of w] by simp
  then show "length (numeral_text 16 (unat w)) \<le> 8" using length_hex [of "unat w" 8] by (simp add: numeral_text_def)
  show "numeral_text 16 (unat w) \<noteq> []" by (subst numeral_text_def, subst radix_digits.simps) simp
qed

section \<open>The conversions\<close>

lemma put_buf_terminal [simp]: "put_buf terminal_printer a n s = Some (snd (write_terminal STDOUT a n s))"
  by (simp add: terminal_printer_def)

lemma convert_u_prints:
  assumes "print_ready cb cur s"
  shows "\<exists>t. convert_u terminal_printer (cb CH_u) w s = Some t \<and> prints cb cur (numeral_text 10 (unat w)) s t"
proof -
  have "spread s (cb CH_u) 33" using assms by (auto simp: print_ready_def conv_ready_def intro: spread_mono)
  note i = itoa_text [of 10 s "cb CH_u" w, OF _ _ this]
  show ?thesis
    using i prints_buffer [OF assms, of CH_u 0 "numeral_text 10 (unat w)" 36] by (simp add: convert_u_def)
qed

lemma convert_d_prints:
  assumes "print_ready cb cur s"
  shows "\<exists>t. convert_d terminal_printer (cb CH_d) w s = Some t \<and> prints cb cur (signed_text w) s t"
proof -
  have sp: "spread s (cb CH_d) 64" using assms by (auto simp: print_ready_def conv_ready_def)
  have "spread s (cb CH_d) 33" by (rule spread_mono [OF sp]) simp
  note i = itoa_text [of 10 s "cb CH_d" w, OF _ _ this]
  have "spread (store (cb CH_d) 45 s) (cb CH_d + 1) 33" using spread_shift [OF sp, of 1 33] by simp
  note j = itoa_text [of 10 "store (cb CH_d) 45 s" "cb CH_d + 1" "- w", OF _ _ this]
  show ?thesis
    using i j prints_buffer [OF assms, of CH_d 0 "45 # numeral_text 10 (unat (- w))" 36]
      prints_buffer [OF assms, of CH_d 0 "numeral_text 10 (unat w)" 36]
    by (cases "sint w < 0") (simp_all add: convert_d_def signed_text_def)
qed

lemma convert_x_prints:
  assumes "print_ready cb cur s"
  shows "\<exists>t. convert_x terminal_printer (cb CH_x) alt w s = Some t \<and> prints cb cur (hex_text alt w) s t"
proof (cases alt)
  case False
  have "spread s (cb CH_x) 33" using assms by (auto simp: print_ready_def conv_ready_def intro: spread_mono)
  note i = itoa_text [of 16 s "cb CH_x" w, OF _ _ this]
  show ?thesis
    using False i prints_buffer [OF assms, of CH_x 0 "numeral_text 16 (unat w)" 64]
    by (simp add: convert_x_def hex_text_def)
next
  case True
  let ?b = "cb CH_x" and ?bs = "numeral_text 16 (unat w)"
  let ?k = "length ?bs" and ?zs = "replicate (8 - length ?bs) (48 :: u8)"
  have sp: "spread s ?b 64" using assms by (auto simp: print_ready_def conv_ready_def)
  have sp8: "spread s (?b + 8) 33" using spread_shift [OF sp, of 8 33] by simp
  note i = itoa_text [of 16 s "?b + 8" w, OF _ _ sp8]
  let ?t1 = "write_bytes (?b + 8) (?bs @ [0]) s"
  have "cstr ?t1 (?b + 8) ?bs" using i(2,3) spread_mono [OF sp8] by (intro cstr_write) auto
  then have sl: "strlen ?t1 (?b + 8) = Some (of_nat ?k)" by (rule strlen_cstr)
  note k = length_hex_text [of w]
  have ap: "apart s (?b + of_nat ?k) (length ?zs) (?b + 8) (length (?bs @ [0]))"
    unfolding apart_def
  proof (intro allI impI)
    fix m n assume "m < length ?zs" "n < length (?bs @ [0])"
    then show "xlat s (?b + of_nat ?k + of_nat m) \<noteq> xlat s (?b + 8 + of_nat n)"
      using spread_distinct [OF sp, of "?k + m" "8 + n"] k(1) by (simp add: add.assoc)
  qed
  have "for_loop ?k 8 (\<lambda>i. store (?b + of_nat i) 48) ?t1 = write_bytes (?b + of_nat ?k) ?zs ?t1"
    using k(1) spread_mono [OF sp, of 8] by (intro fill_loop) simp_all
  also have "\<dots> = write_bytes (?b + 8) (?bs @ [0]) (write_bytes (?b + of_nat ?k) ?zs s)"
    by (rule write_bytes_commute [OF ap])
  also have "\<dots> = write_bytes (?b + of_nat ?k) ((?zs @ ?bs) @ [0]) s"
  proof -
    have "?b + of_nat ?k + of_nat (length ?zs) = ?b + 8" using k(1) by (simp add: add.assoc flip: of_nat_add)
    then show ?thesis by (simp only: write_bytes_append append_assoc)
  qed
  finally have lp: "for_loop ?k 8 (\<lambda>i. store (?b + of_nat i) 48) ?t1 = \<dots>" .
  have uk: "unat (of_nat ?k :: u32) = ?k" "sint (of_nat ?k :: u32) = int ?k"
    using k(1) sint_of_nat_u32 [of ?k] by simp_all
  have z: "0 \<notin> set (?zs @ ?bs)" using i(3) by simp
  have "prints cb cur (?zs @ ?bs) s (snd (write_terminal STDOUT (?b + of_nat ?k) (int (64 - ?k))
      (write_bytes (?b + of_nat ?k) ((?zs @ ?bs) @ [0]) s)))"
    using k(1) z by (intro prints_buffer [OF assms]) simp_all
  moreover have "int (64 - ?k) = 64 - int ?k" using k(1) by simp
  ultimately show ?thesis using True i(1) sl lp uk by (simp add: convert_x_def hex_text_def Let_def)
qed


section \<open>The loop\<close>

text \<open>Arguments whose texts do not live in what the loop writes.\<close>

definition untouched :: "(u8 \<Rightarrow> u32) \<Rightarrow> 'a kernel_scheme \<Rightarrow> 'a kernel_scheme \<Rightarrow> bool" where
  "untouched cb s t \<longleftrightarrow> xlat t = xlat s \<and> (\<forall>f. f \<notin> window s \<union> conv_frames cb s \<longrightarrow> ram t f = ram s f)"

definition args_ok :: "(u8 \<Rightarrow> u32) \<Rightarrow> 'a kernel_scheme \<Rightarrow> (nat \<Rightarrow> 'a kernel_scheme slot) \<Rightarrow> (nat \<Rightarrow> u32 \<times> u8 list) \<Rightarrow> bool" where
  "args_ok cb s stk a \<longleftrightarrow> (\<forall>n. slot_word (stk n) = fst (a n) \<and> 0 \<notin> set (snd (a n)) \<and>
     length (snd (a n)) < 2147483648 \<and>
     (\<forall>t i. untouched cb s t \<longrightarrow> i \<le> length (snd (a n)) \<longrightarrow> slot_text (stk n) t i = (snd (a n) @ [0]) ! i))"

lemma prints_untouched: "prints cb cur bs s t \<Longrightarrow> untouched cb s t"
  by (simp add: prints_def untouched_def)

lemma prints_ready: "prints cb cur bs s t \<Longrightarrow> print_ready cb cur t"
  by (simp add: prints_def)

lemma args_ok_prints:
  assumes "args_ok cb s stk a" "prints cb cur bs s t"
  shows "args_ok cb t stk a"
proof -
  have "untouched cb s u" if "untouched cb t u" for u
    using that assms(2) frames_cong [of t s] by (auto simp: untouched_def prints_def)
  then show ?thesis using assms(1) by (simp add: args_ok_def)
qed

lemma text_length_eq:
  assumes "\<forall>i \<le> length bs. r s i = (bs @ [0]) ! i" "0 \<notin> set bs" "i \<le> length bs"
  shows "text_length r s i = Some (length bs)"
  using assms(3)
proof (induction "length bs - i" arbitrary: i)
  case 0
  then show ?case using assms(1) by (subst text_length.simps) (auto simp: nth_append)
next
  case (Suc k)
  then have "i < length bs" by simp
  moreover have "r s i \<noteq> 0"
  proof -
    have "r s i = bs ! i" using assms(1) calculation by (simp add: nth_append)
    then show ?thesis using assms(2) calculation nth_mem [of i bs] by metis
  qed
  moreover have "text_length r s (Suc i) = Some (length bs)" using Suc by (intro Suc.hyps(1)) simp_all
  ultimately show ?case by (subst text_length.simps) simp
qed

lemma buf_text_string:
  assumes "\<forall>i \<le> length bs. r s i = (bs @ [0]) ! i" "0 \<notin> set bs"
  shows "buf_text r (length bs) s = bs"
proof -
  have "map (r s) [0..<length bs] = bs"
    using assms(1) by (intro nth_equalityI) (simp_all add: nth_append)
  then show ?thesis using assms(2) by (auto simp: buf_text_def takeWhile_eq_all_conv)
qed

lemma put_str_prints:
  fixes s :: "'a kernel_scheme"
  assumes "print_ready cb cur s" "args_ok cb s stk a"
  shows "\<exists>t. put_str terminal_printer (slot_text (stk n)) s = Some t \<and> prints cb cur (snd (a n)) s t"
proof -
  let ?bs = "snd (a n)" and ?r = "slot_text (stk n)"
  have z: "0 \<notin> set ?bs" and len: "length ?bs < 2147483648"
    and rd: "untouched cb s t \<Longrightarrow> \<forall>i \<le> length ?bs. ?r t i = (?bs @ [0]) ! i" for t
    using assms(2) by (simp_all add: args_ok_def)
  have here: "\<forall>i \<le> length ?bs. ?r s i = (?bs @ [0]) ! i" by (rule rd) (simp add: untouched_def)
  have "steady ?r (length ?bs) s"
    unfolding steady_def
  proof (intro allI impI)
    fix t :: "'a kernel_scheme" and i assume "only_window s t" "i < length ?bs"
    moreover from this have "untouched cb s t" by (auto simp: only_window_def untouched_def)
    ultimately show "?r t i = ?r s i" using rd [of t] here by simp
  qed
  from prints_write [OF assms(1) this len] show ?thesis
    using text_length_eq [where bs = ?bs and r = ?r and s = s and i = 0] buf_text_string [where bs = ?bs and r = ?r and s = s]
      here z sint_of_nat_u32 [OF len]
    by (simp add: terminal_printer_def)
qed

lemma put_char_prints:
  assumes "print_ready cb cur s"
  shows "\<exists>t. put_char terminal_printer (\<lambda>s i. at_text bs s (k + i)) s = Some t \<and>
     prints cb cur (if at_text bs s k = 0 then [] else [at_text bs s k]) s t"
proof -
  let ?r = "\<lambda>s i. at_text bs s (k + i)"
  have "steady ?r 1 s" by (simp add: steady_def at_text_def)
  from prints_write [OF assms this] show ?thesis
    by (cases "at_text bs s k = 0") (simp_all add: terminal_printer_def buf_text_def)
qed

lemma conv_prints:
  assumes "print_ready cb cur s" "args_ok cb s stk a" "at_text fs s b = c" "c \<noteq> CH_hash"
  shows "\<exists>t. format_char_switch terminal_printer cb (at_text fs) stk alt b n s = Some (b, conv_args n c, t) \<and>
     prints cb cur (conv_text a n alt c) s t"
proof -
  have w: "slot_word (stk n) = fst (a n)" using assms(2) by (simp add: args_ok_def)
  have one: "\<exists>t. put_char terminal_printer (\<lambda>_ _. v) s = Some t \<and> prints cb cur (if v = 0 then [] else [v]) s t" for v
    using prints_write [OF assms(1), of "\<lambda>_ _. v" 1]
    by (cases "v = 0") (simp_all add: terminal_printer_def steady_def buf_text_def)
  consider "c = CH_percent" | "c = CH_x" | "c = CH_u" | "c = CH_d" | "c = CH_c" | "c = CH_s"
    | "c \<notin> {CH_percent, CH_x, CH_u, CH_d, CH_c, CH_s}" by blast
  then show ?thesis
  proof cases
    case 1
    then show ?thesis using one [of CH_percent] assms(3)
      by (subst format_char_switch.simps) (auto simp: conv_text_def conv_args_def)
  next
    case 2
    then show ?thesis using convert_x_prints [OF assms(1), of alt "fst (a n)"] assms(3) w
      by (subst format_char_switch.simps) (auto simp: conv_text_def conv_args_def)
  next
    case 3
    then show ?thesis using convert_u_prints [OF assms(1), of "fst (a n)"] assms(3) w
      by (subst format_char_switch.simps) (auto simp: conv_text_def conv_args_def)
  next
    case 4
    then show ?thesis using convert_d_prints [OF assms(1), of "fst (a n)"] assms(3) w
      by (subst format_char_switch.simps) (auto simp: conv_text_def conv_args_def)
  next
    case 5
    then show ?thesis using one [of "ucast (fst (a n))"] assms(3) w
      by (subst format_char_switch.simps) (auto simp: conv_text_def conv_args_def)
  next
    case 6
    then show ?thesis using put_str_prints [OF assms(1,2), of n] assms(3)
      by (subst format_char_switch.simps) (auto simp: conv_text_def conv_args_def)
  next
    case 7
    then show ?thesis using prints_refl [OF assms(1)] assms(3,4)
      by (subst format_char_switch.simps) (simp add: conv_text_def conv_args_def)
  qed
qed


lemma printf_t_loop:
  fixes s :: "'a kernel_scheme"
  assumes nz: "0 \<notin> set fs"
  shows "args_ok cb s stk a \<Longrightarrow> fs = pre @ cs \<Longrightarrow> complete cs \<Longrightarrow> prints cb cur xs s t \<Longrightarrow>
      \<exists>u. printf_loop terminal_printer cb (at_text fs) stk (length pre) n t = Some (int (length fs), u) \<and>
        prints cb cur (xs @ render a n cs) s u"
    and "args_ok cb s stk a \<Longrightarrow> fs = pre @ cs \<Longrightarrow> complete_conv cs \<Longrightarrow> prints cb cur xs s t \<Longrightarrow>
      \<exists>b m v u. format_char_switch terminal_printer cb (at_text fs) stk alt (length pre) n t = Some (b, m, v) \<and>
        printf_loop terminal_printer cb (at_text fs) stk (Suc b) m v = Some (int (length fs), u) \<and>
        prints cb cur (xs @ render_conv a n alt cs) s u"
proof (induction a n cs and a n alt cs arbitrary: pre xs t and pre xs t rule: render_render_conv.induct)
  case (1 a n)
  then show ?case by (subst printf_loop.simps) (simp add: at_text_def)
next
  case (2 a n c cs)
  have at: "at_text fs t (length pre) = c" and c: "c \<noteq> 0" using 2(4) nz by (auto simp: at_text_def)
  show ?case
  proof (cases "c = CH_percent")
    case True
    then show ?thesis
      using 2(1) [OF True 2(3), of "pre @ [c]" xs t] 2(4-6) at by (subst printf_loop.simps) auto
  next
    case False
    obtain u where u: "put_char terminal_printer (\<lambda>s i. at_text fs s (length pre + i)) t = Some u" "prints cb cur [c] t u"
      using put_char_prints [OF prints_ready [OF 2(6)], of fs "length pre"] at c by auto
    have "prints cb cur (xs @ [c]) s u" using prints_trans [OF 2(6) u(2)] .
    then show ?thesis
      using 2(2) [OF False 2(3), of "pre @ [c]" "xs @ [c]" u] 2(4,5) at c u(1) False by (subst printf_loop.simps) simp
  qed
next
  case (3 a n alt)
  then show ?case by simp
next
  case (4 a n alt c cs)
  have at: "at_text fs t (length pre) = c" using 4(4) by (simp add: at_text_def)
  show ?case
  proof (cases "c = CH_hash")
    case True
    then show ?thesis
      using 4(1) [OF True 4(3), of "pre @ [c]" xs t] 4(4-6) at by (subst format_char_switch.simps) simp
  next
    case False
    obtain v where v: "format_char_switch terminal_printer cb (at_text fs) stk alt (length pre) n t
        = Some (length pre, conv_args n c, v)" "prints cb cur (conv_text a n alt c) t v"
      using conv_prints [OF prints_ready [OF 4(6)] args_ok_prints [OF 4(3,6)] at False] by blast
    show ?thesis
      using 4(2) [OF False 4(3), of "pre @ [c]" "xs @ conv_text a n alt c" v] prints_trans [OF 4(6) v(2)] 4(4,5) v(1) False
      by simp
  qed
qed

end
