(* ===== verification/Keyboard.thy ===== *)
theory Keyboard
  imports Printf Execute
begin

text \<open>
  The keyboard handler, from \<^verbatim>\<open>student-distrib/devices/keyboard.c\<close>: \<^verbatim>\<open>get_char\<close>,
  \<^verbatim>\<open>init_kbd\<close> and \<^verbatim>\<open>process_sent_scancode\<close>, which keeps the state of the modifier
  keys, switches terminals and starts their shells, and edits the line of the displayed terminal.

  \<^verbatim>\<open>keyboard.c\<close> has a global \<^verbatim>\<open>curr_attribute\<close> of its own, besides the static one of
  \<^verbatim>\<open>lib.c\<close>: it is the field \<open>kbd_attribute\<close>.

  Starting a shell may leave the handler for user code; the result of the handler is a
  \<open>flow\<close>, as for \<^verbatim>\<open>internal_execute\<close>. The saved instruction, stack and base pointers
  are compiler values: the fields of \<open>kl\<close>, together with the locals of
  \<^verbatim>\<open>internal_execute\<close>, the conversion buffers of \<^verbatim>\<open>printf_t\<close> and the address of the
  string \<^verbatim>\<open>"shell"\<close>.
\<close>

section \<open>Operations\<close>

record kbd = kernel +
  kbd_attribute :: int

record kbd_locals =
  kl_exec :: exec_locals
  kl_conv :: "u8 \<Rightarrow> u32"
  kl_shell :: u32
  kl_label :: u32
  kl_esp :: u32
  kl_ebp :: u32

abbreviation (input) KEYBOARD_DATA_PORT :: u16 where "KEYBOARD_DATA_PORT \<equiv> 0x60"
abbreviation (input) KEYBOARD_LINE_NO :: u32 where "KEYBOARD_LINE_NO \<equiv> 1"
abbreviation (input) SHIFT_MASK :: u8 where "SHIFT_MASK \<equiv> 0x1"
abbreviation (input) CONTROL_MASK :: u8 where "CONTROL_MASK \<equiv> 0x2"
abbreviation (input) CAPS_LOCK_MASK :: u8 where "CAPS_LOCK_MASK \<equiv> 0x4"
abbreviation (input) BACKSPACE_MASK :: u8 where "BACKSPACE_MASK \<equiv> 0x8"
abbreviation (input) R_SHIFT_MASK :: u8 where "R_SHIFT_MASK \<equiv> 0x20"
abbreviation (input) ALT_MASK :: u8 where "ALT_MASK \<equiv> 0x40"

definition SHIFT_ON :: "u8 \<Rightarrow> bool" where "SHIFT_ON st \<longleftrightarrow> st AND SHIFT_MASK \<noteq> 0"
definition CONTROL_ON :: "u8 \<Rightarrow> bool" where "CONTROL_ON st \<longleftrightarrow> st AND CONTROL_MASK \<noteq> 0"
definition CAPS_LOCK_ON :: "u8 \<Rightarrow> bool" where "CAPS_LOCK_ON st \<longleftrightarrow> st AND CAPS_LOCK_MASK \<noteq> 0"
definition BACKSPACE_ON :: "u8 \<Rightarrow> bool" where "BACKSPACE_ON st \<longleftrightarrow> st AND BACKSPACE_MASK \<noteq> 0"
definition R_SHIFT_ON :: "u8 \<Rightarrow> bool" where "R_SHIFT_ON st \<longleftrightarrow> st AND R_SHIFT_MASK \<noteq> 0"
definition ALT_ON :: "u8 \<Rightarrow> bool" where "ALT_ON st \<longleftrightarrow> st AND ALT_MASK \<noteq> 0"

definition get_char :: "device \<Rightarrow> 'a machine_scheme \<Rightarrow> u8 \<times> 'a machine_scheme" where
  "get_char dev s =
     (let (data, s) = inb dev KEYBOARD_DATA_PORT s
      in if data = 0xE0 then inb dev KEYBOARD_DATA_PORT (io_wait s) else (data, s))"

definition init_kbd :: "device \<Rightarrow> 'a kernel_scheme \<Rightarrow> 'a kernel_scheme" where
  "init_kbd dev s =
     (let s = init_scancode_table s;
          s = for_loop 0 3 (\<lambda>i. upd_terminal i (\<lambda>t. t\<lparr>t_screen_x := 0, t_screen_y := 0,
                stdin := replicate KEYBOARD_BUFF_SIZE NULL_CHAR, stdin_index := 0, allowed_to_read := 0,
                read_waiting := 0\<rparr>)) s
      in enable_irq dev KEYBOARD_LINE_NO s)"

text \<open>The first \<^verbatim>\<open>switch\<close> of the handler: the state of the modifier keys.\<close>

definition modifier_keys :: "u8 \<Rightarrow> u8 \<Rightarrow> u8" where
  "modifier_keys raw st =
     (if raw = 0x0E then st OR BACKSPACE_MASK
      else if raw = 0x8E then st AND NOT BACKSPACE_MASK
      else if raw = 0x3A then st XOR CAPS_LOCK_MASK
      else if raw = 0xBA then st
      else if raw = 0x2A then st OR SHIFT_MASK
      else if raw = 0xAA then st AND NOT SHIFT_MASK
      else if raw = 0x36 then st OR R_SHIFT_MASK
      else if raw = 0xB6 then st AND NOT R_SHIFT_MASK
      else if raw = 0x1D then st OR CONTROL_MASK
      else if raw = 0x9D then st AND NOT CONTROL_MASK
      else if raw = 0x38 then st OR ALT_MASK
      else if raw = 0xB8 then st AND NOT ALT_MASK
      else st)"

text \<open>A call of \<^verbatim>\<open>printf_t\<close> with a constant format and at most one argument.\<close>

definition say :: "(u8 \<Rightarrow> u32) \<Rightarrow> string \<Rightarrow> 'a kernel_scheme \<Rightarrow> 'a kernel_scheme option" where
  "say cb msg s = map_option snd (printf_t cb (at_text (bytes_of msg)) (\<lambda>_. Slot 0 (at_text [])) s)"

definition say_text :: "(u8 \<Rightarrow> u32) \<Rightarrow> u8 list \<Rightarrow> 'a kernel_scheme \<Rightarrow> 'a kernel_scheme option" where
  "say_text cb bs s = map_option snd (printf_t cb (at_text (bytes_of ''%s'')) (\<lambda>_. Slot 0 (at_text bs)) s)"

definition shown_directory :: "layout \<Rightarrow> 'a kernel_scheme \<Rightarrow> 'a kernel_scheme" where
  "shown_directory lay s =
     set_new_page_directory (get_page_directory_for_pid lay (uint (t_pid (terminals s (unat (terminal_state s)))))) s"

definition serviced_directory :: "layout \<Rightarrow> 'a kernel_scheme \<Rightarrow> 'a kernel_scheme" where
  "serviced_directory lay s =
     set_new_page_directory (get_page_directory_for_pid lay
       (uint (t_pid (terminals s (unat (get_terminal_of_current_process s)))))) s"

text \<open>
  The cases for F2 and F3. A result \<open>Return\<close> means that the handler goes on at
  \<^verbatim>\<open>SWITCH_TERMINAL_CONTEXT\<close>.
\<close>

definition CAN_SWITCH :: "u8 \<Rightarrow> u8 \<Rightarrow> 'a kernel_scheme \<Rightarrow> bool" where
  "CAN_SWITCH tmask target s \<longleftrightarrow>
     (terminals_launched s AND tmask = 0 \<and> get_available_pid s \<noteq> FAILURE \<or> terminals_launched s AND tmask \<noteq> 0)
     \<and> terminal_state s \<noteq> target"

definition switch_or_launch ::
    "layout \<Rightarrow> kbd_locals \<Rightarrow> u8 \<Rightarrow> u8 \<Rightarrow> 'a kernel_scheme \<Rightarrow> (flow \<times> 'a kernel_scheme) option" where
  "switch_or_launch lay kl tmask target s =
     (if CAN_SWITCH tmask target s then
        let s = change_terminal_state lay (uint (terminal_state s)) (uint target) s
        in if terminals_launched s AND tmask = 0 then
             let s = set_terminal_of_current_process (terminal_state s) s;
                 s = save_process_context (kl_label kl) (kl_esp kl + 4) (kl_ebp kl) s;
                 s = s\<lparr>terminals_launched := terminals_launched s OR tmask\<rparr>;
                 s = send_eoi KEYBOARD_LINE_NO s
             in internal_execute lay (kl_exec kl) (kl_shell kl) FIRST_TERM_SHELL s
           else Some (Return 0, s)
      else if terminal_state s \<noteq> target then
        (case say (kl_conv kl) (CHR 0x0A # ''Could not start new terminal: max processes running'' @ [CHR 0x0A]) s of
           None \<Rightarrow> None
         | Some s \<Rightarrow> map_option (\<lambda>s. (Return 0, s)) (say (kl_conv kl) ''391OS> '' s))
      else Some (Return 0, s))"

definition alt_keys ::
    "layout \<Rightarrow> kbd_locals \<Rightarrow> u8 \<Rightarrow> 'a kernel_scheme \<Rightarrow> (flow \<times> 'a kernel_scheme) option" where
  "alt_keys lay kl key s =
     (let s = cli s;
          r = (if key = 14 then
                 Some (Return 0, if terminal_state s \<noteq> 0
                                 then change_terminal_state lay (uint (terminal_state s)) 0 s else s)
               else if key = 16 then switch_or_launch lay kl 2 1 s
               else if key = 18 then switch_or_launch lay kl 4 2 s
               else Some (Return 0, s))
      in case r of
           None \<Rightarrow> None
         | Some (To_user e f p, s) \<Rightarrow> Some (To_user e f p, s)
         | Some (Return _, s) \<Rightarrow> let s = serviced_directory lay s in Some (Return (uint (keyboard_state s)), s))"

definition next_attribute :: "int \<Rightarrow> int" where
  "next_attribute a = (if a + 1 > 0x0F then 0x01 else a + 1)"

definition next_background :: "int \<Rightarrow> int" where
  "next_background a = (if a + 1 > 0x0F then 0x00 else a + 1)"

definition control_keys ::
    "layout \<Rightarrow> kbd_locals \<Rightarrow> u8 \<Rightarrow> 'a kbd_scheme \<Rightarrow> (flow \<times> 'a kbd_scheme) option" where
  "control_keys lay kl key s =
     (let r = (if key = 108 then
                 let (flags, s) = cli_and_save s;
                     current_process_terminal = get_terminal_of_current_process s;
                     s = clear_and_reset s;
                     s = set_screen_x_y 0 0 s;
                     s = set_cursor_location 0 0 s;
                     s = upd_terminal (unat (terminal_state s)) (\<lambda>t. t\<lparr>t_screen_x := 0\<rparr>) s;
                     s = upd_terminal (unat (terminal_state s)) (\<lambda>t. t\<lparr>t_screen_y := 0\<rparr>) s;
                     s = set_terminal_of_current_process (terminal_state s) s
                 in case say (kl_conv kl) ''391OS> '' s of
                      None \<Rightarrow> None
                    | Some s \<Rightarrow>
                        (case say_text (kl_conv kl) (stdin (terminals s (unat (terminal_state s)))) s of
                           None \<Rightarrow> None
                         | Some s \<Rightarrow>
                             let s = set_terminal_of_current_process current_process_terminal s
                             in Some (restore_flags flags s))
               else if key = 54 then
                 let s = s\<lparr>kbd_attribute := next_attribute (kbd_attribute s)\<rparr>
                 in Some (change_atribute (of_int (push_bit 4 (curr_back_attribute s) OR kbd_attribute s)) s)
               else if key = 55 then
                 let s = s\<lparr>curr_back_attribute := next_background (curr_back_attribute s)\<rparr>
                 in Some (change_atribute (of_int (push_bit 4 (curr_back_attribute s) OR kbd_attribute s)) s)
               else Some s)
      in map_option (\<lambda>s. let s = serviced_directory lay s in (Return (uint (keyboard_state s)), s)) r)"

text \<open>Echo a character and append it to the line, followed by a terminator.\<close>

definition append_stdin :: "u8 \<Rightarrow> terminal \<Rightarrow> terminal" where
  "append_stdin c t =
     (let i = stdin_index t
      in t\<lparr>stdin := (stdin t)[nat i := c, nat (i + 1) := NULL_CHAR], stdin_index := i + 1\<rparr>)"

definition type_key :: "u8 \<Rightarrow> 'a kernel_scheme \<Rightarrow> 'a kernel_scheme" where
  "type_key c s = (let s = putc_kbd c s in upd_terminal (unat (terminal_state s)) (append_stdin c) s)"

definition erase_key :: "'a kernel_scheme \<Rightarrow> 'a kernel_scheme" where
  "erase_key s =
     (if stdin_index (terminals s (unat (terminal_state s))) > 0 then
        let s = putc_kbd BKSP_CHAR s
        in upd_terminal (unat (terminal_state s))
             (\<lambda>t. t\<lparr>stdin_index := stdin_index t - 1, stdin := (stdin t)[nat (stdin_index t - 1) := NULL_CHAR]\<rparr>) s
      else s)"

definition finish_line :: "terminal \<Rightarrow> terminal" where
  "finish_line t =
     (if read_waiting t = 1 then
        let t = (if stdin t ! 0 = NEW_LINE then t\<lparr>stdin := (stdin t)[1 := NULL_CHAR]\<rparr> else t)
        in t\<lparr>allowed_to_read := 1\<rparr>
      else t\<lparr>stdin := replicate KEYBOARD_BUFF_SIZE NULL_CHAR, stdin_index := 0, allowed_to_read := 0\<rparr>)"

definition enter_key :: "'a kernel_scheme \<Rightarrow> 'a kernel_scheme" where
  "enter_key s =
     (let s = type_key NEW_LINE s in upd_terminal (unat (terminal_state s)) finish_line s)"

text \<open>The character a key stands for, if it stands for one.\<close>

definition key_char :: "scancode \<Rightarrow> u8 \<Rightarrow> (u8 \<Rightarrow> u8) \<Rightarrow> u8 option" where
  "key_char mapped st shift_table =
     (if CAPS_LOCK_ON st \<and> \<not> SHIFT_ON st \<and> \<not> R_SHIFT_ON st then
        if IS_LETTER_SC mapped then Some (result mapped - 32)
        else if IS_PRINTABLE_SC mapped then Some (result mapped)
        else None
      else if SHIFT_ON st \<or> R_SHIFT_ON st then
        if IS_LETTER_SC mapped \<and> \<not> CAPS_LOCK_ON st then Some (result mapped - 32)
        else if IS_PRINTABLE_SC mapped then
          if shift_table (result mapped) \<noteq> 0 then Some (shift_table (result mapped)) else Some (result mapped)
        else None
      else if IS_PRINTABLE_SC mapped then Some (result mapped)
      else None)"

definition line_keys ::
    "layout \<Rightarrow> scancode \<Rightarrow> 'a kernel_scheme \<Rightarrow> flow \<times> 'a kernel_scheme" where
  "line_keys lay mapped s =
     (let shown = unat (terminal_state s);
          leave = (\<lambda>s. let s = serviced_directory lay s in (Return (uint (keyboard_state s)), s))
      in if \<not> BACKSPACE_ON (keyboard_state s) \<and> result mapped = NEW_LINE \<and> stdin_index (terminals s shown) < 127
         then leave (enter_key s)
         else
           let s = (if BACKSPACE_ON (keyboard_state s) then erase_key s else s)
           in if stdin_index (terminals s shown) \<ge> 126 then leave s
              else case key_char mapped (keyboard_state s) (non_alpha_shift_table s) of
                     None \<Rightarrow> leave s
                   | Some c \<Rightarrow> leave (type_key c s))"

definition process_sent_scancode ::
    "layout \<Rightarrow> kbd_locals \<Rightarrow> device \<Rightarrow> 'a kbd_scheme \<Rightarrow> (flow \<times> 'a kbd_scheme) option" where
  "process_sent_scancode lay kl dev s =
     (let (raw_scancode, s) = get_char dev s
      in if raw_scancode = 0x53 then Some (Return (uint (keyboard_state s)), s)
         else
           let s = s\<lparr>keyboard_state := modifier_keys raw_scancode (keyboard_state s)\<rparr>;
               mapped = scancode_table s raw_scancode
           in if \<not> IS_MAKE_SC mapped then Some (Return (uint (keyboard_state s)), s)
              else
                let s = shown_directory lay s
                in if ALT_ON (keyboard_state s) then alt_keys lay kl (result mapped) s
                   else if CONTROL_ON (keyboard_state s) then control_keys lay kl (result mapped) s
                   else Some (line_keys lay mapped s))"


section \<open>The line of a terminal\<close>

text \<open>
  The line buffer: its 128 bytes, an index inside it, and, when nothing odd has happened, the
  text up to the index, followed by a terminator.
\<close>

definition buffer_ok :: "terminal \<Rightarrow> bool" where
  "buffer_ok t \<longleftrightarrow> length (stdin t) = 128 \<and> 0 \<le> stdin_index t \<and> stdin_index t \<le> 127"

definition editable :: "terminal \<Rightarrow> bool" where
  "editable t \<longleftrightarrow> buffer_ok t \<and> int (length (line_of t)) = stdin_index t"

lemma line_of_eqI:
  assumes "take n xs = bs" "n < length xs" "xs ! n = 0" "0 \<notin> set bs" "stdin t = xs"
  shows "line_of t = bs"
proof -
  have "xs = bs @ 0 # drop (Suc n) xs" using assms(1-3) id_take_nth_drop [of n xs] by simp
  moreover have "takeWhile (\<lambda>b. b \<noteq> 0) (bs @ 0 # ys) = bs" for ys
    using assms(4) by (subst takeWhile_append2) auto
  ultimately show ?thesis using assms(5) by (metis line_of_def)
qed

lemma editable_take:
  assumes "editable t"
  shows "take (nat (stdin_index t)) (stdin t) = line_of t" "stdin t ! nat (stdin_index t) = 0"
    "nat (stdin_index t) < 128" "0 \<notin> set (line_of t)" "length (stdin t) = 128"
proof -
  have b: "buffer_ok t" using assms by (simp add: editable_def)
  have e: "nat (stdin_index t) = length (line_of t)" using assms unfolding editable_def by (metis nat_int)
  from b show "length (stdin t) = 128" "nat (stdin_index t) < 128" by (auto simp: buffer_ok_def)
  show "take (nat (stdin_index t)) (stdin t) = line_of t"
    unfolding e by (simp add: line_of_def flip: takeWhile_eq_take)
  show "0 \<notin> set (line_of t)" using set_takeWhileD [of _ "\<lambda>b. b \<noteq> 0" "stdin t"] by (auto simp: line_of_def)
  show "stdin t ! nat (stdin_index t) = 0"
    unfolding e by (rule line_stop) (use b e [symmetric] in \<open>auto simp: buffer_ok_def\<close>)
qed

lemma append_stdin_line:
  assumes "editable t" "stdin_index t < 127" "c \<noteq> 0"
  shows "editable (append_stdin c t)" "line_of (append_stdin c t) = line_of t @ [c]"
proof -
  let ?i = "nat (stdin_index t)" and ?u = "append_stdin c t"
  note e = editable_take [OF assms(1)]
  have i: "?i + 1 < 128" "nat (stdin_index t + 1) = ?i + 1" "0 \<le> stdin_index t"
    using assms(1,2) by (auto simp: editable_def buffer_ok_def nat_add_distrib)
  have s: "stdin ?u = (stdin t)[?i := c, ?i + 1 := 0]" "stdin_index ?u = stdin_index t + 1"
    using i by (simp_all add: append_stdin_def Let_def)
  show l: "line_of ?u = line_of t @ [c]"
  proof (rule line_of_eqI [where n = "?i + 1"])
    show "take (?i + 1) (stdin ?u) = line_of t @ [c]"
      using e i s by (simp add: take_Suc_conv_app_nth)
  qed (use e i s assms(3) in simp_all)
  show "editable ?u" using assms(1) l s i e(5) by (simp add: editable_def buffer_ok_def)
qed

lemma erase_line:
  assumes "editable t" "0 < stdin_index t"
    and "u = t\<lparr>stdin_index := stdin_index t - 1, stdin := (stdin t)[nat (stdin_index t - 1) := 0]\<rparr>"
  shows "editable u" "line_of u = butlast (line_of t)"
proof -
  let ?i = "nat (stdin_index t - 1)"
  note e = editable_take [OF assms(1)]
  have i: "nat (stdin_index t) = Suc ?i" "?i < 128" using assms(2) e(3) by auto
  show l: "line_of u = butlast (line_of t)"
  proof (rule line_of_eqI [where n = ?i])
    show "take ?i (stdin u) = butlast (line_of t)"
      using assms(3) e(1,5) i by (simp add: take_Suc_conv_app_nth flip: e(1))
    show "0 \<notin> set (butlast (line_of t))" using e(4) in_set_butlastD by metis
  qed (use assms(3) e i in simp_all)
  show "editable u" using assms l e(5) by (auto simp: editable_def buffer_ok_def)
qed

lemma finish_line_eq:
  assumes "editable t" "line_of t = bs @ [NEW_LINE]" "bs = [] \<or> hd bs \<noteq> NEW_LINE"
  shows "read_waiting t = 1 \<Longrightarrow> editable (finish_line t) \<and> line_of (finish_line t) = line_of t \<and>
      allowed_to_read (finish_line t) = 1 \<and> read_waiting (finish_line t) = 1"
    and "read_waiting t \<noteq> 1 \<Longrightarrow> editable (finish_line t) \<and> line_of (finish_line t) = []"
proof -
  note e = editable_take [OF assms(1)]
  have hd: "stdin t ! 0 = (bs @ [NEW_LINE]) ! 0"
    using line_nth [of 0 t] assms(2) by simp
  have "stdin t ! 1 = 0" if "bs = []"
    using line_stop [of t] assms(2) that e(5) by simp
  then have "(if stdin t ! 0 = NEW_LINE then t\<lparr>stdin := (stdin t)[1 := 0]\<rparr> else t) = t"
    using hd assms(3) list_update_id [of "stdin t" 1] by (cases bs) auto
  then show "read_waiting t = 1 \<Longrightarrow> editable (finish_line t) \<and> line_of (finish_line t) = line_of t \<and>
      allowed_to_read (finish_line t) = 1 \<and> read_waiting (finish_line t) = 1"
    using assms(1) by (simp add: finish_line_def Let_def editable_def buffer_ok_def line_of_def)
  show "read_waiting t \<noteq> 1 \<Longrightarrow> editable (finish_line t) \<and> line_of (finish_line t) = []"
    by (simp add: finish_line_def editable_def buffer_ok_def line_of_def)
qed

section \<open>Line editing\<close>

text \<open>
  What a key does to the line, with no terminals and no screen: the backspace key drops the last
  character, a key with a character appends it as long as fewer than 126 are there. The Enter key
  is treated apart.
\<close>

definition is_enter :: "scancode \<Rightarrow> u8 \<Rightarrow> nat \<Rightarrow> bool" where
  "is_enter m st n \<longleftrightarrow> \<not> BACKSPACE_ON st \<and> result m = NEW_LINE \<and> n < 127"

definition erased :: "u8 \<Rightarrow> u8 list \<Rightarrow> u8 list" where
  "erased st l = (if BACKSPACE_ON st then butlast l else l)"

definition typed_text :: "scancode \<Rightarrow> u8 \<Rightarrow> (u8 \<Rightarrow> u8) \<Rightarrow> nat \<Rightarrow> u8 list" where
  "typed_text m st tab n = (if n \<ge> 126 then [] else case key_char m st tab of None \<Rightarrow> [] | Some c \<Rightarrow> [c])"

definition edit_line :: "scancode \<Rightarrow> u8 \<Rightarrow> (u8 \<Rightarrow> u8) \<Rightarrow> u8 list \<Rightarrow> u8 list" where
  "edit_line m st tab l = erased st l @ typed_text m st tab (length (erased st l))"

definition edit_echo :: "scancode \<Rightarrow> u8 \<Rightarrow> (u8 \<Rightarrow> u8) \<Rightarrow> u8 list \<Rightarrow> u8 list" where
  "edit_echo m st tab l = (if BACKSPACE_ON st \<and> l \<noteq> [] then [BKSP_CHAR] else [])
     @ typed_text m st tab (length (erased st l))"

text \<open>No key stands for the character NUL, and letters are lower case in the table.\<close>

definition keys_ok :: "'a kernel_scheme \<Rightarrow> bool" where
  "keys_ok s \<longleftrightarrow> (\<forall>raw. (IS_PRINTABLE_SC (scancode_table s raw) \<longrightarrow> result (scancode_table s raw) \<noteq> 0) \<and>
     (IS_LETTER_SC (scancode_table s raw) \<longrightarrow> 97 \<le> result (scancode_table s raw)))"

lemma key_char_nonzero:
  assumes "keys_ok s" "key_char (scancode_table s raw) st tab = Some c"
  shows "c \<noteq> 0"
proof -
  let ?m = "scancode_table s raw"
  have "IS_LETTER_SC ?m \<Longrightarrow> result ?m - 32 \<noteq> 0" "IS_PRINTABLE_SC ?m \<Longrightarrow> result ?m \<noteq> 0"
    using assms(1) by (auto simp: keys_ok_def)
  then show ?thesis using assms(2) by (auto simp: key_char_def split: if_splits)
qed

lemma masked_flags:
  "IS_PRINTABLE_SC m \<Longrightarrow> scflags m AND SCANCODE_PRINTABLE \<noteq> 0"
  "IS_LETTER_SC m \<Longrightarrow> scflags m AND SCANCODE_LETTER \<noteq> 0"
  unfolding IS_PRINTABLE_SC_def IS_LETTER_SC_def by (metis drop_bit_of_0)+

lemma init_keys_ok:
  assumes "\<forall>raw. scancode_table s raw = \<lparr>result = 0, scflags = 0\<rparr>"
  shows "keys_ok (init_scancode_table s)"
proof -
  have "(IS_PRINTABLE_SC (scancode_table (init_scancode_table s) raw) \<longrightarrow>
          result (scancode_table (init_scancode_table s) raw) \<noteq> 0) \<and>
        (IS_LETTER_SC (scancode_table (init_scancode_table s) raw) \<longrightarrow>
          97 \<le> result (scancode_table (init_scancode_table s) raw))" for raw
  proof (cases "scancode_of raw")
    case None
    then show ?thesis using assms masked_flags by (simp add: table_entry IS_PRINTABLE_SC_def IS_LETTER_SC_def)
  next
    case (Some e)
    moreover obtain r f where e: "e = (r, f)" by fastforce
    ultimately have "entry_sound (raw, r, f)" using scancode_of_sound by simp
    then show ?thesis using Some e masked_flags [of "scancode_table (init_scancode_table s) raw"]
      by (auto simp: table_entry entry_sound_def)
  qed
  then show ?thesis by (simp add: keys_ok_def)
qed

text \<open>What a key may change: the line of one terminal, the screen and the page directory.\<close>

definition edits_only :: "nat \<Rightarrow> 'a kernel_scheme \<Rightarrow> 'a kernel_scheme \<Rightarrow> bool" where
  "edits_only i s t \<longleftrightarrow> (\<forall>j. j \<noteq> i \<longrightarrow> terminals t j = terminals s j) \<and>
     read_waiting (terminals t i) = read_waiting (terminals s i) \<and> t_pid (terminals t i) = t_pid (terminals s i) \<and>
     pcbs t = pcbs s \<and> frames t = frames s \<and> pid_avail t = pid_avail s \<and> ptmem t = ptmem s \<and> tss_esp0 t = tss_esp0 s \<and>
     terminal_state t = terminal_state s \<and> terminal_being_serviced t = terminal_being_serviced s \<and>
     keyboard_state t = keyboard_state s \<and> terminals_launched t = terminals_launched s \<and>
     scancode_table t = scancode_table s \<and> non_alpha_shift_table t = non_alpha_shift_table s \<and> eflags t = eflags s"

lemma edits_only_refl [simp]: "edits_only i s s"
  by (simp add: edits_only_def)

lemma edits_only_trans: "edits_only i s t \<Longrightarrow> edits_only i t u \<Longrightarrow> edits_only i s u"
  by (simp add: edits_only_def)

lemma putc_kbd_more: "console.more (putc_kbd c s) = console.more s"
  by (simp add: putc_kbd_def Let_def)

lemma console_more_tables:
  fixes s t :: "'a kernel_scheme"
  assumes "console.more s = console.more t"
  shows "scancode_table s = scancode_table t" "non_alpha_shift_table s = non_alpha_shift_table t"
  using assms by (cases s; cases t; simp)+

lemmas putc_kbd_kernel [simp] =
  console_more_sel [OF putc_kbd_more] console_more_tables [OF putc_kbd_more]

lemma putc_kbd_machine [simp]: "eflags (putc_kbd c s) = eflags s" "xlat (putc_kbd c s) = xlat s"
  by (simp_all add: putc_kbd_def Let_def)

lemma edits_only_putc [simp]: "edits_only i s (putc_kbd c s)"
  by (simp add: edits_only_def)

lemma edits_only_upd:
  assumes "\<And>t. read_waiting (f t) = read_waiting t \<and> t_pid (f t) = t_pid t"
  shows "edits_only i s (upd_terminal i f s)"
  using assms by (simp add: edits_only_def) (simp add: upd_terminal_def)

lemma abs_vt_upd_terminal [simp]: "abs_vt (upd_terminal i f s) = abs_vt s"
  by (rule abs_vt_cong) (simp_all add: upd_terminal_def)


text \<open>
  \<open>edited l e s v\<close>: the line of the displayed terminal has become \<open>l\<close>, and the characters
  \<open>e\<close> were shown.
\<close>

definition edited :: "u8 list \<Rightarrow> u8 list \<Rightarrow> 'a kernel_scheme \<Rightarrow> 'a kernel_scheme \<Rightarrow> bool" where
  "edited l e s v \<longleftrightarrow> (let i = unat (terminal_state s) in
     edits_only i s v \<and> editable (terminals v i) \<and> line_of (terminals v i) = l \<and>
     allowed_to_read (terminals v i) = allowed_to_read (terminals s i) \<and> xlat v = xlat s \<and>
     (console_ok s \<longrightarrow> console_ok v \<and> abs_vt v = fold vt_putc e (abs_vt s)))"

lemma edited_trans: "edited l e s v \<Longrightarrow> edited l' e' v w \<Longrightarrow> edited l' (e @ e') s w"
  by (auto simp: edited_def Let_def edits_only_def)

lemma edited_refl: "editable (terminals s (unat (terminal_state s))) \<Longrightarrow>
    edited (line_of (terminals s (unat (terminal_state s)))) [] s s"
  by (simp add: edited_def)

lemma console_ok_upd_terminal [simp]: "console_ok (upd_terminal i f s) = console_ok s"
  using video_mapped_cong [of "upd_terminal i f s" s]
  by (simp add: console_ok_def screen_ok_def) (simp add: upd_terminal_def)

lemma edited_upd:
  assumes "editable (f (terminals s (unat (terminal_state s))))"
    and "\<And>t. read_waiting (f t) = read_waiting t \<and> t_pid (f t) = t_pid t \<and> allowed_to_read (f t) = allowed_to_read t"
  shows "edited (line_of (f (terminals s (unat (terminal_state s))))) [c] s
    (upd_terminal (unat (terminal_state s)) f (putc_kbd c s))"
proof -
  have "edits_only (unat (terminal_state s)) s (upd_terminal (unat (terminal_state s)) f (putc_kbd c s))"
    using edits_only_trans [OF edits_only_putc edits_only_upd] assms(2) by blast
  then show ?thesis
    using assms kbd_dev.ok_putch [of s c] kbd_dev.abs_putch [of s c] by (simp add: edited_def)
qed

lemma type_key_edited:
  assumes "i = unat (terminal_state s)" "editable (terminals s i)" "stdin_index (terminals s i) < 127" "c \<noteq> 0"
  shows "edited (line_of (terminals s i) @ [c]) [c] s (type_key c s)"
  using edited_upd [of "append_stdin c" s c] append_stdin_line [OF assms(2-4)] assms(1)
  by (simp add: type_key_def append_stdin_def Let_def)

lemma erase_key_edited:
  assumes "i = unat (terminal_state s)" "editable (terminals s i)" "BACKSPACE_ON st"
  shows "edited (erased st (line_of (terminals s i))) (if line_of (terminals s i) \<noteq> [] then [BKSP_CHAR] else []) s (erase_key s)"
proof (cases "stdin_index (terminals s i) > 0")
  case True
  let ?f = "\<lambda>t. t\<lparr>stdin_index := stdin_index t - 1, stdin := (stdin t)[nat (stdin_index t - 1) := NULL_CHAR]\<rparr>"
  have "line_of (terminals s i) \<noteq> []" using True assms(2) by (auto simp: editable_def)
  then show ?thesis
    using True edited_upd [of ?f s BKSP_CHAR] erase_line [OF assms(2) True refl] assms(1,3)
    by (simp add: erase_key_def Let_def erased_def)
next
  case False
  then have "length (line_of (terminals s i)) = 0" using assms(2) unfolding editable_def by linarith
  then show ?thesis using False edited_refl [of s] assms by (simp add: erase_key_def erased_def)
qed

lemma editable_index:
  "editable t \<Longrightarrow> stdin_index t = int (length (line_of t))"
  by (simp add: editable_def)

lemma serviced_directory_sel [simp]:
  "terminals (serviced_directory lay s) = terminals s" "keyboard_state (serviced_directory lay s) = keyboard_state s"
  "terminal_state (serviced_directory lay s) = terminal_state s"
  "terminals (shown_directory lay s) = terminals s" "keyboard_state (shown_directory lay s) = keyboard_state s"
  "terminal_state (shown_directory lay s) = terminal_state s"
  "scancode_table (shown_directory lay s) = scancode_table s"
  "non_alpha_shift_table (shown_directory lay s) = non_alpha_shift_table s"
  by (simp_all add: serviced_directory_def shown_directory_def set_new_page_directory_def)

lemma line_keys_edit:
  assumes i: "i = unat (terminal_state s)" and ed: "editable (terminals s i)" and k: "keys_ok s"
    and m: "m = scancode_table s raw" and st: "st = keyboard_state s" and l: "l = line_of (terminals s i)"
    and no: "\<not> is_enter m st (length l)"
  shows "\<exists>v. line_keys lay m s = (Return (uint st), serviced_directory lay v) \<and>
    edited (edit_line m st (non_alpha_shift_table s) l) (edit_echo m st (non_alpha_shift_table s) l) s v"
proof -
  let ?tab = "non_alpha_shift_table s"
  define w where "w = (if BACKSPACE_ON st then erase_key s else s)"
  define e where "e = (if BACKSPACE_ON st \<and> l \<noteq> [] then [BKSP_CHAR] else [])"
  have w: "edited (erased st l) e s w"
    using erase_key_edited [OF i ed, of st] edited_refl [of s] ed i l by (auto simp: w_def e_def erased_def)
  then have ww: "terminal_state w = terminal_state s" "keyboard_state w = st" "non_alpha_shift_table w = ?tab"
    "editable (terminals w i)" "line_of (terminals w i) = erased st l"
    by (simp_all add: edited_def edits_only_def Let_def flip: i st)
  have idx: "stdin_index (terminals s i) = int (length l)" "stdin_index (terminals w i) = int (length (erased st l))"
    using editable_index ed ww(4,5) l by auto
  have not_enter: "(\<not> BACKSPACE_ON st \<and> result m = NEW_LINE \<and> stdin_index (terminals s i) < 127) = False"
    using no idx(1) by (auto simp: is_enter_def)
  have lk: "line_keys lay m s = (let leave = (\<lambda>s. let s = serviced_directory lay s in (Return (uint (keyboard_state s)), s))
      in if 126 \<le> length (erased st l) then leave w
         else case key_char m st ?tab of None \<Rightarrow> leave w | Some c \<Rightarrow> leave (type_key c w))"
    unfolding line_keys_def Let_def i [symmetric] st [symmetric] not_enter if_False w_def [symmetric]
    by (simp add: ww idx)
  show ?thesis
  proof (cases "typed_text m st ?tab (length (erased st l))")
    case Nil
    then have "line_keys lay m s = (Return (uint st), serviced_directory lay w)"
      using lk ww(2) by (auto simp: typed_text_def Let_def split: if_splits option.splits)
    then show ?thesis using w Nil by (auto simp: edit_line_def edit_echo_def e_def)
  next
    case (Cons c cs)
    then have c: "key_char m st ?tab = Some c" "cs = []" "length (erased st l) < 126"
      by (auto simp: typed_text_def split: if_splits option.splits)
    have "c \<noteq> 0" using key_char_nonzero k c(1) m by blast
    then have t: "edited (erased st l @ [c]) [c] w (type_key c w)"
      using type_key_edited [of i w c] ww i idx(2) c(3) by simp
    then have "keyboard_state (type_key c w) = st" using ww(2) by (simp add: edited_def edits_only_def Let_def)
    then have "line_keys lay m s = (Return (uint st), serviced_directory lay (type_key c w))"
      using lk c by (simp add: Let_def)
    moreover have "edited (edit_line m st ?tab l) (edit_echo m st ?tab l) s (type_key c w)"
      using edited_trans [OF w t] Cons c(2) by (simp add: edit_line_def edit_echo_def e_def)
    ultimately show ?thesis by blast
  qed
qed


lemma enter_key_line:
  assumes i: "i = unat (terminal_state s)" and ed: "editable (terminals s i)" and l: "l = line_of (terminals s i)"
    and e: "is_enter m (keyboard_state s) (length l)" and hd: "l = [] \<or> hd l \<noteq> NEW_LINE"
  shows "\<exists>v. line_keys lay m s = (Return (uint (keyboard_state s)), serviced_directory lay v) \<and> edits_only i s v \<and>
    editable (terminals v i) \<and> xlat v = xlat s \<and>
    (console_ok s \<longrightarrow> abs_vt v = vt_putc NEW_LINE (abs_vt s)) \<and>
    (if read_waiting (terminals s i) = 1
     then line_of (terminals v i) = l @ [NEW_LINE] \<and> allowed_to_read (terminals v i) = 1
     else line_of (terminals v i) = [] \<and> allowed_to_read (terminals v i) = 0)"
proof -
  let ?w = "type_key NEW_LINE s"
  have idx: "stdin_index (terminals s i) < 127" using e editable_index [OF ed] l by (simp add: is_enter_def)
  have w: "edited (l @ [NEW_LINE]) [NEW_LINE] s ?w" using type_key_edited [OF i ed idx, of NEW_LINE] l by simp
  then have ww: "terminal_state ?w = terminal_state s" "keyboard_state ?w = keyboard_state s" "edits_only i s ?w"
    "editable (terminals ?w i)" "line_of (terminals ?w i) = l @ [NEW_LINE]" "xlat ?w = xlat s"
    "console_ok s \<longrightarrow> abs_vt ?w = vt_putc NEW_LINE (abs_vt s)"
    "read_waiting (terminals ?w i) = read_waiting (terminals s i)"
    by (simp_all add: edited_def edits_only_def Let_def flip: i)
  define v where "v = upd_terminal i finish_line ?w"
  have ek: "enter_key s = v" unfolding enter_key_def Let_def ww(1) i [symmetric] v_def ..
  have "edits_only i s v" unfolding v_def
    by (rule edits_only_trans [OF ww(3) edits_only_upd]) (simp add: finish_line_def Let_def)
  moreover have "line_keys lay m s = (Return (uint (keyboard_state s)), serviced_directory lay v)"
    using e idx calculation unfolding line_keys_def Let_def i [symmetric] ek is_enter_def edits_only_def by simp
  moreover have "\<not> read_waiting (terminals s i) = 1 \<Longrightarrow> allowed_to_read (terminals v i) = 0"
    using ww(8) by (simp add: v_def finish_line_def)
  ultimately show ?thesis using finish_line_eq [OF ww(4,5) hd] ww(5-8) by (auto simp: v_def)
qed

text \<open>One scan code, while no terminal switch or control sequence is under way.\<close>

type_synonym keys = "(u8 \<Rightarrow> scancode) \<times> (u8 \<Rightarrow> u8)"

definition live_key :: "(u8 \<Rightarrow> scancode) \<Rightarrow> u8 \<Rightarrow> bool" where
  "live_key tab raw \<longleftrightarrow> raw \<noteq> 0x53 \<and> IS_MAKE_SC (tab raw)"

fun key_step :: "keys \<Rightarrow> u8 \<Rightarrow> u8 \<times> u8 list \<Rightarrow> u8 \<times> u8 list" where
  "key_step (tab, sh) raw (st, l) =
     (let st = modifier_keys raw st in (st, if live_key tab raw then edit_line (tab raw) st sh l else l))"

fun quiet :: "keys \<Rightarrow> u8 \<Rightarrow> u8 \<times> u8 list \<Rightarrow> bool" where
  "quiet (tab, sh) raw (st, l) =
     (let st = modifier_keys raw st in live_key tab raw \<longrightarrow>
        \<not> ALT_ON st \<and> \<not> CONTROL_ON st \<and> \<not> is_enter (tab raw) st (length l))"

fun quiet_all :: "keys \<Rightarrow> u8 list \<Rightarrow> u8 \<times> u8 list \<Rightarrow> bool" where
  "quiet_all k [] x \<longleftrightarrow> True"
| "quiet_all k (raw # rs) x \<longleftrightarrow> quiet k raw x \<and> quiet_all k rs (key_step k raw x)"

definition sends :: "device \<Rightarrow> u8 \<Rightarrow> bool" where
  "sends dev raw \<longleftrightarrow> raw \<noteq> 0xE0 \<and> (\<forall>log. dev log KEYBOARD_DATA_PORT = raw)"

lemma get_char_sends:
  "sends dev raw \<Longrightarrow> get_char dev s = (raw, s\<lparr>io_log := In KEYBOARD_DATA_PORT raw # io_log s\<rparr>)"
  by (simp add: get_char_def inb_def sends_def Let_def)

definition keys_of :: "'a kernel_scheme \<Rightarrow> keys" where
  "keys_of s = (scancode_table s, non_alpha_shift_table s)"

text \<open>\<open>struck i x s v\<close>: keys have led to the modifier state and line \<open>x\<close> of terminal \<open>i\<close>.\<close>

definition struck :: "nat \<Rightarrow> u8 \<times> u8 list \<Rightarrow> 'a kernel_scheme \<Rightarrow> 'a kernel_scheme \<Rightarrow> bool" where
  "struck i x s v \<longleftrightarrow> edits_only i (s\<lparr>keyboard_state := fst x\<rparr>) v \<and> editable (terminals v i) \<and>
     line_of (terminals v i) = snd x \<and> allowed_to_read (terminals v i) = allowed_to_read (terminals s i)"

lemma struck_trans: "struck i x s v \<Longrightarrow> struck i y v w \<Longrightarrow> struck i y s w"
  by (simp add: struck_def edits_only_def)

lemma struck_refl: "editable (terminals s i) \<Longrightarrow> struck i (keyboard_state s, line_of (terminals s i)) s s"
  by (simp add: struck_def edits_only_def)


lemma modifier_delete [simp]: "modifier_keys 0x53 st = st"
  by (simp add: modifier_keys_def)

lemma edits_only_serviced:
  "edits_only i s v \<Longrightarrow> edits_only i s (serviced_directory lay v)"
  by (simp add: edits_only_def serviced_directory_def set_new_page_directory_def)

lemma process_line_key:
  fixes s :: "'a kbd_scheme"
  assumes "sends dev raw" "live_key (scancode_table s) raw" "st = modifier_keys raw (keyboard_state s)"
    and "\<not> ALT_ON st" "\<not> CONTROL_ON st"
    and "v = shown_directory lay (s\<lparr>io_log := In KEYBOARD_DATA_PORT raw # io_log s, keyboard_state := st\<rparr>)"
  shows "process_sent_scancode lay kl dev s = Some (line_keys lay (scancode_table s raw) v)"
    and "edits_only i (s\<lparr>keyboard_state := st\<rparr>) v" "terminals v = terminals s" "terminal_state v = terminal_state s"
    "keyboard_state v = st" "scancode_table v = scancode_table s" "non_alpha_shift_table v = non_alpha_shift_table s"
  using assms
  by (simp_all add: process_sent_scancode_def get_char_sends live_key_def Let_def)
    (simp add: edits_only_def shown_directory_def set_new_page_directory_def)

lemma key_press:
  fixes s :: "'a kbd_scheme"
  assumes snd: "sends dev raw" and i: "i = unat (terminal_state s)" and ed: "editable (terminals s i)"
    and k: "keys_ok s" and x: "x = (keyboard_state s, line_of (terminals s i))" and q: "quiet (keys_of s) raw x"
  shows "\<exists>f v. process_sent_scancode lay kl dev s = Some (f, v) \<and> struck i (key_step (keys_of s) raw x) s v"
proof (cases "live_key (scancode_table s) raw")
  case False
  then have "process_sent_scancode lay kl dev s = Some (Return (uint (modifier_keys raw (keyboard_state s))),
      s\<lparr>io_log := In KEYBOARD_DATA_PORT raw # io_log s, keyboard_state := modifier_keys raw (keyboard_state s)\<rparr>)"
    using snd by (auto simp: process_sent_scancode_def get_char_sends live_key_def Let_def)
  then show ?thesis using False ed x by (simp add: struck_def keys_of_def edits_only_def)
next
  case True
  let ?m = "scancode_table s raw" and ?l = "line_of (terminals s i)"
  define st where "st = modifier_keys raw (keyboard_state s)"
  have st: "\<not> ALT_ON st" "\<not> CONTROL_ON st" "\<not> is_enter ?m st (length ?l)"
    using True q by (simp_all add: x keys_of_def st_def Let_def)
  obtain v where v: "process_sent_scancode lay kl dev s = Some (line_keys lay ?m v)"
    "edits_only i (s\<lparr>keyboard_state := st\<rparr>) v" "terminals v = terminals s" "terminal_state v = terminal_state s"
    "keyboard_state v = st" "scancode_table v = scancode_table s" "non_alpha_shift_table v = non_alpha_shift_table s"
    using process_line_key [OF snd True st_def st(1,2) refl] by blast
  obtain w where w: "line_keys lay ?m v = (Return (uint st), serviced_directory lay w)"
    "edited (edit_line ?m st (non_alpha_shift_table s) ?l) (edit_echo ?m st (non_alpha_shift_table s) ?l) v w"
    using line_keys_edit [of i v ?m raw st ?l lay] i ed k st(3) v(3-7) by (auto simp: keys_ok_def)
  then have "struck i (st, edit_line ?m st (non_alpha_shift_table s) ?l) s (serviced_directory lay w)"
    using edits_only_serviced [of i "s\<lparr>keyboard_state := st\<rparr>" w] edits_only_trans [OF v(2), of w] v(3,4) i
    by (simp add: struck_def edited_def Let_def)
  then show ?thesis using v(1) w(1) True by (simp add: x keys_of_def Let_def flip: st_def)
qed

text \<open>The keyboard as the environment of a waiting program: interrupt \<open>k\<close> brings a key.\<close>

definition keyboard_env :: "layout \<Rightarrow> kbd_locals \<Rightarrow> (nat \<Rightarrow> device) \<Rightarrow> nat \<Rightarrow> 'a kbd_scheme \<Rightarrow> 'a kbd_scheme" where
  "keyboard_env lay kl dev k s = (case process_sent_scancode lay kl (dev k) s of None \<Rightarrow> s | Some (_, t) \<Rightarrow> t)"

lemma after_add: "after env k (m + n) s = after env (k + m) n (after env k m s)"
  by (induction m arbitrary: k s) simp_all

lemma after_keys:
  fixes s :: "'a kbd_scheme"
  assumes "\<forall>j<length codes. sends (dev (k + j)) (codes ! j)" "i = unat (terminal_state s)"
    and "editable (terminals s i)" "keys_ok s" "x = (keyboard_state s, line_of (terminals s i))"
    and "quiet_all (keys_of s) codes x" "n \<le> length codes"
  shows "struck i (fold (key_step (keys_of s)) (take n codes) x) s (after (keyboard_env lay kl dev) k n s)"
  using assms
proof (induction codes arbitrary: n k s x)
  case Nil
  then show ?case using struck_refl [of s i] by simp
next
  case (Cons raw codes)
  show ?case
  proof (cases n)
    case 0
    then show ?thesis using struck_refl [of s i] Cons.prems(3,5) by simp
  next
    case (Suc m)
    have "sends (dev k) raw" using Cons.prems(1) [rule_format, of 0] by simp
    then obtain f v where p: "process_sent_scancode lay kl (dev k) s = Some (f, v)"
      and v: "struck i (key_step (keys_of s) raw x) s v"
      using key_press [of "dev k" raw i s x lay kl] Cons.prems by auto
    have vv: "keys_of v = keys_of s" "terminal_state v = terminal_state s" "keys_ok v" "editable (terminals v i)"
      "key_step (keys_of s) raw x = (keyboard_state v, line_of (terminals v i))"
      using v Cons.prems(4) by (auto simp: struck_def edits_only_def keys_of_def keys_ok_def prod_eq_iff)
    have "\<forall>j<length codes. sends (dev (Suc k + j)) (codes ! j)"
    proof (intro allI impI)
      fix j assume "j < length codes"
      then show "sends (dev (Suc k + j)) (codes ! j)" using Cons.prems(1) [rule_format, of "Suc j"] by simp
    qed
    then have "struck i (fold (key_step (keys_of s)) (take m codes) (key_step (keys_of s) raw x)) v
        (after (keyboard_env lay kl dev) (Suc k) m v)"
      using Cons.IH [of "Suc k" v "key_step (keys_of s) raw x" m] Cons.prems(2,6,7) vv Suc by simp
    moreover have "keyboard_env lay kl dev k s = v" using p by (simp add: keyboard_env_def)
    ultimately show ?thesis using struck_trans [OF v] Suc by simp
  qed
qed


text \<open>The Enter key, for a terminal whose program waits for a line.\<close>

lemma enter_press:
  fixes s :: "'a kbd_scheme"
  assumes snd: "sends dev raw" and i: "i = unat (terminal_state s)" and ed: "editable (terminals s i)"
    and live: "live_key (scancode_table s) raw" and st: "st = modifier_keys raw (keyboard_state s)"
    and no: "\<not> ALT_ON st" "\<not> CONTROL_ON st" and l: "l = line_of (terminals s i)"
    and e: "is_enter (scancode_table s raw) st (length l)" and hd: "l = [] \<or> hd l \<noteq> NEW_LINE"
    and rw: "read_waiting (terminals s i) = 1"
  shows "\<exists>f v. process_sent_scancode lay kl dev s = Some (f, serviced_directory lay v) \<and>
    edits_only i (s\<lparr>keyboard_state := st\<rparr>) v \<and> editable (terminals v i) \<and>
    line_of (terminals v i) = l @ [NEW_LINE] \<and> allowed_to_read (terminals v i) = 1"
proof -
  let ?m = "scancode_table s raw"
  obtain v where v: "process_sent_scancode lay kl dev s = Some (line_keys lay ?m v)"
    "edits_only i (s\<lparr>keyboard_state := st\<rparr>) v" "terminals v = terminals s" "terminal_state v = terminal_state s"
    "keyboard_state v = st" "scancode_table v = scancode_table s"
    using process_line_key [OF snd live st no refl] by blast
  obtain w where "line_keys lay ?m v = (Return (uint st), serviced_directory lay w)" "edits_only i v w"
    "editable (terminals w i)" "line_of (terminals w i) = l @ [NEW_LINE]" "allowed_to_read (terminals w i) = 1"
    using enter_key_line [of i v l ?m lay] i ed l e hd rw v(3-6) by auto
  then show ?thesis using v(1) edits_only_trans [OF v(2)] by auto
qed

lemma serviced_directory_xlat:
  assumes "ptmem t = ptmem s" "terminal_being_serviced t = terminal_being_serviced s"
    "t_pid (terminals t (unat (terminal_being_serviced s))) = t_pid (terminals s (unat (terminal_being_serviced s)))"
  shows "xlat (serviced_directory lay t) = xlat (serviced_directory lay s)"
  using assms by (simp add: serviced_directory_def set_new_page_directory_def get_terminal_of_current_process_def)

lemma serviced_directory_frame [simp]:
  "terminal_being_serviced (serviced_directory lay s) = terminal_being_serviced s" "pcbs (serviced_directory lay s) = pcbs s"
  by (simp_all add: serviced_directory_def set_new_page_directory_def)

text \<open>
  The whole way of a line: a program waits in \<^verbatim>\<open>read_terminal\<close>, keys arrive one by one, the
  last of them is Enter, and the program gets the edited line.
\<close>

lemma keyboard_wakes:
  fixes s :: "'a kbd_scheme"
  assumes i: "i = unat (terminal_state s)" and ed: "editable (terminals s i)"
    and k: "keys_ok s" and codes: "\<forall>j<length codes. sends (dev j) (codes ! j)"
    and q: "quiet_all (keys_of s) codes (keyboard_state s, line_of (terminals s i))"
    and x: "(st, l) = fold (key_step (keys_of s)) codes (keyboard_state s, line_of (terminals s i))"
    and ent: "sends (dev (length codes)) raw" "live_key (scancode_table s) raw" "st' = modifier_keys raw st"
      "\<not> ALT_ON st'" "\<not> CONTROL_ON st'" "is_enter (scancode_table s raw) st' (length l)"
    and hd: "l = [] \<or> hd l \<noteq> NEW_LINE"
    and idle: "allowed_to_read (terminals s i) = 0" "read_waiting (terminals s i) = 1"
  shows "\<exists>w. spin (keyboard_env lay kl dev) (\<lambda>s. allowed_to_read (terminals s i) = 0) 0 s = Some (serviced_directory lay w) \<and>
    edits_only i (s\<lparr>keyboard_state := st'\<rparr>) w \<and> editable (terminals w i) \<and> line_of (terminals w i) = l @ [NEW_LINE]"
proof -
  let ?env = "keyboard_env lay kl dev" and ?n = "length codes"
  have str: "struck i (fold (key_step (keys_of s)) (take n codes) (keyboard_state s, line_of (terminals s i))) s
      (after ?env 0 n s)" if "n \<le> ?n" for n
    by (rule after_keys [OF _ i ed k refl q that]) (use codes in simp)
  define u where "u = after ?env 0 ?n s"
  have u: "struck i (st, l) s u" using str [of ?n] x by (simp add: u_def)
  then have uu: "keyboard_state u = st" "scancode_table u = scancode_table s" "terminal_state u = terminal_state s"
    "editable (terminals u i)" "line_of (terminals u i) = l" "read_waiting (terminals u i) = 1"
    "edits_only i (s\<lparr>keyboard_state := st\<rparr>) u"
    using idle(2) by (simp_all add: struck_def edits_only_def)
  obtain f w where p: "process_sent_scancode lay kl (dev ?n) u = Some (f, serviced_directory lay w)"
    and w: "edits_only i (u\<lparr>keyboard_state := st'\<rparr>) w" "editable (terminals w i)"
      "line_of (terminals w i) = l @ [NEW_LINE]" "allowed_to_read (terminals w i) = 1"
    using enter_press [of "dev ?n" raw i u st' l lay kl] ent i hd uu by auto
  have last: "after ?env 0 (Suc ?n) s = serviced_directory lay w"
    using after_add [of ?env 0 ?n 1 s] p by (simp add: u_def [symmetric] keyboard_env_def)
  have "spin ?env (\<lambda>s. allowed_to_read (terminals s i) = 0) 0 s = Some (after ?env 0 (Suc ?n) s)"
    by (rule spin_ends) (use str idle(1) last w(4) in \<open>auto simp: struck_def less_Suc_eq_le\<close>)
  moreover have "edits_only i (s\<lparr>keyboard_state := st'\<rparr>) w"
    using w(1) uu(7) by (simp add: edits_only_def)
  ultimately show ?thesis using last w by auto
qed


end
