(* ===== verification/Interrupts.thy ===== *)
theory Interrupts
  imports Scheduler Keyboard
begin

text \<open>
  The interrupt handlers of \<^verbatim>\<open>student-distrib/interrupt_handler.c\<close>, one definition for each. An
  exception handler prints a message and ends the program with status 256; a handler of a device
  marks its process while it works, so that the timer does not switch in the middle of it.

  The handlers run with interrupts enabled after \<^verbatim>\<open>sti\<close>; a nested interrupt is not part
  of a single run of a handler. \<open>cb\<close> has the addresses of the conversion buffers of
  \<^verbatim>\<open>printf_t\<close>.
\<close>

abbreviation (input) EXCEPTION_HALT_RET_VAL :: int where "EXCEPTION_HALT_RET_VAL \<equiv> 256"
abbreviation (input) RTC_CREG_C :: u8 where "RTC_CREG_C \<equiv> 0x8C"

section \<open>Exceptions\<close>

text \<open>The two calls every exception handler consists of.\<close>

definition report_and_halt ::
    "layout \<Rightarrow> (u8 \<Rightarrow> u32) \<Rightarrow> string \<Rightarrow> 'a kernel_scheme \<Rightarrow> (flow \<times> 'a kernel_scheme) option" where
  "report_and_halt lay cb msg s =
     (case say cb msg s of None \<Rightarrow> None | Some s \<Rightarrow> Some (halt_excep lay EXCEPTION_HALT_RET_VAL s))"

definition ignore_int_sub :: "layout \<Rightarrow> (u8 \<Rightarrow> u32) \<Rightarrow> 'a kernel_scheme \<Rightarrow> (flow \<times> 'a kernel_scheme) option" where
  "ignore_int_sub lay cb = report_and_halt lay cb ''Unknown interrupt''"

definition exception_handler_0_sub :: "layout \<Rightarrow> (u8 \<Rightarrow> u32) \<Rightarrow> 'a kernel_scheme \<Rightarrow> (flow \<times> 'a kernel_scheme) option" where
  "exception_handler_0_sub lay cb = report_and_halt lay cb (''EXCEPTION: DIVIDE BY ZERO ERROR'' @ [CHR 0x0A])"

definition exception_handler_2_sub :: "layout \<Rightarrow> (u8 \<Rightarrow> u32) \<Rightarrow> 'a kernel_scheme \<Rightarrow> (flow \<times> 'a kernel_scheme) option" where
  "exception_handler_2_sub lay cb = report_and_halt lay cb (''EXCEPTION: NMI INTERRUPT'' @ [CHR 0x0A])"

definition exception_handler_3_sub :: "layout \<Rightarrow> (u8 \<Rightarrow> u32) \<Rightarrow> 'a kernel_scheme \<Rightarrow> (flow \<times> 'a kernel_scheme) option" where
  "exception_handler_3_sub lay cb = report_and_halt lay cb (''EXCEPTION: BREAKPOINT'' @ [CHR 0x0A])"

definition exception_handler_4_sub :: "layout \<Rightarrow> (u8 \<Rightarrow> u32) \<Rightarrow> 'a kernel_scheme \<Rightarrow> (flow \<times> 'a kernel_scheme) option" where
  "exception_handler_4_sub lay cb = report_and_halt lay cb (''EXCEPTION: OVERFLOW'' @ [CHR 0x0A])"

definition exception_handler_5_sub :: "layout \<Rightarrow> (u8 \<Rightarrow> u32) \<Rightarrow> 'a kernel_scheme \<Rightarrow> (flow \<times> 'a kernel_scheme) option" where
  "exception_handler_5_sub lay cb = report_and_halt lay cb (''EXCEPTION: BOUND RANGE EXCEEDED ERROR'' @ [CHR 0x0A])"

definition exception_handler_6_sub :: "layout \<Rightarrow> (u8 \<Rightarrow> u32) \<Rightarrow> 'a kernel_scheme \<Rightarrow> (flow \<times> 'a kernel_scheme) option" where
  "exception_handler_6_sub lay cb = report_and_halt lay cb (''EXCEPTION: INVALID OPCODE ERROR'' @ [CHR 0x0A])"

definition exception_handler_7_sub :: "layout \<Rightarrow> (u8 \<Rightarrow> u32) \<Rightarrow> 'a kernel_scheme \<Rightarrow> (flow \<times> 'a kernel_scheme) option" where
  "exception_handler_7_sub lay cb = report_and_halt lay cb (''EXCEPTION: DEVICE NOT AVAILABLE'' @ [CHR 0x0A])"

definition exception_handler_8_sub :: "layout \<Rightarrow> (u8 \<Rightarrow> u32) \<Rightarrow> 'a kernel_scheme \<Rightarrow> (flow \<times> 'a kernel_scheme) option" where
  "exception_handler_8_sub lay cb = report_and_halt lay cb (''EXCEPTION: DOUBLE FAULT'' @ [CHR 0x0A])"

definition exception_handler_9_sub :: "layout \<Rightarrow> (u8 \<Rightarrow> u32) \<Rightarrow> 'a kernel_scheme \<Rightarrow> (flow \<times> 'a kernel_scheme) option" where
  "exception_handler_9_sub lay cb = report_and_halt lay cb (''EXCEPTION: COPROCESSOR SEGMENT OVERRUN'' @ [CHR 0x0A])"

definition exception_handler_10_sub :: "layout \<Rightarrow> (u8 \<Rightarrow> u32) \<Rightarrow> 'a kernel_scheme \<Rightarrow> (flow \<times> 'a kernel_scheme) option" where
  "exception_handler_10_sub lay cb = report_and_halt lay cb (''EXCEPTION: INVALID TSS ERROR'' @ [CHR 0x0A])"

definition exception_handler_11_sub :: "layout \<Rightarrow> (u8 \<Rightarrow> u32) \<Rightarrow> 'a kernel_scheme \<Rightarrow> (flow \<times> 'a kernel_scheme) option" where
  "exception_handler_11_sub lay cb = report_and_halt lay cb (''EXCEPTION: SEGMENT NOT PRESENT ERROR'' @ [CHR 0x0A])"

definition exception_handler_12_sub :: "layout \<Rightarrow> (u8 \<Rightarrow> u32) \<Rightarrow> 'a kernel_scheme \<Rightarrow> (flow \<times> 'a kernel_scheme) option" where
  "exception_handler_12_sub lay cb = report_and_halt lay cb (''EXCEPTION: STACK-SEGMENT FAULT'' @ [CHR 0x0A])"

definition exception_handler_13_sub :: "layout \<Rightarrow> (u8 \<Rightarrow> u32) \<Rightarrow> 'a kernel_scheme \<Rightarrow> (flow \<times> 'a kernel_scheme) option" where
  "exception_handler_13_sub lay cb = report_and_halt lay cb (''EXCEPTION: GENERAL PROTECTION FAULT'' @ [CHR 0x0A])"

definition exception_handler_14_sub :: "layout \<Rightarrow> (u8 \<Rightarrow> u32) \<Rightarrow> 'a kernel_scheme \<Rightarrow> (flow \<times> 'a kernel_scheme) option" where
  "exception_handler_14_sub lay cb = report_and_halt lay cb (''EXCEPTION: PAGE FAULT ERROR'' @ [CHR 0x0A])"

definition exception_handler_16_sub :: "layout \<Rightarrow> (u8 \<Rightarrow> u32) \<Rightarrow> 'a kernel_scheme \<Rightarrow> (flow \<times> 'a kernel_scheme) option" where
  "exception_handler_16_sub lay cb = report_and_halt lay cb (''EXCEPTION: x87 FPU FLOATING-POINT ERROR'' @ [CHR 0x0A])"

definition exception_handler_17_sub :: "layout \<Rightarrow> (u8 \<Rightarrow> u32) \<Rightarrow> 'a kernel_scheme \<Rightarrow> (flow \<times> 'a kernel_scheme) option" where
  "exception_handler_17_sub lay cb = report_and_halt lay cb (''EXCEPTION: ALIGNMENT CHECK'' @ [CHR 0x0A])"

definition exception_handler_18_sub :: "layout \<Rightarrow> (u8 \<Rightarrow> u32) \<Rightarrow> 'a kernel_scheme \<Rightarrow> (flow \<times> 'a kernel_scheme) option" where
  "exception_handler_18_sub lay cb = report_and_halt lay cb (''EXCEPTION: MACHINE CHECK'' @ [CHR 0x0A])"

definition exception_handler_19_sub :: "layout \<Rightarrow> (u8 \<Rightarrow> u32) \<Rightarrow> 'a kernel_scheme \<Rightarrow> (flow \<times> 'a kernel_scheme) option" where
  "exception_handler_19_sub lay cb = report_and_halt lay cb (''EXCEPTION: SIMD FLOATING-POINT EXCEPTION'' @ [CHR 0x0A])"

lemmas exception_handlers =
  ignore_int_sub_def exception_handler_0_sub_def exception_handler_2_sub_def
  exception_handler_3_sub_def exception_handler_4_sub_def exception_handler_5_sub_def
  exception_handler_6_sub_def exception_handler_7_sub_def exception_handler_8_sub_def
  exception_handler_9_sub_def exception_handler_10_sub_def exception_handler_11_sub_def
  exception_handler_12_sub_def exception_handler_13_sub_def exception_handler_14_sub_def
  exception_handler_16_sub_def exception_handler_17_sub_def exception_handler_18_sub_def
  exception_handler_19_sub_def

section \<open>Device interrupts\<close>

text \<open>
  The frame of a device handler: the flags of the control block are kept in a local variable, the
  flag for a hardware interrupt is set, interrupts are enabled; at the end the flags are
  put back.
\<close>

definition enter_irq :: "'a kernel_scheme \<Rightarrow> u32 \<times> u32 \<times> 'a kernel_scheme" where
  "enter_irq s =
     (let pcb_curr = current_pcb s;
          flags = pcb_flags (pcbs s pcb_curr);
          s = upd_pcb pcb_curr (\<lambda>p. p\<lparr>pcb_flags := pcb_flags p OR IN_INTERRUPT_FLAG\<rparr>) s
      in (pcb_curr, flags, sti s))"

definition leave_irq :: "u32 \<Rightarrow> u32 \<Rightarrow> 'a kernel_scheme \<Rightarrow> 'a kernel_scheme" where
  "leave_irq pcb_curr flags = upd_pcb pcb_curr (\<lambda>p. p\<lparr>pcb_flags := flags\<rparr>)"

definition report_irq :: "(u8 \<Rightarrow> u32) \<Rightarrow> string \<Rightarrow> 'a kernel_scheme \<Rightarrow> 'a kernel_scheme option" where
  "report_irq cb msg s =
     (let (pcb_curr, flags, s) = enter_irq s in map_option (leave_irq pcb_curr flags) (say cb msg s))"

definition IRQ0_handler_sub :: "layout \<Rightarrow> switch_locals \<Rightarrow> 'a kernel_scheme \<Rightarrow> resume \<times> 'a kernel_scheme" where
  "IRQ0_handler_sub lay sw s =
     (let s = send_eoi TIMER_CHIP_LINE_NO s
      in if in_hardware_int s then (Stay, s) else round_robin_scheduler lay sw s)"

definition IRQ1_handler_sub ::
    "layout \<Rightarrow> kbd_locals \<Rightarrow> device \<Rightarrow> 'a kbd_scheme \<Rightarrow> (flow \<times> 'a kbd_scheme) option" where
  "IRQ1_handler_sub lay kl dev s =
     (let (pcb_curr, flags, s) = enter_irq s
      in case process_sent_scancode lay kl dev s of
           None \<Rightarrow> None
         | Some (To_user e f p, s) \<Rightarrow> Some (To_user e f p, s)
         | Some (Return r, s) \<Rightarrow>
             let s = send_eoi KEYBOARD_LINE_NO s in Some (Return r, leave_irq pcb_curr flags s))"

definition IRQ3_handler_sub :: "(u8 \<Rightarrow> u32) \<Rightarrow> 'a kernel_scheme \<Rightarrow> 'a kernel_scheme option" where
  "IRQ3_handler_sub cb = report_irq cb (''IRQ: COM2 Serial Port'' @ [CHR 0x0A])"

definition IRQ4_handler_sub :: "(u8 \<Rightarrow> u32) \<Rightarrow> 'a kernel_scheme \<Rightarrow> 'a kernel_scheme option" where
  "IRQ4_handler_sub cb = report_irq cb (''IRQ: COM1 Serial Port'' @ [CHR 0x0A])"

definition IRQ5_handler_sub :: "(u8 \<Rightarrow> u32) \<Rightarrow> 'a kernel_scheme \<Rightarrow> 'a kernel_scheme option" where
  "IRQ5_handler_sub cb = report_irq cb (''IRQ: LPT2'' @ [CHR 0x0A])"

definition IRQ6_handler_sub :: "(u8 \<Rightarrow> u32) \<Rightarrow> 'a kernel_scheme \<Rightarrow> 'a kernel_scheme option" where
  "IRQ6_handler_sub cb = report_irq cb (''IRQ: Floppy Disk'' @ [CHR 0x0A])"

definition IRQ7_handler_sub :: "(u8 \<Rightarrow> u32) \<Rightarrow> 'a kernel_scheme \<Rightarrow> 'a kernel_scheme option" where
  "IRQ7_handler_sub cb = report_irq cb (''IRQ: LPT1'' @ [CHR 0x0A])"

definition IRQ8_handler_sub :: "device \<Rightarrow> 'a kernel_scheme \<Rightarrow> 'a kernel_scheme" where
  "IRQ8_handler_sub dev s =
     (let (pcb_curr, flags, s) = enter_irq s;
          s = outb RTC_CREG_C RTC_CONTROL_PORT s;
          (_, s) = inb dev RTC_DATA_PORT s;
          s = s\<lparr>rtc_flag := 0\<rparr>;
          s = send_eoi RTC_LINE_NO s
      in leave_irq pcb_curr flags s)"

definition IRQ9_handler_sub :: "(u8 \<Rightarrow> u32) \<Rightarrow> 'a kernel_scheme \<Rightarrow> 'a kernel_scheme option" where
  "IRQ9_handler_sub cb = report_irq cb (''IRQ: Free for peripherals'' @ [CHR 0x0A])"

definition IRQ10_handler_sub :: "(u8 \<Rightarrow> u32) \<Rightarrow> 'a kernel_scheme \<Rightarrow> 'a kernel_scheme option" where
  "IRQ10_handler_sub cb = report_irq cb (''IRQ: Free for peripherals'' @ [CHR 0x0A])"

definition IRQ11_handler_sub :: "(u8 \<Rightarrow> u32) \<Rightarrow> 'a kernel_scheme \<Rightarrow> 'a kernel_scheme option" where
  "IRQ11_handler_sub cb = report_irq cb (''IRQ: Eth0 (network) '' @ [CHR 0x0A])"

definition IRQ12_handler_sub :: "(u8 \<Rightarrow> u32) \<Rightarrow> 'a kernel_scheme \<Rightarrow> 'a kernel_scheme option" where
  "IRQ12_handler_sub cb = report_irq cb (''IRQ: PS/2 Mouse'' @ [CHR 0x0A])"

definition IRQ13_handler_sub :: "(u8 \<Rightarrow> u32) \<Rightarrow> 'a kernel_scheme \<Rightarrow> 'a kernel_scheme option" where
  "IRQ13_handler_sub cb = report_irq cb (''IRQ: FPU/Coprocessor/Inter-processor'' @ [CHR 0x0A])"

definition IRQ14_handler_sub :: "(u8 \<Rightarrow> u32) \<Rightarrow> 'a kernel_scheme \<Rightarrow> 'a kernel_scheme option" where
  "IRQ14_handler_sub cb = report_irq cb (''IRQ: Ide0 (hard drive)'' @ [CHR 0x0A])"

definition IRQ15_handler_sub :: "(u8 \<Rightarrow> u32) \<Rightarrow> 'a kernel_scheme \<Rightarrow> 'a kernel_scheme option" where
  "IRQ15_handler_sub cb = report_irq cb (''IRQ: Ide1 (hard drive)'' @ [CHR 0x0A])"

lemmas device_handlers =
  IRQ3_handler_sub_def IRQ4_handler_sub_def IRQ5_handler_sub_def
  IRQ6_handler_sub_def IRQ7_handler_sub_def IRQ9_handler_sub_def
  IRQ10_handler_sub_def IRQ11_handler_sub_def IRQ12_handler_sub_def
  IRQ13_handler_sub_def IRQ14_handler_sub_def IRQ15_handler_sub_def

section \<open>Messages\<close>

text \<open>A text without conversions: the loop of \<^verbatim>\<open>printf_t\<close> ends and touches no process.\<close>

definition plain :: "u8 list \<Rightarrow> bool" where
  "plain fs \<longleftrightarrow> 0 \<notin> set fs \<and> CH_percent \<notin> set fs"

lemma write_from_same: "same_procs s (snd (write_terminal_from fd buf n s))"
  by (simp add: write_terminal_from_def Let_def case_prod_beta cli_and_save_def same_procs_put_t)

lemma printf_plain:
  assumes "plain fs"
  shows "fs = pre @ cs \<Longrightarrow>
    \<exists>t. printf_loop terminal_printer cb (at_text fs) stk (length pre) n s = Some (int (length fs), t) \<and> same_procs s t"
proof (induction cs arbitrary: pre s)
  case Nil
  then show ?case by (subst printf_loop.simps) (simp add: at_text_def)
next
  case (Cons c cs)
  then have c: "at_text fs s (length pre) = c" "c \<noteq> 0" "c \<noteq> CH_percent"
    using assms by (auto simp: at_text_def plain_def nth_append)
  let ?w = "snd (write_terminal_from STDOUT (\<lambda>s i. at_text fs s (length pre + i)) 1 s)"
  obtain t where "printf_loop terminal_printer cb (at_text fs) stk (length (pre @ [c])) n ?w = Some (int (length fs), t)"
    and t: "same_procs ?w t" using Cons.IH [of "pre @ [c]" ?w] Cons.prems by auto
  then show ?case
    using c same_procs_trans [OF write_from_same t]
    by (subst printf_loop.simps) (simp add: terminal_printer_def)
qed

lemma say_plain: "plain (bytes_of msg) \<Longrightarrow> \<exists>t. say cb msg s = Some t \<and> same_procs s t"
  using printf_plain [of "bytes_of msg" "[]" "bytes_of msg"] by (fastforce simp: say_def printf_t_def)

lemma say_kernel:
  assumes "plain (bytes_of msg)"
  obtains t where "say cb msg s = Some t" "same_procs s t"
  using say_plain [OF assms] by blast

lemma report_and_halt_eq:
  assumes "plain (bytes_of msg)"
  shows "\<exists>u. report_and_halt lay cb msg s = Some (halt_excep lay 256 u) \<and> same_procs s u"
  using say_kernel [OF assms, of cb s] by (fastforce simp: report_and_halt_def)

text \<open>What a device handler that only prints does to the processes: nothing.\<close>

lemma enter_leave_irq:
  assumes "enter_irq s = (a, f, t)" "same_procs t u"
  shows "same_procs s (leave_irq a f u)"
  using assms
  by (auto simp: enter_irq_def leave_irq_def Let_def same_procs_def upd_pcb_def sti_def intro!: ext)

lemma report_irq_same:
  assumes "plain (bytes_of msg)"
  shows "\<exists>t. report_irq cb msg s = Some t \<and> same_procs s t"
proof -
  obtain a f t where e: "enter_irq s = (a, f, t)" using prod_cases3 by blast
  obtain u where "say cb msg t = Some u" "same_procs t u" using say_kernel [OF assms] .
  then show ?thesis using enter_leave_irq [OF e] by (simp add: report_irq_def e)
qed

text \<open>While a device handler is at work, its process is marked.\<close>

lemma or_and_absorb: "((w :: u32) OR m) AND m = m"
  by (rule bit_eqI) (auto simp: bit_and_iff bit_or_iff)

lemma enter_irq_marks:
  assumes "enter_irq s = (a, f, t)"
  shows "in_hardware_int t" "a = current_pcb s" "f = pcb_flags (pcbs s a)"
  using assms
  by (auto simp: enter_irq_def Let_def in_hardware_int_def current_pcb_def upd_pcb_def sti_def or_and_absorb)


text \<open>All exception handlers, and all device handlers that only print.\<close>

definition exception_subs :: "layout \<Rightarrow> (u8 \<Rightarrow> u32) \<Rightarrow> ('a kernel_scheme \<Rightarrow> (flow \<times> 'a kernel_scheme) option) list" where
  "exception_subs lay cb =
     [ignore_int_sub lay cb, exception_handler_0_sub lay cb, exception_handler_2_sub lay cb,
      exception_handler_3_sub lay cb, exception_handler_4_sub lay cb, exception_handler_5_sub lay cb,
      exception_handler_6_sub lay cb, exception_handler_7_sub lay cb, exception_handler_8_sub lay cb,
      exception_handler_9_sub lay cb, exception_handler_10_sub lay cb, exception_handler_11_sub lay cb,
      exception_handler_12_sub lay cb, exception_handler_13_sub lay cb, exception_handler_14_sub lay cb,
      exception_handler_16_sub lay cb, exception_handler_17_sub lay cb, exception_handler_18_sub lay cb,
      exception_handler_19_sub lay cb]"

definition printing_irqs :: "(u8 \<Rightarrow> u32) \<Rightarrow> ('a kernel_scheme \<Rightarrow> 'a kernel_scheme option) list" where
  "printing_irqs cb =
     [IRQ3_handler_sub cb, IRQ4_handler_sub cb, IRQ5_handler_sub cb,
      IRQ6_handler_sub cb, IRQ7_handler_sub cb, IRQ9_handler_sub cb,
      IRQ10_handler_sub cb, IRQ11_handler_sub cb, IRQ12_handler_sub cb,
      IRQ13_handler_sub cb, IRQ14_handler_sub cb, IRQ15_handler_sub cb]"

lemma exists_message:
  "plain (bytes_of m) \<Longrightarrow> \<exists>msg. plain (bytes_of msg) \<and> report_and_halt lay cb m = report_and_halt lay cb msg"
  "plain (bytes_of m) \<Longrightarrow> \<exists>msg. plain (bytes_of msg) \<and> report_irq cb m = report_irq cb msg"
  by blast+

lemma exception_subs_report:
  assumes "h \<in> set (exception_subs lay cb)"
  shows "\<exists>msg. plain (bytes_of msg) \<and> h = report_and_halt lay cb msg"
  using assms unfolding exception_subs_def exception_handlers
  by (simp only: list.set insert_iff empty_iff) (elim disjE FalseE; hypsubst; rule exists_message(1); simp (no_asm) add: plain_def bytes_of_def)

lemma printing_irqs_report:
  assumes "h \<in> set (printing_irqs cb)"
  shows "\<exists>msg. plain (bytes_of msg) \<and> h = report_irq cb msg"
  using assms unfolding printing_irqs_def device_handlers
  by (simp only: list.set insert_iff empty_iff) (elim disjE FalseE; hypsubst; rule exists_message(2); simp (no_asm) add: plain_def bytes_of_def)


end
