(* ===== verification/Boot.thy ===== *)
theory Boot
  imports Interrupts "HOL-Library.Monad_Syntax"
begin

text \<open>
  The way into the kernel, from \<^verbatim>\<open>student-distrib/kernel.c\<close>: \<^verbatim>\<open>init_idt\<close>,
  which fills the interrupt descriptor table, and \<^verbatim>\<open>entry\<close>, which reads what the boot
  loader left, sets up the segments, the page tables and the devices, and starts the first shell. The
  descriptors have the fields of \<^verbatim>\<open>student-distrib/x86_desc.h\<close>, the structures of the
  boot loader the layout of \<^verbatim>\<open>student-distrib/multiboot.h\<close>.

  The addresses of the handlers, of the local descriptor table, of the task state segment and
  of the string \<^verbatim>\<open>"shell"\<close> are fixed by the linker: they are in \<open>links\<close>.
\<close>

section \<open>Descriptors\<close>

record idt_desc =
  offset_15_00 :: u16
  seg_selector :: u16
  reserved4 :: u8
  reserved3 :: nat
  reserved2 :: nat
  reserved1 :: nat
  idt_size :: nat
  reserved0 :: nat
  dpl :: nat
  present :: nat
  offset_31_16 :: u16

record seg_desc =
  seg_lim_15_00 :: u16
  base_15_00 :: u16
  base_23_16 :: u8
  seg_type :: nat
  seg_sys :: nat
  seg_dpl :: nat
  seg_present :: nat
  seg_lim_19_16 :: nat
  seg_avail :: nat
  seg_reserved :: nat
  seg_opsize :: nat
  seg_granularity :: nat
  base_31_24 :: u8

record boot = kbd +
  idt :: "nat \<Rightarrow> idt_desc"
  ldt_desc_ptr :: seg_desc
  tss_desc_ptr :: seg_desc
  tss_ldt_segment_selector :: u16
  tss_ss0 :: u16
  ldtr :: u16
  task_register :: u16

record links =
  idt_jmp_table :: "nat \<Rightarrow> u32"
  ldt_address :: u32
  ldt_limit :: u32
  tss_address :: u32
  tss_limit :: u32
  shell_string :: u32
  boot_exec :: exec_locals
  boot_conv :: "u8 \<Rightarrow> u32"

abbreviation (input) NUM_VEC :: nat where "NUM_VEC \<equiv> 256"
abbreviation (input) VALID_EXCEPTION_RANGE :: nat where "VALID_EXCEPTION_RANGE \<equiv> 20"
abbreviation (input) RESERVED_EXCEP_1 :: nat where "RESERVED_EXCEP_1 \<equiv> 1"
abbreviation (input) RESERVED_EXCEP_15 :: nat where "RESERVED_EXCEP_15 \<equiv> 15"
abbreviation (input) IRQ_LOW_BOUND :: nat where "IRQ_LOW_BOUND \<equiv> 32"
abbreviation (input) IRQ_HIGH_BOUND :: nat where "IRQ_HIGH_BOUND \<equiv> 48"
abbreviation (input) SYSTEM_CALL_VECTOR :: nat where "SYSTEM_CALL_VECTOR \<equiv> 0x80"
abbreviation (input) SYSTEM_CALL_HANDLER :: nat where "SYSTEM_CALL_HANDLER \<equiv> 48"
abbreviation (input) INTERRUPT_GATE :: nat where "INTERRUPT_GATE \<equiv> 0"
abbreviation (input) TRAP_GATE :: nat where "TRAP_GATE \<equiv> 1"
abbreviation (input) KERNEL_LEVEL_DESCRIPTOR :: nat where "KERNEL_LEVEL_DESCRIPTOR \<equiv> 0"
abbreviation (input) USER_LEVEL_DESCRIPTOR :: nat where "USER_LEVEL_DESCRIPTOR \<equiv> 3"
abbreviation (input) KERNEL_CS :: u16 where "KERNEL_CS \<equiv> 0x10"
abbreviation (input) KERNEL_DS :: u16 where "KERNEL_DS \<equiv> 0x18"
abbreviation (input) KERNEL_TSS :: u16 where "KERNEL_TSS \<equiv> 0x30"
abbreviation (input) KERNEL_LDT :: u16 where "KERNEL_LDT \<equiv> 0x38"
abbreviation (input) TSS_SIZE :: u32 where "TSS_SIZE \<equiv> 104"
abbreviation (input) MULTIBOOT_BOOTLOADER_MAGIC :: u32 where "MULTIBOOT_BOOTLOADER_MAGIC \<equiv> 0x2BADB002"

definition SET_IDT_ENTRY :: "u32 \<Rightarrow> idt_desc \<Rightarrow> idt_desc" where
  "SET_IDT_ENTRY handler d =
     d\<lparr>offset_31_16 := ucast (drop_bit 16 (handler AND 0xFFFF0000)), offset_15_00 := ucast (handler AND 0xFFFF)\<rparr>"

text \<open>The nine assignments after \<^verbatim>\<open>SET_IDT_ENTRY\<close>, which differ in the kind of gate and the privilege.\<close>

definition fill_gate :: "nat \<Rightarrow> nat \<Rightarrow> idt_desc \<Rightarrow> idt_desc" where
  "fill_gate gate level d =
     d\<lparr>seg_selector := KERNEL_CS, reserved4 := 0, reserved3 := gate, reserved2 := 1, reserved1 := 1, idt_size := 1,
       reserved0 := 0, dpl := level, present := 1\<rparr>"

definition init_gate :: "(nat \<Rightarrow> u32) \<Rightarrow> nat \<Rightarrow> idt_desc \<Rightarrow> idt_desc" where
  "init_gate idt_handler i d =
     (if i < VALID_EXCEPTION_RANGE \<and> i \<noteq> RESERVED_EXCEP_1 \<and> i \<noteq> RESERVED_EXCEP_15
      then fill_gate INTERRUPT_GATE KERNEL_LEVEL_DESCRIPTOR (SET_IDT_ENTRY (idt_handler i) d)
      else if IRQ_LOW_BOUND \<le> i \<and> i < IRQ_HIGH_BOUND
      then fill_gate INTERRUPT_GATE KERNEL_LEVEL_DESCRIPTOR (SET_IDT_ENTRY (idt_handler i) d)
      else if i = SYSTEM_CALL_VECTOR
      then fill_gate TRAP_GATE USER_LEVEL_DESCRIPTOR (SET_IDT_ENTRY (idt_handler SYSTEM_CALL_HANDLER) d)
      else d\<lparr>present := 0\<rparr>)"

definition init_idt :: "links \<Rightarrow> 'a boot_scheme \<Rightarrow> 'a boot_scheme" where
  "init_idt ln s =
     for_loop 0 NUM_VEC (\<lambda>i s. s\<lparr>idt := (idt s)(i := init_gate (idt_jmp_table ln) i (idt s i))\<rparr>) s"

definition SET_SEG_PARAMS :: "u32 \<Rightarrow> u32 \<Rightarrow> seg_desc \<Rightarrow> seg_desc" where
  "SET_SEG_PARAMS addr lim d =
     d\<lparr>base_31_24 := ucast (drop_bit 24 (addr AND 0xFF000000)), base_23_16 := ucast (drop_bit 16 (addr AND 0x00FF0000)),
       base_15_00 := ucast (addr AND 0x0000FFFF), seg_lim_19_16 := unat (drop_bit 16 (lim AND 0x000F0000)),
       seg_lim_15_00 := ucast (lim AND 0x0000FFFF)\<rparr>"

definition setup_ldt :: "links \<Rightarrow> seg_desc \<Rightarrow> 'a boot_scheme \<Rightarrow> 'a boot_scheme" where
  "setup_ldt ln the_ldt_desc s =
     (let d = the_ldt_desc\<lparr>seg_granularity := 0, seg_opsize := 1, seg_reserved := 0, seg_avail := 0, seg_present := 1,
                seg_dpl := 0, seg_sys := 0, seg_type := 2\<rparr>;
          d = SET_SEG_PARAMS (ldt_address ln) (ldt_limit ln) d
      in s\<lparr>ldt_desc_ptr := d, ldtr := KERNEL_LDT\<rparr>)"

definition setup_tss :: "links \<Rightarrow> seg_desc \<Rightarrow> 'a boot_scheme \<Rightarrow> 'a boot_scheme" where
  "setup_tss ln the_tss_desc s =
     (let d = the_tss_desc\<lparr>seg_granularity := 0, seg_opsize := 0, seg_reserved := 0, seg_avail := 0,
                seg_lim_19_16 := unat (TSS_SIZE AND 0x000F0000), seg_present := 1, seg_dpl := 0, seg_sys := 0, seg_type := 9,
                seg_lim_15_00 := ucast (TSS_SIZE AND 0x0000FFFF)\<rparr>;
          d = SET_SEG_PARAMS (tss_address ln) (tss_limit ln) d
      in s\<lparr>tss_desc_ptr := d, tss_ldt_segment_selector := KERNEL_LDT, tss_ss0 := KERNEL_DS, tss_esp0 := 0x800000,
           task_register := KERNEL_TSS\<rparr>)"

section \<open>What the boot loader left\<close>

text \<open>
  A call of \<^verbatim>\<open>printf\<close> with a constant format. A number is an argument without a text
  behind it; the command line is a pointer.
\<close>

abbreviation (input) num :: "u32 \<Rightarrow> 's slot" where "num w \<equiv> Slot w (\<lambda>_ _. 0)"

definition tell ::
    "(u8 \<Rightarrow> u32) \<Rightarrow> string \<Rightarrow> 'a kernel_scheme slot list \<Rightarrow> 'a kernel_scheme \<Rightarrow> 'a kernel_scheme option" where
  "tell cb fmt as s =
     map_option snd (printf cb (at_text (bytes_of fmt)) (\<lambda>n. if n < length as then as ! n else num 0) s)"

definition CHECK_FLAG :: "u32 \<Rightarrow> nat \<Rightarrow> bool" where
  "CHECK_FLAG flags n \<longleftrightarrow> flags AND push_bit n 1 \<noteq> 0"

function show_bytes :: "(u8 \<Rightarrow> u32) \<Rightarrow> u32 \<Rightarrow> nat \<Rightarrow> 'a kernel_scheme \<Rightarrow> 'a kernel_scheme option" where
  "show_bytes cb start i s =
     (if i < 16 then do {
        s \<leftarrow> tell cb ''0x%x '' [num (scast (load s (start + of_nat i)))] s;
        show_bytes cb start (Suc i) s
      } else Some s)"
  by pat_completeness auto
termination by (relation "measure (\<lambda>(cb, start, i, s). 16 - i)") auto

declare show_bytes.simps [simp del]

partial_function (option) show_modules ::
    "(u8 \<Rightarrow> u32) \<Rightarrow> u32 \<Rightarrow> u32 \<Rightarrow> u32 \<Rightarrow> 'a kernel_scheme \<Rightarrow> 'a kernel_scheme option" where
  "show_modules cb mbi mod_count md s =
     (if mod_count < load32 s (mbi + 20) then do {
        s \<leftarrow> tell cb (''Module %d loaded at address: 0x%#x'' @ [CHR 0x0A]) [num mod_count, num (load32 s md)] s;
        s \<leftarrow> tell cb (''Module %d ends at address: 0x%#x'' @ [CHR 0x0A]) [num mod_count, num (load32 s (md + 4))] s;
        s \<leftarrow> tell cb (''First few bytes of module:'' @ [CHR 0x0A]) [] s;
        s \<leftarrow> show_bytes cb (load32 s md) 0 s;
        s \<leftarrow> tell cb [CHR 0x0A] [] s;
        show_modules cb mbi (mod_count + 1) (md + 16) s
      } else Some s)"

partial_function (option) show_memory_map ::
    "(u8 \<Rightarrow> u32) \<Rightarrow> u32 \<Rightarrow> u32 \<Rightarrow> 'a kernel_scheme \<Rightarrow> 'a kernel_scheme option" where
  "show_memory_map cb mbi mmap s =
     (if mmap < load32 s (mbi + 48) + load32 s (mbi + 44) then do {
        s \<leftarrow> tell cb ('' size = 0x%x,     base_addr = 0x%#x%#x'' @ [CHR 0x0A] @
                ''     type = 0x%x,  length    = 0x%#x%#x'' @ [CHR 0x0A])
               [num (load32 s mmap), num (load32 s (mmap + 8)), num (load32 s (mmap + 4)),
                num (load32 s (mmap + 20)), num (load32 s (mmap + 16)), num (load32 s (mmap + 12))] s;
        show_memory_map cb mbi (mmap + load32 s mmap + 4) s
      } else Some s)"

text \<open>
  The printing part of \<^verbatim>\<open>entry\<close>. It gives up when both symbol tables are announced.
\<close>

definition show_boot_info :: "(u8 \<Rightarrow> u32) \<Rightarrow> u32 \<Rightarrow> 'a kernel_scheme \<Rightarrow> (bool \<times> 'a kernel_scheme) option" where
  "show_boot_info cb mbi s = do {
     s \<leftarrow> tell cb (''flags = 0x%#x'' @ [CHR 0x0A]) [num (load32 s mbi)] s;
     s \<leftarrow> (if CHECK_FLAG (load32 s mbi) 0
          then tell cb (''mem_lower = %uKB, mem_upper = %uKB'' @ [CHR 0x0A])
                 [num (load32 s (mbi + 4)), num (load32 s (mbi + 8))] s else Some s);
     s \<leftarrow> (if CHECK_FLAG (load32 s mbi) 1
          then tell cb (''boot_device = 0x%#x'' @ [CHR 0x0A]) [num (load32 s (mbi + 12))] s else Some s);
     s \<leftarrow> (if CHECK_FLAG (load32 s mbi) 2
          then tell cb (''cmdline = %s'' @ [CHR 0x0A]) [Slot (load32 s (mbi + 16)) (at_addr (load32 s (mbi + 16)))] s
          else Some s);
     s \<leftarrow> (if CHECK_FLAG (load32 s mbi) 3 then show_modules cb mbi 0 (load32 s (mbi + 24)) s else Some s);
     if CHECK_FLAG (load32 s mbi) 4 \<and> CHECK_FLAG (load32 s mbi) 5
     then do { s \<leftarrow> tell cb (''Both bits 4 and 5 are set.'' @ [CHR 0x0A]) [] s; Some (False, s) }
     else do {
       s \<leftarrow> (if CHECK_FLAG (load32 s mbi) 5
            then tell cb (''elf_sec: num = %u, size = 0x%#x, addr = 0x%#x, shndx = 0x%#x'' @ [CHR 0x0A])
                   [num (load32 s (mbi + 28)), num (load32 s (mbi + 32)), num (load32 s (mbi + 36)), num (load32 s (mbi + 40))] s
            else Some s);
       s \<leftarrow> (if CHECK_FLAG (load32 s mbi) 6
            then do {
              s \<leftarrow> tell cb (''mmap_addr = 0x%#x, mmap_length = 0x%x'' @ [CHR 0x0A])
                     [num (load32 s (mbi + 48)), num (load32 s (mbi + 44))] s;
              show_memory_map cb mbi (load32 s (mbi + 48)) s
            } else Some s);
       Some (True, s)
     }
   }"

section \<open>Entry\<close>

text \<open>
  The routine returns to the boot code (\<open>Refused\<close>), leaves for the first shell
  (\<open>Launched\<close>), or idles after a shell that could not be started. The devices behind the ports
  are the parameter \<open>dev\<close>, the uninitialised locals \<^verbatim>\<open>the_ldt_desc\<close> and
  \<^verbatim>\<open>the_tss_desc\<close> the parameters \<open>d1\<close> and \<open>d2\<close>.
\<close>

datatype boot_end = Refused | Idle | Launched (user_eip: u32) (user_eflags: u32) (user_esp: u32)

definition init_devices :: "layout \<Rightarrow> device \<Rightarrow> u32 \<Rightarrow> 'a kernel_scheme \<Rightarrow> 'a kernel_scheme" where
  "init_devices lay dev mbi s =
     (let md = load32 s (mbi + 24);
          filesys_start_addr = load32 s md;
          filesys_size = load32 s (md + 4) - load32 s md;
          s = init_paging lay s;
          s = i8259_init s;
          s = init_rtc dev s;
          s = init_kbd dev s;
          s = init_filesystem filesys_start_addr filesys_size s;
          s = initialize_video_memory s;
          s = init_scheduling dev s
      in sti s)"

definition entry ::
    "layout \<Rightarrow> links \<Rightarrow> device \<Rightarrow> seg_desc \<Rightarrow> seg_desc \<Rightarrow> u32 \<Rightarrow> u32 \<Rightarrow> 'a boot_scheme \<Rightarrow> (boot_end \<times> 'a boot_scheme) option" where
  "entry lay ln dev d1 d2 magic_number addr s =
     (let s = clear s
      in if magic_number \<noteq> MULTIBOOT_BOOTLOADER_MAGIC
         then do {
           s \<leftarrow> tell (boot_conv ln) (''Invalid magic number: 0x%#x'' @ [CHR 0x0A]) [num magic_number] s;
           Some (Refused, s)
         }
         else
           let s = init_idt ln s
           in do {
             (ok, s) \<leftarrow> show_boot_info (boot_conv ln) addr s;
             if \<not> ok then Some (Refused, s)
             else
               let s = setup_ldt ln d1 s;
                   s = setup_tss ln d2 s;
                   s = init_devices lay dev addr s
               in do {
                 s \<leftarrow> say (boot_conv ln) (''Welcome to Snoop-Diggity-dOS 0.2'' @ [CHR 0x0A]) s;
                 (fl, s) \<leftarrow> internal_execute lay (boot_exec ln) (shell_string ln) FIRST_TERM_SHELL s;
                 Some (case fl of To_user e f p \<Rightarrow> Launched e f p | Return _ \<Rightarrow> Idle, s)
               }
           })"


section \<open>The interrupt descriptor table\<close>

lemma idt_prefix:
  "for_loop 0 n (\<lambda>i s. s\<lparr>idt := (idt s)(i := f i (idt s i))\<rparr>) s
     = s\<lparr>idt := (\<lambda>i. if i < n then f i (idt s i) else idt s i)\<rparr>"
proof (induction n)
  case 0
  then show ?case by simp
next
  case (Suc n)
  then show ?case by (simp add: for_loop_Suc) (rule arg_cong [of _ _ "\<lambda>t. s\<lparr>idt := t\<rparr>"], auto simp: less_Suc_eq)
qed

lemma idt_entry: "idt (init_idt ln s) i = (if i < 256 then init_gate (idt_jmp_table ln) i (idt s i) else idt s i)"
  by (simp add: init_idt_def idt_prefix)

text \<open>The address of a handler is split over two fields and can be read back.\<close>

definition gate_offset :: "idt_desc \<Rightarrow> u32" where
  "gate_offset d = push_bit 16 (ucast (offset_31_16 d)) OR ucast (offset_15_00 d)"

lemma halves:
  "push_bit 16 (ucast (ucast (drop_bit 16 ((h :: u32) AND 0xFFFF0000)) :: u16)) OR ucast (ucast (h AND 0xFFFF) :: u16) = h"
proof (rule bit_word_eqI)
  fix n assume "n < LENGTH(32)"
  have m: "(0xFFFF :: u32) = mask 16" "(0xFFFF0000 :: u32) = push_bit 16 (mask 16)" by (simp_all add: mask_eq_exp_minus_1)
  show "bit (push_bit 16 (ucast (ucast (drop_bit 16 (h AND 0xFFFF0000)) :: u16)) OR ucast (ucast (h AND 0xFFFF) :: u16) :: u32) n = bit h n"
    unfolding m using \<open>n < LENGTH(32)\<close> by (auto simp: bit_simps)
qed

lemma gate_offset_set [simp]: "gate_offset (fill_gate g l (SET_IDT_ENTRY h d)) = h"
  using halves [of h] by (simp add: gate_offset_def fill_gate_def SET_IDT_ENTRY_def)


text \<open>
  C33: After \<^verbatim>\<open>init_idt\<close> a vector is present exactly if it is one of the exceptions 0 to 19
  without 1 and 15, a line of the interrupt controllers (32 to 47), or the system call 0x80. A present
  vector leads to the kernel code segment and to the address its handler has in the jump table,
  and the only gate that user code may call is the one of the system call, the only trap gate.
\<close>

theorem idt_gates:
  fixes s :: "'a boot_scheme"
  assumes "i < 256" "d = idt (init_idt ln s) i"
  shows "(present d = 1 \<longleftrightarrow> i < 20 \<and> i \<noteq> 1 \<and> i \<noteq> 15 \<or> 32 \<le> i \<and> i < 48 \<or> i = 0x80) \<and>
    (present d = 1 \<longrightarrow> seg_selector d = KERNEL_CS \<and> gate_offset d = idt_jmp_table ln (if i = 0x80 then 48 else i) \<and>
       (dpl d = 3 \<longleftrightarrow> i = 0x80) \<and> (reserved3 d = TRAP_GATE \<longleftrightarrow> i = 0x80))"
proof -
  have d: "d = init_gate (idt_jmp_table ln) i (idt s i)" using assms idt_entry [of ln s i] by simp
  have g: "present (fill_gate g l e) = 1" "seg_selector (fill_gate g l e) = KERNEL_CS" "dpl (fill_gate g l e) = l"
    "reserved3 (fill_gate g l e) = g" for g l e by (simp_all add: fill_gate_def)
  show ?thesis unfolding d init_gate_def by (simp add: g)
qed

definition demo_links :: links where
  "demo_links = \<lparr>idt_jmp_table = (\<lambda>i. 0x400000 + 16 * of_nat i), ldt_address = 0x410000, ldt_limit = 32,
     tss_address = 0x411000, tss_limit = 104, shell_string = 0x412000,
     boot_exec = \<lparr>commandstring = 0x7FF000, magic = 0x7FF100, entry_point_address = 0x7FF104,
       frame_esp = 0x7FF200, frame_ebp = 0x7FF300\<rparr>, boot_conv = (\<lambda>c. 0x7FE000 + ucast c)\<rparr>"

theorem idt_gates_witness:
  "\<forall>s :: boot. present (idt (init_idt demo_links s) 0x80) = 1 \<and> dpl (idt (init_idt demo_links s) 0x80) = 3 \<and>
     gate_offset (idt (init_idt demo_links s) 0x80) = 0x400300"
proof
  fix s :: boot
  show "present (idt (init_idt demo_links s) 0x80) = 1 \<and> dpl (idt (init_idt demo_links s) 0x80) = 3 \<and>
     gate_offset (idt (init_idt demo_links s) 0x80) = 0x400300"
    using idt_gates [OF _ refl, of "0x80" demo_links s] by (simp add: demo_links_def)
qed

end
