(* ===== verification/Demo.thy ===== *)
theory Demo
  imports Execute Lib_Properties
begin

text \<open>
  A small concrete kernel, on which the theorems about whole system calls are tried out. Its
  memory holds a file system image with three entries (the directory, the clock, and the program
  \<^verbatim>\<open>hi\<close>, a file of 30 bytes that starts like an ELF file), a command string and the
  tables of a layout; process 0 runs.

  In \<open>flat_demo\<close> addresses are physical; \<open>demo\<close> is the same kernel with the
  address space of process 0 set up and active.
\<close>

definition demo_layout :: layout where
  "demo_layout = \<lparr>kernel_page_directory = 0x410000, kernel_page_table = 0x411000,
     user_level_page_directories = 0x420000, user_level_base_page_tables = 0x430000\<rparr>"

lemma demo_layout_ok: "layout_ok demo_layout"
  by code_simp

text \<open>Memory given by segments: a base address and the bytes there; everything else is zero.\<close>

fun seg_ram :: "(u32 \<times> u8 list) list \<Rightarrow> u32 \<Rightarrow> u8" where
  "seg_ram [] a = 0"
| "seg_ram ((b, xs) # segs) a = (if unat (a - b) < length xs then xs ! unat (a - b) else seg_ram segs a)"

fun segs_ok :: "(u32 \<times> u8 list) list \<Rightarrow> bool" where
  "segs_ok [] = True"
| "segs_ok ((b, xs) # segs) \<longleftrightarrow> unat b + length xs \<le> 4294967296 \<and> segs_ok segs \<and>
     list_all (\<lambda>(c, ys). unat b + length xs \<le> unat c \<or> unat c + length ys \<le> unat b) segs"

lemma unat_diff_outside:
  fixes a b :: u32
  assumes "unat b + n \<le> unat a \<or> unat a < unat b" "unat b + n \<le> 4294967296"
  shows "\<not> unat (a - b) < n"
proof (cases "unat b \<le> unat a")
  case True
  then have "unat (a - b) = unat a - unat b" by (intro unat_sub) (simp add: word_le_nat_alt)
  then show ?thesis using assms True by linarith
next
  case False
  then have "unat (a - b) = unat a + 4294967296 - unat b" by (simp add: unat_sub_if_size word_size)
  then show ?thesis using assms(2) False by linarith
qed

lemma segs_ok_fits: "segs_ok segs \<Longrightarrow> (b, xs) \<in> set segs \<Longrightarrow> unat b + length xs \<le> 4294967296"
  by (induction segs rule: segs_ok.induct) auto

lemma seg_ram_hit:
  assumes "segs_ok segs" "(b, xs) \<in> set segs" "i < length xs"
  shows "seg_ram segs (b + of_nat i) = xs ! i"
  using assms
proof (induction segs)
  case (Cons seg segs)
  obtain c ys where seg: "seg = (c, ys)" by (cases seg)
  have len: "unat b + length xs \<le> 4294967296" by (rule segs_ok_fits [OF Cons.prems(1,2)])
  have u: "unat (b + of_nat i) = unat b + i"
    using len Cons.prems(3) by (rule u32_add_less_iff)
  show ?case
  proof (cases "(b, xs) = (c, ys)")
    case True
    then show ?thesis using seg Cons.prems(3) len by simp
  next
    case False
    then have m: "(b, xs) \<in> set segs" using Cons.prems(2) seg by auto
    then have "unat c + length ys \<le> unat b \<or> unat b + length xs \<le> unat c" "unat c + length ys \<le> 4294967296"
      using Cons.prems(1) seg by (auto simp: list_all_iff)
    then have "\<not> unat (b + of_nat i - c) < length ys"
      using Cons.prems(3) u by (intro unat_diff_outside) auto
    then show ?thesis using Cons.IH m Cons.prems(1,3) seg by simp
  qed
qed simp

definition hi_file :: "u8 list" where
  "hi_file = [0x7F, 0x45, 0x4C, 0x46, 0, 0, 0, 0, 0, 0, 0, 0, 0, 0, 0, 0, 0, 0, 0, 0, 0, 0, 0, 0,
     0, 0x80, 4, 8, 0x41, 0x42]"

definition demo_segments :: "(u32 \<times> u8 list) list" where
  "demo_segments =
    [(0x500000, [3, 0, 0, 0, 1, 0, 0, 0, 1, 0, 0, 0]),
     (0x500040, 0x2E # replicate 31 0 @ [1, 0, 0, 0, 0, 0, 0, 0] @ replicate 24 0),
     (0x500080, [0x72, 0x74, 0x63] @ replicate 29 0 @ [0, 0, 0, 0, 0, 0, 0, 0] @ replicate 24 0),
     (0x5000C0, [0x68, 0x69] @ replicate 30 0 @ [2, 0, 0, 0, 0, 0, 0, 0] @ replicate 24 0),
     (0x501000, [30, 0, 0, 0, 0, 0, 0, 0]),
     (0x502000, hi_file),
     (0x450000, [0x68, 0x69, 0x20, 0x34, 0x32, 0]),
     (0x08100000, [0x68, 0x69, 0])]"

definition demo_ram :: "u32 \<Rightarrow> u8" where
  "demo_ram = seg_ram demo_segments"

lemma demo_segments_ok: "segs_ok demo_segments"
  by (simp add: demo_segments_def hi_file_def)

definition blank_pcb :: "int \<Rightarrow> pcb" where
  "blank_pcb p = \<lparr>fd_array = fresh_fds (\<lambda>_. std_fd), ret_val = 0, args = 0x450003, parentPCB = 0, pcb_esp0 = 0,
     pcb_eip = 0, esp_k = 0, ebp_k = 0, pcb_eflags = 0, pcb_flags = 1, pid = p, owned_by_terminal = 0\<rparr>"

definition blank_terminal :: terminal where
  "blank_terminal = \<lparr>t_screen_x = 0, t_screen_y = 0, stdin = replicate 128 0, stdin_index = 0,
     allowed_to_read = 0, read_waiting = 0, t_pid = 0\<rparr>"

definition flat_demo :: kernel where
  "flat_demo = \<lparr>ram = demo_ram, xlat = (\<lambda>a. a), io_log = [], eflags = 0x202, screen_x = 0, screen_y = 0,
     curr_attribute = 7, pid_avail = 1, terminal_being_serviced = 0, ptmem = (\<lambda>_. 0), cr3 = 0,
     bootblock = 0x500000, inodes = 0x501000, datablocks = 0x502000, master_mask = 0xFB, slave_mask = 0xFF,
     been_inited = 0, rtc_flag = 0, scancode_table = (\<lambda>_. \<lparr>result = 0, scflags = 0\<rparr>),
     non_alpha_shift_table = (\<lambda>_. 0), pcbs = (\<lambda>_. blank_pcb 0), tss_esp0 = kernel_stack 0,
     frames = (\<lambda>_. \<lparr>fr_pid = 0, fr_pcb_child = 0, fr_interrupt_flags = 0\<rparr>), terminals = (\<lambda>_. blank_terminal),
     terminal_state = 0, terminals_launched = 1, keyboard_state = 0, curr_back_attribute = 0\<rparr>"

lemma flat_demo_sel [simp]:
  "ram flat_demo = demo_ram" "xlat flat_demo = (\<lambda>a. a)" "pid_avail flat_demo = 1" "eflags flat_demo = 0x202"
  "bootblock flat_demo = 0x500000" "inodes flat_demo = 0x501000" "datablocks flat_demo = 0x502000"
  "pcbs flat_demo = (\<lambda>_. blank_pcb 0)" "tss_esp0 flat_demo = kernel_stack 0" "terminal_state flat_demo = 0"
  "terminals flat_demo = (\<lambda>_. blank_terminal)" "terminal_being_serviced flat_demo = 0"
  "screen_x flat_demo = 0" "screen_y flat_demo = 0"
  by (simp_all add: flat_demo_def)

lemma demo_pid_set: "pid_set flat_demo = {0}"
  by (auto simp: pid_set_def bit_simps)

lemma demo_running: "running flat_demo 0"
  by (simp add: running_def demo_pid_set)

lemma demo_procs_ok: "procs_ok flat_demo"
  using fds_ok_fresh [of "\<lambda>_. std_fd"] by (simp add: procs_ok_def demo_pid_set blank_pcb_def)

lemma demo_current: "current_pcb flat_demo = 0x7FE000"
  by (simp add: current_pcb_def kernel_stack_def)

section \<open>The image\<close>

lemma demo_load:
  "(b, xs) \<in> set demo_segments \<Longrightarrow> i < length xs \<Longrightarrow> load flat_demo (b + of_nat i) = xs ! i"
  using seg_ram_hit [OF demo_segments_ok] by (simp add: load_def demo_ram_def)

lemma demo_read:
  assumes "(b, xs) \<in> set demo_segments" "m + n \<le> length xs"
  shows "read_bytes flat_demo (b + of_nat m) n = take n (drop m xs)"
proof (rule nth_equalityI)
  fix i assume "i < length (read_bytes flat_demo (b + of_nat m) n)"
  then show "read_bytes flat_demo (b + of_nat m) n ! i = take n (drop m xs) ! i"
    using assms(2) demo_load [OF assms(1), of "m + i"] by (simp add: add.assoc)
qed (use assms(2) in simp)

lemma demo_load32:
  assumes "(b, xs) \<in> set demo_segments" "m + 3 < length xs"
  shows "load32 flat_demo (b + of_nat m) = word_of_bytes (xs ! m) (xs ! (m + 1)) (xs ! (m + 2)) (xs ! (m + 3))"
  using assms(2) demo_load [OF assms(1), of m] demo_load [OF assms(1), of "m + 1"]
    demo_load [OF assms(1), of "m + 2"] demo_load [OF assms(1), of "m + 3"]
  by (simp add: load32_def algebra_simps)

lemma demo_dentry:
  assumes "(b, nm @ ty @ ino @ rs) \<in> set demo_segments"
    "length nm = 32" "length ty = 4" "length ino = 4" "length rs = 24"
  shows "load_dentry flat_demo b = \<lparr>filename = nm, filetype = word_of_bytes (ty ! 0) (ty ! 1) (ty ! 2) (ty ! 3),
    inode = word_of_bytes (ino ! 0) (ino ! 1) (ino ! 2) (ino ! 3), reserved = rs\<rparr>"
  using assms(2-) demo_read [OF assms(1), of 0 32] demo_read [OF assms(1), of 40 24]
    demo_load32 [OF assms(1), of 32] demo_load32 [OF assms(1), of 36]
  by (simp add: load_dentry_def nth_append)

definition dot_dentry :: dentry where
  "dot_dentry = \<lparr>filename = 0x2E # replicate 31 0, filetype = 1, inode = 0, reserved = replicate 24 0\<rparr>"

definition rtc_dentry :: dentry where
  "rtc_dentry = \<lparr>filename = [0x72, 0x74, 0x63] @ replicate 29 0, filetype = 0, inode = 0, reserved = replicate 24 0\<rparr>"

definition hi_dentry :: dentry where
  "hi_dentry = \<lparr>filename = [0x68, 0x69] @ replicate 30 0, filetype = 2, inode = 0, reserved = replicate 24 0\<rparr>"

lemma demo_counts: "boot_direntries flat_demo = 3" "boot_inodes flat_demo = 1" "boot_datablocks flat_demo = 1"
  "inode_length flat_demo 0 = 30" "inode_block flat_demo 0 0 = 0"
  using demo_load32 [of "0x500000" "[3, 0, 0, 0, 1, 0, 0, 0, 1, 0, 0, 0]" 0]
    demo_load32 [of "0x500000" "[3, 0, 0, 0, 1, 0, 0, 0, 1, 0, 0, 0]" 4]
    demo_load32 [of "0x500000" "[3, 0, 0, 0, 1, 0, 0, 0, 1, 0, 0, 0]" 8]
    demo_load32 [of "0x501000" "[30, 0, 0, 0, 0, 0, 0, 0]" 0] demo_load32 [of "0x501000" "[30, 0, 0, 0, 0, 0, 0, 0]" 4]
  by (simp_all add: demo_segments_def boot_direntries_def boot_inodes_def boot_datablocks_def inode_length_def
      inode_block_def word_of_bytes_def)

lemma demo_directory: "directory flat_demo = [dot_dentry, rtc_dentry, hi_dentry]"
proof -
  have "load_dentry flat_demo 0x500040 = dot_dentry"
    by (subst demo_dentry [of _ "0x2E # replicate 31 0" "[1, 0, 0, 0]" "[0, 0, 0, 0]" "replicate 24 0"])
       (simp_all add: demo_segments_def dot_dentry_def word_of_bytes_def)
  moreover have "load_dentry flat_demo 0x500080 = rtc_dentry"
    by (subst demo_dentry [of _ "[0x72, 0x74, 0x63] @ replicate 29 0" "[0, 0, 0, 0]" "[0, 0, 0, 0]" "replicate 24 0"])
       (simp_all add: demo_segments_def rtc_dentry_def word_of_bytes_def)
  moreover have "load_dentry flat_demo 0x5000C0 = hi_dentry"
    by (subst demo_dentry [of _ "[0x68, 0x69] @ replicate 30 0" "[2, 0, 0, 0]" "[0, 0, 0, 0]" "replicate 24 0"])
       (simp_all add: demo_segments_def hi_dentry_def word_of_bytes_def)
  ultimately show ?thesis by (simp add: directory_def demo_counts boot_file_def upt_rec)
qed

lemma demo_image_size: "image_size flat_demo = 12288"
  by (simp add: image_size_def demo_counts)

lemma demo_mounted: "mounted flat_demo"
  by (simp add: mounted_def demo_counts)

lemma demo_inode_wf: "inode_wf flat_demo 0"
  by (simp add: inode_wf_def demo_counts bad_block_def)

lemma demo_file: "m + n \<le> 30 \<Longrightarrow> file_bytes flat_demo 0 m n = take n (drop m hi_file)"
proof (rule nth_equalityI)
  fix i assume "m + n \<le> 30" "i < length (file_bytes flat_demo 0 m n)"
  then have "m + i < 30" "i < n" by simp_all
  then show "file_bytes flat_demo 0 m n ! i = take n (drop m hi_file) ! i"
    using demo_load [of "0x502000" hi_file "m + i"]
    by (simp add: data_addr_def demo_counts demo_segments_def hi_file_def nth_drop)
qed (simp add: hi_file_def)

lemma demo_executable: "executable flat_demo hi_dentry"
  by (simp add: executable_def hi_dentry_def demo_inode_wf demo_counts demo_file hi_file_def)

lemma demo_entry: "entry_word flat_demo 0 = 0x08048000"
  by (simp add: entry_word_def demo_file hi_file_def word_of_bytes_def)

end
