(* ===== verification/Launch.thy ===== *)
theory Launch
  imports Demo
begin

text \<open>
  What a program that \<^verbatim>\<open>execute\<close> starts finds in its address space, and what its parent
  gets back when it ends (\<^verbatim>\<open>student-distrib/syscalls.c\<close>).
\<close>

section \<open>Writes beside the file system image\<close>

lemma same_image_place:
  "same_image s t \<Longrightarrow> bootblock t = bootblock s"
  "same_image s t \<Longrightarrow> image_size t = image_size s"
  using same_image_boot [of s t] by (simp_all add: image_size_def same_image_def)

lemma write_image:
  assumes "same_image s t" "xlat t = xlat s" "apart s a n (bootblock s) (image_size s)" "length bs \<le> n"
  shows "same_image s (write_bytes a bs t)"
proof -
  have "apart t a (length bs) (bootblock t) (image_size t)"
    using apart_mono [OF assms(3,4) order_refl] by (simp add: apart_xlat [OF assms(2)] same_image_place [OF assms(1)])
  then have "same_image t (write_bytes a bs t)" by (rule write_same_image)
  with assms(1) show ?thesis by (rule same_image_trans)
qed

section \<open>The loader reaches the program\<close>

lemma loader_steps:
  fixes s :: "'a kernel_scheme"
  assumes s: "mounted s" "length (directory s) \<le> 63"
    and cmd: "cstr s command bs" "bs \<noteq> []" "length bs < 128"
    and mem: "exec_memory fr command (length bs) pr len s"
    and s1: "s1 = write_bytes (commandstring fr) (bs @ [0]) (cli s)"
    and s2: "s2 = split_store (commandstring fr) bs s1"
  shows "strlen (cli s) command = Some (of_nat (length bs))"
    and "strcpy (commandstring fr) command (cli s) = Some s1"
    and "split_command (commandstring fr) 0 0 s1 = Some (split_arg (commandstring fr) bs, s2)"
    and "cstr s2 (commandstring fr) (cmd_name bs)"
    and "cstr s2 (split_arg (commandstring fr) bs) (cmd_args bs)"
    and "same_image s s2" and "xlat s2 = xlat s"
proof -
  note f = exec_memory_facts [OF mem]
  let ?cs = "commandstring fr"
  have x: "xlat (cli s) = xlat s" "xlat s1 = xlat s" by (simp_all add: s1)
  have "load (cli s) = load s" by (simp add: fun_eq_iff load_def cli_def)
  then have c0: "cstr (cli s) command bs" using cmd(1) by (simp add: cstr_def read_bytes_def)
  then show "strlen (cli s) command = Some (of_nat (length bs))" by (rule strlen_cstr)
  have "apart (cli s) ?cs (length bs) command (Suc (length bs))"
    unfolding apart_xlat [OF x(1)] by (rule apart_mono [OF f(1)]) simp_all
  from strcpy_cstr [OF c0 this] show "strcpy ?cs command (cli s) = Some s1" by (simp add: s1)
  have sp: "spread (cli s) ?cs (Suc (length bs))" "spread s1 ?cs (Suc (length bs))"
    using f(2) by (simp_all add: spread_xlat [OF x(1)] spread_xlat [OF x(2)])
  have c1: "cstr s1 ?cs bs"
    unfolding s1 by (rule cstr_write [OF _ _ sp(1)]) (use c0 in \<open>simp_all add: cstr_def\<close>)
  show "split_command ?cs 0 0 s1 = Some (split_arg ?cs bs, s2)"
    unfolding s2 using c1 cmd(2) by (rule split_command_eq)
  show "cstr s2 ?cs (cmd_name bs)" "cstr s2 (split_arg ?cs bs) (cmd_args bs)"
    unfolding s2 using split_strings [OF c1 sp(2)] by simp_all
  show "xlat s2 = xlat s" by (simp add: s2 x split_store_write)
  have i1: "same_image s s1"
    unfolding s1 by (rule write_image [OF same_image_cli x(1) f(3)]) simp
  have "apart s (?cs + of_nat (length (cmd_name bs))) 1 (bootblock s) (image_size s)"
    using cmd_name_le [of bs] by (intro apart_shift_left [OF f(3)]) simp
  then show "same_image s s2"
    unfolding s2 split_store_write using i1 x(2) by (intro write_image) auto
qed

lemma split_arg_bounds:
  "split_arg cs bs = cs + of_nat (length bs - length (cmd_args bs))"
  "length (cmd_args bs) \<le> length bs"
  using cmd_name_le [of bs] by (auto simp: split_arg_def cmd_args_def)

text \<open>The call reaches \<open>start_process\<close>, in a state that differs from the first one in memory only.\<close>

text \<open>The frames of the local variables of \<^verbatim>\<open>internal_execute\<close>.\<close>

definition local_frames :: "exec_locals \<Rightarrow> 'a machine_scheme \<Rightarrow> u32 set" where
  "local_frames fr s = (\<lambda>i. xlat s (commandstring fr + of_nat i)) ` {..<128} \<union>
     (\<lambda>i. xlat s (magic fr + of_nat i)) ` {..<4} \<union> (\<lambda>i. xlat s (entry_point_address fr + of_nat i)) ` {..<4}"

lemma write_local:
  assumes "q \<notin> (\<lambda>i. xlat s (a + of_nat i)) ` {..<n}" "k + length bs \<le> n" "xlat t = xlat s"
  shows "ram (write_bytes (a + of_nat k) bs t) q = ram t q"
proof (rule write_bytes_ram)
  have "(\<lambda>i. xlat t (a + of_nat k + of_nat i)) ` {..<length bs} = (\<lambda>i. xlat s (a + of_nat i)) ` (+) k ` {..<length bs}"
    unfolding image_image assms(3) of_nat_add add.assoc ..
  moreover have "(+) k ` {..<length bs} \<subseteq> {..<n}" using assms(2) by auto
  ultimately show "q \<notin> (\<lambda>i. xlat t (a + of_nat k + of_nat i)) ` {..<length bs}"
    using assms(1) image_mono [of "(+) k ` {..<length bs}" "{..<n}" "\<lambda>i. xlat s (a + of_nat i)"] by auto
qed

lemma execute_program:
  fixes s :: "'a kernel_scheme"
  assumes run: "running s p" and n: "n = get_available_pid s" "n \<noteq> FAILURE"
    and s: "mounted s" "length (directory s) \<le> 63"
    and cmd: "cstr s command bs" "bs \<noteq> []" "length bs < 128"
    and d: "find (\<lambda>d. dentry_name d = take 32 (cmd_name bs)) (directory s) = Some d" "executable s d"
    and mem: "exec_memory fr command (length bs) pr len s"
  obtains u where "mem_only (cli s) u" "same_image s u" "cstr u (split_arg (commandstring fr) bs) (cmd_args bs)"
    "internal_execute lay fr command flags s = Some (start_process lay fr flags (eflags s) (current_pcb s) n
       (inode d) (split_arg (commandstring fr) bs) (entry_word s (inode d)) u)"
    "\<forall>q. q \<notin> local_frames fr s \<longrightarrow> ram u q = ram s q"
proof -
  let ?cs = "commandstring fr" and ?ino = "inode d"
  note f = exec_memory_facts [OF mem]
  define s1 where "s1 = write_bytes ?cs (bs @ [0]) (cli s)"
  define s2 where "s2 = split_store ?cs bs s1"
  define u1 where "u1 = write_bytes (magic fr) (file_bytes s2 ?ino 0 4) s2"
  define u where "u = write_bytes (entry_point_address fr) (file_bytes s2 ?ino 24 4) u1"
  note st = loader_steps [OF s cmd mem s1_def s2_def]
  note im = st(6) and x = st(7)
  note b = same_image_place [OF im]
  note ex = same_image_executable [OF im s(1) d(2)]
  have wf: "inode_wf s ?ino" using d(2) by (simp add: executable_def)
  have lp: "load_program lay fr flags (eflags s) (current_pcb s) n (split_arg ?cs bs) s2
      = start_process lay fr flags (eflags s) (current_pcb s) n ?ino (split_arg ?cs bs) (entry_word s2 ?ino) u"
    using f(4-7) d(1) s(2) same_image_directory [OF im s(2)]
    by (intro load_program_eq [OF same_image_wf(2) [OF im s(1) wf] _ st(4) _ ex(1) _ _ _ _ u_def [unfolded u1_def]])
       (simp_all add: b apart_xlat [OF x] spread_xlat [OF x])
  have "get_available_pid (cli s) = n" by (simp add: n get_available_pid_def cli_def)
  moreover have "\<not> (of_nat (length bs) :: u32) \<ge> 128"
    using cmd(3) by (simp add: word_le_nat_alt not_le)
  moreover have "\<not> all_pids_available (cli s)"
    using run by (auto simp: running_def pid_set_def all_pids_available_def cli_def)
  ultimately have ie: "internal_execute lay fr command flags s
      = Some (start_process lay fr flags (eflags s) (current_pcb s) n ?ino (split_arg ?cs bs) (entry_word s ?ino) u)"
    using st(1-3) lp n(2) ex(2)
    by (simp add: internal_execute_def Let_def cli_and_save_def)
  have mo: "mem_only (cli s) u"
    by (simp add: u_def u1_def s2_def split_store_write s1_def)
  have x1: "xlat u1 = xlat s" "xlat u = xlat s" by (simp_all add: u1_def u_def x)
  have i1: "same_image s u1" unfolding u1_def using im x f(5) by (rule write_image) simp
  have iu: "same_image s u" unfolding u_def using i1 x1(1) f(7) by (rule write_image) simp
  have ap: "apart s a 4 (split_arg ?cs bs) (Suc (length (cmd_args bs)))"
    if "apart s a 4 ?cs (Suc (length bs))" for a
    unfolding split_arg_bounds(1) by (rule apart_shift [OF that]) (use split_arg_bounds(2) [of bs] in simp)
  have "cstr u1 (split_arg ?cs bs) (cmd_args bs)"
    unfolding u1_def using st(5) ap [OF f(10)] by (intro cstr_write_apart) (simp_all add: apart_xlat [OF x])
  then have "cstr u (split_arg ?cs bs) (cmd_args bs)"
    unfolding u_def using ap [OF f(11)] by (intro cstr_write_apart) (simp_all add: apart_xlat [OF x1(1)])
  moreover have "ram u q = ram s q" if q: "q \<notin> local_frames fr s" for q
  proof -
    have x0: "xlat (cli s) = xlat s" "xlat s1 = xlat s" by (simp_all add: s1_def cli_def)
    note l = q [unfolded local_frames_def]
    have "ram u q = ram u1 q" unfolding u_def using write_local [of q s "entry_point_address fr" 4 0 _ u1] l x1(1) by simp
    also have "\<dots> = ram s2 q" unfolding u1_def using write_local [of q s "magic fr" 4 0 _ s2] l x by simp
    also have "\<dots> = ram s1 q" unfolding s2_def split_store_write
      using l cmd(3) cmd_name_le [of bs] x0(2) by (intro write_local [of q s ?cs 128]) simp_all
    also have "\<dots> = ram s q" unfolding s1_def using write_local [of q s ?cs 128 0 "bs @ [0]" "cli s"] l cmd(3) x0(1) by (simp add: cli_def)
    finally show ?thesis .
  qed
  ultimately show thesis using that mo iu ie by blast
qed


section \<open>What user code sees\<close>

lemma user_page_index:
  assumes "k < 0x400000"
  shows "drop_bit 22 (0x08000000 + of_nat k :: u32) = 32" "(0x08000000 + of_nat k :: u32) AND 0x3FFFFF = of_nat k"
proof -
  have u: "unat (0x08000000 + of_nat k :: u32) = 0x08000000 + k"
    using assms by (simp add: unat_word_ariths unat_of_nat)
  have "unat (drop_bit 22 (0x08000000 + of_nat k :: u32)) = 32"
    using assms unfolding unat_drop_bit_eq u by (simp add: drop_bit_eq_div)
  then show "drop_bit 22 (0x08000000 + of_nat k :: u32) = 32" by (simp add: word_unat_eq_iff)
  have "unat ((0x08000000 + of_nat k :: u32) AND 0x3FFFFF) = k"
    using assms unfolding masks_u32 take_bit_eq_mask [symmetric] unsigned_take_bit_eq u
    using mod_mult_self2 [of k 4194304 32] by (simp add: take_bit_eq_mod add.commute)
  then show "(0x08000000 + of_nat k :: u32) AND 0x3FFFFF = of_nat k"
    using assms by (simp add: word_unat_eq_iff unat_of_nat)
qed

lemma big_aligned_or_add:
  assumes "big_aligned a" "k < 0x400000"
  shows "a OR of_nat k = a + (of_nat k :: u32)"
proof -
  have "take_bit 22 (of_nat k :: u32) = of_nat k"
    using assms(2) by (intro word_unat_eq_iff [THEN iffD2]) (simp add: unsigned_take_bit_eq unat_of_nat take_bit_nat_eq_self)
  then have hi: "\<not> bit (of_nat k :: u32) i" if "22 \<le> i" for i using that by (metis bit_take_bit_iff not_less)
  then have "a AND of_nat k = 0"
  proof (intro bit_word_eqI)
    fix n show "bit (a AND of_nat k) n = bit (0 :: u32) n"
      using assms(1) hi [of n] by (cases "n < 22") (simp_all only: big_aligned_bits bit_and_iff bit_0_eq bot_apply not_less simp_thms bot_bool_def)
  qed
  then show ?thesis by (rule disjunctive_add_eq_or [symmetric])
qed

text \<open>The program's 4 MB page, and the memory of the kernel and of the six processes.\<close>

lemma user_page_view:
  assumes "space_ok sp" "k < 0x400000"
  shows "space_view sp (0x08000000 + of_nat k) = Some (block sp + of_nat k, True)"
proof -
  have "drop_bit 12 (0x08000000 + of_nat k :: u32) \<noteq> 0xB8"
    using page_index_0xB8 user_page_index(1) [OF assms(2)] by fastforce
  then show ?thesis
    using assms user_page_index [OF assms(2)] big_aligned_or_add [of "block sp" k]
    by (simp add: space_view_def task_view_def space_ok_def)
qed

lemma kernel_page_view:
  assumes "0 < unat (drop_bit 22 va)" "unat (drop_bit 22 va) < 8"
  shows "space_view sp va = Some (va, False)"
proof -
  have "drop_bit 12 va \<noteq> 0xB8" using page_index_0xB8 [of va] assms(1) by auto
  then show ?thesis using assms by (simp add: space_view_def task_view_def kernel_view_def)
qed

lemma prog_area_index:
  assumes "0 \<le> n" "n < 6" "k < 0x3B8000"
  shows "0 < unat (drop_bit 22 (prog_area n + of_nat k))" "unat (drop_bit 22 (prog_area n + of_nat k)) < 8"
proof -
  have "unat (prog_area n) = 0x800000 + 0x400000 * nat n + 0x48000"
    using block_address_eq [OF assms(1,2)] assms(1,2) by (simp add: prog_area_def unat_word_ariths)
  then have u: "unat (prog_area n + of_nat k) = 0x800000 + 0x400000 * nat n + 0x48000 + k"
    using assms by (simp add: unat_word_ariths unat_of_nat)
  show "0 < unat (drop_bit 22 (prog_area n + of_nat k))" "unat (drop_bit 22 (prog_area n + of_nat k)) < 8"
    using assms unfolding unat_drop_bit_eq u by (simp_all add: drop_bit_eq_div)
qed


lemma mmu_space:
  assumes "tables_ok pd bt" "space_ok sp" "task_space pd bt sp s"
  shows "k < 0x400000 \<Longrightarrow> mmu_xlat (ptmem s) pd (0x08000000 + of_nat k) = block sp + of_nat k"
    and "0 < unat (drop_bit 22 va) \<Longrightarrow> unat (drop_bit 22 va) < 8 \<Longrightarrow> mmu_xlat (ptmem s) pd va = va"
  using translate_task_space [OF assms] user_page_view [OF assms(2)] kernel_page_view [of va sp]
  by (simp_all add: mmu_xlat_def)

definition kernel_area :: "u32 \<Rightarrow> nat \<Rightarrow> bool" where
  "kernel_area a n \<longleftrightarrow> 0x400000 \<le> unat a \<and> unat a + n \<le> 0x2000000"

lemma kernel_area_index:
  assumes "kernel_area a n" "k < n"
  shows "0 < unat (drop_bit 22 (a + of_nat k))" "unat (drop_bit 22 (a + of_nat k)) < 8"
proof -
  have u: "unat (a + of_nat k) = unat a + k"
    using assms by (intro u32_add_less_iff [of a n]) (simp_all add: kernel_area_def)
  show "0 < unat (drop_bit 22 (a + of_nat k))" "unat (drop_bit 22 (a + of_nat k)) < 8"
    using assms unfolding unat_drop_bit_eq u kernel_area_def by (simp_all add: drop_bit_eq_div) auto
qed

lemma cstr_load_cong:
  assumes "\<And>i. i \<le> length bs \<Longrightarrow> load t (a + of_nat i) = load s (a + of_nat i)" "cstr s a bs"
  shows "cstr t a bs"
proof -
  have "read_bytes t a (length bs) = read_bytes s a (length bs)"
    by (intro nth_equalityI) (simp_all add: assms(1))
  then show ?thesis using assms(2) assms(1) [of "length bs"] by (simp add: cstr_def)
qed

text \<open>The memory of the started program, as the program itself addresses it.\<close>

lemma start_process_memory:
  fixes u t :: "'a kernel_scheme"
  assumes st: "start_process lay fr flags ifl cur n ino arg ep u = (fl, t)" "0 \<le> n" "n < 6" "cur \<noteq> pcb_address n"
    and lay: "layout_ok lay"
    and x: "\<forall>va. 0 < unat (drop_bit 22 va) \<longrightarrow> unat (drop_bit 22 va) < 8 \<longrightarrow> xlat u va = va"
    and im: "mounted u" "inode_wf u ino" "unat (inode_length u ino) = len" "len \<le> 0x3B8000"
    and pr: "spread u (prog_area n) len" "apart u (prog_area n) len (bootblock u) (image_size u)"
  shows "i < len \<Longrightarrow> load t (0x08048000 + of_nat i) = file_bytes u ino 0 len ! i"
    and "kernel_area a k \<Longrightarrow> apart u (prog_area n) len a k \<Longrightarrow> j < k \<Longrightarrow> load t (a + of_nat j) = load u (a + of_nat j)"
proof -
  let ?pd = "get_page_directory_for_pid lay n" and ?bt = "get_base_page_table_for_pid lay n"
  define w where "w = snd (read_data ino 0 (prog_area n) 0x3B8000 u)"
  define s1 where "s1 = setup_task_paging ?pd ?bt (block_address_for_process n) w"
  have w_sel: "w = snd (read_data ino 0 (block_address_for_process n + TASK_PROGRAM_IMAGE_OFFSET)
      (LITERAL_4MB - TASK_PROGRAM_IMAGE_OFFSET) u)" by (simp add: w_def prog_area_def)
  note sel = start_process_sel [OF st w_sel s1_def]
  have w: "w = write_bytes (prog_area n) (file_bytes u ino 0 len) u"
    using read_data_eq [OF im(1,2), of len "0x3B8000" 0 "prog_area n"] im(3,4) pr(2) by (simp add: w_def)
  have sp: "task_space ?pd ?bt (fresh_space n) s1"
    using setup_task_paging_space [OF layout_tables [OF lay st(2,3)] block_big_aligned [OF st(2,3)], of w]
    by (simp add: s1_def fresh_space_def)
  note mmu = mmu_space [OF layout_tables [OF lay st(2,3)] fresh_space_ok [OF st(2,3)] sp, folded sel(12)]
  have xw: "xlat w = xlat u" by (simp add: w)
  have len: "length (file_bytes u ino 0 len) = len" by (simp add: file_bytes_def)
  show "load t (0x08048000 + of_nat i) = file_bytes u ino 0 len ! i" if "i < len"
  proof -
    have a: "0x08048000 + of_nat i = (0x08000000 + of_nat (0x48000 + i) :: u32)" by simp
    have "xlat t (0x08048000 + of_nat i) = prog_area n + of_nat i"
      unfolding a using that im(4) by (subst mmu(1)) (simp_all add: fresh_space_def prog_area_def add.assoc)
    also have "\<dots> = xlat w (prog_area n + of_nat i)"
      unfolding xw using that im(4) by (intro x [rule_format, symmetric] prog_area_index [OF st(2,3)]) simp_all
    finally have "load t (0x08048000 + of_nat i) = load w (prog_area n + of_nat i)"
      by (simp add: load_def sel(11))
    also have "\<dots> = file_bytes u ino 0 len ! i"
      unfolding w using that pr(1) len by (intro load_write_nth) simp_all
    finally show ?thesis .
  qed
  show "load t (a + of_nat j) = load u (a + of_nat j)"
    if "kernel_area a k" "apart u (prog_area n) len a k" "j < k"
  proof -
    note ix = kernel_area_index [OF that(1,3)]
    have "load t (a + of_nat j) = load w (a + of_nat j)"
      using mmu(2) [OF ix] x [rule_format, OF ix] by (simp add: load_def sel(11) xw)
    also have "\<dots> = load u (a + of_nat j)"
      unfolding w using that len by (intro load_write_apart) simp_all
    finally show ?thesis .
  qed
qed


text \<open>The address space that is active while \<open>p\<close> runs in the kernel.\<close>

definition active :: "layout \<Rightarrow> int \<Rightarrow> 'a kernel_scheme \<Rightarrow> bool" where
  "active lay p s \<longleftrightarrow> xlat s = mmu_xlat (ptmem s) (get_page_directory_for_pid lay p)"

lemma active_identity:
  assumes "layout_ok lay" "running s p" "spaces_ok lay sps s" "active lay p s"
    and "0 < unat (drop_bit 22 va)" "unat (drop_bit 22 va) < 8"
  shows "xlat s va = va"
proof -
  have "p \<in> pid_set s" using assms(2) by (simp add: running_def)
  then have "0 \<le> p" "p < 6" "space_ok (sps p)"
    "task_space (get_page_directory_for_pid lay p) (get_base_page_table_for_pid lay p) (sps p) s"
    using pid_set_bounds assms(3) by (auto simp: spaces_ok_def)
  then show ?thesis
    using mmu_space(2) [OF layout_tables [OF assms(1)] _ _ assms(5,6)] assms(4) by (simp add: active_def)
qed

lemma same_image_whole:
  assumes "same_image s t" "mounted s" "inode_wf s ino"
  shows "file_bytes t ino 0 (unat (inode_length s ino)) = file_bytes s ino 0 (unat (inode_length s ino))"
  using same_image_wf(4) [OF assms, of 0 "unat (inode_length s ino)"] by simp

lemma kernel_identity:
  assumes "layout_ok lay" "running s p" "spaces_ok lay sps s" "active lay p s" "kernel_area a n"
  shows "identity_on s a n"
  using active_identity [OF assms(1-4)] kernel_area_index [OF assms(5)] assms(5)
  by (auto simp: identity_on_def kernel_area_def)

subsection \<open>The concrete kernel with paging\<close>

definition demo :: kernel where
  "demo = set_new_page_directory (get_page_directory_for_pid demo_layout 0)
     (setup_task_paging (get_page_directory_for_pid demo_layout 0) (get_base_page_table_for_pid demo_layout 0)
        (block_address_for_process 0) flat_demo)"

lemma demo_sel [simp]:
  "ram demo = demo_ram" "pid_avail demo = 1" "eflags demo = 0x202" "bootblock demo = 0x500000"
  "inodes demo = 0x501000" "datablocks demo = 0x502000" "pcbs demo = (\<lambda>_. blank_pcb 0)"
  "tss_esp0 demo = kernel_stack 0" "terminal_state demo = 0"
  by (simp_all add: demo_def set_new_page_directory_def)

lemma pid_set_demo: "pid_set demo = {0}"
  using demo_pid_set by (simp add: pid_set_def)

lemma running_demo: "running demo 0"
  by (simp add: running_def pid_set_demo)

lemma procs_ok_demo: "procs_ok demo"
  using fds_ok_fresh [of "\<lambda>_. std_fd"] by (simp add: procs_ok_def pid_set_demo blank_pcb_def)

lemma active_demo: "active demo_layout 0 demo"
  by (simp add: active_def demo_def set_new_page_directory_def)

lemma spaces_demo: "spaces_ok demo_layout (\<lambda>_. fresh_space 0) demo"
proof -
  let ?pd = "get_page_directory_for_pid demo_layout 0" and ?bt = "get_base_page_table_for_pid demo_layout 0"
  have "task_space ?pd ?bt (fresh_space 0) demo"
    using setup_task_paging_space [OF layout_tables [OF demo_layout_ok] block_big_aligned [of 0], of 0 flat_demo]
      task_space_cong [of demo "setup_task_paging ?pd ?bt (block_address_for_process 0) flat_demo"]
    by (simp add: demo_def set_new_page_directory_def fresh_space_def)
  then show ?thesis
    using fresh_space_ok [of 0]
    by (simp add: spaces_ok_def pid_set_demo terminal_frame_def owner_def fresh_space_def blank_pcb_def)
qed

lemmas demo_space = demo_layout_ok running_demo spaces_demo active_demo

lemma load_demo:
  "kernel_area a n \<Longrightarrow> i < n \<Longrightarrow> load demo (a + of_nat i) = load flat_demo (a + of_nat i)"
  using kernel_identity [OF demo_space, of a n] by (simp add: identity_on_def load_def)

lemma same_image_demo: "same_image flat_demo demo"
  using load_demo [of "0x500000" 12288] by (simp add: same_image_def demo_image_size kernel_area_def)

lemma directory_demo: "directory demo = [dot_dentry, rtc_dentry, hi_dentry]"
  using same_image_directory [OF same_image_demo] demo_directory by simp

lemma Suc_five: "Suc (Suc (Suc (Suc (Suc 0)))) = 5"
  by simp

lemma demo_command: "cstr flat_demo 0x450000 [0x68, 0x69, 0x20, 0x34, 0x32]"
proof -
  have e: "(0x450000, [0x68, 0x69, 0x20, 0x34, 0x32, 0]) \<in> set demo_segments" by (simp add: demo_segments_def)
  from demo_read [OF e, of 0 5] demo_load [OF e, of 5] show ?thesis by (simp add: cstr_def Suc_five)
qed

lemma command_demo: "cstr demo 0x450000 [0x68, 0x69, 0x20, 0x34, 0x32]"
  by (rule cstr_load_cong [OF _ demo_command], rule load_demo [of _ 6]) (simp_all add: kernel_area_def)

definition demo_locals :: exec_locals where
  "demo_locals = \<lparr>commandstring = 0x7FF000, magic = 0x7FF100, entry_point_address = 0x7FF104,
     frame_esp = 0x7FF200, frame_ebp = 0x7FF300\<rparr>"

lemma available_demo: "get_available_pid demo = 1"
  by (simp add: get_available_pid_def numeral_eq_Suc)

lemma exec_memory_demo: "exec_memory demo_locals 0x450000 5 0xC48000 30 demo"
proof -
  note id = kernel_identity [OF demo_space]
  have k: "kernel_area 0x7FF000 6" "kernel_area 0x7FF100 4" "kernel_area 0x7FF104 4" "kernel_area 0xC48000 30"
    "kernel_area 0x450000 6" "kernel_area 0x500000 12288" by (simp_all add: kernel_area_def)
  have sz: "image_size demo = 12288" using same_image_place(2) [OF same_image_demo] demo_image_size by simp
  show ?thesis
    unfolding exec_memory_def sz
    using id [OF k(1)] id [OF k(2)] id [OF k(3)] id [OF k(4)] id [OF k(5)] id [OF k(6)]
    by (simp add: demo_locals_def spread_identity apart_identity)
qed

definition demo_cmd :: "u8 list" where
  "demo_cmd = [0x68, 0x69, 0x20, 0x34, 0x32]"

lemma demo_cmd_parts: "cmd_name demo_cmd = [0x68, 0x69]" "cmd_args demo_cmd = [0x34, 0x32]" "length demo_cmd = 5"
  "demo_cmd \<noteq> []"
  by (simp_all add: cmd_name_def cmd_args_def demo_cmd_def)

lemma demo_lookup:
  "find (\<lambda>d. dentry_name d = take 32 (cmd_name demo_cmd)) (directory demo) = Some hi_dentry"
  unfolding demo_cmd_parts directory_demo by (simp add: dentry_name_def dot_dentry_def rtc_dentry_def hi_dentry_def)

lemma hi_inode [simp]: "inode hi_dentry = 0"
  by (simp add: hi_dentry_def)

lemma demo_program: "mounted demo" "length (directory demo) \<le> 63" "executable demo hi_dentry"
  "unat (inode_length demo 0) = 30" "file_bytes demo 0 0 30 = hi_file" "entry_word demo 0 = 0x08048000"
  "prog_area 1 = 0xC48000"
  using same_image_wf [OF same_image_demo demo_mounted demo_inode_wf] demo_counts(4)
    same_image_executable [OF same_image_demo demo_mounted demo_executable] demo_entry
    same_image_wf(4) [OF same_image_demo demo_mounted demo_inode_wf, of 0 30] demo_file [of 0 30]
  by (simp_all add: directory_demo hi_file_def prog_area_def block_address_for_process_def)

lemma demo_exec: "cstr demo 0x450000 demo_cmd" "exec_memory demo_locals 0x450000 (length demo_cmd) (prog_area 1) 30 demo"
  using command_demo exec_memory_demo by (simp_all add: demo_cmd_parts demo_program demo_cmd_def Suc_five)

lemma demo_starts: "\<exists>t. execute demo_layout demo_locals 0x450000 demo = Some (To_user 0x08048000 0x3206 0x08400000, t)"
proof -
  obtain u where "internal_execute demo_layout demo_locals 0x450000 0 demo = Some (start_process demo_layout
      demo_locals 0 (eflags demo) (current_pcb demo) 1 0 (split_arg (commandstring demo_locals) demo_cmd) 0x08048000 u)"
    by (rule execute_program [OF running_demo available_demo [symmetric] _ demo_program(1,2) demo_exec(1) _ _ demo_lookup demo_program(3) demo_exec(2), where lay = demo_layout and flags = 0])
       (simp_all add: demo_cmd_parts demo_program)
  moreover have "current_pcb demo \<noteq> pcb_address 1" by (simp add: current_pcb_def kernel_stack_def pcb_address_def)
  moreover obtain fl t where st: "start_process demo_layout demo_locals 0 (eflags demo) (current_pcb demo) 1 0
      (split_arg (commandstring demo_locals) demo_cmd) 0x08048000 u = (fl, t)" by fastforce
  ultimately show ?thesis
    using start_process_sel(1) [OF st _ _ _ refl refl] by (auto simp: execute_def)
qed

section \<open>The theorems\<close>

text \<open>
  C1: \<^verbatim>\<open>execute\<close> of a command that names an ELF file of the image starts it: the
  processor leaves for the entry point stored in the file, with a stack at the top of the 4 MB
  user page; the new process is the smallest free one; user code finds the whole file, byte
  for byte, at 0x08048000; and the argument pointer of its PCB leads to the text after the first
  space of the command.
\<close>

theorem execute_loads_program:
  fixes s :: "'a kernel_scheme"
  assumes lay: "layout_ok lay" and run: "running s p" "spaces_ok lay sps s" "active lay p s"
    and n: "n = get_available_pid s" "n \<noteq> FAILURE"
    and s: "mounted s" "length (directory s) \<le> 63"
    and cmd: "cstr s command bs" "bs \<noteq> []" "length bs < 128"
    and d: "find (\<lambda>d. dentry_name d = take 32 (cmd_name bs)) (directory s) = Some d" "executable s d"
    and len: "len = unat (inode_length s (inode d))" "len \<le> 0x3B8000"
    and mem: "exec_memory fr command (length bs) (prog_area n) len s"
    and buf: "kernel_area (commandstring fr) (Suc (length bs))"
  shows "\<exists>t. execute lay fr command s = Some (To_user (entry_word s (inode d)) 0x3206 0x08400000, t) \<and>
     running t n \<and> pid_set t = insert n (pid_set s) \<and>
     (\<forall>i<len. load t (0x08048000 + of_nat i) = file_bytes s (inode d) 0 len ! i) \<and>
     cstr t (args (pcbs t (pcb_address n))) (cmd_args bs)"
proof -
  let ?cs = "commandstring fr" and ?ino = "inode d" and ?arg = "split_arg (commandstring fr) bs"
  obtain u where m: "mem_only (cli s) u" and im: "same_image s u" and ar: "cstr u ?arg (cmd_args bs)"
    and ie: "internal_execute lay fr command 0 s = Some (start_process lay fr 0 (eflags s) (current_pcb s) n
       ?ino ?arg (entry_word s ?ino) u)" and "\<forall>q. q \<notin> local_frames fr s \<longrightarrow> ram u q = ram s q"
    by (rule execute_program [OF run(1) n s cmd d mem])
  note mf = mem_only_fields [OF m] and pl = same_image_place [OF im] and f = exec_memory_facts [OF mem]
  have wf: "inode_wf s ?ino" using d(2) by (simp add: executable_def)
  note w = same_image_wf [OF im s(1) wf]
  obtain fl t where st: "start_process lay fr 0 (eflags s) (current_pcb s) n ?ino ?arg (entry_word s ?ino) u = (fl, t)"
    by fastforce
  have fresh: "n \<in> {0..<6} - pid_set s" using bitmap.pick_fresh [of s] bitmap.pick_fail [of s] n by blast
  then have nb: "0 \<le> n" "n < 6" "n \<notin> pid_set s" by auto
  have p: "p \<in> pid_set s" "current_pcb s = pcb_address p" using run(1) running_pcb by (auto simp: running_def)
  have "p \<noteq> n" using p(1) nb(3) by blast
  then have ne: "current_pcb s \<noteq> pcb_address n"
    using pcb_address_inject [of p n] pid_set_bounds [OF p(1)] nb p(2) by simp
  note sel = start_process_sel [OF st nb(1,2) ne refl refl]
  have x: "\<forall>va. 0 < unat (drop_bit 22 va) \<longrightarrow> unat (drop_bit 22 va) < 8 \<longrightarrow> xlat u va = va"
    using active_identity [OF lay run] mf(8) by simp
  have mem1: "spread u (prog_area n) len" "apart u (prog_area n) len (bootblock u) (image_size u)"
    "apart u (prog_area n) len ?cs (Suc (length bs))"
    using f(8,9,12) by (simp_all add: spread_xlat [OF mf(8)] apart_xlat [OF mf(8)] pl)
  have il: "unat (inode_length u ?ino) = len" using w(3) len(1) by simp
  note pm = start_process_memory [OF st nb(1,2) ne lay x w(2,1) il len(2) mem1(1,2)]
  have fb: "file_bytes u ?ino 0 len = file_bytes s ?ino 0 len"
    unfolding len(1) by (rule same_image_whole [OF im s(1) wf])
  have ps: "pid_set t = insert n (pid_set s)"
    using pid_set_cong [OF sel(3)] pid_set_mark_used [of n u] nb pid_set_cong [OF mf(2)] by auto
  have "args (pcbs t (pcb_address n)) = ?arg" using sel(2) ne by simp
  moreover have "cstr t ?arg (cmd_args bs)"
  proof (rule cstr_load_cong [OF _ ar])
    fix i assume i: "i \<le> length (cmd_args bs)"
    have e: "?arg + of_nat i = ?cs + of_nat (length bs - length (cmd_args bs) + i)"
      by (simp add: split_arg_bounds(1) add.assoc)
    show "load t (?arg + of_nat i) = load u (?arg + of_nat i)"
      unfolding e by (rule pm(2) [OF buf mem1(3)]) (use i split_arg_bounds(2) [of bs] in simp)
  qed
  ultimately have "execute lay fr command s = Some (To_user (entry_word s ?ino) 0x3206 0x08400000, t) \<and>
     running t n \<and> pid_set t = insert n (pid_set s) \<and>
     (\<forall>i<len. load t (0x08048000 + of_nat i) = file_bytes s ?ino 0 len ! i) \<and>
     cstr t (args (pcbs t (pcb_address n))) (cmd_args bs)"
    using ie st sel(1,6) ps pm(1) by (simp add: execute_def running_def fb)
  then show ?thesis by blast
qed

theorem execute_loads_program_witness:
  "\<exists>t. execute demo_layout demo_locals 0x450000 demo = Some (To_user 0x08048000 0x3206 0x08400000, t) \<and>
     running t 1 \<and> pid_set t = {0, 1} \<and> (\<forall>i<30. load t (0x08048000 + of_nat i) = hi_file ! i) \<and>
     cstr t (args (pcbs t (pcb_address 1))) [0x34, 0x32]"
  using execute_loads_program [OF demo_space available_demo [symmetric] _ demo_program(1,2) demo_exec(1) _ _
      demo_lookup demo_program(3) _ _ demo_exec(2)]
  by (simp add: pid_set_demo demo_program demo_cmd_parts insert_commute demo_locals_def kernel_area_def)

text \<open>
  C2: A program that \<^verbatim>\<open>execute\<close> started and that calls \<^verbatim>\<open>halt\<close> with a status
  gives its parent that status, as an unsigned byte, as the result of \<^verbatim>\<open>execute\<close>: the
  parent is the running process again, in its own address space and with the interrupt flag it had,
  the child's slot is free, and the parent's terminal again belongs to the parent.
\<close>

theorem execute_halt_roundtrip:
  assumes "procs_ok s" "running s p" "execute lay fr command s = Some (To_user e f x, t)"
    and "n = get_available_pid s" "kept t u n p (frame_ebp fr)"
    and "halt lay fr2 sh status u = Some (fl, v)"
  shows "fl = Return (uint status) \<and> running v p \<and> pid_set v = pid_set u - {n} \<and>
    cr3 v = get_page_directory_for_pid lay p \<and> active lay p v \<and> eflags v = eflags s \<and>
    t_pid (terminals v (unat (owned_by_terminal (pcbs s (pcb_address p))))) = of_int p"
proof -
  note k = execute_kept [OF assms(1,2) assms(3) [unfolded execute_def] assms(4,5)]
  let ?u = "(cli u)\<lparr>tss_esp0 := kernel_stack p\<rparr>"
  have "p \<in> pid_set u" using assms(5) by (simp add: kept_def)
  then have pu: "p \<in> pid_set ?u" by (simp add: pid_set_def cli_def)
  have "leave_process lay (pcb_address n) (pcb_address p) (ucast status) ?u = (fl, v)"
    using assms(6) k(4,6-8) by (simp add: halt_def Let_def current_pcb_def cli_def)
  note l = leave_process_sel [OF this _ pu k(1-3)]
  have "unat status < 2147483648" by (rule less_le_trans [OF unsigned_less]) simp
  then have "sint (ucast status :: u32) = uint status" using sint_of_nat_u32 [of "unat status"] by simp
  moreover have "pid_set ?u = pid_set u" by (simp add: pid_set_def cli_def)
  ultimately show ?thesis
    using l k(5,9,10) by (simp add: cli_def active_def)
qed

theorem execute_halt_roundtrip_witness:
  "\<exists>t v. execute demo_layout demo_locals 0x450000 demo = Some (To_user 0x08048000 0x3206 0x08400000, t) \<and>
     halt demo_layout demo_locals 0x450000 255 t = Some (Return 255, v) \<and> running v 0 \<and> pid_set v = {0} \<and>
     active demo_layout 0 v \<and> eflags v = 0x202"
proof -
  obtain t where ex: "execute demo_layout demo_locals 0x450000 demo = Some (To_user 0x08048000 0x3206 0x08400000, t)"
    using demo_starts by blast
  note ok = execute_procs_ok [OF procs_ok_demo running_demo _ ex [unfolded execute_def], unfolded available_demo]
  have k: "kept t t 1 0 (frame_ebp demo_locals)"
    using ok by (simp add: kept_def pid_set_demo)
  note ek = execute_kept [OF procs_ok_demo running_demo ex [unfolded execute_def] available_demo [symmetric] k]
  have "\<exists>r. halt demo_layout demo_locals 0x450000 255 t = Some r"
    using ek(4,8) by (simp add: halt_def Let_def current_pcb_def cli_def)
  then obtain fl v where h: "halt demo_layout demo_locals 0x450000 255 t = Some (fl, v)" by auto
  show ?thesis
    using execute_halt_roundtrip [OF procs_ok_demo running_demo ex available_demo [symmetric] k h] ex h ok
    by (auto simp: pid_set_demo)
qed

end
