(* ===== verification/Console_Properties.thy ===== *)
theory Console_Properties
  imports Keyboard Launch
begin

text \<open>
  What the user of a terminal sees: lines typed at the keyboard reach the program that reads,
  and text a program writes reaches the screen.
\<close>

section \<open>A keyboard to try things on\<close>

definition kbd_demo :: kbd where
  "kbd_demo = kernel.extend (init_scancode_table demo) (kbd.fields 7)"

lemma demo_console [simp]:
  "terminals demo = (\<lambda>_. blank_terminal)" "terminal_being_serviced demo = 0" "keyboard_state demo = 0"
  "scancode_table demo = (\<lambda>_. \<lparr>result = 0, scflags = 0\<rparr>)" "screen_x demo = 0" "screen_y demo = 0"
  "curr_attribute demo = 7" "terminals_launched demo = 1"
proof -
  obtain m where eq: "demo = set_new_page_directory (get_page_directory_for_pid demo_layout 0) (flat_demo\<lparr>ptmem := m\<rparr>)"
    using setup_task_paging_ptmem unfolding demo_def by metis
  show "terminals demo = (\<lambda>_. blank_terminal)" "terminal_being_serviced demo = 0" "keyboard_state demo = 0"
    "scancode_table demo = (\<lambda>_. \<lparr>result = 0, scflags = 0\<rparr>)" "screen_x demo = 0" "screen_y demo = 0"
    "curr_attribute demo = 7" "terminals_launched demo = 1"
    unfolding eq by (simp_all add: set_new_page_directory_def flat_demo_def)
qed

lemma kbd_demo_sel [simp]:
  "terminals kbd_demo = (\<lambda>_. blank_terminal)" "terminal_state kbd_demo = 0" "terminal_being_serviced kbd_demo = 0"
  "keyboard_state kbd_demo = 0" "ptmem kbd_demo = ptmem demo" "xlat kbd_demo = xlat demo"
  "scancode_table kbd_demo = scancode_table (init_scancode_table demo)"
proof -
  show "scancode_table kbd_demo = scancode_table (init_scancode_table demo)"
    by (simp add: kbd_demo_def kernel.defs)
qed (simp_all add: kbd_demo_def kernel.defs init_scancode_table_def)

lemma kbd_demo_keys: "keys_ok kbd_demo"
  using init_keys_ok [of demo] by (simp add: keys_ok_def)

lemma demo_scancodes: "scancode_of 0x23 = Some (0x68, 6)" "scancode_of 0x17 = Some (0x69, 6)"
  "scancode_of 0x1C = Some (0x0A, 2)" "scancode_of 0x0E = Some (0, 0)" "scancode_of 0x8E = Some (0, 1)"
  by code_simp+

lemma demo_table: "scancode_table kbd_demo 0x23 = \<lparr>result = 0x68, scflags = 6\<rparr>"
  "scancode_table kbd_demo 0x17 = \<lparr>result = 0x69, scflags = 6\<rparr>"
  "scancode_table kbd_demo 0x1C = \<lparr>result = 0x0A, scflags = 2\<rparr>"
  "scancode_table kbd_demo 0x0E = \<lparr>result = 0, scflags = 0\<rparr>"
  "scancode_table kbd_demo 0x8E = \<lparr>result = 0, scflags = 1\<rparr>"
  by (simp_all add: table_entry demo_scancodes)

lemmas key_evals = live_key_def modifier_keys_def ALT_ON_def CONTROL_ON_def BACKSPACE_ON_def SHIFT_ON_def
  R_SHIFT_ON_def CAPS_LOCK_ON_def IS_MAKE_SC_def IS_PRINTABLE_SC_def IS_LETTER_SC_def is_enter_def
  edit_line_def erased_def typed_text_def key_char_def keys_of_def

text \<open>h, i, i, backspace pressed and released, i.\<close>

definition demo_codes :: "u8 list" where
  "demo_codes = [0x23, 0x17, 0x17, 0x0E, 0x8E]"

lemma demo_typing:
  "quiet_all (keys_of kbd_demo) demo_codes (0, [])"
  "fold (key_step (keys_of kbd_demo)) demo_codes (0, []) = (0, [0x68, 0x69])"
  by (simp_all add: demo_codes_def key_evals demo_table Let_def del: kbd_demo_sel)

section \<open>From the keyboard to the program\<close>



section \<open>From the program to the screen\<close>

lemma print_ready_demo: "print_ready (\<lambda>c. 0x7FE000 + ucast c) 0 flat_demo"
proof -
  have id: "unat a + n \<le> 4294967296 \<Longrightarrow> identity_on flat_demo a n" for a n by (simp add: identity_on_def)
  have "conv_ready (\<lambda>c. 0x7FE000 + ucast c) flat_demo"
    unfolding conv_ready_def by (auto intro!: spread_identity apart_identity id)
  moreover have "video_mapped flat_demo" unfolding video_mapped_def by (rule spread_identity) (simp add: identity_on_def)
  ultimately show ?thesis by (simp add: print_ready_def cursor_of_def cursor_ok_def blank_terminal_def)
qed

text \<open>
  C10: \<^verbatim>\<open>printf_t\<close> ends and prints the format with its conversions replaced (the specification
  \<open>render\<close>: \<^verbatim>\<open>%x\<close>, \<^verbatim>\<open>%#x\<close>, \<^verbatim>\<open>%u\<close>,
  \<^verbatim>\<open>%d\<close>, \<^verbatim>\<open>%c\<close>, \<^verbatim>\<open>%s\<close>, \<^verbatim>\<open>%%\<close>) on the
  terminal of the running process, wherever its cursor stands, writes no memory but the screen and
  the conversion buffers, leaves the cursors of the other terminals alone, and returns the length
  of the format.
\<close>

theorem printf_t_renders:
  fixes s :: "'a kernel_scheme"
  assumes "print_ready cb cur s" "args_ok cb s stk a" "0 \<notin> set fs" "complete fs"
  shows "\<exists>t. printf_t cb (at_text fs) stk s = Some (int (length fs), t) \<and> prints cb cur (render a 0 fs) s t"
  using printf_t_loop(1) [OF assms(3,2), of "[]" fs cur "[]" s 0] prints_refl [OF assms(1)] assms(4)
  by (simp add: printf_t_def)

theorem printf_t_renders_witness:
  "\<exists>t. printf_t (\<lambda>c. 0x7FE000 + ucast c) (at_text (bytes_of ''n=%d'')) (\<lambda>_. Slot 12 (at_text [])) flat_demo = Some (4, t) \<and>
     term_vt 0 t = fold vt_putc (bytes_of ''n=12'') (term_vt 0 flat_demo)"
proof -
  let ?cb = "\<lambda>c. 0x7FE000 + ucast c"
  have a: "args_ok ?cb flat_demo (\<lambda>_. Slot 12 (at_text [])) (\<lambda>_. (12, []))"
    by (simp add: args_ok_def at_text_def)
  have "render (\<lambda>_. (12, [])) 0 (bytes_of ''n=%d'') = bytes_of ''n=12''" by code_simp
  then show ?thesis
    using printf_t_renders [OF print_ready_demo a, of "bytes_of ''n=%d''"]
    by (auto simp: prints_def bytes_of_def)
qed


text \<open>
  C11: \<^verbatim>\<open>write_terminal\<close> behaves as a text terminal: it returns the number of bytes it
  was given, and the screen and the cursor of the calling process's terminal are those of the
  specification \<open>vt_putc\<close> (line wrap, newline, backspace, scrolling) after the characters of the
  buffer up to a NUL; the cursors of the other terminals, the flags and all memory outside the
  screen are as before.
\<close>

theorem write_terminal_shows:
  fixes s :: "'a kernel_scheme"
  assumes "0 \<le> nbytes" "nbytes < 2147483648" "cur = unat (terminal_being_serviced s)"
    and "cursor_ok (cursor_of cur s)" "video_mapped s" "apart s buf (nat nbytes) VIDEO 4000"
    and "write_terminal STDOUT buf nbytes s = (r, t)"
  shows "r = nbytes \<and> term_vt cur t = fold vt_putc (field_text s buf (nat nbytes)) (term_vt cur s) \<and>
    cursor_ok (cursor_of cur t) \<and> (\<forall>i. i \<noteq> cur \<longrightarrow> cursor_of i t = cursor_of i s) \<and>
    eflags t = eflags s \<and> xlat t = xlat s \<and> only_window s t"
proof -
  have t: "t = snd (write_terminal STDOUT buf nbytes s)" using assms(7) by simp
  show ?thesis using write_terminal_refines [OF assms(1-6) t] assms(7) by simp
qed

lemma flat_demo_console: "video_mapped flat_demo" "cursor_ok (cursor_of 0 flat_demo)" "console_ok flat_demo"
  using print_ready_demo by (simp_all add: print_ready_def console_ok_def screen_ok_def)

theorem write_terminal_shows_witness:
  "\<exists>t. write_terminal STDOUT 0x450000 6 flat_demo = (6, t) \<and>
     term_vt 0 t = fold vt_putc [0x68, 0x69, 0x20, 0x34, 0x32] (term_vt 0 flat_demo)"
proof -
  obtain r t where w: "write_terminal STDOUT 0x450000 6 flat_demo = (r, t)" by fastforce
  have "identity_on flat_demo a n" if "unat a + n \<le> 4294967296" for a n using that by (simp add: identity_on_def)
  then have ap: "apart flat_demo 0x450000 (nat 6) 0xB8000 4000" by (intro apart_identity) simp_all
  have e: "(0x450000, [0x68, 0x69, 0x20, 0x34, 0x32, 0]) \<in> set demo_segments" by (simp add: demo_segments_def)
  have "read_bytes flat_demo 0x450000 6 = [0x68, 0x69, 0x20, 0x34, 0x32, 0]" using demo_read [OF e, of 0 6] by simp
  then have "field_text flat_demo 0x450000 6 = [0x68, 0x69, 0x20, 0x34, 0x32]" by (simp add: field_text_def)
  then show ?thesis
    using write_terminal_shows [OF _ _ _ flat_demo_console(2,1) ap w] w by simp
qed

text \<open>
  \<^verbatim>\<open>clear\<close> blanks the whole screen: all 2000 cells are spaces in the current colour, and
  nothing outside the screen changes.
\<close>

theorem clear_blanks:
  assumes "video_mapped s"
  shows "read_bytes (clear s) VIDEO 4000 = concat (replicate 2000 [EMPTY_SPACE, of_int (curr_attribute s)]) \<and>
    only_window s (clear s) \<and> console.more (clear s) = console.more s"
  using clear_cells [OF assms] only_window_clear [of s] by (simp add: blank_cells_def)

theorem clear_blanks_witness:
  "read_bytes (clear flat_demo) VIDEO 4000 = concat (replicate 2000 [EMPTY_SPACE, 7])"
proof -
  have "of_int (curr_attribute flat_demo) = (7 :: u8)" by (simp add: flat_demo_def)
  then show ?thesis using clear_blanks [OF flat_demo_console(1)] by simp
qed


end
