(* ===== verification/Scheduling_Properties.thy ===== *)
theory Scheduling_Properties
  imports Scheduler Launch
begin

text \<open>
  Time sharing: who runs next, that a process resumes where it was interrupted, and that every
  launched terminal has its turn.
\<close>

section \<open>Two processes\<close>

definition two_demo :: kernel where
  "two_demo = flat_demo\<lparr>pid_avail := 3, terminals_launched := 3,
     terminals := (\<lambda>_. blank_terminal)(1 := blank_terminal\<lparr>t_pid := 1\<rparr>),
     pcbs := (pcbs flat_demo)(pcb_address 1 := (blank_pcb 1)\<lparr>pcb_eip := 0x401000, esp_k := 0x7FDF00, ebp_k := 0x7FDF80, pcb_eflags := 0x206\<rparr>)\<rparr>"

definition demo_switch :: switch_locals where
  "demo_switch = \<lparr>sw_label = 0x402000, sw_esp = 0x7FFE00, sw_ebp = 0x7FFE80\<rparr>"

lemma two_demo_sel [simp]:
  "terminal_being_serviced two_demo = 0" "terminals_launched two_demo = 3" "tss_esp0 two_demo = kernel_stack 0"
  "terminals two_demo = (\<lambda>_. blank_terminal)(1 := blank_terminal\<lparr>t_pid := 1\<rparr>)" "eflags two_demo = 0x202"
  "pcbs two_demo (pcb_address 1) = (blank_pcb 1)\<lparr>pcb_eip := 0x401000, esp_k := 0x7FDF00, ebp_k := 0x7FDF80, pcb_eflags := 0x206\<rparr>"
  "bit (terminals_launched two_demo) 0" "bit (terminals_launched two_demo) (Suc 0)"
  by (simp_all add: two_demo_def)

lemma two_demo_pids: "pid_set two_demo = {0, 1}"
proof -
  have b: "bit (3 :: u32) n \<longleftrightarrow> n = 0 \<or> n = 1" for n by (cases n) (auto simp: bit_Suc bit_1_iff)
  have "pid_avail two_demo = 3" by (simp add: two_demo_def)
  then have "pid_set two_demo = {p. 0 \<le> p \<and> p < 6 \<and> (nat p = 0 \<or> nat p = 1)}" unfolding pid_set_def by (simp only: b of_nat_numeral)
  also have "\<dots> = {0, 1}" by auto
  finally show ?thesis .
qed

lemma two_demo_running: "running two_demo 0"
  by (simp add: running_def two_demo_pids)

lemma two_demo_next: "next_terminal 3 0 = 1"
  by (simp add: next_terminal_def)

section \<open>The next process\<close>

text \<open>
  C6: When more than the first terminal has been launched, the timer makes the process of the
  next launched terminal run (cyclically after the one being serviced): the processor goes on at
  the instruction, stack, flags and page directory of that process; the interrupted process
  has its context saved, and no other control block changes.
\<close>

theorem scheduler_switches:
  assumes "c = unat (terminal_being_serviced s)" "c < 3" "terminals_launched s \<noteq> 1" "bit (terminals_launched s) c"
    and "n = next_terminal (terminals_launched s) c" "q = sint (t_pid (terminals s n))"
    and "running s p" "q \<in> pid_set s" "q \<noteq> p" "round_robin_scheduler lay sw s = (r, t)"
  shows "unat (terminal_being_serviced t) = n \<and> running t q \<and> active lay q t \<and>
    r = Jump (pcb_eip (pcbs s (pcb_address q))) (esp_k (pcbs s (pcb_address q))) (ebp_k (pcbs s (pcb_address q))) \<and>
    eflags t = pcb_eflags (pcbs s (pcb_address q)) \<and>
    pcbs t (pcb_address p) = saved_context sw s (pcbs s (pcb_address p)) \<and>
    (\<forall>a. a \<noteq> pcb_address p \<longrightarrow> pcbs t a = pcbs s a)"
proof -
  let ?s = "s\<lparr>terminal_being_serviced := of_nat n\<rparr>"
  have sw: "save_and_switch_process_context lay sw q ?s = (r, t)"
    using round_robin_switches [OF assms(1-5), of lay sw] assms(6,10) by simp
  have "0 \<le> p" "p < 6" "0 \<le> q" "q < 6" using assms(7,8) pid_set_bounds by (auto simp: running_def)
  then have cur: "current_pcb ?s = pcb_address p" and ne: "pcb_address q \<noteq> pcb_address p"
    using assms(7,9) pcb_address_inject kernel_stack_pcb by (simp_all add: running_def current_pcb_def)
  note e = context_switch_eq [OF sw refl, unfolded cur if_not_P [OF ne]]
  have "n < 3" using next_terminal_launched [OF assms(2,4)] assms(5) by simp
  moreover have "pid_set t = pid_set s" by (rule pid_set_cong) (use e(9) in simp)
  ultimately show ?thesis
    using e ne assms(8) by (simp add: running_def active_def unat_terminal saved_context_def)
qed

theorem scheduler_switches_witness:
  "\<exists>t. round_robin_scheduler demo_layout demo_switch two_demo = (Jump 0x401000 0x7FDF00 0x7FDF80, t) \<and>
     running t 1 \<and> eflags t = 0x206 \<and> pcb_eip (pcbs t (pcb_address 0)) = 0x402000"
proof -
  obtain r t where r: "round_robin_scheduler demo_layout demo_switch two_demo = (r, t)" by fastforce
  show ?thesis
    using scheduler_switches [OF _ _ _ _ _ _ two_demo_running _ _ r] r
    by (simp add: two_demo_next two_demo_pids saved_context_def demo_switch_def)
qed

text \<open>
  C7: A process that is switched away from and later switched back to goes on at the label after
  the switch with the stack and base pointers and the flags it had, in its own address space,
  whatever happened in between, provided its control block was kept.
\<close>

theorem switch_roundtrip:
  assumes "running s p" "0 \<le> q" "q < 6" "q \<noteq> p" "save_and_switch_process_context lay sw q s = (r, t)"
    and "running u q" "p \<in> pid_set u" "pcbs u (pcb_address p) = pcbs t (pcb_address p)"
    and "save_and_switch_process_context lay sw' p u = (r', v)"
  shows "r' = Jump (sw_label sw) (sw_esp sw + 4) (sw_ebp sw) \<and> eflags v = eflags s \<and> running v p \<and> active lay p v \<and>
    fd_array (pcbs v (pcb_address p)) = fd_array (pcbs s (pcb_address p)) \<and>
    parentPCB (pcbs v (pcb_address p)) = parentPCB (pcbs s (pcb_address p))"
proof -
  have "0 \<le> p" "p < 6" using assms(1) pid_set_bounds by (auto simp: running_def)
  then have cur: "current_pcb s = pcb_address p" "current_pcb u = pcb_address q" and ne: "pcb_address p \<noteq> pcb_address q"
    using assms(1-4,6) pcb_address_inject kernel_stack_pcb by (auto simp: running_def current_pcb_def)
  note t = context_switch_eq [OF assms(5) refl, unfolded cur] and v = context_switch_eq [OF assms(9) refl, unfolded cur if_not_P [OF ne]]
  have "pid_set v = pid_set u" by (rule pid_set_cong) (rule v(9))
  then show ?thesis
    using t(3) v ne assms(7,8) by (simp add: saved_context_def running_def active_def)
qed

theorem switch_roundtrip_witness:
  "\<exists>r t r' v. save_and_switch_process_context demo_layout demo_switch 1 two_demo = (r, t) \<and>
     save_and_switch_process_context demo_layout demo_switch 0 t = (r', v) \<and>
     r' = Jump 0x402000 0x7FFE04 0x7FFE80 \<and> eflags v = 0x202 \<and> running v 0"
proof -
  obtain r t where r: "save_and_switch_process_context demo_layout demo_switch 1 two_demo = (r, t)" by fastforce
  obtain r' v where v: "save_and_switch_process_context demo_layout demo_switch 0 t = (r', v)" by fastforce
  have "pid_set t = {0, 1}" using pid_set_cong [OF context_switch_eq(9) [OF r refl]] two_demo_pids by simp
  then have "running t 1" "0 \<in> pid_set t" using context_switch_eq(4) [OF r refl] by (simp_all add: running_def)
  then show ?thesis
    using switch_roundtrip [OF two_demo_running _ _ _ r _ _ refl v] r v by (simp add: demo_switch_def)
qed

text \<open>
  C8: Whatever the processes do between the ticks of the timer, every launched terminal is the
  one being serviced after at most three ticks.
\<close>

theorem scheduler_fair:
  assumes "c = unat (terminal_being_serviced s)" "c < 3" "terminals_launched s \<noteq> 1" "bit (terminals_launched s) c"
    and "i < 3" "bit (terminals_launched s) i"
    and "\<forall>k u. terminal_being_serviced (env k u) = terminal_being_serviced u \<and> terminals_launched (env k u) = terminals_launched u"
  shows "\<exists>k. 1 \<le> k \<and> k \<le> 3 \<and>
    unat (terminal_being_serviced (after (\<lambda>j u. snd (round_robin_scheduler lay (sw j) (env j u))) 0 k s)) = i"
proof -
  let ?l = "terminals_launched s" and ?tick = "\<lambda>j u. snd (round_robin_scheduler lay (sw j) (env j u))"
  have tick: "terminals_launched (?tick j u) = ?l \<and> unat (terminal_being_serviced (?tick j u)) = next_terminal ?l d"
    if "terminals_launched u = ?l" "unat (terminal_being_serviced u) = d" "d < 3" "bit ?l d" for j u d
  proof -
    obtain r t where sw: "save_and_switch_process_context lay (sw j) (sint (t_pid (terminals (env j u) (next_terminal ?l d))))
        ((env j u)\<lparr>terminal_being_serviced := of_nat (next_terminal ?l d)\<rparr>) = (r, t)" by fastforce
    then have "?tick j u = t"
      using round_robin_switches [of d "env j u" "next_terminal ?l d" lay "sw j"] that assms(3,7) by simp
    then show ?thesis
      using context_switch_eq(12,13) [OF sw refl] that assms(7) next_terminal_launched [OF that(3,4)] by (simp add: unat_terminal)
  qed
  have "terminals_launched (after ?tick j n u) = ?l \<and> unat (terminal_being_serviced (after ?tick j n u)) = (next_terminal ?l ^^ n) d"
    if "terminals_launched u = ?l" "unat (terminal_being_serviced u) = d" "d < 3" "bit ?l d" for j n u d
    using that
  proof (induction n arbitrary: j u d)
    case (Suc n)
    show ?case
      using Suc.IH [of "?tick j u" "next_terminal ?l d" "Suc j"] tick [OF Suc.prems, of j]
        next_terminal_launched [OF Suc.prems(3,4)] by (simp add: funpow_swap1)
  qed simp
  note iter = this [of s c 0, OF refl assms(1) [symmetric] assms(2,4)]
  obtain k where "1 \<le> k" "k \<le> 3" "(next_terminal ?l ^^ k) c = i" using next_terminal_fair [OF assms(2,4-6)] by blast
  then show ?thesis using iter [of k] by (intro exI [of _ k]) simp
qed

theorem scheduler_fair_witness:
  "\<exists>k. 1 \<le> k \<and> k \<le> 3 \<and>
    unat (terminal_being_serviced (after (\<lambda>j u. snd (round_robin_scheduler demo_layout demo_switch u)) 0 k two_demo)) = 1"
  using scheduler_fair [of 0 two_demo 1 "\<lambda>_ u. u" demo_layout "\<lambda>_. demo_switch"] by simp

end
