(* ===== verification/Interrupt_Properties.thy ===== *)
theory Interrupt_Properties
  imports Interrupts Launch
begin

text \<open>
  What interrupts do to the running program: an exception ends it, a device leaves it alone, and
  the clock wakes who waits for it.
\<close>

text \<open>
  C9: A program that \<^verbatim>\<open>execute\<close> started and that causes an exception, whichever of
  the nineteen handlers runs, is ended: the message is printed, and \<^verbatim>\<open>execute\<close> returns
  256 to the parent, which runs again in its own address space with the flags it had; the
  slot of the program is free.
\<close>

theorem exception_ends_program:
  fixes s :: "'a kernel_scheme"
  assumes "procs_ok s" "running s p" "execute lay fr command s = Some (To_user e f x, t)"
    and "n = get_available_pid s" "kept t u n p (frame_ebp fr)" "h \<in> set (exception_subs lay cb)"
  shows "\<exists>v. h u = Some (Return 256, v) \<and> running v p \<and> pid_set v = pid_set u - {n} \<and> active lay p v \<and> eflags v = eflags s"
proof -
  obtain msg where m: "plain (bytes_of msg)" "h = report_and_halt lay cb msg"
    using exception_subs_report [OF assms(6)] by blast
  obtain w where w: "h u = Some (halt_excep lay 256 w)" "same_procs u w"
    using report_and_halt_eq [OF m(1), of lay cb u] m(2) by auto
  have "kept t w n p (frame_ebp fr)"
    using assms(5) w(2) same_procs_running [OF w(2)] by (simp add: kept_def same_procs_def pid_set_def)
  note k = execute_kept [OF assms(1,2) assms(3) [unfolded execute_def] assms(4) this]
  let ?w = "(cli w)\<lparr>tss_esp0 := kernel_stack p\<rparr>"
  have ps: "pid_set ?w = pid_set u" using w(2) by (simp add: pid_set_def cli_def same_procs_def)
  have pu: "p \<in> pid_set ?w" using assms(5) ps by (simp add: kept_def)
  obtain fl v where v: "halt_excep lay 256 w = (fl, v)" by fastforce
  then have "leave_process lay (pcb_address n) (pcb_address p) 256 ?w = (fl, v)"
    using k(4,6,7) by (simp add: halt_excep_def Let_def current_pcb_def cli_def)
  note l = leave_process_sel [OF this _ pu k(1-3)]
  have "sint (256 :: u32) = 256" by simp
  then show ?thesis
    using l k(5,9,10) w(1) v ps by (simp add: cli_def active_def)
qed

theorem exception_ends_program_witness:
  "\<exists>t v. execute demo_layout demo_locals 0x450000 demo = Some (To_user 0x08048000 0x3206 0x08400000, t) \<and>
     exception_handler_14_sub demo_layout (\<lambda>c. 0x7FE000) t = Some (Return 256, v) \<and> running v 0 \<and> pid_set v = {0}"
proof -
  obtain t where ex: "execute demo_layout demo_locals 0x450000 demo = Some (To_user 0x08048000 0x3206 0x08400000, t)"
    using demo_starts by blast
  note ok = execute_procs_ok [OF procs_ok_demo running_demo _ ex [unfolded execute_def], unfolded available_demo]
  have k: "kept t t 1 0 (frame_ebp demo_locals)" using ok by (simp add: kept_def pid_set_demo)
  have "exception_handler_14_sub demo_layout (\<lambda>c. 0x7FE000) \<in> set (exception_subs demo_layout (\<lambda>c. 0x7FE000))"
    by (simp add: exception_subs_def)
  from exception_ends_program [OF procs_ok_demo running_demo ex available_demo [symmetric] k this] ex ok
  show ?thesis by (auto simp: pid_set_demo)
qed



text \<open>
  C32: A program waiting for the clock in \<^verbatim>\<open>read_rtc\<close> returns with 0 as soon as one of
  the interrupts that arrive is the clock's, whatever the others do.
\<close>

theorem rtc_interrupt_wakes:
  fixes s :: "'a kernel_scheme"
  assumes "env k = IRQ8_handler_sub dev"
  shows "\<exists>t. read_rtc env fd buf nbytes s = Some (0, t) \<and> rtc_flag t = 0"
proof -
  let ?busy = "\<lambda>s :: 'a kernel_scheme. rtc_flag s \<noteq> 0" and ?s = "s\<lparr>rtc_flag := 1\<rparr>"
  have clr: "rtc_flag (IRQ8_handler_sub dev u) = 0" for u :: "'a kernel_scheme"
    by (auto simp: IRQ8_handler_sub_def enter_irq_def leave_irq_def Let_def upd_pcb_def send_eoi_def outb_def inb_def)
  have "\<not> ?busy (after env 0 (Suc k) ?s)"
    using clr after_add [of env 0 k 1 ?s] assms by simp
  then obtain t where t: "spin env ?busy 0 ?s = Some t" using spin_iff [of env ?busy 0 ?s] by blast
  then have "rtc_flag t = 0" using spin_result [OF t] by blast
  then show ?thesis using t by (simp add: read_rtc_def)
qed

theorem rtc_interrupt_wakes_witness:
  "\<exists>t. read_rtc (\<lambda>k. if k = 3 then IRQ8_handler_sub (\<lambda>_ _. 0) else id) 2 0x450000 4 flat_demo = Some (0, t) \<and> rtc_flag t = 0"
  by (rule rtc_interrupt_wakes [of _ 3]) simp

end
