(* ===== verification/File_Properties.thy ===== *)
theory File_Properties
  imports Demo
begin

text \<open>What a program sees of the file system: the bytes of a file, the names of the directory.\<close>

lemma demo_areas: "unat a + n \<le> 4294967296 \<Longrightarrow> identity_on flat_demo a n"
  by (simp add: identity_on_def)

lemma demo_apart:
  "unat a + n \<le> 4294967296 \<Longrightarrow> unat b + m \<le> 4294967296 \<Longrightarrow> unat a + n \<le> unat b \<or> unat b + m \<le> unat a \<Longrightarrow>
     apart flat_demo a n b m"
  by (intro apart_identity demo_areas)

lemma demo_spread: "unat a + n \<le> 4294967296 \<Longrightarrow> spread flat_demo a n"
  by (intro spread_identity demo_areas)

section \<open>Bytes of a file\<close>

text \<open>
  C23: \<^verbatim>\<open>read_data\<close> on a well-formed index node copies exactly the bytes of the file
  from the offset on, at most \<open>len\<close> of them, across the borders of the data blocks: the
  result is their number (0 at the end of the file), the buffer has the bytes, and every frame
  outside the buffer keeps its contents.
\<close>

theorem read_data_exact:
  assumes "mounted s" "inode_wf s ino" "n = min (unat len) (unat (inode_length s ino) - unat offset)"
    and "apart s buf n (bootblock s) (image_size s)" "spread s buf n"
  shows "\<exists>t. read_data ino offset buf len s = (int n, t) \<and> read_bytes t buf n = file_bytes s ino (unat offset) n \<and>
    keeps_outside buf n s t"
proof -
  let ?t = "write_bytes buf (file_bytes s ino (unat offset) n) s"
  have "read_bytes ?t buf n = file_bytes s ino (unat offset) n"
    using read_write_same [of s buf "file_bytes s ino (unat offset) n"] assms(5) by simp
  moreover have "keeps_outside buf n s ?t"
    using keeps_outside_write [of buf "file_bytes s ino (unat offset) n" s] by simp
  ultimately show ?thesis using read_data_eq [OF assms(1-4)] by blast
qed

theorem read_data_exact_witness:
  "\<exists>t. read_data 0 24 0x450100 100 flat_demo = (6, t) \<and> read_bytes t 0x450100 6 = take 6 (drop 24 hi_file)"
  using read_data_exact [OF demo_mounted demo_inode_wf, of 6 100 24 "0x450100"] demo_file [of 24 6]
    demo_apart [of "0x450100" 6 "0x500000" 12288] demo_spread [of "0x450100" 6]
  by (auto simp: demo_counts demo_image_size)


text \<open>
  Opening a regular file gives a descriptor between 2 and 7, and reading it piece by piece
  gives the file: \<open>k\<close> reads with a buffer of \<open>c\<close> bytes, put together, are the first
  \<open>k * c\<close> bytes of the file, as far as it goes. The system call \<^verbatim>\<open>read\<close> on the descriptor
  is \<^verbatim>\<open>read_file\<close>.
\<close>

theorem open_read_file:
  fixes s :: "'a kernel_scheme"
  assumes "user_pointer name" "find (\<lambda>d. dentry_name d = field_text s name 32) (directory s) = Some d"
    and "filetype d = 2" "file_ok s (inode d)" "\<not> {2..<8} \<subseteq> in_use (fd_array (pcbs s (current_pcb s)))"
    and "user_pointer buf" "0 < c" "c < 2147483648" "apart s buf c (bootblock s) (image_size s)" "spread s buf c"
  shows "\<exists>i t. sys_open dev name s = Some (int i, t) \<and> 2 \<le> i \<and> i < 8 \<and>
    fst (read_pieces k (int i) buf (int c) t) = file_bytes s (inode d) 0 (min (k * c) (unat (inode_length s (inode d)))) \<and>
    sys_read env (int i) buf (int c) t = Some (read_file (int i) buf (int c) t)"
proof -
  let ?p = "current_pcb s"
  obtain i where i: "free_fd_from 6 2 (fd_array (pcbs s ?p)) = i" "2 \<le> i" "i < 8"
    by (rule free_fd [of "fd_array (pcbs s ?p)"]) (use assms(5) in auto)
  define t where "t = upd_fd ?p i (\<lambda>_. opened d s) s"
  have rd: "read_dentry_by_name name s = (SUCCESS, Some d)" using assms(2) by (simp add: read_dentry_by_name_eq)
  have op: "sys_open dev name s = Some (int i, t)"
    using sys_open_found [OF assms(1) rd _ i(1)] i(3) assms(3) by (simp add: fops_of_def o_func_def open_file_def t_def)
  have im: "same_image s t" unfolding t_def by (rule same_image_kernel_upd) simp
  have wf: "mounted s" "inode_wf s (inode d)" using assms(4) by (simp_all add: file_ok_def)
  note w = same_image_wf [OF im wf]
  have ok: "file_ok t (inode d)" using w(1,2) assms(4) by (simp add: file_ok_def)
  have pl: "inodes t = inodes s" "boot_inodes t = boot_inodes s" "bootblock t = bootblock s" "image_size t = image_size s"
    using im same_image_boot [OF im] by (simp_all add: same_image_def image_size_def)
  have "fd_array (pcbs t (current_pcb t)) i = opened d s" by (simp add: t_def)
  then have at: "open_at t i (inode d) 0" using assms(3) pl by (simp add: open_at_def opened_def get_inode_ptr_def)
  have ar: "apart t buf c (bootblock t) (image_size t)" "spread t buf c"
    using assms(9,10) pl apart_xlat [of t s] spread_xlat [of t s] by (simp_all add: t_def)
  have "fst (read_pieces k (int i) buf (int c) t) = file_bytes t (inode d) 0 (min (k * c) (unat (inode_length s (inode d))))"
    using read_pieces_eq [OF ok at assms(7,8) _ ar, of k] w(3) by simp
  then have "fst (read_pieces k (int i) buf (int c) t) = file_bytes s (inode d) 0 (min (k * c) (unat (inode_length s (inode d))))"
    using w(4) [of 0] by simp
  moreover have "sys_read env (int i) buf (int c) t = Some (read_file (int i) buf (int c) t)"
    using assms(3,6) i(3) by (simp add: sys_read_def Let_def t_def opened_def fops_of_def r_func_def)
  ultimately show ?thesis using op i(2,3) by blast
qed

lemma demo_path: "field_text flat_demo 0x08100000 32 = [0x68, 0x69]"
proof -
  have e: "(0x08100000, [0x68, 0x69, 0]) \<in> set demo_segments" by (simp add: demo_segments_def)
  have "load flat_demo 0x08100000 = 0x68" "load flat_demo (0x08100000 + 1) = 0x69" "load flat_demo (0x08100000 + 2) = 0"
    using demo_load [OF e, of 0] demo_load [OF e, of 1] demo_load [OF e, of 2] by simp_all
  then have "field_text flat_demo 0x08100000 (Suc (Suc (Suc 29))) = [0x68, 0x69]" by (simp only: field_text_Suc) simp
  then show ?thesis by simp
qed

lemma demo_find: "find (\<lambda>d. dentry_name d = field_text flat_demo 0x08100000 32) (directory flat_demo) = Some hi_dentry"
  unfolding demo_path demo_directory by (simp add: dentry_name_def dot_dentry_def rtc_dentry_def hi_dentry_def)

lemma demo_free: "\<not> {2..<8} \<subseteq> in_use (fd_array (pcbs flat_demo (current_pcb flat_demo)))"
proof -
  have "2 \<notin> in_use (fd_array (pcbs flat_demo (current_pcb flat_demo)))"
    by (simp add: in_use_def blank_pcb_def fresh_fds_def)
  moreover have "(2 :: nat) \<in> {2..<8}" by simp
  ultimately show ?thesis by blast
qed

theorem open_read_file_witness:
  "\<exists>i t. sys_open (\<lambda>_ _. 0) 0x08100000 flat_demo = Some (int i, t) \<and> 2 \<le> i \<and> i < 8 \<and>
    fst (read_pieces 2 (int i) 0x08200000 16 t) = hi_file"
proof -
  have d: "filetype hi_dentry = 2" "inode hi_dentry = 0" by (simp_all add: hi_dentry_def)
  have ok: "file_ok flat_demo (inode hi_dentry)" using demo_mounted demo_inode_wf d by (simp add: file_ok_def)
  have a: "apart flat_demo 0x08200000 16 0x500000 12288" "spread flat_demo 0x08200000 16"
    by (rule demo_apart, simp_all) (rule demo_spread, simp)
  have "length hi_file = 30" by (simp add: hi_file_def)
  then have "file_bytes flat_demo 0 0 30 = hi_file" using demo_file [of 0 30] by simp
  then show ?thesis
    using open_read_file [OF _ demo_find d(1) ok demo_free, of "0x08200000" 16 "\<lambda>_ _. 0" 2 "\<lambda>_ u. u"] a
    by (auto simp: user_pointer_def demo_counts d demo_image_size)
qed

section \<open>The directory\<close>

text \<open>
  Looking up a name finds the first directory entry whose name is the text at the pointer,
  cut to 32 characters, and fails exactly if there is none.
\<close>

theorem lookup_first:
  "read_dentry_by_name fname s =
     (case find (\<lambda>d. dentry_name d = field_text s fname 32) (directory s) of
        None \<Rightarrow> (FAILURE, None) | Some d \<Rightarrow> (SUCCESS, Some d))"
  by (rule read_dentry_by_name_eq)

text \<open>Reading a directory entry after entry, until a read returns nothing.\<close>

fun list_directory :: "nat \<Rightarrow> int \<Rightarrow> u32 \<Rightarrow> 'a kernel_scheme \<Rightarrow> (u8 list list \<times> 'a kernel_scheme) option" where
  "list_directory 0 fd buf s = Some ([], s)"
| "list_directory (Suc k) fd buf s =
     (case read_directory fd buf 32 s of
        None \<Rightarrow> None
      | Some (n, s) \<Rightarrow>
          if n \<le> 0 then Some ([], s)
          else map_option (\<lambda>(names, t). (read_bytes s buf (nat n) # names, t)) (list_directory k fd buf s))"

lemma list_directory_eq:
  fixes s :: "'a kernel_scheme"
  assumes "position (fd_array (pcbs s (current_pcb s)) fd) = int i" "i \<le> length (directory s)" "length (directory s) \<le> 63"
    and "\<forall>d \<in> set (directory s). dentry_name d \<noteq> []" "apart s buf 32 (bootblock s) (image_size s)" "spread s buf 32"
  shows "\<exists>t. list_directory k (int fd) buf s = Some (map dentry_name (take k (drop i (directory s))), t)"
  using assms
proof (induction k arbitrary: i s)
  case (Suc k)
  show ?case
  proof (cases "i = length (directory s)")
    case True
    then show ?thesis using read_directory_end [of s fd buf 32] Suc.prems(1) by simp
  next
    case False
    then have i: "i < length (directory s)" using Suc.prems(2) by simp
    let ?d = "directory s ! i"
    define t where "t = upd_fd (current_pcb s) fd (\<lambda>f. f\<lparr>position := int (Suc i)\<rparr>) (write_bytes buf (padded_name ?d) s)"
    have "dentry_name ?d = field_text s (boot_file s (of_nat i)) 32" using directory_nth [OF i] .
    then have len: "length (dentry_name ?d) \<le> 32" "length (padded_name ?d) = 32"
      using length_field_text [of s _ 32] by (simp_all add: padded_name_def)
    have rd: "read_directory (int fd) buf 32 s = Some (int (length (dentry_name ?d)), t)"
      using read_directory_eq [OF Suc.prems(1) i Suc.prems(3,5,6)] by (simp add: t_def)
    have "read_bytes (write_bytes buf (padded_name ?d) s) buf 32 = padded_name ?d"
      using read_write_same [of s buf "padded_name ?d"] Suc.prems(6) len(2) by simp
    then have nm: "read_bytes t buf (length (dentry_name ?d)) = dentry_name ?d"
      using take_read_bytes [OF len(1), of "write_bytes buf (padded_name ?d) s" buf]
      by (simp add: t_def padded_name_def read_bytes_def load_def)
    have im: "same_image s t" unfolding t_def
      by (intro same_image_kernel_upd write_same_image) (use Suc.prems(5) len(2) in simp)
    have dir: "directory t = directory s" by (rule same_image_directory [OF im Suc.prems(3)])
    have pl: "bootblock t = bootblock s" "image_size t = image_size s" "xlat t = xlat s"
      using im same_image_boot [OF im] by (simp_all add: same_image_def image_size_def t_def)
    have "\<exists>u. list_directory k (int fd) buf t = Some (map dentry_name (take k (drop (Suc i) (directory t))), u)"
      by (rule Suc.IH) (use Suc.prems i dir pl apart_xlat [OF pl(3)] spread_xlat [OF pl(3)] in \<open>simp_all add: t_def\<close>)
    moreover have "dentry_name ?d \<noteq> []" using Suc.prems(4) i by simp
    ultimately show ?thesis using rd nm dir i by (auto simp: Cons_nth_drop_Suc [symmetric])
  qed
qed simp

text \<open>
  Reading the directory repeatedly lists it: the reads return, in order, the names of the
  entries from the position on, each once, and then nothing; a listing of the whole directory
  ends.
\<close>

theorem directory_listed:
  fixes s :: "'a kernel_scheme"
  assumes "position (fd_array (pcbs s (current_pcb s)) fd) = 0" "length (directory s) \<le> 63"
    and "\<forall>d \<in> set (directory s). dentry_name d \<noteq> []" "apart s buf 32 (bootblock s) (image_size s)" "spread s buf 32"
  shows "\<exists>t. list_directory 64 (int fd) buf s = Some (map dentry_name (directory s), t)"
  using list_directory_eq [of s fd 0 buf 64] assms by simp

theorem directory_listed_witness:
  "\<exists>t. list_directory 64 2 0x08200000 flat_demo = Some ([[0x2E], [0x72, 0x74, 0x63], [0x68, 0x69]], t)"
proof -
  have p: "position (fd_array (pcbs flat_demo (current_pcb flat_demo)) 2) = 0"
    by (simp add: blank_pcb_def fresh_fds_def)
  have a: "apart flat_demo 0x08200000 32 0x500000 12288" "spread flat_demo 0x08200000 32"
    by (rule demo_apart, simp_all) (rule demo_spread, simp)
  show ?thesis
    using directory_listed [OF p, of "0x08200000"] a
    by (simp add: demo_directory demo_image_size dentry_name_def dot_dentry_def rtc_dentry_def hi_dentry_def)
qed

text \<open>
  The pointer that \<^verbatim>\<open>get_inode_ptr\<close> gives to an index node below 128 is turned back
  into its number by \<^verbatim>\<open>get_inode_num\<close>. (The bound is needed: both scale by the block size
  once too often.)
\<close>

theorem inode_pointer_roundtrip:
  assumes "ino < boot_inodes s" "ino < 128"
  shows "get_inode_num (get_inode_ptr ino s) s = ino"
  using assms by (rule inode_ptr_num)

theorem inode_pointer_roundtrip_witness: "get_inode_num (get_inode_ptr 0 flat_demo) flat_demo = 0"
  by (rule inode_pointer_roundtrip) (simp_all add: demo_counts)


end
