(* ===== verification/Memory_Properties.thy ===== *)
theory Memory_Properties
  imports Launch
begin

text \<open>Process slots and address spaces: who owns which memory, and who can reach it.\<close>

section \<open>Process slots\<close>

text \<open>
  \<^verbatim>\<open>get_available_pid\<close> gives the smallest of the six process numbers that is
  not in use, and fails exactly if all are; marking it as used takes it and no other, marking it as
  free gives it back, and after as many allocations as there were free slots the next one fails.
\<close>

theorem pid_allocation:
  "(get_available_pid s = FAILURE \<longleftrightarrow> pid_set s = {0..<6}) \<and>
   (get_available_pid s \<noteq> FAILURE \<longrightarrow>
      get_available_pid s \<in> {0..<6} - pid_set s \<and> {0..<get_available_pid s} \<subseteq> pid_set s \<and>
      pid_set (snd (mark_pid_used (get_available_pid s) s)) = insert (get_available_pid s) (pid_set s) \<and>
      pid_set (snd (mark_pid_free (get_available_pid s) (snd (mark_pid_used (get_available_pid s) s)))) = pid_set s) \<and>
   get_available_pid (((\<lambda>u. snd (mark_pid_used (get_available_pid u) u)) ^^ (6 - card (pid_set s))) s) = FAILURE"
proof -
  let ?take = "\<lambda>u. snd (mark_pid_used (get_available_pid u) u)"
  have many: "bitmap.take_many n u = (?take ^^ n) u" for n and u :: "'a sched_scheme"
    by (induction n arbitrary: u) (simp_all add: Let_def)
  have "card (pid_set s) \<le> card {0..<6 :: int}" by (rule card_mono) (use bitmap.used_U in auto)
  then have "get_available_pid ((?take ^^ (6 - card (pid_set s))) s) = FAILURE"
    using bitmap.pool_exhausted [of s "6 - card (pid_set s)"] by (simp add: many)
  moreover have "{0..<get_available_pid s} \<subseteq> pid_set s" if f: "get_available_pid s \<noteq> FAILURE"
  proof
    fix i assume "i \<in> {0..<get_available_pid s}"
    moreover obtain n where "get_available_pid s = int n" "\<forall>j<n. int j \<in> pid_set s"
      using get_available_pid_cases [of s] f by auto
    ultimately show "i \<in> pid_set s" using nonneg_int_cases [of i] by (metis atLeastLessThan_iff of_nat_less_iff)
  qed
  moreover have "get_available_pid s \<in> {0..<6} - pid_set s" if "get_available_pid s \<noteq> FAILURE"
    using bitmap.pick_fail [of s] bitmap.pick_fresh [of s] that by blast
  ultimately show ?thesis
    using bitmap.pick_fail [of s] bitmap.take_then_drop [of s] bitmap.used_take [of "get_available_pid s" s] by blast
qed

theorem pid_allocation_witness:
  "get_available_pid flat_demo = 1 \<and> pid_set (snd (mark_pid_used 1 flat_demo)) = {0, 1}"
proof -
  have "get_available_pid flat_demo = 1" by (simp add: get_available_pid_def numeral_eq_Suc)
  then show ?thesis using pid_allocation [of flat_demo] by (auto simp: demo_pid_set)
qed

section \<open>Address spaces\<close>

lemma video_page_frame:
  assumes "drop_bit 12 va = (0xB8 :: u32)"
  shows "VIDEO OR (va AND 0xFFF) = va"
  using small_frame [OF page_index_0xB8 [OF assms]] assms by simp

text \<open>
  C28: Under the page directory that \<^verbatim>\<open>setup_task_paging\<close> builds for process \<open>p\<close>,
  the 4 MB at 0x08000000 are the block of memory that \<open>p\<close> owns, open to user code; the rest
  is the kernel's view: the four video pages and the memory from 4 MB to 32 MB are mapped to themselves,
  for the kernel only, and nothing else is mapped. The tables of the other processes are untouched.
\<close>

theorem task_address_space:
  fixes s :: "'a paging_scheme"
  assumes "layout_ok lay" "0 \<le> p" "p < 6" "0 \<le> q" "q < 6" "p \<noteq> q"
    and "t = setup_task_paging (get_page_directory_for_pid lay p) (get_base_page_table_for_pid lay p) (block_address_for_process p) s"
  shows "translate (ptmem t) (get_page_directory_for_pid lay p) va =
      (if unat (drop_bit 22 va) = 32 then Some (block_address_for_process p OR (va AND 0x3FFFFF), True) else kernel_view va) \<and>
    task_space (get_page_directory_for_pid lay q) (get_base_page_table_for_pid lay q) sq t
      = task_space (get_page_directory_for_pid lay q) (get_base_page_table_for_pid lay q) sq s"
proof -
  note tb = layout_tables [OF assms(1-3)] and tq = layout_tables [OF assms(1,4,5)]
  have sp: "task_space (get_page_directory_for_pid lay p) (get_base_page_table_for_pid lay p) (fresh_space p) t"
    using setup_task_paging_space [OF tb block_big_aligned [OF assms(2,3)]] assms(7) by (simp add: fresh_space_def)
  have "translate (ptmem t) (get_page_directory_for_pid lay p) va = space_view (fresh_space p) va"
    by (rule translate_task_space [OF tb fresh_space_ok [OF assms(2,3)] sp])
  moreover have "space_view (fresh_space p) va = task_view (block_address_for_process p) va"
  proof (cases "drop_bit 12 va = 0xB8")
    case True
    then have "VIDEO OR (va AND 0xFFF) = va" by (rule video_page_frame)
    then show ?thesis using True page_index_0xB8 [OF True]
      by (simp add: space_view_def fresh_space_def task_view_def kernel_view_def video_page_def)
  qed (simp add: space_view_def fresh_space_def)
  moreover have "task_space (get_page_directory_for_pid lay q) (get_base_page_table_for_pid lay q) sq t
      = task_space (get_page_directory_for_pid lay q) (get_base_page_table_for_pid lay q) sq s"
    unfolding assms(7) using only_tables_space [OF setup_task_only [OF tb] tq layout_apart [OF assms(1-6)]] by blast
  ultimately show ?thesis by (simp add: task_view_def)
qed


theorem task_address_space_witness:
  "translate (ptmem (setup_task_paging (get_page_directory_for_pid demo_layout 1) (get_base_page_table_for_pid demo_layout 1)
       (block_address_for_process 1) flat_demo)) (get_page_directory_for_pid demo_layout 1) 0x08048010 = Some (0xC48010, True)"
  using task_address_space [OF demo_layout_ok, of 1 2 _ flat_demo "0x08048010"]
  by (simp add: block_address_for_process_def)

text \<open>
  The memory of the live processes: each has the address space \<open>sps p\<close>, with its own block
  behind the program page and the page of its terminal behind the video page.
\<close>

definition own_blocks :: "(int \<Rightarrow> space) \<Rightarrow> 'a sched_scheme \<Rightarrow> bool" where
  "own_blocks sps s \<longleftrightarrow> (\<forall>p \<in> pid_set s. block (sps p) = block_address_for_process p)"

lemma block_range:
  assumes "0 \<le> p" "p < 6"
  shows "0x800000 + 0x400000 * nat p \<le> unat (block_address_for_process p OR (va AND 0x3FFFFF))"
    and "unat (block_address_for_process p OR (va AND 0x3FFFFF)) < 0x800000 + 0x400000 * (nat p + 1)"
proof -
  let ?b = "block_address_for_process p" and ?o = "va AND 0x3FFFFF"
  have "?b AND ?o = 0"
    using block_big_aligned [OF assms] unfolding big_aligned_bits masks_u32
    by (intro bit_word_eqI) (auto simp: bit_and_iff bit_mask_iff)
  then have o: "?b OR ?o = ?b + ?o" by (rule disjunctive_add_eq_or [symmetric])
  have "?o = take_bit 22 va" unfolding masks_u32 by (simp add: take_bit_eq_mask)
  then have l: "unat ?o < 0x400000"
    using take_bit_nat_less_exp [of 22 "unat va"] by (simp add: unsigned_take_bit_eq)
  have b: "unat ?b = 0x800000 + 0x400000 * nat p" using block_address_eq assms by blast
  have "unat (?b + ?o) = unat ?b + unat ?o" using l b assms by (simp add: unat_word_ariths)
  then show "0x800000 + 0x400000 * nat p \<le> unat (?b OR ?o)" "unat (?b OR ?o) < 0x800000 + 0x400000 * (nat p + 1)"
    using l b o by simp_all
qed

lemma user_memory:
  fixes s :: "'a kernel_scheme"
  assumes "layout_ok lay" "spaces_ok lay sps s" "own_blocks sps s" "p \<in> pid_set s"
    and "translate (ptmem s) (get_page_directory_for_pid lay p) va = Some (pa, True)"
  shows "0x800000 + 0x400000 * nat p \<le> unat pa \<and> unat pa < 0x800000 + 0x400000 * (nat p + 1) \<or>
    vidmapped (sps p) \<and> pa = terminal_frame s (owner s p) OR (va AND 0xFFF)"
proof -
  have p: "0 \<le> p" "p < 6" using pid_set_bounds [OF assms(4)] by auto
  have sp: "space_ok (sps p)" "video_frame (sps p) = terminal_frame s (owner s p)" "block (sps p) = block_address_for_process p"
    "task_space (get_page_directory_for_pid lay p) (get_base_page_table_for_pid lay p) (sps p) s"
    using assms(2-4) by (auto simp: spaces_ok_def own_blocks_def)
  then have "space_view (sps p) va = Some (pa, True)"
    using translate_task_space [OF layout_tables [OF assms(1) p] sp(1,4), of va] assms(5) by simp
  then consider "vidmapped (sps p)" "pa = video_frame (sps p) OR (va AND 0xFFF)"
    | "pa = block (sps p) OR (va AND 0x3FFFFF)"
    by (auto simp: space_view_def task_view_def kernel_view_def Let_def split: if_splits)
  then show ?thesis using block_range [OF p, of va] sp(2,3) by cases simp_all
qed


lemma own_blocks_demo: "own_blocks (\<lambda>_. fresh_space 0) demo"
  by (simp add: own_blocks_def pid_set_demo fresh_space_def)

lemma translate_demo:
  "translate (ptmem demo) (get_page_directory_for_pid demo_layout 0) va = space_view (fresh_space 0) va"
  using spaces_demo translate_task_space [OF layout_tables [OF demo_layout_ok] fresh_space_ok [of 0], of 0 demo va]
  by (simp add: spaces_ok_def pid_set_demo)

text \<open>
  C30: \<^verbatim>\<open>vidmap\<close> with a pointer into the user page opens exactly one more page to
  the calling process, the page of its terminal at 0xB8000, stores that address where the pointer
  says, and changes the view of no other process.
\<close>

theorem vidmap_opens_video:
  fixes s :: "'a kernel_scheme"
  assumes "layout_ok lay" "procs_ok s" "running s p" "spaces_ok lay sps s" "user_pointer a" "spread s a 4"
    and "sys_vidmap lay a s = (r, t)"
  shows "r = SUCCESS \<and> load32 t a = VIDEO \<and>
    translate (ptmem t) (get_page_directory_for_pid lay p) va =
      (if drop_bit 12 va = 0xB8 then Some (terminal_frame s (owner s p) OR (va AND 0xFFF), True)
       else translate (ptmem s) (get_page_directory_for_pid lay p) va) \<and>
    (\<forall>q \<in> pid_set s. q \<noteq> p \<longrightarrow> translate (ptmem t) (get_page_directory_for_pid lay q) va
                            = translate (ptmem s) (get_page_directory_for_pid lay q) va)"
proof -
  have pp: "p \<in> pid_set s" using assms(3) by (simp add: running_def)
  have sp: "space_ok (sps q)" "video_frame (sps q) = terminal_frame s (owner s q)"
    "task_space (get_page_directory_for_pid lay q) (get_base_page_table_for_pid lay q) (sps q) s"
    "tables_ok (get_page_directory_for_pid lay q) (get_base_page_table_for_pid lay q)" if "q \<in> pid_set s" for q
    using assms(1,4) that pid_set_bounds [OF that] layout_tables by (auto simp: spaces_ok_def)
  note v = vidmap_space [OF assms(1-3,5,6) sp(3) [OF pp]]
  have t: "t = snd (sys_vidmap lay a s)" using assms(7) by simp
  have old: "translate (ptmem s) (get_page_directory_for_pid lay q) va = space_view (sps q) va" if "q \<in> pid_set s" for q
    using translate_task_space [OF sp(4) [OF that] sp(1) [OF that] sp(3) [OF that]] by simp
  have new: "translate (ptmem t) (get_page_directory_for_pid lay p) va = space_view ((sps p)\<lparr>vidmapped := True\<rparr>) va"
    using translate_task_space [OF sp(4) [OF pp] _ v(1)] sp(1) [OF pp] t by (simp add: space_ok_def)
  have "translate (ptmem t) (get_page_directory_for_pid lay q) va = translate (ptmem s) (get_page_directory_for_pid lay q) va"
    if "q \<in> pid_set s" "q \<noteq> p" for q
    using translate_task_space [OF sp(4) [OF that(1)] sp(1) [OF that(1)], of t] v(2) [OF that, of "sps q"] sp(3) [OF that(1)] old [OF that(1)] t
    by simp
  moreover have "r = SUCCESS" "t = setup_user_access_pte (get_base_page_table_for_pid lay p) VIDEO
      (setup_user_access_pde (get_page_directory_for_pid lay p) VIDEO (store32 a VIDEO s))"
    using vidmap_eq [OF assms(2,3,5,6), of lay] assms(7) by simp_all
  moreover have "load32 (setup_user_access_pte bt va (setup_user_access_pde pd vb u)) a = load32 u a"
    for bt va pd vb and u :: "'a kernel_scheme"
    by (simp add: load32_def load_def setup_user_access_pte_def setup_user_access_pde_def set_entry_def Let_def)
  ultimately show ?thesis using new old [OF pp] sp(2) [OF pp] store32_video [OF assms(6)] by (simp add: space_view_def)
qed

lemma demo_spread4: "unat a + 4 \<le> 4294967296 \<Longrightarrow> spread flat_demo a 4"
  by (intro spread_identity) (simp add: identity_on_def)

theorem vidmap_opens_video_witness:
  "\<exists>t. sys_vidmap demo_layout 0x08000100 demo = (SUCCESS, t) \<and>
     translate (ptmem t) (get_page_directory_for_pid demo_layout 0) 0xB8004 = Some (0xB8004, True)"
proof -
  obtain r t where v: "sys_vidmap demo_layout 0x08000100 demo = (r, t)" by fastforce
  have "spread demo 0x08000100 4"
  proof -
    have x: "xlat demo (0x08000100 + of_nat i) = 0x800100 + of_nat i" if "i < 4" for i
    proof -
      have "space_view (fresh_space 0) (0x08000000 + of_nat (0x100 + i)) = Some (0x800000 + of_nat (0x100 + i), True)"
        using user_page_view [OF fresh_space_ok [of 0], of "0x100 + i"] that by (simp add: fresh_space_def block_address_for_process_def)
      then show ?thesis using active_demo translate_demo by (simp add: active_def mmu_xlat_def)
    qed
    then have "inj_on (\<lambda>i. 0x800100 + of_nat i :: u32) {..<4} \<Longrightarrow> ?thesis" unfolding spread_def by (auto simp: inj_on_def)
    moreover have "inj_on (\<lambda>i. 0x800100 + of_nat i :: u32) {..<4}"
      using demo_spread4 [of "0x800100"] by (simp add: spread_def)
    ultimately show ?thesis by blast
  qed
  from vidmap_opens_video [OF demo_layout_ok procs_ok_demo running_demo spaces_demo _ this v, of "0xB8004"] v
  show ?thesis by (simp add: user_pointer_def terminal_frame_def owner_def blank_pcb_def)
qed


text \<open>
  C29: After \<^verbatim>\<open>init_paging\<close> the kernel's page directory is loaded, and under it the video
  pages and the memory from 4 MB to 32 MB are mapped to themselves and closed to user code; no other
  address is mapped.
\<close>

theorem kernel_address_space:
  fixes s :: "'a paging_scheme"
  assumes "layout_ok lay" "t = init_paging lay s"
  shows "cr3 t = kernel_page_directory lay \<and> translate (ptmem t) (cr3 t) va = kernel_view va \<and>
    (kernel_view va = Some (pa, usr) \<longrightarrow> pa = va \<and> \<not> usr \<and> xlat t va = va)"
proof -
  have c: "cr3 t = kernel_page_directory lay" "ptmem t = ptmem (init_kernel_pages lay s)"
    "xlat t = mmu_xlat (ptmem t) (cr3 t)"
    using assms(2) by (simp_all add: init_paging_def paging_hw_enable_def set_new_page_directory_def)
  then have v: "translate (ptmem t) (cr3 t) va = kernel_view va"
    using init_kernel_pages_view [OF layout_kernel_tables [OF assms(1)]] by simp
  moreover have "kernel_view va = Some (pa, usr) \<Longrightarrow> pa = va \<and> \<not> usr"
    by (auto simp: kernel_view_def Let_def split: if_splits)
  ultimately show ?thesis using c by (auto simp: mmu_xlat_def)
qed

theorem kernel_address_space_witness:
  "translate (ptmem (init_paging demo_layout flat_demo)) (kernel_page_directory demo_layout) 0x500000 = Some (0x500000, False) \<and>
   translate (ptmem (init_paging demo_layout flat_demo)) (kernel_page_directory demo_layout) 0 = None"
  using kernel_address_space [OF demo_layout_ok refl, of flat_demo "0x500000"]
    kernel_address_space [OF demo_layout_ok refl, of flat_demo 0]
  by (auto simp: kernel_view_def video_page_def)

text \<open>
  Starting a program gives the new process an address space of its own, its block behind the
  program page and no access to the video page, makes that the active one, and keeps the address
  spaces of all processes that were there: the memory of the live processes stays apart.
\<close>

theorem execute_builds_space:
  fixes s :: "'a kernel_scheme"
  assumes "layout_ok lay" "running s p" "spaces_ok lay sps s" "own_blocks sps s"
    and "execute lay fr command s = Some (To_user e f u, t)" "n = get_available_pid s"
  shows "spaces_ok lay (sps(n := fresh_space n)) t \<and> own_blocks (sps(n := fresh_space n)) t \<and>
    cr3 t = get_page_directory_for_pid lay n \<and> running t n \<and> pid_set t = insert n (pid_set s)"
proof -
  note ex = assms(5) [unfolded execute_def]
  from execute_started [OF assms(2) ex assms(6)] have st: "n \<notin> pid_set s" "pid_set t = insert n (pid_set s)" "tss_esp0 t = kernel_stack n"
    by metis+
  have "own_blocks (sps(n := fresh_space n)) t"
    using assms(4) st(1,2) by (auto simp: own_blocks_def fresh_space_def)
  then show ?thesis using execute_spaces [OF assms(1-3) ex] st assms(6) by (simp add: running_def)
qed

theorem execute_builds_space_witness:
  "\<exists>t. execute demo_layout demo_locals 0x450000 demo = Some (To_user 0x08048000 0x3206 0x08400000, t) \<and>
     spaces_ok demo_layout ((\<lambda>_. fresh_space 0)(1 := fresh_space 1)) t \<and> own_blocks ((\<lambda>_. fresh_space 0)(1 := fresh_space 1)) t"
proof -
  obtain t where ex: "execute demo_layout demo_locals 0x450000 demo = Some (To_user 0x08048000 0x3206 0x08400000, t)"
    using demo_starts by blast
  then show ?thesis
    using execute_builds_space [OF demo_layout_ok running_demo spaces_demo own_blocks_demo ex available_demo [symmetric]] by blast
qed

text \<open>
  C12: Switching the displayed terminal shows the other terminal's text and keeps all of it: the
  page of text of every terminal, wherever it is stored, and every cursor are as before, only the
  displayed terminal is another; and every process still writes to the page of its own terminal,
  whether that is on the screen or in a backing store.
\<close>

theorem terminal_switch_keeps:
  fixes s :: "'a kernel_scheme"
  assumes "layout_ok lay" "video_identity s" "spaces_ok lay sps s"
    and "to \<in> {0, 1, 2}" "uint (terminal_state s) \<in> {0, 1, 2}" "uint (terminal_state s) \<noteq> to" "i \<in> {0, 1, 2}"
    and "t = change_terminal_state lay (uint (terminal_state s)) to s"
  shows "uint (terminal_state t) = to \<and> screen_page i t = screen_page i s \<and> cursor_of (nat i) t = cursor_of (nat i) s \<and>
    spaces_ok lay (\<lambda>p. remapped (uint (terminal_state s)) to (owner s p) (sps p)) t"
  unfolding assms(8)
  using switch_screens [OF assms(2,5,4,6) refl assms(7), of lay] switch_spaces [OF assms(1-3,5,4,6) refl] by simp

lemma video_identity_demo: "video_identity demo"
proof -
  have "xlat demo (VIDEO + of_nat k) = VIDEO + of_nat k" if "k < 0x4000" for k
  proof -
    let ?va = "VIDEO + of_nat k :: u32"
    have "unat ?va = 0xB8000 + k" using that by (simp add: unat_word_ariths unat_of_nat take_bit_nat_eq_self)
    then have i: "unat (drop_bit 12 ?va) = (0xB8000 + k) div 4096" "unat (drop_bit 22 ?va) = (0xB8000 + k) div 4194304"
      by (simp_all add: drop_bit_eq_div unat_div)
    then have "video_page ?va" "unat (drop_bit 22 ?va) = 0" using that by (auto simp: video_page_def)
    then have "space_view (fresh_space 0) ?va = Some (?va, False)"
      using video_page_frame [of ?va] by (simp add: space_view_def fresh_space_def task_view_def kernel_view_def)
    then show ?thesis using active_demo translate_demo by (simp add: active_def mmu_xlat_def)
  qed
  then show ?thesis by (simp add: video_identity_def)
qed

theorem terminal_switch_keeps_witness:
  "screen_page 0 (change_terminal_state demo_layout 0 1 demo) = screen_page 0 demo \<and>
   uint (terminal_state (change_terminal_state demo_layout 0 1 demo)) = 1"
  using terminal_switch_keeps [OF demo_layout_ok video_identity_demo spaces_demo, of 1 0] by simp


end
