(* ===== verification/Process_Tree.thy ===== *)
theory Process_Tree
  imports Scheduling_Properties File_Properties Memory_Properties Interrupts
begin

text \<open>
  How the processes hang together, and that no operation of the kernel breaks it: every program that another
  one started has a parent that waits for it, whose saved frame and stack lead back into the call of
  \<^verbatim>\<open>execute\<close>; the process that a terminal lets run waits for nobody; and the address spaces of all
  live processes are apart. One lemma per operation shows that it is kept; they are put together in
  \<open>Isolation\<close>.
\<close>

section \<open>The process tree\<close>

abbreviation pcb_of :: "'a kernel_scheme \<Rightarrow> int \<Rightarrow> pcb" where
  "pcb_of s p \<equiv> pcbs s (pcb_address p)"

text \<open>A program that \<^verbatim>\<open>execute\<close> started, as opposed to the first shell of a terminal.\<close>

definition user_proc :: "'a kernel_scheme \<Rightarrow> int \<Rightarrow> bool" where
  "user_proc s c \<longleftrightarrow> pcb_flags (pcb_of s c) AND 1 = 0"

definition in_stack :: "int \<Rightarrow> u32 \<Rightarrow> bool" where
  "in_stack q a \<longleftrightarrow> pcb_address q < a \<and> a \<le> kernel_stack q"

text \<open>Process \<open>q\<close> has started \<open>c\<close> and waits in its frame of \<^verbatim>\<open>internal_execute\<close>.\<close>

definition waits_for :: "'a kernel_scheme \<Rightarrow> int \<Rightarrow> int \<Rightarrow> bool" where
  "waits_for s q c \<longleftrightarrow> parentPCB (pcb_of s c) = pcb_address q \<and> pcb_esp0 (pcb_of s c) = kernel_stack q \<and>
     owner s c = owner s q \<and> in_stack q (ebp_k (pcb_of s q)) \<and>
     fr_pid (frames s (ebp_k (pcb_of s q))) = c \<and> fr_pcb_child (frames s (ebp_k (pcb_of s q))) = pcb_address c"

definition leaf :: "'a kernel_scheme \<Rightarrow> int \<Rightarrow> bool" where
  "leaf s q \<longleftrightarrow> (\<forall>c \<in> pid_set s. user_proc s c \<longrightarrow> parentPCB (pcb_of s c) \<noteq> pcb_address q)"

definition tree_ok :: "'a kernel_scheme \<Rightarrow> bool" where
  "tree_ok s \<longleftrightarrow> (\<forall>c \<in> pid_set s. user_proc s c \<longrightarrow> (\<exists>q \<in> pid_set s. q \<noteq> c \<and> waits_for s q c))"

section \<open>Terminals and their processes\<close>

definition foreground :: "'a kernel_scheme \<Rightarrow> nat \<Rightarrow> int" where
  "foreground s i = sint (t_pid (terminals s i))"

definition terminals_ok :: "'a kernel_scheme \<Rightarrow> bool" where
  "terminals_ok s \<longleftrightarrow> unat (terminal_state s) < 3 \<and> bit (terminals_launched s) (unat (terminal_state s)) \<and> bit (terminals_launched s) 0 \<and>
     (\<forall>i<3. bit (terminals_launched s) i \<longrightarrow>
        foreground s i \<in> pid_set s \<and> owner s (foreground s i) = int i \<and> leaf s (foreground s i)) \<and>
     (\<forall>p. running s p \<longrightarrow> bit (terminals_launched s) (nat (owner s p)) \<and> foreground s (nat (owner s p)) = p)"

definition isolated :: "layout \<Rightarrow> 'a kernel_scheme \<Rightarrow> bool" where
  "isolated lay s \<longleftrightarrow> (\<exists>sps. spaces_ok lay sps s \<and> own_blocks sps s)"

definition order_ok :: "layout \<Rightarrow> 'a kernel_scheme \<Rightarrow> bool" where
  "order_ok lay s \<longleftrightarrow> tree_ok s \<and> terminals_ok s \<and> isolated lay s"

text \<open>These depend on none of the things that the drivers change.\<close>

lemma tree_cong:
  fixes s t :: "'a kernel_scheme"
  assumes "\<And>a. parentPCB (pcbs t a) = parentPCB (pcbs s a) \<and> pcb_esp0 (pcbs t a) = pcb_esp0 (pcbs s a) \<and>
      pcb_flags (pcbs t a) = pcb_flags (pcbs s a) \<and> ebp_k (pcbs t a) = ebp_k (pcbs s a) \<and>
      owned_by_terminal (pcbs t a) = owned_by_terminal (pcbs s a)"
    and "pid_avail t = pid_avail s" "frames t = frames s"
  shows "tree_ok t = tree_ok s" "leaf t = leaf s" "owner t = owner s"
proof -
  have ps: "pid_set t = pid_set s" by (rule pid_set_cong [OF assms(2)])
  show ow: "owner t = owner s" using assms by (auto simp: owner_def)
  have up: "user_proc t = user_proc s" using assms by (auto simp: user_proc_def)
  show "leaf t = leaf s" "tree_ok t = tree_ok s"
    using assms ps ow up by (auto simp: leaf_def tree_ok_def waits_for_def fun_eq_iff)
qed

lemma isolated_cong:
  assumes "ptmem t = ptmem s" "pid_avail t = pid_avail s" "owner t = owner s" "terminal_state t = terminal_state s"
  shows "isolated lay t = isolated lay s"
  using task_space_cong [OF assms(1)] pid_set_cong [OF assms(2)] assms(3,4)
  by (simp add: isolated_def spaces_ok_def own_blocks_def terminal_frame_def)

lemma terminals_cong:
  assumes "leaf t = leaf s" "owner t = owner s" "pid_avail t = pid_avail s" "tss_esp0 t = tss_esp0 s"
    and "terminal_state t = terminal_state s" "terminals_launched t = terminals_launched s"
    and "\<And>i. t_pid (terminals t i) = t_pid (terminals s i)"
  shows "terminals_ok t = terminals_ok s"
  using assms pid_set_cong [OF assms(3)] by (simp add: terminals_ok_def foreground_def running_def)

lemma order_cong:
  fixes s t :: "'a kernel_scheme"
  assumes "\<And>a. parentPCB (pcbs t a) = parentPCB (pcbs s a) \<and> pcb_esp0 (pcbs t a) = pcb_esp0 (pcbs s a) \<and>
      pcb_flags (pcbs t a) = pcb_flags (pcbs s a) \<and> ebp_k (pcbs t a) = ebp_k (pcbs s a) \<and>
      owned_by_terminal (pcbs t a) = owned_by_terminal (pcbs s a)"
    and "pid_avail t = pid_avail s" "tss_esp0 t = tss_esp0 s" "ptmem t = ptmem s" "frames t = frames s"
    and "terminal_state t = terminal_state s" "terminals_launched t = terminals_launched s"
    and "\<And>i. t_pid (terminals t i) = t_pid (terminals s i)"
  shows "order_ok lay t = order_ok lay s"
proof -
  note tr = tree_cong [OF assms(1,2,5)]
  then show ?thesis
    using terminals_cong [OF tr(2,3) assms(2,3,6-8)] isolated_cong [OF assms(4,2) tr(3) assms(6)] by (simp add: order_ok_def)
qed

lemma order_same: "same_procs s t \<Longrightarrow> order_ok lay t = order_ok lay s"
  by (rule order_cong) (simp_all add: same_procs_def)

lemma order_stable: "stable (order_ok lay)"
proof -
  have "order_ok lay (upd_fd a i f s) = order_ok lay s" for a i f and s :: "'a kernel_scheme"
    by (rule order_cong) (simp_all add: upd_fd_def)
  then show ?thesis using order_same unfolding stable_def by blast
qed

lemma owner_bound: "procs_ok s \<Longrightarrow> p \<in> pid_set s \<Longrightarrow> nat (owner s p) < 3 \<and> 0 \<le> owner s p"
  by (auto simp: procs_ok_def owner_def nat_less_iff simp del: nat_uint_eq)

lemma running_leaf:
  assumes "order_ok lay s" "procs_ok s" "running s p"
  shows "leaf s p" "foreground s (nat (owner s p)) = p" "bit (terminals_launched s) (nat (owner s p))"
  using assms owner_bound [OF assms(2), of p] by (auto simp: order_ok_def terminals_ok_def running_def)

lemma running_unique: "running s p \<Longrightarrow> running s q \<Longrightarrow> p = q"
  using running_pcb [of s p] running_pcb [of s q] pcb_address_inject [of p q] pid_set_bounds [of p s] pid_set_bounds [of q s]
  by (auto simp: running_def)

section \<open>A switch to another process\<close>

text \<open>A process that runs waits for nobody, so its saved registers may change.\<close>

lemma save_context_tree:
  fixes s t :: "'a kernel_scheme"
  assumes tr: "tree_ok s" and lf: "leaf s p"
    and pc: "\<And>a. pcbs t a = (if a = pcb_address p then (pcbs s a)\<lparr>pcb_eip := x1, esp_k := x2, ebp_k := x3, pcb_eflags := x4\<rparr> else pcbs s a)"
    and pa: "pid_avail t = pid_avail s" and fr: "frames t = frames s"
  shows "tree_ok t" "leaf t = leaf s" "owner t = owner s" "procs_ok t = procs_ok s"
proof -
  have ps: "pid_set t = pid_set s" by (rule pid_set_cong [OF pa])
  show ow: "owner t = owner s" and lt: "leaf t = leaf s" and "procs_ok t = procs_ok s"
    using pc ps by (auto simp: owner_def leaf_def user_proc_def procs_ok_def fun_eq_iff)
  have up: "user_proc t = user_proc s" using pc by (simp add: user_proc_def fun_eq_iff)
  show "tree_ok t"
    unfolding tree_ok_def ps up
  proof (intro ballI impI)
    fix c assume c: "c \<in> pid_set s" "user_proc s c"
    then obtain z where z: "z \<in> pid_set s" "z \<noteq> c" "waits_for s z c" using tr by (auto simp: tree_ok_def)
    then have "pcb_address z \<noteq> pcb_address p" using lf c by (auto simp: leaf_def waits_for_def)
    then have "waits_for t z c" using z(3) pc [of "pcb_address z"] pc [of "pcb_address c"] ow fr by (auto simp: waits_for_def split: if_splits)
    then show "\<exists>z\<in>pid_set s. z \<noteq> c \<and> waits_for t z c" using z by blast
  qed
qed

lemma switch_order:
  fixes s :: "'a kernel_scheme"
  assumes "order_ok lay s" "procs_ok s" "running s p" "i < 3" "bit (terminals_launched s) i"
    and "save_and_switch_process_context lay' sw (foreground s i) s = (r, t)"
  shows "order_ok lay t" "procs_ok t" "running t (foreground s i)"
proof -
  note e = context_switch_eq [OF assms(6) refl]
  let ?q = "foreground s i"
  have q: "?q \<in> pid_set s" "owner s ?q = int i" using assms(1,4,5) by (auto simp: order_ok_def terminals_ok_def)
  have ps: "pid_set t = pid_set s" by (rule pid_set_cong [OF e(9)])
  show run: "running t ?q" using q(1) ps e(4) by (simp add: running_def)
  have pc: "pcbs t a = (if a = pcb_address p then (pcbs s a)\<lparr>pcb_eip := sw_label sw, esp_k := sw_esp sw + 4,
      ebp_k := sw_ebp sw, pcb_eflags := eflags s\<rparr> else pcbs s a)" for a
    using e(3) running_pcb [OF assms(3)] by (simp add: saved_context_def)
  have "tree_ok s" using assms(1) by (simp add: order_ok_def)
  note tree = save_context_tree [OF this running_leaf(1) [OF assms(1-3)] pc e(9,14)]
  show "procs_ok t" using tree(4) assms(2) by simp
  have fg: "foreground t = foreground s" using e(10) by (auto simp: foreground_def)
  have "terminals_ok t"
    using assms(1,5) q running_unique [OF run] ps tree(2,3) fg e(11,13) by (auto simp: order_ok_def terminals_ok_def)
  moreover have "isolated lay t"
    using assms(1) isolated_cong [OF e(7,9) tree(3) e(11)] by (simp add: order_ok_def)
  ultimately show "order_ok lay t" using tree(1) by (simp add: order_ok_def)
qed

section \<open>Starting a program\<close>

lemma in_stack_unique:
  assumes "in_stack p a" "in_stack q a" "0 \<le> p" "p < 6" "0 \<le> q" "q < 6"
  shows "p = q"
proof -
  have st: "unat (pcb_address r) + 0x2000 * (nat r + 1) = 0x800000" "unat (kernel_stack r) + 0x2000 * nat r = 0x800000"
    if "0 \<le> r" "r < 6" for r
    using six_pids [OF that] by (auto simp: pcb_address_def kernel_stack_def)
  have "unat (pcb_address p) < unat a" "unat a \<le> unat (kernel_stack p)" "unat (pcb_address q) < unat a" "unat a \<le> unat (kernel_stack q)"
    using assms(1,2) by (auto simp: in_stack_def word_less_nat_alt word_le_nat_alt)
  moreover have "j \<le> i" if "b < c" "c \<le> k" "b + 0x2000 * (i + 1) = 0x800000" "k + 0x2000 * j = 0x800000" for b c k i j :: nat
    using that by simp
  ultimately have "nat p = nat q" using st [OF assms(3,4)] st [OF assms(5,6)] by (metis le_antisym)
  then show ?thesis using assms by simp
qed

lemma sint_pid: "0 \<le> n \<Longrightarrow> n < 6 \<Longrightarrow> sint (of_int n :: u8) = n" "0 \<le> n \<Longrightarrow> n < 6 \<Longrightarrow> uint (of_int n :: u8) = n"
  by (drule (1) six_pids, auto)+

text \<open>What a start changes in the tree: the new process \<open>n\<close>, started by \<open>p\<close>.\<close>

lemma started_tree:
  fixes s t :: "'a kernel_scheme"
  assumes run: "running s p" and ex: "internal_execute lay fr command flags s = Some (To_user e f u, t)"
    and n: "n = get_available_pid s" and fl: "flags = USER_EXECUTE \<or> flags = FIRST_TERM_SHELL"
  shows "n \<notin> pid_set s" "0 \<le> n" "n < 6" "pid_set t = insert n (pid_set s)" "n \<noteq> p"
    and "\<And>a b. a \<in> pid_set t \<Longrightarrow> b \<in> pid_set t \<Longrightarrow> pcb_address a = pcb_address b \<longleftrightarrow> a = b"
    and "parentPCB (pcb_of t n) = pcb_address p" "pcb_esp0 (pcb_of t n) = kernel_stack p"
    and "owner t n = uint (terminal_state s)" "user_proc t n \<longleftrightarrow> flags = USER_EXECUTE"
    and "\<And>c. c \<in> pid_set s \<Longrightarrow> parentPCB (pcb_of t c) = parentPCB (pcb_of s c) \<and> pcb_esp0 (pcb_of t c) = pcb_esp0 (pcb_of s c) \<and>
        owner t c = owner s c \<and> user_proc t c = user_proc s c \<and> (c \<noteq> p \<longrightarrow> pcb_of t c = pcb_of s c)"
    and "flags = USER_EXECUTE \<Longrightarrow> ebp_k (pcb_of t p) = frame_ebp fr"
    and "fr_pid (frames t (frame_ebp fr)) = n" "fr_pcb_child (frames t (frame_ebp fr)) = pcb_address n"
    and "\<And>b. b \<noteq> frame_ebp fr \<Longrightarrow> frames t b = frames s b"
    and "foreground t (unat (terminal_state s)) = n" "\<And>i. i \<noteq> unat (terminal_state s) \<Longrightarrow> foreground t i = foreground s i"
    and "terminal_state t = terminal_state s" "terminals_launched t = terminals_launched s"
proof -
  from execute_started [OF run ex n] obtain arg and w :: "'a kernel_scheme" where
    n': "n \<notin> pid_set s" "0 \<le> n" "n < 6" and ps: "pid_set t = insert n (pid_set s)"
    and pc: "pcbs t = (pcbs s)(pcb_address n := child_pcb (kernel_stack p) (pcb_address p) flags (terminal_state s) n arg (pcb_of s n),
       pcb_address p := (if flags AND 1 = 0 then (pcb_of s p)\<lparr>esp_k := frame_esp fr, ebp_k := frame_ebp fr\<rparr> else pcb_of s p))"
    and fr: "frames t = (frames s)(frame_ebp fr := \<lparr>fr_pid = n, fr_pcb_child = pcb_address n, fr_interrupt_flags = eflags s\<rparr>)"
    and tm: "terminals t = (terminals s)(unat (terminal_state s) := (terminals s (unat (terminal_state s)))\<lparr>t_pid := of_int n\<rparr>)"
    and tt: "terminal_state t = terminal_state s" "terminals_launched t = terminals_launched s" by metis
  have p: "p \<in> pid_set s" using run by (simp add: running_def)
  show np: "n \<noteq> p" using n'(1) p by blast
  show inj: "pcb_address a = pcb_address b \<longleftrightarrow> a = b" if "a \<in> pid_set t" "b \<in> pid_set t" for a b
    using pcb_address_inject [of a b] pid_set_bounds [OF that(1)] pid_set_bounds [OF that(2)] by blast
  have mem: "n \<in> pid_set t" "p \<in> pid_set t" "\<And>q. q \<in> pid_set s \<Longrightarrow> q \<in> pid_set t" using ps p by auto
  have child: "pcb_of t n = child_pcb (kernel_stack p) (pcb_address p) flags (terminal_state s) n arg (pcb_of s n)"
    using pc inj [OF mem(1,2)] np by simp
  show "parentPCB (pcb_of t n) = pcb_address p" "pcb_esp0 (pcb_of t n) = kernel_stack p"
    "owner t n = uint (terminal_state s)" "user_proc t n \<longleftrightarrow> flags = USER_EXECUTE"
    using child fl by (auto simp: owner_def user_proc_def)
  show "parentPCB (pcb_of t c) = parentPCB (pcb_of s c) \<and> pcb_esp0 (pcb_of t c) = pcb_esp0 (pcb_of s c) \<and>
      owner t c = owner s c \<and> user_proc t c = user_proc s c \<and> (c \<noteq> p \<longrightarrow> pcb_of t c = pcb_of s c)" if "c \<in> pid_set s" for c
    using pc that n'(1) inj [of c n] inj [of c p] mem by (auto simp: owner_def user_proc_def)
  show "foreground t (unat (terminal_state s)) = n" using tm sint_pid(1) [OF n'(2,3)] by (simp add: foreground_def)
  show "flags = USER_EXECUTE \<Longrightarrow> ebp_k (pcb_of t p) = frame_ebp fr" using pc by simp
  show "\<And>i. i \<noteq> unat (terminal_state s) \<Longrightarrow> foreground t i = foreground s i" using tm by (simp add: foreground_def)
  show "n \<notin> pid_set s" "0 \<le> n" "n < 6" "pid_set t = insert n (pid_set s)"
    "terminal_state t = terminal_state s" "terminals_launched t = terminals_launched s" by (fact n' ps tt)+
  show "fr_pid (frames t (frame_ebp fr)) = n" "fr_pcb_child (frames t (frame_ebp fr)) = pcb_address n"
    "\<And>b. b \<noteq> frame_ebp fr \<Longrightarrow> frames t b = frames s b" using fr by simp_all
qed

lemma waiting_parent:
  assumes "tree_ok s" "leaf s p" "c \<in> pid_set s" "user_proc s c"
  obtains q where "q \<in> pid_set s" "q \<noteq> p" "q \<noteq> c" "waits_for s q c"
proof -
  obtain q where q: "q \<in> pid_set s" "q \<noteq> c" "waits_for s q c" using assms(1,3,4) by (auto simp: tree_ok_def)
  moreover have "q \<noteq> p" using q(3) assms(2-4) by (auto simp: leaf_def waits_for_def)
  ultimately show thesis using that by blast
qed

lemma execute_tree:
  fixes s t :: "'a kernel_scheme"
  assumes tr: "tree_ok s" and lf: "leaf s p" and run: "running s p"
    and ex: "internal_execute lay fr command flags s = Some (To_user e f u, t)"
    and n: "n = get_available_pid s" and st: "in_stack p (frame_ebp fr)"
    and fl: "flags = USER_EXECUTE \<and> owner s p = uint (terminal_state s) \<or> flags = FIRST_TERM_SHELL"
  shows "tree_ok t" "leaf t n" "\<And>q. q \<in> pid_set s \<Longrightarrow> leaf s q \<Longrightarrow> q \<noteq> p \<or> flags = FIRST_TERM_SHELL \<Longrightarrow> leaf t q"
proof -
  have fl': "flags = USER_EXECUTE \<or> flags = FIRST_TERM_SHELL" using fl by blast
  note e = started_tree [OF run ex n fl']
  have p: "p \<in> pid_set s" "0 \<le> p" "p < 6" using run pid_set_bounds [of p s] by (auto simp: running_def)
  have live: "c \<in> pid_set t \<Longrightarrow> c \<noteq> n \<Longrightarrow> c \<in> pid_set s" for c using e(4) by simp
  show "tree_ok t"
    unfolding tree_ok_def
  proof (intro ballI impI)
    fix c assume c: "c \<in> pid_set t" "user_proc t c"
    show "\<exists>q\<in>pid_set t. q \<noteq> c \<and> waits_for t q c"
    proof (cases "c = n")
      case True
      then have f0: "flags = USER_EXECUTE" "owner s p = uint (terminal_state s)" using c(2) e(10) fl by auto
      have "waits_for t p n" using e(7-9) e(12) [OF f0(1)] e(13,14) e(11) [OF p(1)] f0(2) st by (simp add: waits_for_def)
      then show ?thesis using True e(4,5) p(1) by auto
    next
      case False
      then have cs: "c \<in> pid_set s" "user_proc s c" using c live e(11) by auto
      obtain q where q: "q \<in> pid_set s" "q \<noteq> p" "q \<noteq> c" "waits_for s q c" by (rule waiting_parent [OF tr lf cs])
      have "ebp_k (pcb_of s q) \<noteq> frame_ebp fr"
        using q(2,4) st in_stack_unique [of q "frame_ebp fr" p] pid_set_bounds [OF q(1)] p by (auto simp: waits_for_def)
      then have "waits_for t q c"
        using q(2,4) e(11) [OF cs(1)] e(11) [OF q(1)] e(15) by (simp add: waits_for_def)
      then show ?thesis using q e(4) by blast
    qed
  qed
  show "leaf t n"
    unfolding leaf_def
  proof (intro ballI impI)
    fix c assume c: "c \<in> pid_set t" "user_proc t c"
    show "parentPCB (pcb_of t c) \<noteq> pcb_address n"
    proof (cases "c = n")
      case True
      then show ?thesis using e(7) e(6) [of p n] e(4,5) p(1) by simp
    next
      case False
      then have cs: "c \<in> pid_set s" "user_proc s c" using c live e(11) by auto
      obtain q where q: "q \<in> pid_set s" "waits_for s q c" by (rule waiting_parent [OF tr lf cs])
      then show ?thesis using e(6) [of q n] e(1,4) e(11) [OF cs(1)] by (auto simp: waits_for_def)
    qed
  qed
  show "leaf t q" if q: "q \<in> pid_set s" "leaf s q" "q \<noteq> p \<or> flags = FIRST_TERM_SHELL" for q
    unfolding leaf_def
  proof (intro ballI impI)
    fix c assume c: "c \<in> pid_set t" "user_proc t c"
    show "parentPCB (pcb_of t c) \<noteq> pcb_address q"
    proof (cases "c = n")
      case True
      then have "q \<noteq> p" using c(2) e(10) q(3) by auto
      then show ?thesis using True e(7) e(6) [of p q] e(4) p(1) q(1) by simp
    next
      case False
      then show ?thesis using c live e(11) q(2) by (auto simp: leaf_def)
    qed
  qed
qed

text \<open>
  A start keeps everything in order: of a program from the process of the displayed terminal, and of the
  first shell of a terminal that has just been displayed.
\<close>

lemma execute_order:
  fixes s t :: "'a kernel_scheme"
  assumes lay: "layout_ok lay" and tr: "tree_ok s" and iso: "isolated lay s" and pr: "procs_ok s" and run: "running s p" and lf: "leaf s p"
    and d: "unat (terminal_state s) = d" "d < 3" "bit (terminals_launched s) d" "bit (terminals_launched s) 0"
    and oth: "\<And>i. i < 3 \<Longrightarrow> i \<noteq> d \<Longrightarrow> bit (terminals_launched s) i \<Longrightarrow>
        foreground s i \<in> pid_set s \<and> owner s (foreground s i) = int i \<and> leaf s (foreground s i)"
    and fl: "flags = USER_EXECUTE \<and> owner s p = uint (terminal_state s) \<or> flags = FIRST_TERM_SHELL"
    and st: "in_stack p (frame_ebp fr)" and ex: "internal_execute lay fr command flags s = Some (To_user e f u, t)"
  shows "order_ok lay t" "procs_ok t" "running t (get_available_pid s)"
proof -
  let ?n = "get_available_pid s"
  have ts: "uint (terminal_state s) = int d" unfolding d(1) [symmetric] by simp
  have fl': "flags = USER_EXECUTE \<or> flags = FIRST_TERM_SHELL" using fl by blast
  note e = started_tree [OF run ex refl fl'] and tree = execute_tree [OF tr lf run ex refl st fl]
  show "procs_ok t" and rt: "running t ?n" using execute_procs_ok [OF pr run _ ex] ts d(2) by simp_all
  have "terminals_ok t"
    unfolding terminals_ok_def e(18,19)
  proof (intro conjI allI impI)
    fix i assume i: "i < 3" "bit (terminals_launched s) i"
    have "foreground t i \<in> pid_set t \<and> owner t (foreground t i) = int i \<and> leaf t (foreground t i)"
    proof (cases "i = d")
      case True
      then show ?thesis using e(4,9,16) tree(2) d(1) ts by simp
    next
      case False
      note o = oth [OF i(1) False i(2)]
      then have "foreground s i \<noteq> p \<or> flags = FIRST_TERM_SHELL" using fl ts False by (metis of_nat_eq_iff)
      then show ?thesis using o e(4) e(17) [of i] e(11) [of "foreground s i"] tree(3) d(1) False by simp
    qed
    then show "foreground t i \<in> pid_set t" "owner t (foreground t i) = int i" "leaf t (foreground t i)" by auto
  next
    fix q assume "running t q"
    then have "q = ?n" using running_unique rt by blast
    then show "bit (terminals_launched s) (nat (owner t q))" "foreground t (nat (owner t q)) = q"
      using e(9,16) d(1,3) ts by simp_all
  qed (use d in simp_all)
  moreover obtain sps where sps: "spaces_ok lay sps s" "own_blocks sps s" using iso by (auto simp: isolated_def)
  have "isolated lay t"
  proof -
    have "own_blocks (sps(?n := fresh_space ?n)) t"
      unfolding own_blocks_def e(4) using sps(2) e(1) by (auto simp: own_blocks_def fresh_space_def)
    then show ?thesis using execute_spaces(1) [OF lay run sps(1) ex] unfolding isolated_def by blast
  qed
  ultimately show "order_ok lay t" using tree(1) by (simp add: order_ok_def)
qed

section \<open>The end of a program\<close>

text \<open>A program that halts, or that an exception ends, gives way to its parent \<open>p\<close>.\<close>

lemma left_tree:
  fixes s v :: "'a kernel_scheme"
  assumes tr: "tree_ok s" and pr: "procs_ok s" and run: "running s n" and lf: "leaf s n" and up: "user_proc s n"
    and lv: "leave_process lay (current_pcb s) (parentPCB (pcb_of s n)) st (s\<lparr>eflags := fl, tss_esp0 := pcb_esp0 (pcb_of s n)\<rparr>) = (r, v)"
  obtains p where "p \<in> pid_set s" "p \<noteq> n" "waits_for s p n" "r = Return (sint st)" "running v p" "pid_set v = pid_set s - {n}"
    "\<And>c. c \<in> pid_set v \<Longrightarrow> pcb_of v c = pcb_of s c \<and> owner v c = owner s c \<and> user_proc v c = user_proc s c"
    "frames v = frames s" "ptmem v = ptmem s" "terminal_state v = terminal_state s" "terminals_launched v = terminals_launched s"
    "foreground v (nat (owner s p)) = p" "\<And>i. i \<noteq> nat (owner s p) \<Longrightarrow> foreground v i = foreground s i"
proof -
  have n: "n \<in> pid_set s" "0 \<le> n" "n < 6" using run pid_set_bounds [of n s] by (auto simp: running_def)
  obtain p where p: "p \<in> pid_set s" "p \<noteq> n" "waits_for s p n" by (rule waiting_parent [OF tr lf n(1) up]) auto
  have w: "parentPCB (pcb_of s n) = pcb_address p" "pcb_esp0 (pcb_of s n) = kernel_stack p"
    "fr_pid (frames s (ebp_k (pcb_of s p))) = n" "fr_pcb_child (frames s (ebp_k (pcb_of s p))) = pcb_address n"
    using p(3) by (simp_all add: waits_for_def)
  let ?u = "s\<lparr>eflags := fl, tss_esp0 := pcb_esp0 (pcb_of s n)\<rparr>"
  obtain ifl where fr: "frames ?u (ebp_k (pcb_of ?u p)) = \<lparr>fr_pid = n, fr_pcb_child = pcb_address n, fr_interrupt_flags = ifl\<rparr>"
    using w(3,4) by (cases "frames s (ebp_k (pcb_of s p))") auto
  have pu: "p \<in> pid_set ?u" using p(1) by (simp add: pid_set_def)
  have "leave_process lay (pcb_address n) (pcb_address p) st ?u = (r, v)" using lv running_pcb [OF run] w(1) by simp
  note l = leave_process_sel [OF this _ pu n(2,3) _ fr]
  have pid: "pid (pcb_of ?u p) = p" "n \<noteq> p" "tss_esp0 ?u = kernel_stack p" using pr p(1,2) w(2) by (auto simp: procs_ok_def)
  note e = l [OF pid]
  have ps: "pid_set v = pid_set s - {n}" using e(3) by (simp add: pid_set_def)
  have old: "pcb_of v c = pcb_of s c" if "c \<in> pid_set v" for c
    using e(8) [of "pcb_address c"] pcb_address_inject [of c n] pid_set_bounds [of c s] that ps n by auto
  have pb: "0 \<le> p" "p < 6" using pid_set_bounds [OF p(1)] by auto
  have fg: "foreground v (nat (owner s p)) = p" "\<And>i. i \<noteq> nat (owner s p) \<Longrightarrow> foreground v i = foreground s i"
    using e(10) sint_pid(1) [OF pb] by (simp_all add: foreground_def owner_def)
  show thesis
    by (rule that [OF p e(1,2) ps _ _ _ _ _ fg]) (use old e(6,12-14) in \<open>simp_all add: owner_def user_proc_def\<close>)
qed

lemma leave_tree:
  fixes s v :: "'a kernel_scheme"
  assumes tr: "tree_ok s" and lf: "leaf s n" and p: "p \<in> pid_set s" "waits_for s p n" and ps: "pid_set v = pid_set s - {n}"
    and old: "\<And>c. c \<in> pid_set v \<Longrightarrow> pcb_of v c = pcb_of s c \<and> owner v c = owner s c \<and> user_proc v c = user_proc s c"
    and fr: "frames v = frames s"
  shows "tree_ok v" "\<And>q. leaf s q \<or> q = p \<Longrightarrow> leaf v q"
proof -
  have live: "c \<in> pid_set v \<Longrightarrow> c \<in> pid_set s \<and> c \<noteq> n" for c using ps by simp
  show "tree_ok v"
    unfolding tree_ok_def
  proof (intro ballI impI)
    fix c assume c: "c \<in> pid_set v" "user_proc v c"
    then have cs: "c \<in> pid_set s" "user_proc s c" using live old by auto
    obtain q where q: "q \<in> pid_set s" "q \<noteq> n" "q \<noteq> c" "waits_for s q c" by (rule waiting_parent [OF tr lf cs])
    then have qv: "q \<in> pid_set v" using ps by simp
    then have "waits_for v q c" using q(4) old [OF c(1)] old [OF qv] fr by (simp add: waits_for_def)
    then show "\<exists>q\<in>pid_set v. q \<noteq> c \<and> waits_for v q c" using qv q(3) by blast
  qed
  show "leaf v q" if "leaf s q \<or> q = p" for q
    unfolding leaf_def
  proof (intro ballI impI)
    fix c assume c: "c \<in> pid_set v" "user_proc v c"
    then have cs: "c \<in> pid_set s" "user_proc s c" "c \<noteq> n" using live old by auto
    obtain z where z: "z \<in> pid_set s" "waits_for s z c" by (rule waiting_parent [OF tr lf cs(1,2)])
    have "z \<noteq> p" using z(2) p(2) cs(3) by (auto simp: waits_for_def)
    then have "parentPCB (pcb_of s c) \<noteq> pcb_address p"
      using z pcb_address_inject [of z p] pid_set_bounds [OF z(1)] pid_set_bounds [OF p(1)] by (auto simp: waits_for_def)
    then show "parentPCB (pcb_of v c) \<noteq> pcb_address q" using that cs old [OF c(1)] by (auto simp: leaf_def)
  qed
qed

lemma leave_order:
  fixes s v :: "'a kernel_scheme"
  assumes ord: "order_ok lay s" and pr: "procs_ok s" and run: "running s n" and up: "user_proc s n"
    and lv: "leave_process lay (current_pcb s) (parentPCB (pcb_of s n)) st (s\<lparr>eflags := fl, tss_esp0 := pcb_esp0 (pcb_of s n)\<rparr>) = (r, v)"
  shows "order_ok lay v" "procs_ok v" "\<exists>p. running v p" "r = Return (sint st)"
proof -
  have tr: "tree_ok s" and tm: "terminals_ok s" and iso: "isolated lay s" using ord by (auto simp: order_ok_def)
  note nl = running_leaf [OF ord pr run]
  obtain p where p: "p \<in> pid_set s" "p \<noteq> n" "waits_for s p n" and r: "r = Return (sint st)" and rv: "running v p"
    and ps: "pid_set v = pid_set s - {n}"
    and old: "\<And>c. c \<in> pid_set v \<Longrightarrow> pcb_of v c = pcb_of s c \<and> owner v c = owner s c \<and> user_proc v c = user_proc s c"
    and e: "frames v = frames s" "ptmem v = ptmem s" "terminal_state v = terminal_state s" "terminals_launched v = terminals_launched s"
    and fg: "foreground v (nat (owner s p)) = p" "\<And>i. i \<noteq> nat (owner s p) \<Longrightarrow> foreground v i = foreground s i"
    by (rule left_tree [OF tr pr run nl(1) up lv]) blast
  show "r = Return (sint st)" "\<exists>q. running v q" using r rv by blast+
  show "procs_ok v" unfolding procs_ok_def using old ps pr by (auto simp: procs_ok_def)
  note tree = leave_tree [OF tr nl(1) p(1,3) ps old e(1)]
  have on: "owner s n = owner s p" using p(3) by (simp add: waits_for_def)
  have ob: "nat (owner s p) < 3" "0 \<le> owner s p" using owner_bound [OF pr p(1)] by auto
  have pv: "p \<in> pid_set v" using ps p by simp
  have "terminals_ok v"
    unfolding terminals_ok_def
  proof (intro conjI allI impI)
    fix i assume i: "i < 3" "bit (terminals_launched v) i"
    have "foreground v i \<in> pid_set v \<and> owner v (foreground v i) = int i \<and> leaf v (foreground v i)"
    proof (cases "i = nat (owner s p)")
      case True
      then show ?thesis using fg(1) pv old [OF pv] tree(2) [of p] ob by simp
    next
      case False
      have o: "foreground s i \<in> pid_set s" "owner s (foreground s i) = int i" "leaf s (foreground s i)"
        using tm i e(4) by (auto simp: terminals_ok_def)
      then have "foreground s i \<noteq> n" using False on ob by auto
      then have "foreground s i \<in> pid_set v" using o(1) ps by simp
      then show ?thesis using o fg(2) [OF False] old tree(2) by simp
    qed
    then show "foreground v i \<in> pid_set v" "owner v (foreground v i) = int i" "leaf v (foreground v i)" by auto
  next
    fix q assume "running v q"
    then have "q = p" using running_unique rv by blast
    then show "bit (terminals_launched v) (nat (owner v q))" "foreground v (nat (owner v q)) = q"
      using nl(3) on fg(1) e(4) old [OF pv] by simp_all
  qed (use tm e(3,4) in \<open>simp_all add: terminals_ok_def\<close>)
  moreover have "isolated lay v"
  proof -
    obtain sps where sps: "spaces_ok lay sps s" "own_blocks sps s" using iso by (auto simp: isolated_def)
    then have "spaces_ok lay sps v" "own_blocks sps v"
      using old e(3) ps task_space_cong [OF e(2)] by (auto simp: spaces_ok_def own_blocks_def terminal_frame_def)
    then show ?thesis by (auto simp: isolated_def)
  qed
  ultimately show "order_ok lay v" using tree(1) by (simp add: order_ok_def)
qed

lemma halt_order:
  assumes "order_ok lay s" "procs_ok s" "running s n" "user_proc s n" "halt lay fr sh status s = Some (r, v)"
  shows "order_ok lay v" "procs_ok v" "\<exists>p. running v p" "r = Return (uint status)"
proof -
  have c: "cli s = s\<lparr>eflags := eflags s AND NOT IF_MASK\<rparr>" by (simp add: cli_def)
  have "pcb_flags (pcbs s (current_pcb s)) \<noteq> FIRST_TERM_SHELL"
    using assms(4) running_pcb [OF assms(3)] by (auto simp: user_proc_def)
  then have "leave_process lay (current_pcb s) (parentPCB (pcb_of s n)) (ucast status)
      (s\<lparr>eflags := eflags s AND NOT IF_MASK, tss_esp0 := pcb_esp0 (pcb_of s n)\<rparr>) = (r, v)"
    using assms(5) running_pcb [OF assms(3)] by (simp add: halt_def Let_def c current_pcb_def)
  note l = leave_order [OF assms(1-4) this]
  then show "order_ok lay v" "procs_ok v" "\<exists>p. running v p" by simp_all
  have "unat status < 2147483648" by (rule less_le_trans [OF unsigned_less]) simp
  then have "sint (ucast status :: u32) = uint status" using sint_of_nat_u32 [of "unat status"] by simp
  then show "r = Return (uint status)" using l(4) by simp
qed

lemma halt_excep_order:
  assumes "order_ok lay s" "procs_ok s" "running s n" "user_proc s n" "halt_excep lay status s = (r, v)"
  shows "order_ok lay v" "procs_ok v" "\<exists>p. running v p"
proof -
  have "leave_process lay (current_pcb s) (parentPCB (pcb_of s n)) (of_int status)
      (s\<lparr>eflags := eflags s AND NOT IF_MASK, tss_esp0 := pcb_esp0 (pcb_of s n)\<rparr>) = (r, v)"
    using assms(5) running_pcb [OF assms(3)] by (simp add: halt_excep_def Let_def cli_def current_pcb_def)
  from leave_order [OF assms(1-4) this] show "order_ok lay v" "procs_ok v" "\<exists>p. running v p" by simp_all
qed

section \<open>Switching and launching terminals\<close>

lemma video_identity_space:
  assumes "\<And>va. translate (ptmem s) pd va = space_view sp va" "video_frame sp = VIDEO" "xlat s = mmu_xlat (ptmem s) pd"
  shows "video_identity s"
  unfolding video_identity_def
proof (intro allI impI)
  fix k :: nat assume k: "k < 0x4000"
  let ?va = "VIDEO + of_nat k :: u32"
  have "unat ?va = 0xB8000 + k" using k by (simp add: unat_word_ariths unat_of_nat take_bit_nat_eq_self)
  then have i: "unat (drop_bit 12 ?va) = (0xB8000 + k) div 4096" "unat (drop_bit 22 ?va) = (0xB8000 + k) div 4194304"
    by (simp_all add: drop_bit_eq_div unat_div)
  then have "video_page ?va" "unat (drop_bit 22 ?va) = 0" using k by (auto simp: video_page_def)
  then have "space_view sp ?va = Some (?va, if drop_bit 12 ?va = 0xB8 then vidmapped sp else False)"
    using video_page_frame [of ?va] assms(2) by (simp add: space_view_def task_view_def kernel_view_def)
  then show "xlat s ?va = ?va" using assms(1,3) by (simp add: mmu_xlat_def)
qed

lemma directory_order:
  "order_ok lay (set_new_page_directory pd s) = order_ok lay s" "procs_ok (set_new_page_directory pd s) = procs_ok s"
  "running (set_new_page_directory pd s) p = running s p" "terminals_launched (set_new_page_directory pd s) = terminals_launched s"
proof -
  show "order_ok lay (set_new_page_directory pd s) = order_ok lay s"
    by (rule order_cong) (simp_all add: set_new_page_directory_def)
  show "terminals_launched (set_new_page_directory pd s) = terminals_launched s" by (simp add: set_new_page_directory_def)
  have "pid_set (set_new_page_directory pd s) = pid_set s" by (simp add: pid_set_def set_new_page_directory_def)
  then show "procs_ok (set_new_page_directory pd s) = procs_ok s" "running (set_new_page_directory pd s) p = running s p"
    by (simp_all add: procs_ok_def running_def set_new_page_directory_def)
qed

text \<open>The keyboard handler sees all video pages, because it uses the directory of the displayed terminal's process.\<close>

lemma shown_identity:
  assumes "layout_ok lay" "order_ok lay s"
  shows "video_identity (shown_directory lay s)"
proof -
  let ?d = "unat (terminal_state s)" and ?q = "foreground s (unat (terminal_state s))"
  obtain sps where sps: "spaces_ok lay sps s" using assms(2) by (auto simp: order_ok_def isolated_def)
  have q: "?q \<in> pid_set s" "owner s ?q = int ?d" using assms(2) by (auto simp: order_ok_def terminals_ok_def)
  have b: "0 \<le> ?q" "?q < 6" using pid_set_bounds [OF q(1)] by auto
  have "t_pid (terminals s ?d) = of_int ?q" by (simp add: foreground_def)
  then have u: "uint (t_pid (terminals s ?d)) = ?q" using sint_pid(2) [OF b] by simp
  have sp: "space_ok (sps ?q)" "video_frame (sps ?q) = VIDEO"
    "task_space (get_page_directory_for_pid lay ?q) (get_base_page_table_for_pid lay ?q) (sps ?q) s"
    using sps q by (auto simp: spaces_ok_def terminal_frame_def)
  have "translate (ptmem s) (get_page_directory_for_pid lay ?q) va = space_view (sps ?q) va" for va
    by (rule translate_task_space [OF layout_tables [OF assms(1) b] sp(1,3)])
  then show ?thesis
    using video_identity_space [of "shown_directory lay s" "get_page_directory_for_pid lay ?q" "sps ?q"] sp(2) u
    by (simp add: shown_directory_def set_new_page_directory_def)
qed

lemma switch_fields:
  fixes s t :: "'a kernel_scheme"
  assumes "video_identity s" "from \<in> {0, 1, 2}" "to \<in> {0, 1, 2}" "from \<noteq> to" "t = change_terminal_state lay from to s"
  shows "pcbs t = pcbs s" "pid_avail t = pid_avail s" "tss_esp0 t = tss_esp0 s" "frames t = frames s"
    "terminals_launched t = terminals_launched s" "\<And>i. t_pid (terminals t i) = t_pid (terminals s i)"
    "uint (terminal_state t) = to"
proof -
  define s1 where "s1 = memcpy (backing_store from) VIDEO LITERAL_4KB s"
  define s2 where "s2 = memcpy VIDEO (backing_store to) LITERAL_4KB s1"
  define s3 where "s3 = upd_terminal (nat from) (\<lambda>t. t\<lparr>t_screen_x := screen_x s2, t_screen_y := screen_y s2\<rparr>) s2"
  define x y where "x = t_screen_x (terminals s3 (nat to))" and "y = t_screen_y (terminals s3 (nat to))"
  define s4 where "s4 = set_cursor_location x y (s3\<lparr>screen_x := x, screen_y := y\<rparr>)"
  define s5 where "s5 = for_loop 0 6 (remap_video lay from to) s4"
  have t: "t = (vm_flush_page VIDEO s5)\<lparr>terminal_state := of_int to\<rparr>"
    unfolding assms(5) by (rule switch_eq [OF s1_def s2_def s3_def x_def y_def s4_def s5_def])
  have v: "0 \<le> from" "0 \<le> to" "nat from + 1 < 4" "nat to + 1 < 4" using assms(2,3) by auto
  have m1: "machine.more s1 = machine.more s" "video_identity s1"
    using memcpy_kernel_ptmem [OF assms(1) v(3), of 0] vpage_cases v(1) by (simp_all add: s1_def)
  then have "machine.more s2 = machine.more s"
    using memcpy_kernel_ptmem(1) [OF m1(2) _ v(4), of 0] vpage_cases v(2) by (simp add: s2_def)
  then have f: "pcbs s2 = pcbs s" "pid_avail s2 = pid_avail s" "tss_esp0 s2 = tss_esp0 s" "frames s2 = frames s"
    "terminals_launched s2 = terminals_launched s" "terminals s2 = terminals s"
    by (cases s; cases s2; simp)+
  obtain m where s5: "s5 = s4\<lparr>ptmem := m\<rparr>" using remap_loop_ptmem s5_def by blast
  have m4: "console.more s4 = console.more s3" by (simp add: s4_def)
  show "pcbs t = pcbs s" "pid_avail t = pid_avail s" "tss_esp0 t = tss_esp0 s" "frames t = frames s"
    "terminals_launched t = terminals_launched s" "\<And>i. t_pid (terminals t i) = t_pid (terminals s i)"
    using f console_more_sel [OF m4] by (simp_all add: t s5 s3_def vm_flush_page_def)
  show "uint (terminal_state t) = to" using assms(3) by (auto simp: t)
qed


lemma shown_bound: "terminals_ok s \<Longrightarrow> uint (terminal_state s) \<in> {0, 1, 2}"
proof -
  assume "terminals_ok s"
  then have "nat (uint (terminal_state s)) < 3" by (simp add: terminals_ok_def)
  then have "uint (terminal_state s) < 3" by linarith
  moreover have "0 \<le> uint (terminal_state s)" by simp
  ultimately have "uint (terminal_state s) = 0 \<or> uint (terminal_state s) = 1 \<or> uint (terminal_state s) = 2" by linarith
  then show ?thesis by simp
qed

lemma display_order:
  fixes s t :: "'a kernel_scheme"
  assumes lay: "layout_ok lay" and ord: "order_ok lay s" and vid: "video_identity s"
    and ft: "from = uint (terminal_state s)" "to \<in> {0, 1, 2}" "from \<noteq> to" and t: "t = change_terminal_state lay from to s"
  shows "tree_ok t" "isolated lay t" "leaf t = leaf s" "owner t = owner s" "foreground t = foreground s"
    and "procs_ok t = procs_ok s" "running t = running s" "unat (terminal_state t) = nat to"
    and "bit (terminals_launched s) (nat to) \<Longrightarrow> order_ok lay t"
proof -
  have fr: "from \<in> {0, 1, 2}" using ft(1) shown_bound [of s] ord by (simp add: order_ok_def)
  note f = switch_fields [OF vid fr ft(2,3) t]
  have ps: "pid_set t = pid_set s" by (rule pid_set_cong [OF f(2)])
  note tree = tree_cong [of t s, OF _ f(2,4)]
  show tr: "tree_ok t" using ord tree(1) f(1) by (simp add: order_ok_def)
  show lf: "leaf t = leaf s" and ow: "owner t = owner s" using tree(2,3) f(1) by simp_all
  show fg: "foreground t = foreground s" using f(6) by (auto simp: foreground_def)
  show "procs_ok t = procs_ok s" and ru: "running t = running s" using ps f(1,3) by (auto simp: procs_ok_def running_def)
  show ts: "unat (terminal_state t) = nat to" using f(7) by (simp add: unat_eq_nat_uint del: nat_uint_eq)
  obtain sps where sps: "spaces_ok lay sps s" "own_blocks sps s" using ord by (auto simp: order_ok_def isolated_def)
  have "own_blocks (\<lambda>p. remapped from to (owner s p) (sps p)) t"
    using sps(2) ps by (simp add: own_blocks_def remapped_def)
  then show iso: "isolated lay t"
    using switch_spaces [OF lay vid sps(1) fr ft(2,3,1)] unfolding t isolated_def by blast
  show "order_ok lay t" if "bit (terminals_launched s) (nat to)"
  proof -
    have "nat to < 3" using ft(2) by auto
    then have "terminals_ok t" using ord that ps lf ow fg ru ts f(5) by (simp add: order_ok_def terminals_ok_def)
    then show ?thesis using tr iso by (simp add: order_ok_def)
  qed
qed

text \<open>The first shell of terminal \<open>to\<close>, launched by the process \<open>p\<close> that the keyboard interrupted.\<close>

lemma launch_order:
  fixes s t v :: "'a kernel_scheme"
  assumes lay: "layout_ok lay" and ord: "order_ok lay s" and vid: "video_identity s" and pr: "procs_ok s" and run: "running s p"
    and ft: "from = uint (terminal_state s)" "to \<in> {1, 2}" "from \<noteq> to" and t: "t = change_terminal_state lay from to s"
    and u: "u = send_eoi KEYBOARD_LINE_NO ((save_process_context x1 x2 x3 (set_terminal_of_current_process y t))
                  \<lparr>terminals_launched := terminals_launched t OR push_bit (nat to) 1\<rparr>)"
    and st: "in_stack p (frame_ebp fr)" and ex: "internal_execute lay fr sh FIRST_TERM_SHELL u = Some (To_user e f w, v)"
  shows "order_ok lay v" "procs_ok v" "\<exists>q. running v q"
proof -
  have to: "to \<in> {0, 1, 2}" "nat to < 3" using ft(2) by auto
  note d = display_order [OF lay ord vid ft(1) to(1) ft(3) t]
  have "from \<in> {0, 1, 2}" using ft(1) shown_bound [of s] ord by (simp add: order_ok_def)
  note sf = switch_fields [OF vid this to(1) ft(3) t]
  have rt: "running t p" and pt: "procs_ok t" using run pr d(6,7) by simp_all
  let ?u = "(save_process_context x1 x2 x3 (set_terminal_of_current_process y t))
              \<lparr>terminals_launched := terminals_launched t OR push_bit (nat to) 1\<rparr>"
  have "same_procs ?u u" using u by simp
  then have q: "pcbs u = pcbs ?u" "pid_avail u = pid_avail t" "tss_esp0 u = tss_esp0 t" "frames u = frames t" "ptmem u = ptmem t"
    "terminal_state u = terminal_state t" "terminals_launched u = terminals_launched t OR push_bit (nat to) 1"
    "\<And>i. t_pid (terminals u i) = t_pid (terminals t i)"
    by (simp_all add: same_procs_def save_process_context_def set_terminal_of_current_process_def upd_pcb_def)
  have "current_pcb (set_terminal_of_current_process y t) = pcb_address p"
    using running_pcb [OF rt] by (simp add: current_pcb_def set_terminal_of_current_process_def)
  then have pc: "pcbs u a = (if a = pcb_address p then (pcbs t a)\<lparr>pcb_eip := x1, esp_k := x2, ebp_k := x3,
      pcb_eflags := get_flags (set_terminal_of_current_process y t)\<rparr> else pcbs t a)" for a
    unfolding q(1) by (simp add: save_process_context_def set_terminal_of_current_process_def)
  have lf: "leaf t p" using running_leaf(1) [OF ord pr run] d(3) by simp
  note tree = save_context_tree [OF d(1) lf pc q(2,4)]
  have ps: "pid_set u = pid_set t" by (rule pid_set_cong [OF q(2)])
  have fg: "foreground u = foreground s" using q(8) d(5) by (auto simp: foreground_def fun_eq_iff)
  have l: "bit (terminals_launched u) i \<longleftrightarrow> bit (terminals_launched s) i \<or> i = nat to" if "i < 3" for i
    using q(7) sf(5) that bit_push_1 [of "nat to" i] to(2) by (auto simp: bit_or_iff)
  have ru: "running u p" using rt ps q(3) by (simp add: running_def)
  have oth: "foreground u i \<in> pid_set u \<and> owner u (foreground u i) = int i \<and> leaf u (foreground u i)"
    if "i < 3" "i \<noteq> nat to" "bit (terminals_launched u) i" for i
    using that ord l fg tree(2,3) d(3,4) ps pid_set_cong [OF sf(2)] by (simp add: order_ok_def terminals_ok_def)
  have "isolated lay u" using d(2) isolated_cong [OF q(5,2) tree(3) q(6)] by simp
  note x = execute_order [OF lay tree(1) this _ ru _ _ to(2) _ _ oth _ st ex]
  have "procs_ok u" "leaf u p" "unat (terminal_state u) = nat to" "bit (terminals_launched u) (nat to)" "bit (terminals_launched u) 0"
    using tree(2,4) pt lf q(6) d(8) l to(2) ord by (simp_all add: order_ok_def terminals_ok_def)
  from x [OF this] show "order_ok lay v" "procs_ok v" "\<exists>q. running v q" by auto
qed


lemma execute_fails_same:
  fixes s :: "'a kernel_scheme"
  assumes "running s p" "internal_execute lay fr command flags s = Some (Return r, t)"
  shows "r = FAILURE" "mem_only (cli s) t" "same_procs s t"
proof -
  have "r = FAILURE \<and> mem_only (exec_entry s) t" using assms(2)
  proof (cases rule: internal_execute_cases)
    case (start u arg ino ep)
    have "0 \<le> get_available_pid s" "get_available_pid s < 6" "get_available_pid s \<notin> pid_set s"
      using get_available_pid_cases [of s] start(1) by auto
    moreover from this have "current_pcb s \<noteq> pcb_address (get_available_pid s)"
      using assms(1) running_pcb [OF assms(1)] pcb_address_inject [of p "get_available_pid s"] pid_set_bounds [of p s]
      by (auto simp: running_def)
    ultimately show ?thesis using start_process_sel(1) [OF start(3)] by auto
  qed simp_all
  then show "r = FAILURE" and m: "mem_only (cli s) t" using running_exec_entry [OF assms(1)] by simp_all
  then show "same_procs s t" using mem_only_same [OF m] by (simp add: same_procs_def cli_def)
qed

text \<open>
  Alt with a function key, from the switch to the displayed terminal's directory on. The launch of a new
  terminal is assumed to find its shell: the kernel marks the terminal as launched before it knows.
\<close>

lemma switch_or_launch_order:
  fixes s t :: "'a kernel_scheme"
  assumes lay: "layout_ok lay" and ord: "order_ok lay s" and vid: "video_identity s" and pr: "procs_ok s" and run: "running s p"
    and to: "to \<in> {1, 2}" and sl: "switch_or_launch lay kl (2 ^ nat to) (of_int to) s = Some (fl, t)"
    and ok: "\<And>r. fl = Return r \<Longrightarrow> terminals_launched t = terminals_launched s"
    and st: "in_stack p (frame_ebp (kl_exec kl))"
  shows "order_ok lay t" "procs_ok t" "\<exists>q. running t q"
proof -
  have u: "uint (of_int to :: u8) = to" "to \<in> {0, 1, 2}" "nat to < 3" using to by auto
  define c where "c = change_terminal_state lay (uint (terminal_state s)) to s"
  have bt: "terminals_launched s AND 2 ^ nat to = 0 \<longleftrightarrow> \<not> bit (terminals_launched s) (nat to)"
    by (simp add: bit_iff_and_push_bit_not_eq_0)
  have "order_ok lay t \<and> procs_ok t \<and> (\<exists>q. running t q)"
  proof (cases "CAN_SWITCH (2 ^ nat to) (of_int to) s")
    case True
    then have ne: "uint (terminal_state s) \<noteq> to" using u(1) by (auto simp: CAN_SWITCH_def)
    note d = display_order [OF lay ord vid refl u(2) ne c_def]
    have "uint (terminal_state s) \<in> {0, 1, 2}" using shown_bound [of s] ord by (simp add: order_ok_def)
    note sf = switch_fields [OF vid this u(2) ne c_def]
    show ?thesis
    proof (cases "bit (terminals_launched s) (nat to)")
      case launched: True
      then have "t = c" using sl True bt sf(5) u(1) by (simp add: switch_or_launch_def Let_def c_def)
      then show ?thesis using d(6,7,9) launched pr run by auto
    next
      case False
      let ?v = "(save_process_context (kl_label kl) (kl_esp kl + 4) (kl_ebp kl) (set_terminal_of_current_process (terminal_state c) c))
        \<lparr>terminals_launched := terminals_launched c OR push_bit (nat to) 1\<rparr>"
      let ?u = "send_eoi KEYBOARD_LINE_NO ?v"
      have lc: "terminals_launched (save_process_context a b x (set_terminal_of_current_process y c)) = terminals_launched c" for a b x y
        by (simp add: save_process_context_def set_terminal_of_current_process_def upd_pcb_def)
      have ex: "internal_execute lay (kl_exec kl) (kl_shell kl) FIRST_TERM_SHELL ?u = Some (fl, t)"
        using sl True False bt sf(5) u(1) lc by (simp add: switch_or_launch_def Let_def c_def [symmetric])
      show ?thesis
      proof (cases fl)
        case (To_user e f w)
        show ?thesis
          using launch_order [OF lay ord vid pr run refl to ne c_def refl st ex [unfolded To_user]] by blast
      next
        case (Return r)
        have sv: "same_procs ?v ?u" by simp
        have rv: "running ?v p" using run sf(2,3) by (simp add: running_def pid_set_def save_process_context_def set_terminal_of_current_process_def)
        have "terminals_launched t = terminals_launched ?v"
          using execute_fails_same(3) [OF same_procs_running [OF sv rv] ex [unfolded Return]] sv by (simp add: same_procs_def)
        then have "terminals_launched s = terminals_launched s OR 2 ^ nat to" using ok [OF Return] sf(5) by simp
        then have "bit (terminals_launched s OR 2 ^ nat to) (nat to) = bit (terminals_launched s) (nat to)" by simp
        then have False using False bit_push_1 [of "nat to" "nat to"] u(3) by (simp add: bit_or_iff)
        then show ?thesis ..
      qed
    qed
  next
    case False
    have pl: "plain (bytes_of (CHR 0x0A # ''Could not start new terminal: max processes running'' @ [CHR 0x0A]))" "plain (bytes_of ''391OS> '')"
      by code_simp+
    have say: "same_procs a b" if "say (kl_conv kl) ''391OS> '' a = Some b" for a b :: "'a kernel_scheme"
      using say_plain [OF pl(2), of "kl_conv kl" a] that by auto
    have "same_procs s t"
      using False sl say_plain [OF pl(1), of "kl_conv kl" s]
      by (auto simp: switch_or_launch_def split: if_splits option.splits intro: same_procs_trans dest: say)
    then show ?thesis using ord pr run order_same same_procs_ok same_procs_running by blast
  qed
  then show "order_ok lay t" "procs_ok t" "\<exists>q. running t q" by blast+
qed

lemma alt_keys_order:
  fixes s t :: "'a kernel_scheme"
  assumes lay: "layout_ok lay" and ord: "order_ok lay s" and pr: "procs_ok s" and run: "running s p"
    and ak: "alt_keys lay kl key (shown_directory lay s) = Some (fl, t)"
    and ok: "\<And>r. fl = Return r \<Longrightarrow> terminals_launched t = terminals_launched s" and st: "in_stack p (frame_ebp (kl_exec kl))"
  shows "order_ok lay t" "procs_ok t" "\<exists>q. running t q"
proof -
  let ?s = "cli (shown_directory lay s)"
  have same: "same_procs (shown_directory lay s) ?s" by simp
  have o: "order_ok lay ?s" "procs_ok ?s" "running ?s p"
    using order_same [OF same] same_procs_ok [OF same] same_procs_running [OF same] ord pr run
    by (simp_all add: shown_directory_def directory_order)
  have v: "video_identity ?s" using shown_identity [OF lay ord] by (simp add: video_identity_def cli_def)
  have l: "terminals_launched ?s = terminals_launched s" by (simp add: shown_directory_def cli_def set_new_page_directory_def)
  have sd: "order_ok lay (serviced_directory lay x) = order_ok lay x" "procs_ok (serviced_directory lay x) = procs_ok x"
    "running (serviced_directory lay x) q = running x q" "terminals_launched (serviced_directory lay x) = terminals_launched x" for x :: "'a kernel_scheme" and q
    by (simp_all add: serviced_directory_def directory_order)
  have "order_ok lay t \<and> procs_ok t \<and> (\<exists>q. running t q)"
  proof (cases "key = 16 \<or> key = 18")
    case True
    then obtain to :: int where to: "to \<in> {1, 2}" "key = (if to = 1 then 16 else 18)"
      using that [of 1] that [of 2] by auto
    then obtain r u where r: "switch_or_launch lay kl (2 ^ nat to) (of_int to) ?s = Some (r, u)"
      "(fl, t) = (case r of To_user e f p \<Rightarrow> (r, u) | Return _ \<Rightarrow> (Return (uint (keyboard_state (serviced_directory lay u))), serviced_directory lay u))"
      using ak by (auto simp: alt_keys_def Let_def split: option.splits flow.splits)
    have "r = Return x \<Longrightarrow> terminals_launched u = terminals_launched ?s" for x using ok r(2) l sd(4) by auto
    note k = switch_or_launch_order [OF lay o(1) v o(2,3) to(1) r(1) this st]
    then show ?thesis using r(2) sd by (cases r) auto
  next
    case False
    have "order_ok lay u \<and> procs_ok u \<and> running u p"
      if "u = (if key = 14 \<and> terminal_state ?s \<noteq> 0 then change_terminal_state lay (uint (terminal_state ?s)) 0 ?s else ?s)" for u
    proof (cases "key = 14 \<and> terminal_state ?s \<noteq> 0")
      case True
      then have ne: "uint (terminal_state ?s) \<noteq> 0" by (metis word_uint_eqI unsigned_0)
      note d = display_order [OF lay o(1) v refl _ ne refl]
      have "bit (terminals_launched ?s) 0" using o(1) by (simp add: order_ok_def terminals_ok_def)
      then show ?thesis using d(6,7,9) o(2,3) that True by simp
    next
      case False
      then show ?thesis using o unfolding that if_not_P [OF False] by simp
    qed
    then have "order_ok lay t \<and> procs_ok t \<and> running t p"
      using False ak sd by (auto simp: alt_keys_def Let_def split: option.splits flow.splits if_splits)
    then show ?thesis by blast
  qed
  then show "order_ok lay t" "procs_ok t" "\<exists>q. running t q" by blast+
qed


section \<open>The other steps\<close>

lemma vidmap_order:
  fixes s t :: "'a kernel_scheme"
  assumes lay: "layout_ok lay" and ord: "order_ok lay s" and pr: "procs_ok s" and run: "running s p"
    and sp: "spread s a 4" and vm: "sys_vidmap lay a s = (r, t)"
  shows "order_ok lay t" "procs_ok t" "running t p"
proof -
  have "order_ok lay t \<and> procs_ok t \<and> running t p"
  proof (cases "user_pointer a")
    case True
    obtain sps where sps: "spaces_ok lay sps s" "own_blocks sps s" using ord by (auto simp: order_ok_def isolated_def)
    let ?u = "store32 a VIDEO s"
    have t: "t = setup_user_access_pte (get_base_page_table_for_pid lay p) VIDEO (setup_user_access_pde (get_page_directory_for_pid lay p) VIDEO ?u)"
      using vidmap_eq [OF pr run True sp, of lay] vm by simp
    then obtain m where m: "t = ?u\<lparr>ptmem := m\<rparr>"
      by (simp add: setup_user_access_pte_def setup_user_access_pde_def set_entry_def Let_def)
    have su: "same_procs s ?u" by simp
    then have q: "pcbs t = pcbs s" "pid_avail t = pid_avail s" "tss_esp0 t = tss_esp0 s" "frames t = frames s"
      "terminal_state t = terminal_state s" "terminals_launched t = terminals_launched s" "\<And>i. t_pid (terminals t i) = t_pid (terminals s i)"
      using m by (simp_all add: same_procs_def)
    have ps: "pid_set t = pid_set s" by (rule pid_set_cong [OF q(2)])
    note tree = tree_cong [of t s, OF _ q(2,4)]
    have ow: "owner t = owner s" and lf: "leaf t = leaf s" and tr: "tree_ok t = tree_ok s" using tree q(1) by simp_all
    have p: "p \<in> pid_set s" using run by (simp add: running_def)
    have ts: "t = snd (sys_vidmap lay a s)" using vm by simp
    have sv: "space_ok (sps p)" "task_space (get_page_directory_for_pid lay p) (get_base_page_table_for_pid lay p) (sps p) s"
      using sps(1) p by (auto simp: spaces_ok_def)
    note vs = vidmap_space [OF lay pr run True sp sv(2), folded ts]
    have "spaces_ok lay (sps(p := (sps p)\<lparr>vidmapped := True\<rparr>)) t" "own_blocks (sps(p := (sps p)\<lparr>vidmapped := True\<rparr>)) t"
      using sps vs ps ow q(5) p by (auto simp: spaces_ok_def own_blocks_def space_ok_def terminal_frame_def)
    then have "isolated lay t" by (auto simp: isolated_def)
    moreover have "terminals_ok t" using ord terminals_cong [OF lf ow q(2,3,5-7)] by (simp add: order_ok_def)
    ultimately show ?thesis using ord tr pr run ps q(1,3) by (simp add: order_ok_def procs_ok_def running_def)
  next
    case False
    then have "t = s" using vm by (simp add: sys_vidmap_def)
    then show ?thesis using ord pr run by simp
  qed
  then show "order_ok lay t" "procs_ok t" "running t p" by blast+
qed

lemma round_robin_cases:
  assumes "bit (terminals_launched s) 0" "round_robin_scheduler lay sw s = (r, t)"
  obtains "t = s" | i where "i < 3" "bit (terminals_launched s) i"
    "save_and_switch_process_context lay sw (foreground s i) (s\<lparr>terminal_being_serviced := of_nat i\<rparr>) = (r, t)"
proof -
  let ?l = "terminals_launched s" and ?at = "\<lambda>i. s\<lparr>terminal_being_serviced := of_nat i\<rparr>"
  let ?go = "\<lambda>i. save_and_switch_process_context lay sw (foreground s i) (?at i)"
  define a b c where "a = (unat (terminal_being_serviced s) + 1) mod 3" and "b = (a + 1) mod 3" and "c = (b + 1) mod 3"
  have abc: "a < 3" "b < 3" "c < 3" "a = 0 \<or> b = 0 \<or> c = 0" unfolding a_def b_def c_def by (simp_all, presburger)
  have r1: "round_robin_from lay sw ?l (Suc 2) s = (if bit ?l a then ?go a else round_robin_from lay sw ?l (Suc 1) (?at a))"
    by (subst round_robin_step [OF a_def]) (simp add: foreground_def numeral_2_eq_2)
  have r2: "round_robin_from lay sw ?l (Suc 1) (?at a) = (if bit ?l b then ?go b else round_robin_from lay sw ?l (Suc 0) (?at b))"
    by (subst round_robin_step [of b "?at a"]) (simp_all add: unat_terminal [OF abc(1)] b_def foreground_def del: round_robin_from.simps)
  have r3: "round_robin_from lay sw ?l (Suc 0) (?at b) = (if bit ?l c then ?go c else round_robin_from lay sw ?l 0 (?at c))"
    by (subst round_robin_step [of c "?at b"]) (simp_all add: unat_terminal [OF abc(2)] c_def foreground_def del: round_robin_from.simps)
  have "terminals_launched s = 1 \<and> t = s \<or> round_robin_from lay sw ?l (Suc 2) s = (r, t)"
    using assms(2)
    by (simp add: round_robin_scheduler_def get_launched_terminals_def Let_def eval_nat_numeral del: round_robin_from.simps split: if_splits)
  then show thesis
    using that abc assms(1) unfolding r1 r2 r3 by (metis (full_types))
qed

lemma timer_order:
  assumes "order_ok lay s" "procs_ok s" "running s p" "round_robin_scheduler lay' sw s = (r, t)"
  shows "order_ok lay t" "procs_ok t" "\<exists>q. running t q"
proof -
  have b: "bit (terminals_launched s) 0" using assms(1) by (simp add: order_ok_def terminals_ok_def)
  have "order_ok lay t \<and> procs_ok t \<and> (\<exists>q. running t q)"
  proof (rule round_robin_cases [OF b assms(4)])
    assume "t = s" then show ?thesis using assms by blast
  next
    fix i assume i: "i < 3" "bit (terminals_launched s) i"
      and sw: "save_and_switch_process_context lay' sw (foreground s i) (s\<lparr>terminal_being_serviced := of_nat i\<rparr>) = (r, t)"
    let ?s = "s\<lparr>terminal_being_serviced := of_nat i\<rparr>"
    have same: "same_procs s ?s" by (simp add: same_procs_def)
    have fg: "foreground ?s i = foreground s i" by (simp add: foreground_def)
    have o: "order_ok lay ?s" "procs_ok ?s" "running ?s p"
      using order_same [OF same, of lay] same_procs_ok [OF same] same_procs_running [OF same] assms(1-3) by auto
    show ?thesis using switch_order [OF o i(1) _ sw [folded fg]] i(2) by auto
  qed
  then show "order_ok lay t" "procs_ok t" "\<exists>q. running t q" by blast+
qed

lemma exception_order:
  assumes "order_ok lay s" "procs_ok s" "running s n" "user_proc s n" "h \<in> set (exception_subs lay cb)" "h s = Some (r, v)"
  shows "order_ok lay v" "procs_ok v" "\<exists>p. running v p"
proof -
  obtain msg where "plain (bytes_of msg)" "h = report_and_halt lay cb msg" using exception_subs_report [OF assms(5)] by blast
  then obtain u where u: "halt_excep lay 256 u = (r, v)" "same_procs s u" using report_and_halt_eq [of msg lay cb s] assms(6) by auto
  have "order_ok lay u" "procs_ok u" "running u n" "user_proc u n"
    using order_same [OF u(2), of lay] same_procs_ok [OF u(2)] same_procs_running [OF u(2)] assms(1-4) u(2)
    by (auto simp: user_proc_def same_procs_def)
  from halt_excep_order [OF this u(1)] show "order_ok lay v" "procs_ok v" "\<exists>p. running v p" by simp_all
qed


end
