(* ===== verification/Syscall_Properties.thy ===== *)
theory Syscall_Properties
  imports Process_Tree
begin

text \<open>
  What the single system calls do with descriptors, bad arguments, program arguments and failures.
\<close>

section \<open>Descriptors\<close>

abbreviation fds_of :: "'a kernel_scheme \<Rightarrow> nat \<Rightarrow> file_info" where
  "fds_of s \<equiv> fd_array (pcbs s (current_pcb s))"

lemma in_use_upd: "i < 8 \<Longrightarrow> in_use (fds(i := f)) = (if fd_flags f AND 1 \<noteq> 0 then insert i (in_use fds) else in_use fds - {i})"
  by (auto simp: in_use_def)

lemma fds_same: "same_procs s t \<Longrightarrow> fds_of t = fds_of s"
  by (simp add: same_procs_def current_pcb_def)

text \<open>
  C25: \<^verbatim>\<open>open\<close> of a name in the directory returns the smallest descriptor that is not in
  use and takes it and no other; \<^verbatim>\<open>close\<close> of that descriptor succeeds and the descriptors in use
  are again those from before. With all of them in use, or a name that is not there, \<^verbatim>\<open>open\<close>
  fails and changes nothing.
\<close>

theorem open_close_roundtrip:
  fixes s :: "'a kernel_scheme"
  assumes "user_pointer name" "\<forall>d \<in> set (directory s). filetype d \<le> 2" "l = find (\<lambda>d. dentry_name d = field_text s name 32) (directory s)"
  shows "if l = None \<or> {2..<8} \<subseteq> in_use (fds_of s) then sys_open dev name s = Some (FAILURE, s)
    else \<exists>i t u. sys_open dev name s = Some (int i, t) \<and> 2 \<le> i \<and> i < 8 \<and> i \<notin> in_use (fds_of s) \<and>
      {2..<i} \<subseteq> in_use (fds_of s) \<and> in_use (fds_of t) = insert i (in_use (fds_of s)) \<and>
      sys_close (int i) t = Some (0, u) \<and> in_use (fds_of u) = in_use (fds_of s)"
proof (cases "l = None \<or> {2..<8} \<subseteq> in_use (fds_of s)")
  case True
  then have "read_dentry_by_name name s = (FAILURE, None) \<or> free_fd_from 6 2 (fds_of s) = 8"
  proof
    assume "l = None"
    then show ?thesis using assms(3) by (simp add: read_dentry_by_name_eq)
  next
    assume full: "{2..<8} \<subseteq> in_use (fds_of s)"
    show ?thesis by (rule free_fd [of "fds_of s"]) (use full in auto)
  qed
  then show ?thesis using True sys_open_fails [of name s FAILURE dev] by auto
next
  case False
  then obtain d where d: "l = Some d" by auto
  then have "d \<in> set (directory s)" using assms(3) find_Some_iff [of _ "directory s" d] by (metis nth_mem)
  then have ft: "filetype d \<le> 2" using assms(2) by blast
  have rd: "read_dentry_by_name name s = (SUCCESS, Some d)" using d assms(3) by (simp add: read_dentry_by_name_eq)
  obtain i where i: "free_fd_from 6 2 (fds_of s) = i" "2 \<le> i" "i < 8" "i \<notin> in_use (fds_of s)" "{2..<i} \<subseteq> in_use (fds_of s)"
  proof (rule free_fd [of "fds_of s"])
    fix i assume i: "free_fd_from 6 2 (fds_of s) = i" "2 \<le> i" "i < 8" "i \<notin> in_use (fds_of s)"
      and "\<forall>j. 2 \<le> j \<and> j < i \<longrightarrow> j \<in> in_use (fds_of s)"
    then have "{2..<i} \<subseteq> in_use (fds_of s)" by auto
    then show thesis using that i by blast
  qed (use False in auto)
  let ?s = "upd_fd (current_pcb s) i (\<lambda>_. opened d s) s"
  define t where "t = snd (o_func dev (fops_of (filetype d)) name ?s)"
  have op: "sys_open dev name s = Some (int i, t)"
    using sys_open_found [OF assms(1) rd ft i(1)] i(3) by (simp add: t_def)
  have fd: "fds_of t = (fds_of s)(i := opened d s)"
    using fds_same [OF o_func_same [of ?s dev "fops_of (filetype d)" name]] by (simp add: t_def)
  then have tt: "fd_flags (fds_of t i) \<noteq> 0" "fops_jmp_table (fds_of t i) = Some (fops_of (filetype d))"
    by (simp_all add: opened_def)
  note cl = sys_close_ok [OF i(2,3) tt]
  have "in_use (fds_of t) = insert i (in_use (fds_of s))" using fd in_use_upd [OF i(3)] by (simp add: opened_def)
  moreover have "in_use (fds_of (upd_fd (current_pcb t) i (\<lambda>f. f\<lparr>fd_flags := 0\<rparr>) t)) = in_use (fds_of s)"
    using fd i(3,4) by (simp add: in_use_upd)
  ultimately show ?thesis using False op cl i by auto
qed

theorem open_close_roundtrip_witness:
  "\<exists>t u. sys_open (\<lambda>_ _. 0) 0x08100000 flat_demo = Some (2, t) \<and> sys_close 2 t = Some (0, u) \<and>
     in_use (fds_of u) = {0, 1}"
proof -
  have ft: "\<forall>d \<in> set (directory flat_demo). filetype d \<le> 2"
    unfolding demo_directory by (simp add: dot_dentry_def rtc_dentry_def hi_dentry_def)
  have iu: "in_use (fds_of flat_demo) = {0, 1}"
    by (auto simp: in_use_def blank_pcb_def fresh_fds_def std_fd_def)
  have "\<exists>i t u. sys_open (\<lambda>_ _. 0) 0x08100000 flat_demo = Some (int i, t) \<and> 2 \<le> i \<and> {2..<i} \<subseteq> {0, 1 :: nat} \<and>
      sys_close (int i) t = Some (0, u) \<and> in_use (fds_of u) = {0, 1}"
    using open_close_roundtrip [of "0x08100000" flat_demo "Some hi_dentry" "\<lambda>_ _. 0"] ft demo_find demo_free iu
    by (auto simp: user_pointer_def)
  moreover have "{2..<i} \<subseteq> {0, 1 :: nat} \<Longrightarrow> 2 \<le> i \<Longrightarrow> i = 2" for i
  proof (rule ccontr)
    assume a: "{2..<i} \<subseteq> {0, 1}" "2 \<le> i" "i \<noteq> 2"
    then have "2 \<in> {2..<i}" by simp
    then show False using a(1) by auto
  qed
  ultimately show ?thesis by (metis of_nat_numeral)
qed


text \<open>
  C26: Bad arguments are rejected with -1 and change nothing: a descriptor that is out of range or not
  in use in \<^verbatim>\<open>read\<close>, \<^verbatim>\<open>write\<close> and \<^verbatim>\<open>close\<close>, the standard
  descriptors in \<^verbatim>\<open>close\<close>, and a pointer outside the user page in every call that takes one.
\<close>

theorem bad_arguments_rejected:
  fixes s :: "'a kernel_scheme"
  assumes "procs_ok s" "running s p" "fd \<notin> int ` in_use (fds_of s) \<or> \<not> user_pointer buf"
  shows "sys_read env fd buf n s = Some (-1, s) \<and> sys_write dev fd buf n s = Some (-1, s) \<and>
    (fd < 2 \<or> fd \<notin> int ` in_use (fds_of s) \<longrightarrow> sys_close fd s = Some (-1, s)) \<and>
    (\<not> user_pointer buf \<longrightarrow> sys_open dev buf s = Some (-1, s) \<and> sys_getargs buf n s = Some (-1, s) \<and>
       sys_vidmap lay buf s = (-1, s))"
proof -
  have bad: "fd < 0 \<or> 8 \<le> fd \<or> fd_flags (fds_of s (nat fd)) AND 1 = 0" if "fd \<notin> int ` in_use (fds_of s)"
  proof (rule ccontr)
    assume "\<not> ?thesis"
    then have "nat fd \<in> in_use (fds_of s)" "fd = int (nat fd)" by (auto simp: in_use_def)
    then show False using that by blast
  qed
  have "fd_flags (fds_of s (nat fd)) AND 1 = 0 \<Longrightarrow> 0 \<le> fd \<Longrightarrow> fd < 8 \<Longrightarrow> fd_flags (fds_of s (nat fd)) = 0"
    using running_fds [OF assms(1,2)] flag_bit by (auto simp: fds_ok_def nat_less_iff)
  then have "fd < 2 \<or> fd \<notin> int ` in_use (fds_of s) \<Longrightarrow> sys_close fd s = Some (-1, s)"
    using bad by (auto simp: sys_close_def Let_def)
  then show ?thesis
    using assms(3) bad sys_open_fails [of buf s FAILURE dev]
    by (auto simp: sys_read_def sys_write_def sys_getargs_def sys_vidmap_def Let_def)
qed

theorem bad_arguments_rejected_witness:
  "sys_read (\<lambda>_ u. u) 5 0x08100000 4 flat_demo = Some (-1, flat_demo) \<and> sys_close 1 flat_demo = Some (-1, flat_demo)"
proof -
  have "5 \<notin> int ` in_use (fds_of flat_demo)" by (auto simp: in_use_def blank_pcb_def fresh_fds_def)
  from bad_arguments_rejected [OF demo_procs_ok demo_running disjI1 [OF this], of "\<lambda>_ u. u" "0x08100000" 4]
    bad_arguments_rejected [OF demo_procs_ok demo_running, of 1 0]
  show ?thesis by (auto simp: user_pointer_def)
qed

text \<open>
  \<^verbatim>\<open>getargs\<close> copies the argument text of the process to the user's buffer and fills the
  rest of the buffer with zeros, and fails without changing anything if the text is longer than
  the buffer. (A text of exactly the length of the buffer is copied without a terminator.)
\<close>

theorem getargs_copies:
  fixes s :: "'a kernel_scheme"
  assumes "user_pointer buf" "cstr s (args (pcbs s (current_pcb s))) bs" "0 \<le> n" "n < 2147483648"
    and "apart s buf (nat n) (args (pcbs s (current_pcb s))) (nat n)" "spread s buf (nat n)"
  shows "if int (length bs) > n then sys_getargs buf n s = Some (FAILURE, s)
    else \<exists>t. sys_getargs buf n s = Some (SUCCESS, t) \<and>
      read_bytes t buf (nat n) = bs @ replicate (nat n - length bs) 0 \<and> keeps_outside buf (nat n) s t"
proof -
  let ?bs = "bs @ replicate (nat n - length bs) 0"
  have "length ?bs = nat n" if "\<not> int (length bs) > n" using that by simp
  then show ?thesis
    using getargs_eq [OF assms(1-5)] read_write_same [of s buf ?bs] keeps_outside_write [of buf ?bs s] assms(6) by auto
qed

theorem getargs_copies_witness:
  "\<exists>t. sys_getargs 0x08200000 4 flat_demo = Some (SUCCESS, t) \<and> read_bytes t 0x08200000 4 = [0x34, 0x32, 0, 0]"
proof -
  have e: "(0x450000, [0x68, 0x69, 0x20, 0x34, 0x32, 0]) \<in> set demo_segments" by (simp add: demo_segments_def)
  have a: "args (pcbs flat_demo (current_pcb flat_demo)) = 0x450003" by (simp add: blank_pcb_def)
  have "cstr flat_demo 0x450003 [0x34, 0x32]"
    using demo_load [OF e, of 3] demo_load [OF e, of 4] demo_load [OF e, of 5] by (simp add: cstr_def read_bytes_Suc)
  moreover have "apart flat_demo 0x08200000 4 0x450003 4" "spread flat_demo 0x08200000 4"
    by (rule demo_apart, simp_all) (rule demo_spread, simp)
  moreover have "replicate 2 (0 :: u8) = [0, 0]" by (simp add: numeral_2_eq_2)
  ultimately show ?thesis
    using getargs_copies [of "0x08200000" flat_demo "[0x34, 0x32]" 4, unfolded a] by (auto simp: user_pointer_def)
qed

text \<open>
  C27: An \<^verbatim>\<open>execute\<close> that returns to its caller has failed: the result is -1, and the
  processes, their address spaces, the terminals and the screen are as before. But the interrupt flag has been
  cleared: the early returns do not restore the flags they saved.
\<close>

theorem failed_execute:
  fixes s :: "'a kernel_scheme"
  assumes "running s p" "execute lay fr command s = Some (Return r, t)"
  shows "r = FAILURE \<and> same_procs s t \<and> terminals t = terminals s \<and> pid_set t = pid_set s \<and> xlat t = xlat s \<and>
    eflags t = eflags s AND NOT IF_MASK"
proof -
  note e = execute_fails_same [OF assms(1) assms(2) [unfolded execute_def]]
  note f = mem_only_fields [OF e(2)]
  have "eflags t = eflags (cli s)" using e(2) by (simp add: mem_only_def)
  then show ?thesis using e(1,3) f by (simp add: pid_set_def cli_def)
qed


definition full_demo :: kernel where
  "full_demo = flat_demo\<lparr>pid_avail := mask 6\<rparr>"

theorem failed_execute_witness:
  "\<exists>t. execute demo_layout demo_locals 0x450000 full_demo = Some (Return (-1), t) \<and> same_procs full_demo t \<and> eflags t = 2"
proof -
  have ps: "pid_set full_demo = {0..<6}" by (auto simp: pid_set_def full_demo_def bit_mask_iff)
  then have r: "running full_demo 0" by (simp add: running_def full_demo_def)
  have "get_available_pid full_demo = -1" using get_available_pid_cases [of full_demo] ps by auto
  moreover have "\<not> all_pids_available full_demo" by (simp add: all_pids_available_def full_demo_def mask_eq_exp_minus_1)
  moreover have "get_available_pid (cli full_demo) = get_available_pid full_demo" "all_pids_available (cli full_demo) = all_pids_available full_demo"
    by (simp_all add: get_available_pid_def all_pids_available_def cli_def)
  ultimately have ex: "execute demo_layout demo_locals 0x450000 full_demo = Some (Return (-1), cli full_demo)"
    by (simp add: execute_def internal_execute_def Let_def cli_and_save_def)
  have "eflags full_demo = 0x202" by (simp add: full_demo_def)
  then show ?thesis using failed_execute [OF r ex] ex by simp
qed


end
