(* ===== verification/Device_Properties.thy ===== *)
theory Device_Properties
  imports Demo
begin

text \<open>The interrupt controllers and the clock: what the drivers make the hardware do.\<close>

section \<open>Interrupt controllers\<close>

text \<open>
  C34: After \<^verbatim>\<open>i8259_init\<close> every line but the cascade line 2 is masked, and after any
  sequence of \<^verbatim>\<open>enable_irq\<close> and \<^verbatim>\<open>disable_irq\<close> a line is masked exactly if the
  last request for it was to disable it, or if there was none and it is not the cascade line: no
  request disturbs another line, on either controller.
\<close>

theorem irq_requests_obeyed:
  fixes s :: "'a i8259_scheme"
  assumes "reads_back dev" "m < 16" "\<forall>r \<in> set rs. irq_line r < 16"
  shows "irq_masked (fold (serve (\<lambda>n. enable_irq dev (of_nat n)) (\<lambda>n. disable_irq dev (of_nat n))) rs (i8259_init s)) m =
     (case filter (\<lambda>r. irq_line r = m) rs of [] \<Rightarrow> m \<noteq> 2 | q # qs \<Rightarrow> last (q # qs) = Disable m)"
  using conjunct2 [OF pic.requests_masked [OF conjI [OF i8259_init_sync assms(1)] assms(2,3), of s]]
  unfolding i8259_init_masked [OF assms(2)] .

definition echo_device :: device where
  "echo_device log p = (case last_out p log of None \<Rightarrow> 0 | Some v \<Rightarrow> v)"

lemma echo_reads_back: "reads_back echo_device"
  by (simp add: reads_back_def echo_device_def)

theorem irq_requests_obeyed_witness:
  "irq_masked (enable_irq echo_device 8 (disable_irq echo_device 1 (enable_irq echo_device 1 (i8259_init flat_demo)))) 1 \<and>
   \<not> irq_masked (enable_irq echo_device 8 (disable_irq echo_device 1 (enable_irq echo_device 1 (i8259_init flat_demo)))) 8"
  using irq_requests_obeyed [OF echo_reads_back, of 1 "[Enable 1, Disable 1, Enable 8]" flat_demo]
    irq_requests_obeyed [OF echo_reads_back, of 8 "[Enable 1, Disable 1, Enable 8]" flat_demo]
  by simp

text \<open>
  C35: \<^verbatim>\<open>send_eoi\<close> acknowledges an interrupt of the first controller with the specific end of
  interrupt of its line. For a line of the second controller it tells both; the command for the second
  controller is the right one for the clock (line 8) and for no other line.
\<close>

theorem send_eoi_acknowledges:
  assumes "n < 16"
  shows "if n < 8 then io_log (send_eoi (of_nat n) s) = Out 0x20 (0x60 OR of_nat n) # io_log s
    else \<exists>b. io_log (send_eoi (of_nat n) s) = [Out 0x20 0x62, Out 0xA0 b] @ io_log s \<and> (b = 0x60 OR of_nat (n - 8) \<longleftrightarrow> n = 8)"
proof -
  have A: "list_all (\<lambda>n. (ucast (0x60 OR (8 - of_nat n :: u32)) = (0x60 OR of_nat (n - 8) :: u8)) = (n = 8)) [8..<16]"
    and B: "list_all (\<lambda>n. ucast (0x60 OR of_nat n :: u32) = (0x60 OR of_nat n :: u8)) [0..<8]" by code_simp+
  have "n \<in> set [8..<16]" if "8 \<le> n" using that assms by (simp only: set_upt atLeastLessThan_iff)
  then have hi: "(ucast (0x60 OR (8 - of_nat n :: u32)) = (0x60 OR of_nat (n - 8) :: u8)) = (n = 8)" if "8 \<le> n"
    using A that unfolding list_all_iff by blast
  have "n \<in> set [0..<8]" if "n < 8" using that by (simp only: set_upt atLeastLessThan_iff le0 simp_thms)
  then have lo: "ucast (0x60 OR of_nat n :: u32) = (0x60 OR of_nat n :: u8)" if "n < 8"
    using B that unfolding list_all_iff by blast
  show ?thesis
  proof (cases "n < 8")
    case True
    then show ?thesis using irq_le [OF assms] lo by (simp add: send_eoi_def)
  next
    case False
    then show ?thesis using irq_le [OF assms] hi by (simp only: send_eoi_def Let_def if_True outb_frame not_less) simp
  qed
qed

theorem send_eoi_acknowledges_witness: "io_log (send_eoi 1 flat_demo) = Out 0x20 0x61 # io_log flat_demo"
  using send_eoi_acknowledges [of 1 flat_demo] by simp

section \<open>The clock\<close>

text \<open>
  C36: \<^verbatim>\<open>write_rtc\<close> always returns. It accepts exactly the powers of two from 2 to 1024: for
  2^k it returns 1 and writes to register A of the clock, under its old upper half, the rate
  16 - k, which is the divider of the base frequency that gives 2^k interrupts a second; the
  interrupt flag is as before. Any other number is refused with -1 and no port is touched.
\<close>

theorem write_rtc_sets_rate:
  fixes s :: "'a rtc_scheme"
  shows "\<exists>r t. write_rtc dev fd buf n s = Some (r, t) \<and> eflags t = eflags s \<and>
    (if \<exists>k\<in>{1..10}. sint (load32 s buf) = 2 ^ k
     then r = 1 \<and> (\<exists>k v evs. k \<in> {1..10} \<and> sint (load32 s buf) = 2 ^ k \<and> 32768 div 2 ^ (16 - k - 1) = (2 :: nat) ^ k \<and>
       io_log t = evs @ [Out 0x71 ((v AND 0xF0) OR of_nat (16 - k)), Out 0x70 0x8A, In 0x71 v, Out 0x70 0x8A] @ io_log s)
     else r = -1 \<and> t = s)"
proof (cases "\<exists>k\<in>{1..10}. sint (load32 s buf) = 2 ^ k")
  case True
  then obtain k where k: "k \<in> {1..10}" "sint (load32 s buf) = 2 ^ k" by blast
  have c: "rtc_cond (2 ^ k)" using k(1) rtc_cond_iff by blast
  have "16 - int k = int (16 - k)" using k(1) by auto
  then have w: "word_of_int (16 - int k) = (of_nat (16 - k) :: u8)" by (simp only: of_int_of_nat_eq)
  have "(2 :: nat) ^ 15 div 2 ^ (15 - k) = 2 ^ (15 - (15 - k))" by (simp only: power_diff [symmetric])
  then have d: "32768 div 2 ^ (16 - k - 1) = (2 :: nat) ^ k" using k(1) by simp
  let ?v = "dev (Out 0x70 0x8A # io_log s) 0x71"
  show ?thesis
    using True k c d w rate_of_freq [OF k(1)]
    by (auto simp: write_rtc_def Let_def cli_and_save_def inb_def outb_def enable_irq_def restore_flags_def cli_def
        intro!: exI [of _ k] exI [of _ ?v])
next
  case False
  then have "\<not> rtc_cond (sint (load32 s buf))" using rtc_cond_iff by blast
  then show ?thesis using False by (simp add: write_rtc_def Let_def)
qed

end
