(* ===== verification/Scancode_Facts.thy ===== *)
theory Scancode_Facts
  imports Scancodes
begin

text \<open>
  Facts about the scan code tables that are checked entry by entry: the pairing of press and
  release codes. They are kept apart because evaluating them takes a while.
\<close>

text \<open>
  Every press code with an entry has a release code with the same meaning, except for the
  key of the grave accent (its release entry was given index 0x89) and the tabulator.
\<close>

definition press_release_agree :: "u8 \<times> u8 \<times> u8 \<Rightarrow> bool" where
  "press_release_agree = (\<lambda>(i, r, f). f AND 1 = 1 \<or> i = 0x29 \<or> i = 0x0F \<or>
     (i < 0x80 \<and> scancode_of (i + 0x80) = Some (r, f OR 1)))"

lemma press_release_all: "list_all press_release_agree scancode_assignments"
  by code_simp


text \<open>
  The table that \<^verbatim>\<open>init_scancode_table\<close> fills pairs the codes of a key: the code of a
  press, below 0x80, and the code of the release, 0x80 higher, have the same character, and only
  the first counts as a press. The two exceptions are the grave accent, whose release entry was
  given a wrong index, and the tabulator, whose two entries differ in their flags.
\<close>

theorem press_release_pair:
  fixes s :: "'a scancodes_scheme"
  assumes "scancode_of i = Some (r, f)" "f AND 1 = 0" "i \<noteq> 0x29" "i \<noteq> 0x0F" "t = init_scancode_table s"
  shows "i < 0x80 \<and> result (scancode_table t i) = r \<and> result (scancode_table t (i + 0x80)) = r \<and>
    IS_MAKE_SC (scancode_table t i) \<and> \<not> IS_MAKE_SC (scancode_table t (i + 0x80))"
proof -
  have "(i, r, f) \<in> set scancode_assignments" using assms(1) by (auto simp: scancode_of_def dest: map_of_SomeD)
  then have "press_release_agree (i, r, f)" using press_release_all by (simp add: list_all_iff)
  then have p: "i < 0x80" "scancode_of (i + 0x80) = Some (r, f OR 1)"
    using assms(2-4) by (auto simp: press_release_agree_def)
  have "(f OR 1) AND 1 = (1 :: u8)" by (rule bit_eqI) (auto simp: bit_and_iff bit_or_iff)
  then show ?thesis using p assms(1,2,5) by (simp add: table_entry IS_MAKE_SC_def)
qed

theorem press_release_pair_witness:
  "\<forall>s :: scancodes. result (scancode_table (init_scancode_table s) 0x1E) = 97 \<and>
     result (scancode_table (init_scancode_table s) 0x9E) = 97 \<and> \<not> IS_MAKE_SC (scancode_table (init_scancode_table s) 0x9E)"
proof
  fix s :: scancodes
  have "scancode_of 0x1E = Some (97, 6)" by code_simp
  from press_release_pair [OF this _ _ _ refl, of s]
  show "result (scancode_table (init_scancode_table s) 0x1E) = 97 \<and>
     result (scancode_table (init_scancode_table s) 0x9E) = 97 \<and> \<not> IS_MAKE_SC (scancode_table (init_scancode_table s) 0x9E)"
    by simp
qed


end
