(* ===== verification/Isolation.thy ===== *)
theory Isolation
  imports Process_Tree
begin

text \<open>
  The kernel as a whole: a step relation for what the programs, the devices and the user at the keyboard make
  it do, and what holds in every state that can be reached.
\<close>

section \<open>Steps of the kernel\<close>

text \<open>
  An environment is well behaved if what happens while a process waits in a call keeps the kernel in order
  and comes back to that process.
\<close>

definition env_ok :: "layout \<Rightarrow> (nat \<Rightarrow> 'a kernel_scheme \<Rightarrow> 'a kernel_scheme) \<Rightarrow> bool" where
  "env_ok lay env \<longleftrightarrow> (\<forall>p k s. procs_ok s \<and> order_ok lay s \<and> running s p \<longrightarrow>
     procs_ok (env k s) \<and> order_ok lay (env k s) \<and> running (env k s) p)"

text \<open>
  One system call, exception, timer tick or switch of the terminal. Programs are started by processes of the displayed
  terminal (the kernel attaches the new program to that terminal, whoever starts it), the frames of
  \<^verbatim>\<open>execute\<close> are on the kernel stack of the caller, the first shells of the terminals stay, and a
  terminal that is launched gets its shell.
\<close>

inductive kstep :: "layout \<Rightarrow> device \<Rightarrow> 'a kernel_scheme \<Rightarrow> 'a kernel_scheme \<Rightarrow> bool" for lay dev where
  open_step: "\<forall>d \<in> set (directory s). filetype d \<le> 2 \<Longrightarrow> sys_open dev name s = Some (r, t) \<Longrightarrow> kstep lay dev s t"
| close_step: "sys_close fd s = Some (r, t) \<Longrightarrow> kstep lay dev s t"
| read_step: "env_ok lay env \<Longrightarrow> sys_read env fd buf n s = Some (r, t) \<Longrightarrow> kstep lay dev s t"
| write_step: "sys_write dev fd buf n s = Some (r, t) \<Longrightarrow> kstep lay dev s t"
| getargs_step: "sys_getargs buf n s = Some (r, t) \<Longrightarrow> kstep lay dev s t"
| vidmap_step: "spread s a 4 \<Longrightarrow> sys_vidmap lay a s = (r, t) \<Longrightarrow> kstep lay dev s t"
| execute_step: "running s p \<Longrightarrow> owner s p = uint (terminal_state s) \<Longrightarrow> in_stack p (frame_ebp fr) \<Longrightarrow>
    execute lay fr command s = Some (To_user e f u, t) \<Longrightarrow> kstep lay dev s t"
| execute_fails: "execute lay fr command s = Some (Return r, t) \<Longrightarrow> kstep lay dev s t"
| halt_step: "running s p \<Longrightarrow> user_proc s p \<Longrightarrow> halt lay fr sh status s = Some (r, t) \<Longrightarrow> kstep lay dev s t"
| exception_step: "running s p \<Longrightarrow> user_proc s p \<Longrightarrow> h \<in> set (exception_subs lay cb) \<Longrightarrow> h s = Some (r, t) \<Longrightarrow> kstep lay dev s t"
| timer_step: "round_robin_scheduler lay sw s = (j, t) \<Longrightarrow> kstep lay dev s t"
| key_step: "running s p \<Longrightarrow> in_stack p (frame_ebp (kl_exec kl)) \<Longrightarrow> alt_keys lay kl key (shown_directory lay s) = Some (r, t) \<Longrightarrow>
    (\<forall>x. r = Return x \<longrightarrow> terminals_launched t = terminals_launched s) \<Longrightarrow> kstep lay dev s t"

inductive_cases kstep_cases: "kstep lay dev s t"

definition kernel_ok :: "layout \<Rightarrow> 'a kernel_scheme \<Rightarrow> bool" where
  "kernel_ok lay s \<longleftrightarrow> layout_ok lay \<and> procs_ok s \<and> order_ok lay s \<and> (\<exists>p. running s p)"

lemma kernel_okI: "layout_ok lay \<Longrightarrow> order_ok lay s \<Longrightarrow> procs_ok s \<Longrightarrow> \<exists>p. running s p \<Longrightarrow> kernel_ok lay s"
  by (simp add: kernel_ok_def)

lemma env_ok_inv: "env_ok lay env \<Longrightarrow> procs_ok s \<Longrightarrow> order_ok lay s \<Longrightarrow> running s p \<Longrightarrow> kernel_inv (order_ok lay) env p s"
  using order_stable [of lay] unfolding env_ok_def kernel_inv_def by blast

lemma kernel_same: "same_procs s t \<Longrightarrow> kernel_ok lay s \<Longrightarrow> kernel_ok lay t"
  using order_same same_procs_ok same_procs_running unfolding kernel_ok_def by blast

lemma getargs_same: "sys_getargs buf n s = Some (r, t) \<Longrightarrow> same_procs s t"
  by (auto simp: sys_getargs_def Let_def split: if_splits option.splits)

text \<open>A property that every step keeps holds in all states that can be reached.\<close>

locale kept_property =
  fixes step :: "'s \<Rightarrow> 's \<Rightarrow> bool" and holds :: "'s \<Rightarrow> bool"
  assumes step_keeps: "holds s \<Longrightarrow> step s t \<Longrightarrow> holds t"
begin

lemma reached: "step\<^sup>*\<^sup>* s t \<Longrightarrow> holds s \<Longrightarrow> holds t"
  by (induction rule: rtranclp_induct) (auto intro: step_keeps)

end

lemma kstep_kernel: 
  assumes ok: "kernel_ok lay s" and st: "kstep lay dev s t"
  shows "kernel_ok lay t"
proof -
  obtain p where lay: "layout_ok lay" and p: "procs_ok s" "order_ok lay s" "running s p" using ok by (auto simp: kernel_ok_def)
  have inv: "kernel_inv (order_ok lay) (\<lambda>_ u. u) p s" by (rule env_ok_inv [OF _ p]) (simp add: env_ok_def)
  have ki: "kernel_inv (order_ok lay) env p u \<Longrightarrow> kernel_ok lay u" for env u using lay by (auto simp: kernel_inv_def kernel_ok_def)
  have bits: "tree_ok s" "terminals_ok s" "isolated lay s" using p(2) by (simp_all add: order_ok_def)
  note I = kernel_okI [OF lay]
  from st show ?thesis
  proof cases
    case open_step then show ?thesis using sys_open_inv [OF inv] ki by blast
  next
    case close_step then show ?thesis using sys_close_inv [OF inv] ki by blast
  next
    case read_step then show ?thesis using sys_read_inv [OF env_ok_inv [OF _ p]] ki by blast
  next
    case write_step then show ?thesis using sys_write_inv [OF inv] ki by blast
  next
    case getargs_step then show ?thesis using getargs_same kernel_same ok by blast
  next
    case vidmap_step then show ?thesis using vidmap_order [OF lay p(2,1,3)] I by blast
  next
    case (execute_step q fr command e f u)
    have ts: "unat (terminal_state s) < 3" "bit (terminals_launched s) (unat (terminal_state s))" "bit (terminals_launched s) 0"
      using bits(2) by (simp_all add: terminals_ok_def)
    note x = execute_order [OF lay bits(1,3) p(1) execute_step(1) running_leaf(1) [OF p(2,1) execute_step(1)] refl ts _ _ execute_step(3)
        execute_step(4) [unfolded execute_def]]
    have "order_ok lay t" "procs_ok t" "running t (get_available_pid s)"
      using x bits(2) execute_step(2) by (auto simp: terminals_ok_def)
    then show ?thesis using I by blast
  next
    case (execute_fails fr command r)
    then show ?thesis using execute_fails_same(3) [OF p(3)] kernel_same [OF _ ok] by (auto simp: execute_def)
  next
    case (halt_step q fr sh status r)
    then show ?thesis using halt_order(1-3) [OF p(2,1) halt_step] I by blast
  next
    case (exception_step q h cb r)
    then show ?thesis using exception_order [OF p(2,1) exception_step] I by blast
  next
    case (timer_step sw j)
    then show ?thesis using timer_order [OF p(2,1,3) timer_step] I by blast
  next
    case (key_step q kl key r)
    then show ?thesis using alt_keys_order [OF lay p(2,1) key_step(1,3) _ key_step(2)] I by blast
  qed
qed

interpretation kernel: kept_property "kstep lay dev" "kernel_ok lay" for lay dev
  by unfold_locales (rule kstep_kernel)

section \<open>What holds in every reachable state\<close>


lemma demo_kernel_ok: "kernel_ok demo_layout demo"
proof -
  have "user_proc demo 0 = False" by (simp add: user_proc_def blank_pcb_def)
  then have "tree_ok demo" "leaf demo 0" by (simp_all add: tree_ok_def leaf_def pid_set_demo)
  moreover have "foreground demo i = 0" "owner demo 0 = 0" for i
    by (simp_all add: foreground_def owner_def blank_pcb_def demo_def set_new_page_directory_def blank_terminal_def)
  moreover have "terminals_launched demo = 1"
  proof -
    obtain m where "setup_task_paging (get_page_directory_for_pid demo_layout 0) (get_base_page_table_for_pid demo_layout 0)
        (block_address_for_process 0) flat_demo = flat_demo\<lparr>ptmem := m\<rparr>"
      using setup_task_paging_ptmem by blast
    then show ?thesis by (simp add: demo_def set_new_page_directory_def) (simp add: flat_demo_def)
  qed
  ultimately have "tree_ok demo" "terminals_ok demo"
    by (auto simp: terminals_ok_def pid_set_demo bit_1_iff dest!: running_unique [OF running_demo])
  moreover have "isolated demo_layout demo" using spaces_demo own_blocks_demo by (auto simp: isolated_def)
  ultimately show ?thesis
    using procs_ok_demo running_demo demo_layout_ok by (auto simp: kernel_ok_def order_ok_def)
qed

lemma demo_step:
  obtains t where "execute demo_layout demo_locals 0x450000 demo = Some (To_user 0x08048000 0x3206 0x08400000, t)"
    "kstep demo_layout (\<lambda>_ _. 0) demo t" "pid_set t = {0, 1}"
proof -
  obtain t where ex: "execute demo_layout demo_locals 0x450000 demo = Some (To_user 0x08048000 0x3206 0x08400000, t)"
    using demo_starts by blast
  have "in_stack 0 (frame_ebp demo_locals)" "owner demo 0 = uint (terminal_state demo)"
    by (simp_all add: in_stack_def demo_locals_def pcb_address_def kernel_stack_def owner_def blank_pcb_def)
  then have "kstep demo_layout (\<lambda>_ _. 0) demo t" by (intro execute_step [OF running_demo _ _ ex])
  moreover have "pid_set t = {0, 1}"
    using execute_procs_ok(3) [OF procs_ok_demo running_demo _ ex [unfolded execute_def]] by (auto simp: available_demo pid_set_demo)
  ultimately show thesis using that ex by blast
qed




section \<open>A program started in the background\<close>

text \<open>
  Why a program must be started from the displayed terminal: the kernel gives the terminal that is displayed to
  the new program, and leaves its own terminal to the process that started it, although that waits. The
  timer will make the waiting process run.
\<close>

lemma background_execute:
  fixes s t :: "'a kernel_scheme"
  assumes "kernel_ok lay s" "running s p" "owner s p \<noteq> uint (terminal_state s)" "execute lay fr command s = Some (To_user e f u, t)"
  shows "foreground t (nat (owner s p)) = p \<and> bit (terminals_launched t) (nat (owner s p)) \<and> \<not> leaf t p"
proof -
  have ok: "procs_ok s" "order_ok lay s" using assms(1) by (auto simp: kernel_ok_def)
  note e = started_tree [OF assms(2) assms(4) [unfolded execute_def] refl disjI1 [OF refl]] and l = running_leaf [OF ok(2,1) assms(2)]
  have "0 \<le> owner s p" by (simp add: owner_def)
  then have "nat (owner s p) \<noteq> unat (terminal_state s)" using assms(3) by (metis int_nat_eq of_nat_unat)
  moreover have "\<not> leaf t p" using e(4,7,10) by (auto simp: leaf_def)
  ultimately show ?thesis using e(17,19) l(2,3) by simp
qed

end
