(* ===== verification/User_Lib.thy ===== *)
theory User_Lib
  imports Syscall_Properties
begin

text \<open>
  The way from a program into the kernel and the library the programs are linked with: the system call
  handler of \<^verbatim>\<open>student-distrib/interrupt_handler_asm.S\<close>, the call wrappers of
  \<^verbatim>\<open>syscalls/ece391syscall.S\<close> and the functions of \<^verbatim>\<open>syscalls/ece391support.c\<close>.

  A program runs on the same state as the kernel: its memory is what the translation in use shows it. Where the
  linker puts the string constants of a program is not in the sources; the field \<open>ul_lit\<close> gives the address of
  each.
\<close>

section \<open>System calls\<close>

record user_link =
  ul_lay :: layout
  ul_dev :: device
  ul_fr :: exec_locals
  ul_shell :: u32
  ul_lit :: "string \<Rightarrow> u32"

type_synonym 'a waiting = "nat \<Rightarrow> 'a kernel_scheme \<Rightarrow> 'a kernel_scheme"

definition returning :: "(int \<times> 'a) option \<Rightarrow> (flow \<times> 'a) option" where
  "returning = map_option (\<lambda>(r, s). (Return r, s))"

text \<open>
  \<^verbatim>\<open>system_call_handler\<close>: the call number is in EAX, the arguments are in EBX, ECX and EDX. The
  bounds let the numbers 1 to 8 through; 9 and 10 have entries in the table that are never used.
\<close>

definition system_call_handler ::
    "user_link \<Rightarrow> 'a waiting \<Rightarrow> u32 \<Rightarrow> u32 \<Rightarrow> u32 \<Rightarrow> u32 \<Rightarrow> 'a kernel_scheme \<Rightarrow> (flow \<times> 'a kernel_scheme) option" where
  "system_call_handler U env eax ebx ecx edx s =
     (if sint eax < 1 \<or> sint eax > 8 then Some (Return (-1), s)
      else if eax = 1 then halt (ul_lay U) (ul_fr U) (ul_shell U) (ucast ebx) s
      else if eax = 2 then execute (ul_lay U) (ul_fr U) ebx s
      else if eax = 3 then returning (sys_read env (sint ebx) ecx (sint edx) s)
      else if eax = 4 then returning (sys_write (ul_dev U) (sint ebx) ecx (sint edx) s)
      else if eax = 5 then returning (sys_open (ul_dev U) ebx s)
      else if eax = 6 then returning (sys_close (sint ebx) s)
      else if eax = 7 then returning (sys_getargs ebx (sint ecx) s)
      else returning (Some (sys_vidmap (ul_lay U) ebx s)))"

text \<open>What the program sees of an \<^verbatim>\<open>INT 0x80\<close> that comes back to it.\<close>

definition int80 ::
    "user_link \<Rightarrow> 'a waiting \<Rightarrow> u32 \<Rightarrow> u32 \<Rightarrow> u32 \<Rightarrow> u32 \<Rightarrow> 'a kernel_scheme \<Rightarrow> (int \<times> 'a kernel_scheme) option" where
  "int80 U env eax ebx ecx edx s =
     (case system_call_handler U env eax ebx ecx edx s of Some (Return r, t) \<Rightarrow> Some (r, t) | _ \<Rightarrow> None)"

definition ece391_read :: "user_link \<Rightarrow> 'a waiting \<Rightarrow> int \<Rightarrow> u32 \<Rightarrow> int \<Rightarrow> 'a kernel_scheme \<Rightarrow> (int \<times> 'a kernel_scheme) option" where
  "ece391_read U env fd buf nbytes = int80 U env 3 (of_int fd) buf (of_int nbytes)"

definition ece391_write :: "user_link \<Rightarrow> int \<Rightarrow> u32 \<Rightarrow> int \<Rightarrow> 'a kernel_scheme \<Rightarrow> (int \<times> 'a kernel_scheme) option" where
  "ece391_write U fd buf nbytes = int80 U (\<lambda>_ s. s) 4 (of_int fd) buf (of_int nbytes)"

definition ece391_open :: "user_link \<Rightarrow> u32 \<Rightarrow> 'a kernel_scheme \<Rightarrow> (int \<times> 'a kernel_scheme) option" where
  "ece391_open U fname = int80 U (\<lambda>_ s. s) 5 fname 0 0"

definition ece391_close :: "user_link \<Rightarrow> int \<Rightarrow> 'a kernel_scheme \<Rightarrow> (int \<times> 'a kernel_scheme) option" where
  "ece391_close U fd = int80 U (\<lambda>_ s. s) 6 (of_int fd) 0 0"

definition ece391_getargs :: "user_link \<Rightarrow> u32 \<Rightarrow> int \<Rightarrow> 'a kernel_scheme \<Rightarrow> (int \<times> 'a kernel_scheme) option" where
  "ece391_getargs U buf nbytes = int80 U (\<lambda>_ s. s) 7 buf (of_int nbytes) 0"

definition ece391_vidmap :: "user_link \<Rightarrow> u32 \<Rightarrow> 'a kernel_scheme \<Rightarrow> (int \<times> 'a kernel_scheme) option" where
  "ece391_vidmap U screen_start = int80 U (\<lambda>_ s. s) 8 screen_start 0 0"

definition ece391_set_handler :: "user_link \<Rightarrow> int \<Rightarrow> u32 \<Rightarrow> 'a kernel_scheme \<Rightarrow> (int \<times> 'a kernel_scheme) option" where
  "ece391_set_handler U signum handler = int80 U (\<lambda>_ s. s) 9 (of_int signum) handler 0"

text \<open>
  \<^verbatim>\<open>execute\<close> returns at once if it fails. Otherwise the started program runs, from the entry point and
  the stack it is given, until its end makes this call return: that is the argument \<open>run\<close>.
\<close>

definition ece391_execute ::
    "user_link \<Rightarrow> (u32 \<Rightarrow> u32 \<Rightarrow> 'a kernel_scheme \<Rightarrow> (int \<times> 'a kernel_scheme) option) \<Rightarrow> u32 \<Rightarrow> 'a kernel_scheme
       \<Rightarrow> (int \<times> 'a kernel_scheme) option" where
  "ece391_execute U run command s =
     (case system_call_handler U (\<lambda>_ s. s) 2 command 0 0 s of
        None \<Rightarrow> None
      | Some (Return r, t) \<Rightarrow> Some (r, t)
      | Some (To_user eip f esp, t) \<Rightarrow> run eip esp t)"

section \<open>The support library\<close>

partial_function (option) ece391_strlen_from :: "'a machine_scheme \<Rightarrow> u32 \<Rightarrow> u32 \<Rightarrow> u32 option" where
  "ece391_strlen_from s p len = (if 0 \<noteq> load s p then ece391_strlen_from s (p + 1) (len + 1) else Some len)"

definition ece391_strlen :: "'a machine_scheme \<Rightarrow> u32 \<Rightarrow> u32 option" where
  "ece391_strlen s p = ece391_strlen_from s p 0"

partial_function (option) ece391_strcpy :: "u32 \<Rightarrow> u32 \<Rightarrow> 'a machine_scheme \<Rightarrow> 'a machine_scheme option" where
  "ece391_strcpy dst src s =
     (let c = load s src; s = store dst c s in if 0 \<noteq> c then ece391_strcpy (dst + 1) (src + 1) s else Some s)"

definition ece391_fdputs :: "user_link \<Rightarrow> int \<Rightarrow> u32 \<Rightarrow> 'a kernel_scheme \<Rightarrow> 'a kernel_scheme option" where
  "ece391_fdputs U fd p s =
     (case ece391_strlen s p of None \<Rightarrow> None | Some n \<Rightarrow> map_option snd (ece391_write U fd p (sint n) s))"

partial_function (option) ece391_strcmp :: "'a machine_scheme \<Rightarrow> u32 \<Rightarrow> u32 \<Rightarrow> int option" where
  "ece391_strcmp s p q =
     (if load s p = load s q then if load s p = 0 then Some 0 else ece391_strcmp s (p + 1) (q + 1)
      else Some (uint (load s p) - uint (load s q)))"

text \<open>The loop of \<^verbatim>\<open>ece391_strncmp\<close> with \<open>n\<close> characters left; it is entered with \<open>n > 0\<close>.\<close>

fun ece391_strncmp_from :: "'a machine_scheme \<Rightarrow> u32 \<Rightarrow> u32 \<Rightarrow> nat \<Rightarrow> int" where
  "ece391_strncmp_from s p q 0 = 0"
| "ece391_strncmp_from s p q (Suc n) =
     (if load s p = load s q then if load s p = 0 \<or> n = 0 then 0 else ece391_strncmp_from s (p + 1) (q + 1) n
      else uint (load s p) - uint (load s q))"

definition ece391_strncmp :: "'a machine_scheme \<Rightarrow> u32 \<Rightarrow> u32 \<Rightarrow> u32 \<Rightarrow> int" where
  "ece391_strncmp s p q n = (if 0 = n then 0 else ece391_strncmp_from s p q (unat n))"

function ece391_strrev_loop :: "u32 \<Rightarrow> int \<Rightarrow> int \<Rightarrow> 'a machine_scheme \<Rightarrow> 'a machine_scheme" where
  "ece391_strrev_loop p beg end s =
     (if beg < end then
        let tmp = load s (p + of_int end);
            s = store (p + of_int end) (load s (p + of_int beg)) s;
            s = store (p + of_int beg) tmp s
        in ece391_strrev_loop p (beg + 1) (end - 1) s
      else s)"
  by pat_completeness auto
termination
  by (relation "measure (\<lambda>(p, b, e, s). nat (e - b))") auto

definition ece391_strrev :: "u32 \<Rightarrow> 'a machine_scheme \<Rightarrow> 'a machine_scheme option" where
  "ece391_strrev p s =
     (case ece391_strlen s p of
        None \<Rightarrow> None
      | Some n \<Rightarrow>
          let end = sint (n - 1) in if end \<le> 0 then Some s else Some (ece391_strrev_loop p 0 end s))"

partial_function (option) ece391_itoa_digits ::
    "u32 \<Rightarrow> u32 \<Rightarrow> u32 \<Rightarrow> 'a machine_scheme \<Rightarrow> 'a machine_scheme option" where
  "ece391_itoa_digits newbuf newval radix s =
     (if newval > 0 then
        if radix = 0 then None
        else ece391_itoa_digits (newbuf + 1) (newval div radix) radix
               (store newbuf (itoa_lookup ! unat (newval mod radix)) s)
      else Some (store newbuf 0 s))"

definition ece391_itoa :: "u32 \<Rightarrow> u32 \<Rightarrow> u32 \<Rightarrow> 'a machine_scheme \<Rightarrow> 'a machine_scheme option" where
  "ece391_itoa val buf radix s =
     (if val = 0 then Some (store (buf + 1) 0 (store buf (of_char (CHR ''0'')) s))
      else case ece391_itoa_digits buf val radix s of None \<Rightarrow> None | Some s \<Rightarrow> ece391_strrev buf s)"

declare ece391_strrev_loop.simps [simp del] ece391_strncmp_from.simps [simp del]

section \<open>Strings\<close>

lemma uint_zero: "uint (w :: u8) = 0 \<longleftrightarrow> w = 0"
  by (metis unsigned_0 word_uint_eqI)

lemma uint_same: "uint (v :: u8) = uint w \<longleftrightarrow> v = w"
  by (metis word_uint_eqI)

lemma cstr_Cons: "cstr s p (b # bs) \<longleftrightarrow> load s p = b \<and> b \<noteq> 0 \<and> cstr s (p + 1) bs \<and> Suc (length bs) < 4294967296"
  by (auto simp: cstr_def read_bytes_Suc ac_simps)

lemma cstr_Nil: "cstr s p [] \<longleftrightarrow> load s p = 0"
  by (simp add: cstr_def)

lemma strlen_from_user: "cstr s p bs \<Longrightarrow> ece391_strlen_from s p n = Some (n + of_nat (length bs))"
proof (induction bs arbitrary: p n)
  case Nil
  then show ?case by (subst ece391_strlen_from.simps) (simp add: cstr_Nil)
next
  case (Cons b bs)
  then show ?case by (subst ece391_strlen_from.simps) (simp add: cstr_Cons add.commute add.left_commute)
qed

lemma ece391_strlen_cstr: "cstr s p bs \<Longrightarrow> ece391_strlen s p = Some (of_nat (length bs))"
  by (simp add: ece391_strlen_def strlen_from_user)

text \<open>Two strings compare as equal exactly if they are.\<close>

lemma ece391_strcmp_cstr:
  "cstr s p xs \<Longrightarrow> cstr s q ys \<Longrightarrow> \<exists>r. ece391_strcmp s p q = Some r \<and> (r = 0 \<longleftrightarrow> xs = ys)"
proof (induction xs arbitrary: p q ys)
  case Nil
  then show ?case
    by (subst ece391_strcmp.simps) (cases ys; auto simp: cstr_Nil cstr_Cons uint_zero)
next
  case (Cons x xs)
  show ?case
  proof (cases ys)
    case Nil
    then show ?thesis using Cons.prems by (subst ece391_strcmp.simps) (auto simp: cstr_Nil cstr_Cons uint_zero)
  next
    case (Cons y zs)
    then show ?thesis
      using Cons.prems Cons.IH [of "p + 1" "q + 1" zs] by (subst ece391_strcmp.simps) (auto simp: cstr_Cons uint_same)
  qed
qed

lemma ece391_strcpy_cstr:
  assumes "cstr s src bs" "apart s dst (Suc (length bs)) src (Suc (length bs))"
  shows "ece391_strcpy dst src s = Some (write_bytes dst (bs @ [0]) s)"
  using assms
proof (induction bs arbitrary: s dst src)
  case Nil
  then show ?case by (subst ece391_strcpy.simps) (simp add: cstr_Nil Let_def)
next
  case (Cons b bs)
  let ?s = "store dst b s"
  have ap: "apart s dst 1 (src + 1) (Suc (length bs))" "apart s (dst + 1) (Suc (length bs)) (src + 1) (Suc (length bs))"
    using apart_Suc_right [of s dst "Suc (Suc (length bs))" src "Suc (length bs)"] Cons.prems(2)
    by (auto intro: apart_mono apart_Suc_left)
  have "cstr ?s (src + 1) bs"
    using cstr_write_apart [of s "src + 1" bs dst "[b]"] ap(1) Cons.prems(1) by (simp add: cstr_Cons)
  moreover have "apart ?s (dst + 1) (Suc (length bs)) (src + 1) (Suc (length bs))" using ap(2) by (simp add: apart_def)
  ultimately show ?case using Cons.IH [of ?s "src + 1" "dst + 1"] Cons.prems(1)
    by (subst ece391_strcpy.simps) (simp add: cstr_Cons Let_def)
qed

text \<open>\<^verbatim>\<open>ece391_strncmp\<close> compares what the two fields of \<open>n\<close> bytes hold up to a terminator.\<close>

lemma ece391_strncmp_from_eq:
  "0 < n \<Longrightarrow> ece391_strncmp_from s p q n = 0 \<longleftrightarrow> field_text s p n = field_text s q n"
proof (induction n arbitrary: p q)
  case (Suc n)
  have ne: "uint (load s p) - uint (load s q) = 0 \<longleftrightarrow> load s p = load s q" by (simp add: uint_same)
  show ?case
  proof (cases "load s p = load s q \<and> load s p \<noteq> 0 \<and> n \<noteq> 0")
    case True
    then show ?thesis using Suc.IH [of "p + 1" "q + 1"] by (simp add: ece391_strncmp_from.simps field_text_Suc)
  next
    case False
    then show ?thesis using ne by (auto simp: ece391_strncmp_from.simps field_text_Suc)
  qed
qed simp

lemma ece391_strncmp_eq_0: "ece391_strncmp s p q n = 0 \<longleftrightarrow> field_text s p (unat n) = field_text s q (unat n)"
  using ece391_strncmp_from_eq [of "unat n" s p q] by (auto simp: ece391_strncmp_def unat_gt_0 word_gt_0)

text \<open>The number routines are those of the kernel.\<close>

lemma strrev_loop_user: "ece391_strrev_loop p b e s = strrev_loop p b e s"
proof (induction p b e s rule: ece391_strrev_loop.induct)
  case (1 p b e s)
  then show ?case by (subst ece391_strrev_loop.simps, subst strrev_loop.simps) (simp add: Let_def)
qed

lemma ece391_strrev_cstr:
  assumes "cstr s p bs" "spread s p (length bs)" "length bs < 2147483648"
  shows "ece391_strrev p s = Some (write_bytes p (rev bs) s)"
proof -
  have "strrev p s = Some (strrev_loop p 0 (sint (of_nat (length bs) - 1 :: u32)) s)"
    using strlen_cstr [OF assms(1)] by (simp add: strrev_def)
  moreover have "strrev_loop p 0 e s = s" if "e \<le> 0" for e using that by (simp add: strrev_loop.simps)
  ultimately show ?thesis
    using strrev_cstr [OF assms] ece391_strlen_cstr [OF assms(1)] by (auto simp: ece391_strrev_def Let_def strrev_loop_user)
qed

lemma itoa_digits_user:
  fixes v r :: u32
  assumes "2 \<le> unat r"
  shows "ece391_itoa_digits buf v r s = itoa_digits buf v r s"
proof (induction "unat v" arbitrary: v buf s rule: less_induct)
  case less
  show ?case
  proof (cases "v = 0")
    case False
    then have "0 < unat v" by (simp add: unat_gt_0)
    then have "unat (v div r) < unat v" using assms by (simp add: unat_div)
    then show ?thesis using less by (subst ece391_itoa_digits.simps, subst itoa_digits.simps) simp
  qed (subst ece391_itoa_digits.simps, subst itoa_digits.simps, simp)
qed

lemma ece391_itoa_eq:
  fixes v r :: u32
  assumes "2 \<le> unat r" "unat r \<le> 36" "spread s buf 33"
  shows "ece391_itoa v buf r s = Some (write_bytes buf (numeral_text (unat r) (unat v) @ [0]) s)"
proof (cases "v = 0")
  case True
  then show ?thesis using itoa_eq [OF assms, of v] by (simp add: itoa_def ece391_itoa_def)
next
  case False
  let ?ds = "map digit_char (radix_digits (unat r) (unat v))"
  let ?t = "write_bytes buf (?ds @ [0]) s"
  have len: "length ?ds \<le> 32" using length_radix_digits [of "unat r" "unat v" 32] assms by simp
  have "0 \<notin> set ?ds" using radix_digits_less [of "unat r" _ "unat v"] digit_char_nz assms by fastforce
  then have c: "cstr ?t buf ?ds" using len spread_mono [OF assms(3), of "Suc (length ?ds)"] by (intro cstr_write) auto
  have sp: "spread ?t buf (length ?ds)" using spread_mono [OF assms(3), of "length ?ds"] len by simp
  have "ece391_strrev buf ?t = strrev buf ?t"
    using ece391_strrev_cstr [OF c sp] strrev_cstr [OF c sp] len by simp
  then show ?thesis
    using itoa_eq [OF assms, of v] False itoa_digits_eq [OF assms(1,2), of buf v s] itoa_digits_user [OF assms(1), of buf v s]
    by (simp add: ece391_itoa_def itoa_def)
qed


end
