(* ===== verification/User_Programs.thy ===== *)
theory User_Programs
  imports User_Lib "HOL-Library.Monad_Syntax"
begin

text \<open>
  The programs of \<^verbatim>\<open>src/syscalls\<close>. Each is a function on the state that returns the value of
  its \<^verbatim>\<open>main\<close>, or \<open>None\<close> if it does not come back. The addresses of local arrays and of
  locals whose address is taken are arguments, and so is the environment \<open>env\<close> that runs while a call waits.
\<close>

section \<open>Starting and ending\<close>

text \<open>\<^verbatim>\<open>_start\<close>: the value of \<^verbatim>\<open>main\<close> is handed to \<^verbatim>\<open>halt\<close>.\<close>

definition program_start ::
    "user_link \<Rightarrow> ('a kernel_scheme \<Rightarrow> (int \<times> 'a kernel_scheme) option) \<Rightarrow> 'a kernel_scheme
       \<Rightarrow> (flow \<times> 'a kernel_scheme) option" where
  "program_start U main s =
     do { (r, s) \<leftarrow> main s; system_call_handler U (\<lambda>_ s. s) 1 (of_int r) 0 0 s }"

definition putsl :: "user_link \<Rightarrow> string \<Rightarrow> 'a kernel_scheme \<Rightarrow> 'a kernel_scheme option" where
  "putsl U w = ece391_fdputs U 1 (ul_lit U w)"

section \<open>testprint, hello\<close>

definition testprint_main :: "user_link \<Rightarrow> 'a kernel_scheme \<Rightarrow> (int \<times> 'a kernel_scheme) option" where
  "testprint_main U s =
     do { s \<leftarrow> putsl U ''Hello, if this ran, the program was correct. Yay!\<newline>'' s; Some (0, s) }"

definition hello_main :: "user_link \<Rightarrow> 'a waiting \<Rightarrow> u32 \<Rightarrow> 'a kernel_scheme \<Rightarrow> (int \<times> 'a kernel_scheme) option" where
  "hello_main U env buf s =
     do { s \<leftarrow> putsl U ''Hi, what's your name? '' s;
          (cnt, s) \<leftarrow> ece391_read U env 0 buf 1023 s;
          if -1 = cnt then do { s \<leftarrow> putsl U ''Can't read name from keyboard.\<newline>'' s; Some (3, s) }
          else
            let s = store (buf + of_int cnt) 0 s
            in do { s \<leftarrow> putsl U ''Hello, '' s; s \<leftarrow> ece391_fdputs U 1 buf s; Some (0, s) } }"

section \<open>cat, ls\<close>

partial_function (option) cat_loop ::
    "user_link \<Rightarrow> 'a waiting \<Rightarrow> int \<Rightarrow> u32 \<Rightarrow> 'a kernel_scheme \<Rightarrow> (int \<times> 'a kernel_scheme) option" where
  "cat_loop U env fd buf s =
     do { (cnt, s) \<leftarrow> ece391_read U env fd buf 1024 s;
          if 0 = cnt then Some (0, s)
          else if -1 = cnt then do { s \<leftarrow> putsl U ''file read failed\<newline>'' s; Some (3, s) }
          else do { (r, s) \<leftarrow> ece391_write U 1 buf cnt s;
                    if -1 = r then Some (3, s) else cat_loop U env fd buf s } }"

definition cat_main :: "user_link \<Rightarrow> 'a waiting \<Rightarrow> u32 \<Rightarrow> 'a kernel_scheme \<Rightarrow> (int \<times> 'a kernel_scheme) option" where
  "cat_main U env buf s =
     do { (r, s) \<leftarrow> ece391_getargs U buf 1024 s;
          if 0 \<noteq> r then do { s \<leftarrow> putsl U ''could not read arguments\<newline>'' s; Some (3, s) }
          else do { (fd, s) \<leftarrow> ece391_open U buf s;
                    if -1 = fd then do { s \<leftarrow> putsl U ''file not found\<newline>'' s; Some (2, s) }
                    else cat_loop U env fd buf s } }"

partial_function (option) ls_loop ::
    "user_link \<Rightarrow> 'a waiting \<Rightarrow> int \<Rightarrow> u32 \<Rightarrow> 'a kernel_scheme \<Rightarrow> (int \<times> 'a kernel_scheme) option" where
  "ls_loop U env fd buf s =
     do { (cnt, s) \<leftarrow> ece391_read U env fd buf 32 s;
          if 0 = cnt then Some (0, s)
          else if -1 = cnt then do { s \<leftarrow> putsl U ''directory entry read failed\<newline>'' s; Some (3, s) }
          else
            let s = store (buf + of_int cnt) 0x0A s
            in do { (r, s) \<leftarrow> ece391_write U 1 buf (cnt + 1) s;
                    if -1 = r then Some (3, s) else ls_loop U env fd buf s } }"

definition ls_main :: "user_link \<Rightarrow> 'a waiting \<Rightarrow> u32 \<Rightarrow> 'a kernel_scheme \<Rightarrow> (int \<times> 'a kernel_scheme) option" where
  "ls_main U env buf s =
     do { (fd, s) \<leftarrow> ece391_open U (ul_lit U ''.'') s;
          if -1 = fd then do { s \<leftarrow> putsl U ''directory open failed\<newline>'' s; Some (2, s) }
          else ls_loop U env fd buf s }"

section \<open>counter\<close>

text \<open>The loop with \<open>k\<close> rounds to go, the next one printing \<open>i + 1\<close>.\<close>

fun counter_loop :: "user_link \<Rightarrow> u32 \<Rightarrow> nat \<Rightarrow> u32 \<Rightarrow> 'a kernel_scheme \<Rightarrow> 'a kernel_scheme option" where
  "counter_loop U buf 0 i s = Some s"
| "counter_loop U buf (Suc k) i s =
     do { s \<leftarrow> ece391_itoa (i + 1) buf 10 s;
          s \<leftarrow> ece391_fdputs U 1 buf s;
          s \<leftarrow> putsl U ''\<newline>'' s;
          counter_loop U buf k (i + 1) s }"

definition counter_main :: "user_link \<Rightarrow> 'a waiting \<Rightarrow> u32 \<Rightarrow> 'a kernel_scheme \<Rightarrow> (int \<times> 'a kernel_scheme) option" where
  "counter_main U env buf s =
     do { s \<leftarrow> putsl U ''Enter the Test Number: (0): 100, (1): 10000, (2): 100000\<newline>'' s;
          (r, s) \<leftarrow> ece391_read U env 0 buf 1023 s;
          let cnt = of_int r :: u32
          in if -1 = cnt then do { s \<leftarrow> putsl U ''Can't read the number from keyboard.\<newline>'' s; Some (3, s) }
             else
               let s = store (buf + cnt) 0 s
               in do { n \<leftarrow> ece391_strlen s buf;
                       if n > 2 \<or> n = 2 \<and> (load s buf < of_char CHR ''0'' \<or> load s buf > of_char CHR ''2'')
                       then do { s \<leftarrow> putsl U ''Wrong Choice!\<newline>'' s; Some (0, s) }
                       else
                         let max = (if load s buf = of_char CHR ''0'' then 100
                                    else if load s buf = of_char CHR ''1'' then 10000
                                    else if load s buf = of_char CHR ''2'' then 100000 else 0)
                         in do { s \<leftarrow> counter_loop U buf max 0 s; Some (0, s) } } }"

section \<open>shell\<close>

text \<open>\<open>run\<close> is what the started program does between its entry and its end.\<close>

definition shell_turn ::
    "user_link \<Rightarrow> 'a waiting \<Rightarrow> (u32 \<Rightarrow> u32 \<Rightarrow> 'a kernel_scheme \<Rightarrow> (int \<times> 'a kernel_scheme) option) \<Rightarrow> u32
       \<Rightarrow> 'a kernel_scheme \<Rightarrow> ((int \<times> 'a kernel_scheme) + 'a kernel_scheme) option" where
  "shell_turn U env run buf s =
     do { s \<leftarrow> putsl U ''391OS> '' s;
          (cnt, s) \<leftarrow> ece391_read U env 0 buf 1023 s;
          if -1 = cnt then do { s \<leftarrow> putsl U ''read from keyboard failed\<newline>'' s; Some (Inl (3, s)) }
          else
            let cnt = (if cnt > 0 \<and> load s (buf + of_int (cnt - 1)) = 0x0A then cnt - 1 else cnt);
                s = store (buf + of_int cnt) 0 s
            in do { c \<leftarrow> ece391_strcmp s buf (ul_lit U ''exit'');
                    if 0 = c then Some (Inl (0, s))
                    else if load s buf = 0 then Some (Inr s)
                    else do { (rval, s) \<leftarrow> ece391_execute U run buf s;
                              s \<leftarrow> (if -1 = rval then putsl U ''no such command\<newline>'' s
                                    else if 256 = rval then putsl U ''program terminated by exception\<newline>'' s
                                    else if 0 \<noteq> rval then putsl U ''program terminated abnormally\<newline>'' s
                                    else Some s);
                              Some (Inr s) } } }"

partial_function (option) shell_loop ::
    "user_link \<Rightarrow> 'a waiting \<Rightarrow> (u32 \<Rightarrow> u32 \<Rightarrow> 'a kernel_scheme \<Rightarrow> (int \<times> 'a kernel_scheme) option) \<Rightarrow> u32
       \<Rightarrow> 'a kernel_scheme \<Rightarrow> (int \<times> 'a kernel_scheme) option" where
  "shell_loop U env run buf s =
     do { r \<leftarrow> shell_turn U env run buf s;
          case r of Inl e \<Rightarrow> Some e | Inr s \<Rightarrow> shell_loop U env run buf s }"

definition shell_main ::
    "user_link \<Rightarrow> 'a waiting \<Rightarrow> (u32 \<Rightarrow> u32 \<Rightarrow> 'a kernel_scheme \<Rightarrow> (int \<times> 'a kernel_scheme) option) \<Rightarrow> u32
       \<Rightarrow> 'a kernel_scheme \<Rightarrow> (int \<times> 'a kernel_scheme) option" where
  "shell_main U env run buf s = do { s \<leftarrow> putsl U ''Starting 391 Shell\<newline>'' s; shell_loop U env run buf s }"

section \<open>grep\<close>

partial_function (option) line_end_from :: "u32 \<Rightarrow> int \<Rightarrow> int \<Rightarrow> 'a kernel_scheme \<Rightarrow> int option" where
  "line_end_from data i last' s =
     (if i < last' \<and> load s (data + of_int i) \<noteq> 0x0A then line_end_from data (i + 1) last' s else Some i)"

text \<open>The search of one line: \<open>check\<close> runs up to \<open>line_end\<close>; at the first match the line is printed.\<close>

partial_function (option) search_line ::
    "user_link \<Rightarrow> u32 \<Rightarrow> u32 \<Rightarrow> u32 \<Rightarrow> int \<Rightarrow> int \<Rightarrow> int \<Rightarrow> int \<Rightarrow> 'a kernel_scheme \<Rightarrow> 'a kernel_scheme option" where
  "search_line U pat fname data s_len line_start check line_end s =
     (if check < line_end then
        if load s pat = load s (data + of_int check) \<and> 0 = ece391_strncmp s (data + of_int check) pat (of_int s_len)
        then do { s \<leftarrow> ece391_fdputs U 1 fname s; s \<leftarrow> putsl U '':'' s;
                  s \<leftarrow> ece391_fdputs U 1 (data + of_int line_start) s; putsl U ''\<newline>'' s }
        else search_line U pat fname data s_len line_start (check + 1) line_end s
      else Some s)"

text \<open>The loop over the lines in the buffer; it returns the new value of \<open>last'\<close>.\<close>

partial_function (option) grep_lines ::
    "user_link \<Rightarrow> u32 \<Rightarrow> u32 \<Rightarrow> u32 \<Rightarrow> int \<Rightarrow> int \<Rightarrow> int \<Rightarrow> int \<Rightarrow> 'a kernel_scheme
       \<Rightarrow> (int \<times> 'a kernel_scheme) option" where
  "grep_lines U pat fname data s_len cnt last' line_start s =
     do { line_end \<leftarrow> line_end_from data line_start last' s;
          if load s (data + of_int line_end) \<noteq> 0x0A \<and> 0 \<noteq> cnt \<and> line_start \<noteq> 0
          then do { s \<leftarrow> ece391_strcpy data (data + of_int line_start) (store (data + of_int line_end) 0 s);
                    Some (last' - line_start, s) }
          else do { s \<leftarrow> search_line U pat fname data s_len line_start line_start line_end
                           (store (data + of_int line_end) 0 s);
                    if line_end + 1 \<ge> last' then Some (0, s)
                    else grep_lines U pat fname data s_len cnt last' (line_end + 1) s } }"

partial_function (option) grep_reads ::
    "user_link \<Rightarrow> 'a waiting \<Rightarrow> u32 \<Rightarrow> u32 \<Rightarrow> u32 \<Rightarrow> int \<Rightarrow> int \<Rightarrow> int \<Rightarrow> 'a kernel_scheme
       \<Rightarrow> (int \<times> 'a kernel_scheme) option" where
  "grep_reads U env pat fname data s_len fd last' s =
     do { (cnt, s) \<leftarrow> ece391_read U env fd (data + of_int last') (1024 - last') s;
          if -1 = cnt then do { s \<leftarrow> putsl U ''file read failed\<newline>'' s; Some (-1, s) }
          else do { (last', s) \<leftarrow> grep_lines U pat fname data s_len cnt (last' + cnt) 0 s;
                    if 0 = cnt
                    then do { (r, s) \<leftarrow> ece391_close U fd s;
                              if -1 = r then do { s \<leftarrow> putsl U ''file close failed\<newline>'' s; Some (-1, s) }
                              else Some (0, s) }
                    else grep_reads U env pat fname data s_len fd last' s } }"

definition do_one_file ::
    "user_link \<Rightarrow> 'a waiting \<Rightarrow> u32 \<Rightarrow> u32 \<Rightarrow> u32 \<Rightarrow> 'a kernel_scheme \<Rightarrow> (int \<times> 'a kernel_scheme) option" where
  "do_one_file U env data pat fname s =
     do { s_len \<leftarrow> ece391_strlen s pat;
          (fd, s) \<leftarrow> ece391_open U fname s;
          if -1 = fd then do { s \<leftarrow> putsl U ''file open failed\<newline>'' s; Some (-1, s) }
          else grep_reads U env pat fname data (sint s_len) fd 0 s }"

partial_function (option) grep_loop ::
    "user_link \<Rightarrow> 'a waiting \<Rightarrow> int \<Rightarrow> u32 \<Rightarrow> u32 \<Rightarrow> u32 \<Rightarrow> 'a kernel_scheme \<Rightarrow> (int \<times> 'a kernel_scheme) option" where
  "grep_loop U env fd buf search data s =
     do { (cnt, s) \<leftarrow> ece391_read U env fd buf 32 s;
          if 0 = cnt then Some (0, s)
          else if -1 = cnt then do { s \<leftarrow> putsl U ''directory entry read failed\<newline>'' s; Some (3, s) }
          else if load s buf = of_char CHR ''.'' then grep_loop U env fd buf search data s
          else
            let s = store (buf + of_int cnt) 0 s
            in do { (r, s) \<leftarrow> do_one_file U env data search buf s;
                    if 0 \<noteq> r then Some (3, s) else grep_loop U env fd buf search data s } }"

definition grep_main ::
    "user_link \<Rightarrow> 'a waiting \<Rightarrow> u32 \<Rightarrow> u32 \<Rightarrow> u32 \<Rightarrow> 'a kernel_scheme \<Rightarrow> (int \<times> 'a kernel_scheme) option" where
  "grep_main U env buf search data s =
     do { (r, s) \<leftarrow> ece391_getargs U search 1024 s;
          if 0 \<noteq> r then do { s \<leftarrow> putsl U ''could not read argument\<newline>'' s; Some (3, s) }
          else do { (fd, s) \<leftarrow> ece391_open U (ul_lit U ''.'') s;
                    if -1 = fd then do { s \<leftarrow> putsl U ''directory open failed\<newline>'' s; Some (2, s) }
                    else grep_loop U env fd buf search data s } }"

end
