(* ===== verification/User_World.thy ===== *)
theory User_World
  imports User_Programs
begin

text \<open>
  What a program may rely on, and the calls it makes as operations on the files and on its terminal: the layer
  between the state of the kernel and the statements about programs.
\<close>

section \<open>The memory of a program\<close>

definition in_user :: "u32 \<Rightarrow> nat \<Rightarrow> bool" where
  "in_user a n \<longleftrightarrow> 0x08000000 \<le> unat a \<and> unat a + n \<le> 0x08400000"

text \<open>
  A process runs, the file system is mounted, the cursor is on the screen, the page of the program is apart from
  the screen and from the file system image, and the screen is below the memory of the programs.
\<close>

abbreviation (input) program_memory :: "u32 \<Rightarrow> bool" where
  "program_memory q \<equiv> 0x800000 \<le> unat q"

definition world :: "'a kernel_scheme \<Rightarrow> bool" where
  "world s \<longleftrightarrow> procs_ok s \<and> (\<exists>p. running s p) \<and> mounted s \<and> length (directory s) \<le> 63 \<and> video_mapped s \<and>
     cursor_ok (cursor_of (unat (terminal_being_serviced s)) s) \<and> spread s 0x08000000 0x400000 \<and>
     apart s 0x08000000 0x400000 VIDEO 4000 \<and> apart s 0x08000000 0x400000 (bootblock s) (image_size s) \<and>
     apart s VIDEO 4000 (bootblock s) (image_size s) \<and> (\<forall>q \<in> window s. \<not> program_memory q)"

lemma in_user_mono: "in_user a n \<Longrightarrow> m \<le> n \<Longrightarrow> in_user a m"
  by (simp add: in_user_def)

lemma in_user_shift: "in_user a n \<Longrightarrow> i + m \<le> n \<Longrightarrow> in_user (a + of_nat i) m"
  using u32_add_less_iff [of a "i + 1" i] by (auto simp: in_user_def)

lemma unat_user: "in_user a n \<Longrightarrow> i < n \<Longrightarrow> unat (a + of_nat i) = unat a + i"
  by (rule u32_add_less_iff [of _ n]) (simp_all add: in_user_def)

lemma user_base: "in_user a n \<Longrightarrow> a = 0x08000000 + of_nat (unat a - 0x08000000)"
proof -
  assume "in_user a n"
  then have "of_nat (unat a - 0x08000000) = (of_nat (unat a) :: u32) - of_nat 0x08000000"
    by (intro of_nat_diff) (simp add: in_user_def)
  then show ?thesis by simp
qed

lemma user_area:
  assumes "world s" "in_user a n"
  shows "spread s a n" "apart s a n VIDEO 4000" "apart s a n (bootblock s) (image_size s)"
proof -
  let ?k = "unat a - 0x08000000"
  have k: "?k + n \<le> 0x400000" using assms(2) unfolding in_user_def by linarith
  note w = assms(1) [unfolded world_def]
  show "spread s a n" using spread_shift [of s "0x08000000" "0x400000", OF _ k] w user_base [OF assms(2)] by metis
  show "apart s a n VIDEO 4000"
    using apart_shift_left [of s "0x08000000" "0x400000" VIDEO 4000, OF _ k] w user_base [OF assms(2)] by metis
  show "apart s a n (bootblock s) (image_size s)"
    using apart_shift_left [of s "0x08000000" "0x400000" "bootblock s" "image_size s", OF _ k] w user_base [OF assms(2)] by metis
qed

lemma in_user_pointer: "in_user a 1 \<Longrightarrow> user_pointer a"
  by (simp add: in_user_def user_pointer_def word_less_nat_alt word_le_nat_alt)

text \<open>Two places of the page that are not the same are not the same frame.\<close>

lemma user_xlat:
  assumes "world s" "in_user x 1" "in_user y 1" "xlat s x = xlat s y"
  shows "x = y"
proof -
  have "spread s 0x08000000 0x400000" using assms(1) by (simp add: world_def)
  then have "unat x - 0x08000000 = unat y - 0x08000000"
    using assms(2-4) user_base [OF assms(2)] user_base [OF assms(3)]
    by (auto simp: in_user_def spread_def dest!: inj_onD [where x = "unat x - 0x08000000" and y = "unat y - 0x08000000"])
  then show ?thesis using user_base [OF assms(2)] user_base [OF assms(3)] by simp
qed

section \<open>Steps of a program\<close>

abbreviation screen_of :: "'a kernel_scheme \<Rightarrow> vterm" where
  "screen_of s \<equiv> term_vt (unat (terminal_being_serviced s)) s"

text \<open>What has been typed and not been read.\<close>

definition input_of :: "'a kernel_scheme \<Rightarrow> nat \<Rightarrow> u8 list \<times> int" where
  "input_of s i = (stdin (terminals s i), allowed_to_read (terminals s i))"

text \<open>
  A program leaves alone what is not its own: of the process table at most its descriptors change, the address
  spaces and the assignment of terminals stay, and so does the memory of the other programs.
\<close>

definition own_fds_only :: "'a kernel_scheme \<Rightarrow> 'a kernel_scheme \<Rightarrow> bool" where
  "own_fds_only s t \<longleftrightarrow> (\<exists>f. pcbs t = (pcbs s)(current_pcb s := (pcbs s (current_pcb s))\<lparr>fd_array := f\<rparr>)) \<and>
     pid_avail t = pid_avail s \<and> tss_esp0 t = tss_esp0 s \<and> ptmem t = ptmem s \<and> cr3 t = cr3 s \<and> frames t = frames s \<and>
     terminal_state t = terminal_state s \<and> terminals_launched t = terminals_launched s \<and>
     (\<forall>i. t_pid (terminals t i) = t_pid (terminals s i))"

definition own_memory_only :: "'a kernel_scheme \<Rightarrow> 'a kernel_scheme \<Rightarrow> bool" where
  "own_memory_only s t \<longleftrightarrow> (\<forall>q. program_memory q \<longrightarrow> q \<notin> xlat s ` {a. in_user a 1} \<longrightarrow> ram t q = ram s q)"

definition same_world :: "'a kernel_scheme \<Rightarrow> 'a kernel_scheme \<Rightarrow> bool" where
  "same_world s t \<longleftrightarrow> world t \<and> xlat t = xlat s \<and> same_image s t \<and> current_pcb t = current_pcb s \<and>
     terminal_being_serviced t = terminal_being_serviced s \<and>
     args (pcbs t (current_pcb t)) = args (pcbs s (current_pcb s)) \<and> own_fds_only s t \<and> own_memory_only s t"

lemma own_fds_only_same: "same_procs s t \<Longrightarrow> own_fds_only s t"
proof -
  assume a: "same_procs s t"
  have "pcbs t = (pcbs s)(current_pcb s := (pcbs s (current_pcb s))\<lparr>fd_array := fd_array (pcbs s (current_pcb s))\<rparr>)"
    using a by (simp add: same_procs_def)
  then show ?thesis using a unfolding own_fds_only_def same_procs_def by blast
qed

lemma own_fds_only_trans:
  assumes "own_fds_only s t" "own_fds_only t u"
  shows "own_fds_only s u"
proof -
  have c: "current_pcb t = current_pcb s" using assms(1) by (simp add: own_fds_only_def current_pcb_def)
  obtain f g where "pcbs t = (pcbs s)(current_pcb s := (pcbs s (current_pcb s))\<lparr>fd_array := f\<rparr>)"
      "pcbs u = (pcbs t)(current_pcb t := (pcbs t (current_pcb t))\<lparr>fd_array := g\<rparr>)"
    using assms unfolding own_fds_only_def by blast
  then have "pcbs u = (pcbs s)(current_pcb s := (pcbs s (current_pcb s))\<lparr>fd_array := g\<rparr>)" using c by simp
  then show ?thesis using assms unfolding own_fds_only_def by auto
qed

lemma own_memory_only_same: "ram t = ram s \<Longrightarrow> own_memory_only s t"
  by (simp add: own_memory_only_def)

lemma own_memory_only_trans: "own_memory_only s t \<Longrightarrow> own_memory_only t u \<Longrightarrow> xlat t = xlat s \<Longrightarrow> own_memory_only s u"
  by (simp add: own_memory_only_def)

text \<open>The text appears on the terminal of the program; of its page, at most the \<open>n\<close> bytes at \<open>a\<close> change.\<close>

definition displays :: "u8 list \<Rightarrow> u32 \<Rightarrow> nat \<Rightarrow> 'a kernel_scheme \<Rightarrow> 'a kernel_scheme \<Rightarrow> bool" where
  "displays bs a n s t \<longleftrightarrow> same_world s t \<and> screen_of t = fold vt_putc bs (screen_of s) \<and>
     (\<forall>x. in_user x 1 \<longrightarrow> \<not> (unat a \<le> unat x \<and> unat x < unat a + n) \<longrightarrow> load t x = load s x)"

lemma same_world_refl: "world s \<Longrightarrow> same_world s s"
  by (simp add: same_world_def own_fds_only_same own_memory_only_same)

lemma same_world_trans: "same_world s t \<Longrightarrow> same_world t u \<Longrightarrow> same_world s u"
  unfolding same_world_def by (metis same_image_trans own_fds_only_trans own_memory_only_trans)

lemma displays_refl: "world s \<Longrightarrow> displays [] a n s s"
  by (simp add: displays_def same_world_refl)

lemma displays_trans: "displays bs a n s t \<Longrightarrow> displays cs a n t u \<Longrightarrow> displays (bs @ cs) a n s u"
  by (auto simp: displays_def intro: same_world_trans)

lemma displays_mono: "displays bs a 0 s t \<Longrightarrow> displays bs b n s t"
  by (auto simp: displays_def)

lemma displays_wider:
  "displays bs a n s t \<Longrightarrow> unat b \<le> unat a \<Longrightarrow> unat a + n \<le> unat b + m \<Longrightarrow> displays bs b m s t"
  by (auto simp: displays_def)

lemma displays_world: "displays bs a n s t \<Longrightarrow> world t"
  by (simp add: displays_def same_world_def)

lemma displays_load:
  "displays bs a n s t \<Longrightarrow> in_user x 1 \<Longrightarrow> unat x < unat a \<or> unat a + n \<le> unat x \<Longrightarrow> load t x = load s x"
  by (auto simp: displays_def)

definition clear_of :: "u32 \<Rightarrow> nat \<Rightarrow> u32 \<Rightarrow> nat \<Rightarrow> bool" where
  "clear_of a n b m \<longleftrightarrow> n = 0 \<or> unat a + n \<le> unat b \<or> unat b + m \<le> unat a"

lemma displays_load_nth:
  "displays bs a n s t \<Longrightarrow> in_user x m \<Longrightarrow> clear_of a n x m \<Longrightarrow> i < m \<Longrightarrow> load t (x + of_nat i) = load s (x + of_nat i)"
  by (rule displays_load, assumption)
     (auto simp: clear_of_def unat_user in_user_def)

lemma displays_cstr:
  assumes "displays bs a n s t" "in_user x (Suc (length cs))" "clear_of a n x (Suc (length cs))" "cstr s x cs"
  shows "cstr t x cs"
  by (rule cstr_load_cong [OF _ assms(4)]) (rule displays_load_nth [OF assms(1-3)], simp)

lemma displays_field:
  assumes "displays bs a n s t" "in_user x m" "clear_of a n x m"
  shows "field_text t x m = field_text s x m" "read_bytes t x m = read_bytes s x m"
proof -
  show "read_bytes t x m = read_bytes s x m"
    by (rule nth_equalityI) (simp_all add: displays_load_nth [OF assms])
  then show "field_text t x m = field_text s x m" by (simp add: field_text_def)
qed

section \<open>Calls\<close>

lemma sint_u32: "-2147483648 \<le> i \<Longrightarrow> i < 2147483648 \<Longrightarrow> sint (of_int i :: u32) = i"
  by (simp add: sint_sbintrunc' signed_take_bit_int_eq_self)

lemma returned: "(case returning x of Some (Return r, t) \<Rightarrow> Some (r, t) | _ \<Rightarrow> None) = x"
  by (cases x) (auto simp: returning_def)

lemma user_calls:
  assumes "-2147483648 \<le> fd" "fd < 2147483648" "-2147483648 \<le> n" "n < 2147483648"
  shows "ece391_read U env fd buf n s = sys_read env fd buf n s"
    "ece391_write U fd buf n s = sys_write (ul_dev U) fd buf n s"
    "ece391_open U buf s = sys_open (ul_dev U) buf s" "ece391_close U fd s = sys_close fd s"
    "ece391_getargs U buf n s = sys_getargs buf n s" "ece391_vidmap U buf s = Some (sys_vidmap (ul_lay U) buf s)"
    "ece391_set_handler U fd buf s = Some (-1, s)"
  using assms
  by (simp_all add: ece391_read_def ece391_write_def ece391_open_def ece391_close_def ece391_getargs_def ece391_vidmap_def
      ece391_set_handler_def int80_def system_call_handler_def returned sint_u32)

text \<open>Anything but the numbers 1 to 8 is refused.\<close>

lemma bad_call_number: "sint eax < 1 \<or> 8 < sint eax \<Longrightarrow> int80 U env eax ebx ecx edx s = Some (-1, s)"
  by (auto simp: int80_def system_call_handler_def)

section \<open>Writing to the page and to the terminal\<close>

lemma write_procs [simp]:
  "running (write_bytes a bs s) p = running s p" "procs_ok (write_bytes a bs s) = procs_ok s"
  "running (store a b s) p = running s p" "procs_ok (store a b s) = procs_ok s"
  by (simp_all add: running_def procs_ok_def pid_set_def)

lemma world_image:
  assumes "world s" "same_image s t" "xlat t = xlat s" "procs_ok t" "running t p"
    and "cursor_ok (cursor_of (unat (terminal_being_serviced t)) t)"
  shows "world t"
proof -
  have w: "mounted s" "length (directory s) \<le> 63" using assms(1) by (simp_all add: world_def)
  have d: "directory t = directory s" by (rule same_image_directory [OF assms(2) w(2)])
  have m: "mounted t" "bootblock t = bootblock s" "image_size t = image_size s"
    using assms(2) w(1) same_image_boot [OF assms(2)] by (simp_all add: same_image_def mounted_def image_size_def)
  have win: "window t = window s" using assms(3) by (simp add: window_def)
  show ?thesis
    using assms(1,4-) d m apart_xlat [OF assms(3)] spread_xlat [OF assms(3)] video_mapped_cong [OF assms(3)]
    by (auto simp: world_def win)
qed

text \<open>The steps of the kernel for a program that leave the process table and the program's memory alone.\<close>

lemma quiet_user:
  fixes s :: "'a kernel_scheme"
  assumes "world s" "same_procs s t" "ram t = ram s" "xlat t = xlat s" "terminal_being_serviced t = terminal_being_serviced s"
    and "\<And>i. cursor_of i t = cursor_of i s" "curr_attribute t = curr_attribute s"
    and "bootblock t = bootblock s" "inodes t = inodes s" "datablocks t = datablocks s"
  shows "displays [] a n s t" "fds_of t = fds_of s"
proof -
  obtain p where p: "procs_ok s" "running s p" using assms(1) by (auto simp: world_def)
  have e: "pcbs t = pcbs s" "current_pcb t = current_pcb s" "pid_set t = pid_set s" "tss_esp0 t = tss_esp0 s"
    using assms(2) by (simp_all add: same_procs_def current_pcb_def pid_set_def)
  have ld: "load t x = load s x" for x by (simp add: load_def assms)
  have im: "same_image s t" by (simp add: same_image_def assms ld)
  have "world t"
    using p assms(1,5,6) by (intro world_image [OF assms(1) im assms(4)]) (auto simp: e world_def procs_ok_def running_def)
  moreover have "screen_of t = screen_of s" by (simp add: term_vt_def read_bytes_def ld assms)
  ultimately show "displays [] a n s t"
    using im own_fds_only_same [OF assms(2)] own_memory_only_same [OF assms(3)] by (simp add: displays_def same_world_def e ld assms)
  show "fds_of t = fds_of s" by (simp add: e)
qed

lemma write_user:
  fixes s :: "'a kernel_scheme"
  assumes "world s" "in_user a n" "length bs \<le> n"
  shows "displays [] a n s (write_bytes a bs s)"
proof -
  let ?t = "write_bytes a bs s"
  note u = user_area [OF assms(1) in_user_mono [OF assms(2,3)]]
  have im: "same_image s ?t" by (rule write_same_image [OF u(3)])
  obtain p where p: "procs_ok s" "running s p" using assms(1) by (auto simp: world_def)
  note more = machine_more_sel [of ?t s, OF write_bytes_frame(4)]
  have cur: "cursor_of i ?t = cursor_of i s" for i by (simp add: cursor_of_def more)
  have "world ?t" using p assms(1) by (intro world_image [OF assms(1) im]) (auto simp: cur world_def)
  moreover have "read_bytes ?t VIDEO 4000 = read_bytes s VIDEO 4000"
    using load_write_apart [OF u(2)] by (intro nth_equalityI) simp_all
  then have "screen_of ?t = screen_of s" by (simp add: term_vt_def cur more)
  moreover have "load ?t x = load s x" if x: "in_user x 1" "\<not> (unat a \<le> unat x \<and> unat x < unat a + n)" for x
  proof (rule load_write_other)
    fix j assume j: "j < length bs"
    have v: "unat (a + of_nat j) = unat a + j" using unat_user [OF assms(2)] j assms(3) by simp
    then have "in_user (a + of_nat j) 1" using j assms(2,3) by (simp add: in_user_def)
    then have "xlat s (a + of_nat j) = xlat s x \<Longrightarrow> a + of_nat j = x" using user_xlat [OF assms(1) _ x(1)] by simp
    then show "xlat s (a + of_nat j) \<noteq> xlat s x" using v x(2) j assms(3) by auto
  qed
  moreover have "own_fds_only s ?t" by (rule own_fds_only_same) simp
  moreover have "own_memory_only s ?t" unfolding own_memory_only_def
  proof (intro allI impI)
    fix q assume q: "q \<notin> xlat s ` {a. in_user a 1}"
    have "in_user (a + of_nat i) 1" if "i < length bs" for i
      by (rule in_user_shift [OF assms(2)]) (use that assms(3) in simp)
    then show "ram ?t q = ram s q" using q by (intro write_bytes_ram) auto
  qed
  ultimately show ?thesis using im by (simp add: displays_def same_world_def)
qed

lemma store_user: "world s \<Longrightarrow> in_user a 1 \<Longrightarrow> displays [] a 1 s (store a b s)"
  using write_user [of s a 1 "[b]"] by simp

lemma window_image:
  assumes "only_window s t" "apart s a n VIDEO 4000" "i < n"
  shows "load t (a + of_nat i) = load s (a + of_nat i)"
proof -
  have "xlat s (a + of_nat i) \<notin> window s" using assms(2,3) by (auto simp: apart_def window_def)
  then show ?thesis using assms(1) by (simp add: only_window_def load_def)
qed

lemma write_from_image:
  fixes s :: "'a kernel_scheme"
  shows "bootblock (snd (write_terminal_from fd buf n s)) = bootblock s"
  "inodes (snd (write_terminal_from fd buf n s)) = inodes s" "datablocks (snd (write_terminal_from fd buf n s)) = datablocks s"
  "terminal_being_serviced (snd (write_terminal_from fd buf n s)) = terminal_being_serviced s"
  "input_of (snd (write_terminal_from fd buf n s)) = input_of s" "same_procs s (snd (write_terminal_from fd buf n s))"
proof -
  have put: "console.more (snd (put_t buf' m t)) = console.more t" for buf' m and t :: "'a kernel_scheme"
    using put_t_from_more [of buf' "unat m" 0 t] by (simp add: put_t_def)
  note sel = console_more_sel [OF put]
  show "bootblock (snd (write_terminal_from fd buf n s)) = bootblock s"
    "inodes (snd (write_terminal_from fd buf n s)) = inodes s" "datablocks (snd (write_terminal_from fd buf n s)) = datablocks s"
    "terminal_being_serviced (snd (write_terminal_from fd buf n s)) = terminal_being_serviced s"
    by (simp_all add: write_terminal_from_def Let_def case_prod_beta cli_and_save_def cli_def
        upd_terminal_def set_screen_x_y_def restore_flags_def sel)
  show "input_of (snd (write_terminal_from fd buf n s)) = input_of s"
    by (rule ext) (simp add: input_of_def write_terminal_from_def Let_def case_prod_beta cli_and_save_def cli_def
        upd_terminal_def set_screen_x_y_def restore_flags_def sel)
  show "same_procs s (snd (write_terminal_from fd buf n s))"
    by (simp add: write_terminal_from_def Let_def case_prod_beta cli_and_save_def same_procs_put_t)
qed

text \<open>A text that the writing itself does not change appears on the terminal of the program.\<close>

lemma text_displays:
  fixes s :: "'a kernel_scheme"
  assumes "world s" "steady buf n s" "n < 2147483648" "t = snd (write_terminal_from STDOUT buf (int n) s)"
  shows "fst (write_terminal_from STDOUT buf (int n) s) = int n" "displays (buf_text buf n s) a m s t"
    "fds_of t = fds_of s" "input_of t = input_of s"
proof -
  obtain p where p: "procs_ok s" "running s p" using assms(1) by (auto simp: world_def)
  let ?c = "unat (terminal_being_serviced s)"
  have c: "cursor_ok (cursor_of ?c s)" "video_mapped s" "apart s VIDEO 4000 (bootblock s) (image_size s)"
    using assms(1) by (simp_all add: world_def)
  have n: "0 \<le> int n" "int n < 2147483648" "steady buf (nat (int n)) s" using assms(2,3) by simp_all
  note w = write_text_refines [OF n(1,2) refl c(1,2) n(3) assms(4)] and fr = write_from_image [where fd = STDOUT and buf = buf and n = "int n" and s = s, folded assms(4)]
  show "fst (write_terminal_from STDOUT buf (int n) s) = int n" by (rule w(1))
  have im: "same_image s t" using window_image [OF w(6) apart_sym [OF c(3)]] fr by (simp add: same_image_def)
  moreover have "world t"
    using w(5,7) fr(4)
    by (intro world_image [OF assms(1) im _ same_procs_ok [OF fr(6) p(1)] same_procs_running [OF fr(6) p(2)]]) simp_all
  moreover have "load t x = load s x" if "in_user x 1" for x
    using window_image [OF w(6) user_area(2) [OF assms(1) that], of 0] by simp
  moreover have e: "current_pcb t = current_pcb s" "pcbs t = pcbs s" using fr(6) by (simp_all add: same_procs_def current_pcb_def)
  moreover have "own_memory_only s t" using w(6) assms(1) by (auto simp: own_memory_only_def only_window_def world_def)
  ultimately show "displays (buf_text buf n s) a m s t"
    using w(2,5) fr(4) own_fds_only_same [OF fr(6)] by (simp add: displays_def same_world_def)
  show "fds_of t = fds_of s" "input_of t = input_of s" using e fr(5) by simp_all
qed

lemma write_displays:
  fixes s :: "'a kernel_scheme"
  assumes "world s" "in_user buf n" "in_user buf 1"
  shows "\<exists>t. ece391_write U 1 buf (int n) s = Some (int n, t) \<and> displays (field_text s buf n) a m s t \<and> fds_of t = fds_of s \<and> input_of t = input_of s"
proof -
  have n: "n < 2147483648" using assms(2) by (simp add: in_user_def)
  obtain p where p: "procs_ok s" "running s p" using assms(1) by (auto simp: world_def)
  have f1: "fd_flags (fds_of s 1) = 1" "fops_jmp_table (fds_of s 1) = Some terminal_table"
    using running_fds [OF p] by (simp_all add: fds_ok_def)
  note w = text_displays [OF assms(1) steady_addr [OF user_area(2) [OF assms(1,2)]] n refl]
  have "buf_text (at_addr buf) n s = field_text s buf n"
    by (simp add: buf_text_def field_text_def read_bytes_def at_addr_def [abs_def])
  moreover have "ece391_write U 1 buf (int n) s = Some (int n, snd (write_terminal_from STDOUT (at_addr buf) (int n) s))"
    using w(1) f1 in_user_pointer [OF assms(3)] n
    by (simp add: user_calls sys_write_def Let_def w_func_def write_terminal_def prod_eq_iff)
  ultimately show ?thesis using w(2) [of a m] w(3,4) by simp
qed

text \<open>The string constants of a program are in its page, away from the buffer it uses.\<close>

definition lit_ok :: "user_link \<Rightarrow> u32 \<Rightarrow> nat \<Rightarrow> 'a kernel_scheme \<Rightarrow> string \<Rightarrow> bool" where
  "lit_ok U a n s w \<longleftrightarrow> cstr s (ul_lit U w) (bytes_of w) \<and> in_user (ul_lit U w) (Suc (length w)) \<and>
     clear_of a n (ul_lit U w) (Suc (length w))"

lemma lit_displays: "displays bs a n s t \<Longrightarrow> lit_ok U a n s w \<Longrightarrow> lit_ok U a n t w"
  using displays_cstr [of bs a n s t "ul_lit U w" "bytes_of w"] by (simp add: lit_ok_def bytes_of_def)

lemma fdputs_displays:
  fixes s :: "'a kernel_scheme"
  assumes "world s" "cstr s p bs" "in_user p (Suc (length bs))"
  shows "\<exists>t. ece391_fdputs U 1 p s = Some t \<and> displays bs a n s t \<and> fds_of t = fds_of s \<and> input_of t = input_of s"
proof -
  have l: "length bs < 2147483648" using assms(3) by (simp add: in_user_def)
  have "field_text s p (length bs) = bs" using cstr_field_text [OF assms(2)] by simp
  moreover have "sint (of_nat (length bs) :: u32) = int (length bs)" using sint_u32 [of "int (length bs)"] l by simp
  moreover obtain t where "ece391_write U 1 p (int (length bs)) s = Some (int (length bs), t)"
      "displays (field_text s p (length bs)) a n s t" "fds_of t = fds_of s" "input_of t = input_of s"
    using write_displays [OF assms(1), of p "length bs" U a n] assms(3) by (auto simp: in_user_def)
  ultimately show ?thesis using ece391_strlen_cstr [OF assms(2)] by (simp add: ece391_fdputs_def)
qed

lemma putsl_displays:
  fixes s :: "'a kernel_scheme"
  assumes "world s" "lit_ok U b m s w"
  shows "\<exists>t. putsl U w s = Some t \<and> displays (bytes_of w) a n s t \<and> fds_of t = fds_of s \<and> input_of t = input_of s"
  using fdputs_displays [OF assms(1), of "ul_lit U w" "bytes_of w"] assms(2) by (simp add: putsl_def lit_ok_def bytes_of_def)

section \<open>Descriptors and files\<close>

lemma upd_user:
  fixes s :: "'a kernel_scheme"
  assumes "world s" "fds_ok ((fds_of s)(i := f (fds_of s i)))"
  shows "displays [] a n s (upd_fd (current_pcb s) i f s)" "fds_of (upd_fd (current_pcb s) i f s) = (fds_of s)(i := f (fds_of s i))"
proof -
  let ?t = "upd_fd (current_pcb s) i f s"
  obtain p where p: "procs_ok s" "running s p" using assms(1) by (auto simp: world_def)
  have im: "same_image s ?t" by (rule same_image_kernel_upd) simp
  have cur: "cursor_of i ?t = cursor_of i s" "terminal_being_serviced ?t = terminal_being_serviced s" "curr_attribute ?t = curr_attribute s" for i
    by (simp_all add: cursor_of_def upd_fd_def upd_pcb_def)
  have "read_bytes ?t b k = read_bytes s b k" for b k by (simp add: read_bytes_def load_def)
  then have "screen_of ?t = screen_of s" by (simp add: term_vt_def cur)
  moreover have "procs_ok ?t" using procs_ok_upd_fd [OF p(1), of "current_pcb s" i f] assms(2) by simp
  then have "world ?t" using p(2) assms(1) by (intro world_image [OF assms(1) im]) (auto simp: cur world_def running_upd_fd)
  moreover have "pcbs ?t = (pcbs s)(current_pcb s := (pcbs s (current_pcb s))\<lparr>fd_array := (fds_of s)(i := f (fds_of s i))\<rparr>)" by simp
  then have "own_fds_only s ?t" unfolding own_fds_only_def by (auto simp: upd_fd_def upd_pcb_def)
  moreover have "own_memory_only s ?t" by (rule own_memory_only_same) simp
  ultimately show "displays [] a n s ?t" using im by (simp add: displays_def same_world_def cur load_def)
  show "fds_of ?t = (fds_of s)(i := f (fds_of s i))" by simp
qed

lemma world_fds: "world s \<Longrightarrow> fds_ok (fds_of s)"
  by (auto simp: world_def intro: running_fds)

lemma move_user:
  fixes s :: "'a kernel_scheme"
  assumes "world s"
  shows "displays [] a n s (upd_fd (current_pcb s) i (\<lambda>f. f\<lparr>position := q\<rparr>) s)"
  using world_fds [OF assms] by (intro upd_user(1) [OF assms]) (auto simp: fds_ok_def)

definition file_of :: "'a kernel_scheme \<Rightarrow> u32 \<Rightarrow> u8 list" where
  "file_of s ino = file_bytes s ino 0 (unat (inode_length s ino))"

lemma length_file_of: "length (file_of s ino) = unat (inode_length s ino)"
  by (simp add: file_of_def)

lemma file_bytes_of: "pos + n \<le> length (file_of s ino) \<Longrightarrow> file_bytes s ino pos n = take n (drop pos (file_of s ino))"
  by (intro nth_equalityI) (simp_all add: file_of_def)

text \<open>The descriptor reads the file of the inode, from the position on.\<close>

definition reads_file :: "'a kernel_scheme \<Rightarrow> nat \<Rightarrow> u32 \<Rightarrow> nat \<Rightarrow> bool" where
  "reads_file s fd ino pos \<longleftrightarrow> fd < 8 \<and> fd_flags (fds_of s fd) = 1 \<and> fops_jmp_table (fds_of s fd) = Some regular_file_table \<and>
     file_ok s ino \<and> open_at s fd ino pos \<and> pos \<le> length (file_of s ino)"

lemma same_world_file:
  assumes "same_world s t" "file_ok s ino"
  shows "file_ok t ino" "file_of t ino = file_of s ino" "get_inode_ptr ino t = get_inode_ptr ino s"
proof -
  have im: "same_image s t" using assms(1) by (simp add: same_world_def)
  have m: "mounted s" "inode_wf s ino" using assms(2) by (simp_all add: file_ok_def)
  note w = same_image_wf [OF im m]
  show "file_ok t ino" using w(1,2) assms(2) by (simp add: file_ok_def)
  show "file_of t ino = file_of s ino" using w(3) w(4) [of 0 "unat (inode_length s ino)"] by (simp add: file_of_def)
  show "get_inode_ptr ino t = get_inode_ptr ino s" using im same_image_boot [OF im] by (simp add: get_inode_ptr_def same_image_def)
qed

text \<open>A step at most moves the descriptor \<open>fd\<close>.\<close>

definition same_fds :: "nat \<Rightarrow> 'a kernel_scheme \<Rightarrow> 'a kernel_scheme \<Rightarrow> bool" where
  "same_fds fd s t \<longleftrightarrow> in_use (fds_of t) = in_use (fds_of s) \<and> (\<forall>j. j \<noteq> fd \<longrightarrow> fds_of t j = fds_of s j)"

lemma read_user_file:
  fixes s :: "'a kernel_scheme"
  assumes "world s" "reads_file s fd ino pos" "in_user buf c" "0 < c" "n = min c (length (file_of s ino) - pos)"
  shows "\<exists>t. ece391_read U env (int fd) buf (int c) s = Some (int n, t) \<and> displays [] buf c s t \<and>
    read_bytes t buf n = take c (drop pos (file_of s ino)) \<and> reads_file t fd ino (pos + n) \<and> same_fds fd s t"
proof -
  have r: "fd < 8" "fd_flags (fds_of s fd) = 1" "fops_jmp_table (fds_of s fd) = Some regular_file_table"
    "file_ok s ino" "open_at s fd ino pos" "pos \<le> length (file_of s ino)" using assms(2) by (simp_all add: reads_file_def)
  have c: "c < 2147483648" using assms(3) by (simp add: in_user_def)
  have n: "n = min c (unat (inode_length s ino) - pos)" "n \<le> c" using assms(5) by (simp_all add: length_file_of)
  have pos: "pos < 4294967296" using r(6) le_less_trans [OF _ unat_u32_less] by (simp only: length_file_of)
  let ?bs = "file_bytes s ino pos n" and ?u = "\<lambda>s. upd_fd (current_pcb s) fd (\<lambda>f. f\<lparr>position := int (pos + n)\<rparr>) s"
  have bs: "?bs = take c (drop pos (file_of s ino))" using file_bytes_of [of pos n s ino] r(6) assms(5) by (auto simp: min_def)
  define t where "t = write_bytes buf ?bs s"
  have "read_file (int fd) buf (int c) s = (int n, ?u t)"
    using read_file_eq [OF r(4,5) pos _ n(1)] c apart_mono [OF user_area(3) [OF assms(1,3)] n(2)] by (simp add: t_def)
  moreover have "ece391_read U env (int fd) buf (int c) s = Some (read_file (int fd) buf (int c) s)"
    using r(1-3) c in_user_pointer [OF in_user_mono [OF assms(3)]] assms(4)
    by (simp add: user_calls sys_read_def Let_def r_func_def)
  moreover have w: "displays [] buf c s t" unfolding t_def by (rule write_user [OF assms(1,3)]) (simp add: n(2))
  then have pr: "displays [] buf c s (?u t)"
    using displays_trans [OF w move_user [OF displays_world [OF w]]] by simp
  moreover have "read_bytes t buf n = ?bs"
    unfolding t_def using read_write_same [of s buf ?bs] user_area(1) [OF assms(1) in_user_mono [OF assms(3) n(2)]] by simp
  then have "read_bytes (?u t) buf n = ?bs" by (simp add: read_bytes_def load_def)
  moreover have "same_world s (?u t)" using pr by (simp add: displays_def)
  note sw = same_world_file [OF this r(4)]
  have "reads_file (?u t) fd ino (pos + n)"
    using r sw assms(5) by (auto simp: reads_file_def open_at_def t_def)
  moreover have "same_fds fd s (?u t)" by (auto simp: same_fds_def in_use_def t_def split: if_splits)
  ultimately show ?thesis using bs by simp
qed

text \<open>What \<^verbatim>\<open>open\<close> finds for a name.\<close>

definition lookup :: "'a kernel_scheme \<Rightarrow> u8 list \<Rightarrow> dentry option" where
  "lookup s w = find (\<lambda>d. dentry_name d = w) (directory s)"

definition fd_free :: "'a kernel_scheme \<Rightarrow> bool" where
  "fd_free s \<longleftrightarrow> \<not> {2..<8} \<subseteq> in_use (fds_of s)"

lemma lookup_same: "same_world s t \<Longrightarrow> world s \<Longrightarrow> lookup t w = lookup s w"
  using same_image_directory [of s t] by (simp add: lookup_def same_world_def world_def)

lemma lookup_name: "read_dentry_by_name a s = (case lookup s (field_text s a 32) of None \<Rightarrow> (FAILURE, None) | Some d \<Rightarrow> (SUCCESS, Some d))"
  by (simp add: read_dentry_by_name_eq lookup_def)

lemma open_fails_user:
  assumes "in_user a 1" "lookup s (field_text s a 32) = None \<or> \<not> fd_free s"
  shows "ece391_open U a s = Some (-1, s)"
proof -
  have "read_dentry_by_name a s = (FAILURE, None) \<or> free_fd_from 6 2 (fds_of s) = 8"
  proof (cases "fd_free s")
    case True
    then show ?thesis using assms(2) by (simp add: lookup_name)
  next
    case False
    show ?thesis by (rule free_fd [of "fds_of s"]) (use False in \<open>auto simp: fd_free_def\<close>)
  qed
  then have "sys_open (ul_dev U) a s = Some (FAILURE, s)" by (intro sys_open_fails [where r = FAILURE]) auto
  then show ?thesis by (simp add: user_calls [of 0 0])
qed

text \<open>A file or the directory is opened at its beginning, on a free descriptor.\<close>

lemma open_user:
  fixes s :: "'a kernel_scheme"
  assumes "world s" "in_user a 1" "lookup s (field_text s a 32) = Some d" "filetype d \<in> {1, 2}" "fd_free s"
  shows "\<exists>i t. ece391_open U a s = Some (int i, t) \<and> 2 \<le> i \<and> i < 8 \<and> i \<notin> in_use (fds_of s) \<and> displays [] b n s t \<and>
    fds_of t = (fds_of s)(i := opened d s)"
proof -
  obtain i where i: "free_fd_from 6 2 (fds_of s) = i" "2 \<le> i" "i < 8" "i \<notin> in_use (fds_of s)"
    by (rule free_fd [of "fds_of s"]) (use assms(5) in \<open>auto simp: fd_free_def\<close>)
  let ?t = "upd_fd (current_pcb s) i (\<lambda>_. opened d s) s"
  have rd: "read_dentry_by_name a s = (SUCCESS, Some d)" using assms(3) by (simp add: lookup_name)
  have ft: "filetype d \<le> 2" using assms(4) by auto
  have op: "sys_open (ul_dev U) a s = Some (int i, ?t)"
    using sys_open_found [OF in_user_pointer [OF assms(2)] rd ft i(1)] i(3) assms(4)
    by (auto simp: fops_of_def o_func_def open_file_def open_directory_def)
  have "fds_ok ((fds_of s)(i := opened d s))"
    using fds_ok_upd [OF world_fds [OF assms(1)], of "opened d s" i] i(2) by (simp add: opened_def)
  then show ?thesis using upd_user [OF assms(1), of i "\<lambda>_. opened d s"] op i(2-4) by (auto simp: user_calls [of 0 0])
qed

lemma opened_file:
  assumes "same_world s t" "fds_of t i = opened d s" "filetype d = 2" "i < 8" "file_ok s (inode d)"
  shows "reads_file t i (inode d) 0"
  using assms same_world_file [OF assms(1,5)]
  by (simp add: reads_file_def open_at_def opened_def fops_of_def)

text \<open>The directory, read from entry \<open>k\<close> on.\<close>

definition reads_dir :: "'a kernel_scheme \<Rightarrow> nat \<Rightarrow> nat \<Rightarrow> bool" where
  "reads_dir s fd k \<longleftrightarrow> fd < 8 \<and> fd_flags (fds_of s fd) = 1 \<and> fops_jmp_table (fds_of s fd) = Some directory_table \<and>
     position (fds_of s fd) = int k \<and> k \<le> length (directory s)"

lemma opened_dir: "fds_of t i = opened d s \<Longrightarrow> filetype d = 1 \<Longrightarrow> i < 8 \<Longrightarrow> reads_dir t i 0"
  by (simp add: reads_dir_def opened_def fops_of_def)

lemma read_user_dir:
  fixes s :: "'a kernel_scheme"
  assumes "world s" "reads_dir s fd k" "in_user buf 32" "k < length (directory s)" "w = dentry_name (directory s ! k)"
  shows "\<exists>t. ece391_read U env (int fd) buf 32 s = Some (int (length w), t) \<and> displays [] buf 32 s t \<and>
    read_bytes t buf (length w) = w \<and> reads_dir t fd (Suc k) \<and> length w \<le> 32 \<and> 0 \<notin> set w \<and> same_fds fd s t"
proof -
  have r: "fd < 8" "fd_flags (fds_of s fd) = 1" "fops_jmp_table (fds_of s fd) = Some directory_table"
    "position (fds_of s fd) = int k" using assms(2) by (simp_all add: reads_dir_def)
  have d63: "length (directory s) \<le> 63" using assms(1) by (simp add: world_def)
  let ?d = "directory s ! k" and ?u = "\<lambda>s. upd_fd (current_pcb s) fd (\<lambda>f. f\<lparr>position := int (Suc k)\<rparr>) s"
  have w: "w = field_text s (boot_file s (of_nat k)) 32" using directory_nth [OF assms(4)] assms(5) by simp
  then have len: "length w \<le> 32" "length (padded_name ?d) = 32" "padded_name ?d = w @ replicate (32 - length w) 0"
    using length_field_text [of s _ 32] assms(5) by (simp_all add: padded_name_def)
  have nz: "0 \<notin> set w" using w by (auto simp: field_text_def dest: set_takeWhileD)
  define t where "t = write_bytes buf (padded_name ?d) s"
  note u = user_area [OF assms(1,3)]
  have "read_directory (int fd) buf 32 s = Some (int (length w), ?u t)"
    using read_directory_eq [OF r(4) assms(4) d63 u(3,1)] assms(5) by (simp add: t_def)
  moreover have "ece391_read U env (int fd) buf 32 s = read_directory (int fd) buf 32 s"
    using r(1-3) in_user_pointer [OF in_user_mono [OF assms(3)]]
    by (simp add: user_calls sys_read_def Let_def r_func_def)
  moreover have pw: "displays [] buf 32 s t" unfolding t_def by (rule write_user [OF assms(1,3)]) (simp add: len(2))
  then have pr: "displays [] buf 32 s (?u t)"
    using displays_trans [OF pw move_user [OF displays_world [OF pw]]] by simp
  moreover have "read_bytes t buf 32 = padded_name ?d"
    unfolding t_def using read_write_same [of s buf "padded_name ?d"] u(1) len(2) by simp
  then have "read_bytes t buf (length w) = w"
    using take_read_bytes [OF len(1), of t buf] len(3) by (metis append_eq_conv_conj)
  then have "read_bytes (?u t) buf (length w) = w" by (simp add: read_bytes_def load_def)
  moreover have "same_image s (?u t)" using pr unfolding displays_def same_world_def by blast
  then have "directory (?u t) = directory s" by (rule same_image_directory [OF _ d63])
  then have "reads_dir (?u t) fd (Suc k)" using r assms(4) by (simp add: reads_dir_def t_def)
  moreover have "same_fds fd s (?u t)" by (auto simp: same_fds_def in_use_def t_def split: if_splits)
  ultimately show ?thesis using len(1) nz by auto
qed

lemma read_user_dir_end:
  fixes s :: "'a kernel_scheme"
  assumes "reads_dir s fd (length (directory s))" "in_user buf 32"
  shows "ece391_read U env (int fd) buf 32 s = Some (0, s)"
proof -
  have "fd < 8" "fd_flags (fds_of s fd) = 1" "fops_jmp_table (fds_of s fd) = Some directory_table"
    "position (fds_of s fd) = int (length (directory s))" using assms by (simp_all add: reads_dir_def)
  then show ?thesis using read_directory_end [of s fd buf 32] in_user_pointer [OF in_user_mono [OF assms(2)]]
    by (simp add: user_calls sys_read_def Let_def r_func_def)
qed

text \<open>The arguments the program was started with, kept by the kernel outside the page.\<close>

definition started_with :: "'a kernel_scheme \<Rightarrow> u8 list \<Rightarrow> bool" where
  "started_with s w \<longleftrightarrow> cstr s (args (pcbs s (current_pcb s))) w \<and>
     apart s 0x08000000 0x400000 (args (pcbs s (current_pcb s))) 1024"

lemma getargs_user:
  fixes s :: "'a kernel_scheme"
  assumes "world s" "in_user buf 1024" "started_with s w"
  shows "if 1024 < length w then ece391_getargs U buf 1024 s = Some (-1, s)
    else \<exists>t. ece391_getargs U buf 1024 s = Some (0, t) \<and> displays [] buf 1024 s t \<and>
      read_bytes t buf 1024 = w @ replicate (1024 - length w) 0 \<and> fds_of t = fds_of s"
proof -
  let ?a = "args (pcbs s (current_pcb s))" and ?bs = "w @ replicate (1024 - length w) 0"
  have "unat buf - 0x08000000 + 1024 \<le> 0x400000" using assms(2) unfolding in_user_def by linarith
  then have "apart s buf 1024 ?a 1024"
    using apart_shift_left [of s "0x08000000" "0x400000" ?a 1024 "unat buf - 0x08000000" 1024] assms(3)
      user_base [OF assms(2)] unfolding started_with_def by metis
  then have g: "sys_getargs buf 1024 s = (if 1024 < length w then Some (FAILURE, s) else Some (SUCCESS, write_bytes buf ?bs s))"
    using getargs_eq [of buf s w 1024] in_user_pointer [OF in_user_mono [OF assms(2)]] assms(3) by (simp add: started_with_def)
  show ?thesis
  proof (cases "1024 < length w")
    case False
    then have "read_bytes (write_bytes buf ?bs s) buf 1024 = ?bs"
      using read_write_same [of s buf ?bs] user_area(1) [OF assms(1,2)] by simp
    then show ?thesis using False g write_user [OF assms(1,2), of ?bs] by (simp add: user_calls [of 0])
  qed (use g in \<open>simp add: user_calls [of 0]\<close>)
qed

lemma padded_field:
  assumes "read_bytes s a (m + k) = w @ replicate j 0" "0 \<notin> set w" "m \<le> length w + j"
  shows "field_text s a m = take m w"
proof -
  have "read_bytes s a m = take m (w @ replicate j 0)" using assms(1) take_read_bytes [of m "m + k" s a] by simp
  moreover have "0 \<notin> set (take m w)" using assms(2) by (meson in_set_takeD)
  then have "takeWhile (\<lambda>b. b \<noteq> 0) (take m w @ replicate i 0) = take m w" for i by (cases i) (auto simp: takeWhile_append)
  ultimately show ?thesis by (simp add: field_text_def)
qed

section \<open>Reading from the keyboard\<close>

lemma terminal_user:
  fixes s :: "'a kernel_scheme"
  assumes "world s" "\<And>x. t_screen_x (f x) = t_screen_x x \<and> t_screen_y (f x) = t_screen_y x \<and> t_pid (f x) = t_pid x"
  shows "displays [] a n s (upd_terminal i f s)"
proof (rule quiet_user(1) [OF assms(1)])
  show "same_procs s (upd_terminal i f s)" using assms(2) by simp
qed (simp_all add: upd_terminal_def cursor_of_def assms(2))

text \<open>The wait for a line ends in \<open>w\<close> with the line \<open>l\<close>; meanwhile nothing happens to the program.\<close>

definition waited :: "'a waiting \<Rightarrow> u8 list \<Rightarrow> 'a kernel_scheme \<Rightarrow> 'a kernel_scheme \<Rightarrow> bool" where
  "waited env l s w \<longleftrightarrow> (let c = unat (terminal_being_serviced s) in
     spin env (\<lambda>s. allowed_to_read (terminals s c) = 0) 0 (upd_terminal c (\<lambda>x. x\<lparr>read_waiting := 1\<rparr>) s) = Some w \<and>
     terminal_ok (terminals w c) \<and> line_of (terminals w c) = l) \<and>
     same_world s w \<and> fds_of w = fds_of s \<and> (\<forall>x. in_user x 1 \<longrightarrow> load w x = load s x)"

lemma waited_cstr:
  assumes "waited env l s w" "cstr s p bs" "in_user p (Suc (length bs))"
  shows "cstr w p bs"
proof (rule cstr_load_cong [OF _ assms(2)])
  fix i assume "i \<le> length bs"
  then have "in_user (p + of_nat i) 1" using assms(3) unat_user [OF assms(3), of i] by (simp add: in_user_def)
  then show "load w (p + of_nat i) = load s (p + of_nat i)" using assms(1) by (simp add: waited_def)
qed

lemma waited_lit: "waited env l s w \<Longrightarrow> lit_ok U a n s v \<Longrightarrow> lit_ok U a n w v"
  using waited_cstr [of env l s w "ul_lit U v" "bytes_of v"] by (simp add: lit_ok_def bytes_of_def)

lemma read_user_line:
  fixes s :: "'a kernel_scheme"
  assumes "world s" "waited env l s w" "in_user buf c" "128 \<le> c" "0 \<le> n" "n < 2147483648"
  shows "\<exists>t. ece391_read U env 0 buf n s = Some (int (length l), t) \<and> displays [] buf c w t \<and>
    read_bytes t buf (length l) = l \<and> fds_of t = fds_of s \<and> 0 \<notin> set l \<and> length l \<le> 128"
proof -
  let ?c = "unat (terminal_being_serviced s)"
  have wt: "spin env (\<lambda>s. allowed_to_read (terminals s ?c) = 0) 0 (upd_terminal ?c (\<lambda>x. x\<lparr>read_waiting := 1\<rparr>) s) = Some w"
    "terminal_ok (terminals w ?c)" "line_of (terminals w ?c) = l" "world w" "fds_of w = fds_of s"
    using assms(2) unfolding waited_def Let_def same_world_def by blast+
  obtain p where p: "procs_ok s" "running s p" using assms(1) by (auto simp: world_def)
  have f0: "fd_flags (fds_of s 0) = 1" "fops_jmp_table (fds_of s 0) = Some terminal_table"
    using running_fds [OF p] by (simp_all add: fds_ok_def)
  have nz: "0 \<notin> set l" using wt(3) by (auto simp: line_of_def dest: set_takeWhileD)
  have len: "length l \<le> 128" using wt(2,3) length_takeWhile_le [of _ "stdin (terminals w ?c)"] by (auto simp: terminal_ok_def line_of_def)
  let ?f = "\<lambda>x. (flush_stdin x)\<lparr>allowed_to_read := 0, read_waiting := 0\<rparr>"
  define t where "t = write_bytes buf l w"
  have "sys_read env 0 buf n s = Some (int (length l), upd_terminal ?c ?f t)"
    using read_terminal_eq [OF wt(1) refl assms(5) wt(2), of buf] wt(3) f0 in_user_pointer [OF in_user_mono [OF assms(3)]] assms(4)
    by (simp add: sys_read_def Let_def r_func_def t_def)
  then have "ece391_read U env 0 buf n s = Some (int (length l), upd_terminal ?c ?f t)"
    using assms(5,6) by (simp add: user_calls)
  moreover have d: "displays [] buf c w t" unfolding t_def by (rule write_user [OF wt(4) assms(3)]) (use len assms(4) in simp)
  moreover have "displays [] buf c w (upd_terminal ?c ?f t)"
    using displays_trans [OF d terminal_user [OF displays_world [OF d]], of ?f ?c] by (simp add: flush_stdin_def)
  moreover have "read_bytes t buf (length l) = l"
    unfolding t_def using user_area(1) [OF wt(4) in_user_mono [OF assms(3)]] len assms(4) by (simp add: read_write_same)
  then have "read_bytes (upd_terminal ?c ?f t) buf (length l) = l" by (simp add: read_bytes_def load_def upd_terminal_def)
  moreover have "fds_of (upd_terminal ?c ?f t) = fds_of s" using wt(5) by (simp add: upd_terminal_def t_def current_pcb_def)
  ultimately show ?thesis using nz len by auto
qed

lemma displays_two: "displays [] a n s t \<Longrightarrow> displays bs a n t u \<Longrightarrow> displays bs a n s u"
  using displays_trans [of "[]" a n s t bs u] by simp

lemma displays_same: "displays bs a n s t \<Longrightarrow> same_world s t"
  by (simp add: displays_def)

text \<open>A text in a buffer is made a string by the zero that is stored behind it.\<close>

lemma terminate_user:
  fixes s :: "'a kernel_scheme"
  assumes "world s" "in_user buf n" "length l < n" "read_bytes s buf (length l) = l" "0 \<notin> set l"
  shows "displays [] buf n s (store (buf + of_nat (length l)) 0 s)" "cstr (store (buf + of_nat (length l)) 0 s) buf l"
proof -
  let ?a = "buf + of_nat (length l)"
  let ?t = "store ?a 0 s"
  have a: "unat ?a = unat buf + length l" by (rule unat_user [OF assms(2,3)])
  then have iu: "in_user ?a 1" "in_user buf (length l)" using assms(2,3) by (simp_all add: in_user_def)
  note d = store_user [OF assms(1) iu(1), of 0]
  show "displays [] buf n s ?t" by (rule displays_wider [OF d]) (use a assms(3) in simp_all)
  have "read_bytes ?t buf (length l) = read_bytes s buf (length l)"
    by (rule displays_field(2) [OF d iu(2)]) (simp add: clear_of_def a)
  moreover have "length l < 4294967296" using assms(2,3) by (simp add: in_user_def)
  ultimately show "cstr ?t buf l" using assms(4,5) by (simp add: cstr_def load_store)
qed

lemma close_open:
  fixes s :: "'a kernel_scheme"
  assumes "world s" "2 \<le> i" "i < 8"
  shows "\<exists>r t. ece391_close U (int i) s = Some (r, t) \<and> displays [] a n s t \<and> in_use (fds_of t) = in_use (fds_of s) - {i} \<and>
    (\<forall>j. j \<noteq> i \<longrightarrow> fds_of t j = fds_of s j) \<and> (r = 0 \<longleftrightarrow> i \<in> in_use (fds_of s))"
proof -
  have f: "fd_flags (fds_of s i) \<in> {0, 1}" "fd_flags (fds_of s i) = 1 \<longrightarrow> fops_jmp_table (fds_of s i) \<noteq> None"
    using world_fds [OF assms(1)] assms(3) unfolding fds_ok_def by blast+
  show ?thesis
  proof (cases "fd_flags (fds_of s i) = 0")
    case True
    then have "ece391_close U (int i) s = Some (-1, s)"
      using assms(2,3) by (simp add: user_calls(4) [where n = 0] sys_close_def Let_def)
    moreover have "i \<notin> in_use (fds_of s)" using True by (simp add: in_use_def)
    ultimately show ?thesis using displays_refl [OF assms(1)] by auto
  next
    case False
    then obtain tab where tab: "fops_jmp_table (fds_of s i) = Some tab" using f by auto
    let ?t = "upd_fd (current_pcb s) i (\<lambda>f. f\<lparr>fd_flags := 0\<rparr>) s"
    have "fds_ok ((fds_of s)(i := (fds_of s i)\<lparr>fd_flags := 0\<rparr>))"
      using fds_ok_upd [OF world_fds [OF assms(1)], of "(fds_of s i)\<lparr>fd_flags := 0\<rparr>" i] assms(2) by simp
    note u = upd_user [OF assms(1), of i "\<lambda>f. f\<lparr>fd_flags := 0\<rparr>", OF this]
    have "in_use (fds_of ?t) = in_use (fds_of s) - {i}" unfolding u(2) in_use_upd [OF assms(3)] by simp
    moreover have "ece391_close U (int i) s = Some (0, ?t)"
      using sys_close_ok [OF assms(2,3) False tab] assms(3) by (simp add: user_calls(4) [where n = 0])
    moreover have "i \<in> in_use (fds_of s)" using False f(1) assms(3) by (auto simp: in_use_def)
    ultimately show ?thesis using u(1) [of a n] u(2) by auto
  qed
qed

lemma store_at:
  fixes s :: "'a kernel_scheme"
  assumes "world s" "in_user buf n" "j < n"
  shows "displays [] buf n s (store (buf + of_nat j) v s)"
    "i < n \<Longrightarrow> load (store (buf + of_nat j) v s) (buf + of_nat i) = (if i = j then v else load s (buf + of_nat i))"
proof -
  have a: "unat (buf + of_nat k) = unat buf + k" if "k < n" for k using unat_user [OF assms(2) that] .
  have iu: "in_user (buf + of_nat k) 1" if "k < n" for k using a [OF that] that assms(2) by (simp add: in_user_def)
  note d = store_user [OF assms(1) iu [OF assms(3)], of v]
  show "displays [] buf n s (store (buf + of_nat j) v s)" by (rule displays_wider [OF d]) (use a assms(3) in simp_all)
  show "load (store (buf + of_nat j) v s) (buf + of_nat i) = (if i = j then v else load s (buf + of_nat i))" if "i < n"
  proof (cases "i = j")
    case False
    then have "load (store (buf + of_nat j) v s) (buf + of_nat i) = load s (buf + of_nat i)"
      using a that assms(3) by (intro displays_load [OF d iu [OF that]]) auto
    then show ?thesis using False by simp
  qed (simp add: load_store)
qed

end
