(* ===== verification/User_Demo.thy ===== *)
theory User_Demo
  imports User_World Console_Properties
begin

text \<open>
  The small concrete kernel, with a program in it: process 0 was started with the argument \<^verbatim>\<open>hi\<close>, and
  the string constants of its program are in slots of 256 bytes from 0x08300000 on.
\<close>

definition slot :: "nat \<Rightarrow> u32" where
  "slot i = 0x08300000 + of_nat (256 * i)"

definition demo_link :: "string list \<Rightarrow> user_link" where
  "demo_link ws = \<lparr>ul_lay = demo_layout, ul_dev = (\<lambda>_ _. 0), ul_fr = demo_locals, ul_shell = 0,
     ul_lit = (\<lambda>w. slot (length (takeWhile (\<lambda>v. v \<noteq> w) ws)))\<rparr>"

fun place_from :: "nat \<Rightarrow> string list \<Rightarrow> 'a machine_scheme \<Rightarrow> 'a machine_scheme" where
  "place_from i [] s = s"
| "place_from i (w # ws) s = place_from (Suc i) ws (write_bytes (slot i) (bytes_of w @ [0]) s)"

definition short_text :: "string \<Rightarrow> bool" where
  "short_text w \<longleftrightarrow> length w < 256 \<and> list_all (\<lambda>b. b \<noteq> 0) (bytes_of w)"

lemma unat_slot: "i \<le> 100 \<Longrightarrow> unat (slot i) = 0x08300000 + 256 * i"
  by (simp add: slot_def unat_word_ariths unat_of_nat take_bit_nat_eq_self)

lemma place_from_displays:
  fixes s :: "'a kernel_scheme"
  assumes "world s" "i + length ws \<le> 100" "list_all short_text ws"
  shows "displays [] (slot i) (256 * length ws) s (place_from i ws s) \<and>
    (\<forall>k<length ws. cstr (place_from i ws s) (slot (i + k)) (bytes_of (ws ! k)))"
  using assms
proof (induction ws arbitrary: i s)
  case (Cons w ws)
  let ?t = "write_bytes (slot i) (bytes_of w @ [0]) s"
  have w: "length w < 256" "0 \<notin> set (bytes_of w)" using Cons.prems(3) by (auto simp: short_text_def list_all_iff)
  have sl: "unat (slot i) = 0x08300000 + 256 * i" "unat (slot (Suc i)) = 0x08300000 + 256 * Suc i"
    using Cons.prems(2) unat_slot by simp_all
  have iu: "in_user (slot i) 256" using sl Cons.prems(2) by (simp add: in_user_def)
  have len: "length (bytes_of w @ [0]) \<le> 256" using w(1) by (simp add: bytes_of_def)
  note d = write_user [OF Cons.prems(1) iu len]
  have IH: "displays [] (slot (Suc i)) (256 * length ws) ?t (place_from (Suc i) ws ?t) \<and>
      (\<forall>k<length ws. cstr (place_from (Suc i) ws ?t) (slot (Suc i + k)) (bytes_of (ws ! k)))"
    by (rule Cons.IH [OF displays_world [OF d]]) (use Cons.prems in simp_all)
  have d1: "displays [] (slot i) (256 * length (w # ws)) s ?t" by (rule displays_wider [OF d]) simp_all
  have d2: "displays [] (slot i) (256 * length (w # ws)) ?t (place_from (Suc i) ws ?t)"
    by (rule displays_wider [OF conjunct1 [OF IH]]) (simp_all add: sl)
  have sp: "spread s (slot i) (Suc (length (bytes_of w)))"
    by (rule user_area(1) [OF Cons.prems(1)]) (rule in_user_mono [OF iu], use len in simp)
  have "cstr ?t (slot i) (bytes_of w)" by (rule cstr_write) (use w sp in \<open>simp_all add: bytes_of_def\<close>)
  then have c: "cstr (place_from (Suc i) ws ?t) (slot i) (bytes_of w)"
    using len sl in_user_mono [OF iu]
    by (intro displays_cstr [OF conjunct1 [OF IH]]) (simp_all add: clear_of_def)
  have "cstr (place_from i (w # ws) s) (slot (i + k)) (bytes_of ((w # ws) ! k))" if "k < length (w # ws)" for k
    using c IH that by (cases k) simp_all
  then show ?case using displays_trans [OF d1 d2] by simp
qed (simp add: displays_refl)

lemma place_lit:
  fixes s :: "'a kernel_scheme"
  assumes "world s" "length ws \<le> 100" "list_all short_text ws" "w \<in> set ws" "unat a + n \<le> 0x08300000"
  shows "lit_ok (demo_link ws) a n (place_from 0 ws s) w"
proof -
  let ?k = "length (takeWhile (\<lambda>v. v \<noteq> w) ws)"
  have k: "?k < length ws" "ws ! ?k = w"
    using assms(4) nth_length_takeWhile [of "\<lambda>v. v \<noteq> w" ws] length_takeWhile_le [of "\<lambda>v. v \<noteq> w" ws]
      takeWhile_eq_all_conv [of "\<lambda>v. v \<noteq> w" ws] by (metis (mono_tags, lifting) le_neq_implies_less takeWhile_eq_take take_all_iff order_refl)+
  have "cstr (place_from 0 ws s) (slot ?k) (bytes_of w)"
    using place_from_displays [OF assms(1) _ assms(3), of 0] assms(2) k by auto
  moreover have "length w < 256" using assms(3,4) by (auto simp: short_text_def list_all_iff)
  ultimately show ?thesis using assms(2,5) k(1) unat_slot [of ?k] by (simp add: lit_ok_def demo_link_def in_user_def clear_of_def)
qed

section \<open>The program's kernel\<close>

definition started_demo :: kernel where
  "started_demo = (write_bytes 0x450010 [0x68, 0x69, 0] flat_demo)\<lparr>pcbs := (\<lambda>_. (blank_pcb 0)\<lparr>args := 0x450010\<rparr>)\<rparr>"

lemma started_demo_sel [simp]:
  "xlat started_demo = (\<lambda>a. a)" "pcbs started_demo = (\<lambda>_. (blank_pcb 0)\<lparr>args := 0x450010\<rparr>)"
  "tss_esp0 started_demo = kernel_stack 0" "pid_avail started_demo = 1" "terminal_being_serviced started_demo = 0"
  "terminal_state started_demo = 0" "screen_x started_demo = 0" "screen_y started_demo = 0"
  "terminals started_demo = (\<lambda>_. blank_terminal)"
proof -
  note m = machine_more_sel [of "write_bytes 0x450010 [0x68, 0x69, 0] flat_demo" flat_demo, OF write_bytes_frame(4)]
  show "xlat started_demo = (\<lambda>a. a)" "pcbs started_demo = (\<lambda>_. (blank_pcb 0)\<lparr>args := 0x450010\<rparr>)"
    "tss_esp0 started_demo = kernel_stack 0" "pid_avail started_demo = 1" "terminal_being_serviced started_demo = 0"
    "terminal_state started_demo = 0" "screen_x started_demo = 0" "screen_y started_demo = 0"
    "terminals started_demo = (\<lambda>_. blank_terminal)"
    using m by (simp_all add: started_demo_def del: write_bytes.simps)
qed

lemma started_image: "same_image flat_demo started_demo"
proof -
  have "apart flat_demo 0x450010 (length [0x68 :: u8, 0x69, 0]) 0x500000 12288" by (rule demo_apart) simp_all
  then have "same_image flat_demo (write_bytes 0x450010 [0x68, 0x69, 0] flat_demo)"
    by (intro write_same_image) (simp add: demo_image_size)
  then show ?thesis by (simp add: same_image_def started_demo_def load_def del: write_bytes.simps)
qed

lemma started_dir: "directory started_demo = [dot_dentry, rtc_dentry, hi_dentry]"
  using same_image_directory [OF started_image] demo_directory by simp

lemma identity_spread: "xlat s = (\<lambda>a. a) \<Longrightarrow> unat a + n \<le> 4294967296 \<Longrightarrow> spread s a n"
  using demo_spread [of a n] spread_xlat [of s flat_demo] by simp

lemma identity_apart:
  "xlat s = (\<lambda>a. a) \<Longrightarrow> unat a + n \<le> 4294967296 \<Longrightarrow> unat b + m \<le> 4294967296 \<Longrightarrow>
     unat a + n \<le> unat b \<or> unat b + m \<le> unat a \<Longrightarrow> apart s a n b m"
  using demo_apart [of a n b m] apart_xlat [of s flat_demo] by simp

lemma identity_window: "xlat s = (\<lambda>a. a) \<Longrightarrow> q \<in> window s \<Longrightarrow> \<not> program_memory q"
proof -
  assume "xlat s = (\<lambda>a. a)" "q \<in> window s"
  then obtain i where i: "q = VIDEO + of_nat i" "i < 4000" by (auto simp: window_def)
  then have "unat q = 0xB8000 + i" using u32_add_less_iff [of VIDEO 4000 i] by simp
  then show ?thesis using i(2) by simp
qed

lemma started_world: "world started_demo"
proof -
  have p: "procs_ok started_demo" "running started_demo 0"
    using fds_ok_fresh [of "\<lambda>_. std_fd"]
    by (simp_all add: procs_ok_def running_def pid_set_def bit_simps blank_pcb_def)
  have im: "bootblock started_demo = 0x500000" "image_size started_demo = 12288" "mounted started_demo"
    using started_image same_image_boot [OF started_image] demo_mounted demo_image_size
    by (simp_all add: same_image_def image_size_def mounted_def)
  have "cursor_ok (cursor_of 0 started_demo)" by (simp add: cursor_ok_def cursor_of_def)
  then show ?thesis
    using p im started_dir identity_window [of started_demo]
    by (auto simp: world_def video_mapped_def intro!: identity_spread identity_apart)
qed

lemma started_args: "started_with started_demo [0x68, 0x69]"
proof -
  have "cstr (write_bytes 0x450010 ([0x68, 0x69] @ [0]) flat_demo) 0x450010 [0x68, 0x69]"
    by (rule cstr_write) (simp_all add: demo_spread)
  then have "cstr started_demo 0x450010 [0x68, 0x69]"
    by (rule cstr_load_cong [rotated]) (simp add: started_demo_def load_def)
  then show ?thesis by (simp add: started_with_def identity_apart)
qed

lemma started_free: "fd_free started_demo"
proof -
  have "2 \<notin> in_use (fds_of started_demo)" by (simp add: in_use_def blank_pcb_def fresh_fds_def)
  moreover have "(2 :: nat) \<in> {2..<8}" by simp
  ultimately show ?thesis unfolding fd_free_def by blast
qed

lemma started_lookup: "lookup started_demo [0x68, 0x69] = Some hi_dentry" "lookup started_demo [0x2E] = Some dot_dentry"
  unfolding lookup_def started_dir by (simp_all add: dentry_name_def dot_dentry_def rtc_dentry_def hi_dentry_def)

lemma started_file: "file_ok started_demo 0" "file_of started_demo 0 = hi_file"
proof -
  have m: "inode_length flat_demo 0 = 30" "length hi_file = 30" by (simp_all add: demo_counts hi_file_def)
  note w = same_image_wf [OF started_image demo_mounted demo_inode_wf]
  show "file_ok started_demo 0" using w(1,2) by (simp add: file_ok_def)
  show "file_of started_demo 0 = hi_file" using w(3) w(4) [of 0 30] m demo_file [of 0 30] by (simp add: file_of_def)
qed

text \<open>The same with the string constants \<open>ws\<close> in place.\<close>

definition user_demo :: "string list \<Rightarrow> kernel" where
  "user_demo ws = place_from 0 ws started_demo"

lemma user_demo_from:
  assumes "length ws \<le> 100" "list_all short_text ws"
  shows "displays [] 0x08300000 25600 started_demo (user_demo ws)"
  using place_from_displays [OF started_world, of 0 ws] assms
  by (auto simp: user_demo_def slot_def intro: displays_wider)

lemma place_from_frame [simp]: "machine.more (place_from i ws s) = machine.more s"
  by (induction ws arbitrary: i s) simp_all

lemma user_demo_facts:
  assumes "length ws \<le> 100" "list_all short_text ws"
  shows "world (user_demo ws)" "fd_free (user_demo ws)" "directory (user_demo ws) = [dot_dentry, rtc_dentry, hi_dentry]"
    "lookup (user_demo ws) w = lookup started_demo w" "file_ok (user_demo ws) 0" "file_of (user_demo ws) 0 = hi_file"
    "xlat (user_demo ws) = (\<lambda>a. a)" "pcbs (user_demo ws) = (\<lambda>_. (blank_pcb 0)\<lparr>args := 0x450010\<rparr>)"
    "terminal_being_serviced (user_demo ws) = 0" "terminals (user_demo ws) = (\<lambda>_. blank_terminal)"
proof -
  note d = user_demo_from [OF assms]
  have sw: "same_world started_demo (user_demo ws)" using d by (simp add: displays_def)
  note m = machine_more_sel [of "user_demo ws" started_demo, unfolded user_demo_def place_from_frame, OF refl, folded user_demo_def]
  show "world (user_demo ws)" by (rule displays_world [OF d])
  show "directory (user_demo ws) = [dot_dentry, rtc_dentry, hi_dentry]"
    using sw started_dir same_image_directory [of started_demo "user_demo ws"] by (simp add: same_world_def)
  show "fd_free (user_demo ws)" using started_free m by (simp add: fd_free_def current_pcb_def)
  show "lookup (user_demo ws) w = lookup started_demo w" by (rule lookup_same [OF sw started_world])
  show "file_ok (user_demo ws) 0" "file_of (user_demo ws) 0 = hi_file"
    using same_world_file [OF sw started_file(1)] started_file(2) by simp_all
  show "xlat (user_demo ws) = (\<lambda>a. a)" using sw by (simp add: same_world_def)
  show "pcbs (user_demo ws) = (\<lambda>_. (blank_pcb 0)\<lparr>args := 0x450010\<rparr>)" "terminal_being_serviced (user_demo ws) = 0"
    "terminals (user_demo ws) = (\<lambda>_. blank_terminal)" using m by simp_all
qed

lemma place_from_xlat [simp]: "xlat (place_from i ws s) = xlat s"
  by (induction ws arbitrary: i s) simp_all

lemma place_from_below:
  assumes "xlat s = (\<lambda>a. a)" "unat a < 0x08300000" "i + length ws \<le> 100" "list_all short_text ws"
  shows "load (place_from i ws s) a = load s a"
  using assms
proof (induction ws arbitrary: i s)
  case (Cons w ws)
  have "load (write_bytes (slot i) (bytes_of w @ [0]) s) a = load s a"
  proof (rule load_write_other)
    fix j assume "j < length (bytes_of w @ [0 :: u8])"
    then have "j < 256" using Cons.prems(4) by (auto simp: short_text_def bytes_of_def)
    then have "unat (slot i + of_nat j) = unat (slot i) + j"
      using unat_slot [of i] Cons.prems(3) by (intro u32_add_less_iff [of _ 256]) simp_all
    then have "slot i + of_nat j \<noteq> a" using unat_slot [of i] Cons.prems(2,3) by auto
    then show "xlat s (slot i + of_nat j) \<noteq> xlat s a" using Cons.prems(1) by simp
  qed
  then show ?case using Cons.IH [of "write_bytes (slot i) (bytes_of w @ [0]) s" "Suc i"] Cons.prems by simp
qed simp

lemma user_demo_args:
  assumes "length ws \<le> 100" "list_all short_text ws"
  shows "started_with (user_demo ws) [0x68, 0x69]"
proof -
  have "cstr (user_demo ws) 0x450010 [0x68, 0x69]"
  proof (rule cstr_load_cong)
    show "cstr started_demo 0x450010 [0x68, 0x69]" using started_args by (simp add: started_with_def)
    fix i assume "i \<le> length [0x68 :: u8, 0x69]"
    then have "unat (0x450010 + of_nat i :: u32) = 0x450010 + i"
      using u32_add_less_iff [of "0x450010" 3 i] by simp
    then show "load (user_demo ws) (0x450010 + of_nat i) = load started_demo (0x450010 + of_nat i)"
      unfolding user_demo_def using assms \<open>i \<le> _\<close> by (intro place_from_below) simp_all
  qed
  then show ?thesis using user_demo_facts(7,8) [OF assms] by (simp add: started_with_def identity_apart)
qed

lemma user_demo_lit:
  assumes "length ws \<le> 100" "list_all short_text ws" "w \<in> set ws" "unat a + n \<le> 0x08300000"
  shows "lit_ok (demo_link ws) a n (user_demo ws) w"
  unfolding user_demo_def by (rule place_lit [OF started_world assms])

text \<open>An environment that types a line on terminal 0.\<close>

definition typing :: "u8 list \<Rightarrow> 'a waiting" where
  "typing l k = upd_terminal 0 (\<lambda>x. x\<lparr>stdin := l @ replicate (128 - length l) 0, allowed_to_read := 1\<rparr>)"

lemma typing_waited:
  fixes s :: "'a kernel_scheme"
  assumes "world s" "terminal_being_serviced s = 0" "snd (input_of s 0) = 0" "length l \<le> 128" "0 \<notin> set l"
  shows "\<exists>w. waited (typing l) l s w"
proof -
  let ?r = "upd_terminal 0 (\<lambda>x. x\<lparr>read_waiting := 1\<rparr>) s"
  let ?w = "typing l 0 ?r"
  have "spin (typing l) (\<lambda>s. allowed_to_read (terminals s 0) = 0) 0 ?r = Some ?w"
    using assms(3) by (subst spin.simps, subst spin.simps) (simp add: typing_def input_of_def upd_terminal_def)
  moreover have "terminals ?w 0 = (terminals s 0)\<lparr>read_waiting := 1, stdin := l @ replicate (128 - length l) 0, allowed_to_read := 1\<rparr>"
    by (simp add: typing_def upd_terminal_def)
  then have "terminal_ok (terminals ?w 0)" "line_of (terminals ?w 0) = l"
    using assms(4,5) by (cases "128 - length l"; auto simp: terminal_ok_def line_of_def takeWhile_append)+
  moreover have d: "displays [] 0 0 s ?r" by (rule terminal_user [OF assms(1)]) simp
  have "displays [] 0 0 ?r ?w" unfolding typing_def by (rule terminal_user [OF displays_world [OF d]]) simp
  then have "displays [] 0 0 s ?w" using displays_two [OF d] by simp
  moreover have "fds_of ?w = fds_of s" by (simp add: typing_def upd_terminal_def current_pcb_def)
  ultimately show ?thesis using assms(2) by (auto simp: waited_def displays_def)
qed

lemma user_demo_typed:
  assumes "length ws \<le> 100" "list_all short_text ws" "v \<in> set ws" "length l \<le> 128" "0 \<notin> set l"
  shows "\<exists>s1 w. putsl (demo_link ws) v (user_demo ws) = Some s1 \<and> waited (typing l) l s1 w"
proof -
  note f = user_demo_facts [OF assms(1,2)]
  have "lit_ok (demo_link ws) 0 0 (user_demo ws) v" by (rule user_demo_lit [OF assms(1-3)]) simp
  then obtain s1 where s1: "putsl (demo_link ws) v (user_demo ws) = Some s1" "displays (bytes_of v) 0 0 (user_demo ws) s1"
      "input_of s1 = input_of (user_demo ws)" using putsl_displays [OF f(1)] by blast
  have "snd (input_of s1 0) = 0" "terminal_being_serviced s1 = 0"
    using s1(2,3) f(9,10) by (simp_all add: input_of_def blank_terminal_def displays_def same_world_def)
  then show ?thesis using s1(1) typing_waited [OF displays_world [OF s1(2)]] assms(4,5) by blast
qed

end
