(* ===== verification/User_Properties.thy ===== *)
theory User_Properties
  imports User_Demo
begin

text \<open>
  The programs of the file system do what they are for, from the system calls down to the cells of the screen.
\<close>

section \<open>cat\<close>

function pieces :: "nat \<Rightarrow> 'b list \<Rightarrow> 'b list list" where
  "pieces c xs = (if xs = [] \<or> c = 0 then [] else take c xs # pieces c (drop c xs))"
  by pat_completeness auto
termination
  by (relation "measure (\<lambda>(c, xs). length xs)") auto

declare pieces.simps [simp del]

text \<open>A file as \<^verbatim>\<open>cat\<close> shows it: of every piece of 1024 bytes what comes before a zero byte.\<close>

definition cat_text :: "u8 list \<Rightarrow> u8 list" where
  "cat_text bs = concat (map (takeWhile (\<lambda>b. b \<noteq> 0)) (pieces 1024 bs))"

lemma cat_text_step: "bs \<noteq> [] \<Longrightarrow> cat_text bs = takeWhile (\<lambda>b. b \<noteq> 0) (take 1024 bs) @ cat_text (drop 1024 bs)"
  by (simp add: cat_text_def pieces.simps [of 1024 bs])

lemma cat_text_Nil: "cat_text [] = []"
  by (simp add: cat_text_def pieces.simps)

lemma cat_text_plain: "0 \<notin> set bs \<Longrightarrow> cat_text bs = bs"
proof (induction "length bs" arbitrary: bs rule: less_induct)
  case less
  show ?case
  proof (cases "bs = []")
    case False
    then have "cat_text (drop 1024 bs) = drop 1024 bs" using less.prems by (intro less.hyps) (auto dest: in_set_dropD)
    moreover have "\<forall>b \<in> set (take 1024 bs). b \<noteq> 0" using less.prems by (metis in_set_takeD)
    then have "takeWhile (\<lambda>b. b \<noteq> 0) (take 1024 bs) = take 1024 bs" by (simp add: takeWhile_eq_all_conv)
    ultimately show ?thesis using cat_text_step [OF False] append_take_drop_id [of 1024 bs] by metis
  qed (simp add: cat_text_Nil)
qed

lemma cat_loop_displays:
  fixes s :: "'a kernel_scheme"
  assumes "world s" "reads_file s fd ino pos" "in_user buf 1024"
  shows "\<exists>t. cat_loop U env (int fd) buf s = Some (0, t) \<and> displays (cat_text (drop pos (file_of s ino))) buf 1024 s t"
  using assms
proof (induction "length (file_of s ino) - pos" arbitrary: s pos rule: less_induct)
  case less
  let ?n = "min 1024 (length (file_of s ino) - pos)"
  obtain t where t: "ece391_read U env (int fd) buf (int 1024) s = Some (int ?n, t)" "displays [] buf 1024 s t"
      "read_bytes t buf ?n = take 1024 (drop pos (file_of s ino))" "reads_file t fd ino (pos + ?n)"
    using read_user_file [OF less.prems _ refl, of U env] by auto
  have ft: "file_of t ino = file_of s ino"
    using t(2) less.prems(2) by (intro same_world_file(2)) (simp_all add: displays_def reads_file_def)
  have pos: "pos \<le> length (file_of s ino)" using less.prems(2) by (simp add: reads_file_def)
  show ?case
  proof (cases "?n = 0")
    case True
    then have "pos = length (file_of s ino)" using pos by auto
    then show ?thesis using t(1,2) True by (subst cat_loop.simps) (simp add: cat_text_Nil)
  next
    case False
    have "in_user buf 1" "in_user buf ?n" using less.prems(3) by (auto intro: in_user_mono)
    then obtain u where u: "ece391_write U 1 buf (int ?n) t = Some (int ?n, u)" "displays (field_text t buf ?n) buf 1024 t u"
        "fds_of u = fds_of t"
      using write_displays [OF displays_world [OF t(2)], of buf ?n U buf 1024] by auto
    have sw: "same_world t u" using u(2) by (simp add: displays_def)
    have ok: "file_ok t ino" using t(4) by (simp add: reads_file_def)
    note f = same_world_file [OF sw ok]
    have "fds_of u fd = fds_of t fd" using u(3) by simp
    then have ru: "reads_file u fd ino (pos + ?n)"
      using t(4) f by (simp add: reads_file_def open_at_def)
    have "length (file_of u ino) - (pos + ?n) < length (file_of s ino) - pos" using False f(2) ft by simp
    then obtain v where v: "cat_loop U env (int fd) buf u = Some (0, v)"
        "displays (cat_text (drop (pos + ?n) (file_of u ino))) buf 1024 u v"
      using less.hyps [OF _ displays_world [OF u(2)] ru less.prems(3)] by blast
    have "drop (pos + ?n) (file_of u ino) = drop 1024 (drop pos (file_of s ino))" using f(2) ft by (auto simp: min_def add.commute)
    moreover have "field_text t buf ?n = takeWhile (\<lambda>b. b \<noteq> 0) (take 1024 (drop pos (file_of s ino)))"
      using t(3) by (simp add: field_text_def)
    moreover have "drop pos (file_of s ino) \<noteq> []" using False by auto
    ultimately have "displays (cat_text (drop pos (file_of s ino))) buf 1024 s v"
      using displays_trans [OF t(2) displays_trans [OF u(2) v(2)]] by (simp add: cat_text_step)
    moreover have "cat_loop U env (int fd) buf s = Some (0, v)"
      using t(1) u(1) v(1) False by (subst cat_loop.simps) simp
    ultimately show ?thesis by blast
  qed
qed

lemma open_buffer:
  fixes s :: "'a kernel_scheme"
  assumes "world s" "in_user buf 1024" "read_bytes s buf 1024 = w @ replicate (1024 - length w) 0" "0 \<notin> set w" "length w \<le> 1024"
  shows "field_text s buf 32 = take 32 w"
  by (rule padded_field [of s buf 32 992 w "1024 - length w"]) (use assms in simp_all)

definition cat_result :: "'a kernel_scheme \<Rightarrow> u8 list \<Rightarrow> int \<times> u8 list" where
  "cat_result s w =
     (if 1024 < length w then (3, bytes_of ''could not read arguments\<newline>'')
      else case lookup s (take 32 w) of
             None \<Rightarrow> (2, bytes_of ''file not found\<newline>'')
           | Some d \<Rightarrow> (0, cat_text (file_of s (inode d))))"

text \<open>
  C14: \<^verbatim>\<open>cat\<close> shows the file named by its argument on its terminal: it returns 0 and prints the
  bytes of the file, of every piece of 1024 bytes what comes before a zero byte (so a text file is printed as it is).
  It returns 2 with a message if there is no such file, and 3 if the argument does not fit its buffer. It ends in
  all cases, and changes nothing of its memory but the buffer.
\<close>

theorem cat_shows_file:
  fixes s :: "'a kernel_scheme"
  assumes "world s" "in_user buf 1024" "started_with s w" "fd_free s"
    and "\<forall>l \<in> {''could not read arguments\<newline>'', ''file not found\<newline>''}. lit_ok U buf 1024 s l"
    and "\<forall>d. lookup s (take 32 w) = Some d \<longrightarrow> filetype d = 2 \<and> file_ok s (inode d)"
    and "cat_result s w = (r, txt)"
  shows "\<exists>t. cat_main U env buf s = Some (r, t) \<and> displays txt buf 1024 s t"
proof -
  note g = getargs_user [OF assms(1-3), of U]
  show ?thesis
  proof (cases "1024 < length w")
    case True
    obtain t where "putsl U ''could not read arguments\<newline>'' s = Some t" "displays (bytes_of ''could not read arguments\<newline>'') buf 1024 s t"
      using putsl_displays [OF assms(1), of U buf 1024 "''could not read arguments\<newline>''"] assms(5) by blast
    then show ?thesis using g True assms(7) by (auto simp: cat_main_def cat_result_def)
  next
    case False
    then obtain t where t: "ece391_getargs U buf 1024 s = Some (0, t)" "displays [] buf 1024 s t"
        "read_bytes t buf 1024 = w @ replicate (1024 - length w) 0" "fds_of t = fds_of s" using g by auto
    note wt = displays_world [OF t(2)] and sw = displays_same [OF t(2)]
    have "0 \<notin> set w" using assms(3) by (simp add: started_with_def cstr_def)
    then have nm: "field_text t buf 32 = take 32 w" using open_buffer [OF wt assms(2) t(3)] False by simp
    have lk: "lookup t (take 32 w) = lookup s (take 32 w)" by (rule lookup_same [OF sw assms(1)])
    have b1: "in_user buf 1" by (rule in_user_mono [OF assms(2)]) simp
    show ?thesis
    proof (cases "lookup s (take 32 w)")
      case None
      then have "ece391_open U buf t = Some (-1, t)" using nm lk by (intro open_fails_user [OF b1]) simp
      moreover have "lit_ok U buf 1024 t ''file not found\<newline>''" using lit_displays [OF t(2)] assms(5) by blast
      then obtain u where "putsl U ''file not found\<newline>'' t = Some u" "displays (bytes_of ''file not found\<newline>'') buf 1024 t u"
        using putsl_displays [OF wt] by blast
      ultimately show ?thesis using t(1) False None assms(7) displays_two [OF t(2)] by (auto simp: cat_main_def cat_result_def)
    next
      case (Some d)
      then have d: "filetype d = 2" "file_ok s (inode d)" using assms(6) by blast+
      have "fd_free t" using assms(4) t(4) by (simp add: fd_free_def)
      then obtain i u where u: "ece391_open U buf t = Some (int i, u)" "i < 8" "displays [] buf 1024 t u" "fds_of u = (fds_of t)(i := opened d t)"
        using open_user [OF wt b1, of d U buf 1024] nm lk Some d(1) by auto
      note f = same_world_file [OF sw d(2)] and f' = same_world_file [OF displays_same [OF u(3)]]
      have "reads_file u i (inode d) 0"
        by (rule opened_file [OF displays_same [OF u(3)] _ d(1) u(2) f(1)]) (simp only: u(4) fun_upd_same)
      then obtain v where v: "cat_loop U env (int i) buf u = Some (0, v)" "displays (cat_text (file_of u (inode d))) buf 1024 u v"
        using cat_loop_displays [OF displays_world [OF u(3)] _ assms(2)] by fastforce
      have "displays (cat_text (file_of s (inode d))) buf 1024 s v"
        using displays_two [OF t(2) displays_two [OF u(3) v(2)]] f(2) f'(2) [OF f(1)] by simp
      then show ?thesis using t(1) u(1) v(1) False Some assms(7) by (auto simp: cat_main_def cat_result_def)
    qed
  qed
qed

definition cat_strings :: "string list" where
  "cat_strings = [''could not read arguments\<newline>'', ''file not found\<newline>'']"

lemma cat_strings_ok: "length cat_strings \<le> 100" "list_all short_text cat_strings"
  by code_simp+

theorem cat_shows_file_witness:
  "\<exists>t. cat_main (demo_link cat_strings) (\<lambda>_ s. s) 0x08200000 (user_demo cat_strings) = Some (0, t) \<and>
     displays [0x7F, 0x45, 0x4C, 0x46] 0x08200000 1024 (user_demo cat_strings) t"
proof -
  let ?s = "user_demo cat_strings"
  note f = user_demo_facts [OF cat_strings_ok]
  have "cat_text hi_file = [0x7F, 0x45, 0x4C, 0x46]" by code_simp
  then have r: "cat_result ?s [0x68, 0x69] = (0, [0x7F, 0x45, 0x4C, 0x46])"
    using f(4) [of "[0x68, 0x69]"] f(6) started_lookup(1) by (simp add: cat_result_def hi_dentry_def)
  have "\<forall>l \<in> {''could not read arguments\<newline>'', ''file not found\<newline>''}. lit_ok (demo_link cat_strings) 0x08200000 1024 ?s l"
    using user_demo_lit [OF cat_strings_ok, of _ "0x08200000" 1024] by (simp add: cat_strings_def)
  then show ?thesis
    using f started_lookup(1) by (intro cat_shows_file [OF f(1) _ user_demo_args [OF cat_strings_ok] f(2) _ _ r])
      (simp_all add: in_user_def hi_dentry_def)
qed

section \<open>ls\<close>

definition ls_text :: "dentry list \<Rightarrow> u8 list" where
  "ls_text ds = concat (map (\<lambda>d. dentry_name d @ [0x0A]) (takeWhile (\<lambda>d. dentry_name d \<noteq> []) ds))"

lemma ls_line:
  fixes s :: "'a kernel_scheme"
  assumes "world s" "in_user buf 33" "length w \<le> 32" "read_bytes s buf (length w) = w" "0 \<notin> set w"
  shows "field_text (store (buf + of_nat (length w)) 0x0A s) buf (Suc (length w)) = w @ [0x0A]"
    and "displays [] buf 33 s (store (buf + of_nat (length w)) 0x0A s)"
proof -
  let ?a = "buf + of_nat (length w)"
  let ?t = "store ?a 0x0A s"
  have a: "unat ?a = unat buf + length w" using unat_user [OF assms(2)] assms(3) by simp
  then have iu: "in_user ?a 1" "in_user buf (length w)" using assms(2,3) by (simp_all add: in_user_def)
  note d = store_user [OF assms(1) iu(1), of "0x0A"]
  show "displays [] buf 33 s ?t" by (rule displays_wider [OF d]) (use a assms(3) in simp_all)
  have "read_bytes ?t buf (length w) = read_bytes s buf (length w)"
    by (rule displays_field(2) [OF d iu(2)]) (simp add: clear_of_def a)
  then have "read_bytes ?t buf (Suc (length w)) = w @ [0x0A]"
    using assms(4) read_bytes_add [of ?t buf "length w" 1] by (simp add: read_bytes_Suc load_store)
  then show "field_text ?t buf (Suc (length w)) = w @ [0x0A]" using assms(5) by (simp add: field_text_def takeWhile_append)
qed

lemma ls_loop_displays:
  fixes s :: "'a kernel_scheme"
  assumes "world s" "reads_dir s fd k" "in_user buf 33"
  shows "\<exists>t. ls_loop U env (int fd) buf s = Some (0, t) \<and> displays (ls_text (drop k (directory s))) buf 33 s t"
  using assms
proof (induction "length (directory s) - k" arbitrary: s k rule: less_induct)
  case less
  have b: "in_user buf 32" "in_user buf 1" by (rule in_user_mono [OF less.prems(3)], simp)+
  show ?case
  proof (cases "k = length (directory s)")
    case True
    then show ?thesis using read_user_dir_end [OF _ b(1), of s fd U env] less.prems(1,2)
      by (subst ls_loop.simps) (simp add: ls_text_def displays_refl)
  next
    case False
    then have k: "k < length (directory s)" using less.prems(2) by (simp add: reads_dir_def)
    define w where "w = dentry_name (directory s ! k)"
    obtain t where t: "ece391_read U env (int fd) buf 32 s = Some (int (length w), t)" "displays [] buf 32 s t"
        "read_bytes t buf (length w) = w" "reads_dir t fd (Suc k)" "length w \<le> 32" "0 \<notin> set w"
      using read_user_dir [OF less.prems(1,2) b(1) k w_def, of U env] by blast
    have t33: "displays [] buf 33 s t" by (rule displays_wider [OF t(2)]) simp_all
    have dk: "drop k (directory s) = directory s ! k # drop (Suc k) (directory s)" using k by (simp add: Cons_nth_drop_Suc)
    show ?thesis
    proof (cases "w = []")
      case True
      then have "ls_text (drop k (directory s)) = []" using dk w_def by (simp add: ls_text_def)
      then show ?thesis using t(1) t33 True by (subst ls_loop.simps) simp
    next
      case False
      let ?u = "store (buf + of_nat (length w)) 0x0A t"
      note l = ls_line [OF displays_world [OF t33] less.prems(3) t(5,3,6)]
      have iu: "in_user buf (Suc (length w))" by (rule in_user_mono [OF less.prems(3)]) (use t(5) in simp)
      obtain v where v: "ece391_write U 1 buf (int (Suc (length w))) ?u = Some (int (Suc (length w)), v)"
          "displays (w @ [0x0A]) buf 33 ?u v" "fds_of v = fds_of ?u"
        using write_displays [OF displays_world [OF l(2)] iu b(2), of U buf 33] l(1) by auto
      note dv = displays_two [OF t33 displays_two [OF l(2) v(2)]]
      have dir: "directory v = directory s"
        using displays_same [OF dv] less.prems(1) by (intro same_image_directory) (simp_all add: same_world_def world_def)
      have dt: "directory t = directory s"
        using displays_same [OF t33] less.prems(1) by (intro same_image_directory) (simp_all add: same_world_def world_def)
      have "fds_of v fd = fds_of t fd" using v(3) by simp
      then have rv: "reads_dir v fd (Suc k)" using t(4) dir dt by (simp add: reads_dir_def)
      have "length (directory v) - Suc k < length (directory s) - k" using k dir by simp
      then obtain x where x: "ls_loop U env (int fd) buf v = Some (0, x)" "displays (ls_text (drop (Suc k) (directory v))) buf 33 v x"
        using less.hyps [OF _ displays_world [OF dv] rv less.prems(3)] by blast
      have "ls_loop U env (int fd) buf s = Some (0, x)"
        using t(1) v(1) x(1) False by (subst ls_loop.simps) (simp add: add.commute)
      moreover have "ls_text (drop k (directory s)) = (w @ [0x0A]) @ ls_text (drop (Suc k) (directory s))"
        using dk w_def False by (simp add: ls_text_def)
      ultimately show ?thesis using displays_trans [OF dv x(2)] dir by auto
    qed
  qed
qed

text \<open>
  C15: \<^verbatim>\<open>ls\<close> lists the directory: it prints the names of the entries in order, each on a line of its own
  (up to an entry without a name, which ends the listing), and returns 0.
\<close>

theorem ls_lists_directory:
  fixes s :: "'a kernel_scheme"
  assumes "world s" "in_user buf 33" "fd_free s" "lit_ok U buf 33 s ''.''"
    and "lookup s (bytes_of ''.'') = Some d" "filetype d = 1"
  shows "\<exists>t. ls_main U env buf s = Some (0, t) \<and> displays (ls_text (directory s)) buf 33 s t"
proof -
  let ?a = "ul_lit U ''.''"
  have l: "cstr s ?a (bytes_of ''.'')" "in_user ?a 1" using assms(4) by (simp_all add: lit_ok_def in_user_def)
  have "field_text s ?a 32 = bytes_of ''.''" using cstr_field_text [OF l(1), of 32] by (simp add: bytes_of_def)
  then obtain i t where t: "ece391_open U ?a s = Some (int i, t)" "i < 8" "displays [] buf 33 s t" "fds_of t = (fds_of s)(i := opened d s)"
    using open_user [OF assms(1) l(2), of d U buf 33] assms(3,5,6) by auto
  have "reads_dir t i 0" by (rule opened_dir [OF _ assms(6) t(2)]) (simp only: t(4) fun_upd_same)
  then obtain u where u: "ls_loop U env (int i) buf t = Some (0, u)" "displays (ls_text (directory t)) buf 33 t u"
    using ls_loop_displays [OF displays_world [OF t(3)] _ assms(2)] by fastforce
  have "directory t = directory s"
    using displays_same [OF t(3)] assms(1) by (intro same_image_directory) (simp_all add: same_world_def world_def)
  then show ?thesis using t(1) u displays_two [OF t(3) u(2)] by (auto simp: ls_main_def)
qed

theorem ls_lists_directory_witness:
  "\<exists>t. ls_main (demo_link [''.'']) (\<lambda>_ s. s) 0x08200000 (user_demo [''.'']) = Some (0, t) \<and>
     displays (bytes_of ''.\<newline>rtc\<newline>hi\<newline>'') 0x08200000 33 (user_demo [''.'']) t"
proof -
  let ?s = "user_demo [''.'']"
  have ok: "length [''.''] \<le> 100" "list_all short_text [''.'']" by code_simp+
  note f = user_demo_facts [OF ok]
  have "ls_text [dot_dentry, rtc_dentry, hi_dentry] = bytes_of ''.\<newline>rtc\<newline>hi\<newline>''" by code_simp
  moreover have "lookup ?s (bytes_of ''.'') = Some dot_dentry" using f(4) started_lookup(2) by (simp add: bytes_of_def)
  moreover have "lit_ok (demo_link [''.'']) 0x08200000 33 ?s ''.''" by (rule user_demo_lit [OF ok]) simp_all
  ultimately show ?thesis
    using ls_lists_directory [OF f(1) _ f(2), of "0x08200000" "demo_link [''.'']" dot_dentry "\<lambda>_ s. s"] f(3)
    by (simp add: in_user_def dot_dentry_def)
qed

end
