(* ===== verification/User_Dialogs.thy ===== *)
theory User_Dialogs
  imports User_Demo
begin

text \<open>
  The programs that read from the keyboard: \<^verbatim>\<open>hello\<close>, \<^verbatim>\<open>counter\<close> and
  \<^verbatim>\<open>shell\<close>.
\<close>

section \<open>hello\<close>

text \<open>
  \<^verbatim>\<open>hello\<close> asks for a name, and greets with the line that was typed. (\<open>w\<close> is the state in
  which the wait for the line has ended.)
\<close>

theorem hello_greets:
  fixes s :: "'a kernel_scheme"
  assumes "world s" "in_user buf 1024" "\<forall>v \<in> {''Hi, what's your name? '', ''Hello, ''}. lit_ok U buf 1024 s v"
    and "putsl U ''Hi, what's your name? '' s = Some s1" "waited env l s1 w"
  shows "\<exists>t. hello_main U env buf s = Some (0, t) \<and> displays (bytes_of ''Hi, what's your name? '') buf 0 s s1 \<and>
    displays (bytes_of ''Hello, '' @ l) buf 1024 w t"
proof -
  have d1: "displays (bytes_of ''Hi, what's your name? '') buf 0 s s1"
    using putsl_displays [OF assms(1), of U buf 1024 "''Hi, what's your name? ''" buf 0] assms(3,4) by auto
  note w1 = displays_world [OF d1]
  obtain t where t: "ece391_read U env 0 buf 1023 s1 = Some (int (length l), t)" "displays [] buf 1024 w t"
      "read_bytes t buf (length l) = l" "0 \<notin> set l" "length l \<le> 128"
    using read_user_line [OF w1 assms(5,2), of 1023 U] by auto
  let ?v = "store (buf + of_nat (length l)) 0 t"
  have "length l < 1024" using t(5) by simp
  note v = terminate_user [OF displays_world [OF t(2)] assms(2) this t(3,4)]
  note dv = displays_two [OF t(2) v(1)]
  have "lit_ok U buf 1024 ?v ''Hello, ''"
    using lit_displays [OF dv] waited_lit [OF assms(5)] lit_displays [OF displays_mono [OF d1, of buf 1024]] assms(3) by blast
  then obtain x where x: "putsl U ''Hello, '' ?v = Some x" "displays (bytes_of ''Hello, '') buf 0 ?v x"
    using putsl_displays [OF displays_world [OF dv]] by blast
  have iu: "in_user buf (Suc (length l))" by (rule in_user_mono [OF assms(2)]) (use t(5) in simp)
  have "cstr x buf l" by (rule displays_cstr [OF x(2) iu _ v(2)]) (simp add: clear_of_def)
  then obtain y where y: "ece391_fdputs U 1 buf x = Some y" "displays l buf 0 x y"
    using fdputs_displays [OF displays_world [OF x(2)] _ iu] by blast
  have "hello_main U env buf s = Some (0, y)"
    using assms(4) t(1) x(1) y(1) by (simp add: hello_main_def Let_def)
  moreover have "displays (bytes_of ''Hello, '' @ l) buf 1024 w y"
    by (rule displays_two [OF dv displays_mono [OF displays_trans [OF x(2) y(2)]]])
  ultimately show ?thesis using d1 by blast
qed

definition hello_strings :: "string list" where
  "hello_strings = [''Hi, what's your name? '', ''Hello, '']"

lemma hello_strings_ok: "length hello_strings \<le> 100" "list_all short_text hello_strings"
  by code_simp+

theorem hello_greets_witness:
  "\<exists>w t. hello_main (demo_link hello_strings) (typing (bytes_of ''Bob\<newline>'')) 0x08200000 (user_demo hello_strings) = Some (0, t) \<and>
     displays (bytes_of ''Hello, Bob\<newline>'') 0x08200000 1024 w t"
proof -
  let ?s = "user_demo hello_strings" and ?l = "bytes_of ''Bob\<newline>''"
  have q: "''Hi, what's your name? '' \<in> set hello_strings" by (simp add: hello_strings_def)
  have l: "length ?l \<le> 128" "0 \<notin> set ?l" by code_simp+
  obtain s1 w where w: "putsl (demo_link hello_strings) ''Hi, what's your name? '' ?s = Some s1" "waited (typing ?l) ?l s1 w"
    using user_demo_typed [OF hello_strings_ok q l] by blast
  have lit: "\<forall>v \<in> {''Hi, what's your name? '', ''Hello, ''}. lit_ok (demo_link hello_strings) 0x08200000 1024 ?s v"
    using user_demo_lit [OF hello_strings_ok, of _ "0x08200000" 1024] by (simp add: hello_strings_def)
  have "bytes_of ''Hello, '' @ ?l = bytes_of ''Hello, Bob\<newline>''" by code_simp
  then show ?thesis
    using hello_greets [OF user_demo_facts(1) [OF hello_strings_ok] _ lit w] by (auto simp: in_user_def)
qed

section \<open>counter\<close>

definition count_text :: "nat \<Rightarrow> nat \<Rightarrow> u8 list" where
  "count_text i n = concat (map (\<lambda>j. numeral_text 10 j @ [0x0A]) [i..<n])"

lemma itoa_user:
  fixes s :: "'a kernel_scheme"
  assumes "world s" "in_user buf 1024" "bs = numeral_text 10 (unat v)"
  shows "\<exists>t. ece391_itoa v buf 10 s = Some t \<and> displays [] buf 1024 s t \<and> cstr t buf bs \<and> length bs \<le> 32"
proof -
  let ?t = "write_bytes buf (bs @ [0]) s"
  have len: "length bs \<le> 32" using length_numeral_text [of 10 "unat v"] assms(3) by simp
  have sp: "spread s buf n" if "n \<le> 1024" for n by (rule user_area(1) [OF assms(1) in_user_mono [OF assms(2) that]])
  have "ece391_itoa v buf 10 s = Some ?t" using ece391_itoa_eq [of 10 s buf v] sp assms(3) by simp
  moreover have "cstr ?t buf bs" using len sp numeral_text_nz [of 10 "unat v"] assms(3) by (intro cstr_write) simp_all
  moreover have "displays [] buf 1024 s ?t" by (rule write_user [OF assms(1,2)]) (use len in simp)
  ultimately show ?thesis using len by blast
qed

lemma counter_loop_displays:
  fixes s :: "'a kernel_scheme"
  assumes "world s" "in_user buf 1024" "lit_ok U buf 1024 s ''\<newline>''" "i + k \<le> 100000"
  shows "\<exists>t. counter_loop U buf k (of_nat i) s = Some t \<and> displays (count_text (Suc i) (Suc (i + k))) buf 1024 s t"
  using assms
proof (induction k arbitrary: i s)
  case 0
  then show ?case by (simp add: count_text_def displays_refl)
next
  case (Suc k)
  let ?bs = "numeral_text 10 (Suc i)"
  have v: "unat (of_nat i + 1 :: u32) = Suc i" using unat_of_nat_u32 [of "Suc i"] Suc.prems(4) by (simp add: add.commute)
  obtain t where t: "ece391_itoa (of_nat i + 1) buf 10 s = Some t" "displays [] buf 1024 s t" "cstr t buf ?bs" "length ?bs \<le> 32"
    using itoa_user [OF Suc.prems(1,2) refl, of "of_nat i + 1"] v by auto
  have "in_user buf (Suc (length ?bs))" by (rule in_user_mono [OF Suc.prems(2)]) (use t(4) in simp)
  then obtain u where u: "ece391_fdputs U 1 buf t = Some u" "displays ?bs buf 1024 t u"
    using fdputs_displays [OF displays_world [OF t(2)] t(3)] by blast
  note du = displays_two [OF t(2) u(2)]
  have lu: "lit_ok U buf 1024 u ''\<newline>''" by (rule lit_displays [OF du Suc.prems(3)])
  obtain x where x: "putsl U ''\<newline>'' u = Some x" "displays (bytes_of ''\<newline>'') buf 1024 u x"
    using putsl_displays [OF displays_world [OF du] lu] by blast
  note dx = displays_trans [OF du x(2)]
  obtain y where y: "counter_loop U buf k (of_nat (Suc i)) x = Some y" "displays (count_text (Suc (Suc i)) (Suc (Suc i + k))) buf 1024 x y"
    using Suc.IH [OF displays_world [OF dx] Suc.prems(2) lit_displays [OF dx Suc.prems(3)], of "Suc i"] Suc.prems(4) by auto
  have "count_text (Suc i) (Suc (i + Suc k)) = (?bs @ bytes_of ''\<newline>'') @ count_text (Suc (Suc i)) (Suc (Suc i + k))"
    by (simp add: count_text_def upt_conv_Cons bytes_of_def del: upt_Suc)
  then show ?case using t(1) u(1) x(1) y(1) displays_trans [OF dx y(2)] by (simp add: add.commute)
qed

text \<open>What \<^verbatim>\<open>counter\<close> prints for a line.\<close>

definition counter_text :: "u8 list \<Rightarrow> u8 list" where
  "counter_text l =
     (if length l > 2 \<or> length l = 2 \<and> (hd l < 0x30 \<or> hd l > 0x32) then bytes_of ''Wrong Choice!\<newline>''
      else if l \<noteq> [] \<and> hd l = 0x30 then count_text 1 101
      else if l \<noteq> [] \<and> hd l = 0x31 then count_text 1 10001
      else if l \<noteq> [] \<and> hd l = 0x32 then count_text 1 100001 else [])"

definition counter_prompt :: string where
  "counter_prompt = ''Enter the Test Number: (0): 100, (1): 10000, (2): 100000\<newline>''"

text \<open>
  \<^verbatim>\<open>counter\<close> prints the numbers from 1 up to the limit that was chosen (100, 10000 or
  100000), one on a line, in decimal; another choice is refused. It always ends with 0.
\<close>

theorem counter_counts:
  fixes s :: "'a kernel_scheme"
  assumes "world s" "in_user buf 1024" "\<forall>v \<in> {counter_prompt, ''Wrong Choice!\<newline>'', ''\<newline>''}. lit_ok U buf 1024 s v"
    and "putsl U counter_prompt s = Some s1" "waited env l s1 w"
  shows "\<exists>t. counter_main U env buf s = Some (0, t) \<and> displays (bytes_of counter_prompt) buf 0 s s1 \<and>
    displays (counter_text l) buf 1024 w t"
proof -
  have d1: "displays (bytes_of counter_prompt) buf 0 s s1"
    using putsl_displays [OF assms(1), of U buf 1024 counter_prompt buf 0] assms(3,4) by auto
  obtain t where t: "ece391_read U env 0 buf 1023 s1 = Some (int (length l), t)" "displays [] buf 1024 w t"
      "read_bytes t buf (length l) = l" "0 \<notin> set l" "length l \<le> 128"
    using read_user_line [OF displays_world [OF d1] assms(5,2), of 1023 U] by auto
  define v where "v = store (buf + of_nat (length l)) 0 t"
  have "length l < 1024" using t(5) by simp
  note v = terminate_user [OF displays_world [OF t(2)] assms(2) this t(3,4), folded v_def]
  note dv = displays_two [OF t(2) v(1)]
  have lits: "lit_ok U buf 1024 v a" if "a \<in> {''Wrong Choice!\<newline>'', ''\<newline>''}" for a
    using lit_displays [OF dv] waited_lit [OF assms(5)] lit_displays [OF displays_mono [OF d1, of buf 1024]] assms(3) that by blast
  have ld: "load v buf = (if l = [] then 0 else hd l)" using v(2) by (cases l) (simp_all add: cstr_Nil cstr_Cons)
  have n: "unat (of_nat (length l) :: u32) = length l" using t(5) by simp
  moreover have "unat (-1 :: u32) = 4294967295" by (simp add: unsigned_minus_1_eq_mask mask_eq_exp_minus_1)
  ultimately have cmp: "(of_nat (length l) :: u32) \<noteq> -1" using t(5) by force
  have len: "ece391_strlen v buf = Some (of_nat (length l))" by (rule ece391_strlen_cstr [OF v(2)])
  have cmp2: "(of_nat (length l) :: u32) > 2 \<longleftrightarrow> length l > 2" "(of_nat (length l) :: u32) = 2 \<longleftrightarrow> length l = 2"
    using n by (simp_all add: word_less_nat_alt word_unat_eq_iff)
  define bad where "bad \<longleftrightarrow> length l > 2 \<or> length l = 2 \<and> (hd l < 0x30 \<or> hd l > 0x32)"
  define k :: nat where "k = (if load v buf = 0x30 then 100 else if load v buf = 0x31 then 10000
      else if load v buf = 0x32 then 100000 else 0)"
  have bad': "bad \<longleftrightarrow> length l > 2 \<or> length l = 2 \<and> (load v buf < 0x30 \<or> load v buf > 0x32)"
    using ld by (cases l) (auto simp: bad_def)
  have main: "counter_main U env buf s =
      (if bad then do { s \<leftarrow> putsl U ''Wrong Choice!\<newline>'' v; Some (0, s) }
       else do { s \<leftarrow> counter_loop U buf k 0 v; Some (0, s) })"
    using assms(4) t(1) cmp len
    by (auto simp: counter_main_def Let_def counter_prompt_def [symmetric] cmp2 bad' k_def v_def [symmetric])
  show ?thesis
  proof (cases bad)
    case True
    have "lit_ok U buf 1024 v ''Wrong Choice!\<newline>''" by (rule lits) simp
    then obtain x where x: "putsl U ''Wrong Choice!\<newline>'' v = Some x" "displays (bytes_of ''Wrong Choice!\<newline>'') buf 1024 v x"
      using putsl_displays [OF displays_world [OF dv]] by blast
    have "counter_text l = bytes_of ''Wrong Choice!\<newline>''" using True by (simp add: counter_text_def bad_def)
    then show ?thesis using main x d1 True displays_two [OF dv x(2)] by simp
  next
    case False
    have "k \<le> 100000" by (simp add: k_def)
    moreover have "lit_ok U buf 1024 v ''\<newline>''" by (rule lits) simp
    ultimately obtain x where x: "counter_loop U buf k 0 v = Some x" "displays (count_text 1 (Suc k)) buf 1024 v x"
      using counter_loop_displays [OF displays_world [OF dv] assms(2), of U 0 k] by auto
    have "counter_text l = count_text 1 (Suc k)"
      using False ld by (simp add: counter_text_def bad_def [symmetric] k_def) (simp add: count_text_def)
    then show ?thesis using main x d1 False displays_two [OF dv x(2)] by simp
  qed
qed

definition counter_strings :: "string list" where
  "counter_strings = [counter_prompt, ''Wrong Choice!\<newline>'', ''\<newline>'']"

lemma counter_strings_ok: "length counter_strings \<le> 100" "list_all short_text counter_strings"
  by code_simp+

theorem counter_counts_witness:
  "\<exists>w t. counter_main (demo_link counter_strings) (typing (bytes_of ''0\<newline>'')) 0x08200000 (user_demo counter_strings) = Some (0, t) \<and>
     displays (count_text 1 101) 0x08200000 1024 w t"
proof -
  let ?s = "user_demo counter_strings" and ?l = "bytes_of ''0\<newline>''"
  have q: "counter_prompt \<in> set counter_strings" by (simp add: counter_strings_def)
  have l: "length ?l \<le> 128" "0 \<notin> set ?l" by code_simp+
  obtain s1 w where w: "putsl (demo_link counter_strings) counter_prompt ?s = Some s1" "waited (typing ?l) ?l s1 w"
    using user_demo_typed [OF counter_strings_ok q l] by blast
  have lit: "\<forall>v \<in> {counter_prompt, ''Wrong Choice!\<newline>'', ''\<newline>''}. lit_ok (demo_link counter_strings) 0x08200000 1024 ?s v"
    using user_demo_lit [OF counter_strings_ok, of _ "0x08200000" 1024] by (simp add: counter_strings_def)
  have "counter_text ?l = count_text 1 101" by (simp add: counter_text_def bytes_of_def)
  then show ?thesis
    using counter_counts [OF user_demo_facts(1) [OF counter_strings_ok] _ lit w] by (auto simp: in_user_def)
qed

end
