(* ===== verification/User_Shell.thy ===== *)
theory User_Shell
  imports User_Dialogs
begin

text \<open>
  The shell: what it makes of a line, and how its \<^verbatim>\<open>execute\<close> of a name that is not there looks to it.
\<close>

section \<open>An \<^verbatim>\<open>execute\<close> that fails\<close>

text \<open>The locals of \<^verbatim>\<open>internal_execute\<close> are apart from the program, the screen and the image.\<close>

definition kernel_locals :: "exec_locals \<Rightarrow> 'a kernel_scheme \<Rightarrow> bool" where
  "kernel_locals fr s \<longleftrightarrow> apart s (commandstring fr) 128 0x08000000 0x400000 \<and> apart s (commandstring fr) 128 VIDEO 4000 \<and>
     exec_memory fr 0x08000000 127 0 0 s \<and> (\<forall>i<128. \<not> program_memory (xlat s (commandstring fr + of_nat i)))"

lemma kernel_locals_xlat: "same_world s t \<Longrightarrow> kernel_locals fr t = kernel_locals fr s"
  using exec_memory_cong [of t s fr "0x08000000" 127 0 0] apart_xlat [of t s] same_image_boot [of s t]
  by (simp add: kernel_locals_def same_world_def same_image_def image_size_def)

lemma user_apart: "apart s a m 0x08000000 0x400000 \<Longrightarrow> in_user b n \<Longrightarrow> apart s a m b n"
proof -
  assume a: "apart s a m 0x08000000 0x400000" "in_user b n"
  then have "unat b - 0x08000000 + n \<le> 0x400000" unfolding in_user_def by linarith
  then show ?thesis using apart_shift [OF a(1)] user_base [OF a(2)] by metis
qed

lemma kernel_locals_exec:
  assumes "kernel_locals fr s" "in_user a (Suc k)" "k < 128"
  shows "exec_memory fr a k 0 0 s"
proof -
  have k: "Suc k \<le> 128" using assms(3) by simp
  have "apart s (commandstring fr) 128 a (Suc k)" using assms(1) by (intro user_apart [OF _ assms(2)]) (simp add: kernel_locals_def)
  then have "apart s (commandstring fr) (Suc k) a (Suc k)" by (rule apart_mono [OF _ k]) simp
  then show ?thesis
    using assms(1)
    by (auto simp: kernel_locals_def exec_memory_def
        intro: apart_mono [OF _ order_refl k] apart_mono [OF _ k order_refl] spread_mono [OF _ k])
qed

text \<open>A change of memory that is neither on the program's page nor on the screen nor in the image.\<close>

lemma elsewhere:
  fixes s u :: "'a kernel_scheme"
  assumes "world s" "machine.more u = machine.more s" "xlat u = xlat s" "same_image s u"
    and "\<And>x. in_user x 1 \<Longrightarrow> load u x = load s x" "read_bytes u VIDEO 4000 = read_bytes s VIDEO 4000" "own_memory_only s u"
  shows "displays [] a n s u" "fds_of u = fds_of s"
proof -
  note m = machine_more_sel [OF assms(2)]
  obtain p where p: "procs_ok s" "running s p" using assms(1) by (auto simp: world_def)
  have e: "current_pcb u = current_pcb s" "pid_set u = pid_set s" "cursor_of i u = cursor_of i s" for i
    by (simp_all add: current_pcb_def pid_set_def cursor_of_def m)
  have "world u" using p assms(1) by (intro world_image [OF assms(1,4,3)]) (auto simp: m e procs_ok_def running_def world_def)
  moreover have "screen_of u = screen_of s" by (simp add: term_vt_def m e assms(6))
  moreover have "own_fds_only s u" using assms(2) by (intro own_fds_only_same same_procs_more) (cases s; cases u; simp)
  ultimately show "displays [] a n s u" using assms(3-5,7) by (simp add: displays_def same_world_def m e)
  show "fds_of u = fds_of s" by (simp add: m e)
qed

lemma loader_elsewhere:
  fixes s :: "'a kernel_scheme"
  assumes "apart s (commandstring fr) 128 b n" "length bs < 128" "j < n"
    and "s2 = split_store (commandstring fr) bs (write_bytes (commandstring fr) (bs @ [0]) (cli s))"
  shows "load s2 (b + of_nat j) = load s (b + of_nat j)"
proof -
  let ?cs = "commandstring fr" and ?u = "write_bytes (commandstring fr) (bs @ [0]) (cli s)"
  have a: "apart t (?cs + of_nat k) m b n" if "xlat t = xlat s" "k + m \<le> 128" for t :: "'a kernel_scheme" and k m
    using apart_shift_left [OF assms(1) that(2)] apart_xlat [OF that(1)] by simp
  have "apart (cli s) (?cs + of_nat 0) (length (bs @ [0])) b n" by (rule a) (use assms(2) in simp_all)
  then have "load ?u (b + of_nat j) = load (cli s) (b + of_nat j)" by (intro load_write_apart [OF _ assms(3)]) simp
  also have "\<dots> = load s (b + of_nat j)" by (simp add: load_def cli_def)
  finally have u: "load ?u (b + of_nat j) = load s (b + of_nat j)" .
  have "apart ?u (?cs + of_nat (length (cmd_name bs))) (length (if length (cmd_name bs) < length bs then [0 :: u8] else [])) b n"
    by (rule a) (use assms(2) cmd_name_le [of bs] in auto)
  then have "load s2 (b + of_nat j) = load ?u (b + of_nat j)"
    unfolding assms(4) split_store_write by (intro load_write_apart [OF _ assms(3)]) simp
  then show ?thesis using u by simp
qed

lemma loader_memory:
  fixes s :: "'a kernel_scheme"
  assumes "length bs < 128" "\<forall>i<128. \<not> program_memory (xlat s (commandstring fr + of_nat i))"
    and "s2 = split_store (commandstring fr) bs (write_bytes (commandstring fr) (bs @ [0]) (cli s))"
  shows "own_memory_only s s2"
  unfolding own_memory_only_def
proof (intro allI impI)
  fix q assume q: "program_memory q"
  let ?cs = "commandstring fr" and ?u = "write_bytes (commandstring fr) (bs @ [0]) (cli s)"
  have low: "q \<notin> (\<lambda>i. xlat s (?cs + of_nat k + of_nat i)) ` {..<m}" if "k + m \<le> 128" for k m
  proof
    assume "q \<in> (\<lambda>i. xlat s (?cs + of_nat k + of_nat i)) ` {..<m}"
    then obtain i where "i < m" "q = xlat s (?cs + of_nat (k + i))" by (auto simp: add.assoc)
    then have "k + i < 128" "program_memory (xlat s (?cs + of_nat (k + i)))" using that q by simp_all
    then show False using assms(2) by blast
  qed
  have x: "xlat (cli s) = xlat s" "ram (cli s) = ram s" by (simp_all add: cli_def)
  have "ram ?u q = ram s q" using low [of 0 "length (bs @ [0])"] assms(1) write_bytes_ram [of q "cli s" ?cs "bs @ [0]"] by (simp add: x)
  moreover have "ram s2 q = ram ?u q" unfolding assms(3) split_store_write
    using low [of "length (cmd_name bs)" 1] cmd_name_le [of bs] assms(1)
    by (intro write_bytes_ram) (auto simp: x)
  ultimately show "ram s2 q = ram s q" by simp
qed

lemma execute_unknown:
  fixes s :: "'a kernel_scheme"
  assumes "world s" "cstr s command bs" "in_user command (Suc (length bs))" "bs \<noteq> []" "length bs < 128"
    and "kernel_locals (ul_fr U) s" "lookup s (take 32 (cmd_name bs)) = None"
  shows "\<exists>t. ece391_execute U run command s = Some (-1, t) \<and> displays [] a n s t \<and> fds_of t = fds_of s"
proof -
  let ?fr = "ul_fr U"
  have w: "mounted s" "length (directory s) \<le> 63" using assms(1) by (simp_all add: world_def)
  obtain p where p: "running s p" using assms(1) by (auto simp: world_def)
  have cli: "load (cli s) = load s" "xlat (cli s) = xlat s" by (simp_all add: load_def cli_def fun_eq_iff)
  have np: "\<not> all_pids_available (cli s)"
    using p by (auto simp: running_def pid_set_def all_pids_available_def cli_def)
  have av: "get_available_pid (cli s) = get_available_pid s" by (simp add: get_available_pid_def cli_def)
  show ?thesis
  proof (cases "get_available_pid s = FAILURE")
    case True
    then have "execute (ul_lay U) ?fr command s = Some (Return (-1), cli s)"
      using np av by (simp add: execute_def internal_execute_def Let_def cli_and_save_def)
    moreover have "displays [] a n s (cli s) \<and> fds_of (cli s) = fds_of s"
      using cli by (intro conjI elsewhere [OF assms(1)] same_image_cli own_memory_only_same) (simp_all add: cli_def read_bytes_def)
    ultimately show ?thesis by (simp add: ece391_execute_def system_call_handler_def)
  next
    case False
    define s2 where "s2 = split_store (commandstring ?fr) bs (write_bytes (commandstring ?fr) (bs @ [0]) (cli s))"
    note l = loader_steps [OF w assms(2,4,5) kernel_locals_exec [OF assms(6,3,5)] refl refl, folded s2_def]
    have "lookup s2 (take 32 (cmd_name bs)) = None"
      using assms(7) same_image_directory [OF l(6) w(2)] by (simp add: lookup_def)
    then have "read_dentry_by_name (commandstring ?fr) s2 = (FAILURE, None)"
      using cstr_field_text [OF l(4), of 32] by (simp add: lookup_name)
    then have "load_program (ul_lay U) ?fr fl ifl c m arg s2 = (Return (-1), s2)" for fl ifl c m arg
      by (simp add: load_program_def)
    moreover have "\<not> (of_nat (length bs) :: u32) \<ge> 128" using assms(5) by (simp add: word_le_nat_alt not_le)
    ultimately have "execute (ul_lay U) ?fr command s = Some (Return (-1), s2)"
      using l(1-3) np av False by (simp add: execute_def internal_execute_def Let_def cli_and_save_def)
    moreover have "machine.more s2 = machine.more s" by (simp add: s2_def split_store_write cli_def)
    moreover have kl: "apart s (commandstring ?fr) 128 0x08000000 0x400000" "apart s (commandstring ?fr) 128 VIDEO 4000"
      using assms(6) by (simp_all add: kernel_locals_def)
    have "load s2 x = load s x" if "in_user x 1" for x
      using loader_elsewhere [OF user_apart [OF kl(1) that] assms(5) _ s2_def, of 0] by simp
    moreover have "read_bytes s2 VIDEO 4000 = read_bytes s VIDEO 4000"
      by (rule nth_equalityI) (simp_all add: loader_elsewhere [OF kl(2) assms(5) _ s2_def])
    moreover have "own_memory_only s s2"
      using assms(6) by (intro loader_memory [OF assms(5) _ s2_def]) (simp add: kernel_locals_def)
    ultimately show ?thesis
      using elsewhere(1) [OF assms(1) _ l(7,6), of a n] elsewhere(2) [OF assms(1) _ l(7,6)] by (simp add: ece391_execute_def system_call_handler_def)
  qed
qed

section \<open>A round of the shell\<close>

text \<open>The line without its newline.\<close>

definition chomp :: "u8 list \<Rightarrow> u8 list" where
  "chomp l = (if l \<noteq> [] \<and> last l = 0x0A then butlast l else l)"

lemma chomp_take: "chomp l = take (length (chomp l)) l" "length (chomp l) \<le> length l"
  by (auto simp: chomp_def butlast_conv_take)

lemma chomp_length:
  assumes "read_bytes t buf (length l) = l"
  shows "(if 0 < int (length l) \<and> load t (buf + of_int (int (length l) - 1)) = 0x0A then int (length l) - 1 else int (length l))
       = int (length (chomp l))"
proof (cases "l = []")
  case False
  then have "of_int (int (length l) - 1) = (of_nat (length l - 1) :: u32)" by (cases l) simp_all
  moreover have "load t (buf + of_nat (length l - 1)) = last l"
    using nth_read_bytes [of "length l - 1" "length l" t buf] assms False by (simp add: last_conv_nth)
  ultimately show ?thesis using False by (cases l) (simp_all add: chomp_def)
qed (simp add: chomp_def)

text \<open>The message for the value a program ends with.\<close>

definition outcome :: "int \<Rightarrow> string option" where
  "outcome rval = (if rval = -1 then Some ''no such command\<newline>''
     else if rval = 256 then Some ''program terminated by exception\<newline>''
     else if rval \<noteq> 0 then Some ''program terminated abnormally\<newline>'' else None)"

lemma shell_line:
  fixes s :: "'a kernel_scheme"
  assumes "world s" "in_user buf 1024" "\<forall>m \<in> {''391OS> '', ''exit''}. lit_ok U buf 1024 s m"
    and "putsl U ''391OS> '' s = Some s1" "waited env l s1 w"
  shows "\<exists>v. displays [] buf 1024 w v \<and> cstr v buf (chomp l) \<and> length (chomp l) \<le> 128 \<and> fds_of v = fds_of s \<and> shell_turn U env run buf s =
    (if chomp l = bytes_of ''exit'' then Some (Inl (0, v))
     else if chomp l = [] then Some (Inr v)
     else do { (rval, x) \<leftarrow> ece391_execute U run buf v;
               case outcome rval of None \<Rightarrow> Some (Inr x)
               | Some m \<Rightarrow> do { y \<leftarrow> putsl U m x; Some (Inr y) } })"
proof -
  have d1: "displays (bytes_of ''391OS> '') buf 0 s s1" and f1: "fds_of s1 = fds_of s"
    using putsl_displays [OF assms(1), of U buf 1024 "''391OS> ''" buf 0] assms(3,4) by auto
  obtain t where t: "ece391_read U env 0 buf 1023 s1 = Some (int (length l), t)" "displays [] buf 1024 w t"
      "read_bytes t buf (length l) = l" "0 \<notin> set l" "length l \<le> 128" "fds_of t = fds_of s1"
    using read_user_line [OF displays_world [OF d1] assms(5,2), of 1023 U] by auto
  let ?n = "length (chomp l)"
  define v where "v = store (buf + of_nat ?n) 0 t"
  have rd: "read_bytes t buf ?n = chomp l"
    using take_read_bytes [OF chomp_take(2), of l t buf] t(3) chomp_take(1) [of l] by simp
  have nz: "0 \<notin> set (chomp l)" using t(4) chomp_take(1) [of l] by (metis in_set_takeD)
  have "?n < 1024" using t(5) chomp_take(2) [of l] by simp
  note v = terminate_user [OF displays_world [OF t(2)] assms(2) this rd nz, folded v_def]
  note dv = displays_two [OF t(2) v(1)]
  have "lit_ok U buf 1024 v ''exit''"
    using lit_displays [OF dv] waited_lit [OF assms(5)] lit_displays [OF displays_mono [OF d1, of buf 1024]] assms(3) by blast
  then obtain r where r: "ece391_strcmp v buf (ul_lit U ''exit'') = Some r" "r = 0 \<longleftrightarrow> chomp l = bytes_of ''exit''"
    using ece391_strcmp_cstr [OF v(2)] by (auto simp: lit_ok_def)
  have z: "load v buf = 0 \<longleftrightarrow> chomp l = []" using v(2) by (cases "chomp l") (simp_all add: cstr_Nil cstr_Cons)
  have ne: "(-1 = int (length l)) = False" by simp
  have "shell_turn U env run buf s =
    (if r = 0 then Some (Inl (0, v)) else if load v buf = 0 then Some (Inr v)
     else do { (rval, x) \<leftarrow> ece391_execute U run buf v;
               case outcome rval of None \<Rightarrow> Some (Inr x)
               | Some m \<Rightarrow> do { y \<leftarrow> putsl U m x; Some (Inr y) } })"
    by (simp only: shell_turn_def assms(4) t(1) r(1) bind.bind_lunit prod.case ne if_False Let_def
          chomp_length [OF t(3)] of_int_of_nat_eq v_def [symmetric])
       (cases "ece391_execute U run buf v"; auto simp: outcome_def)
  moreover have "fds_of v = fds_of s" using t(6) f1 by (simp add: v_def)
  ultimately show ?thesis using r(2) z dv v(2) t(5) chomp_take(2) [of l] by (auto simp: le_trans)
qed

text \<open>
  A round of the shell: it prints its prompt, waits for a line, and puts the line without its newline as a
  string into its buffer. On \<^verbatim>\<open>exit\<close> it returns 0; after an empty line it starts over; otherwise it executes
  the line and reports how that ended: no such command for -1, an exception for 256, an abnormal end for anything else
  but 0.
\<close>

theorem shell_round:
  fixes s :: "'a kernel_scheme"
  assumes "world s" "in_user buf 1024" "\<forall>m \<in> {''391OS> '', ''exit''}. lit_ok U buf 1024 s m"
    and "putsl U ''391OS> '' s = Some s1" "waited env l s1 w"
  shows "\<exists>v. displays (bytes_of ''391OS> '') buf 0 s s1 \<and> displays [] buf 1024 w v \<and> cstr v buf (chomp l) \<and>
    shell_turn U env run buf s =
    (if chomp l = bytes_of ''exit'' then Some (Inl (0, v))
     else if chomp l = [] then Some (Inr v)
     else do { (rval, x) \<leftarrow> ece391_execute U run buf v;
               case outcome rval of None \<Rightarrow> Some (Inr x)
               | Some m \<Rightarrow> do { y \<leftarrow> putsl U m x; Some (Inr y) } })"
proof -
  have "displays (bytes_of ''391OS> '') buf 0 s s1"
    using putsl_displays [OF assms(1), of U buf 1024 "''391OS> ''" buf 0] assms(3,4) by auto
  then show ?thesis using shell_line [OF assms, of run] by blast
qed

definition shell_strings :: "string list" where
  "shell_strings = [''391OS> '', ''exit'', ''no such command\<newline>'']"

lemma shell_strings_ok: "length shell_strings \<le> 100" "list_all short_text shell_strings"
  by code_simp+

lemma shell_demo:
  assumes "length l \<le> 128" "0 \<notin> set l" "s = user_demo shell_strings" "U = demo_link shell_strings"
  obtains s1 w where "world s" "\<forall>m \<in> set shell_strings. lit_ok U 0x08200000 1024 s m"
    "putsl U ''391OS> '' s = Some s1" "waited (typing l) l s1 w" "in_user 0x08200000 1024"
proof -
  have "''391OS> '' \<in> set shell_strings" by (simp add: shell_strings_def)
  then obtain s1 w where "putsl U ''391OS> '' s = Some s1" "waited (typing l) l s1 w"
    using user_demo_typed [OF shell_strings_ok _ assms(1,2)] assms(3,4) by blast
  moreover have "\<forall>m \<in> set shell_strings. lit_ok U 0x08200000 1024 s m"
    using user_demo_lit [OF shell_strings_ok, of _ "0x08200000" 1024] assms(3,4) by simp
  ultimately show thesis using that user_demo_facts(1) [OF shell_strings_ok] assms(3) by (simp add: in_user_def)
qed

theorem shell_round_witness:
  "\<exists>v. shell_turn (demo_link shell_strings) (typing (bytes_of ''exit\<newline>'')) (\<lambda>_ _ _. None) 0x08200000 (user_demo shell_strings)
     = Some (Inl (0, v)) \<and>
   shell_loop (demo_link shell_strings) (typing (bytes_of ''exit\<newline>'')) (\<lambda>_ _ _. None) 0x08200000 (user_demo shell_strings)
     = Some (0, v)"
proof -
  let ?l = "bytes_of ''exit\<newline>''"
  have l: "length ?l \<le> 128" "0 \<notin> set ?l" "chomp ?l = bytes_of ''exit''" by code_simp+
  obtain s1 w where d: "world (user_demo shell_strings)"
      "\<forall>m \<in> set shell_strings. lit_ok (demo_link shell_strings) 0x08200000 1024 (user_demo shell_strings) m"
      "putsl (demo_link shell_strings) ''391OS> '' (user_demo shell_strings) = Some s1" "waited (typing ?l) ?l s1 w"
      "in_user 0x08200000 1024"
    by (rule shell_demo [OF l(1,2) refl refl])
  have lit: "\<forall>m \<in> {''391OS> '', ''exit''}. lit_ok (demo_link shell_strings) 0x08200000 1024 (user_demo shell_strings) m"
    using d(2) by (simp add: shell_strings_def)
  show ?thesis using shell_round [OF d(1,5) lit d(3,4), of "\<lambda>_ _ _. None"] l(3) by (auto simp: shell_loop.simps)
qed

text \<open>
  A line that names no file of the directory makes the shell print \<^verbatim>\<open>no such command\<close> and ask again;
  the failed \<^verbatim>\<open>execute\<close> changes neither the memory of the shell nor its screen or its descriptors.
\<close>

theorem shell_unknown_command:
  fixes s :: "'a kernel_scheme"
  assumes "world s" "in_user buf 1024" "\<forall>m \<in> {''391OS> '', ''exit'', ''no such command\<newline>''}. lit_ok U buf 1024 s m"
    and "putsl U ''391OS> '' s = Some s1" "waited env l s1 w" "kernel_locals (ul_fr U) s"
    and "chomp l \<noteq> []" "chomp l \<noteq> bytes_of ''exit''" "length (chomp l) < 128" "lookup s (take 32 (cmd_name (chomp l))) = None"
  shows "\<exists>x. shell_turn U env run buf s = Some (Inr x) \<and>
    displays (bytes_of ''no such command\<newline>'') buf 1024 w x"
proof -
  have lit: "\<forall>m \<in> {''391OS> '', ''exit''}. lit_ok U buf 1024 s m" using assms(3) by blast
  obtain v where v: "displays [] buf 1024 w v" "cstr v buf (chomp l)" "shell_turn U env run buf s =
      do { (rval, x) \<leftarrow> ece391_execute U run buf v;
               case outcome rval of None \<Rightarrow> Some (Inr x)
               | Some m \<Rightarrow> do { y \<leftarrow> putsl U m x; Some (Inr y) } }"
    using shell_line [OF assms(1,2) lit assms(4,5), of run] assms(7,8) by auto
  have d1: "displays (bytes_of ''391OS> '') buf 1024 s s1"
    using putsl_displays [OF assms(1), of U buf 1024 "''391OS> ''" buf 1024] assms(3,4) by auto
  have sw: "same_world s v"
    using displays_same [OF d1] assms(5) displays_same [OF v(1)] same_world_trans by (metis waited_def)
  have iu: "in_user buf (Suc (length (chomp l)))" by (rule in_user_mono [OF assms(2)]) (use assms(9) in simp)
  have "lookup v (take 32 (cmd_name (chomp l))) = None" using assms(10) lookup_same [OF sw assms(1)] by simp
  moreover have "kernel_locals (ul_fr U) v" using assms(6) kernel_locals_xlat [OF sw] by simp
  ultimately obtain x where x: "ece391_execute U run buf v = Some (-1, x)" "displays [] buf 1024 v x"
    using execute_unknown [OF displays_world [OF v(1)] v(2) iu assms(7,9), of U run buf 1024] by blast
  note dx = displays_two [OF v(1) x(2)]
  have "lit_ok U buf 1024 x ''no such command\<newline>''"
    using lit_displays [OF dx] waited_lit [OF assms(5)] lit_displays [OF d1] assms(3) by blast
  then obtain y where y: "putsl U ''no such command\<newline>'' x = Some y" "displays (bytes_of ''no such command\<newline>'') buf 1024 x y"
    using putsl_displays [OF displays_world [OF dx]] by blast
  show ?thesis using v(3) x(1) y(1) displays_two [OF dx y(2)] by (auto simp: outcome_def)
qed

lemma user_demo_locals:
  assumes "length ws \<le> 100" "list_all short_text ws"
  shows "kernel_locals (ul_fr (demo_link ws)) (user_demo ws)"
proof -
  have sw: "same_world started_demo (user_demo ws)" by (rule displays_same [OF user_demo_from [OF assms]])
  have im: "bootblock started_demo = 0x500000" "image_size started_demo = 12288"
    using started_image same_image_boot [OF started_image] demo_image_size by (simp_all add: same_image_def image_size_def)
  have "unat (0x7FF000 + of_nat i :: u32) = 0x7FF000 + i" if "i < 128" for i using u32_add_less_iff [of "0x7FF000" 128 i] that by simp
  then have "kernel_locals demo_locals started_demo"
    by (simp add: kernel_locals_def exec_memory_def im demo_locals_def identity_spread identity_apart)
  then show ?thesis using kernel_locals_xlat [OF sw] by (simp add: demo_link_def)
qed

theorem shell_unknown_command_witness:
  "\<exists>w x. shell_turn (demo_link shell_strings) (typing (bytes_of ''foo\<newline>'')) (\<lambda>_ _ _. None) 0x08200000 (user_demo shell_strings)
     = Some (Inr x) \<and>
     displays (bytes_of ''no such command\<newline>'') 0x08200000 1024 w x"
proof -
  let ?l = "bytes_of ''foo\<newline>''"
  have l: "length ?l \<le> 128" "0 \<notin> set ?l" "chomp ?l \<noteq> []" "chomp ?l \<noteq> bytes_of ''exit''" "length (chomp ?l) < 128"
    "take 32 (cmd_name (chomp ?l)) = bytes_of ''foo''" by code_simp+
  obtain s1 w where d: "world (user_demo shell_strings)"
      "\<forall>m \<in> set shell_strings. lit_ok (demo_link shell_strings) 0x08200000 1024 (user_demo shell_strings) m"
      "putsl (demo_link shell_strings) ''391OS> '' (user_demo shell_strings) = Some s1" "waited (typing ?l) ?l s1 w"
      "in_user 0x08200000 1024"
    by (rule shell_demo [OF l(1,2) refl refl])
  have lit: "\<forall>m \<in> {''391OS> '', ''exit'', ''no such command\<newline>''}. lit_ok (demo_link shell_strings) 0x08200000 1024 (user_demo shell_strings) m"
    using d(2) by (simp add: shell_strings_def)
  have "find (\<lambda>d. dentry_name d = bytes_of ''foo'') [dot_dentry, rtc_dentry, hi_dentry] = None" by code_simp
  then have "lookup (user_demo shell_strings) (take 32 (cmd_name (chomp ?l))) = None"
    unfolding lookup_def user_demo_facts(3) [OF shell_strings_ok] l(6) .
  then show ?thesis
    using shell_unknown_command [OF d(1,5) lit d(3,4) user_demo_locals [OF shell_strings_ok] l(3-5), of "\<lambda>_ _ _. None"] by blast
qed

end
