(* ===== verification/User_Syserr.thy ===== *)
theory User_Syserr
  imports User_Demo
begin

text \<open>
  \<^verbatim>\<open>syserr\<close>, the test program of the system for bad arguments to system calls, and the theorem that
  all its tests pass on this kernel.
\<close>

section \<open>The program\<close>

abbreviation NEG_FD :: int where "NEG_FD \<equiv> -1073741823"
abbreviation BIG_FD :: int where "BIG_FD \<equiv> 1073741823"
abbreviation NEG_NUM :: int where "NEG_NUM \<equiv> -1073741823"
abbreviation BIG_NUM :: int where "BIG_NUM \<equiv> 1073741823"

text \<open>\<^verbatim>\<open>call_sys\<close> loads only EAX: the other registers hold what they held.\<close>

definition call_sys :: "user_link \<Rightarrow> 'a waiting \<Rightarrow> u32 \<Rightarrow> u32 \<Rightarrow> u32 \<Rightarrow> int \<Rightarrow> 'a kernel_scheme \<Rightarrow> (int \<times> 'a kernel_scheme) option" where
  "call_sys U env ebx ecx edx num s = int80 U env (of_int num) ebx ecx edx s"

text \<open>The step all tests consist of, \<^verbatim>\<open>if (-1 != call) { fail = 2; ece391_fdputs (1, msg); }\<close>\<close>

definition expect_error :: "user_link \<Rightarrow> string \<Rightarrow> int \<Rightarrow> int \<Rightarrow> 'a kernel_scheme \<Rightarrow> (int \<times> 'a kernel_scheme) option" where
  "expect_error U msg fail r s = (if -1 \<noteq> r then do { s \<leftarrow> putsl U msg s; Some (2, s) } else Some (fail, s))"

text \<open>The end of a test.\<close>

definition verdict :: "user_link \<Rightarrow> string \<Rightarrow> int \<Rightarrow> 'a kernel_scheme \<Rightarrow> (int \<times> 'a kernel_scheme) option" where
  "verdict U name fail s =
     (if fail \<noteq> 0 then do { s \<leftarrow> putsl U (name @ '': FAIL\<newline>'') s; Some (fail, s) }
      else do { s \<leftarrow> putsl U (name @ '': PASS\<newline>'') s; Some (fail, s) })"

fun for_each :: "(int \<Rightarrow> int \<Rightarrow> 's \<Rightarrow> (int \<times> 's) option) \<Rightarrow> int list \<Rightarrow> int \<Rightarrow> 's \<Rightarrow> (int \<times> 's) option" where
  "for_each body [] acc s = Some (acc, s)"
| "for_each body (i # is) acc s = do { (acc, s) \<leftarrow> body i acc s; for_each body is acc s }"

definition err_fd :: "user_link \<Rightarrow> 'a waiting \<Rightarrow> u32 \<Rightarrow> int \<Rightarrow> string \<Rightarrow> 'a kernel_scheme \<Rightarrow> (int \<times> 'a kernel_scheme) option" where
  "err_fd U env buf fd name s =
     do { (r, s) \<leftarrow> ece391_read U env fd buf 31 s;
          (fail, s) \<leftarrow> expect_error U ''read fail\<newline>'' 0 r s;
          (r, s) \<leftarrow> ece391_write U fd buf 31 s;
          (fail, s) \<leftarrow> expect_error U ''write fail\<newline>'' fail r s;
          (r, s) \<leftarrow> ece391_close U fd s;
          (fail, s) \<leftarrow> expect_error U ''close fail\<newline>'' fail r s;
          verdict U name fail s }"

definition err_neg_fd :: "user_link \<Rightarrow> 'a waiting \<Rightarrow> u32 \<Rightarrow> 'a kernel_scheme \<Rightarrow> (int \<times> 'a kernel_scheme) option" where
  "err_neg_fd U env buf = err_fd U env buf NEG_FD ''err_neg_fd''"

definition err_big_fd :: "user_link \<Rightarrow> 'a waiting \<Rightarrow> u32 \<Rightarrow> 'a kernel_scheme \<Rightarrow> (int \<times> 'a kernel_scheme) option" where
  "err_big_fd U env buf = err_fd U env buf BIG_FD ''err_big_fd''"

definition err_open_lots :: "user_link \<Rightarrow> 'a kernel_scheme \<Rightarrow> (int \<times> 'a kernel_scheme) option" where
  "err_open_lots U s =
     do { (cnt, s) \<leftarrow> for_each (\<lambda>i cnt s. do { (r, s) \<leftarrow> ece391_open U (ul_lit U ''.'') s;
                                               Some (if -1 = r then cnt + 1 else cnt, s) }) [0..6] 0 s;
          (cnt, s) \<leftarrow> for_each (\<lambda>i cnt s. do { (r, s) \<leftarrow> ece391_close U i s; Some (cnt, s) }) [2..7] cnt s;
          if cnt = 1 then do { s \<leftarrow> putsl U ''err_open_lots: PASS\<newline>'' s; Some (0, s) }
          else do { s \<leftarrow> putsl U ''err_open_lots: FAIL\<newline>'' s; Some (2, s) } }"

definition err_open :: "user_link \<Rightarrow> 'a kernel_scheme \<Rightarrow> (int \<times> 'a kernel_scheme) option" where
  "err_open U s =
     do { (r, s) \<leftarrow> ece391_open U (ul_lit U ''helloo'') s;
          (fail, s) \<leftarrow> expect_error U (CHR 0x27 # ''helloo'' @ [CHR 0x27] @ '' fail\<newline>'') 0 r s;
          (r, s) \<leftarrow> ece391_open U (ul_lit U ''shel'') s;
          (fail, s) \<leftarrow> expect_error U (CHR 0x27 # ''shel'' @ [CHR 0x27] @ '' fail\<newline>'') fail r s;
          (r, s) \<leftarrow> ece391_open U (ul_lit U []) s;
          (fail, s) \<leftarrow> expect_error U ''empty string fail\<newline>'' fail r s;
          verdict U ''err_open'' fail s }"

definition err_unopened :: "user_link \<Rightarrow> 'a waiting \<Rightarrow> u32 \<Rightarrow> 'a kernel_scheme \<Rightarrow> (int \<times> 'a kernel_scheme) option" where
  "err_unopened U env buf s =
     do { (fail, s) \<leftarrow> for_each (\<lambda>i fail s. do { (r, s) \<leftarrow> ece391_close U i s;
            expect_error U ''close unopened or invalid fd fail\<newline>'' fail r s }) [0..7] 0 s;
          (fail, s) \<leftarrow> for_each (\<lambda>i fail s. do { (r, s) \<leftarrow> ece391_read U env i buf 31 s;
            expect_error U ''read from unopened fd fail\<newline>'' fail r s }) [2..7] fail s;
          (fail, s) \<leftarrow> for_each (\<lambda>i fail s. do { (r, s) \<leftarrow> ece391_write U i buf 31 s;
            expect_error U ''write to unopened fd fail\<newline>'' fail r s }) [2..7] fail s;
          verdict U ''err_unopened'' fail s }"

definition err_vidmap :: "user_link \<Rightarrow> 'a kernel_scheme \<Rightarrow> (int \<times> 'a kernel_scheme) option" where
  "err_vidmap U s =
     do { (r, s) \<leftarrow> ece391_vidmap U 0 s;
          (fail, s) \<leftarrow> expect_error U ''Null pointer fail\<newline>'' 0 r s;
          (r, s) \<leftarrow> ece391_vidmap U 0x400000 s;
          (fail, s) \<leftarrow> expect_error U ''Kernel pointer fail fail\<newline>'' fail r s;
          verdict U ''err_vidmap'' fail s }"

definition err_stdin_out :: "user_link \<Rightarrow> 'a waiting \<Rightarrow> u32 \<Rightarrow> 'a kernel_scheme \<Rightarrow> (int \<times> 'a kernel_scheme) option" where
  "err_stdin_out U env buf s =
     do { (r, s) \<leftarrow> ece391_write U 0 buf 31 s;
          (fail, s) \<leftarrow> expect_error U ''write to stdin fail\<newline>'' 0 r s;
          (r, s) \<leftarrow> ece391_read U env 1 buf 31 s;
          (fail, s) \<leftarrow> expect_error U ''read from stdout fail\<newline>'' fail r s;
          verdict U ''err_stdin_out'' fail s }"

definition err_syscall_num :: "user_link \<Rightarrow> 'a waiting \<Rightarrow> u32 \<Rightarrow> u32 \<Rightarrow> u32 \<Rightarrow> 'a kernel_scheme \<Rightarrow> (int \<times> 'a kernel_scheme) option" where
  "err_syscall_num U env ebx ecx edx s =
     do { (r, s) \<leftarrow> call_sys U env ebx ecx edx BIG_NUM s;
          (fail, s) \<leftarrow> expect_error U ''syscall 0 fail\<newline>'' 0 r s;
          (r, s) \<leftarrow> call_sys U env ebx ecx edx NEG_NUM s;
          (fail, s) \<leftarrow> expect_error U ''big num syscall fail\<newline>'' fail r s;
          (r, s) \<leftarrow> call_sys U env ebx ecx edx 0 s;
          (fail, s) \<leftarrow> expect_error U ''neg num syscall fail\<newline>'' fail r s;
          verdict U ''err_syscall_num'' fail s }"

text \<open>The tests 1 to 8, in this order.\<close>

definition syserr_tests ::
    "user_link \<Rightarrow> 'a waiting \<Rightarrow> u32 \<Rightarrow> u32 \<Rightarrow> u32 \<Rightarrow> u32 \<Rightarrow> ('a kernel_scheme \<Rightarrow> (int \<times> 'a kernel_scheme) option) list" where
  "syserr_tests U env buf ebx ecx edx =
     [err_neg_fd U env buf, err_big_fd U env buf, err_open_lots U, err_open U, err_unopened U env buf, err_vidmap U,
      err_stdin_out U env buf, err_syscall_num U env ebx ecx edx]"

fun run_all :: "('s \<Rightarrow> (int \<times> 's) option) list \<Rightarrow> int \<Rightarrow> 's \<Rightarrow> (int \<times> 's) option" where
  "run_all [] fail s = Some (fail, s)"
| "run_all (test # tests) fail s = do { (r, s) \<leftarrow> test s; run_all tests (fail + r) s }"

definition syserr_main ::
    "user_link \<Rightarrow> 'a waiting \<Rightarrow> u32 \<Rightarrow> u32 \<Rightarrow> u32 \<Rightarrow> u32 \<Rightarrow> u32 \<Rightarrow> 'a kernel_scheme \<Rightarrow> (int \<times> 'a kernel_scheme) option" where
  "syserr_main U env line buf ebx ecx edx s =
     do { s \<leftarrow> putsl U ''Choose from tests 1-8. 0 to run all: '' s;
          (cnt, s) \<leftarrow> ece391_read U env 0 line 127 s;
          if -1 = cnt then do { s \<leftarrow> putsl U (''Can't read test '' @ [CHR 0x23] @ ''\<newline>'') s; Some (2, s) }
          else
            let select = uint (load s line) - 48
            in if select = 0
               then do { (fail, s) \<leftarrow> run_all (syserr_tests U env buf ebx ecx edx) 0 s;
                         s \<leftarrow> (if fail \<noteq> 0 then putsl U ''\<newline>Overall Tests: FAIL\<newline>'' s
                               else putsl U ''\<newline>Overall Tests: PASS\<newline>'' s);
                         Some (fail, s) }
               else if 1 \<le> select \<and> select \<le> 8 then (syserr_tests U env buf ebx ecx edx ! nat (select - 1)) s
               else do { s \<leftarrow> putsl U ''Invalid test number. Choose from tests 1-8 or 0'' s; Some (0, s) } }"

section \<open>The calls the tests make\<close>

text \<open>A program that has opened nothing.\<close>

definition nothing_open :: "'a kernel_scheme \<Rightarrow> bool" where
  "nothing_open s \<longleftrightarrow> in_use (fds_of s) = {0, 1}"

lemma closed_flags:
  assumes "world s" "nothing_open s" "i < 8" "i \<notin> {0, 1}"
  shows "fd_flags (fds_of s i) = 0"
proof -
  have "i \<notin> in_use (fds_of s)" using assms(2,4) by (simp only: nothing_open_def not_False_eq_True)
  then have "fd_flags (fds_of s i) AND 1 = 0" using assms(3) by (simp add: in_use_def)
  moreover have "fd_flags (fds_of s i) \<in> {0, 1}" using world_fds [OF assms(1)] assms(3) unfolding fds_ok_def by blast
  ultimately show ?thesis using flag_bit [of "fd_flags (fds_of s i)"] by simp
qed

lemma closed_calls:
  fixes s :: "'a kernel_scheme"
  assumes "world s" "nothing_open s" "fd \<notin> {0, 1}" "-2147483648 \<le> fd" "fd < 2147483648"
  shows "ece391_read U env fd buf 31 s = Some (-1, s)" "ece391_write U fd buf 31 s = Some (-1, s)"
    "ece391_close U fd s = Some (-1, s)"
proof -
  have "nat fd < 8 \<and> nat fd \<notin> {0, 1}" if "\<not> fd < 0" "\<not> 8 \<le> fd" using that assms(3) by auto
  then have c: "fd < 0 \<or> 8 \<le> fd \<or> fd_flags (fds_of s (nat fd)) = 0"
    using closed_flags [OF assms(1,2), of "nat fd"] by blast
  show "ece391_read U env fd buf 31 s = Some (-1, s)" "ece391_write U fd buf 31 s = Some (-1, s)"
    "ece391_close U fd s = Some (-1, s)"
    using c assms(4,5) by (auto simp: user_calls sys_read_def sys_write_def sys_close_def Let_def)
qed

lemma standard_close: "fd \<in> {0, 1} \<Longrightarrow> ece391_close U fd s = Some (-1, s)"
  by (auto simp: user_calls(4) [where n = 0] sys_close_def Let_def)

lemma for_each_same: "(\<And>i. i \<in> set is \<Longrightarrow> body i acc s = Some (acc, s)) \<Longrightarrow> for_each body is acc s = Some (acc, s)"
  by (induction "is") simp_all

lemma expect_error_ok [simp]: "expect_error U msg fail (-1) s = Some (fail, s)"
  by (simp add: expect_error_def)

text \<open>A test passes.\<close>

definition passes :: "u32 \<Rightarrow> nat \<Rightarrow> ('a kernel_scheme \<Rightarrow> (int \<times> 'a kernel_scheme) option) \<Rightarrow> string \<Rightarrow> 'a kernel_scheme \<Rightarrow> bool" where
  "passes a n test name s \<longleftrightarrow> (\<exists>t. test s = Some (0, t) \<and> displays (bytes_of (name @ '': PASS\<newline>'')) a n s t \<and> nothing_open t)"

lemma verdict_passes:
  fixes s :: "'a kernel_scheme"
  assumes "world s" "nothing_open s" "lit_ok U b m s (name @ '': PASS\<newline>'')" "test s = verdict U name 0 s"
  shows "passes a n test name s"
proof -
  obtain t where "putsl U (name @ '': PASS\<newline>'') s = Some t" "displays (bytes_of (name @ '': PASS\<newline>'')) a n s t" "fds_of t = fds_of s"
    using putsl_displays [OF assms(1,3)] by blast
  then show ?thesis using assms(2,4) by (simp add: passes_def verdict_def nothing_open_def)
qed

section \<open>Every test passes\<close>

lemma err_fd_passes:
  fixes s :: "'a kernel_scheme"
  assumes "world s" "nothing_open s" "lit_ok U b m s (name @ '': PASS\<newline>'')" "fd = NEG_FD \<or> fd = BIG_FD"
  shows "passes a n (err_fd U env buf fd name) name s"
proof -
  have "fd \<notin> {0, 1}" "-2147483648 \<le> fd" "fd < 2147483648" using assms(4) by auto
  note c = closed_calls [OF assms(1,2) this]
  show ?thesis by (rule verdict_passes [OF assms(1-3)]) (simp add: err_fd_def c)
qed

lemma err_open_passes:
  fixes s :: "'a kernel_scheme"
  assumes "world s" "nothing_open s" "lit_ok U b m s (''err_open'' @ '': PASS\<newline>'')"
    and "\<forall>v \<in> {''helloo'', ''shel'', []}. lit_ok U b m s v \<and> lookup s (bytes_of v) = None"
  shows "passes a n (err_open U) ''err_open'' s"
proof -
  have "ece391_open U (ul_lit U v) s = Some (-1, s)" if v: "v \<in> {''helloo'', ''shel'', []}" for v
  proof (rule open_fails_user)
    have l: "lit_ok U b m s v" using assms(4) v by blast
    then show "in_user (ul_lit U v) 1" by (simp add: lit_ok_def in_user_def)
    have "length (bytes_of v) \<le> 32" using v by (auto simp: bytes_of_def)
    then have "field_text s (ul_lit U v) 32 = bytes_of v" using l cstr_field_text [of s "ul_lit U v" "bytes_of v" 32] by (simp add: lit_ok_def)
    then show "lookup s (field_text s (ul_lit U v) 32) = None \<or> \<not> fd_free s" using assms(4) v by auto
  qed
  then show ?thesis by (intro verdict_passes [OF assms(1-3)]) (simp add: err_open_def)
qed

lemma err_unopened_passes:
  fixes s :: "'a kernel_scheme"
  assumes "world s" "nothing_open s" "lit_ok U b m s (''err_unopened'' @ '': PASS\<newline>'')"
  shows "passes a n (err_unopened U env buf) ''err_unopened'' s"
proof -
  have c: "ece391_close U i s = Some (-1, s)" if "i \<in> set [0..7]" for i
    using that standard_close [of i U s] closed_calls(3) [OF assms(1,2), of i U] by (cases "i \<in> {0, 1}") auto
  have r: "ece391_read U env i buf 31 s = Some (-1, s)" "ece391_write U i buf 31 s = Some (-1, s)" if "i \<in> set [2..7]" for i
    using that closed_calls(1,2) [OF assms(1,2), of i U] by auto
  have l1: "for_each (\<lambda>i fail s. do { (r, s) \<leftarrow> ece391_close U i s; expect_error U w fail r s }) [0..7] 0 s = Some (0, s)" for w
    by (rule for_each_same) (simp only: c bind.bind_lunit prod.case expect_error_ok)
  have l2: "for_each (\<lambda>i fail s. do { (r, s) \<leftarrow> ece391_read U env i buf 31 s; expect_error U w fail r s }) [2..7] 0 s = Some (0, s)"
    "for_each (\<lambda>i fail s. do { (r, s) \<leftarrow> ece391_write U i buf 31 s; expect_error U w fail r s }) [2..7] 0 s = Some (0, s)" for w
    by (rule for_each_same, simp only: r bind.bind_lunit prod.case expect_error_ok)+
  show ?thesis
    by (rule verdict_passes [OF assms]) (simp only: err_unopened_def l1 l2 bind.bind_lunit prod.case)
qed

lemma err_vidmap_passes:
  fixes s :: "'a kernel_scheme"
  assumes "world s" "nothing_open s" "lit_ok U b m s (''err_vidmap'' @ '': PASS\<newline>'')"
  shows "passes a n (err_vidmap U) ''err_vidmap'' s"
  by (rule verdict_passes [OF assms])
     (simp add: err_vidmap_def user_calls [of 0 0] sys_vidmap_def user_pointer_def Let_def)

lemma err_stdin_out_passes:
  fixes s :: "'a kernel_scheme"
  assumes "world s" "nothing_open s" "lit_ok U b m s (''err_stdin_out'' @ '': PASS\<newline>'')"
  shows "passes a n (err_stdin_out U env buf) ''err_stdin_out'' s"
proof -
  have f: "fd_flags (fds_of s i) = 1" "fops_jmp_table (fds_of s i) = Some terminal_table" if "i < 2" for i
    using world_fds [OF assms(1)] that by (simp_all add: fds_ok_def)
  have "ece391_write U 0 buf 31 s = Some (-1, s)"
    using f [of 0] by (simp add: user_calls sys_write_def Let_def w_func_def write_terminal_def write_terminal_from_def)
  moreover have "ece391_read U env 1 buf 31 s = Some (-1, s)"
    using f [of 1] by (simp add: user_calls sys_read_def Let_def r_func_def read_terminal_def)
  ultimately show ?thesis by (intro verdict_passes [OF assms]) (simp add: err_stdin_out_def)
qed

lemma err_syscall_num_passes:
  fixes s :: "'a kernel_scheme"
  assumes "world s" "nothing_open s" "lit_ok U b m s (''err_syscall_num'' @ '': PASS\<newline>'')"
  shows "passes a n (err_syscall_num U env ebx ecx edx) ''err_syscall_num'' s"
proof -
  have "call_sys U env ebx ecx edx k s = Some (-1, s)" if "k = BIG_NUM \<or> k = NEG_NUM \<or> k = 0" for k
    unfolding call_sys_def by (rule bad_call_number) (use that sint_u32 [of k] in auto)
  then show ?thesis by (intro verdict_passes [OF assms]) (simp add: err_syscall_num_def)
qed

definition free_fds :: "'a kernel_scheme \<Rightarrow> nat set" where
  "free_fds s = {2..<8} - in_use (fds_of s)"

lemma fd_free_iff: "fd_free s \<longleftrightarrow> free_fds s \<noteq> {}"
  by (auto simp: fd_free_def free_fds_def)

lemma open_free:
  fixes s :: "'a kernel_scheme"
  assumes "world s" "lit_ok U a n s ''.''" "lookup s (bytes_of ''.'') = Some d" "filetype d = 1"
  shows "\<exists>r t. ece391_open U (ul_lit U ''.'') s = Some (r, t) \<and> displays [] a n s t \<and>
    (r = -1 \<longleftrightarrow> free_fds s = {}) \<and> card (free_fds t) = card (free_fds s) - 1"
proof -
  have l: "in_user (ul_lit U ''.'') 1" "cstr s (ul_lit U ''.'') (bytes_of ''.'')" using assms(2) by (simp_all add: lit_ok_def in_user_def)
  have nm: "field_text s (ul_lit U ''.'') 32 = bytes_of ''.''" using cstr_field_text [OF l(2), of 32] by (simp add: bytes_of_def)
  show ?thesis
  proof (cases "fd_free s")
    case True
    have lk: "lookup s (field_text s (ul_lit U ''.'') 32) = Some d" using nm assms(3) by simp
    obtain i t where t: "ece391_open U (ul_lit U ''.'') s = Some (int i, t)" "2 \<le> i" "i < 8" "i \<notin> in_use (fds_of s)"
        "displays [] a n s t" "fds_of t = (fds_of s)(i := opened d s)"
      using open_user [OF assms(1) l(1) lk _ True, of U a n] assms(4) by auto
    have "in_use (fds_of t) = insert i (in_use (fds_of s))"
      unfolding t(6) in_use_upd [OF t(3)] by (simp add: opened_def)
    then have "free_fds t = free_fds s - {i}" "i \<in> free_fds s" using t(2-4) by (auto simp: free_fds_def)
    then show ?thesis using t(1,5) True by (simp add: fd_free_iff card_Diff_singleton)
  next
    case False
    then have "ece391_open U (ul_lit U ''.'') s = Some (-1, s)" by (intro open_fails_user [OF l(1)]) simp
    then show ?thesis using False displays_refl [OF assms(1)] by (simp add: fd_free_iff)
  qed
qed

lemma open_many:
  fixes s :: "'a kernel_scheme"
  assumes "world s" "lit_ok U a n s ''.''" "lookup s (bytes_of ''.'') = Some d" "filetype d = 1"
    and "body = (\<lambda>i cnt s. do { (r, s) \<leftarrow> ece391_open U (ul_lit U ''.'') s; Some (if -1 = r then cnt + 1 else cnt, s) })"
  shows "\<exists>t. for_each body is cnt s = Some (cnt + int (length is - card (free_fds s)), t) \<and> displays [] a n s t \<and>
    card (free_fds t) = card (free_fds s) - length is"
  using assms(1-4)
proof (induction "is" arbitrary: cnt s)
  case Nil
  then show ?case by (simp add: displays_refl)
next
  case (Cons i "is")
  obtain r t where t: "ece391_open U (ul_lit U ''.'') s = Some (r, t)" "displays [] a n s t"
      "r = -1 \<longleftrightarrow> free_fds s = {}" "card (free_fds t) = card (free_fds s) - 1"
    using open_free [OF Cons.prems] by blast
  have "finite (free_fds s)" by (simp add: free_fds_def)
  then have z: "card (free_fds s) = 0 \<longleftrightarrow> r = -1" using t(3) by auto
  have lt: "lookup t (bytes_of ''.'') = Some d" using lookup_same [OF displays_same [OF t(2)] Cons.prems(1)] Cons.prems(3) by simp
  let ?c = "if -1 = r then cnt + 1 else cnt"
  obtain u where u: "for_each body is ?c t = Some (?c + int (length is - card (free_fds t)), u)" "displays [] a n t u"
      "card (free_fds u) = card (free_fds t) - length is"
    using Cons.IH [OF displays_world [OF t(2)] lit_displays [OF t(2) Cons.prems(2)] lt Cons.prems(4)] by blast
  have "?c + int (length is - card (free_fds t)) = cnt + int (length (i # is) - card (free_fds s))"
    using z t(4) by auto
  moreover have "for_each body (i # is) cnt s = for_each body is ?c t" using t(1) assms(5) by simp
  ultimately show ?case using u displays_two [OF t(2) u(2)] t(4) by auto
qed

lemma close_many:
  fixes s :: "'a kernel_scheme"
  assumes "world s" "set is \<subseteq> {2..7}"
    and "body = (\<lambda>i cnt s. do { (r, s) \<leftarrow> ece391_close U i s; Some (cnt, s) })"
  shows "\<exists>t. for_each body is cnt s = Some (cnt :: int, t) \<and> displays [] a n s t \<and> in_use (fds_of t) = in_use (fds_of s) - nat ` set is"
  using assms(1,2)
proof (induction "is" arbitrary: s)
  case Nil
  then show ?case by (simp add: displays_refl)
next
  case (Cons i "is")
  have i: "2 \<le> nat i" "nat i < 8" "int (nat i) = i" using Cons.prems(2) by auto
  obtain r t where t: "ece391_close U i s = Some (r, t)" "displays [] a n s t" "in_use (fds_of t) = in_use (fds_of s) - {nat i}"
    using close_open [OF Cons.prems(1) i(1,2), of U a n] i(3) by auto
  have si: "set is \<subseteq> {2..7}" using Cons.prems(2) by simp
  obtain u where u: "for_each body is cnt t = Some (cnt, u)" "displays [] a n t u" "in_use (fds_of u) = in_use (fds_of t) - nat ` set is"
    using Cons.IH [OF displays_world [OF t(2)] si] by blast
  have "for_each body (i # is) cnt s = Some (cnt, u)" using t(1) u(1) assms(3) by simp
  moreover have "in_use (fds_of u) = in_use (fds_of s) - nat ` set (i # is)" unfolding u(3) t(3) by auto
  ultimately show ?case using displays_two [OF t(2) u(2)] by blast
qed

lemma err_open_lots_passes:
  fixes s :: "'a kernel_scheme"
  assumes "world s" "nothing_open s" "lit_ok U a n s (''err_open_lots'' @ '': PASS\<newline>'')"
    and "lit_ok U a n s ''.''" "lookup s (bytes_of ''.'') = Some d" "filetype d = 1"
  shows "passes a n (err_open_lots U) ''err_open_lots'' s"
proof -
  have "free_fds s = {2..<8}" using assms(2) unfolding free_fds_def nothing_open_def by auto
  then have c: "card (free_fds s) = 6" by simp
  have l7: "length [0..6 :: int] = 7" by simp
  obtain t where t: "for_each (\<lambda>i cnt s. do { (r, s) \<leftarrow> ece391_open U (ul_lit U ''.'') s;
      Some (if -1 = r then cnt + 1 else cnt, s) }) [0..6 :: int] 0 s = Some (1 :: int, t)"
      "displays [] a n s t" "card (free_fds t) = 0"
    using open_many [OF assms(1,4-6) refl, of "[0..6]" 0] unfolding l7 c by auto
  have "finite (free_fds t)" by (simp add: free_fds_def)
  then have "{2..<8} \<subseteq> in_use (fds_of t)" using t(3) by (auto simp: free_fds_def)
  moreover have "{0, 1} \<subseteq> in_use (fds_of t)" using world_fds [OF displays_world [OF t(2)]] by (auto simp: fds_ok_def in_use_def)
  moreover have "in_use (fds_of t) \<subseteq> {..<8}" by (auto simp: in_use_def)
  ultimately have iu: "in_use (fds_of t) = {0, 1} \<union> {2..<8}" by auto
  obtain u where u: "for_each (\<lambda>i cnt s. do { (r, s) \<leftarrow> ece391_close U i s; Some (cnt, s) }) [2..7] (1 :: int) t = Some (1, u)"
      "displays [] a n t u" "in_use (fds_of u) = in_use (fds_of t) - nat ` set [2..7]"
    using close_many [OF displays_world [OF t(2)] _ refl, of "[2..7]" U 1 a n] by auto
  have "nat ` set [2..7] = {2..<8}" by (auto simp: image_iff)
  then have "nothing_open u" unfolding nothing_open_def u(3) iu by auto
  moreover note du = displays_two [OF t(2) u(2)]
  have "lit_ok U a n u (''err_open_lots'' @ '': PASS\<newline>'')" by (rule lit_displays [OF du assms(3)])
  then obtain x where x: "putsl U (''err_open_lots'' @ '': PASS\<newline>'') u = Some x"
      "displays (bytes_of (''err_open_lots'' @ '': PASS\<newline>'')) a n u x" "fds_of x = fds_of u"
    using putsl_displays [OF displays_world [OF du]] by blast
  moreover have "putsl U ''err_open_lots: PASS\<newline>'' u = Some x" using x(1) by simp
  then have "err_open_lots U s = Some (0, x)"
    by (simp only: err_open_lots_def t(1) u(1) bind.bind_lunit prod.case if_True simp_thms)
  ultimately show ?thesis using displays_two [OF du x(2)] by (auto simp: passes_def nothing_open_def)
qed

section \<open>The whole program\<close>

definition test_names :: "string list" where
  "test_names = [''err_neg_fd'', ''err_big_fd'', ''err_open_lots'', ''err_open'', ''err_unopened'', ''err_vidmap'',
     ''err_stdin_out'', ''err_syscall_num'']"

definition syserr_prompt :: string where
  "syserr_prompt = ''Choose from tests 1-8. 0 to run all: ''"

definition syserr_strings :: "string list" where
  "syserr_strings = map (\<lambda>w. w @ '': PASS\<newline>'') test_names @ [''.'', ''helloo'', ''shel'', [], syserr_prompt,
     ''\<newline>Overall Tests: PASS\<newline>'', ''Invalid test number. Choose from tests 1-8 or 0'']"

text \<open>
  What the tests need: nothing is open, the directory can be opened, and there are no files named
  \<^verbatim>\<open>helloo\<close> or \<^verbatim>\<open>shel\<close> or without a name.
\<close>

definition syserr_ready :: "user_link \<Rightarrow> u32 \<Rightarrow> nat \<Rightarrow> 'a kernel_scheme \<Rightarrow> bool" where
  "syserr_ready U a n s \<longleftrightarrow> world s \<and> nothing_open s \<and> (\<forall>v \<in> set syserr_strings. lit_ok U a n s v) \<and>
     (\<exists>d. lookup s (bytes_of ''.'') = Some d \<and> filetype d = 1) \<and>
     (\<forall>v \<in> {''helloo'', ''shel'', []}. lookup s (bytes_of v) = None)"

lemma ready_displays: "syserr_ready U a n s \<Longrightarrow> displays bs a n s t \<Longrightarrow> nothing_open t \<Longrightarrow> syserr_ready U a n t"
  using lookup_same [OF displays_same, of bs a n s t] lit_displays [of bs a n s t U] displays_world [of bs a n s t]
  by (simp add: syserr_ready_def)

lemma tests_pass:
  assumes "syserr_ready U a n s" "k < 8"
  shows "passes a n (syserr_tests U env buf ebx ecx edx ! k) (test_names ! k) s"
proof -
  have r: "world s" "nothing_open s" "\<forall>v \<in> set syserr_strings. lit_ok U a n s v"
    and v: "\<forall>v \<in> {''helloo'', ''shel'', []}. lookup s (bytes_of v) = None" using assms(1) by (simp_all add: syserr_ready_def)
  obtain d where d: "lookup s (bytes_of ''.'') = Some d" "filetype d = 1" using assms(1) by (auto simp: syserr_ready_def)
  have p: "lit_ok U a n s (w @ '': PASS\<newline>'')" if "w \<in> set test_names" for w using r(3) that by (simp add: syserr_strings_def)
  have l: "\<forall>v \<in> {''helloo'', ''shel'', []}. lit_ok U a n s v \<and> lookup s (bytes_of v) = None" "lit_ok U a n s ''.''"
    using r(3) v by (simp_all add: syserr_strings_def)
  have 1: "passes a n (err_neg_fd U env buf) ''err_neg_fd'' s" "passes a n (err_big_fd U env buf) ''err_big_fd'' s"
    unfolding err_neg_fd_def err_big_fd_def by (rule err_fd_passes [OF r(1,2) p], simp_all add: test_names_def)+
  have 2: "passes a n (err_open_lots U) ''err_open_lots'' s"
    by (rule err_open_lots_passes [OF r(1,2) p l(2) d]) (simp add: test_names_def)
  have 3: "passes a n (err_open U) ''err_open'' s" by (rule err_open_passes [OF r(1,2) p l(1)]) (simp add: test_names_def)
  have 4: "passes a n (err_unopened U env buf) ''err_unopened'' s" by (rule err_unopened_passes [OF r(1,2) p]) (simp add: test_names_def)
  have 5: "passes a n (err_vidmap U) ''err_vidmap'' s" by (rule err_vidmap_passes [OF r(1,2) p]) (simp add: test_names_def)
  have 6: "passes a n (err_stdin_out U env buf) ''err_stdin_out'' s" by (rule err_stdin_out_passes [OF r(1,2) p]) (simp add: test_names_def)
  have 7: "passes a n (err_syscall_num U env ebx ecx edx) ''err_syscall_num'' s"
    by (rule err_syscall_num_passes [OF r(1,2) p]) (simp add: test_names_def)
  have "k \<in> {0, 1, 2, 3, 4, 5, 6, 7}" using assms(2) by auto
  then show ?thesis using 1 2 3 4 5 6 7 by (auto simp: syserr_tests_def test_names_def)
qed

definition pass_text :: "string list \<Rightarrow> u8 list" where
  "pass_text ws = concat (map (\<lambda>w. bytes_of (w @ '': PASS\<newline>'')) ws)"

lemma run_all_passes:
  assumes "syserr_ready U a n s" "length tests = length ws"
    and "\<And>k s. k < length tests \<Longrightarrow> syserr_ready U a n s \<Longrightarrow> passes a n (tests ! k) (ws ! k) s"
  shows "\<exists>t. run_all tests fail s = Some (fail, t) \<and> displays (pass_text ws) a n s t \<and> syserr_ready U a n t"
  using assms
proof (induction tests arbitrary: ws s)
  case Nil
  then show ?case by (simp add: pass_text_def displays_refl syserr_ready_def)
next
  case (Cons test tests)
  obtain w vs where ws: "ws = w # vs" "length tests = length vs" using Cons.prems(2) by (cases ws) auto
  obtain t where t: "test s = Some (0, t)" "displays (bytes_of (w @ '': PASS\<newline>'')) a n s t" "nothing_open t"
    using Cons.prems(3) [of 0 s] Cons.prems(1) ws(1) by (auto simp: passes_def)
  note rt = ready_displays [OF Cons.prems(1) t(2,3)]
  have "passes a n (tests ! k) (vs ! k) u" if "k < length tests" "syserr_ready U a n u" for k u
    using Cons.prems(3) [of "Suc k" u] that ws(1) by simp
  then obtain u where u: "run_all tests fail t = Some (fail, u)" "displays (pass_text vs) a n t u" "syserr_ready U a n u"
    using Cons.IH [OF rt ws(2)] by blast
  show ?case using t(1) u(1,3) displays_trans [OF t(2) u(2)] ws(1) by (auto simp: pass_text_def)
qed

text \<open>What the program prints when the line begins with \<open>c\<close>.\<close>

definition syserr_text :: "u8 \<Rightarrow> u8 list" where
  "syserr_text c = (if c = 48 then pass_text test_names @ bytes_of ''\<newline>Overall Tests: PASS\<newline>''
     else if 49 \<le> c \<and> c \<le> 56 then pass_text [test_names ! (unat c - 49)]
     else bytes_of ''Invalid test number. Choose from tests 1-8 or 0'')"

text \<open>
  C16: The system call tests pass on this kernel: \<^verbatim>\<open>syserr\<close> reports PASS for the chosen test, or for
  all eight of them and overall, and returns 0. So \<^verbatim>\<open>read\<close>, \<^verbatim>\<open>write\<close> and
  \<^verbatim>\<open>close\<close> refuse descriptors that are out of range, not open or of the wrong direction, at most six files can be opened and
  closing them frees the descriptors, names that are nearly right are not found, \<^verbatim>\<open>vidmap\<close> refuses pointers
  outside the program, and undefined call numbers are refused.
\<close>

theorem syserr_passes:
  fixes s :: "'a kernel_scheme"
  assumes "syserr_ready U line 128 s" "in_user line 128"
    and "putsl U syserr_prompt s = Some s1" "waited env (c # l) s1 w"
  shows "\<exists>t. syserr_main U env line buf ebx ecx edx s = Some (0, t) \<and> displays (syserr_text c) line 128 w t"
proof -
  have ws: "world s" "lit_ok U line 128 s syserr_prompt" using assms(1) by (simp_all add: syserr_ready_def syserr_strings_def)
  have d1: "displays (bytes_of syserr_prompt) line 128 s s1" "fds_of s1 = fds_of s"
    using putsl_displays [OF ws, of line 128] assms(3) by auto
  have r1: "syserr_ready U line 128 s1"
    by (rule ready_displays [OF assms(1) d1(1)]) (use assms(1) d1(2) in \<open>simp add: syserr_ready_def nothing_open_def\<close>)
  have ww: "same_world s1 w" "fds_of w = fds_of s1" using assms(4) unfolding waited_def by blast+
  have rw: "syserr_ready U line 128 w"
    using r1 ww lookup_same [OF ww(1)] waited_lit [OF assms(4)] by (simp add: syserr_ready_def nothing_open_def same_world_def)
  obtain t where t: "ece391_read U env 0 line 127 s1 = Some (int (length (c # l)), t)" "displays [] line 128 w t"
      "read_bytes t line (length (c # l)) = c # l" "fds_of t = fds_of s1"
    using read_user_line [OF displays_world [OF d1(1)] assms(4,2), of 127 U] by auto
  have rt: "syserr_ready U line 128 t"
    by (rule ready_displays [OF rw t(2)]) (use r1 t(4) in \<open>simp add: syserr_ready_def nothing_open_def\<close>)
  have ld: "load t line = c" using t(3) by (simp add: read_bytes_Suc)
  let ?tests = "syserr_tests U env buf ebx ecx edx"
  have len: "length ?tests = 8" "length test_names = 8" by (simp_all add: syserr_tests_def test_names_def)
  have sel: "uint c - 48 = 0 \<longleftrightarrow> c = 48" "1 \<le> uint c - 48 \<and> uint c - 48 \<le> 8 \<longleftrightarrow> 49 \<le> c \<and> c \<le> 56"
    by (auto simp: word_le_def word_uint_eq_iff)
  have main: "syserr_main U env line buf ebx ecx edx s =
      (if c = 48 then do { (fail, s) \<leftarrow> run_all ?tests 0 t;
                           s \<leftarrow> (if fail \<noteq> 0 then putsl U ''\<newline>Overall Tests: FAIL\<newline>'' s else putsl U ''\<newline>Overall Tests: PASS\<newline>'' s);
                           Some (fail, s) }
       else if 49 \<le> c \<and> c \<le> 56 then (?tests ! nat (uint c - 48 - 1)) t
       else do { s \<leftarrow> putsl U ''Invalid test number. Choose from tests 1-8 or 0'' t; Some (0, s) })"
    using assms(3) t(1) unfolding sel [symmetric] by (simp add: syserr_main_def syserr_prompt_def ld Let_def)
  consider "c = 48" | "c \<noteq> 48" "49 \<le> c \<and> c \<le> 56" | "c \<noteq> 48" "\<not> (49 \<le> c \<and> c \<le> 56)" by blast
  then show ?thesis
  proof cases
    case 1
    obtain u where u: "run_all ?tests 0 t = Some (0, u)" "displays (pass_text test_names) line 128 t u" "syserr_ready U line 128 u"
      using run_all_passes [OF rt, of ?tests test_names 0, unfolded len, OF refl tests_pass] by blast
    have "world u" "lit_ok U line 128 u ''\<newline>Overall Tests: PASS\<newline>''" using u(3) by (simp_all add: syserr_ready_def syserr_strings_def)
    then obtain x where x: "putsl U ''\<newline>Overall Tests: PASS\<newline>'' u = Some x" "displays (bytes_of ''\<newline>Overall Tests: PASS\<newline>'') line 128 u x"
      using putsl_displays by blast
    then show ?thesis using main 1 u(1) displays_two [OF t(2) displays_trans [OF u(2) x(2)]] by (simp add: syserr_text_def)
  next
    case 2
    have "49 \<le> uint c" using 2(2) by (simp add: word_le_def)
    then have "nat (uint c - 48 - 1) = unat c - 49" using nat_diff_distrib [of 49 "uint c"] by simp
    moreover have "unat c - 49 < 8" using 2(2) by (auto simp: word_le_nat_alt)
    ultimately have k: "nat (uint c - 48 - 1) = unat c - 49" "unat c - 49 < 8" by blast+
    obtain u where "(?tests ! (unat c - 49)) t = Some (0, u)" "displays (pass_text [test_names ! (unat c - 49)]) line 128 t u"
      using tests_pass [OF rt k(2), of env buf ebx ecx edx] by (auto simp: passes_def pass_text_def)
    then show ?thesis using main [unfolded k(1)] 2 displays_two [OF t(2)] by (auto simp: syserr_text_def)
  next
    case 3
    have "lit_ok U line 128 t ''Invalid test number. Choose from tests 1-8 or 0''" using rt by (simp add: syserr_ready_def syserr_strings_def)
    then obtain u where "putsl U ''Invalid test number. Choose from tests 1-8 or 0'' t = Some u"
        "displays (bytes_of ''Invalid test number. Choose from tests 1-8 or 0'') line 128 t u"
      using putsl_displays [OF displays_world [OF t(2)]] by blast
    then show ?thesis using main 3 displays_two [OF t(2)] by (auto simp: syserr_text_def)
  qed
qed

lemma syserr_strings_ok: "length syserr_strings \<le> 100" "list_all short_text syserr_strings"
  by code_simp+

theorem syserr_passes_witness:
  "\<exists>w t. syserr_main (demo_link syserr_strings) (typing (bytes_of ''0\<newline>'')) 0x08200000 0x08210000 0 0 0 (user_demo syserr_strings)
      = Some (0, t) \<and>
     displays (pass_text test_names @ bytes_of ''\<newline>Overall Tests: PASS\<newline>'') 0x08200000 128 w t"
proof -
  let ?s = "user_demo syserr_strings" and ?U = "demo_link syserr_strings" and ?l = "bytes_of ''0\<newline>''"
  note f = user_demo_facts [OF syserr_strings_ok]
  have lit: "\<forall>v \<in> set syserr_strings. lit_ok ?U 0x08200000 128 ?s v"
    using user_demo_lit [OF syserr_strings_ok, of _ "0x08200000" 128] by simp
  have "in_use (fd_array (blank_pcb 0)) = {0, 1}" by (auto simp: in_use_def blank_pcb_def fresh_fds_def std_fd_def)
  then have no: "nothing_open ?s" by (simp add: nothing_open_def f(8))
  have "list_all (\<lambda>v. lookup ?s (bytes_of v) = None) [''helloo'', ''shel'', []]" unfolding lookup_def f(3) by code_simp
  then have nf: "\<forall>v \<in> {''helloo'', ''shel'', []}. lookup ?s (bytes_of v) = None" by (simp only: list_all_iff list.set)
  have "lookup ?s (bytes_of ''.'') = Some dot_dentry" using f(4) started_lookup(2) by (simp add: bytes_of_def)
  then have ready: "syserr_ready ?U 0x08200000 128 ?s" using f(1) no lit nf by (simp add: syserr_ready_def dot_dentry_def)
  have q: "syserr_prompt \<in> set syserr_strings" by (simp add: syserr_strings_def)
  have l: "length ?l \<le> 128" "0 \<notin> set ?l" "?l = 48 # [10]" by code_simp+
  obtain s1 w where w: "putsl ?U syserr_prompt ?s = Some s1" "waited (typing ?l) ?l s1 w"
    using user_demo_typed [OF syserr_strings_ok q l(1,2)] by blast
  show ?thesis
    using syserr_passes [OF ready _ w(1), of "typing ?l" 48 "[10]" w "0x08210000" 0 0 0] w(2) l(3)
    by (auto simp: in_user_def syserr_text_def)
qed

end
