(* ===== verification/User_Pingpong.thy ===== *)
theory User_Pingpong
  imports User_Demo
begin

text \<open>
  \<^verbatim>\<open>pingpong\<close>: a character moves between two walls, one line for every tick of the clock. The program has no
  end; \<open>pingpong_rounds n\<close> is its state after \<open>n\<close> rounds of the outer loop.
\<close>

section \<open>The program\<close>

definition pingpong_setup :: "u32 \<Rightarrow> 'a machine_scheme \<Rightarrow> 'a machine_scheme" where
  "pingpong_setup buf s =
     (let s = for_loop 0 81 (\<lambda>i. store (buf + of_nat i) 0x20) s;
          s = store (buf + 80) 0 s;
          s = store (buf + 79) 0x0A s;
          s = store (buf + 78) (of_char CHR ''|'') s
      in store (buf + 1) (of_char CHR ''|'') s)"

text \<open>One picture, for the character at column \<open>j\<close>, and the wait for a tick.\<close>

definition pingpong_draw :: "u32 \<Rightarrow> u8 \<Rightarrow> nat \<Rightarrow> 'a machine_scheme \<Rightarrow> 'a machine_scheme" where
  "pingpong_draw buf curchar j s = store (buf + of_nat j) curchar (for_loop 2 78 (\<lambda>i. store (buf + of_nat i) 0x20) s)"

fun pingpong_sweep ::
    "user_link \<Rightarrow> 'a waiting \<Rightarrow> int \<Rightarrow> u32 \<Rightarrow> u32 \<Rightarrow> u8 \<Rightarrow> nat list \<Rightarrow> 'a kernel_scheme \<Rightarrow> 'a kernel_scheme option" where
  "pingpong_sweep U env rtc_fd buf garbage curchar [] s = Some s"
| "pingpong_sweep U env rtc_fd buf garbage curchar (j # js) s =
     do { s \<leftarrow> ece391_fdputs U 1 buf (pingpong_draw buf curchar j s);
          (r, s) \<leftarrow> ece391_read U env rtc_fd garbage 4 s;
          pingpong_sweep U env rtc_fd buf garbage curchar js s }"

definition next_char :: "u8 \<Rightarrow> u8" where
  "next_char curchar = (if curchar = of_char CHR ''Z'' then of_char CHR ''A'' else curchar + 1)"

fun pingpong_rounds ::
    "user_link \<Rightarrow> 'a waiting \<Rightarrow> int \<Rightarrow> u32 \<Rightarrow> u32 \<Rightarrow> nat \<Rightarrow> u8 \<Rightarrow> 'a kernel_scheme \<Rightarrow> (u8 \<times> 'a kernel_scheme) option" where
  "pingpong_rounds U env rtc_fd buf garbage 0 curchar s = Some (curchar, s)"
| "pingpong_rounds U env rtc_fd buf garbage (Suc n) curchar s =
     do { s \<leftarrow> pingpong_sweep U env rtc_fd buf garbage curchar [2..<78] s;
          s \<leftarrow> pingpong_sweep U env rtc_fd buf garbage curchar (rev [2..<78]) s;
          pingpong_rounds U env rtc_fd buf garbage n (next_char curchar) s }"

definition pingpong_main ::
    "user_link \<Rightarrow> 'a waiting \<Rightarrow> u32 \<Rightarrow> u32 \<Rightarrow> u32 \<Rightarrow> nat \<Rightarrow> 'a kernel_scheme \<Rightarrow> (u8 \<times> 'a kernel_scheme) option" where
  "pingpong_main U env buf rv garbage n s =
     do { (rtc_fd, s) \<leftarrow> ece391_open U (ul_lit U ''rtc'') (pingpong_setup buf s);
          (r, s) \<leftarrow> ece391_write U rtc_fd rv 4 (store32 rv 32 s);
          pingpong_rounds U env rtc_fd buf garbage n (of_char CHR ''A'') (store32 rv (of_int r) s) }"

section \<open>The pictures\<close>

text \<open>The buffer, whatever is between the walls, and a picture.\<close>

definition court :: "u32 \<Rightarrow> 'a machine_scheme \<Rightarrow> bool" where
  "court buf s \<longleftrightarrow> read_bytes s buf 2 = [0x20, 0x7C] \<and> read_bytes s (buf + 78) 3 = [0x7C, 0x0A, 0]"

definition picture :: "u8 \<Rightarrow> nat \<Rightarrow> u8 list" where
  "picture c j = [0x20, 0x7C] @ (replicate 76 0x20) [j - 2 := c] @ [0x7C, 0x0A]"

lemma for_stores:
  assumes "a \<le> b"
  shows "for_loop a b (\<lambda>i. store (buf + of_nat i) v) s = write_bytes (buf + of_nat a) (replicate (b - a) v) s"
  using assms
proof (induction "b - a" arbitrary: b)
  case (Suc k)
  then obtain c where c: "b = Suc c" "a \<le> c" "k = c - a" by (cases b) auto
  have "replicate (b - a) v = replicate (c - a) v @ [v]" using c by (simp add: Suc_diff_le replicate_append_same)
  then show ?case using Suc.hyps(1) [of c] c by (simp add: for_loop_Suc write_bytes_append add.assoc of_nat_diff)
qed simp

lemma court_parts:
  assumes "court buf s"
  shows "load s buf = 0x20" "load s (buf + 1) = 0x7C" "load s (buf + 78) = 0x7C" "load s (buf + 79) = 0x0A" "load s (buf + 80) = 0"
  using assms by (simp_all add: court_def eval_nat_numeral read_bytes_Suc add.assoc)

lemma courtI:
  "load s buf = 0x20 \<Longrightarrow> load s (buf + 1) = 0x7C \<Longrightarrow> load s (buf + 78) = 0x7C \<Longrightarrow> load s (buf + 79) = 0x0A \<Longrightarrow>
     load s (buf + 80) = 0 \<Longrightarrow> court buf s"
  by (simp add: court_def eval_nat_numeral read_bytes_Suc add.assoc)

text \<open>The middle of the buffer, and a change to it.\<close>

lemma court_middle:
  fixes s :: "'a kernel_scheme"
  assumes "world s" "in_user buf 81" "court buf s" "length m \<le> 76"
  shows "court buf (write_bytes (buf + 2) m s)" "displays [] buf 81 s (write_bytes (buf + 2) m s)"
proof -
  have u: "unat (buf + 2) = unat buf + 2" using unat_user [OF assms(2), of 2] by simp
  have iu: "in_user (buf + 2) 76" using assms(2) u by (simp add: in_user_def)
  note d = write_user [OF assms(1) iu assms(4)]
  have k: "load (write_bytes (buf + 2) m s) (buf + of_nat i) = load s (buf + of_nat i)" if "i < 81" "i < 2 \<or> 78 \<le> i" for i
    using that unat_user [OF assms(2), of i] assms(2) u by (intro displays_load [OF d]) (auto simp: in_user_def)
  show "court buf (write_bytes (buf + 2) m s)"
    using court_parts [OF assms(3)] k [of 0] k [of 1] k [of 78] k [of 79] k [of 80] by (intro courtI) simp_all
  show "displays [] buf 81 s (write_bytes (buf + 2) m s)" by (rule displays_wider [OF d]) (simp_all add: u)
qed

lemma court_text:
  assumes "court buf s" "read_bytes s (buf + 2) 76 = m" "0 \<notin> set m"
  shows "cstr s buf ([0x20, 0x7C] @ m @ [0x7C, 0x0A])"
proof -
  have "length m = 76" using assms(2) by auto
  moreover have "read_bytes s buf (2 + (76 + 2)) = [0x20, 0x7C] @ m @ [0x7C, 0x0A]"
    unfolding read_bytes_add using court_parts [OF assms(1)] assms(2) by (simp add: eval_nat_numeral read_bytes_Suc add.assoc)
  ultimately show ?thesis using court_parts(5) [OF assms(1)] assms(3) by (simp add: cstr_def)
qed

lemma draw_displays:
  fixes s :: "'a kernel_scheme"
  assumes "world s" "in_user buf 81" "court buf s" "2 \<le> j" "j < 78" "c \<noteq> 0"
  shows "\<exists>t. ece391_fdputs U 1 buf (pingpong_draw buf c j s) = Some t \<and> displays (picture c j) buf 81 s t \<and>
    court buf t \<and> fds_of t = fds_of s"
proof -
  let ?u = "write_bytes (buf + 2) (replicate 76 0x20) s" and ?m = "(replicate 76 0x20) [j - 2 := c]"
  define v where "v = pingpong_draw buf c j s"
  have u: "pingpong_draw buf c j s = store (buf + of_nat j) c ?u" by (simp add: pingpong_draw_def for_stores)
  note cu = court_middle [OF assms(1-3), of "replicate 76 0x20"]
  have wu: "world ?u" by (rule displays_world [OF cu(2)]) simp
  have a: "unat (buf + of_nat j) = unat buf + j" "unat (buf + 2) = unat buf + 2"
    using unat_user [OF assms(2), of j] unat_user [OF assms(2), of 2] assms(5) by simp_all
  have iu: "in_user (buf + of_nat j) 1" "in_user (buf + 2) 76" using a assms(2,5) by (simp_all add: in_user_def)
  note dv = store_user [OF wu iu(1), of c, folded u, folded v_def]
  have k: "load v (buf + of_nat i) = load ?u (buf + of_nat i)" if "i < 81" "i \<noteq> j" for i
    using that unat_user [OF assms(2), of i] assms(2) a by (intro displays_load [OF dv]) (auto simp: in_user_def)
  have cv: "court buf v"
    using court_parts [OF cu(1)] k [of 0] k [of 1] k [of 78] k [of 79] k [of 80] assms(4,5) by (intro courtI) simp_all
  have "read_bytes v (buf + 2) 76 = ?m"
  proof (rule nth_equalityI)
    fix i assume "i < length (read_bytes v (buf + 2) 76)"
    then have i: "i < 76" by simp
    obtain l where l: "l = i + 2" "buf + 2 + of_nat i = buf + of_nat l" by simp
    have "load ?u (buf + 2 + of_nat i) = 0x20"
      using load_write_nth [of s "buf + 2" "replicate 76 0x20" i] user_area(1) [OF assms(1) iu(2)] i by simp
    moreover have "load v (buf + of_nat j) = c" unfolding v_def u by (simp add: load_store)
    ultimately have "load v (buf + 2 + of_nat i) = (if l = j then c else 0x20)"
      unfolding l(2) using k [of l] i l(1) by (cases "l = j") simp_all
    then show "read_bytes v (buf + 2) 76 ! i = ?m ! i" using i l(1) assms(4) by (auto simp: nth_list_update)
  qed (simp add: assms)
  moreover have "0 \<notin> set ?m" using set_update_subset_insert [of "replicate 76 (0x20 :: u8)" "j - 2" c] assms(6) by auto
  ultimately have cs: "cstr v buf (picture c j)" unfolding picture_def by (rule court_text [OF cv])
  have "length (picture c j) = 80" by (simp add: picture_def)
  then obtain t where t: "ece391_fdputs U 1 buf v = Some t" "displays (picture c j) buf 0 v t" "fds_of t = fds_of v"
    using fdputs_displays [OF displays_world [OF dv] cs, of U buf 0] assms(2) by auto
  have dv': "displays [] buf 81 ?u v" by (rule displays_wider [OF dv]) (use a assms(5) in simp_all)
  have "displays (picture c j) buf 81 s t"
    by (rule displays_two [OF _ displays_two [OF dv' displays_mono [OF t(2)]]]) (rule cu(2), simp)
  moreover have "court buf t"
    using cv displays_field(2) [OF t(2), of buf 2] displays_field(2) [OF t(2), of "buf + 78" 3] assms(2)
      unat_user [OF assms(2), of 78] by (simp add: court_def in_user_def clear_of_def)
  moreover have "fds_of v = fds_of s" by (simp add: v_def u)
  ultimately show ?thesis using t(1,3) by (auto simp: v_def)
qed

section \<open>The animation\<close>

text \<open>A wait for the clock that ends, while nothing happens to the program and its terminal.\<close>

definition ticked :: "'a waiting \<Rightarrow> 'a kernel_scheme \<Rightarrow> 'a kernel_scheme \<Rightarrow> bool" where
  "ticked env s w \<longleftrightarrow> spin env (\<lambda>s. rtc_flag s \<noteq> 0) 0 (s\<lparr>rtc_flag := 1\<rparr>) = Some w \<and> displays [] 0 0 s w \<and> fds_of w = fds_of s"

definition reads_rtc :: "'a kernel_scheme \<Rightarrow> nat \<Rightarrow> bool" where
  "reads_rtc s fd \<longleftrightarrow> fd < 8 \<and> fd_flags (fds_of s fd) = 1 \<and> fops_jmp_table (fds_of s fd) = Some rtc_table"

lemma read_tick:
  assumes "reads_rtc s fd" "in_user garbage 1" "ticked env s w"
  shows "ece391_read U env (int fd) garbage 4 s = Some (0, w)"
  using assms in_user_pointer [OF assms(2)]
  by (simp add: reads_rtc_def ticked_def user_calls sys_read_def Let_def r_func_def read_rtc_def)

definition sweep_text :: "u8 \<Rightarrow> nat list \<Rightarrow> u8 list" where
  "sweep_text c js = concat (map (picture c) js)"

lemma sweep_displays:
  fixes s :: "'a kernel_scheme"
  assumes "world s" "in_user buf 81" "court buf s" "set js \<subseteq> {2..<78}" "c \<noteq> 0" "reads_rtc s fd" "in_user garbage 1"
    and ticks: "\<And>u. world u \<Longrightarrow> \<exists>w. ticked env (u :: 'a kernel_scheme) w"
  shows "\<exists>t. pingpong_sweep U env (int fd) buf garbage c js s = Some t \<and> displays (sweep_text c js) buf 81 s t \<and>
    court buf t \<and> fds_of t = fds_of s"
  using assms(1-7)
proof (induction js arbitrary: s)
  case Nil
  then show ?case by (simp add: sweep_text_def displays_refl)
next
  case (Cons j js)
  have j: "2 \<le> j" "j < 78" "set js \<subseteq> {2..<78}" using Cons.prems(4) by auto
  obtain t where t: "ece391_fdputs U 1 buf (pingpong_draw buf c j s) = Some t" "displays (picture c j) buf 81 s t"
      "court buf t" "fds_of t = fds_of s"
    using draw_displays [OF Cons.prems(1-3) j(1,2) Cons.prems(5)] by blast
  obtain w where w: "ticked env t w" using ticks [OF displays_world [OF t(2)]] by blast
  have dw: "displays [] 0 0 t w" "fds_of w = fds_of t" using w by (simp_all add: ticked_def)
  have "fds_of w fd = fds_of s fd" "fds_of t fd = fds_of s fd" using dw(2) t(4) by simp_all
  then have rt: "reads_rtc t fd" "reads_rtc w fd" using Cons.prems(6) by (simp_all add: reads_rtc_def)
  have cw: "court buf w"
    using t(3) displays_field(2) [OF dw(1), of buf 2] displays_field(2) [OF dw(1), of "buf + 78" 3] Cons.prems(2)
      unat_user [OF Cons.prems(2), of 78] by (simp add: court_def in_user_def clear_of_def)
  note rd = read_tick [OF rt(1) Cons.prems(7) w, of U]
  note d = displays_trans [OF t(2) displays_mono [OF dw(1)]]
  obtain v where v: "pingpong_sweep U env (int fd) buf garbage c js w = Some v" "displays (sweep_text c js) buf 81 w v"
      "court buf v" "fds_of v = fds_of w"
    using Cons.IH [OF displays_world [OF dw(1)] Cons.prems(2) cw j(3) Cons.prems(5) rt(2) Cons.prems(7)] by blast
  show ?case using t(1,4) rd v dw(2) displays_trans [OF d v(2)] by (auto simp: sweep_text_def)
qed

lemma next_char_range: "65 \<le> c \<Longrightarrow> c \<le> 90 \<Longrightarrow> 65 \<le> next_char c \<and> next_char c \<le> 90"
proof -
  assume "65 \<le> c" "c \<le> 90"
  then have "unat c \<in> {65..90}" by (simp add: word_le_nat_alt)
  then have "unat c \<noteq> 90 \<Longrightarrow> unat (c + 1) = unat c + 1" by (auto simp: unat_word_ariths)
  then show ?thesis using \<open>65 \<le> c\<close> \<open>c \<le> 90\<close> by (auto simp: next_char_def word_le_nat_alt word_unat_eq_iff)
qed

fun animation :: "nat \<Rightarrow> u8 \<Rightarrow> u8 list" where
  "animation 0 c = []"
| "animation (Suc n) c = sweep_text c ([2..<78] @ rev [2..<78]) @ animation n (next_char c)"

text \<open>
  \<^verbatim>\<open>pingpong\<close> moves a letter from wall to wall and back, one line of the picture for every tick of
  the clock, with the next letter in every round, from A to Z and over again; its buffer is always a picture.
\<close>

theorem pingpong_animates:
  fixes s :: "'a kernel_scheme"
  assumes "world s" "in_user buf 81" "court buf s" "65 \<le> c" "c \<le> 90" "reads_rtc s fd" "in_user garbage 1"
    and "\<forall>u :: 'a kernel_scheme. world u \<longrightarrow> (\<exists>w. ticked env u w)"
  shows "\<exists>t. pingpong_rounds U env (int fd) buf garbage n c s = Some ((next_char ^^ n) c, t) \<and>
    displays (animation n c) buf 81 s t"
  using assms(1-7)
proof (induction n arbitrary: c s)
  case 0
  then show ?case by (simp add: displays_refl)
next
  case (Suc n)
  have c: "c \<noteq> 0" using Suc.prems(4) by auto
  have js: "set [2..<78] \<subseteq> {2..<78}" "set (rev [2..<78]) \<subseteq> {2..<78}" unfolding set_rev set_upt by (rule order_refl)+
  have ticks: "\<exists>w. ticked env u w" if "world u" for u :: "'a kernel_scheme" using assms(8) that by blast
  obtain t where t: "pingpong_sweep U env (int fd) buf garbage c [2..<78] s = Some t" "displays (sweep_text c [2..<78]) buf 81 s t"
      "court buf t" "fds_of t = fds_of s"
    using sweep_displays [OF Suc.prems(1-3) js(1) c Suc.prems(6,7) ticks] by blast
  have "fds_of t fd = fds_of s fd" using t(4) by simp
  then have rt: "reads_rtc t fd" using Suc.prems(6) by (simp add: reads_rtc_def)
  obtain u where u: "pingpong_sweep U env (int fd) buf garbage c (rev [2..<78]) t = Some u" "displays (sweep_text c (rev [2..<78])) buf 81 t u"
      "court buf u" "fds_of u = fds_of t"
    using sweep_displays [OF displays_world [OF t(2)] Suc.prems(2) t(3) js(2) c rt Suc.prems(7) ticks] by blast
  have "fds_of u fd = fds_of t fd" using u(4) by simp
  then have ru: "reads_rtc u fd" using rt by (simp add: reads_rtc_def)
  note nc = next_char_range [OF Suc.prems(4,5)]
  obtain v where v: "pingpong_rounds U env (int fd) buf garbage n (next_char c) u = Some ((next_char ^^ n) (next_char c), v)"
      "displays (animation n (next_char c)) buf 81 u v"
    using Suc.IH [OF displays_world [OF u(2)] Suc.prems(2) u(3) conjunct1 [OF nc] conjunct2 [OF nc] ru Suc.prems(7)] by blast
  have "sweep_text c ([2..<78] @ rev [2..<78]) = sweep_text c [2..<78] @ sweep_text c (rev [2..<78])"
    unfolding sweep_text_def map_append concat_append ..
  then have "displays (animation (Suc n) c) buf 81 s v"
    using displays_trans [OF displays_trans [OF t(2) u(2)] v(2)] by (simp only: animation.simps)
  moreover have "pingpong_rounds U env (int fd) buf garbage (Suc n) c s = Some ((next_char ^^ Suc n) c, v)"
    by (simp only: pingpong_rounds.simps t(1) u(1) v(1) bind.bind_lunit funpow_Suc_right o_apply)
  ultimately show ?case by blast
qed

lemma setup_court:
  fixes s :: "'a kernel_scheme"
  assumes "world s" "in_user buf 81"
  shows "displays [] buf 81 s (pingpong_setup buf s)" "court buf (pingpong_setup buf s)"
proof -
  define s1 where "s1 = write_bytes buf (replicate 81 0x20) s"
  define s2 where "s2 = store (buf + of_nat 80) 0 s1"
  define s3 where "s3 = store (buf + of_nat 79) 0x0A s2"
  define s4 where "s4 = store (buf + of_nat 78) 0x7C s3"
  define s5 where "s5 = store (buf + of_nat 1) 0x7C s4"
  have e: "pingpong_setup buf s = s5"
    using for_stores [of 0 81 buf "0x20" s] by (simp add: pingpong_setup_def Let_def s1_def s2_def s3_def s4_def s5_def)
  have d1: "displays [] buf 81 s s1" unfolding s1_def by (rule write_user [OF assms]) simp
  have ld1: "load s1 (buf + of_nat i) = 0x20" if "i < 81" for i
    unfolding s1_def using load_write_nth [of s buf "replicate 81 0x20" i] user_area(1) [OF assms] that by simp
  note d2 = displays_two [OF d1 store_at(1) [OF displays_world [OF d1] assms(2), of 80 0, folded s2_def]]
  note d3 = displays_two [OF d2 store_at(1) [OF displays_world [OF d2] assms(2), of 79 "0x0A", folded s3_def]]
  note d4 = displays_two [OF d3 store_at(1) [OF displays_world [OF d3] assms(2), of 78 "0x7C", folded s4_def]]
  note d5 = displays_two [OF d4 store_at(1) [OF displays_world [OF d4] assms(2), of 1 "0x7C", folded s5_def]]
  show "displays [] buf 81 s (pingpong_setup buf s)" unfolding e by (rule d5) simp_all
  have w: "world s1" "world s2" "world s3" "world s4"
    using displays_world [OF d1] displays_world [OF d2] displays_world [OF d3] displays_world [OF d4] by simp_all
  have ld: "load s5 (buf + of_nat i) = (if i = 1 \<or> i = 78 then 0x7C else if i = 79 then 0x0A else if i = 80 then 0 else 0x20)" if "i < 81" for i
    using that ld1 [OF that] store_at(2) [OF w(1) assms(2), of 80 i 0, folded s2_def] store_at(2) [OF w(2) assms(2), of 79 i "0x0A", folded s3_def]
      store_at(2) [OF w(3) assms(2), of 78 i "0x7C", folded s4_def] store_at(2) [OF w(4) assms(2), of 1 i "0x7C", folded s5_def]
    by auto
  show "court buf (pingpong_setup buf s)"
    unfolding e using ld [of 0] ld [of 1] ld [of 78] ld [of 79] ld [of 80] by (intro courtI) simp_all
qed

lemma demo_ticks:
  fixes u :: "'a kernel_scheme"
  assumes "world u"
  shows "\<exists>w. ticked (\<lambda>_ s. s\<lparr>rtc_flag := 0\<rparr>) u w"
proof -
  let ?w = "u\<lparr>rtc_flag := 0\<rparr>"
  have "spin (\<lambda>_ s. s\<lparr>rtc_flag := 0\<rparr>) (\<lambda>s. rtc_flag s \<noteq> 0) 0 (u\<lparr>rtc_flag := 1\<rparr>) = Some ?w"
    by (subst spin.simps, subst spin.simps) simp
  moreover have "displays [] 0 0 u ?w" by (rule quiet_user(1) [OF assms]) (simp_all add: cursor_of_def)
  ultimately show ?thesis by (auto simp: ticked_def current_pcb_def)
qed

definition court_demo :: kernel where
  "court_demo = (let s = pingpong_setup 0x08200000 (user_demo []) in
     upd_fd (current_pcb s) 2 (\<lambda>_. \<lparr>fops_jmp_table = Some rtc_table, fd_inode = 0, position = 0, fd_flags = 1\<rparr>) s)"

theorem pingpong_animates_witness:
  "\<exists>t. pingpong_rounds (demo_link []) (\<lambda>_ s. s\<lparr>rtc_flag := 0\<rparr>) 2 0x08200000 0x08210000 1 65 court_demo = Some (66, t) \<and>
     displays (sweep_text 65 ([2..<78] @ rev [2..<78])) 0x08200000 81 court_demo t"
proof -
  let ?s = "pingpong_setup 0x08200000 (user_demo [])"
  let ?f = "\<lambda>_. \<lparr>fops_jmp_table = Some rtc_table, fd_inode = 0, position = 0, fd_flags = 1\<rparr>"
  have ok: "length ([] :: string list) \<le> 100" "list_all short_text []" by simp_all
  have iu: "in_user 0x08200000 81" by (simp add: in_user_def)
  note c = setup_court [OF user_demo_facts(1) [OF ok] iu]
  have "fds_ok ((fds_of ?s)(2 := ?f ()))" using fds_ok_upd [OF world_fds [OF displays_world [OF c(1)]], of "?f ()" 2] by simp
  note u = upd_user [OF displays_world [OF c(1)], of 2 ?f, OF this]
  have cd: "court_demo = upd_fd (current_pcb ?s) 2 ?f ?s" by (simp add: court_demo_def Let_def)
  have w: "world court_demo" unfolding cd by (rule displays_world [OF u(1)])
  have "court 0x08200000 court_demo" using c(2) unfolding cd by (simp add: court_def read_bytes_def load_def)
  moreover have "reads_rtc court_demo 2" unfolding cd reads_rtc_def u(2) by simp
  moreover have "\<forall>u :: kernel. world u \<longrightarrow> (\<exists>w. ticked (\<lambda>_ s. s\<lparr>rtc_flag := 0\<rparr>) u w)" using demo_ticks by blast
  ultimately show ?thesis
    using pingpong_animates [OF w iu _ _ _ _ _, of 65 2 "0x08210000" "\<lambda>_ s. s\<lparr>rtc_flag := 0\<rparr>" "demo_link []" 1]
    by (simp add: in_user_def next_char_def del: upt_rec_numeral)
qed

end
