(* ===== verification/User_Grep.thy ===== *)
theory User_Grep
  imports User_Demo
begin

text \<open>
  \<^verbatim>\<open>grep\<close>: the lines of a file that contain the pattern, although the file is read in pieces that cut
  lines anywhere.
\<close>

section \<open>Lines\<close>

function lines_of :: "u8 list \<Rightarrow> u8 list list" where
  "lines_of xs = (if xs = [] then [] else takeWhile (\<lambda>b. b \<noteq> 0x0A) xs # lines_of (drop 1 (dropWhile (\<lambda>b. b \<noteq> 0x0A) xs)))"
  by pat_completeness auto
termination
proof (relation "measure length")
  fix xs :: "u8 list" assume "xs \<noteq> []"
  then have "0 < length xs" "length (dropWhile (\<lambda>b. b \<noteq> 0x0A) xs) \<le> length xs" by (simp_all add: length_dropWhile_le)
  then have "length (drop 1 (dropWhile (\<lambda>b. b \<noteq> 0x0A) xs)) < length xs" unfolding length_drop by linarith
  then show "(drop 1 (dropWhile (\<lambda>b. b \<noteq> 0x0A) xs), xs) \<in> measure length" by simp
qed simp

declare lines_of.simps [simp del]

lemma lines_of_Nil [simp]: "lines_of [] = []"
  by (simp add: lines_of.simps)

lemma take_line: "0x0A \<notin> set l \<Longrightarrow> takeWhile (\<lambda>b. b \<noteq> 0x0A) (l @ 0x0A # xs) = l"
  "0x0A \<notin> set l \<Longrightarrow> dropWhile (\<lambda>b. b \<noteq> 0x0A) (l @ 0x0A # xs) = 0x0A # xs" for l xs :: "u8 list"
  by (induction l) auto

lemma lines_of_line: "0x0A \<notin> set l \<Longrightarrow> lines_of (l @ 0x0A # xs) = l # lines_of xs"
  by (subst lines_of.simps) (simp add: take_line)

lemma lines_of_last: "0x0A \<notin> set l \<Longrightarrow> l \<noteq> [] \<Longrightarrow> lines_of l = [l]"
proof -
  assume a: "0x0A \<notin> set l" "l \<noteq> []"
  then have e: "takeWhile (\<lambda>b. b \<noteq> 0x0A) l = l" "dropWhile (\<lambda>b. b \<noteq> 0x0A) l = []" by (auto simp: takeWhile_eq_all_conv)
  show ?thesis using lines_of.simps [of l, unfolded e] a(2) by simp
qed

lemma split_line:
  fixes xs :: "u8 list"
  obtains "0x0A \<notin> set xs" | l ys where "0x0A \<notin> set l" "xs = l @ 0x0A # ys"
  by (metis split_list_first)

text \<open>What \<^verbatim>\<open>grep\<close> reports of a line, and of a file.\<close>

definition contains :: "u8 list \<Rightarrow> u8 list \<Rightarrow> bool" where
  "contains p l \<longleftrightarrow> p \<noteq> [] \<and> (\<exists>i<length l. take (length p) (drop i l) = p)"

lemma contains_code [code]: "contains p l \<longleftrightarrow> p \<noteq> [] \<and> list_ex (\<lambda>i. take (length p) (drop i l) = p) [0..<length l]"
  by (auto simp: contains_def list_ex_iff)

definition report :: "u8 list \<Rightarrow> u8 list \<Rightarrow> u8 list \<Rightarrow> u8 list" where
  "report p nm l = (if contains p l then nm @ [0x3A] @ l @ [0x0A] else [])"

definition grep_text :: "u8 list \<Rightarrow> u8 list \<Rightarrow> u8 list list \<Rightarrow> u8 list" where
  "grep_text p nm ls = concat (map (report p nm) ls)"

section \<open>The search of a line\<close>

lemma cstr_drop: "cstr s a bs \<Longrightarrow> i \<le> length bs \<Longrightarrow> cstr s (a + of_nat i) (drop i bs)"
proof (induction i arbitrary: a bs)
  case (Suc i)
  then obtain b cs where "bs = b # cs" by (cases bs) auto
  then show ?case using Suc.IH [of "a + 1" cs] Suc.prems by (simp add: cstr_Cons add.assoc)
qed simp

text \<open>The strings the search works with: the pattern, the name of the file and two constants, away from the buffer.\<close>

definition grep_strings :: "user_link \<Rightarrow> u32 \<Rightarrow> u32 \<Rightarrow> u32 \<Rightarrow> u8 list \<Rightarrow> u8 list \<Rightarrow> 'a kernel_scheme \<Rightarrow> bool" where
  "grep_strings U pat fname data p nm s \<longleftrightarrow> cstr s pat p \<and> in_user pat (Suc (length p)) \<and> clear_of data 1025 pat (Suc (length p)) \<and>
     cstr s fname nm \<and> in_user fname (Suc (length nm)) \<and> clear_of data 1025 fname (Suc (length nm)) \<and>
     lit_ok U data 1025 s '':'' \<and> lit_ok U data 1025 s ''\<newline>''"

lemma grep_strings_displays:
  "displays bs data 1025 s t \<Longrightarrow> grep_strings U pat fname data p nm s \<Longrightarrow> grep_strings U pat fname data p nm t"
  by (auto simp: grep_strings_def intro: displays_cstr lit_displays)

lemma match_iff:
  assumes "cstr s pat p" "cstr s a l" "l \<noteq> []" "length p < 2147483648"
  shows "load s pat = load s a \<and> 0 = ece391_strncmp s a pat (of_int (int (length p))) \<longleftrightarrow> p \<noteq> [] \<and> take (length p) l = p"
proof -
  have "of_int (int (length p)) = (of_nat (length p) :: u32)" "unat (of_nat (length p) :: u32) = length p" using assms(4) by simp_all
  then have eq: "0 = ece391_strncmp s a pat (of_int (int (length p))) \<longleftrightarrow> take (length p) l = p"
    using ece391_strncmp_eq_0 [of s a pat "of_nat (length p)"] cstr_field_text [OF assms(2)] cstr_field_text [OF assms(1), of "length p"]
    by auto
  have "load s a = hd l" "hd l \<noteq> 0" using assms(2,3) by (cases l; simp add: cstr_Cons)+
  moreover have "load s pat = (if p = [] then 0 else hd p)" using assms(1) by (cases p) (simp_all add: cstr_Nil cstr_Cons)
  moreover have "take (length p) l = p \<Longrightarrow> p \<noteq> [] \<Longrightarrow> hd p = hd l" by (cases p; cases l) auto
  ultimately show ?thesis unfolding eq by auto
qed

lemma report_line:
  fixes s :: "'a kernel_scheme"
  assumes "world s" "grep_strings U pat fname data p nm s" "cstr s a l" "in_user a (Suc (length l))"
  shows "\<exists>t. do { s \<leftarrow> ece391_fdputs U 1 fname s; s \<leftarrow> putsl U '':'' s; s \<leftarrow> ece391_fdputs U 1 a s; putsl U ''\<newline>'' s } = Some t \<and>
    displays (nm @ [0x3A] @ l @ [0x0A]) data 0 s t \<and> fds_of t = fds_of s"
proof -
  note g = assms(2) [unfolded grep_strings_def]
  obtain t where t: "ece391_fdputs U 1 fname s = Some t" "displays nm data 0 s t" "fds_of t = fds_of s"
    using fdputs_displays [OF assms(1)] g by blast
  have lt: "lit_ok U data 1025 t v" if "lit_ok U data 1025 s v" for v
    by (rule lit_displays [OF displays_mono [OF t(2)] that])
  obtain u where u: "putsl U '':'' t = Some u" "displays (bytes_of '':'') data 0 t u" "fds_of u = fds_of t"
    using putsl_displays [OF displays_world [OF t(2)] lt] g by blast
  have "cstr u a l" using displays_cstr [OF u(2) assms(4)] displays_cstr [OF t(2) assms(4)] assms(3) by (simp add: clear_of_def)
  then obtain v where v: "ece391_fdputs U 1 a u = Some v" "displays l data 0 u v" "fds_of v = fds_of u"
    using fdputs_displays [OF displays_world [OF u(2)] _ assms(4)] by blast
  note dv = displays_trans [OF displays_trans [OF t(2) u(2)] v(2)]
  obtain x where x: "putsl U ''\<newline>'' v = Some x" "displays (bytes_of ''\<newline>'') data 0 v x" "fds_of x = fds_of v"
    using putsl_displays [OF displays_world [OF dv] lit_displays [OF displays_mono [OF dv]]] g by blast
  show ?thesis using t(1,3) u(1,3) v(1,3) x(1,3) displays_trans [OF dv x(2)] by (simp add: bytes_of_def)
qed

lemma search_from:
  fixes s :: "'a kernel_scheme"
  assumes "world s" "grep_strings U pat fname data p nm s" "cstr s (data + of_nat start) l"
    and "in_user (data + of_nat start) (Suc (length l))" "length p < 2147483648" "k \<le> length l"
  shows "\<exists>t. search_line U pat fname data (int (length p)) (int start) (int (start + k)) (int (start + length l)) s = Some t \<and>
    displays (if p \<noteq> [] \<and> (\<exists>i. k \<le> i \<and> i < length l \<and> take (length p) (drop i l) = p) then nm @ [0x3A] @ l @ [0x0A] else []) data 0 s t \<and>
    fds_of t = fds_of s"
  using assms(6)
proof (induction "length l - k" arbitrary: k)
  case 0
  then show ?case by (subst search_line.simps) (auto simp: displays_refl [OF assms(1)])
next
  case (Suc d)
  let ?hit = "p \<noteq> [] \<and> take (length p) (drop k l) = p"
  have k: "k < length l" using Suc.hyps(2) by simp
  have a: "data + of_int (int (start + k)) = data + of_nat start + of_nat k" "data + of_int (int start) = data + of_nat start" by simp_all
  have m: "load s pat = load s (data + of_int (int (start + k))) \<and>
      0 = ece391_strncmp s (data + of_int (int (start + k))) pat (of_int (int (length p))) \<longleftrightarrow> ?hit"
    unfolding a using match_iff [OF _ cstr_drop [OF assms(3), of k] _ assms(5)] k assms(2) by (simp add: grep_strings_def)
  have c: "int (start + k) < int (start + length l)" "int (start + k) + 1 = int (start + Suc k)" using k by simp_all
  show ?case
  proof (cases ?hit)
    case True
    then have "\<exists>i. k \<le> i \<and> i < length l \<and> take (length p) (drop i l) = p" using k by blast
    then show ?thesis
      using report_line [OF assms(1-4)] True by (subst search_line.simps) (simp only: c(1) m if_True simp_thms a(2))
  next
    case False
    have "(\<exists>i. k \<le> i \<and> i < length l \<and> take (length p) (drop i l) = p) \<longleftrightarrow>
        (\<exists>i. Suc k \<le> i \<and> i < length l \<and> take (length p) (drop i l) = p)" if "p \<noteq> []"
      using that False by (metis Suc_leD Suc_leI le_neq_implies_less)
    moreover have "d = length l - Suc k" "Suc k \<le> length l" using Suc.hyps(2) k by simp_all
    ultimately show ?thesis
      using Suc.hyps(1) [of "Suc k"] False by (subst search_line.simps) (simp only: c m if_True if_False simp_thms cong: conj_cong)
  qed
qed

lemma search_line_displays:
  fixes s :: "'a kernel_scheme"
  assumes "world s" "grep_strings U pat fname data p nm s" "cstr s (data + of_nat start) l"
    and "in_user (data + of_nat start) (Suc (length l))" "length p < 2147483648"
  shows "\<exists>t. search_line U pat fname data (int (length p)) (int start) (int start) (int (start + length l)) s = Some t \<and>
    displays (report p nm l) data 0 s t \<and> fds_of t = fds_of s"
  using search_from [OF assms, of 0] by (simp add: report_def contains_def)

section \<open>The lines in the buffer\<close>

lemma line_end_eq:
  "read_bytes s (data + of_nat start) (length r) = r \<Longrightarrow>
     line_end_from data (int start) (int (start + length r)) s = Some (int (start + length (takeWhile (\<lambda>b. b \<noteq> 0x0A) r)))"
proof (induction r arbitrary: start)
  case Nil
  then show ?case by (subst line_end_from.simps) simp
next
  case (Cons b r)
  have l: "load s (data + of_nat start) = b" "read_bytes s (data + of_nat (Suc start)) (length r) = r"
    using Cons.prems by (simp_all add: read_bytes_Suc ac_simps)
  show ?case
  proof (cases "b = 0x0A")
    case True
    then show ?thesis using l(1) by (subst line_end_from.simps) simp
  next
    case False
    then show ?thesis using l(1) Cons.IH [OF l(2)] by (subst line_end_from.simps) (simp add: add.commute add.left_commute)
  qed
qed

text \<open>The copy of the cut line to the front of the buffer may overlap its source; it goes the right way.\<close>

lemma ece391_strcpy_down:
  assumes "cstr s src bs" "\<And>i j. i < j \<Longrightarrow> j \<le> length bs \<Longrightarrow> xlat s (dst + of_nat i) \<noteq> xlat s (src + of_nat j)"
  shows "ece391_strcpy dst src s = Some (write_bytes dst (bs @ [0]) s)"
  using assms
proof (induction bs arbitrary: s dst src)
  case Nil
  then show ?case by (subst ece391_strcpy.simps) (simp add: cstr_Nil Let_def)
next
  case (Cons b bs)
  let ?s = "store dst b s"
  have c: "load s src = b" "b \<noteq> 0" "cstr s (src + 1) bs" using Cons.prems(1) by (simp_all add: cstr_Cons)
  have "load ?s (src + 1 + of_nat j) = load s (src + 1 + of_nat j)" if "j \<le> length bs" for j
    using Cons.prems(2) [of 0 "Suc j"] that by (simp add: load_store add.assoc)
  then have "cstr ?s (src + 1) bs" by (rule cstr_load_cong [OF _ c(3)])
  moreover have "xlat ?s (dst + 1 + of_nat i) \<noteq> xlat ?s (src + 1 + of_nat j)" if "i < j" "j \<le> length bs" for i j
    using Cons.prems(2) [of "Suc i" "Suc j"] that by (simp add: add.assoc)
  ultimately have "ece391_strcpy (dst + 1) (src + 1) ?s = Some (write_bytes (dst + 1) (bs @ [0]) ?s)" by (rule Cons.IH)
  then show ?case using c(1,2) by (subst ece391_strcpy.simps) (simp add: Let_def)
qed

text \<open>Ending the line that starts at \<open>start\<close> in place.\<close>

lemma cut_line:
  fixes s :: "'a kernel_scheme"
  assumes "world s" "in_user data 1025" "read_bytes s (data + of_nat start) (length l) = l" "0 \<notin> set l" "start + length l \<le> 1024"
    and "t = store (data + of_nat (start + length l)) 0 s"
  shows "displays [] data 1025 s t" "cstr t (data + of_nat start) l" "in_user (data + of_nat start) (Suc (length l))" "fds_of t = fds_of s"
    "i \<le> 1024 \<Longrightarrow> load t (data + of_nat i) = (if i = start + length l then 0 else load s (data + of_nat i))"
proof -
  show iu: "in_user (data + of_nat start) (Suc (length l))" by (rule in_user_shift [OF assms(2)]) (use assms(5) in simp)
  have j: "start + length l < 1025" using assms(5) by simp
  note st = store_at [OF assms(1,2) j, where v = 0, folded assms(6)]
  show "displays [] data 1025 s t" by (rule st(1))
  show "i \<le> 1024 \<Longrightarrow> load t (data + of_nat i) = (if i = start + length l then 0 else load s (data + of_nat i))" using st(2) [of i] by simp
  have "t = store (data + of_nat start + of_nat (length l)) 0 s" using assms(6) by (simp add: add.assoc)
  then show "cstr t (data + of_nat start) l" using terminate_user(2) [OF assms(1) iu _ assms(3,4)] by simp
  show "fds_of t = fds_of s" by (simp add: assms(6))
qed

lemma search_here:
  fixes s :: "'a kernel_scheme"
  assumes "world s" "in_user data 1025" "read_bytes s (data + of_nat start) (length l) = l" "0 \<notin> set l" "start + length l \<le> 1024"
    and "grep_strings U pat fname data p nm s" "length p < 2147483648"
  shows "\<exists>t. search_line U pat fname data (int (length p)) (int start) (int start) (int (start + length l))
      (store (data + of_int (int (start + length l))) 0 s) = Some t \<and>
    displays (report p nm l) data 1025 s t \<and> fds_of t = fds_of s \<and>
    (\<forall>i\<le>1024. load t (data + of_nat i) = (if i = start + length l then 0 else load s (data + of_nat i)))"
proof -
  define u where "u = store (data + of_nat (start + length l)) 0 s"
  note c = cut_line [OF assms(1-5) u_def]
  obtain t where t: "search_line U pat fname data (int (length p)) (int start) (int start) (int (start + length l)) u = Some t"
      "displays (report p nm l) data 0 u t" "fds_of t = fds_of u"
    using search_line_displays [OF displays_world [OF c(1)] grep_strings_displays [OF c(1) assms(6)] c(2,3) assms(7)] by blast
  have "load t (data + of_nat i) = load u (data + of_nat i)" if "i \<le> 1024" for i
    by (rule displays_load_nth [OF t(2) assms(2)]) (use that in \<open>simp_all add: clear_of_def\<close>)
  moreover have "data + of_int (int (start + length l)) = data + of_nat (start + length l)" by simp
  ultimately show ?thesis using t(1,3) c(4,5) displays_two [OF c(1) displays_mono [OF t(2)]] u_def by auto
qed

text \<open>
  What the loop over the buffer has done when it ends: it has reported the lines \<open>ls\<close>, and the \<open>c\<close> is
  at the front of the buffer. Either nothing is left, or a part of a line is left for the next piece.
\<close>

definition lines_done :: "int \<Rightarrow> bool \<Rightarrow> nat \<Rightarrow> u8 list \<Rightarrow> u8 list list \<Rightarrow> u8 list \<Rightarrow> bool" where
  "lines_done cnt stale start r ls c \<longleftrightarrow>
     c = [] \<and> ls = lines_of r \<and> (r = [] \<or> List.last r = 0x0A \<or> cnt = 0 \<or> stale \<or> start = 0 \<and> 0x0A \<notin> set r) \<or>
     c \<noteq> [] \<and> cnt \<noteq> 0 \<and> 0x0A \<notin> set c \<and> length c < 1024 \<and> set c \<subseteq> set r \<and> (\<forall>f. lines_of (r @ f) = ls @ lines_of (c @ f))"

lemma report_Nil: "report p nm [] = []"
  by (simp add: report_def contains_def)

lemma grep_text_last: "0x0A \<notin> set r \<Longrightarrow> grep_text p nm (lines_of r) = report p nm r"
  by (cases "r = []") (simp_all add: grep_text_def lines_of_last report_Nil)

lemma carry_over:
  fixes s :: "'a kernel_scheme"
  assumes "world s" "in_user data 1025" "read_bytes s (data + of_nat start) (length r) = r" "0 \<notin> set r" "start + length r \<le> 1024" "0 < start"
  shows "\<exists>t. ece391_strcpy data (data + of_int (int start)) (store (data + of_int (int (start + length r))) 0 s) = Some t \<and>
    displays [] data 1025 s t \<and> fds_of t = fds_of s \<and> read_bytes t data (length r) = r \<and>
    (load t (data + 1024) = load s (data + 1024) \<or> load t (data + 1024) = 0)"
proof -
  define u where "u = store (data + of_nat (start + length r)) 0 s"
  note c = cut_line [OF assms(1-5) u_def]
  let ?t = "write_bytes data (r @ [0]) u"
  have wu: "world u" by (rule displays_world [OF c(1)])
  have len: "length (r @ [0]) \<le> 1024" using assms(5,6) by simp
  have "ece391_strcpy data (data + of_nat start) u = Some ?t"
  proof (rule ece391_strcpy_down [OF c(2)])
    fix i j assume ij: "i < j" "j \<le> length r"
    have a: "data + of_nat start + of_nat j = data + of_nat (start + j)" by (simp add: add.assoc)
    have "inj_on (\<lambda>i. xlat u (data + of_nat i)) {..<1025}" using user_area(1) [OF wu assms(2)] by (simp add: spread_def)
    moreover have "i \<in> {..<1025}" "start + j \<in> {..<1025}" "i \<noteq> start + j" using ij assms(5,6) by simp_all
    ultimately show "xlat u (data + of_nat i) \<noteq> xlat u (data + of_nat start + of_nat j)" unfolding a by (meson inj_onD)
  qed
  moreover have iu: "in_user data 1024" by (rule in_user_mono [OF assms(2)]) simp
  note d = write_user [OF wu iu len]
  have d': "displays [] data 1025 u ?t" by (rule displays_wider [OF d]) simp_all
  moreover have "read_bytes ?t data (length (r @ [0])) = r @ [0]"
    using user_area(1) [OF wu in_user_mono [OF iu len]] by (intro read_write_same)
  then have "read_bytes ?t data (length r) = r" using take_read_bytes [of "length r" "length (r @ [0])" ?t data] by simp
  moreover have "unat (data + of_nat 1024) = unat data + 1024" by (rule unat_user [OF assms(2)]) simp
  then have "load ?t (data + of_nat 1024) = load u (data + of_nat 1024)"
    using assms(2) by (intro displays_load [OF d]) (simp_all add: in_user_def)
  then have "load ?t (data + 1024) = load u (data + 1024)" by simp
  moreover have "load u (data + 1024) = load s (data + 1024) \<or> load u (data + 1024) = 0" using c(5) [of 1024] by simp
  moreover have "data + of_int (int (start + length r)) = data + of_nat (start + length r)" "data + of_int (int start) = data + of_nat start" by simp_all
  ultimately show ?thesis using c(4) displays_two [OF c(1) d'] u_def by auto
qed

lemma grep_lines_step:
  assumes "read_bytes s (data + of_nat start) (length r) = r" "e = start + length (takeWhile (\<lambda>b. b \<noteq> 0x0A) r)"
  shows "grep_lines U pat fname data n cnt (int (start + length r)) (int start) s =
    (if load s (data + of_nat e) \<noteq> 0x0A \<and> 0 \<noteq> cnt \<and> start \<noteq> 0
     then do { s \<leftarrow> ece391_strcpy data (data + of_int (int start)) (store (data + of_int (int e)) 0 s); Some (int (length r), s) }
     else do { s \<leftarrow> search_line U pat fname data n (int start) (int start) (int e) (store (data + of_int (int e)) 0 s);
               if start + length r \<le> Suc e then Some (0, s)
               else grep_lines U pat fname data n cnt (int (start + length r)) (int (Suc e)) s })"
proof -
  have le: "line_end_from data (int start) (int (start + length r)) s = Some (int e)" using line_end_eq [OF assms(1)] assms(2) by simp
  have i: "data + of_int (int e) = data + of_nat e" "int (start + length r) - int start = int (length r)"
    "int (start + length r) \<le> int (Suc e) \<longleftrightarrow> start + length r \<le> Suc e" "int e + 1 = int (Suc e)" by auto
  show ?thesis by (subst grep_lines.simps) (simp only: le bind.bind_lunit i of_nat_eq_0_iff)
qed

lemma grep_lines_displays:
  fixes s :: "'a kernel_scheme"
  assumes "world s" "in_user data 1025" "grep_strings U pat fname data p nm s" "length p < 2147483648"
    and "read_bytes s (data + of_nat start) (length r) = r" "0 \<notin> set r" "start + length r \<le> 1024" "start = 0 \<or> r \<noteq> []"
  shows "\<exists>t c ls. grep_lines U pat fname data (int (length p)) cnt (int (start + length r)) (int start) s = Some (int (length c), t) \<and>
    displays (grep_text p nm ls) data 1025 s t \<and> fds_of t = fds_of s \<and> read_bytes t data (length c) = c \<and>
    (load t (data + 1024) = load s (data + 1024) \<or> load t (data + 1024) = 0) \<and>
    lines_done cnt (load s (data + of_nat (start + length r)) = 0x0A) start r ls c"
  using assms
proof (induction "length r" arbitrary: start r s rule: less_induct)
  case less
  note step = grep_lines_step [OF less.prems(5) refl, of U pat fname "int (length p)" cnt]
  show ?case
  proof (cases rule: split_line [of r])
    case 1
    then have tw: "takeWhile (\<lambda>b. b \<noteq> 0x0A) r = r" by (auto simp: takeWhile_eq_all_conv)
    let ?stale = "load s (data + of_nat (start + length r)) = 0x0A"
    show ?thesis
    proof (cases "\<not> ?stale \<and> 0 \<noteq> cnt \<and> start \<noteq> 0")
      case True
      then have st: "0 < start" "r \<noteq> []" using less.prems(8) by auto
      obtain t where t: "ece391_strcpy data (data + of_int (int start)) (store (data + of_int (int (start + length r))) 0 s) = Some t"
          "displays [] data 1025 s t" "fds_of t = fds_of s" "read_bytes t data (length r) = r"
          "load t (data + 1024) = load s (data + 1024) \<or> load t (data + 1024) = 0"
        using carry_over [OF less.prems(1,2,5-7) st(1)] by blast
      have "lines_done cnt ?stale start r [] r" using 1 st True less.prems(7) by (simp add: lines_done_def)
      moreover have "grep_lines U pat fname data (int (length p)) cnt (int (start + length r)) (int start) s = Some (int (length r), t)"
        using step True t(1) by (simp only: tw if_True bind.bind_lunit simp_thms)
      ultimately show ?thesis using t(2-5) by (intro exI [of _ t] exI [of _ r] exI [of _ "[]"]) (simp add: grep_text_def)
    next
      case False
      obtain t where t: "search_line U pat fname data (int (length p)) (int start) (int start) (int (start + length r))
          (store (data + of_int (int (start + length r))) 0 s) = Some t"
          "displays (report p nm r) data 1025 s t" "fds_of t = fds_of s"
          "\<forall>i\<le>1024. load t (data + of_nat i) = (if i = start + length r then 0 else load s (data + of_nat i))"
        using search_here [OF less.prems(1,2,5-7,3,4)] by blast
      have "load t (data + 1024) = load s (data + 1024) \<or> load t (data + 1024) = 0" using spec [OF t(4), of 1024] by simp
      moreover have "lines_done cnt ?stale start r (lines_of r) []" using False 1 by (auto simp: lines_done_def)
      moreover have "grep_lines U pat fname data (int (length p)) cnt (int (start + length r)) (int start) s = Some (0, t)"
        using step False t(1) by (simp only: tw if_False if_True bind.bind_lunit le_Suc_eq order_refl simp_thms)
      ultimately show ?thesis
        using t(2,3) 1 by (intro exI [of _ t] exI [of _ "[]"] exI [of _ "lines_of r"]) (simp add: grep_text_last)
    qed
  next
    case (2 l ys)
    have tw: "takeWhile (\<lambda>b. b \<noteq> 0x0A) r = l" using 2 by (simp add: take_line)
    let ?e = "start + length l"
    have rl: "read_bytes s (data + of_nat start) (length l) = l"
      using take_read_bytes [of "length l" "length r" s "data + of_nat start"] less.prems(5) 2(2) by simp
    have nz: "0 \<notin> set l" "0 \<notin> set ys" "?e \<le> 1024" "?e < 1024" using less.prems(6,7) 2(2) by simp_all
    have "read_bytes s (data + of_nat start) (length r) ! length l = 0x0A" using less.prems(5) 2(2) by simp
    then have nl: "load s (data + of_nat ?e) = 0x0A" using 2(2) by (simp add: add.assoc)
    obtain t where t: "search_line U pat fname data (int (length p)) (int start) (int start) (int ?e)
        (store (data + of_int (int ?e)) 0 s) = Some t"
        "displays (report p nm l) data 1025 s t" "fds_of t = fds_of s"
        "\<forall>i\<le>1024. load t (data + of_nat i) = (if i = ?e then 0 else load s (data + of_nat i))"
      using search_here [OF less.prems(1,2) rl nz(1,3) less.prems(3,4)] by blast
    have ld: "load t (data + 1024) = load s (data + 1024)" using spec [OF t(4), of 1024] nz(4) by simp
    have len: "start + length r = Suc ?e + length ys" using 2(2) by simp
    show ?thesis
    proof (cases "ys = []")
      case True
      have "grep_lines U pat fname data (int (length p)) cnt (int (start + length r)) (int start) s = Some (0, t)"
        using step nl t(1) len True by (simp only: tw if_True if_False bind.bind_lunit simp_thms list.size add_0_right order_refl)
      moreover have "lines_done cnt st start r [l] []" for st using 2 True lines_of_line [OF 2(1), of "[]"] by (simp add: lines_done_def)
      ultimately show ?thesis
        using t(2,3) ld by (intro exI [of _ t] exI [of _ "[]"] exI [of _ "[l]"]) (simp add: grep_text_def)
    next
      case False
      have ry: "read_bytes t (data + of_nat (Suc ?e)) (length ys) = ys"
      proof (rule nth_equalityI)
        fix i assume "i < length (read_bytes t (data + of_nat (Suc ?e)) (length ys))"
        then have i: "i < length ys" by simp
        have "Suc ?e + i \<le> 1024" using i less.prems(7) 2(2) by simp
        then have "load t (data + of_nat (Suc ?e + i)) = load s (data + of_nat (Suc ?e + i))" using spec [OF t(4), of "Suc ?e + i"] by simp
        moreover have "read_bytes s (data + of_nat start) (length r) ! (Suc (length l) + i) = ys ! i"
          using less.prems(5) 2(2) by (simp add: nth_append)
        then have "load s (data + of_nat (Suc ?e + i)) = ys ! i" using i 2(2) by (simp add: ac_simps)
        ultimately show "read_bytes t (data + of_nat (Suc ?e)) (length ys) ! i = ys ! i" using i by (simp add: ac_simps)
      qed simp
      have "length ys < length r" "Suc ?e + length ys \<le> 1024" using 2(2) less.prems(7) by simp_all
      then obtain u c ls where u: "grep_lines U pat fname data (int (length p)) cnt (int (Suc ?e + length ys)) (int (Suc ?e)) t = Some (int (length c), u)"
          "displays (grep_text p nm ls) data 1025 t u" "fds_of u = fds_of t" "read_bytes u data (length c) = c"
          "load u (data + 1024) = load t (data + 1024) \<or> load u (data + 1024) = 0"
          "lines_done cnt (load t (data + of_nat (Suc ?e + length ys)) = 0x0A) (Suc ?e) ys ls c"
        using less.hyps [OF _ displays_world [OF t(2)] less.prems(2) grep_strings_displays [OF t(2) less.prems(3)] less.prems(4) ry nz(2)]
          False by blast
      have stale: "load t (data + of_nat (Suc ?e + length ys)) = load s (data + of_nat (start + length r))"
        using spec [OF t(4), of "start + length r"] less.prems(7) unfolding len by simp
      have "\<not> start + length r \<le> Suc ?e" using False len by simp
      then have "grep_lines U pat fname data (int (length p)) cnt (int (start + length r)) (int start) s = Some (int (length c), u)"
        using step nl t(1) u(1) by (simp only: tw if_True if_False bind.bind_lunit simp_thms len)
      moreover have "lines_done cnt (load s (data + of_nat (start + length r)) = 0x0A) start r (l # ls) c"
        using u(6) False 2 unfolding lines_done_def stale by (auto simp: lines_of_line)
      moreover have "displays (grep_text p nm (l # ls)) data 1025 s u" using displays_trans [OF t(2) u(2)] by (simp add: grep_text_def)
      ultimately show ?thesis using t(3) u(3-5) ld by (intro exI [of _ u] exI [of _ c] exI [of _ "l # ls"]) simp
    qed
  qed
qed

section \<open>The pieces of a file\<close>

text \<open>
  The state of the loop over the pieces: \<open>c\<close> is the part of a line in the buffer, and the descriptor is at \<open>pos\<close>.
  The byte behind the buffer is not a newline.
\<close>

definition grep_state :: "user_link \<Rightarrow> u32 \<Rightarrow> u32 \<Rightarrow> u32 \<Rightarrow> u8 list \<Rightarrow> u8 list \<Rightarrow> nat \<Rightarrow> u32 \<Rightarrow> nat \<Rightarrow> u8 list \<Rightarrow> 'a kernel_scheme \<Rightarrow> bool" where
  "grep_state U pat fname data p nm fd ino pos c s \<longleftrightarrow> world s \<and> grep_strings U pat fname data p nm s \<and> reads_file s fd ino pos \<and>
     read_bytes s data (length c) = c \<and> 0x0A \<notin> set c \<and> length c < 1024 \<and> load s (data + 1024) \<noteq> 0x0A"

lemma lines_bound:
  assumes "0x0A \<notin> set xs" "xs \<noteq> []" "\<forall>l \<in> set (lines_of (xs @ f)). length l < 1024"
  shows "length xs < 1024"
proof (cases rule: split_line [of f])
  case 1
  then have "lines_of (xs @ f) = [xs @ f]" using assms(1,2) by (intro lines_of_last) auto
  then show ?thesis using assms(3) by simp
next
  case (2 l ys)
  then have "lines_of (xs @ f) = (xs @ l) # lines_of ys" using assms(1) lines_of_line [of "xs @ l" ys] by simp
  then show ?thesis using assms(3) by simp
qed

lemma lines_of_append: "r \<noteq> [] \<Longrightarrow> List.last r = 0x0A \<Longrightarrow> lines_of (r @ f) = lines_of r @ lines_of f"
proof (induction "length r" arbitrary: r rule: less_induct)
  case less
  show ?case
  proof (cases rule: split_line [of r])
    case 1
    then show ?thesis using less.prems last_in_set by metis
  next
    case (2 l ys)
    then show ?thesis using less.hyps [of ys] less.prems by (cases "ys = []") (simp_all add: lines_of_line)
  qed
qed

lemma read_piece:
  fixes s :: "'a kernel_scheme"
  assumes "grep_state U pat fname data p nm fd ino pos c s" "in_user data 1025" "f = drop pos (file_of s ino)" "k = min (1024 - length c) (length f)"
  shows "\<exists>t. ece391_read U env (int fd) (data + of_int (int (length c))) (1024 - int (length c)) s = Some (int k, t) \<and>
    displays [] data 1025 s t \<and> read_bytes t data (length c + k) = c @ take k f \<and> reads_file t fd ino (pos + k) \<and>
    load t (data + 1024) \<noteq> 0x0A \<and> grep_strings U pat fname data p nm t \<and> file_of t ino = file_of s ino \<and> same_fds fd s t"
proof -
  let ?m = "1024 - length c" and ?a = "data + of_nat (length c)"
  have g: "world s" "reads_file s fd ino pos" "read_bytes s data (length c) = c" "length c < 1024" "load s (data + 1024) \<noteq> 0x0A"
    "grep_strings U pat fname data p nm s" using assms(1) by (simp_all add: grep_state_def)
  have a: "unat ?a = unat data + length c" by (rule unat_user [OF assms(2)]) (use g(4) in simp)
  have iu: "in_user ?a ?m" using a assms(2) g(4) by (simp add: in_user_def)
  have k: "k = min ?m (length (file_of s ino) - pos)" using assms(3,4) by simp
  have m: "0 < ?m" using g(4) by simp
  obtain t where t: "ece391_read U env (int fd) ?a (int ?m) s = Some (int k, t)" "displays [] ?a ?m s t"
      "read_bytes t ?a k = take ?m (drop pos (file_of s ino))" "reads_file t fd ino (pos + k)" "same_fds fd s t"
    using read_user_file [OF g(1,2) iu m k, of U env] by blast
  have d: "displays [] data 1025 s t" by (rule displays_wider [OF t(2)]) (use a g(4) in simp_all)
  have "read_bytes t data (length c) = c"
    using displays_field(2) [OF t(2), of data "length c"] g(3) a in_user_mono [OF assms(2), of "length c"] g(4) by (simp add: clear_of_def)
  moreover have "take ?m f = take k f" using assms(4) by (simp add: min_def)
  ultimately have "read_bytes t data (length c + k) = c @ take k f" using t(3) assms(3) by (simp add: read_bytes_add)
  moreover have "unat (data + of_nat 1024) = unat data + 1024" by (rule unat_user [OF assms(2)]) simp
  then have "load t (data + of_nat 1024) = load s (data + of_nat 1024)"
    using assms(2) a g(4) by (intro displays_load [OF t(2)]) (simp_all add: in_user_def)
  then have "load t (data + 1024) \<noteq> 0x0A" using g(5) by simp
  moreover have "file_of t ino = file_of s ino"
    using displays_same [OF d] g(2) by (intro same_world_file(2)) (simp_all add: reads_file_def)
  moreover have "int ?m = 1024 - int (length c)" "data + of_int (int (length c)) = ?a" using g(4) by (simp_all add: of_nat_diff)
  ultimately show ?thesis using t(1,4,5) d grep_strings_displays [OF d g(6)] by auto
qed

lemma reads_file_same:
  "reads_file s fd ino pos \<Longrightarrow> same_world s t \<Longrightarrow> fds_of t = fds_of s \<Longrightarrow> reads_file t fd ino pos"
proof -
  assume a: "reads_file s fd ino pos" "same_world s t" "fds_of t = fds_of s"
  then have f: "fds_of t fd = fds_of s fd" "file_ok s ino" by (simp_all add: reads_file_def)
  show ?thesis using a f same_world_file [OF a(2) f(2)] by (simp add: reads_file_def open_at_def)
qed

text \<open>What the lines in the buffer leave for the next pieces: together they are the lines of the file.\<close>

lemma piece_lines:
  assumes "lines_done cnt stale 0 r ls c'" "r \<noteq> []" "cnt \<noteq> 0" "length r \<le> 1024" "length r < 1024 \<longrightarrow> f' = []" "stale \<longrightarrow> length r < 1024"
    and "\<forall>l \<in> set (lines_of (r @ f')). length l < 1024"
  shows "lines_of (r @ f') = ls @ lines_of (c' @ f') \<and> 0x0A \<notin> set c' \<and> length c' < 1024 \<and> set c' \<subseteq> set r"
proof (cases "c' = []")
  case True
  then have ls: "ls = lines_of r" and alt: "List.last r = 0x0A \<or> stale \<or> 0x0A \<notin> set r" using assms(1-3) by (auto simp: lines_done_def)
  have "lines_of (r @ f') = lines_of r @ lines_of f'"
  proof (cases "f' = []")
    case False
    then have "length r = 1024" using assms(4,5) by linarith
    then have "List.last r = 0x0A" using alt assms(6) lines_bound [OF _ assms(2,7)] by fastforce
    then show ?thesis using lines_of_append assms(2) by blast
  qed simp
  then show ?thesis using True ls by simp
next
  case False
  then show ?thesis using assms(1) by (auto simp: lines_done_def)
qed

lemma grep_reads_displays:
  fixes s :: "'a kernel_scheme"
  assumes "grep_state U pat fname data p nm fd ino pos c s" "in_user data 1025" "length p < 2147483648" "2 \<le> fd"
    and "f = drop pos (file_of s ino)" "0 \<notin> set (c @ f)" "\<forall>l \<in> set (lines_of (c @ f)). length l < 1024"
  shows "\<exists>t. grep_reads U env pat fname data (int (length p)) (int fd) (int (length c)) s = Some (0, t) \<and>
    displays (grep_text p nm (lines_of (c @ f))) data 1025 s t \<and> in_use (fds_of t) = in_use (fds_of s) - {fd} \<and>
    (\<forall>j. j \<noteq> fd \<longrightarrow> fds_of t j = fds_of s j) \<and> load t (data + 1024) \<noteq> 0x0A"
  using assms
proof (induction "length f" arbitrary: pos c f s rule: less_induct)
  case less
  let ?k = "min (1024 - length c) (length f)"
  let ?r = "c @ take ?k f"
  have c: "0x0A \<notin> set c" "length c < 1024" using less.prems(1) by (simp_all add: grep_state_def)
  obtain t where t: "ece391_read U env (int fd) (data + of_int (int (length c))) (1024 - int (length c)) s = Some (int ?k, t)"
      "displays [] data 1025 s t" "read_bytes t data (length c + ?k) = ?r" "reads_file t fd ino (pos + ?k)"
      "load t (data + 1024) \<noteq> 0x0A" "grep_strings U pat fname data p nm t" "file_of t ino = file_of s ino" "same_fds fd s t"
    using read_piece [OF less.prems(1,2,5) refl, of env] by blast
  have lr: "length ?r = length c + ?k" "length ?r \<le> 1024" using c(2) by auto
  have rd: "read_bytes t (data + of_nat 0) (length ?r) = ?r" using t(3) lr by simp
  have nz: "0 \<notin> set ?r" using less.prems(6) by (auto dest: in_set_takeD)
  obtain u c' ls where u: "grep_lines U pat fname data (int (length p)) (int ?k) (int (length ?r)) 0 t = Some (int (length c'), u)"
      "displays (grep_text p nm ls) data 1025 t u" "fds_of u = fds_of t" "read_bytes u data (length c') = c'"
      "load u (data + 1024) = load t (data + 1024) \<or> load u (data + 1024) = 0"
      "lines_done (int ?k) (load t (data + of_nat (length ?r)) = 0x0A) 0 ?r ls c'"
    using grep_lines_displays [OF displays_world [OF t(2)] less.prems(2) t(6) less.prems(3) rd nz, of "int ?k"] lr(2) by auto
  have du: "displays (grep_text p nm ls) data 1025 s u" by (rule displays_two [OF t(2) u(2)])
  have ru: "reads_file u fd ino (pos + ?k)" by (rule reads_file_same [OF t(4) displays_same [OF u(2)] u(3)])
  have su: "same_fds fd s u" using t(8) u(3) by (simp add: same_fds_def)
  have sum: "int (length c) + int ?k = int (length ?r)" using lr by simp
  note step = grep_reads.simps [of U env pat fname data "int (length p)" "int fd" "int (length c)" s, unfolded t(1), simplified bind.bind_lunit prod.case sum u(1)]
  show ?case
  proof (cases "?k = 0")
    case True
    then have f: "f = []" using c(2) by (simp add: min_def split: if_splits)
    then have "ls = lines_of (c @ f)" using u(6) True by (auto simp: lines_done_def)
    moreover have fd: "fd < 8" "fd \<in> in_use (fds_of u)" using ru by (simp_all add: reads_file_def in_use_def)
    then obtain v where v: "ece391_close U (int fd) u = Some (0, v)" "displays [] 0 0 u v"
        "in_use (fds_of v) = in_use (fds_of u) - {fd}" "\<forall>j. j \<noteq> fd \<longrightarrow> fds_of v j = fds_of u j"
      using close_open [OF displays_world [OF du] less.prems(4) fd(1), of U 0 0] by auto
    moreover have "in_user (data + 1024) 1" using unat_user [OF less.prems(2), of 1024] less.prems(2) by (simp add: in_user_def)
    then have "load v (data + 1024) = load u (data + 1024)" by (rule displays_load [OF v(2)]) simp
    ultimately show ?thesis using step True displays_trans [OF du displays_mono [OF v(2)]] su f t(5) u(5) by (auto simp: same_fds_def)
  next
    case False
    let ?f = "drop ?k f"
    have f: "c @ f = ?r @ ?f" by simp
    have ne: "?r \<noteq> []" using False by auto
    have st: "load t (data + of_nat (length ?r)) = 0x0A \<longrightarrow> length ?r < 1024" using t(5) lr(2) by (cases "length ?r = 1024") auto
    have cut: "length ?r < 1024 \<longrightarrow> ?f = []" using lr by auto
    note pl = piece_lines [OF u(6) ne _ lr(2) cut st less.prems(7) [unfolded f]]
    then have l: "lines_of (c @ f) = ls @ lines_of (c' @ ?f)" "0x0A \<notin> set c'" "length c' < 1024" "set c' \<subseteq> set ?r"
      using False unfolding f by simp_all
    have "grep_state U pat fname data p nm fd ino (pos + ?k) c' u"
      using displays_world [OF du] grep_strings_displays [OF u(2) t(6)] ru u(4,5) l(2,3) t(5) by (auto simp: grep_state_def)
    moreover have "file_of u ino = file_of s ino"
      using displays_same [OF u(2)] t(4,7) same_world_file(2) [of t u ino] by (simp add: reads_file_def)
    then have "?f = drop (pos + ?k) (file_of u ino)" using less.prems(5) by (simp add: add.commute)
    moreover have "0 \<notin> set (c' @ ?f)" using l(4) nz less.prems(6) by (auto dest: in_set_dropD)
    moreover have "\<forall>l \<in> set (lines_of (c' @ ?f)). length l < 1024" using less.prems(7) l(1) by simp
    moreover have "length ?f < length f" using False by auto
    ultimately obtain v where v: "grep_reads U env pat fname data (int (length p)) (int fd) (int (length c')) u = Some (0, v)"
        "displays (grep_text p nm (lines_of (c' @ ?f))) data 1025 u v" "in_use (fds_of v) = in_use (fds_of u) - {fd}"
        "\<forall>j. j \<noteq> fd \<longrightarrow> fds_of v j = fds_of u j" "load v (data + 1024) \<noteq> 0x0A"
      using less.hyps [of ?f "pos + ?k" c' u] less.prems(2-4) by blast
    have "displays (grep_text p nm (lines_of (c @ f))) data 1025 s v"
      using displays_trans [OF du v(2)] l(1) by (simp add: grep_text_def)
    then show ?thesis using step False v su by (simp add: same_fds_def)
  qed
qed

end
