(* ===== verification/User_Grep_All.thy ===== *)
theory User_Grep_All
  imports User_Grep
begin

text \<open>
  \<^verbatim>\<open>grep\<close> over the whole directory: every file that is not hidden, in the order of the directory. The
  directory also holds the real-time clock, which reads as an empty file after its next tick.
\<close>

section \<open>The clock as a file\<close>

lemma open_rtc_user:
  fixes s :: "'a kernel_scheme"
  assumes "world s"
  shows "displays [] a n s (snd (open_rtc dev s))" "fds_of (snd (open_rtc dev s)) = fds_of s"
  using quiet_user [OF assms open_rtc_same, of dev]
  by (simp_all add: cursor_of_def open_rtc_def init_rtc_def enable_irq_def Let_def cli_and_save_def cli_def restore_flags_def inb_def outb_def case_prod_beta)

lemma open_user_rtc:
  fixes s :: "'a kernel_scheme"
  assumes "world s" "in_user a 1" "lookup s (field_text s a 32) = Some d" "filetype d = 0" "fd_free s"
  shows "\<exists>i t. ece391_open U a s = Some (int i, t) \<and> 2 \<le> i \<and> i < 8 \<and> i \<notin> in_use (fds_of s) \<and> displays [] b n s t \<and>
    fds_of t = (fds_of s)(i := opened d s)"
proof -
  obtain i where i: "free_fd_from 6 2 (fds_of s) = i" "2 \<le> i" "i < 8" "i \<notin> in_use (fds_of s)"
    by (rule free_fd [of "fds_of s"]) (use assms(5) in \<open>auto simp: fd_free_def\<close>)
  let ?t = "upd_fd (current_pcb s) i (\<lambda>_. opened d s) s"
  have rd: "read_dentry_by_name a s = (SUCCESS, Some d)" using assms(3) by (simp add: lookup_name)
  have op: "sys_open (ul_dev U) a s = Some (int i, snd (open_rtc (ul_dev U) ?t))"
    using sys_open_found [OF in_user_pointer [OF assms(2)] rd _ i(1)] i(3) assms(4) by (simp add: fops_of_def o_func_def)
  have "fds_ok ((fds_of s)(i := opened d s))"
    using fds_ok_upd [OF world_fds [OF assms(1)], of "opened d s" i] i(2) by (simp add: opened_def)
  note u = upd_user [OF assms(1), of i "\<lambda>_. opened d s", OF this]
  note o = open_rtc_user [OF displays_world [OF u(1) [of b n]], where dev = "ul_dev U"]
  show ?thesis using op i(2-4) displays_two [OF u(1) o(1) [of b n]] o(2) u(2) by (auto simp: user_calls [of 0 0])
qed

text \<open>The environment always lets the clock tick, and meanwhile nothing happens to the program.\<close>

definition ticks :: "'a waiting \<Rightarrow> bool" where
  "ticks env \<longleftrightarrow> (\<forall>s. world s \<longrightarrow> (\<exists>w. spin env (\<lambda>s. rtc_flag s \<noteq> 0) 0 (s\<lparr>rtc_flag := 1\<rparr>) = Some w \<and>
     displays [] 0 0 s w \<and> fds_of w = fds_of s))"

lemma read_user_rtc:
  fixes s :: "'a kernel_scheme"
  assumes "world s" "ticks env" "fd < 8" "fd_flags (fds_of s fd) = 1" "fops_jmp_table (fds_of s fd) = Some rtc_table" "in_user buf 1"
    and "0 \<le> n" "n < 2147483648"
  shows "\<exists>t. ece391_read U env (int fd) buf n s = Some (0, t) \<and> displays [] 0 0 s t \<and> fds_of t = fds_of s"
proof -
  obtain w where w: "spin env (\<lambda>s. rtc_flag s \<noteq> 0) 0 (s\<lparr>rtc_flag := 1\<rparr>) = Some w" "displays [] 0 0 s w" "fds_of w = fds_of s"
    using assms(1,2) unfolding ticks_def by blast
  have "ece391_read U env (int fd) buf n s = read_rtc env (int fd) buf n s"
    using assms(3-8) in_user_pointer [OF assms(6)] by (simp add: user_calls sys_read_def Let_def r_func_def)
  then show ?thesis using w by (simp add: read_rtc_def)
qed

section \<open>One entry\<close>

definition text_file :: "'a kernel_scheme \<Rightarrow> u32 \<Rightarrow> bool" where
  "text_file s ino \<longleftrightarrow> file_ok s ino \<and> 0 \<notin> set (file_of s ino) \<and> (\<forall>l \<in> set (lines_of (file_of s ino)). length l < 1024)"

lemma grep_clock:
  fixes s :: "'a kernel_scheme"
  assumes "world s" "in_user data 1025" "grep_strings U pat fname data p nm s" "length p < 2147483648" "ticks env"
    and "2 \<le> i" "i < 8" "fd_flags (fds_of s i) = 1" "fops_jmp_table (fds_of s i) = Some rtc_table" "load s (data + 1024) \<noteq> 0x0A"
  shows "\<exists>t. grep_reads U env pat fname data (int (length p)) (int i) 0 s = Some (0, t) \<and> displays [] data 1025 s t \<and>
    in_use (fds_of t) = in_use (fds_of s) - {i} \<and> (\<forall>j. j \<noteq> i \<longrightarrow> fds_of t j = fds_of s j) \<and> load t (data + 1024) \<noteq> 0x0A"
proof -
  have b: "in_user data 1" by (rule in_user_mono [OF assms(2)]) simp
  have iu: "in_user (data + 1024) 1" using unat_user [OF assms(2), of 1024] assms(2) by (simp add: in_user_def)
  obtain u where u: "ece391_read U env (int i) data 1024 s = Some (0, u)" "displays [] 0 0 s u" "fds_of u = fds_of s"
    using read_user_rtc [OF assms(1,5,7-9) b, of 1024 U] by auto
  have lu: "load u (data + 1024) \<noteq> 0x0A" using displays_load [OF u(2) iu] assms(10) by simp
  obtain v c ls where v: "grep_lines U pat fname data (int (length p)) 0 0 0 u = Some (int (length c), v)"
      "displays (grep_text p nm ls) data 1025 u v" "fds_of v = fds_of u"
      "load v (data + 1024) = load u (data + 1024) \<or> load v (data + 1024) = 0" "lines_done 0 (load u data = 0x0A) 0 [] ls c"
    using grep_lines_displays [OF displays_world [OF u(2)] assms(2) grep_strings_displays [OF displays_mono [OF u(2)] assms(3)] assms(4), of 0 "[]" 0]
    by auto
  have ls: "ls = []" "c = []" using v(5) by (auto simp: lines_done_def)
  have uv: "displays [] data 1025 s v" using displays_two [OF displays_mono [OF u(2)] v(2)] ls by (simp add: grep_text_def)
  have "i \<in> in_use (fds_of v)" using assms(7,8) u(3) v(3) by (simp add: in_use_def)
  then obtain x where x: "ece391_close U (int i) v = Some (0, x)" "displays [] 0 0 v x"
      "in_use (fds_of x) = in_use (fds_of v) - {i}" "\<forall>j. j \<noteq> i \<longrightarrow> fds_of x j = fds_of v j"
    using close_open [OF displays_world [OF uv] assms(6,7), of U 0 0] by auto
  have "load x (data + 1024) \<noteq> 0x0A" using displays_load [OF x(2) iu] v(4) lu by auto
  then show ?thesis
    using u(1,3) v(1,3) x ls displays_trans [OF uv displays_mono [OF x(2)]] by (subst grep_reads.simps) simp
qed

lemma do_one_file_displays:
  fixes s :: "'a kernel_scheme"
  assumes "world s" "in_user data 1025" "grep_strings U pat fname data p nm s" "length p < 2147483648" "length nm \<le> 32" "fd_free s"
    and "lookup s nm = Some d" "filetype d = 2 \<and> text_file s (inode d) \<or> filetype d = 0" "ticks env" "load s (data + 1024) \<noteq> 0x0A"
  shows "\<exists>t. do_one_file U env data pat fname s = Some (0, t) \<and>
    displays (if filetype d = 2 then grep_text p nm (lines_of (file_of s (inode d))) else []) data 1025 s t \<and>
    in_use (fds_of t) = in_use (fds_of s) \<and> (\<forall>j \<in> in_use (fds_of s). fds_of t j = fds_of s j) \<and> load t (data + 1024) \<noteq> 0x0A"
proof -
  have g: "cstr s pat p" "cstr s fname nm" "in_user fname 1" using assms(3) by (simp_all add: grep_strings_def in_user_def)
  have "field_text s fname 32 = nm" using cstr_field_text [OF g(2), of 32] assms(5) by simp
  then have lk: "lookup s (field_text s fname 32) = Some d" using assms(7) by simp
  have "\<exists>i t. ece391_open U fname s = Some (int i, t) \<and> 2 \<le> i \<and> i < 8 \<and> i \<notin> in_use (fds_of s) \<and> displays [] 0 0 s t \<and>
      fds_of t = (fds_of s)(i := opened d s)"
    using open_user [OF assms(1) g(3) lk _ assms(6)] open_user_rtc [OF assms(1) g(3) lk _ assms(6)] assms(8) by auto
  then obtain i t where t: "ece391_open U fname s = Some (int i, t)" "2 \<le> i" "i < 8" "i \<notin> in_use (fds_of s)" "displays [] 0 0 s t"
      "fds_of t = (fds_of s)(i := opened d s)" by blast
  have wt: "world t" by (rule displays_world [OF t(5)])
  have gt: "grep_strings U pat fname data p nm t" by (rule grep_strings_displays [OF displays_mono [OF t(5)] assms(3)])
  have iu: "in_user (data + 1024) 1" using unat_user [OF assms(2), of 1024] assms(2) by (simp add: in_user_def)
  have lt: "load t (data + 1024) \<noteq> 0x0A" using displays_load [OF t(5) iu] assms(10) by simp
  have use: "in_use (fds_of t) = insert i (in_use (fds_of s))" using t(3,6) by (simp add: in_use_upd opened_def)
  have len: "sint (of_nat (length p) :: u32) = int (length p)" using sint_u32 [of "int (length p)"] assms(4) by simp
  have run: "do_one_file U env data pat fname s = grep_reads U env pat fname data (int (length p)) (int i) 0 t"
    using ece391_strlen_cstr [OF g(1)] t(1) len by (simp add: do_one_file_def)
  have "\<exists>u. grep_reads U env pat fname data (int (length p)) (int i) 0 t = Some (0, u) \<and>
    displays (if filetype d = 2 then grep_text p nm (lines_of (file_of s (inode d))) else []) data 1025 t u \<and>
    in_use (fds_of u) = in_use (fds_of t) - {i} \<and> (\<forall>j. j \<noteq> i \<longrightarrow> fds_of u j = fds_of t j) \<and> load u (data + 1024) \<noteq> 0x0A"
  proof (cases "filetype d = 2")
    case True
    then have tf: "file_ok s (inode d)" "0 \<notin> set (file_of s (inode d))" "\<forall>l \<in> set (lines_of (file_of s (inode d))). length l < 1024"
      using assms(8) by (simp_all add: text_file_def)
    have "reads_file t i (inode d) 0"
      by (rule opened_file [OF displays_same [OF t(5)] _ True t(3) tf(1)]) (simp only: t(6) fun_upd_same)
    then have "grep_state U pat fname data p nm i (inode d) 0 [] t" using wt gt lt by (simp add: grep_state_def)
    moreover have "file_of t (inode d) = file_of s (inode d)" by (rule same_world_file(2) [OF displays_same [OF t(5)] tf(1)])
    ultimately show ?thesis using grep_reads_displays [of U pat fname data p nm i "inode d" 0 "[]" t "file_of s (inode d)" env] assms(2,4) t(2) tf True by simp
  next
    case False
    then have f: "fd_flags (fds_of t i) = 1" "fops_jmp_table (fds_of t i) = Some rtc_table"
      using assms(8) unfolding t(6) by (simp_all add: opened_def fops_of_def)
    show ?thesis using grep_clock [OF wt assms(2) gt assms(4,9) t(2,3) f lt] False by simp
  qed
  then obtain u where u: "grep_reads U env pat fname data (int (length p)) (int i) 0 t = Some (0, u)"
    "displays (if filetype d = 2 then grep_text p nm (lines_of (file_of s (inode d))) else []) data 1025 t u"
    "in_use (fds_of u) = in_use (fds_of t) - {i}" "\<forall>j. j \<noteq> i \<longrightarrow> fds_of u j = fds_of t j" "load u (data + 1024) \<noteq> 0x0A" by blast
  have "in_use (fds_of u) = in_use (fds_of s)" using u(3) use t(4) by simp
  moreover have "\<forall>j \<in> in_use (fds_of s). fds_of u j = fds_of s j" using u(4) t(4) unfolding t(6) by (auto simp: fun_upd_def)
  ultimately show ?thesis using run u(1,5) displays_two [OF displays_mono [OF t(5)] u(2)] by auto
qed

section \<open>The directory\<close>

text \<open>What is shown of an entry, and of the directory up to an entry without a name.\<close>

definition grep_entry :: "'a kernel_scheme \<Rightarrow> u8 list \<Rightarrow> dentry \<Rightarrow> u8 list" where
  "grep_entry s p d = (if hd (dentry_name d) = 0x2E then [] else
     case lookup s (dentry_name d) of None \<Rightarrow> []
     | Some e \<Rightarrow> if filetype e = 2 then grep_text p (dentry_name d) (lines_of (file_of s (inode e))) else [])"

definition grep_result :: "'a kernel_scheme \<Rightarrow> u8 list \<Rightarrow> dentry list \<Rightarrow> u8 list" where
  "grep_result s p ds = concat (map (grep_entry s p) (takeWhile (\<lambda>d. dentry_name d \<noteq> []) ds))"

text \<open>The names that are not hidden lead to text files or to the clock.\<close>

definition searchable :: "'a kernel_scheme \<Rightarrow> bool" where
  "searchable s \<longleftrightarrow> (\<forall>d \<in> set (directory s). \<forall>e. hd (dentry_name d) \<noteq> 0x2E \<longrightarrow> lookup s (dentry_name d) = Some e \<longrightarrow>
     filetype e = 2 \<and> text_file s (inode e) \<or> filetype e = 0)"

text \<open>The variables of \<^verbatim>\<open>grep\<close>, in an area of its stack.\<close>

definition grep_frame :: "u32 \<Rightarrow> nat \<Rightarrow> u32 \<Rightarrow> u32 \<Rightarrow> u32 \<Rightarrow> bool" where
  "grep_frame lo n buf search data \<longleftrightarrow> in_user lo n \<and> in_user buf 33 \<and> in_user search 1024 \<and> in_user data 1025 \<and>
     clear_of buf 33 search 1024 \<and> clear_of data 1025 search 1024 \<and> clear_of data 1025 buf 33 \<and>
     unat lo \<le> unat buf \<and> unat buf + 33 \<le> unat lo + n \<and> unat lo \<le> unat search \<and> unat search + 1024 \<le> unat lo + n \<and>
     unat lo \<le> unat data \<and> unat data + 1025 \<le> unat lo + n"

definition grep_ready :: "user_link \<Rightarrow> u32 \<Rightarrow> nat \<Rightarrow> u32 \<Rightarrow> u32 \<Rightarrow> u8 list \<Rightarrow> 'a kernel_scheme \<Rightarrow> bool" where
  "grep_ready U lo n search data p s \<longleftrightarrow> world s \<and> fd_free s \<and> searchable s \<and> cstr s search p \<and>
     lit_ok U lo n s '':'' \<and> lit_ok U lo n s ''\<newline>'' \<and> load s (data + 1024) \<noteq> 0x0A"

lemma lookup_entry: "d \<in> set (directory s) \<Longrightarrow> \<exists>e. lookup s (dentry_name d) = Some e \<and> e \<in> set (directory s)"
  unfolding lookup_def by (cases "find (\<lambda>e. dentry_name e = dentry_name d) (directory s)") (auto simp: find_None_iff find_Some_iff)

lemma same_directory: "same_world s t \<Longrightarrow> world s \<Longrightarrow> directory t = directory s"
  by (intro same_image_directory) (simp_all add: same_world_def world_def)

lemma text_file_same:
  assumes "same_world s t" "text_file s ino"
  shows "text_file t ino" "file_of t ino = file_of s ino"
  using assms same_world_file [OF assms(1), of ino] by (simp_all add: text_file_def)

lemma searchable_same: "same_world s t \<Longrightarrow> world s \<Longrightarrow> searchable s \<Longrightarrow> searchable t"
  unfolding searchable_def using text_file_same(1) [of s t] by (auto simp: same_directory lookup_same)

lemma grep_entry_same:
  assumes "same_world s t" "world s" "searchable s" "d \<in> set (directory s)"
  shows "grep_entry t p d = grep_entry s p d"
proof (cases "hd (dentry_name d) = 0x2E")
  case False
  obtain e where e: "lookup s (dentry_name d) = Some e" using lookup_entry [OF assms(4)] by blast
  then have "filetype e = 2 \<and> text_file s (inode e) \<or> filetype e = 0" using assms(3,4) False unfolding searchable_def by blast
  then show ?thesis using e lookup_same [OF assms(1,2)] text_file_same(2) [OF assms(1), of "inode e"] by (auto simp: grep_entry_def)
qed (simp add: grep_entry_def)

lemma grep_result_same:
  assumes "same_world s t" "world s" "searchable s" "set ds \<subseteq> set (directory s)"
  shows "grep_result t p ds = grep_result s p ds"
proof -
  have "grep_entry t p d = grep_entry s p d" if "d \<in> set (takeWhile (\<lambda>d. dentry_name d \<noteq> []) ds)" for d
    using set_takeWhileD [OF that] assms by (intro grep_entry_same) auto
  then have "map (grep_entry t p) (takeWhile (\<lambda>d. dentry_name d \<noteq> []) ds) = map (grep_entry s p) (takeWhile (\<lambda>d. dentry_name d \<noteq> []) ds)"
    by (intro map_cong [OF refl])
  then show ?thesis by (simp only: grep_result_def)
qed

lemma lit_narrow: "lit_ok U lo n s w \<Longrightarrow> unat lo \<le> unat a \<Longrightarrow> unat a + m \<le> unat lo + n \<Longrightarrow> 0 < m \<Longrightarrow> lit_ok U a m s w"
  by (auto simp: lit_ok_def clear_of_def)

lemma grep_entry_displays:
  fixes s :: "'a kernel_scheme"
  assumes "grep_ready U lo n search data p s" "grep_frame lo n buf search data" "length p < 1024" "ticks env"
    and "d \<in> set (directory s)" "hd (dentry_name d) \<noteq> 0x2E" "cstr s buf (dentry_name d)" "length (dentry_name d) \<le> 32"
  shows "\<exists>t. do_one_file U env data search buf s = Some (0, t) \<and> displays (grep_entry s p d) data 1025 s t \<and>
    in_use (fds_of t) = in_use (fds_of s) \<and> (\<forall>j \<in> in_use (fds_of s). fds_of t j = fds_of s j) \<and> load t (data + 1024) \<noteq> 0x0A"
proof -
  let ?nm = "dentry_name d"
  have r: "world s" "fd_free s" "searchable s" "cstr s search p" "lit_ok U lo n s '':''" "lit_ok U lo n s ''\<newline>''" "load s (data + 1024) \<noteq> 0x0A"
    using assms(1) by (simp_all add: grep_ready_def)
  have f: "in_user buf 33" "in_user search 1024" "in_user data 1025" "clear_of data 1025 search 1024" "clear_of data 1025 buf 33"
    "unat lo \<le> unat data" "unat data + 1025 \<le> unat lo + n" using assms(2) by (simp_all add: grep_frame_def)
  have "in_user search (Suc (length p))" "in_user buf (Suc (length ?nm))" using assms(3,8) in_user_mono [OF f(2)] in_user_mono [OF f(1)] by simp_all
  moreover have "clear_of data 1025 search (Suc (length p))" "clear_of data 1025 buf (Suc (length ?nm))"
    using f(4,5) assms(3,8) unfolding clear_of_def by linarith+
  moreover have "lit_ok U data 1025 s '':''" "lit_ok U data 1025 s ''\<newline>''" using lit_narrow [OF _ f(6,7)] r(5,6) by simp_all
  ultimately have gs: "grep_strings U search buf data p ?nm s" using r(4) assms(7) by (simp add: grep_strings_def)
  obtain e where e: "lookup s ?nm = Some e" using lookup_entry [OF assms(5)] by blast
  have ft: "filetype e = 2 \<and> text_file s (inode e) \<or> filetype e = 0" using r(3) assms(5,6) e unfolding searchable_def by blast
  have "grep_entry s p d = (if filetype e = 2 then grep_text p ?nm (lines_of (file_of s (inode e))) else [])"
    using e assms(6) by (simp add: grep_entry_def)
  then show ?thesis using do_one_file_displays [OF r(1) f(3) gs _ assms(8) r(2) e ft assms(4) r(7)] assms(3) by simp
qed

lemma grep_ready_displays:
  assumes "grep_ready U lo n search data p s" "displays bs a m s t" "clear_of a m search 1024" "length p < 1024" "in_user search 1024"
    and "unat lo \<le> unat a" "unat a + m \<le> unat lo + n" "in_use (fds_of t) = in_use (fds_of s)" "load t (data + 1024) \<noteq> 0x0A"
  shows "grep_ready U lo n search data p t"
proof -
  have d: "displays bs lo n s t" by (rule displays_wider [OF assms(2,6,7)])
  have "in_user search (Suc (length p))" by (rule in_user_mono [OF assms(5)]) (use assms(4) in simp)
  moreover have "clear_of a m search (Suc (length p))" using assms(3,4) unfolding clear_of_def by linarith
  ultimately have "cstr t search p" using displays_cstr [OF assms(2)] assms(1) by (simp add: grep_ready_def)
  then show ?thesis
    using assms(1,8,9) displays_world [OF d] searchable_same [OF displays_same [OF d]] lit_displays [OF d]
    by (simp add: grep_ready_def fd_free_def)
qed

lemma reads_dir_same:
  "reads_dir s fd k \<Longrightarrow> same_world s t \<Longrightarrow> world s \<Longrightarrow> fds_of t fd = fds_of s fd \<Longrightarrow> reads_dir t fd k"
  by (simp add: reads_dir_def same_directory)

text \<open>One round of the loop, for an entry with a name.\<close>

lemma grep_round:
  fixes s :: "'a kernel_scheme"
  assumes "grep_ready U lo n search data p s" "grep_frame lo n buf search data" "length p < 1024" "ticks env"
    and "reads_dir s fd k" "k < length (directory s)" "d = directory s ! k" "dentry_name d \<noteq> []"
  shows "\<exists>t. grep_loop U env (int fd) buf search data s = grep_loop U env (int fd) buf search data t \<and>
    displays (grep_entry s p d) lo n s t \<and> grep_ready U lo n search data p t \<and> reads_dir t fd (Suc k)"
proof -
  let ?w = "dentry_name d"
  have f: "in_user buf 33" "in_user search 1024" "in_user data 1025" "clear_of buf 33 search 1024" "clear_of data 1025 search 1024"
    "clear_of data 1025 buf 33" "unat lo \<le> unat buf" "unat buf + 33 \<le> unat lo + n" "unat lo \<le> unat data" "unat data + 1025 \<le> unat lo + n"
    using assms(2) by (simp_all add: grep_frame_def)
  have w: "world s" "searchable s" "load s (data + 1024) \<noteq> 0x0A" using assms(1) by (simp_all add: grep_ready_def)
  have iu: "in_user (data + of_nat 1024) 1" using unat_user [OF f(3), of 1024] f(3) by (simp add: in_user_def)
  have behind: "load y (data + 1024) = load x (data + 1024)" if "displays bs buf 33 x y" for bs and x y :: "'a kernel_scheme"
    using displays_load_nth [OF that f(3), of 1024] f(6) by (simp add: clear_of_def disj_commute)
  obtain t where t: "ece391_read U env (int fd) buf 32 s = Some (int (length ?w), t)" "displays [] buf 32 s t"
      "read_bytes t buf (length ?w) = ?w" "reads_dir t fd (Suc k)" "length ?w \<le> 32" "0 \<notin> set ?w" "same_fds fd s t"
    using read_user_dir [OF w(1) assms(5) in_user_mono [OF f(1)] assms(6), of ?w U env] assms(7) by auto
  have t33: "displays [] buf 33 s t" by (rule displays_wider [OF t(2)]) simp_all
  have rt: "grep_ready U lo n search data p t"
    by (rule grep_ready_displays [OF assms(1) t33 f(4) assms(3) f(2,7,8)]) (use t(7) behind [OF t33] w(3) in \<open>simp_all add: same_fds_def\<close>)
  have "read_bytes t buf (length ?w) ! 0 = hd ?w" using t(3) assms(8) by (simp add: hd_conv_nth)
  then have h: "load t buf = hd ?w" using assms(8) by simp
  show ?thesis
  proof (cases "hd ?w = 0x2E")
    case True
    then have "grep_loop U env (int fd) buf search data s = grep_loop U env (int fd) buf search data t"
      using t(1) h assms(8) by (subst grep_loop.simps) simp
    then show ?thesis using rt t(4) True displays_wider [OF t33 f(7,8)] by (auto simp: grep_entry_def)
  next
    case False
    define u where "u = store (buf + of_nat (length ?w)) 0 t"
    have u: "displays [] buf 33 t u" "cstr u buf ?w"
      using terminate_user [OF displays_world [OF t33] f(1) _ t(3,6)] t(5) by (simp_all add: u_def)
    note su = displays_two [OF t33 u(1)]
    have fu: "fds_of u = fds_of t" by (simp add: u_def)
    have ru: "grep_ready U lo n search data p u"
      by (rule grep_ready_displays [OF rt u(1) f(4) assms(3) f(2,7,8)]) (use fu behind [OF su] w(3) in simp_all)
    have d: "d \<in> set (directory u)" using same_directory [OF displays_same [OF su] w(1)] assms(6,7) by simp
    obtain v where v: "do_one_file U env data search buf u = Some (0, v)" "displays (grep_entry u p d) data 1025 u v"
        "in_use (fds_of v) = in_use (fds_of u)" "\<forall>j \<in> in_use (fds_of u). fds_of v j = fds_of u j" "load v (data + 1024) \<noteq> 0x0A"
      using grep_entry_displays [OF ru assms(2-4) d False u(2) t(5)] by blast
    have "fd \<in> in_use (fds_of u)" using t(4) fu by (simp add: reads_dir_def in_use_def)
    then have fv: "fds_of v fd = fds_of t fd" using v(4) fu by simp
    have "same_world t v" by (rule same_world_trans [OF displays_same [OF u(1)] displays_same [OF v(2)]])
    then have "reads_dir v fd (Suc k)" by (rule reads_dir_same [OF t(4) _ displays_world [OF t33] fv])
    moreover have "grep_ready U lo n search data p v" by (rule grep_ready_displays [OF ru v(2) f(5) assms(3) f(2,9,10) v(3,5)])
    moreover have "grep_entry u p d = grep_entry s p d"
      using grep_entry_same [OF displays_same [OF su] w(1,2)] assms(6,7) by simp
    then have "displays (grep_entry s p d) lo n s v" using displays_two [OF displays_wider [OF su f(7,8)] displays_wider [OF v(2) f(9,10)]] by simp
    moreover have "grep_loop U env (int fd) buf search data s = grep_loop U env (int fd) buf search data v"
      using t(1) h assms(8) False v(1) by (subst grep_loop.simps) (simp add: u_def)
    ultimately show ?thesis by blast
  qed
qed

lemma grep_loop_displays:
  fixes s :: "'a kernel_scheme"
  assumes "grep_ready U lo n search data p s" "grep_frame lo n buf search data" "length p < 1024" "ticks env" "reads_dir s fd k"
  shows "\<exists>t. grep_loop U env (int fd) buf search data s = Some (0, t) \<and> displays (grep_result s p (drop k (directory s))) lo n s t"
  using assms
proof (induction "length (directory s) - k" arbitrary: s k rule: less_induct)
  case less
  have b: "in_user buf 32" "unat lo \<le> unat buf" "unat buf + 32 \<le> unat lo + n"
    using less.prems(2) in_user_mono [of buf 33 32] by (simp_all add: grep_frame_def)
  have w: "world s" "searchable s" using less.prems(1) by (simp_all add: grep_ready_def)
  show ?case
  proof (cases "k = length (directory s)")
    case True
    then show ?thesis using read_user_dir_end [OF _ b(1), of s fd U env] less.prems(5) w(1)
      by (subst grep_loop.simps) (simp add: grep_result_def displays_refl)
  next
    case False
    then have k: "k < length (directory s)" using less.prems(5) by (simp add: reads_dir_def)
    have dk: "drop k (directory s) = directory s ! k # drop (Suc k) (directory s)" using k by (simp add: Cons_nth_drop_Suc)
    show ?thesis
    proof (cases "dentry_name (directory s ! k) = []")
      case True
      obtain t where "ece391_read U env (int fd) buf 32 s = Some (0, t)" "displays [] buf 32 s t"
        using read_user_dir [OF w(1) less.prems(5) b(1) k, of "[]" U env] True by auto
      then show ?thesis using True displays_wider [OF _ b(2,3)] by (subst grep_loop.simps) (simp add: dk grep_result_def)
    next
      case False
      obtain t where t: "grep_loop U env (int fd) buf search data s = grep_loop U env (int fd) buf search data t"
          "displays (grep_entry s p (directory s ! k)) lo n s t" "grep_ready U lo n search data p t" "reads_dir t fd (Suc k)"
        using grep_round [OF less.prems(1-5) k refl False] by blast
      have dir: "directory t = directory s" by (rule same_directory [OF displays_same [OF t(2)] w(1)])
      then have "length (directory t) - Suc k < length (directory s) - k" using k by simp
      then obtain u where u: "grep_loop U env (int fd) buf search data t = Some (0, u)"
          "displays (grep_result t p (drop (Suc k) (directory t))) lo n t u"
        using less.hyps [OF _ t(3) less.prems(2-4) t(4)] by blast
      have "grep_result t p (drop (Suc k) (directory t)) = grep_result s p (drop (Suc k) (directory s))"
        unfolding dir by (rule grep_result_same [OF displays_same [OF t(2)] w set_drop_subset])
      then show ?thesis using t(1) u displays_trans [OF t(2) u(2)] dk False by (simp add: grep_result_def)
    qed
  qed
qed


text \<open>The small kernel with a text in its file.\<close>

definition grep_lits :: "string list" where
  "grep_lits = [''.'', '':'', ''\<newline>'']"

definition demo_text :: "u8 list" where
  "demo_text = bytes_of ''alphas\<newline>beta hi\<newline>gamma\<newline>hi delta\<newline>''"

definition text_demo :: kernel where
  "text_demo = write_bytes 0x502000 demo_text (user_demo grep_lits)"

lemma grep_lits_ok: "length grep_lits \<le> 100" "list_all short_text grep_lits" "length demo_text = 30"
  by code_simp+

lemma user_demo_image: "same_image flat_demo (user_demo grep_lits)"
  using displays_same [OF user_demo_from [OF grep_lits_ok(1,2)]] started_image
  by (auto simp: same_world_def intro: same_image_trans)

lemma text_demo_load:
  "unat a < 0x502000 \<or> 0x50201E \<le> unat a \<Longrightarrow> load text_demo a = load (user_demo grep_lits) a"
  unfolding text_demo_def
proof (rule load_write_other)
  fix j assume "unat a < 0x502000 \<or> 0x50201E \<le> unat a" "j < length demo_text"
  then have "unat (0x502000 + of_nat j :: u32) = 0x502000 + j" "j < 30"
    using u32_add_less_iff [of "0x502000" 30 j] grep_lits_ok(3) by simp_all
  then have "0x502000 + of_nat j \<noteq> a" using \<open>_ \<or> _\<close> by auto
  then show "xlat (user_demo grep_lits) (0x502000 + of_nat j) \<noteq> xlat (user_demo grep_lits) a"
    using user_demo_facts(7) [OF grep_lits_ok(1,2)] by simp
qed

lemma text_demo_sel:
  "xlat text_demo = (\<lambda>a. a)" "bootblock text_demo = 0x500000" "inodes text_demo = 0x501000" "datablocks text_demo = 0x502000"
  "machine.more text_demo = machine.more (user_demo grep_lits)"
proof -
  note i = user_demo_image [unfolded same_image_def]
  show m: "machine.more text_demo = machine.more (user_demo grep_lits)" by (simp add: text_demo_def)
  show "xlat text_demo = (\<lambda>a. a)" using user_demo_facts(7) [OF grep_lits_ok(1,2)] by (simp add: text_demo_def)
  have "bootblock text_demo = bootblock (user_demo grep_lits)" "inodes text_demo = inodes (user_demo grep_lits)"
    "datablocks text_demo = datablocks (user_demo grep_lits)" by (simp_all add: text_demo_def)
  then show "bootblock text_demo = 0x500000" "inodes text_demo = 0x501000" "datablocks text_demo = 0x502000" using i by simp_all
qed

lemma text_demo_load32: "unat a + 4 \<le> 0x502000 \<Longrightarrow> load32 text_demo a = load32 (user_demo grep_lits) a"
proof -
  assume a: "unat a + 4 \<le> 0x502000"
  have "unat (a + of_nat i) < 0x502000" if "i < 4" for i using u32_add_less_iff [of a 4 i] a that by simp
  from this [of 0] this [of 1] this [of 2] this [of 3] show ?thesis by (simp add: load32_def text_demo_load)
qed

lemma text_demo_dentry: "unat a + 64 \<le> 0x502000 \<Longrightarrow> load_dentry text_demo a = load_dentry (user_demo grep_lits) a"
proof -
  assume a: "unat a + 64 \<le> 0x502000"
  have u: "unat (a + of_nat i) = unat a + i" if "i < 64" for i using u32_add_less_iff [of a 64 i] a that by simp
  have ld: "load text_demo (a + of_nat i) = load (user_demo grep_lits) (a + of_nat i)" if "i < 64" for i
    using u [OF that] a that by (intro text_demo_load) simp
  have "read_bytes text_demo a 32 = read_bytes (user_demo grep_lits) a 32"
    by (rule nth_equalityI) (simp_all add: ld)
  moreover have "read_bytes text_demo (a + 40) 24 = read_bytes (user_demo grep_lits) (a + 40) 24"
  proof (rule nth_equalityI)
    fix i assume "i < length (read_bytes text_demo (a + 40) 24)"
    then have "i < 24" by simp
    then show "read_bytes text_demo (a + 40) 24 ! i = read_bytes (user_demo grep_lits) (a + 40) 24 ! i"
      using ld [of "40 + i"] by (simp add: add.assoc)
  qed simp
  ultimately show ?thesis using u [of 32] u [of 36] a by (simp add: load_dentry_def text_demo_load32)
qed

lemma text_demo_counts:
  "boot_direntries text_demo = 3" "boot_inodes text_demo = 1" "boot_datablocks text_demo = 1"
  "inode_length text_demo 0 = 30" "inode_block text_demo 0 0 = 0"
proof -
  note b = same_image_boot [OF user_demo_image] and i = same_image_inode [OF user_demo_image demo_mounted, of 0]
  have s: "bootblock (user_demo grep_lits) = 0x500000" "inodes (user_demo grep_lits) = 0x501000"
    using user_demo_image [unfolded same_image_def] by simp_all
  have c: "load32 flat_demo 0x500000 = 3" "load32 flat_demo 0x500004 = 1" "load32 flat_demo 0x500008 = 1"
    "load32 flat_demo 0x501000 = 30" "load32 flat_demo 0x501004 = 0"
    using demo_counts by (simp_all add: boot_direntries_def boot_inodes_def boot_datablocks_def inode_length_def inode_block_def)
  show "boot_direntries text_demo = 3" "boot_inodes text_demo = 1" "boot_datablocks text_demo = 1"
    using b by (simp_all add: boot_direntries_def boot_inodes_def boot_datablocks_def text_demo_sel text_demo_load32 s c)
  show "inode_length text_demo 0 = 30" "inode_block text_demo 0 0 = 0"
    using i(1) i(2) [of 0] by (simp_all add: inode_length_def inode_block_def boot_inodes_def text_demo_sel text_demo_load32 s c)
qed

lemma text_demo_dir: "directory text_demo = [dot_dentry, rtc_dentry, hi_dentry]"
proof -
  have d: "load_dentry text_demo (boot_file text_demo (of_nat i)) = load_dentry (user_demo grep_lits) (boot_file (user_demo grep_lits) (of_nat i))"
    if "i < 3" for i
  proof -
    have "bootblock (user_demo grep_lits) = 0x500000" using user_demo_image [unfolded same_image_def] by simp
    moreover have "unat (0x500040 + 64 * of_nat i :: u32) = 0x500040 + 64 * i"
      using u32_add_less_iff [of "0x500040" 192 "64 * i"] that by simp
    ultimately show ?thesis using that by (simp add: boot_file_def text_demo_sel text_demo_dentry)
  qed
  have "boot_direntries (user_demo grep_lits) = 3" using same_image_boot [OF user_demo_image] demo_counts by simp
  then have "directory text_demo = directory (user_demo grep_lits)"
    unfolding directory_def text_demo_counts by (auto intro!: map_cong d)
  then show ?thesis using user_demo_facts(3) [OF grep_lits_ok(1,2)] by simp
qed

lemma text_demo_file: "file_ok text_demo 0" "file_of text_demo 0 = demo_text"
proof -
  show "file_ok text_demo 0"
    by (simp add: file_ok_def mounted_def inode_wf_def text_demo_sel text_demo_counts bad_block_def)
  have "load text_demo (0x502000 + of_nat i) = demo_text ! i" if "i < 30" for i
  proof -
    have "read_bytes text_demo 0x502000 (length demo_text) = demo_text"
      unfolding text_demo_def by (rule read_write_same)
        (use user_demo_facts(7) [OF grep_lits_ok(1,2)] grep_lits_ok(3) in \<open>simp add: identity_spread\<close>)
    then have "read_bytes text_demo 0x502000 (length demo_text) ! i = demo_text ! i" by simp
    then show ?thesis using that grep_lits_ok(3) by simp
  qed
  then show "file_of text_demo 0 = demo_text"
    by (intro nth_equalityI) (simp_all add: file_of_def text_demo_counts text_demo_sel data_addr_def grep_lits_ok(3))
qed

lemma text_demo_world: "world text_demo" "in_use (fds_of text_demo) = {0, 1}"
proof -
  note f = user_demo_facts [OF grep_lits_ok(1,2)] and m = machine_more_sel [OF text_demo_sel(5)]
  have p: "procs_ok text_demo" "\<exists>p. running text_demo p" using f(1) by (simp_all add: text_demo_def world_def)
  have "cursor_of i text_demo = cursor_of i (user_demo grep_lits)" for i by (simp add: cursor_of_def m)
  then have c: "cursor_ok (cursor_of (unat (terminal_being_serviced text_demo)) text_demo)" using f(1) by (simp add: world_def m)
  have i: "mounted text_demo" "image_size text_demo = 12288"
    using text_demo_file(1) by (simp_all add: file_ok_def image_size_def text_demo_counts)
  show "world text_demo" using p c i
    using identity_window [OF text_demo_sel(1)]
    by (auto simp: world_def text_demo_dir text_demo_sel video_mapped_def intro!: identity_spread identity_apart)
  have "fds_of text_demo = fresh_fds (\<lambda>_. std_fd)" using f(8) by (simp add: m blank_pcb_def)
  then show "in_use (fds_of text_demo) = {0, 1}" by (auto simp: in_use_def fresh_fds_def std_fd_def split: if_splits)
qed

lemma text_demo_cstr:
  "cstr (user_demo grep_lits) a bs \<Longrightarrow> unat a + length bs < 0x502000 \<or> 0x50201E \<le> unat a \<and> unat a + length bs < 4294967296 \<Longrightarrow> cstr text_demo a bs"
proof (rule cstr_load_cong)
  fix i assume a: "unat a + length bs < 0x502000 \<or> 0x50201E \<le> unat a \<and> unat a + length bs < 4294967296" and i: "i \<le> length bs"
  have "unat (a + of_nat i) = unat a + i" using u32_add_less_iff [of a "Suc (length bs)" i] a i by auto
  then show "load text_demo (a + of_nat i) = load (user_demo grep_lits) (a + of_nat i)" using a i by (intro text_demo_load) auto
qed

lemma text_demo_lit:
  assumes "v \<in> set grep_lits"
  shows "lit_ok (demo_link grep_lits) 0x08200000 0x2000 text_demo v"
proof -
  have l: "lit_ok (demo_link grep_lits) 0x08200000 0x2000 (user_demo grep_lits) v"
    by (rule user_demo_lit [OF grep_lits_ok(1,2) assms]) simp
  then have "cstr text_demo (ul_lit (demo_link grep_lits) v) (bytes_of v)"
    by (intro text_demo_cstr) (auto simp: lit_ok_def in_user_def bytes_of_def)
  then show ?thesis using l by (simp add: lit_ok_def)
qed

lemma text_demo_args: "started_with text_demo [0x68, 0x69]"
proof -
  have a: "args (pcbs text_demo (current_pcb text_demo)) = 0x450010" "args (pcbs (user_demo grep_lits) (current_pcb (user_demo grep_lits))) = 0x450010"
    using machine_more_sel(4) [OF text_demo_sel(5)] user_demo_facts(8) [OF grep_lits_ok(1,2)] by simp_all
  then have "cstr text_demo 0x450010 [0x68, 0x69]"
    using user_demo_args [OF grep_lits_ok(1,2)] by (intro text_demo_cstr) (simp_all add: started_with_def)
  then show ?thesis by (simp add: started_with_def a text_demo_sel(1) identity_apart)
qed

lemma text_demo_behind: "load text_demo 0x08200C00 \<noteq> 0x0A"
proof -
  have "load text_demo 0x08200C00 = load started_demo 0x08200C00"
    using place_from_below [of started_demo "0x08200C00" 0 grep_lits] grep_lits_ok by (simp add: text_demo_load user_demo_def)
  also have "\<dots> = load flat_demo 0x08200C00"
    by (simp add: started_demo_def load_def store_def)
  also have "\<dots> = 0" by (simp add: load_def demo_ram_def demo_segments_def hi_file_def)
  finally show ?thesis by simp
qed

lemma text_demo_lookup:
  "lookup text_demo [0x68, 0x69] = Some hi_dentry" "lookup text_demo [0x72, 0x74, 0x63] = Some rtc_dentry" "lookup text_demo [0x2E] = Some dot_dentry"
  unfolding lookup_def text_demo_dir by (simp_all add: dentry_name_def dot_dentry_def rtc_dentry_def hi_dentry_def)

lemma demo_types: "filetype rtc_dentry = 0" "filetype hi_dentry = 2" "inode hi_dentry = 0"
  by (simp_all add: rtc_dentry_def hi_dentry_def)

lemma demo_names: "dentry_name dot_dentry = [0x2E]" "dentry_name rtc_dentry = [0x72, 0x74, 0x63]" "dentry_name hi_dentry = [0x68, 0x69]"
  by (simp_all add: dentry_name_def dot_dentry_def rtc_dentry_def hi_dentry_def)

lemma text_demo_searchable: "searchable text_demo"
proof -
  have "0 \<notin> set demo_text" "list_all (\<lambda>l. length l < 1024) (lines_of demo_text)" by code_simp+
  then have "text_file text_demo 0" by (simp add: text_file_def text_demo_file list_all_iff)
  then show ?thesis unfolding searchable_def text_demo_dir
    by (simp add: demo_names text_demo_lookup demo_types)
qed

lemma text_demo_result: "grep_result text_demo [0x68, 0x69] (directory text_demo) = bytes_of ''hi:beta hi\<newline>hi:hi delta\<newline>''"
proof -
  have "grep_text [0x68, 0x69] [0x68, 0x69] (lines_of demo_text) = bytes_of ''hi:beta hi\<newline>hi:hi delta\<newline>''" by code_simp
  then show ?thesis
    by (simp add: grep_result_def text_demo_dir grep_entry_def demo_names text_demo_lookup text_demo_file demo_types)
qed

text \<open>A clock that ticks at once.\<close>

definition ticking :: "'a waiting" where
  "ticking k s = s\<lparr>rtc_flag := 0\<rparr>"

lemma ticking_ticks: "ticks ticking"
  unfolding ticks_def
proof (intro allI impI)
  fix s :: "'a kernel_scheme" assume "world s"
  then have "displays [] 0 0 s (s\<lparr>rtc_flag := 0\<rparr>)" "fds_of (s\<lparr>rtc_flag := 0\<rparr>) = fds_of s"
    using quiet_user [of s "s\<lparr>rtc_flag := 0\<rparr>"] by (simp_all add: cursor_of_def)
  moreover have "spin ticking (\<lambda>s. rtc_flag s \<noteq> 0) 0 (s\<lparr>rtc_flag := 1\<rparr>) = Some (s\<lparr>rtc_flag := 0\<rparr>)"
    by (subst spin.simps, subst spin.simps) (simp add: ticking_def)
  ultimately show "\<exists>w. spin ticking (\<lambda>s. rtc_flag s \<noteq> 0) 0 (s\<lparr>rtc_flag := 1\<rparr>) = Some w \<and> displays [] 0 0 s w \<and> fds_of w = fds_of s" by blast
qed


end
