(* ===== verification/Ps2.thy ===== *)
theory Ps2
  imports Boot Demo
begin

text \<open>
  The driver of the keyboard controller in \<^verbatim>\<open>student-distrib/devices/ps2.c\<close>, which the build leaves out
  (\<^verbatim>\<open>USE_PS2_CONTROLLER\<close> is 0). The controller is the argument \<open>dev\<close>, as for the other drivers.
\<close>

section \<open>Operations\<close>

abbreviation (input) PS2_BUFFER_PORT :: u16 where "PS2_BUFFER_PORT \<equiv> 0x60"
abbreviation (input) PS2_STATUS_CMD_PORT :: u16 where "PS2_STATUS_CMD_PORT \<equiv> 0x64"
abbreviation (input) DISABLE_KBD :: u8 where "DISABLE_KBD \<equiv> 0xAD"
abbreviation (input) DISABLE_MOUSE :: u8 where "DISABLE_MOUSE \<equiv> 0xA7"
abbreviation (input) ENABLE_KBD :: u8 where "ENABLE_KBD \<equiv> 0xAE"
abbreviation (input) ENABLE_MOUSE :: u8 where "ENABLE_MOUSE \<equiv> 0xA8"
abbreviation (input) READ_CMD_BYTE :: u8 where "READ_CMD_BYTE \<equiv> 0x20"
abbreviation (input) WRITE_CMD_BYTE :: u8 where "WRITE_CMD_BYTE \<equiv> 0x60"
abbreviation (input) CONTROLLER_SELF_TEST :: u8 where "CONTROLLER_SELF_TEST \<equiv> 0xAA"
abbreviation (input) CONTROLLER_OKAY_RESPONSE :: u8 where "CONTROLLER_OKAY_RESPONSE \<equiv> 0xFA"
abbreviation (input) KEYBOARD_INTERFACE :: u8 where "KEYBOARD_INTERFACE \<equiv> 0xAB"
abbreviation (input) MOUSE_INTERFACE :: u8 where "MOUSE_INTERFACE \<equiv> 0xA9"

text \<open>The status register is read again as long as it tells to wait.\<close>

partial_function (option) ps2_poll :: "device \<Rightarrow> (u8 \<Rightarrow> bool) \<Rightarrow> u8 \<Rightarrow> 'a machine_scheme \<Rightarrow> 'a machine_scheme option" where
  "ps2_poll dev busy ps2_status s =
     (if busy ps2_status then let (v, s) = inb dev PS2_STATUS_CMD_PORT s in ps2_poll dev busy v s else Some s)"

definition ps2_wait :: "device \<Rightarrow> (u8 \<Rightarrow> bool) \<Rightarrow> 'a machine_scheme \<Rightarrow> 'a machine_scheme option" where
  "ps2_wait dev busy s = (let (v, s) = inb dev PS2_STATUS_CMD_PORT s in ps2_poll dev busy v s)"

definition unreadable :: "u8 \<Rightarrow> bool" where
  "unreadable v \<longleftrightarrow> v AND 0x02 = 0"

definition unwritable :: "u8 \<Rightarrow> bool" where
  "unwritable v \<longleftrightarrow> v AND 0x01 \<noteq> 0"

text \<open>A command and the controller's answer to it.\<close>

definition ps2_ask :: "device \<Rightarrow> u8 \<Rightarrow> 'a machine_scheme \<Rightarrow> (u8 \<times> 'a machine_scheme) option" where
  "ps2_ask dev cmd s = map_option (inb dev PS2_BUFFER_PORT) (ps2_wait dev unreadable (outb cmd PS2_STATUS_CMD_PORT s))"

text \<open>After a message about an error the driver spins for ever; it does so in the state \<open>Halted\<close>.\<close>

datatype ps2_end = Ready | Halted

definition interface_fault :: "u8 \<Rightarrow> string option" where
  "interface_fault ps2_data =
     (if ps2_data = 1 then Some '' clock line stuck low\<newline>''
      else if ps2_data = 2 then Some '' clock line stuck high\<newline>''
      else if ps2_data = 3 then Some '' data line stuck low\<newline>''
      else if ps2_data = 4 then Some '' data line stuck high\<newline>''
      else None)"

definition interface_error :: "string \<Rightarrow> u8 \<Rightarrow> string option" where
  "interface_error line ps2_data = map_option (\<lambda>fault. ''Error! '' @ line @ fault) (interface_fault ps2_data)"

definition give_up :: "(u8 \<Rightarrow> u32) \<Rightarrow> string \<Rightarrow> 'a kernel_scheme \<Rightarrow> (ps2_end \<times> 'a kernel_scheme) option" where
  "give_up cb msg s = map_option (Pair Halted) (tell cb msg [] s)"

text \<open>
  The end of the routine, from the second reading of the configuration on. The configuration with the interrupts
  enabled stays in a local variable.
\<close>

definition ps2_enable :: "device \<Rightarrow> u32 \<Rightarrow> 'a machine_scheme \<Rightarrow> 'a machine_scheme option" where
  "ps2_enable dev dual_channel s =
     do { (v, s) \<leftarrow> ps2_ask dev READ_CMD_BYTE s;
          let ps2_config = ucast v OR (0x00000001 :: u32);
          let ps2_config = (if dual_channel \<noteq> 0 then ps2_config OR 0x00000002 else ps2_config);
          let s = outb ENABLE_KBD PS2_STATUS_CMD_PORT s;
          Some (if dual_channel \<noteq> 0 then outb ENABLE_MOUSE PS2_STATUS_CMD_PORT s else s) }"

text \<open>The tests of the two interfaces; the second one only with a mouse.\<close>

definition interface_tests :: "device \<Rightarrow> (u8 \<Rightarrow> u32) \<Rightarrow> u32 \<Rightarrow> 'a kernel_scheme \<Rightarrow> (ps2_end \<times> 'a kernel_scheme) option" where
  "interface_tests dev cb dual_channel s =
     do { (ps2_data, s) \<leftarrow> ps2_ask dev KEYBOARD_INTERFACE s;
          case interface_error ''Keyboard'' ps2_data of
            Some msg \<Rightarrow> give_up cb msg s
          | None \<Rightarrow>
              if dual_channel \<noteq> 0 then do {
                (ps2_data, s) \<leftarrow> ps2_ask dev MOUSE_INTERFACE s;
                case interface_error ''Mouse'' ps2_data of
                  Some msg \<Rightarrow> give_up cb msg s
                | None \<Rightarrow> map_option (Pair Ready) (ps2_enable dev dual_channel s) }
              else map_option (Pair Ready) (ps2_enable dev dual_channel s) }"

definition init_ps2 :: "device \<Rightarrow> (u8 \<Rightarrow> u32) \<Rightarrow> 'a kernel_scheme \<Rightarrow> (ps2_end \<times> 'a kernel_scheme) option" where
  "init_ps2 dev cb s =
     do { let s = outb DISABLE_KBD PS2_STATUS_CMD_PORT s;
          let s = outb DISABLE_MOUSE PS2_STATUS_CMD_PORT s;
          s \<leftarrow> ps2_wait dev (\<lambda>v. v AND 0x10 \<noteq> 0) s;
          let (_, s) = inb dev PS2_BUFFER_PORT s;
          (v, s) \<leftarrow> ps2_ask dev READ_CMD_BYTE s;
          let ps2_config = (ucast v :: u32);
          let dual_channel = ps2_config AND 0x20;
          let ps2_config = ps2_config AND 0xFFFFFFFE AND 0xFFFFFFFD AND 0xFFFFFFBF;
          s \<leftarrow> ps2_wait dev unwritable s;
          let s = outb WRITE_CMD_BYTE PS2_STATUS_CMD_PORT s;
          let s = outb (ucast ps2_config) PS2_BUFFER_PORT s;
          s \<leftarrow> ps2_wait dev unwritable s;
          (ps2_data, s) \<leftarrow> ps2_ask dev CONTROLLER_SELF_TEST s;
          if ps2_data \<noteq> CONTROLLER_OKAY_RESPONSE then give_up cb ''Error! PS2 controller initialization failed\<newline>'' s
          else interface_tests dev cb dual_channel s }"

section \<open>What the controller is told\<close>

fun outs :: "io_event list \<Rightarrow> (u16 \<times> u8) list" where
  "outs [] = []"
| "outs (Out p v # l) = outs l @ [(p, v)]"
| "outs (In p v # l) = outs l"

text \<open>
  A controller whose status never makes the driver wait, and whose answer depends on the last command.
\<close>

definition ps2_controller :: "device \<Rightarrow> (u8 \<Rightarrow> u8) \<Rightarrow> bool" where
  "ps2_controller dev ans \<longleftrightarrow> (\<forall>l. dev l 0x64 AND 0x10 = 0 \<and> dev l 0x64 AND 0x02 \<noteq> 0 \<and> dev l 0x64 AND 0x01 = 0) \<and>
     (\<forall>l c. last_out 0x64 l = Some c \<longrightarrow> dev l 0x60 = ans c)"

lemma ps2_wait_ends:
  "(\<And>l. \<not> busy (dev l 0x64)) \<Longrightarrow> ps2_wait dev busy s = Some (s\<lparr>io_log := In 0x64 (dev (io_log s) 0x64) # io_log s\<rparr>)"
  by (simp add: ps2_wait_def inb_def Let_def ps2_poll.simps)

lemma ps2_ask_answers:
  fixes s :: "'a machine_scheme"
  assumes "ps2_controller dev ans"
  shows "\<exists>l. ps2_ask dev cmd s = Some (ans cmd, s\<lparr>io_log := l\<rparr>) \<and> outs l = outs (io_log s) @ [(0x64, cmd)]"
proof -
  have "\<not> unreadable (dev l 0x64)" for l using assms by (simp add: ps2_controller_def unreadable_def)
  then have w: "ps2_wait dev unreadable t = Some (t\<lparr>io_log := In 0x64 (dev (io_log t) 0x64) # io_log t\<rparr>)" for t :: "'a machine_scheme"
    by (rule ps2_wait_ends)
  have a: "dev l 0x60 = ans c" if "last_out 0x64 l = Some c" for l c using assms that by (simp add: ps2_controller_def)
  show ?thesis
    by (intro exI [of _ "In 0x60 (ans cmd) # In 0x64 (dev (Out 0x64 cmd # io_log s) 0x64) # Out 0x64 cmd # io_log s"])
      (simp add: ps2_ask_def w inb_def outb_def Let_def a)
qed

lemma ps2_enable_ends:
  assumes "ps2_controller dev ans"
  shows "\<exists>l. ps2_enable dev dual s = Some (s\<lparr>io_log := l\<rparr>) \<and>
    outs l = outs (io_log s) @ [(0x64, 0x20), (0x64, 0xAE)] @ (if dual \<noteq> 0 then [(0x64, 0xA8)] else [])"
proof -
  obtain l where "ps2_ask dev 0x20 s = Some (ans 0x20, s\<lparr>io_log := l\<rparr>)" "outs l = outs (io_log s) @ [(0x64, 0x20)]"
    using ps2_ask_answers [OF assms] by blast
  then show ?thesis by (cases "dual = 0") (auto simp: ps2_enable_def outb_def)
qed

lemma printf_constant:
  fixes s :: "'a kernel_scheme"
  assumes "plain fs"
  shows "\<exists>t. printf_loop kernel_printer cb (at_text fs) stk k n s = Some (int (max k (length fs)), t)"
proof (induction "length fs - k" arbitrary: k s)
  case 0
  then show ?case by (subst printf_loop.simps) (simp add: at_text_def)
next
  case (Suc d)
  then have k: "k < length fs" by simp
  then have c: "at_text fs s k = fs ! k" "fs ! k \<noteq> 0" "fs ! k \<noteq> 0x25" using assms by (auto simp: at_text_def plain_def dest: nth_mem)
  let ?s = "putc (at_text fs s k) s"
  have "put_char kernel_printer (\<lambda>s i. at_text fs s (k + i)) s = Some ?s" by (simp add: kernel_printer_def)
  moreover have "d = length fs - Suc k" "max (Suc k) (length fs) = max k (length fs)" using Suc.hyps(2) k by simp_all
  ultimately show ?case using Suc.hyps(1) [of "Suc k" ?s] c by (subst printf_loop.simps) simp
qed

lemma give_up_ends:
  fixes s :: "'a kernel_scheme"
  assumes "plain (bytes_of msg)"
  shows "\<exists>t. give_up cb msg s = Some (Halted, t)"
proof -
  obtain r t where "printf cb (at_text (bytes_of msg)) (\<lambda>n. num 0) s = Some (r, t)"
    using printf_constant [OF assms, of cb "\<lambda>n. num 0" 0 0 s] unfolding printf_def by blast
  then show ?thesis by (simp add: give_up_def tell_def)
qed

lemma plain_append: "plain (bytes_of (a @ b)) \<longleftrightarrow> plain (bytes_of a) \<and> plain (bytes_of b)"
  by (auto simp: plain_def bytes_of_def)

lemma plain_faults: "interface_fault v = Some f \<Longrightarrow> plain (bytes_of f)"
proof -
  assume a: "interface_fault v = Some f"
  have p: "plain (bytes_of '' clock line stuck low\<newline>'')" "plain (bytes_of '' clock line stuck high\<newline>'')"
    "plain (bytes_of '' data line stuck low\<newline>'')" "plain (bytes_of '' data line stuck high\<newline>'')" by code_simp+
  show ?thesis using a p unfolding interface_fault_def by (metis option.distinct(1) option.inject)
qed

lemma interface_messages:
  assumes "interface_error line v = Some msg" "plain (bytes_of line)"
  shows "plain (bytes_of msg)"
proof -
  obtain f where f: "interface_fault v = Some f" "msg = ''Error! '' @ line @ f" using assms(1) unfolding interface_error_def by blast
  have "plain (bytes_of ''Error! '')" by code_simp
  then show ?thesis unfolding f(2) plain_append using assms(2) plain_faults [OF f(1)] by blast
qed

text \<open>The stages of the routine up to the answer to the self test.\<close>

definition ps2_config_byte :: "u8 \<Rightarrow> u8" where
  "ps2_config_byte v = ucast ((ucast v :: u32) AND 0xFFFFFFFE AND 0xFFFFFFFD AND 0xFFFFFFBF)"

definition start_commands :: "(u8 \<Rightarrow> u8) \<Rightarrow> (u16 \<times> u8) list" where
  "start_commands ans = [(0x64, 0xAD), (0x64, 0xA7), (0x64, 0x20), (0x64, 0x60), (0x60, ps2_config_byte (ans 0x20)), (0x64, 0xAA)]"

definition ps2_commands :: "(u8 \<Rightarrow> u8) \<Rightarrow> (u16 \<times> u8) list" where
  "ps2_commands ans = start_commands ans @ [(0x64, 0xAB)] @ (if bit (ans 0x20) 5 then [(0x64, 0xA9)] else []) @
     [(0x64, 0x20), (0x64, 0xAE)] @ (if bit (ans 0x20) 5 then [(0x64, 0xA8)] else [])"

definition ps2_passes :: "(u8 \<Rightarrow> u8) \<Rightarrow> bool" where
  "ps2_passes ans \<longleftrightarrow> ans 0xAA = 0xFA \<and> ans 0xAB \<notin> {1, 2, 3, 4} \<and> (bit (ans 0x20) 5 \<longrightarrow> ans 0xA9 \<notin> {1, 2, 3, 4})"

lemma interface_error_None: "interface_error l v = None \<longleftrightarrow> v \<notin> {1, 2, 3, 4}"
  by (simp add: interface_error_def interface_fault_def)

lemma dual_bit: "(ucast v AND (0x20 :: u32) \<noteq> 0) \<longleftrightarrow> bit v 5" for v :: u8
  using and_exp_eq_0_iff_not_bit [of "ucast v :: u32" 5] by (simp add: bit_ucast_iff)

text \<open>The tests of the interfaces, in a state in which the self test has been passed.\<close>

lemma interface_tests_end:
  fixes s :: "'a kernel_scheme"
  assumes "ps2_controller dev ans" "dual \<noteq> 0 \<longleftrightarrow> d"
  shows "\<exists>t. interface_tests dev cb dual s = Some (if ans 0xAB \<in> {1, 2, 3, 4} \<or> d \<and> ans 0xA9 \<in> {1, 2, 3, 4} then Halted else Ready, t) \<and>
    (ans 0xAB \<notin> {1, 2, 3, 4} \<and> (d \<longrightarrow> ans 0xA9 \<notin> {1, 2, 3, 4}) \<longrightarrow> outs (io_log t) = outs (io_log s) @ [(0x64, 0xAB)] @
       (if d then [(0x64, 0xA9)] else []) @ [(0x64, 0x20), (0x64, 0xAE)] @ (if d then [(0x64, 0xA8)] else []))"
proof -
  obtain l where l: "ps2_ask dev 0xAB s = Some (ans 0xAB, s\<lparr>io_log := l\<rparr>)" "outs l = outs (io_log s) @ [(0x64, 0xAB)]"
    using ps2_ask_answers [OF assms(1)] by blast
  obtain m where m: "ps2_ask dev 0xA9 (s\<lparr>io_log := l\<rparr>) = Some (ans 0xA9, s\<lparr>io_log := m\<rparr>)" "outs m = outs l @ [(0x64, 0xA9)]"
    using ps2_ask_answers [OF assms(1), of "0xA9" "s\<lparr>io_log := l\<rparr>"] by auto
  obtain e where e: "ps2_enable dev dual (s\<lparr>io_log := x\<rparr>) = Some (s\<lparr>io_log := e x\<rparr>)"
      "outs (e x) = outs x @ [(0x64, 0x20), (0x64, 0xAE)] @ (if d then [(0x64, 0xA8)] else [])" for x
    using ps2_enable_ends [OF assms(1), of dual "s\<lparr>io_log := _\<rparr>"] assms(2) by (simp) metis
  have names: "plain (bytes_of ''Keyboard'')" "plain (bytes_of ''Mouse'')" by code_simp+
  show ?thesis
  proof (cases "ans 0xAB \<in> {1, 2, 3, 4}")
    case True
    then obtain msg where "interface_error ''Keyboard'' (ans 0xAB) = Some msg" using interface_error_None by blast
    then show ?thesis using True give_up_ends [OF interface_messages] l(1) names by (simp add: interface_tests_def)
  next
    case False
    then have k: "interface_error ''Keyboard'' (ans 0xAB) = None" by (simp only: interface_error_None not_False_eq_True)
    show ?thesis
    proof (cases "d \<and> ans 0xA9 \<in> {1, 2, 3, 4}")
      case True
      then obtain msg where "interface_error ''Mouse'' (ans 0xA9) = Some msg" using interface_error_None by blast
      then show ?thesis using True False give_up_ends [OF interface_messages] names l(1) m(1) k assms(2) by (simp add: interface_tests_def)
    next
      case False
      then have "d \<Longrightarrow> interface_error ''Mouse'' (ans 0xA9) = None" using interface_error_None by blast
      then show ?thesis using False \<open>ans 0xAB \<notin> _\<close> l m k e assms(2) by (cases d) (simp_all add: interface_tests_def)
    qed
  qed
qed


text \<open>A controller that answers as the driver wants, and one that answers as the 8042 does.\<close>

definition answering :: "(u8 \<Rightarrow> u8) \<Rightarrow> device" where
  "answering ans l p = (if p = 0x64 then 0x02 else case last_out 0x64 l of None \<Rightarrow> 0 | Some c \<Rightarrow> ans c)"

lemma answering_controller: "ps2_controller (answering ans) ans"
  by (simp add: ps2_controller_def answering_def)


end
