(* ===== verification/User_Session.thy ===== *)
theory User_Session
  imports User_Shell Isolation
begin

text \<open>
  A program as its caller sees it: what \<^verbatim>\<open>execute\<close> leaves as it was when it hands the processor to the
  new program, what the program may rely on then, and what its caller finds when the program is over. The shell
  is the caller.
\<close>

section \<open>The address space of a process of the displayed terminal\<close>

definition task_xlat :: "int \<Rightarrow> u32 \<Rightarrow> u32" where
  "task_xlat p va = (case task_view (block_address_for_process p) va of None \<Rightarrow> va | Some (pa, _) \<Rightarrow> pa)"

lemma own_xlat:
  assumes "kernel_ok lay s" "p \<in> pid_set s" "active lay p s" "owner s p = uint (terminal_state s)"
  shows "xlat s = task_xlat p"
proof
  fix va
  obtain sps where lay: "layout_ok lay" and sps: "spaces_ok lay sps s" "own_blocks sps s"
    using assms(1) by (auto simp: kernel_ok_def order_ok_def isolated_def)
  have p: "0 \<le> p" "p < 6" using pid_set_bounds [OF assms(2)] by auto
  have sp: "space_ok (sps p)" "video_frame (sps p) = VIDEO" "block (sps p) = block_address_for_process p"
    "task_space (get_page_directory_for_pid lay p) (get_base_page_table_for_pid lay p) (sps p) s"
    using sps assms(2,4) by (auto simp: spaces_ok_def own_blocks_def terminal_frame_def)
  have "xlat s va = (case space_view (sps p) va of None \<Rightarrow> va | Some (pa, _) \<Rightarrow> pa)"
    using assms(3) translate_task_space [OF layout_tables [OF lay p] sp(1,4), of va] by (simp add: active_def mmu_xlat_def)
  also have "\<dots> = task_xlat p va"
  proof (cases "drop_bit 12 va = 0xB8")
    case True
    then show ?thesis using video_page_frame [OF True] page_index_0xB8 [OF True] sp(2)
      by (simp add: space_view_def task_xlat_def task_view_def kernel_view_def video_page_def)
  qed (simp add: space_view_def task_xlat_def sp(3))
  finally show "xlat s va = task_xlat p va" .
qed

text \<open>No process has a page at address 0.\<close>

lemma null_unmapped:
  assumes "kernel_ok lay s" "p \<in> pid_set s"
  shows "translate (ptmem s) (get_page_directory_for_pid lay p) 0 = None"
proof -
  obtain sps where lay: "layout_ok lay" and sps: "spaces_ok lay sps s"
    using assms(1) by (auto simp: kernel_ok_def order_ok_def isolated_def)
  have p: "0 \<le> p" "p < 6" using pid_set_bounds [OF assms(2)] by auto
  have sp: "space_ok (sps p)" "task_space (get_page_directory_for_pid lay p) (get_base_page_table_for_pid lay p) (sps p) s"
    using sps assms(2) by (auto simp: spaces_ok_def)
  show ?thesis unfolding translate_task_space [OF layout_tables [OF lay p] sp]
    by (simp add: space_view_def task_view_def kernel_view_def video_page_def)
qed

text \<open>Areas that lie in physical memory from \<open>b\<close> on.\<close>

definition lies :: "'a machine_scheme \<Rightarrow> u32 \<Rightarrow> nat \<Rightarrow> nat \<Rightarrow> bool" where
  "lies s a n b \<longleftrightarrow> (\<forall>i<n. unat (xlat s (a + of_nat i)) = b + i)"

lemma lies_spread: "lies s a n b \<Longrightarrow> spread s a n"
  unfolding lies_def spread_def by (rule inj_onI) (metis add_left_cancel lessThan_iff)

lemma lies_apart: "lies s a n b \<Longrightarrow> lies s c m d \<Longrightarrow> b + n \<le> d \<or> d + m \<le> b \<Longrightarrow> apart s a n c m"
  unfolding lies_def apart_def
proof (intro allI impI notI)
  fix i j assume h: "\<forall>i<n. unat (xlat s (a + of_nat i)) = b + i" "\<forall>i<m. unat (xlat s (c + of_nat i)) = d + i"
    "b + n \<le> d \<or> d + m \<le> b" "i < n" "j < m" "xlat s (a + of_nat i) = xlat s (c + of_nat j)"
  then have "b + i = d + j" by metis
  then show False using h(3-5) by linarith
qed

lemma lies_mono: "lies s a n b \<Longrightarrow> m \<le> n \<Longrightarrow> lies s a m b"
  by (simp add: lies_def)

text \<open>The kernel's memory below the blocks of the processes.\<close>

definition low_area :: "u32 \<Rightarrow> nat \<Rightarrow> bool" where
  "low_area a n \<longleftrightarrow> 0x400000 \<le> unat a \<and> unat a + n \<le> 0x800000"

definition block_start :: "int \<Rightarrow> nat" where
  "block_start p = 0x800000 + 0x400000 * nat p"

lemma lies_kernel:
  assumes "xlat s = task_xlat p" "kernel_area a n"
  shows "lies s a n (unat a)"
  unfolding lies_def
proof (intro allI impI)
  fix i assume i: "i < n"
  then have "task_xlat p (a + of_nat i) = a + of_nat i"
    using kernel_area_index [OF assms(2) i] by (simp add: task_xlat_def task_view_def kernel_view_def Let_def)
  moreover have "unat (a + of_nat i) = unat a + i"
    by (rule u32_add_less_iff [of _ n]) (use assms(2) i in \<open>simp_all add: kernel_area_def\<close>)
  ultimately show "unat (xlat s (a + of_nat i)) = unat a + i" by (simp add: assms(1))
qed

lemma lies_low: "xlat s = task_xlat p \<Longrightarrow> low_area a n \<Longrightarrow> lies s a n (unat a)"
  by (rule lies_kernel) (simp_all add: low_area_def kernel_area_def)

lemma lies_screen:
  assumes "xlat s = task_xlat p"
  shows "lies s VIDEO 4000 0xB8000"
  unfolding lies_def
proof (intro allI impI)
  fix i :: nat assume i: "i < 4000"
  have u: "unat (VIDEO + of_nat i :: u32) = 0xB8000 + i" using u32_add_less_iff [of VIDEO 4000 i] i by simp
  then have "unat (drop_bit 12 (VIDEO + of_nat i :: u32)) = (0xB8000 + i) div 4096" "unat (drop_bit 22 (VIDEO + of_nat i :: u32)) = (0xB8000 + i) div 4194304"
    by (simp_all add: drop_bit_eq_div unat_div)
  then have "video_page (VIDEO + of_nat i)" "unat (drop_bit 22 (VIDEO + of_nat i :: u32)) = 0" using i by (auto simp: video_page_def)
  then show "unat (xlat s (VIDEO + of_nat i)) = 0xB8000 + i" using u by (simp add: assms task_xlat_def task_view_def kernel_view_def)
qed

lemma lies_page:
  assumes "xlat s = task_xlat p" "0 \<le> p" "p < 6"
  shows "lies s 0x08000000 0x400000 (block_start p)"
  unfolding lies_def
proof (intro allI impI)
  fix k :: nat assume k: "k < 0x400000"
  have "task_xlat p (0x08000000 + of_nat k) = block_address_for_process p + of_nat k"
    using user_page_index [of k] k big_aligned_or_add [OF block_big_aligned, of p k] assms(2,3) by (simp add: task_xlat_def task_view_def)
  then show "unat (xlat s (0x08000000 + of_nat k)) = block_start p + k"
    using block_address_eq [OF assms(2,3)] u32_add_less_iff [of "block_address_for_process p" "0x400000" k] k assms(2,3)
    by (simp add: assms(1) block_start_def)
qed

lemma lies_user:
  assumes "xlat s = task_xlat p" "0 \<le> p" "p < 6" "in_user a n"
  shows "lies s a n (block_start p + (unat a - 0x08000000))"
  unfolding lies_def
proof (intro allI impI)
  fix i assume i: "i < n"
  let ?k = "unat a - 0x08000000"
  have "?k + i < 0x400000" using assms(4) i unfolding in_user_def by linarith
  then have "unat (xlat s (0x08000000 + of_nat (?k + i))) = block_start p + (?k + i)"
    using lies_page [OF assms(1-3)] unfolding lies_def by blast
  moreover have "0x08000000 + of_nat (?k + i) = (0x08000000 + of_nat ?k) + (of_nat i :: u32)" by (simp only: of_nat_add add.assoc)
  then have "0x08000000 + of_nat (?k + i) = a + of_nat i" unfolding user_base [OF assms(4), symmetric] .
  ultimately show "unat (xlat s (a + of_nat i)) = block_start p + ?k + i" by (simp only: add.assoc)
qed

text \<open>The frames of the block of a process.\<close>

definition block_frames :: "int \<Rightarrow> u32 set" where
  "block_frames p = {q. block_start p \<le> unat q \<and> unat q < block_start p + 0x400000}"

lemma block_frames_apart: "0 \<le> p \<Longrightarrow> 0 \<le> n \<Longrightarrow> n \<noteq> p \<Longrightarrow> q \<in> block_frames p \<Longrightarrow> q \<notin> block_frames n"
proof -
  assume "0 \<le> p" "0 \<le> n" "n \<noteq> p"
  then have "nat n < nat p \<or> nat p < nat n" by linarith
  then show "q \<in> block_frames p \<Longrightarrow> q \<notin> block_frames n" by (auto simp: block_frames_def block_start_def)
qed

lemma user_frame:
  assumes "xlat s = task_xlat p" "0 \<le> p" "p < 6" "in_user x 1"
  shows "xlat s x \<in> block_frames p"
proof -
  have "unat (xlat s x) = block_start p + (unat x - 0x08000000)" using lies_user [OF assms] by (simp add: lies_def)
  then show ?thesis using assms(4) unfolding block_frames_def in_user_def mem_Collect_eq by linarith
qed

text \<open>So the process has what a program relies on.\<close>

lemma world_here:
  fixes t :: "'a kernel_scheme"
  assumes "kernel_ok lay t" "running t n" "active lay n t" "owner t n = uint (terminal_state t)"
    and "mounted t" "length (directory t) \<le> 63" "cursor_ok (cursor_of (unat (terminal_being_serviced t)) t)"
    and im: "low_area (bootblock t) (image_size t)"
  shows "world t" "xlat t = task_xlat n"
proof -
  have n: "n \<in> pid_set t" using assms(2) by (simp add: running_def)
  then have b: "0 \<le> n" "n < 6" using pid_set_bounds by auto
  show x: "xlat t = task_xlat n" by (rule own_xlat [OF assms(1) n assms(3,4)])
  note pg = lies_page [OF x b] and sc = lies_screen [OF x] and ib = lies_low [OF x im]
  have st: "0x800000 \<le> block_start n" by (simp add: block_start_def)
  have "\<forall>q \<in> window t. \<not> program_memory q" using sc by (auto simp: window_def lies_def)
  then show "world t"
    using assms(1,2,5-7) lies_spread [OF pg] lies_spread [OF sc] lies_apart [OF pg sc] lies_apart [OF pg ib] lies_apart [OF sc ib] st im
    by (auto simp: world_def kernel_ok_def video_mapped_def low_area_def)
qed

section \<open>Starting a program\<close>

lemma start_process_frame:
  fixes s :: "'a kernel_scheme"
  assumes "start_process lay fr flags ifl cur n ino arg ep s = (fl, t)"
  shows "terminal_being_serviced t = terminal_being_serviced s" "screen_x t = screen_x s" "screen_y t = screen_y s"
    "curr_attribute t = curr_attribute s" "bootblock t = bootblock s" "inodes t = inodes s" "datablocks t = datablocks s"
proof -
  define s0 where s0_def: "s0 = snd (read_data ino 0 (block_address_for_process n + TASK_PROGRAM_IMAGE_OFFSET) (LITERAL_4MB - TASK_PROGRAM_IMAGE_OFFSET) s)"
  obtain bs where s0: "s0 = write_bytes (block_address_for_process n + TASK_PROGRAM_IMAGE_OFFSET) bs s"
    using read_data_footprint [of "block_address_for_process n + TASK_PROGRAM_IMAGE_OFFSET" "LITERAL_4MB - TASK_PROGRAM_IMAGE_OFFSET" s ino 0]
    by (auto simp: writes_buf_def s0_def)
  obtain m where s1: "setup_task_paging (get_page_directory_for_pid lay n) (get_base_page_table_for_pid lay n)
      (block_address_for_process n) s0 = s0\<lparr>ptmem := m\<rparr>" using setup_task_paging_ptmem by blast
  have t: "t = snd (start_process lay fr flags ifl cur n ino arg ep s)" using assms by simp
  note more = machine_more_sel [of s0 s, OF arg_cong [of _ _ machine.more, OF s0, unfolded write_bytes_frame(4)]]
  have im: "bootblock s0 = bootblock s" "inodes s0 = inodes s" "datablocks s0 = datablocks s"
    unfolding s0 by simp_all
  show "terminal_being_serviced t = terminal_being_serviced s" "screen_x t = screen_x s" "screen_y t = screen_y s"
    "curr_attribute t = curr_attribute s" "bootblock t = bootblock s" "inodes t = inodes s" "datablocks t = datablocks s"
    unfolding t start_process_def Let_def case_prod_beta s0_def [symmetric] s1
    by (simp_all add: more im get_terminal_state_def set_new_page_directory_def upd_fd_def upd_pcb_def upd_terminal_def mark_pid_used_def)
qed


text \<open>
  The frame of \<^verbatim>\<open>internal_execute\<close> has its locals in the kernel's memory, apart from each other and from the
  image.
\<close>

definition low_locals :: "exec_locals \<Rightarrow> 'a kernel_scheme \<Rightarrow> bool" where
  "low_locals fr s \<longleftrightarrow> low_area (commandstring fr) 1152 \<and> low_area (magic fr) 4 \<and> low_area (entry_point_address fr) 4 \<and>
     low_area (bootblock s) (image_size s) \<and> clear_of (commandstring fr) 128 (bootblock s) (image_size s) \<and>
     clear_of (magic fr) 4 (bootblock s) (image_size s) \<and> clear_of (entry_point_address fr) 4 (bootblock s) (image_size s) \<and>
     clear_of (magic fr) 4 (commandstring fr) 128 \<and> clear_of (entry_point_address fr) 4 (commandstring fr) 128"

definition caller :: "layout \<Rightarrow> exec_locals \<Rightarrow> int \<Rightarrow> 'a kernel_scheme \<Rightarrow> bool" where
  "caller lay fr p s \<longleftrightarrow> kernel_ok lay s \<and> running s p \<and> active lay p s \<and> owner s p = uint (terminal_state s) \<and> world s \<and>
     low_locals fr s \<and> in_stack p (frame_ebp fr)"

lemma caller_xlat: "caller lay fr p s \<Longrightarrow> xlat s = task_xlat p \<and> 0 \<le> p \<and> p < 6"
  using own_xlat [of lay s p] pid_set_bounds [of p s] by (simp add: caller_def running_def)

lemma lies_prog:
  assumes "xlat s = task_xlat p" "0 \<le> n" "n < 6"
  shows "lies s (prog_area n) 0x3B8000 (block_start n + 0x48000)"
proof -
  have "unat (prog_area n) = block_start n + 0x48000"
    using block_address_eq [OF assms(2,3)] assms(2,3) by (simp add: prog_area_def block_start_def unat_word_ariths)
  then show ?thesis using lies_kernel [OF assms(1), of "prog_area n" "0x3B8000"] assms(2,3)
    by (simp add: kernel_area_def block_start_def)
qed

lemma low_exec:
  assumes x: "xlat s = task_xlat p" "0 \<le> p" "p < 6" and l: "low_locals fr s" and c: "in_user command (Suc k)" "k < 128"
    and n: "0 \<le> n" "n < 6" "len \<le> 0x3B8000"
  shows "exec_memory fr command k (prog_area n) len s"
proof -
  have la: "low_area (commandstring fr) (Suc k)" "low_area (magic fr) 4" "low_area (entry_point_address fr) 4" "low_area (bootblock s) (image_size s)"
    using l c(2) by (auto simp: low_locals_def low_area_def)
  note a = lies_low [OF x(1) la(1)] lies_low [OF x(1) la(2)] lies_low [OF x(1) la(3)] lies_low [OF x(1) la(4)]
    lies_mono [OF lies_prog [OF x(1) n(1,2)] n(3)] lies_user [OF x c(1)]
  have b: "0x800000 \<le> block_start n + 0x48000" "0x800000 \<le> block_start p" by (simp_all add: block_start_def)
  have i: "0 < image_size s" by (simp add: image_size_def)
  show ?thesis
    unfolding exec_memory_def list.pred_inject prod.case
    using l la b c(2) i
    by (intro conjI TrueI lies_spread [OF a(1)] lies_spread [OF a(2)] lies_spread [OF a(3)] lies_spread [OF a(5)]
          lies_apart [OF a(1,6)] lies_apart [OF a(1,4)] lies_apart [OF a(2,4)] lies_apart [OF a(3,4)] lies_apart [OF a(5,4)]
          lies_apart [OF a(2,1)] lies_apart [OF a(3,1)] lies_apart [OF a(5,1)]; simp add: low_locals_def low_area_def clear_of_def; linarith?)
qed

lemma local_frames_low:
  assumes "xlat s = task_xlat p" "low_locals fr s" "q \<in> local_frames fr s"
  shows "0x400000 \<le> unat q" "unat q < 0x800000" "\<And>i. i < image_size s \<Longrightarrow> q \<noteq> xlat s (bootblock s + of_nat i)"
proof -
  have la: "low_area (commandstring fr) 128" "low_area (magic fr) 4" "low_area (entry_point_address fr) 4" "low_area (bootblock s) (image_size s)"
    using assms(2) by (auto simp: low_locals_def low_area_def)
  note a = lies_low [OF assms(1) la(1)] lies_low [OF assms(1) la(2)] lies_low [OF assms(1) la(3)] lies_low [OF assms(1) la(4)]
  show "0x400000 \<le> unat q" "unat q < 0x800000" using assms(3) la a by (auto simp: local_frames_def lies_def low_area_def)
  have "apart s (commandstring fr) 128 (bootblock s) (image_size s)" "apart s (magic fr) 4 (bootblock s) (image_size s)"
    "apart s (entry_point_address fr) 4 (bootblock s) (image_size s)"
    using assms(2) lies_apart [OF a(1,4)] lies_apart [OF a(2,4)] lies_apart [OF a(3,4)] by (auto simp: low_locals_def clear_of_def image_size_def)
  then show "q \<noteq> xlat s (bootblock s + of_nat i)" if "i < image_size s" for i
    using assms(3) that unfolding local_frames_def apart_def by (metis (no_types, lifting) Un_iff imageE lessThan_iff)
qed

lemma lies_same: "lies s a n b \<Longrightarrow> lies t a n b \<Longrightarrow> i < n \<Longrightarrow> xlat t (a + of_nat i) = xlat s (a + of_nat i)"
  by (simp add: lies_def word_unat_eq_iff)


text \<open>What the loader and the start of the process change in memory: the locals, and the block of the new process.\<close>

lemma start_process_ram:
  fixes u :: "'a kernel_scheme"
  assumes "start_process lay fr flags ifl cur n ino arg ep u = (fl, t)" "0 \<le> n" "n < 6" "cur \<noteq> pcb_address n"
    and "xlat u = task_xlat p" "q \<notin> block_frames n"
  shows "ram t q = ram u q"
proof -
  let ?w = "read_data ino 0 (prog_area n) 0x3B8000 u"
  note sel = start_process_sel [OF assms(1-4) refl refl]
  obtain cs where w: "snd ?w = write_bytes (prog_area n) cs u" "length cs \<le> 0x3B8000"
    using read_data_footprint [of "prog_area n" "0x3B8000" u ino 0] by (auto simp: writes_buf_def)
  have "q \<notin> (\<lambda>i. xlat u (prog_area n + of_nat i)) ` {..<length cs}"
  proof
    assume "q \<in> (\<lambda>i. xlat u (prog_area n + of_nat i)) ` {..<length cs}"
    then obtain i where j: "i < length cs" "q = xlat u (prog_area n + of_nat i)" unfolding image_iff by auto
    have i: "i < 0x3B8000" using less_le_trans [OF j(1) w(2)] .
    then have "unat q = block_start n + 0x48000 + i" using lies_prog [OF assms(5,2,3)] j(2) by (simp add: lies_def)
    then show False using i assms(6) by (simp add: block_frames_def)
  qed
  then have "ram (snd ?w) q = ram u q" unfolding w(1) by (rule write_bytes_ram)
  moreover have "ram t = ram (snd ?w)" using sel(11) by (simp add: prog_area_def)
  ultimately show ?thesis by simp
qed

lemma program_started:
  fixes s :: "'a kernel_scheme"
  assumes c: "caller lay fr p s" and n: "n = get_available_pid s" "n \<noteq> FAILURE"
    and cmd: "cstr s command bs" "in_user command (Suc (length bs))" "bs \<noteq> []" "length bs < 128"
    and d: "lookup s (take 32 (cmd_name bs)) = Some d" "executable s d" "len = unat (inode_length s (inode d))" "len \<le> 0x3B8000"
  obtains t where "execute lay fr command s = Some (To_user (entry_word s (inode d)) 0x3206 0x08400000, t)"
    "kernel_ok lay t" "running t n" "world t" "xlat t = task_xlat n" "same_image s t" "started_with t (cmd_args bs)"
    "\<forall>i<len. load t (0x08048000 + of_nat i) = file_bytes s (inode d) 0 len ! i" "in_use (fds_of t) = {0, 1}" "user_proc t n"
    "screen_of t = screen_of s" "terminal_being_serviced t = terminal_being_serviced s"
    "\<And>q. program_memory q \<Longrightarrow> q \<notin> block_frames n \<Longrightarrow> ram t q = ram s q" "translate (ptmem t) (cr3 t) 0 = None"
proof -
  have k: "kernel_ok lay s" "running s p" "active lay p s" "owner s p = uint (terminal_state s)" "world s" "low_locals fr s" "in_stack p (frame_ebp fr)"
    using c by (simp_all add: caller_def)
  have w: "mounted s" "length (directory s) \<le> 63" "cursor_ok (cursor_of (unat (terminal_being_serviced s)) s)"
    using k(5) by (simp_all add: world_def)
  note x = conjunct1 [OF caller_xlat [OF c]] conjunct1 [OF conjunct2 [OF caller_xlat [OF c]]] conjunct2 [OF conjunct2 [OF caller_xlat [OF c]]]
  obtain sps where lay: "layout_ok lay" and sps: "spaces_ok lay sps s" using k(1) by (auto simp: kernel_ok_def order_ok_def isolated_def)
  have "n \<in> {0..<6} - pid_set s" using bitmap.pick_fresh [of s] bitmap.pick_fail [of s] n by blast
  then have nb: "0 \<le> n" "n < 6" by auto
  have mem: "exec_memory fr command (length bs) (prog_area n) len s" by (rule low_exec [OF x k(6) cmd(2,4) nb d(4)])
  have cs: "kernel_area (commandstring fr) (Suc (length bs))" using k(6) cmd(4) by (simp add: low_locals_def low_area_def kernel_area_def)
  note dd = d(1) [unfolded lookup_def]
  obtain t where ex: "execute lay fr command s = Some (To_user (entry_word s (inode d)) 0x3206 0x08400000, t)" and rt: "running t n"
    and prog: "\<forall>i<len. load t (0x08048000 + of_nat i) = file_bytes s (inode d) 0 len ! i"
    and ar: "cstr t (args (pcb_of t n)) (cmd_args bs)"
    using execute_loads_program [OF lay k(2) sps k(3) n w(1,2) cmd(1,3,4) dd d(2-4) mem cs] by blast
  have kt: "kernel_ok lay t" by (rule kstep_kernel [OF k(1) execute_step [OF k(2,4,7) ex]])
  note tree = started_tree [OF k(2) ex [unfolded execute_def] n(1) disjI1 [OF refl]]
  obtain u where m: "mem_only (cli s) u" and im: "same_image s u"
    and ie: "internal_execute lay fr command 0 s = Some (start_process lay fr 0 (eflags s) (current_pcb s) n
       (inode d) (split_arg (commandstring fr) bs) (entry_word s (inode d)) u)"
    and ru: "\<forall>q. q \<notin> local_frames fr s \<longrightarrow> ram u q = ram s q"
    by (rule execute_program [OF k(2) n w(1,2) cmd(1,3,4) dd d(2) mem])
  note mf = mem_only_fields [OF m]
  have st: "start_process lay fr 0 (eflags s) (current_pcb s) n (inode d) (split_arg (commandstring fr) bs) (entry_word s (inode d)) u
      = (To_user (entry_word s (inode d)) 0x3206 0x08400000, t)" using ex ie by (simp add: execute_def)
  have ne: "current_pcb s \<noteq> pcb_address n" using running_pcb [OF k(2)] tree(5) pcb_address_inject [OF nb x(2,3)] by simp
  note sel = start_process_sel [OF st nb ne refl refl] and fr = start_process_frame [OF st]
  have ram: "ram t q = ram s q" if "q \<notin> local_frames fr s" "q \<notin> block_frames n" for q
    using start_process_ram [OF st nb ne _ that(2)] ru that(1) mf(8) x(1) by simp
  have act: "active lay n t" using sel(4,12) by (simp add: active_def)
  have own: "owner t n = uint (terminal_state t)" using tree(9,18) by simp
  have nt: "n \<in> pid_set t" using rt by (simp add: running_def)
  have xt: "xlat t = task_xlat n" by (rule own_xlat [OF kt nt act own])
  have la: "low_area (bootblock s) (image_size s)" "low_area (commandstring fr) 1152" using k(6) by (simp_all add: low_locals_def)
  have low: "ram t q = ram s q" if "q = xlat s (bootblock s + of_nat i)" "i < image_size s" for q i
  proof (rule ram)
    show "q \<notin> local_frames fr s" using local_frames_low(3) [OF x(1) k(6)] that by blast
    have "unat q < 0x800000" using lies_low [OF x(1) la(1)] la(1) that by (simp add: lies_def low_area_def)
    then show "q \<notin> block_frames n" by (simp add: block_frames_def block_start_def)
  qed
  have img: "same_image s t"
    unfolding same_image_def
  proof (intro conjI allI impI)
    have "machine.more u = machine.more (cli s)" using m by (simp add: mem_only_def)
    then show "bootblock t = bootblock s" "inodes t = inodes s" "datablocks t = datablocks s"
      using fr(5-7) im by (simp_all add: same_image_def)
    fix i assume i: "i < image_size s"
    show "load t (bootblock s + of_nat i) = load s (bootblock s + of_nat i)"
      using lies_same [OF lies_low [OF x(1) la(1)] lies_low [OF xt la(1)] i] low [OF refl i] by (simp add: load_def)
  qed
  have mu: "machine.more u = machine.more (cli s)" using m by (simp add: mem_only_def)
  have cur: "cursor_of i t = cursor_of i s" for i
    using fr(2,3) sel(8,9) mf(6,7) machine_more_sel [OF mu] by (simp add: cursor_of_def cli_def)
  have ts: "terminal_being_serviced t = terminal_being_serviced s" using fr(1) mf(9) by simp
  have wt: "world t"
    using world_here(1) [OF kt rt act own] w cur ts img la(1) same_image_directory [OF img w(2)] same_image_boot [OF img]
    by (simp add: same_image_def mounted_def image_size_def)
  have "read_bytes t VIDEO 4000 = read_bytes s VIDEO 4000"
  proof (rule nth_equalityI)
    fix i assume "i < length (read_bytes t VIDEO 4000)"
    then have i: "i < 4000" by simp
    have v: "unat (xlat s (VIDEO + of_nat i)) = 0xB8000 + i" using lies_screen [OF x(1)] i by (simp add: lies_def)
    then have "xlat s (VIDEO + of_nat i) \<notin> local_frames fr s" "xlat s (VIDEO + of_nat i) \<notin> block_frames n"
      using local_frames_low(1) [OF x(1) k(6), of "xlat s (VIDEO + of_nat i)"] i by (auto simp: block_frames_def block_start_def)
    then show "read_bytes t VIDEO 4000 ! i = read_bytes s VIDEO 4000 ! i"
      using lies_same [OF lies_screen [OF x(1)] lies_screen [OF xt] i] i ram by (simp add: load_def)
  qed simp
  then have sc: "screen_of t = screen_of s" using ts cur fr(4) machine_more_sel [OF mu] by (simp add: term_vt_def cli_def)
  have "args (pcb_of t n) = split_arg (commandstring fr) bs" using sel(2) ne by simp
  moreover have "split_arg (commandstring fr) bs = commandstring fr + of_nat (length bs - length (cmd_args bs))" by (rule split_arg_bounds(1))
  moreover have "apart t 0x08000000 0x400000 (commandstring fr + of_nat (length bs - length (cmd_args bs))) 1024"
  proof (rule apart_shift [of _ _ _ _ 1152])
    show "apart t 0x08000000 0x400000 (commandstring fr) 1152"
      using lies_apart [OF lies_page [OF xt nb] lies_low [OF xt la(2)]] la(2) by (simp add: low_area_def block_start_def)
  qed (use cmd(4) in simp)
  ultimately have sw: "started_with t (cmd_args bs)" using ar running_pcb [OF rt] by (simp add: started_with_def)
  have "fds_of t = fresh_fds (fd_array (pcbs u (pcb_address n)))" using sel(2) running_pcb [OF rt] ne by simp
  then have fd: "in_use (fds_of t) = {0, 1}" by (auto simp: in_use_def fresh_fds_def std_fd_def split: if_splits)
  have up: "user_proc t n" using tree(10) by simp
  have "ram t q = ram s q" if "program_memory q" "q \<notin> block_frames n" for q
    using ram local_frames_low(2) [OF x(1) k(6)] that by (meson not_less)
  moreover have "translate (ptmem t) (cr3 t) 0 = None" using null_unmapped [OF kt nt] sel(5) by simp
  ultimately show thesis using that [OF ex kt rt wt xt img sw prog fd up sc ts] by blast
qed


section \<open>The end of a program\<close>

lemma own_fds_running: "own_fds_only s t \<Longrightarrow> running t = running s \<and> pid_set t = pid_set s \<and> current_pcb t = current_pcb s"
  by (auto simp: own_fds_only_def running_def pid_set_def current_pcb_def fun_eq_iff)

lemma own_fds_order:
  fixes s t :: "'a kernel_scheme"
  assumes "own_fds_only s t"
  shows "order_ok lay t = order_ok lay s"
proof -
  obtain f where "pcbs t = (pcbs s)(current_pcb s := (pcbs s (current_pcb s))\<lparr>fd_array := f\<rparr>)"
    using assms unfolding own_fds_only_def by blast
  then show ?thesis using assms by (intro order_cong) (auto simp: own_fds_only_def)
qed

lemma same_world_kernel:
  assumes "same_world t u" "kernel_ok lay t"
  shows "kernel_ok lay u"
  using assms own_fds_order [of t u lay] own_fds_running [of t u] by (auto simp: same_world_def world_def kernel_ok_def)

lemma leave_process_frame:
  fixes u v :: "'a kernel_scheme"
  assumes "leave_process lay cur par st u = (fl, v)"
  shows "ram v = ram u" "screen_x v = screen_x u" "screen_y v = screen_y u" "curr_attribute v = curr_attribute u"
    "terminal_being_serviced v = terminal_being_serviced u" "bootblock v = bootblock u" "inodes v = inodes u" "datablocks v = datablocks u"
    "t_screen_x (terminals v i) = t_screen_x (terminals u i)" "t_screen_y (terminals v i) = t_screen_y (terminals u i)"
proof -
  have v: "v = snd (leave_process lay cur par st u)" using assms by simp
  show "ram v = ram u" "screen_x v = screen_x u" "screen_y v = screen_y u" "curr_attribute v = curr_attribute u"
    "terminal_being_serviced v = terminal_being_serviced u" "bootblock v = bootblock u" "inodes v = inodes u" "datablocks v = datablocks u"
    "t_screen_x (terminals v i) = t_screen_x (terminals u i)" "t_screen_y (terminals v i) = t_screen_y (terminals u i)"
    unfolding v leave_process_def execute_resume_def Let_def case_prod_beta
    by (simp_all add: set_new_page_directory_def upd_pcb_def upd_terminal_def mark_pid_free_def restore_flags_def)
qed

text \<open>What the caller finds again: its memory, its descriptors, the image; and it can call again.\<close>

definition resumed :: "layout \<Rightarrow> exec_locals \<Rightarrow> int \<Rightarrow> 'a kernel_scheme \<Rightarrow> 'a kernel_scheme \<Rightarrow> bool" where
  "resumed lay fr p s v \<longleftrightarrow> caller lay fr p v \<and> same_image s v \<and> fds_of v = fds_of s \<and> terminal_being_serviced v = terminal_being_serviced s \<and>
     (\<forall>x. in_user x 1 \<longrightarrow> load v x = load s x)"

lemma program_left:
  fixes s t u v :: "'a kernel_scheme"
  assumes c: "caller lay fr p s" and ex: "execute lay fr command s = Some (To_user e f x, t)" and n: "n = get_available_pid s"
    and t: "kernel_ok lay t" "running t n" "xlat t = task_xlat n" "same_image s t" "terminal_being_serviced t = terminal_being_serviced s"
    and mem: "\<And>q. program_memory q \<Longrightarrow> q \<notin> block_frames n \<Longrightarrow> ram t q = ram s q"
    and u: "same_world t u"
    and lv: "leave_process lay (current_pcb u) (parentPCB (pcb_of u n)) st (u\<lparr>eflags := fl, tss_esp0 := pcb_esp0 (pcb_of u n)\<rparr>) = (r, v)"
    and kv: "kernel_ok lay v"
  shows "r = Return (sint st)" "resumed lay fr p s v" "screen_of v = screen_of u" "eflags v = eflags s"
proof -
  have k: "kernel_ok lay s" "running s p" "active lay p s" "owner s p = uint (terminal_state s)" "world s" "low_locals fr s" "in_stack p (frame_ebp fr)"
    using c by (simp_all add: caller_def)
  have w: "mounted s" "length (directory s) \<le> 63" using k(5) by (simp_all add: world_def)
  note xs = conjunct1 [OF caller_xlat [OF c]]
  note tree = started_tree [OF k(2) ex [unfolded execute_def] n disjI1 [OF refl]]
  have p: "p \<in> pid_set s" using k(2) by (simp add: running_def)
  then have b: "0 \<le> p" "p < 6" using pid_set_bounds by auto
  have fo: "own_fds_only t u" and xu: "xlat u = xlat t" and iu: "same_image t u" and mu: "own_memory_only t u"
    and tsu: "terminal_being_serviced u = terminal_being_serviced t" and wu: "world u"
    using u by (simp_all add: same_world_def)
  note ru = own_fds_running [OF fo]
  have run: "running u n" and pu: "p \<in> pid_set u" using ru t(2) tree(4) p by simp_all
  have cp: "current_pcb t = pcb_address n" "current_pcb u = pcb_address n" using running_pcb [OF t(2)] running_pcb [OF run] by simp_all
  have ne: "pcb_address p \<noteq> pcb_address n" using pcb_address_inject [OF b tree(2,3)] tree(5) by simp
  obtain fd where pc: "pcbs u = (pcbs t)(pcb_address n := (pcb_of t n)\<lparr>fd_array := fd\<rparr>)"
    using fo unfolding own_fds_only_def cp(1) by blast
  have kp: "kept t u n p (frame_ebp fr)" using run pu fo ne by (simp add: kept_def Let_def pc own_fds_only_def)
  have pk: "procs_ok s" using k(1) by (simp add: kernel_ok_def)
  note ek = execute_kept [OF pk k(2) ex [unfolded execute_def] n kp]
  let ?u = "u\<lparr>eflags := fl, tss_esp0 := pcb_esp0 (pcb_of u n)\<rparr>"
  have "leave_process lay (pcb_address n) (pcb_address p) st ?u = (r, v)" using lv cp(2) ek(6) by simp
  moreover have "pid_set ?u = pid_set u" by (simp add: pid_set_def)
  ultimately have lp: "leave_process lay (pcb_address n) (pcb_address p) st ?u = (r, v)" and pu': "p \<in> pid_set ?u" using pu by simp_all
  note l = leave_process_sel [OF lp _ pu' ek(1-3)] and fr = leave_process_frame [OF lp]
  have l': "r = Return (sint st)" "running v p" "eflags v = eflags s" "ptmem v = ptmem u" "\<And>a. a \<noteq> pcb_address n \<Longrightarrow> pcbs v a = pcbs u a"
    "xlat v = mmu_xlat (ptmem u) (get_page_directory_for_pid lay p)" "terminal_state v = terminal_state u"
    using l ek(5,7,9) by simp_all
  show "r = Return (sint st)" "eflags v = eflags s" by (fact l'(1) l'(3))+
  have act: "active lay p v" using l'(4,6) by (simp add: active_def)
  have pv: "pcb_of v p = pcb_of t p" using l'(5) [OF ne] ne by (simp add: pc)
  have tst: "terminal_state v = terminal_state s" using l'(7) fo tree(18) by (simp add: own_fds_only_def)
  have own: "owner v p = uint (terminal_state v)" using pv tst tree(11) [OF p] k(4) by (simp add: owner_def)
  have xv: "xlat v = task_xlat p" using own_xlat [OF kv _ act own] l'(2) by (simp add: running_def)
  have im: "same_image s u" by (rule same_image_trans [OF t(4) iu])
  note bb = same_image_place [OF im]
  have la: "low_area (bootblock s) (image_size s)" using k(6) by (simp add: low_locals_def)
  have imv: "same_image s v"
    unfolding same_image_def
  proof (intro conjI allI impI)
    show "bootblock v = bootblock s" "inodes v = inodes s" "datablocks v = datablocks s" using fr(6-8) im by (simp_all add: same_image_def)
    fix i assume i: "i < image_size s"
    have "xlat v (bootblock s + of_nat i) = xlat u (bootblock s + of_nat i)"
      using lies_same [OF lies_low [OF t(3) la] lies_low [OF xv la] i] xu by simp
    then show "load v (bootblock s + of_nat i) = load s (bootblock s + of_nat i)"
      using im i fr(1) by (simp add: same_image_def load_def)
  qed
  have cur: "cursor_of i v = cursor_of i u" for i using fr(2,3,9,10) l'(7) by (simp add: cursor_of_def)
  have ts: "terminal_being_serviced v = terminal_being_serviced s" using fr(5) tsu t(5) by simp
  have "read_bytes v VIDEO 4000 = read_bytes u VIDEO 4000"
    using lies_same [OF lies_screen [OF t(3)] lies_screen [OF xv]] xu fr(1) by (intro nth_equalityI) (simp_all add: load_def)
  then show "screen_of v = screen_of u" using ts tsu t(5) cur fr(4) by (simp add: term_vt_def)
  have cok: "cursor_ok (cursor_of (unat (terminal_being_serviced v)) v)" using wu cur ts tsu t(5) by (simp add: world_def)
  have mo: "mounted v" "length (directory v) \<le> 63" "low_area (bootblock v) (image_size v)"
    using w la imv same_image_boot [OF imv] same_image_directory [OF imv w(2)] by (simp_all add: same_image_def mounted_def image_size_def)
  have wv: "world v" by (rule world_here(1) [OF kv l'(2) act own mo(1,2) cok mo(3)])
  have lo: "low_locals fr v" using k(6) same_image_place [OF imv] by (simp add: low_locals_def)
  have "load v y = load s y" if y: "in_user y 1" for y
  proof -
    let ?q = "task_xlat p y"
    have q: "?q \<in> block_frames p" using user_frame [OF xv b y] by (simp add: xv)
    have "?q \<notin> block_frames n" by (rule block_frames_apart [OF b(1) tree(2,5) q])
    moreover have "?q \<notin> xlat t ` {a. in_user a 1}"
      using user_frame [OF t(3) tree(2,3)] \<open>?q \<notin> block_frames n\<close> by (auto simp: image_iff)
    moreover have "program_memory ?q" using q by (simp add: block_frames_def block_start_def)
    ultimately have "ram u ?q = ram s ?q" using mu mem by (simp add: own_memory_only_def)
    then show ?thesis using fr(1) xv xs by (simp add: load_def)
  qed
  moreover have "fd_array (pcb_of t p) = fd_array (pcb_of s p)"
    by (rule execute_started [OF k(2) ex [unfolded execute_def] n]) simp
  then have "fds_of v = fds_of s" using pv running_pcb [OF l'(2)] running_pcb [OF k(2)] by simp
  ultimately show "resumed lay fr p s v"
    using kv l'(2) act own wv lo k(7) imv ts by (simp add: resumed_def caller_def)
qed


text \<open>
  The part of a program's life that its caller waits for: from the entry of the program to the call of
  \<^verbatim>\<open>halt\<close> that brings the caller's \<^verbatim>\<open>execute\<close> back.
\<close>

definition runs ::
    "user_link \<Rightarrow> ('a kernel_scheme \<Rightarrow> (int \<times> 'a kernel_scheme) option) \<Rightarrow> u32 \<Rightarrow> u32 \<Rightarrow> 'a kernel_scheme
       \<Rightarrow> (int \<times> 'a kernel_scheme) option" where
  "runs U main eip esp s = (case program_start U main s of Some (Return r, t) \<Rightarrow> Some (r, t) | _ \<Rightarrow> None)"

lemma ends_with_status:
  fixes s t u :: "'a kernel_scheme"
  assumes c: "caller lay fr p s" and ex: "execute lay fr command s = Some (To_user e f x, t)" and n: "n = get_available_pid s"
    and t: "kernel_ok lay t" "running t n" "xlat t = task_xlat n" "same_image s t" "terminal_being_serviced t = terminal_being_serviced s"
    and mem: "\<And>q. program_memory q \<Longrightarrow> q \<notin> block_frames n \<Longrightarrow> ram t q = ram s q"
    and main: "main t = Some (r, u)" "same_world t u" "user_proc t n" "ul_lay V = lay"
  shows "\<exists>v. runs V main e x t = Some (r mod 256, v) \<and> resumed lay fr p s v \<and> screen_of v = screen_of u"
proof -
  let ?st = "ucast (of_int r :: u32) :: u8"
  have fo: "own_fds_only t u" using main(2) by (simp add: same_world_def)
  have ru: "running u n" using own_fds_running [OF fo] t(2) by simp
  obtain fd where "pcbs u = (pcbs t)(current_pcb t := (pcbs t (current_pcb t))\<lparr>fd_array := fd\<rparr>)" using fo unfolding own_fds_only_def by blast
  then have up: "user_proc u n" using main(3) by (auto simp: user_proc_def)
  then have nf: "pcb_flags (pcbs u (current_pcb u)) \<noteq> FIRST_TERM_SHELL" using running_pcb [OF ru] by (auto simp: user_proc_def)
  obtain rr v where lv: "leave_process lay (current_pcb u) (parentPCB (pcb_of u n)) (ucast ?st)
      (u\<lparr>eflags := eflags u AND NOT IF_MASK, tss_esp0 := pcb_esp0 (pcb_of u n)\<rparr>) = (rr, v)" by fastforce
  then have h: "halt lay (ul_fr V) (ul_shell V) ?st u = Some (rr, v)"
    using nf running_pcb [OF ru] by (simp add: halt_def Let_def cli_def current_pcb_def)
  have kv: "kernel_ok lay v" by (rule kstep_kernel [OF same_world_kernel [OF main(2) t(1)] halt_step [OF ru up h]])
  note l = program_left [OF c ex n t mem main(2) lv kv]
  have "unat ?st < 2147483648" by (rule less_le_trans [OF unsigned_less]) simp
  then have "sint (ucast ?st :: u32) = uint ?st" using sint_of_nat_u32 [of "unat ?st"] by simp
  also have "\<dots> = r mod 256" by (simp add: unsigned_ucast_eq take_bit_eq_mod uint_word_of_int mod_mod_cancel)
  finally have "rr = Return (r mod 256)" using l(1) by simp
  then have "program_start V main t = Some (Return (r mod 256), v)"
    using main(1,4) h by (simp add: program_start_def system_call_handler_def)
  then show ?thesis using l(2,3) by (auto simp: runs_def)
qed

text \<open>
  A program meets a contract if in every state in which the kernel may start it, it ends with the status \<open>r\<close>, and
  prints \<open>txt\<close>.
\<close>

definition starts_as :: "'a kernel_scheme \<Rightarrow> dentry \<Rightarrow> u8 list \<Rightarrow> 'a kernel_scheme \<Rightarrow> bool" where
  "starts_as s d w t \<longleftrightarrow> world t \<and> same_image s t \<and> started_with t w \<and> in_use (fds_of t) = {0, 1} \<and>
     translate (ptmem t) (cr3 t) 0 = None \<and> (\<forall>i < unat (inode_length s (inode d)). load t (0x08048000 + of_nat i) = file_of s (inode d) ! i)"

definition program_prints ::
    "('a kernel_scheme \<Rightarrow> (int \<times> 'a kernel_scheme) option) \<Rightarrow> int \<Rightarrow> u8 list \<Rightarrow> 'a kernel_scheme \<Rightarrow> bool" where
  "program_prints main r txt t \<longleftrightarrow> (\<exists>u a m. main t = Some (r, u) \<and> displays txt a m t u)"

lemma execute_runs:
  fixes s :: "'a kernel_scheme"
  assumes c: "caller (ul_lay U) (ul_fr U) p s" and n: "get_available_pid s \<noteq> FAILURE"
    and cmd: "cstr s command bs" "in_user command (Suc (length bs))" "bs \<noteq> []" "length bs < 128"
    and d: "lookup s (take 32 (cmd_name bs)) = Some d" "executable s d" "unat (inode_length s (inode d)) \<le> 0x3B8000"
    and main: "\<And>t. starts_as s d (cmd_args bs) t \<Longrightarrow> program_prints main r txt t" and lay: "ul_lay V = ul_lay U"
  shows "\<exists>v. ece391_execute U (runs V main) command s = Some (r mod 256, v) \<and> resumed (ul_lay U) (ul_fr U) p s v \<and>
    screen_of v = fold vt_putc txt (screen_of s)"
proof -
  obtain t where ex: "execute (ul_lay U) (ul_fr U) command s = Some (To_user (entry_word s (inode d)) 0x3206 0x08400000, t)"
    and t: "kernel_ok (ul_lay U) t" "running t (get_available_pid s)" "world t" "xlat t = task_xlat (get_available_pid s)" "same_image s t"
      "started_with t (cmd_args bs)" "\<forall>i<unat (inode_length s (inode d)). load t (0x08048000 + of_nat i) = file_bytes s (inode d) 0 (unat (inode_length s (inode d))) ! i"
      "in_use (fds_of t) = {0, 1}" "user_proc t (get_available_pid s)" "screen_of t = screen_of s" "terminal_being_serviced t = terminal_being_serviced s"
    and mem: "\<And>q. program_memory q \<Longrightarrow> q \<notin> block_frames (get_available_pid s) \<Longrightarrow> ram t q = ram s q"
    and null: "translate (ptmem t) (cr3 t) 0 = None"
    by (rule program_started [OF c refl n cmd d(1,2) refl d(3)]) blast
  have "starts_as s d (cmd_args bs) t" using t(3,5-8) null by (simp add: starts_as_def file_of_def)
  from main [OF this] obtain u a m where u: "main t = Some (r, u)" "displays txt a m t u" unfolding program_prints_def by blast
  obtain v where "runs V main (entry_word s (inode d)) 0x08400000 t = Some (r mod 256, v)" "resumed (ul_lay U) (ul_fr U) p s v" "screen_of v = screen_of u"
    using ends_with_status [where main = main and n = "get_available_pid s", OF c ex refl t(1,2,4,5,11) mem u(1) displays_same [OF u(2)] t(9) lay] by blast
  moreover have "screen_of u = fold vt_putc txt (screen_of s)" using u(2) t(10) by (simp add: displays_def)
  ultimately show ?thesis using ex by (simp add: ece391_execute_def system_call_handler_def)
qed

end
