(* ===== verification/Shell_Session.thy ===== *)
theory Shell_Session
  imports User_Session User_Properties
begin

text \<open>
  The shell and the programs it runs, from the line that is typed to the next prompt: \<^verbatim>\<open>read\<close>,
  \<^verbatim>\<open>execute\<close>, the loader, the program and its output, \<^verbatim>\<open>halt\<close>, and the shell again.
\<close>

section \<open>Calls between two programs\<close>

lemma caller_same:
  fixes s t :: "'a kernel_scheme"
  assumes "same_world s t" "caller lay fr p s"
  shows "caller lay fr p t"
proof -
  have fo: "own_fds_only s t" and x: "xlat t = xlat s" "same_image s t" "world t" using assms(1) by (simp_all add: same_world_def)
  have k: "kernel_ok lay s" "running s p" "active lay p s" "owner s p = uint (terminal_state s)" "low_locals fr s" "in_stack p (frame_ebp fr)"
    using assms(2) by (simp_all add: caller_def)
  obtain f where "pcbs t = (pcbs s)(current_pcb s := (pcbs s (current_pcb s))\<lparr>fd_array := f\<rparr>)" using fo unfolding own_fds_only_def by blast
  then have "owner t p = owner s p" by (simp add: owner_def)
  then show ?thesis
    using k same_world_kernel [OF assms(1) k(1)] own_fds_running [OF fo] fo x same_image_place [OF x(2)]
    by (simp add: caller_def active_def own_fds_only_def low_locals_def)
qed

lemma starts_as_same:
  fixes s v t :: "'a kernel_scheme"
  assumes "same_world s v" "world s" "executable s d" "starts_as v d w t"
  shows "starts_as s d w t"
proof -
  have im: "same_image s v" using assms(1) by (simp add: same_world_def)
  have m: "mounted s" "inode_wf s (inode d)" using assms(2,3) by (simp_all add: world_def executable_def)
  note f = same_image_wf [OF im m]
  have "file_of v (inode d) = file_of s (inode d)"
    using f(3) f(4) [of 0 "unat (inode_length s (inode d))"] by (simp add: file_of_def)
  then show ?thesis using assms(4) same_image_trans [OF im] f(3) by (simp add: starts_as_def)
qed

text \<open>A turn of the shell with a command: \<open>rval\<close> is what \<^verbatim>\<open>execute\<close> returns for it.\<close>

definition told :: "int \<Rightarrow> u8 list" where
  "told rval = (case outcome rval of None \<Rightarrow> [] | Some m \<Rightarrow> bytes_of m)"

lemma shell_executes:
  fixes s :: "'a kernel_scheme"
  assumes c: "caller (ul_lay U) (ul_fr U) p s" and buf: "in_user buf 1024"
    and lits: "\<forall>m \<in> {''391OS> '', ''exit''}. lit_ok U buf 1024 s m" "\<forall>m. outcome rval = Some m \<longrightarrow> lit_ok U buf 1024 s m"
    and line: "putsl U ''391OS> '' s = Some s1" "waited env l s1 w" "chomp l \<noteq> []" "chomp l \<noteq> bytes_of ''exit''" "length (chomp l) < 128"
    and exec: "\<And>v. same_world s v \<Longrightarrow> caller (ul_lay U) (ul_fr U) p v \<Longrightarrow> cstr v buf (chomp l) \<Longrightarrow> screen_of v = screen_of w \<Longrightarrow>
      \<exists>x. ece391_execute U run buf v = Some (rval, x) \<and> resumed (ul_lay U) (ul_fr U) p v x \<and> Q (screen_of x)"
  shows "\<exists>x scr. shell_turn U env run buf s = Some (Inr x) \<and> caller (ul_lay U) (ul_fr U) p x \<and>
    same_image s x \<and> Q scr \<and> screen_of x = fold vt_putc (told rval) scr \<and> fds_of x = fds_of s \<and>
    (\<forall>a. in_user a 1 \<longrightarrow> \<not> (unat buf \<le> unat a \<and> unat a < unat buf + 1024) \<longrightarrow> load x a = load s a)"
proof -
  have w: "world s" using c by (simp add: caller_def)
  obtain v where v: "displays [] buf 1024 w v" "cstr v buf (chomp l)" "fds_of v = fds_of s" "shell_turn U env run buf s =
      do { (rval, x) \<leftarrow> ece391_execute U run buf v;
               case outcome rval of None \<Rightarrow> Some (Inr x)
               | Some m \<Rightarrow> do { y \<leftarrow> putsl U m x; Some (Inr y) } }"
    using shell_line [OF w buf lits(1) line(1,2), of run] line(3,4) by auto
  have d1: "displays (bytes_of ''391OS> '') buf 0 s s1"
    using putsl_displays [OF w, of U buf 1024 "''391OS> ''" buf 0] lits(1) line(1) by auto
  have sw: "same_world s v"
    using displays_same [OF d1] line(2) displays_same [OF v(1)] same_world_trans by (metis waited_def)
  have out: "load v a = load s a" if "in_user a 1" "\<not> (unat buf \<le> unat a \<and> unat a < unat buf + 1024)" for a
    using v(1) line(2) d1 that by (simp add: displays_def waited_def)
  have im: "same_image s v" using sw by (simp add: same_world_def)
  have "screen_of v = screen_of w" using v(1) by (simp add: displays_def)
  from exec [OF sw caller_same [OF sw c] v(2) this] obtain x where
    x: "ece391_execute U run buf v = Some (rval, x)" "resumed (ul_lay U) (ul_fr U) p v x" "Q (screen_of x)" by blast
  have cx: "caller (ul_lay U) (ul_fr U) p x" and ix: "same_image s x" and lx: "\<And>a. in_user a 1 \<Longrightarrow> load x a = load v a"
    and fx: "fds_of x = fds_of s" using x(2) v(3) same_image_trans [OF im] by (simp_all add: resumed_def)
  show ?thesis
  proof (cases "outcome rval")
    case None
    then have "shell_turn U env run buf s = Some (Inr x)" using v(4) x(1) by simp
    then show ?thesis using cx ix x(3) fx lx out None by (auto simp: told_def)
  next
    case (Some m)
    have "lit_ok U buf 1024 v m"
      using lit_displays [OF v(1)] waited_lit [OF line(2)] lit_displays [OF displays_mono [OF d1, of buf 1024]] lits(2) Some by blast
    moreover have "cstr x (ul_lit U m) (bytes_of m)" if "lit_ok U buf 1024 v m"
    proof (rule cstr_load_cong)
      show "cstr v (ul_lit U m) (bytes_of m)" using that by (simp add: lit_ok_def)
      fix i assume "i \<le> length (bytes_of m)"
      then have "i + 1 \<le> Suc (length m)" by (simp add: bytes_of_def)
      then have "in_user (ul_lit U m + of_nat i) 1" using that in_user_shift [of "ul_lit U m" "Suc (length m)" i 1] by (simp only: lit_ok_def)
      then show "load x (ul_lit U m + of_nat i) = load v (ul_lit U m + of_nat i)" by (rule lx)
    qed
    ultimately have "lit_ok U buf 1024 x m" by (simp add: lit_ok_def)
    then obtain y where y: "putsl U m x = Some y" "displays (bytes_of m) buf 0 x y" "fds_of y = fds_of x"
      using putsl_displays [of x] cx unfolding caller_def by blast
    have e: "shell_turn U env run buf s = Some (Inr y)" using v(4) x(1) y(1) Some by simp
    have sy: "same_world x y" "screen_of y = fold vt_putc (bytes_of m) (screen_of x)" "\<And>a. in_user a 1 \<Longrightarrow> load y a = load x a"
      using y(2) by (simp_all add: displays_def)
    have "same_image s y" using same_image_trans [OF ix] sy(1) by (simp add: same_world_def)
    then show ?thesis using e caller_same [OF sy(1) cx] sy(2,3) x(3) fx y(3) lx out Some by (auto simp: told_def)
  qed
qed

text \<open>What the shell says about the status of a program that was not ended by an exception.\<close>

definition report :: "int \<Rightarrow> u8 list" where
  "report rval = (if rval = 0 then [] else bytes_of ''program terminated abnormally\<newline>'')"

lemma told_report: "0 \<le> rval \<Longrightarrow> rval < 256 \<Longrightarrow> told rval = report rval"
  by (simp add: told_def report_def outcome_def)

lemma shell_runs:
  fixes s :: "'a kernel_scheme"
  assumes c: "caller (ul_lay U) (ul_fr U) p s" and buf: "in_user buf 1024"
    and lits: "\<forall>m \<in> {''391OS> '', ''exit'', ''program terminated abnormally\<newline>''}. lit_ok U buf 1024 s m"
    and line: "putsl U ''391OS> '' s = Some s1" "waited env l s1 w" "chomp l \<noteq> []" "chomp l \<noteq> bytes_of ''exit''" "length (chomp l) < 128"
    and d: "lookup s (take 32 (cmd_name (chomp l))) = Some d" "executable s d" "unat (inode_length s (inode d)) \<le> 0x3B8000"
    and n: "get_available_pid s \<noteq> FAILURE" and lay: "ul_lay V = ul_lay U"
    and main: "\<And>t. starts_as s d (cmd_args (chomp l)) t \<Longrightarrow> program_prints main r txt t"
  shows "\<exists>x. shell_turn U env (runs V main) buf s = Some (Inr x) \<and> caller (ul_lay U) (ul_fr U) p x \<and>
    same_image s x \<and> screen_of x = fold vt_putc (txt @ report (r mod 256)) (screen_of w) \<and> fds_of x = fds_of s \<and>
    (\<forall>a. in_user a 1 \<longrightarrow> \<not> (unat buf \<le> unat a \<and> unat a < unat buf + 1024) \<longrightarrow> load x a = load s a)"
proof -
  have w: "world s" using c by (simp add: caller_def)
  have mt: "mounted s" using w by (simp add: world_def)
  have iu: "in_user buf (Suc (length (chomp l)))" by (rule in_user_mono [OF buf]) (use line(5) in simp)
  have l2: "\<forall>m \<in> {''391OS> '', ''exit''}. lit_ok U buf 1024 s m" using lits by blast
  have b: "0 \<le> r mod 256" "r mod 256 < 256" by simp_all
  then have "r mod 256 \<noteq> 256" "r mod 256 \<noteq> -1" by linarith+
  then have o: "\<forall>m. outcome (r mod 256) = Some m \<longrightarrow> lit_ok U buf 1024 s m" using lits by (simp add: outcome_def)
  have exec: "\<exists>x. ece391_execute U (runs V main) buf v = Some (r mod 256, x) \<and> resumed (ul_lay U) (ul_fr U) p v x \<and>
      screen_of x = fold vt_putc txt (screen_of w)"
    if v: "same_world s v" "caller (ul_lay U) (ul_fr U) p v" "cstr v buf (chomp l)" "screen_of v = screen_of w" for v
  proof -
    have nv: "get_available_pid v \<noteq> FAILURE" using n v(1) by (simp add: same_world_def own_fds_only_def get_available_pid_def)
    have im: "same_image s v" using v(1) by (simp add: same_world_def)
    have "lookup v (take 32 (cmd_name (chomp l))) = Some d" using d(1) lookup_same [OF v(1) w] by simp
    then show ?thesis
      using execute_runs [OF v(2) nv v(3) iu line(3,5) _ same_image_executable(1) [OF im mt d(2)] _ main [OF starts_as_same [OF v(1) w d(2)]] lay]
        same_image_executable(3) [OF im mt d(2)] d(3) v(4) by auto
  qed
  from shell_executes [OF c buf l2 o line, of "runs V main" "\<lambda>scr. scr = fold vt_putc txt (screen_of w)"] exec
  show ?thesis unfolding told_report [OF b] by fastforce
qed

text \<open>
  The string constants of a program are in its file: where the linker put them, counted from the address at which the
  file is loaded.
\<close>

definition carries :: "'a kernel_scheme \<Rightarrow> dentry \<Rightarrow> user_link \<Rightarrow> string \<Rightarrow> bool" where
  "carries s d V m \<longleftrightarrow> 0x08048000 \<le> unat (ul_lit V m) \<and> 0 \<notin> set (bytes_of m) \<and>
     (let k = unat (ul_lit V m) - 0x08048000
      in k + Suc (length m) \<le> min 0x3B8000 (length (file_of s (inode d))) \<and>
         take (Suc (length m)) (drop k (file_of s (inode d))) = bytes_of m @ [0])"

lemma starts_lit:
  assumes "starts_as s d w t" "carries s d V m" "clear_of a n (ul_lit V m) (Suc (length m))"
  shows "lit_ok V a n t m"
proof -
  let ?k = "unat (ul_lit V m) - 0x08048000" and ?n = "Suc (length m)"
  have c: "0x08048000 \<le> unat (ul_lit V m)" "0 \<notin> set (bytes_of m)" "?k + ?n \<le> length (file_of s (inode d))" "?k + ?n \<le> 0x3B8000"
    "take ?n (drop ?k (file_of s (inode d))) = bytes_of m @ [0]" using assms(2) unfolding carries_def Let_def min.bounded_iff by blast+
  have iu: "in_user (ul_lit V m) ?n" using c(1,4) unfolding in_user_def by linarith
  have "(of_nat ?k :: u32) = of_nat (unat (ul_lit V m)) - of_nat 0x08048000" using c(1) by (intro of_nat_diff)
  then have k: "0x08048000 + of_nat ?k = ul_lit V m" by simp
  have ld: "load t (ul_lit V m + of_nat i) = (bytes_of m @ [0]) ! i" if "i < ?n" for i
  proof -
    have "?k + i < unat (inode_length s (inode d))" using that c(3) by (simp add: length_file_of)
    then have "load t (0x08048000 + of_nat (?k + i)) = file_of s (inode d) ! (?k + i)" using assms(1) unfolding starts_as_def by blast
    moreover have "0x08048000 + of_nat (?k + i) = (0x08048000 + of_nat ?k) + (of_nat i :: u32)" by (simp only: of_nat_add add.assoc)
    then have "0x08048000 + of_nat (?k + i) = ul_lit V m + (of_nat i :: u32)" by (simp only: k)
    moreover have "?k \<le> length (file_of s (inode d))" using c(3) by (rule add_leD1)
    then have "(bytes_of m @ [0]) ! i = file_of s (inode d) ! (?k + i)" unfolding c(5) [symmetric] by (simp only: nth_take [OF that] nth_drop)
    ultimately show ?thesis by (simp only:)
  qed
  have "read_bytes t (ul_lit V m) (length m) = bytes_of m"
    by (rule nth_equalityI) (simp_all add: ld nth_append bytes_of_def)
  moreover have "length m < 4294967296" using c(4) by simp
  ultimately have "cstr t (ul_lit V m) (bytes_of m)"
    using ld [of "length m"] c(2) by (simp add: cstr_def nth_append bytes_of_def)
  then show ?thesis using iu assms(3) by (simp add: lit_ok_def)
qed

text \<open>The program \<^verbatim>\<open>cat\<close>, from its file.\<close>

lemma cat_program:
  fixes s :: "'a kernel_scheme"
  assumes "starts_as s d w t" "world s" "in_user buf 1024" "length w \<le> 1024"
    and "\<forall>m \<in> {''could not read arguments\<newline>'', ''file not found\<newline>''}. carries s d V m \<and> clear_of buf 1024 (ul_lit V m) (Suc (length m))"
    and "lookup s (take 32 w) = Some f" "filetype f = 2" "file_ok s (inode f)"
  shows "program_prints (cat_main V env buf) 0 (cat_text (file_of s (inode f))) t"
proof -
  have t: "world t" "started_with t w" and im: "same_image s t" and iu: "in_use (fds_of t) = {0, 1}"
    using assms(1) unfolding starts_as_def by blast+
  have "2 \<notin> in_use (fds_of t)" "(2 :: nat) \<in> {2..<8}" unfolding iu by simp_all
  then have fd: "fd_free t" unfolding fd_free_def by blast
  have s: "mounted s" "length (directory s) \<le> 63" using assms(2) by (simp_all add: world_def)
  have wf: "inode_wf s (inode f)" using assms(8) by (simp add: file_ok_def)
  note ff = same_image_wf [OF im s(1) wf]
  have lk: "lookup t (take 32 w) = Some f" using assms(6) same_image_directory [OF im s(2)] by (simp add: lookup_def)
  have fo: "file_of t (inode f) = file_of s (inode f)" using ff(3) ff(4) [of 0 "unat (inode_length s (inode f))"] by (simp add: file_of_def)
  have fk: "file_ok t (inode f)" using assms(8) ff(1,2) by (simp add: file_ok_def)
  have lits: "\<forall>m \<in> {''could not read arguments\<newline>'', ''file not found\<newline>''}. lit_ok V buf 1024 t m" using starts_lit [OF assms(1)] assms(5) by blast
  have fs: "\<forall>d. lookup t (take 32 w) = Some d \<longrightarrow> filetype d = 2 \<and> file_ok t (inode d)" using lk fk assms(7) by simp
  have "cat_result t w = (0, cat_text (file_of s (inode f)))" using assms(4) lk fo by (simp add: cat_result_def)
  then obtain u where "cat_main V env buf t = Some (0, u)" "displays (cat_text (file_of s (inode f))) buf 1024 t u"
    using cat_shows_file [OF t(1) assms(3) t(2) fd lits fs] by blast
  then show ?thesis unfolding program_prints_def by blast
qed

text \<open>
  C17: The shell runs a program: after a line whose first word names an executable file, \<^verbatim>\<open>execute\<close> starts the
  program in a fresh process, with the file in its memory, the rest of the line as its arguments and two descriptors; whatever
  program is in the file, if it meets its contract from there (it returns \<open>r\<close> and prints \<open>txt\<close>, as \<open>program_prints\<close> says), then the
  shell prompts again after exactly that text, and a report if the status is not 0, has appeared on its terminal. The
  shell's memory outside its line buffer, its descriptors and the files are as before, and the kernel is in order.
\<close>

theorem shell_runs_program:
  fixes s :: "'a kernel_scheme"
  assumes "caller (ul_lay U) (ul_fr U) p s" "in_user buf 1024"
    and "\<forall>m \<in> {''391OS> '', ''exit'', ''program terminated abnormally\<newline>''}. lit_ok U buf 1024 s m"
    and "putsl U ''391OS> '' s = Some s1" "waited env l s1 w" "chomp l \<noteq> []" "chomp l \<noteq> bytes_of ''exit''" "length (chomp l) < 128"
    and "lookup s (take 32 (cmd_name (chomp l))) = Some d" "executable s d" "unat (inode_length s (inode d)) \<le> 0x3B8000"
    and "get_available_pid s \<noteq> FAILURE" "ul_lay V = ul_lay U"
    and "\<And>t. starts_as s d (cmd_args (chomp l)) t \<Longrightarrow> program_prints main r txt t"
  shows "\<exists>x. shell_turn U env (runs V main) buf s = Some (Inr x) \<and> caller (ul_lay U) (ul_fr U) p x \<and>
    same_image s x \<and> screen_of x = fold vt_putc (txt @ report (r mod 256)) (screen_of w) \<and> fds_of x = fds_of s \<and>
    (\<forall>a. in_user a 1 \<longrightarrow> \<not> (unat buf \<le> unat a \<and> unat a < unat buf + 1024) \<longrightarrow> load x a = load s a)"
  by (rule shell_runs [OF assms])

text \<open>
  So \<^verbatim>\<open>cat\<close> with the name of a file, typed at the prompt, shows the file and gives the prompt again, if the file
  that holds \<^verbatim>\<open>cat\<close> carries the string constants of the program.
\<close>

corollary shell_shows_file:
  fixes s :: "'a kernel_scheme"
  assumes c: "caller (ul_lay U) (ul_fr U) p s" and buf: "in_user buf 1024" "in_user cbuf 1024"
    and lits: "\<forall>m \<in> {''391OS> '', ''exit'', ''program terminated abnormally\<newline>''}. lit_ok U buf 1024 s m"
    and line: "putsl U ''391OS> '' s = Some s1" "waited env l s1 w" "chomp l \<noteq> []" "chomp l \<noteq> bytes_of ''exit''" "length (chomp l) < 128"
    and d: "lookup s (take 32 (cmd_name (chomp l))) = Some d" "executable s d" "unat (inode_length s (inode d)) \<le> 0x3B8000"
    and n: "get_available_pid s \<noteq> FAILURE" and lay: "ul_lay V = ul_lay U"
    and cat: "\<forall>m \<in> {''could not read arguments\<newline>'', ''file not found\<newline>''}. carries s d V m \<and> clear_of cbuf 1024 (ul_lit V m) (Suc (length m))"
    and f: "lookup s (take 32 (cmd_args (chomp l))) = Some f" "filetype f = 2" "file_ok s (inode f)"
  shows "\<exists>x. shell_turn U env (runs V (cat_main V cenv cbuf)) buf s = Some (Inr x) \<and>
    screen_of x = fold vt_putc (cat_text (file_of s (inode f))) (screen_of w)"
proof -
  have ws: "world s" using c by (simp add: caller_def)
  have "length (cmd_args (chomp l)) \<le> 1024" using line(5) split_arg_bounds(2) [of "chomp l"] by simp
  note run = cat_program [OF _ ws buf(2) this cat f]
  have r: "report (0 mod 256) = []" by (simp add: report_def)
  show ?thesis using shell_runs [OF c buf(1) lits line d n lay run] unfolding r append_Nil2 by blast
qed

text \<open>The concrete kernel with paging, with the shell's strings in the page of process 0.\<close>

definition session_strings :: "string list" where
  "session_strings = [''391OS> '', ''exit'', ''program terminated abnormally\<newline>'']"

definition session_demo :: kernel where
  "session_demo = place_from 0 session_strings demo"

lemma session_strings_ok: "length session_strings \<le> 100" "list_all short_text session_strings"
  by code_simp+

lemma demo_cursor: "screen_x demo = 0" "screen_y demo = 0" "terminal_being_serviced demo = 0" "terminals demo = (\<lambda>_. blank_terminal)"
proof -
  obtain m where "setup_task_paging (get_page_directory_for_pid demo_layout 0) (get_base_page_table_for_pid demo_layout 0)
      (block_address_for_process 0) flat_demo = flat_demo\<lparr>ptmem := m\<rparr>" using setup_task_paging_ptmem by blast
  then show "screen_x demo = 0" "screen_y demo = 0" "terminal_being_serviced demo = 0" "terminals demo = (\<lambda>_. blank_terminal)"
    by (simp_all add: demo_def set_new_page_directory_def)
qed

lemma demo_caller: "caller demo_layout demo_locals 0 demo"
proof -
  have im: "bootblock demo = 0x500000" "image_size demo = 12288"
    using same_image_place [OF same_image_demo] demo_image_size by simp_all
  have own: "owner demo 0 = uint (terminal_state demo)" by (simp add: owner_def blank_pcb_def)
  have "cursor_ok (cursor_of (unat (terminal_being_serviced demo)) demo)"
    by (simp add: cursor_of_def cursor_ok_def demo_cursor blank_terminal_def)
  moreover have la: "low_area (bootblock demo) (image_size demo)" by (simp add: im low_area_def)
  ultimately have "world demo"
    using world_here(1) [OF demo_kernel_ok running_demo active_demo own demo_program(1,2)] by blast
  moreover have "low_locals demo_locals demo" by (simp add: low_locals_def im low_area_def clear_of_def demo_locals_def)
  moreover have "in_stack 0 (frame_ebp demo_locals)" by (simp add: in_stack_def demo_locals_def pcb_address_def kernel_stack_def)
  ultimately show ?thesis using demo_kernel_ok running_demo active_demo own by (simp add: caller_def)
qed

lemma session_demo_same: "same_world demo session_demo" "\<forall>m \<in> set session_strings. lit_ok (demo_link session_strings) 0x08200000 1024 session_demo m"
proof -
  have w: "world demo" using demo_caller by (simp add: caller_def)
  have "displays [] (slot 0) (256 * length session_strings) demo session_demo"
    using place_from_displays [OF w, of 0 session_strings] session_strings_ok by (simp add: session_demo_def)
  then show "same_world demo session_demo" by (simp add: displays_def)
  show "\<forall>m \<in> set session_strings. lit_ok (demo_link session_strings) 0x08200000 1024 session_demo m"
    unfolding session_demo_def using place_lit [OF w session_strings_ok] by simp
qed

text \<open>The program in the file \<^verbatim>\<open>hi\<close>: it prints the last two bytes of its own image.\<close>

definition hi_main :: "user_link \<Rightarrow> 'a kernel_scheme \<Rightarrow> (int \<times> 'a kernel_scheme) option" where
  "hi_main V s = do { (r, s) \<leftarrow> ece391_write V 1 0x0804801C 2 s; Some (r, s) }"

lemma hi_prints:
  assumes "starts_as s d w t" "file_of s (inode d) = hi_file" "unat (inode_length s (inode d)) = 30"
  shows "program_prints (hi_main V) 2 [0x41, 0x42] t"
proof -
  have t: "world t" "\<And>i. i < 30 \<Longrightarrow> load t (0x08048000 + of_nat i) = hi_file ! i" using assms by (simp_all add: starts_as_def)
  have "load t 0x0804801C = 0x41" "load t 0x0804801D = 0x42" using t(2) [of 28] t(2) [of 29] by (simp_all add: hi_file_def)
  then have "read_bytes t 0x0804801C 2 = [0x41, 0x42]" by (simp add: numeral_2_eq_2 read_bytes_Suc)
  then have "field_text t 0x0804801C 2 = [0x41, 0x42]" by (simp add: field_text_def)
  moreover obtain u where "ece391_write V 1 0x0804801C (int 2) t = Some (int 2, u)" "displays (field_text t 0x0804801C 2) 0 0 t u"
    using write_displays [OF t(1), of "0x0804801C" 2 V 0 0] by (auto simp: in_user_def)
  ultimately show ?thesis by (auto simp: program_prints_def hi_main_def)
qed

theorem shell_runs_program_witness:
  "\<exists>s1 w x. putsl (demo_link session_strings) ''391OS> '' session_demo = Some s1 \<and> waited (typing (bytes_of ''hi 42\<newline>'')) (bytes_of ''hi 42\<newline>'') s1 w \<and>
     shell_turn (demo_link session_strings) (typing (bytes_of ''hi 42\<newline>'')) (runs (demo_link []) (hi_main (demo_link []))) 0x08200000 session_demo
      = Some (Inr x) \<and>
     screen_of x = fold vt_putc (bytes_of ''ABprogram terminated abnormally\<newline>'') (screen_of w)"
proof -
  let ?U = "demo_link session_strings" and ?V = "demo_link []" and ?l = "bytes_of ''hi 42\<newline>''"
  note sw = session_demo_same(1)
  have c: "caller (ul_lay ?U) (ul_fr ?U) 0 session_demo" using caller_same [OF sw demo_caller] by (simp add: demo_link_def)
  then have w: "world session_demo" by (simp add: caller_def)
  have lits: "\<forall>m \<in> {''391OS> '', ''exit'', ''program terminated abnormally\<newline>''}. lit_ok ?U 0x08200000 1024 session_demo m"
    using session_demo_same(2) by (simp add: session_strings_def)
  have l: "length ?l \<le> 128" "0 \<notin> set ?l" "chomp ?l = demo_cmd" "demo_cmd \<noteq> bytes_of ''exit''" by code_simp+
  obtain s1 where s1: "putsl ?U ''391OS> '' session_demo = Some s1" "displays (bytes_of ''391OS> '') 0 0 session_demo s1" "input_of s1 = input_of session_demo"
    using putsl_displays [OF w] lits by blast
  have ts: "terminal_being_serviced demo = 0" "terminals demo 0 = blank_terminal" by (simp_all add: demo_cursor)
  have "terminals session_demo = terminals demo" using machine_more_sel(5) [of session_demo demo] by (simp add: session_demo_def)
  then have "snd (input_of s1 0) = 0" "terminal_being_serviced s1 = 0"
    using s1(2,3) sw ts by (simp_all add: input_of_def blank_terminal_def displays_def same_world_def)
  then obtain w where wt: "waited (typing ?l) ?l s1 w" using typing_waited [OF displays_world [OF s1(2)]] l(1,2) by blast
  have im: "same_image demo session_demo" using sw by (simp add: same_world_def)
  have dir: "lookup session_demo (take 32 (cmd_name (chomp ?l))) = Some hi_dentry"
    using demo_lookup same_image_directory [OF im demo_program(2)] l(3) by (simp add: lookup_def)
  have wf: "inode_wf demo 0" using demo_program(3) by (simp add: executable_def)
  note ff = same_image_wf [OF im demo_program(1) wf]
  have ex: "executable session_demo hi_dentry" "unat (inode_length session_demo 0) = 30"
    using same_image_executable [OF im demo_program(1,3)] demo_program(4) by simp_all
  have fo: "file_of session_demo 0 = hi_file"
    using ff(3) ff(4) [of 0 30] demo_program(4,5) by (simp add: file_of_def)
  have "pid_avail session_demo = 1" using sw by (simp add: same_world_def own_fds_only_def)
  then have n: "get_available_pid session_demo \<noteq> FAILURE" by (simp add: get_available_pid_def numeral_eq_Suc)
  have hp: "program_prints (hi_main ?V) 2 [0x41, 0x42] t" if "starts_as session_demo hi_dentry w t" for w t
    by (rule hi_prints [OF that]) (simp_all only: hi_inode fo ex(2))
  have b: "in_user 0x08200000 1024" by (simp add: in_user_def)
  have q: "chomp ?l \<noteq> []" "chomp ?l \<noteq> bytes_of ''exit''" "length (chomp ?l) < 128" "unat (inode_length session_demo (inode hi_dentry)) \<le> 0x3B8000"
    "ul_lay ?V = ul_lay ?U" using l(4) by (simp_all add: l(3) demo_cmd_parts ex(2) demo_link_def)
  obtain x where e: "shell_turn ?U (typing ?l) (runs ?V (hi_main ?V)) 0x08200000 session_demo = Some (Inr x)"
      and sc: "screen_of x = fold vt_putc ([0x41, 0x42] @ report (2 mod 256)) (screen_of w)"
    using shell_runs_program [where main = "hi_main ?V", OF c b lits s1(1) wt q(1-3) dir ex(1) q(4) n q(5)] hp by metis
  have tx: "[0x41, 0x42] @ report (2 mod 256) = bytes_of ''ABprogram terminated abnormally\<newline>''" by code_simp
  show ?thesis using s1(1) wt e sc unfolding tx by blast
qed

end
