(* ===== verification/User_Faults.thy ===== *)
theory User_Faults
  imports Shell_Session
begin

text \<open>
  Programs that the processor stops: the program \<^verbatim>\<open>sigtest\<close> (\<^verbatim>\<open>syscalls/ece391sigtest.c\<close>), which writes to address 0,
  and what the exception means for the program that waits for it in \<^verbatim>\<open>execute\<close>.
\<close>

section \<open>sigtest\<close>

text \<open>
  A store of a program: it goes through if the page is mapped for users, else it is a page fault. A run of a program is a
  sum from here on, \<open>Inl\<close> the state at the fault.
\<close>

definition user_store :: "u32 \<Rightarrow> u8 \<Rightarrow> 'a kernel_scheme \<Rightarrow> 'a kernel_scheme + 'a kernel_scheme" where
  "user_store a b s = (case translate (ptmem s) (cr3 s) a of Some (_, True) \<Rightarrow> Inr (store a b s) | _ \<Rightarrow> Inl s)"

text \<open>The static data of the program and its functions.\<close>

record sigtest_link =
  badbuf :: u32
  charbuf :: u32
  segfault_handler :: u32
  alarm_handler :: u32

abbreviation (input) SEGFAULT :: int where "SEGFAULT \<equiv> 1"
abbreviation (input) ALARM :: int where "ALARM \<equiv> 3"

definition sigtest_main ::
    "user_link \<Rightarrow> 'a waiting \<Rightarrow> sigtest_link \<Rightarrow> u32 \<Rightarrow> 'a kernel_scheme \<Rightarrow> ('a kernel_scheme + int \<times> 'a kernel_scheme) option" where
  "sigtest_main U env B buf s =
     do { (r, s) \<leftarrow> ece391_getargs U buf 1024 s;
          if 0 \<noteq> r then do { s \<leftarrow> putsl U ''could not read argument\<newline>'' s; Some (Inr (3, s)) }
          else do { s \<leftarrow> (if load s buf = of_char CHR ''1''
                          then do { s \<leftarrow> putsl U ''Installing signal handlers\<newline>'' s;
                                    (_, s) \<leftarrow> ece391_set_handler U SEGFAULT (segfault_handler B) s;
                                    (_, s) \<leftarrow> ece391_set_handler U ALARM (alarm_handler B) s;
                                    Some s }
                          else Some s);
                    s \<leftarrow> putsl U ''Hi, what's your name? '' s;
                    (cnt, s) \<leftarrow> ece391_read U env 0 buf 1023 s;
                    if -1 = cnt then do { s \<leftarrow> putsl U ''Can't read name from keyboard.\<newline>'' s; Some (Inr (3, s)) }
                    else case user_store (load32 s (badbuf B)) 1 s of Inl s \<Rightarrow> Some (Inl s)
                    | Inr s \<Rightarrow>
                        let s = store (buf + of_int cnt) 0 s
                        in do { s \<leftarrow> putsl U ''Hello, '' s;
                                s \<leftarrow> ece391_fdputs U 1 buf s;
                                s \<leftarrow> (if load s (charbuf B) = 1 then putsl U ''success\<newline>'' s else putsl U ''failure\<newline>'' s);
                                Some (Inr (0, s)) } } }"

text \<open>The handlers, which the kernel never calls; \<open>a\<close> is the address of the argument, \<open>hbuf\<close> that of the local.\<close>

definition signum_line :: "int \<Rightarrow> string" where
  "signum_line signum =
     (if signum = 0 then ''0\<newline>'' else if signum = 1 then ''1\<newline>'' else if signum = 2 then ''2\<newline>''
      else if signum = 3 then ''3\<newline>'' else ''invalid\<newline>'')"

definition segfault_sighandler ::
    "user_link \<Rightarrow> 'a waiting \<Rightarrow> sigtest_link \<Rightarrow> u32 \<Rightarrow> u32 \<Rightarrow> 'a kernel_scheme \<Rightarrow> 'a kernel_scheme option" where
  "segfault_sighandler U env B hbuf a s =
     do { s \<leftarrow> putsl U ''Segfault signal handler called, signum: '' s;
          s \<leftarrow> putsl U (signum_line (sint (load32 s a))) s;
          s \<leftarrow> putsl U ''Press enter to continue...\<newline>'' s;
          (_, s) \<leftarrow> ece391_read U env 0 hbuf 1 s;
          let s = store32 (badbuf B) (charbuf B) s;
              s = store32 (a + 28) (charbuf B) s
          in putsl U ''Signal handler returning\<newline>'' s }"

definition alarm_sighandler :: "user_link \<Rightarrow> u32 \<Rightarrow> 'a kernel_scheme \<Rightarrow> 'a kernel_scheme option" where
  "alarm_sighandler U a s =
     do { s \<leftarrow> putsl U ''Alarm signal handler called, signum: '' s; putsl U (signum_line (sint (load32 s a))) s }"

lemma strncpy_more: "machine.more (strncpy dest src n s) = machine.more s"
proof -
  have "machine.more (snd (strncpy_copy dest src k i s)) = machine.more s" for k i
    by (induction dest src k i s rule: strncpy_copy.induct) (subst strncpy_copy.simps, simp)
  then show ?thesis by (simp add: strncpy_def strncpy_pad_eq case_prod_beta)
qed

lemma getargs_input: "ece391_getargs U buf 1024 s = Some (r, t) \<Longrightarrow> input_of t = input_of s"
  using machine_more_sel(5) [of t s]
  by (auto simp: user_calls [of 0] sys_getargs_def Let_def input_of_def fun_eq_iff machine_more_sel(5) [OF strncpy_more] split: if_splits option.splits)

text \<open>What the program prints before it reads.\<close>

definition sigtest_text :: "u8 list \<Rightarrow> u8 list" where
  "sigtest_text w = (if w \<noteq> [] \<and> hd w = of_char CHR ''1'' then bytes_of ''Installing signal handlers\<newline>'' else []) @
     bytes_of ''Hi, what's your name? ''"

text \<open>
  C40: \<^verbatim>\<open>sigtest\<close> never says hello: whether or not it asked for signal handlers (the kernel refuses them, which it
  does not look at), it prints its question, takes the name that is typed, and is stopped by a page fault at its
  store to address 0. Up to there it has changed nothing but its buffer.
\<close>

theorem sigtest_faults:
  fixes s :: "'a kernel_scheme"
  assumes "world s" "in_user buf 1024" "started_with s w" "length w \<le> 1024" "translate (ptmem s) (cr3 s) 0 = None"
    and "\<forall>m \<in> {''Installing signal handlers\<newline>'', ''Hi, what's your name? ''}. lit_ok U buf 1024 s m"
    and "in_user (badbuf B) 4" "clear_of buf 1024 (badbuf B) 4" "load32 s (badbuf B) = 0"
    and "\<forall>u. displays (sigtest_text w) buf 1024 s u \<longrightarrow> input_of u = input_of s \<longrightarrow> (\<exists>x. waited env l u x)"
  shows "\<exists>u x t. displays (sigtest_text w) buf 1024 s u \<and> waited env l u x \<and> displays [] buf 1024 x t \<and>
    sigtest_main U env B buf s = Some (Inl t)"
proof -
  let ?i = "''Installing signal handlers\<newline>''" and ?h = "''Hi, what's your name? ''"
  obtain a where a: "ece391_getargs U buf 1024 s = Some (0, a)" "displays [] buf 1024 s a"
      "read_bytes a buf 1024 = w @ replicate (1024 - length w) 0" using getargs_user [OF assms(1-3), of U] assms(4) by auto
  have "read_bytes a buf 1024 ! 0 = load a buf" by (simp add: nth_read_bytes)
  then have la: "load a buf = (if w = [] then 0 else hd w)" unfolding a(3) by (cases w) simp_all
  have lits: "lit_ok U buf 1024 a ?i" "lit_ok U buf 1024 a ?h" using lit_displays [OF a(2)] assms(6) by simp_all
  define inst where "inst = (w \<noteq> [] \<and> hd w = of_char CHR ''1'')"
  have one: "load a buf = of_char CHR ''1'' \<longleftrightarrow> inst" using la by (auto simp: inst_def)
  obtain b where b: "(if inst then do { s \<leftarrow> putsl U ?i a; (_, s) \<leftarrow> ece391_set_handler U SEGFAULT (segfault_handler B) s;
        (_, s) \<leftarrow> ece391_set_handler U ALARM (alarm_handler B) s; Some s } else Some a) = Some b"
      "displays (if inst then bytes_of ?i else []) buf 1024 a b" "input_of b = input_of a"
  proof (cases inst)
    case True
    obtain b where "putsl U ?i a = Some b" "displays (bytes_of ?i) buf 1024 a b" "input_of b = input_of a"
      using putsl_displays [OF displays_world [OF a(2)] lits(1)] by blast
    then show ?thesis using that [of b] True by (simp add: user_calls(7) [of _ 0])
  next
    case False
    then show ?thesis using that [of a] displays_refl [OF displays_world [OF a(2)]] by simp
  qed
  obtain u where u: "putsl U ?h b = Some u" "displays (bytes_of ?h) buf 1024 b u" "input_of u = input_of b"
    using putsl_displays [OF displays_world [OF b(2)] lit_displays [OF b(2) lits(2)]] by blast
  have du: "displays (sigtest_text w) buf 1024 s u"
    using displays_trans [OF displays_two [OF a(2) b(2)] u(2)] by (simp add: sigtest_text_def inst_def)
  moreover have "input_of u = input_of s" using u(3) b(3) getargs_input [OF a(1)] by simp
  ultimately obtain x where x: "waited env l u x" using assms(10) by blast
  obtain t where t: "ece391_read U env 0 buf 1023 u = Some (int (length l), t)" "displays [] buf 1024 x t"
    using read_user_line [OF displays_world [OF du] x assms(2), of 1023 U] by auto
  have ld: "load t (badbuf B + of_nat i) = load s (badbuf B + of_nat i)" if "i < 4" for i
  proof -
    have "in_user (badbuf B + of_nat i) 1" using in_user_shift [OF assms(7), of i 1] that by simp
    then have "load x (badbuf B + of_nat i) = load u (badbuf B + of_nat i)" using x by (simp add: waited_def)
    then show ?thesis using displays_load_nth [OF du assms(7,8) that] displays_load_nth [OF t(2) assms(7,8) that] by simp
  qed
  have "load32 t (badbuf B) = load32 s (badbuf B)" using ld [of 0] ld [of 1] ld [of 2] ld [of 3] by (simp add: load32_def)
  then have z: "load32 t (badbuf B) = 0" using assms(9) by simp
  have "ptmem t = ptmem s \<and> cr3 t = cr3 s"
    using displays_same [OF du] displays_same [OF t(2)] x by (simp add: same_world_def own_fds_only_def waited_def)
  then have "user_store (load32 t (badbuf B)) 1 t = Inl t" using assms(5) z by (simp add: user_store_def)
  then have "sigtest_main U env B buf s = Some (Inl t)"
    using a(1) one b(1) u(1) t(1) by (simp add: sigtest_main_def)
  then show ?thesis using du x t(2) by blast
qed

definition sigtest_strings :: "string list" where
  "sigtest_strings = [''Installing signal handlers\<newline>'', ''Hi, what's your name? '']"

lemma sigtest_strings_ok: "length sigtest_strings \<le> 100" "list_all short_text sigtest_strings"
  by code_simp+

definition sigtest_place :: sigtest_link where
  "sigtest_place = \<lparr>badbuf = 0x08210000, charbuf = 0x08210004, segfault_handler = 0x08049000, alarm_handler = 0x08049100\<rparr>"

theorem sigtest_faults_witness:
  "\<exists>u x t. displays (bytes_of ''Hi, what's your name? '') 0x08200000 1024 (user_demo sigtest_strings) u \<and>
     waited (typing (bytes_of ''Bob\<newline>'')) (bytes_of ''Bob\<newline>'') u x \<and> displays [] 0x08200000 1024 x t \<and>
     sigtest_main (demo_link sigtest_strings) (typing (bytes_of ''Bob\<newline>'')) sigtest_place 0x08200000 (user_demo sigtest_strings) = Some (Inl t)"
proof -
  let ?s = "user_demo sigtest_strings" and ?U = "demo_link sigtest_strings" and ?l = "bytes_of ''Bob\<newline>''"
  note ok = sigtest_strings_ok and f = user_demo_facts [OF sigtest_strings_ok]
  have l: "length ?l \<le> 128" "0 \<notin> set ?l" by code_simp+
  have tx: "sigtest_text [0x68, 0x69] = bytes_of ''Hi, what's your name? ''" by (simp add: sigtest_text_def bytes_of_def)
  have "ptmem ?s = ptmem started_demo" using user_demo_from [OF ok] by (simp add: displays_def same_world_def own_fds_only_def)
  then have null: "translate (ptmem ?s) (cr3 ?s) 0 = None" by (simp add: translate_def started_demo_def flat_demo_def)
  have lits: "\<forall>m \<in> {''Installing signal handlers\<newline>'', ''Hi, what's your name? ''}. lit_ok ?U 0x08200000 1024 ?s m"
    using user_demo_lit [OF ok, of _ "0x08200000" 1024] by (simp add: sigtest_strings_def)
  have "load ?s a = load flat_demo a" if "a \<in> {0x08210000, 0x08210001, 0x08210002, 0x08210003}" for a
  proof -
    have "load ?s a = load started_demo a"
      unfolding user_demo_def by (rule place_from_below) (use that ok in auto)
    also have "\<dots> = load flat_demo a" using that by (auto simp: started_demo_def load_def store_def)
    finally show ?thesis .
  qed
  then have bad: "load32 ?s (badbuf sigtest_place) = 0"
    by (simp add: sigtest_place_def load32_def word_of_bytes_def load_def demo_ram_def demo_segments_def hi_file_def)
  have env: "\<exists>x. waited (typing ?l) ?l u x" if "displays (sigtest_text [0x68, 0x69]) 0x08200000 1024 ?s u" "input_of u = input_of ?s" for u
    by (rule typing_waited [OF displays_world [OF that(1)] _ _ l])
      (use that f(9,10) in \<open>simp_all add: displays_def same_world_def input_of_def blank_terminal_def\<close>)
  have pl: "in_user (badbuf sigtest_place) 4" "clear_of 0x08200000 1024 (badbuf sigtest_place) 4"
    by (simp_all add: sigtest_place_def in_user_def clear_of_def)
  have e: "\<forall>u. displays (sigtest_text [0x68, 0x69]) 0x08200000 1024 ?s u \<longrightarrow> input_of u = input_of ?s \<longrightarrow> (\<exists>x. waited (typing ?l) ?l u x)"
    using env by blast
  have "in_user 0x08200000 1024" by (simp add: in_user_def)
  from sigtest_faults [OF f(1) this user_demo_args [OF ok] _ null lits pl bad e] show ?thesis unfolding tx by simp
qed

section \<open>A program that is stopped\<close>

text \<open>The message of an exception handler appears on the terminal of the program.\<close>

lemma printf_displays:
  fixes s :: "'a kernel_scheme"
  assumes "plain fs" "world s" "fs = pre @ cs"
  shows "\<exists>t. printf_loop terminal_printer cb (at_text fs) stk (length pre) n s = Some (int (length fs), t) \<and> displays cs a m s t"
  using assms(2,3)
proof (induction cs arbitrary: pre s)
  case Nil
  then show ?case by (subst printf_loop.simps) (simp add: at_text_def displays_refl)
next
  case (Cons c cs)
  then have c: "at_text fs v (length pre) = c" "c \<noteq> 0" "c \<noteq> CH_percent" for v :: "'a kernel_scheme"
    using assms(1) by (auto simp: at_text_def plain_def nth_append)
  let ?buf = "\<lambda>s i. at_text fs s (length pre + i)"
  define w where "w = snd (write_terminal_from STDOUT ?buf (int 1) s)"
  have st: "steady ?buf 1 s" by (simp add: steady_def at_text_def)
  have d: "displays [c] a m s w"
    using text_displays(2) [OF Cons.prems(1) st _ w_def, of a m] c by (simp add: buf_text_def)
  obtain t where "printf_loop terminal_printer cb (at_text fs) stk (length (pre @ [c])) n w = Some (int (length fs), t)"
    and t: "displays cs a m w t" using Cons.IH [OF displays_world [OF d], of "pre @ [c]"] Cons.prems(2) by auto
  then show ?case
    using c displays_trans [OF d t] by (subst printf_loop.simps) (simp add: terminal_printer_def w_def)
qed

lemma say_displays:
  fixes s :: "'a kernel_scheme"
  assumes "plain (bytes_of msg)" "world s"
  shows "\<exists>t. say cb msg s = Some t \<and> displays (bytes_of msg) a m s t"
  using printf_displays [OF assms, of "[]" "bytes_of msg"] by (fastforce simp: say_def printf_t_def)

text \<open>
  The part of a program's life that its caller waits for, up to its \<^verbatim>\<open>halt\<close> or to the end of the exception
  handler \<open>h\<close>.
\<close>

definition runs_to_end ::
    "user_link \<Rightarrow> ('a kernel_scheme \<Rightarrow> (flow \<times> 'a kernel_scheme) option) \<Rightarrow>
       ('a kernel_scheme \<Rightarrow> ('a kernel_scheme + int \<times> 'a kernel_scheme) option) \<Rightarrow> u32 \<Rightarrow> u32 \<Rightarrow> 'a kernel_scheme
       \<Rightarrow> (int \<times> 'a kernel_scheme) option" where
  "runs_to_end U h main eip esp s =
     (case main s of None \<Rightarrow> None
      | Some (Inl u) \<Rightarrow> (case h u of Some (Return r, v) \<Rightarrow> Some (r, v) | _ \<Rightarrow> None)
      | Some (Inr (r, u)) \<Rightarrow> runs U (\<lambda>_. Some (r, u)) eip esp s)"

lemma ends_with_fault:
  fixes s t u :: "'a kernel_scheme"
  assumes c: "caller lay fr p s" and ex: "execute lay fr command s = Some (To_user e f x, t)" and n: "n = get_available_pid s"
    and t: "kernel_ok lay t" "running t n" "xlat t = task_xlat n" "same_image s t" "terminal_being_serviced t = terminal_being_serviced s"
    and mem: "\<And>q. program_memory q \<Longrightarrow> q \<notin> block_frames n \<Longrightarrow> ram t q = ram s q"
    and u: "same_world t u" "user_proc t n"
    and h: "h = report_and_halt lay cb msg" "plain (bytes_of msg)" "h \<in> set (exception_subs lay cb)"
  shows "\<exists>v. h u = Some (Return 256, v) \<and> resumed lay fr p s v \<and> screen_of v = fold vt_putc (bytes_of msg) (screen_of u)"
proof -
  have wu: "world u" using u(1) by (simp add: same_world_def)
  obtain w where w: "say cb msg u = Some w" "displays (bytes_of msg) 0 0 u w" using say_displays [OF h(2) wu] by blast
  have sw: "same_world t w" by (rule same_world_trans [OF u(1) displays_same [OF w(2)]])
  have running: "running v n \<and> user_proc v n" if "same_world t v" for v
  proof -
    have fo: "own_fds_only t v" using that by (simp add: same_world_def)
    obtain fd where "pcbs v = (pcbs t)(current_pcb t := (pcbs t (current_pcb t))\<lparr>fd_array := fd\<rparr>)" using fo unfolding own_fds_only_def by blast
    then show ?thesis using own_fds_running [OF fo] t(2) u(2) by (auto simp: user_proc_def)
  qed
  obtain r v where lv: "leave_process lay (current_pcb w) (parentPCB (pcb_of w n)) (of_int 256)
      (w\<lparr>eflags := eflags w AND NOT IF_MASK, tss_esp0 := pcb_esp0 (pcb_of w n)\<rparr>) = (r, v)" by fastforce
  have e: "h u = Some (r, v)"
    using lv w(1) running_pcb [of w n] running [OF sw] by (simp add: h(1) report_and_halt_def halt_excep_def Let_def cli_def current_pcb_def)
  note ru = running [OF u(1)]
  have "kernel_ok lay v"
    by (rule kstep_kernel [OF same_world_kernel [OF u(1) t(1)] exception_step [OF conjunct1 [OF ru] conjunct2 [OF ru] h(3) e]])
  note l = program_left [OF c ex n t mem sw lv this]
  have "screen_of w = fold vt_putc (bytes_of msg) (screen_of u)" using w(2) by (simp add: displays_def)
  then show ?thesis using e l(1-3) by simp
qed

lemma execute_faults:
  fixes s :: "'a kernel_scheme"
  assumes c: "caller (ul_lay U) (ul_fr U) p s" and n: "get_available_pid s \<noteq> FAILURE"
    and cmd: "cstr s command bs" "in_user command (Suc (length bs))" "bs \<noteq> []" "length bs < 128"
    and d: "lookup s (take 32 (cmd_name bs)) = Some d" "executable s d" "unat (inode_length s (inode d)) \<le> 0x3B8000"
    and main: "\<And>t. starts_as s d (cmd_args bs) t \<Longrightarrow> \<exists>u. main t = Some (Inl u) \<and> same_world t u"
    and h: "h = report_and_halt (ul_lay U) cb msg" "plain (bytes_of msg)" "h \<in> set (exception_subs (ul_lay U) cb)"
  shows "\<exists>v t u. ece391_execute U (runs_to_end V h main) command s = Some (256, v) \<and> resumed (ul_lay U) (ul_fr U) p s v \<and>
    starts_as s d (cmd_args bs) t \<and> main t = Some (Inl u) \<and> screen_of v = fold vt_putc (bytes_of msg) (screen_of u)"
proof -
  obtain t where ex: "execute (ul_lay U) (ul_fr U) command s = Some (To_user (entry_word s (inode d)) 0x3206 0x08400000, t)"
    and t: "kernel_ok (ul_lay U) t" "running t (get_available_pid s)" "world t" "xlat t = task_xlat (get_available_pid s)" "same_image s t"
      "started_with t (cmd_args bs)" "\<forall>i<unat (inode_length s (inode d)). load t (0x08048000 + of_nat i) = file_bytes s (inode d) 0 (unat (inode_length s (inode d))) ! i"
      "in_use (fds_of t) = {0, 1}" "user_proc t (get_available_pid s)" "screen_of t = screen_of s" "terminal_being_serviced t = terminal_being_serviced s"
    and mem: "\<And>q. program_memory q \<Longrightarrow> q \<notin> block_frames (get_available_pid s) \<Longrightarrow> ram t q = ram s q"
    and null: "translate (ptmem t) (cr3 t) 0 = None"
    by (rule program_started [OF c refl n cmd d(1,2) refl d(3)]) blast
  have st: "starts_as s d (cmd_args bs) t" using t(3,5-8) null by (simp add: starts_as_def file_of_def)
  from main [OF this] obtain u where u: "main t = Some (Inl u)" "same_world t u" by blast
  obtain v where v: "h u = Some (Return 256, v)" "resumed (ul_lay U) (ul_fr U) p s v" "screen_of v = fold vt_putc (bytes_of msg) (screen_of u)"
    using ends_with_fault [OF c ex refl t(1,2,4,5,11) mem u(2) t(9) h] by blast
  have "ece391_execute U (runs_to_end V h main) command s = Some (256, v)"
    using ex u(1) v(1) by (simp add: ece391_execute_def system_call_handler_def runs_to_end_def)
  then show ?thesis using v(2,3) st u(1) by blast
qed

text \<open>
  C18: The shell outlives its programs. After a line whose first word names an executable file, and whatever the program
  in it does to its own memory and the screen before it causes a page fault, the shell prompts again: below what
  the program left on the screen stand the message of the kernel and the report of the shell. The shell's memory outside its line
  buffer, its descriptors and the files are as before, and the kernel is in order.
\<close>

theorem shell_survives_fault:
  fixes s :: "'a kernel_scheme"
  assumes "caller (ul_lay U) (ul_fr U) p s" "in_user buf 1024"
    and "\<forall>m \<in> {''391OS> '', ''exit'', ''program terminated by exception\<newline>''}. lit_ok U buf 1024 s m"
    and "putsl U ''391OS> '' s = Some s1" "waited env l s1 w" "chomp l \<noteq> []" "chomp l \<noteq> bytes_of ''exit''" "length (chomp l) < 128"
    and "lookup s (take 32 (cmd_name (chomp l))) = Some d" "executable s d" "unat (inode_length s (inode d)) \<le> 0x3B8000"
    and "get_available_pid s \<noteq> FAILURE"
    and "\<And>t. starts_as s d (cmd_args (chomp l)) t \<Longrightarrow> \<exists>u. main t = Some (Inl u) \<and> same_world t u"
  shows "\<exists>x t u. shell_turn U env (runs_to_end V (exception_handler_14_sub (ul_lay U) cb) main) buf s = Some (Inr x) \<and>
    starts_as s d (cmd_args (chomp l)) t \<and> main t = Some (Inl u) \<and>
    screen_of x = fold vt_putc (bytes_of ''EXCEPTION: PAGE FAULT ERROR\<newline>program terminated by exception\<newline>'') (screen_of u) \<and>
    caller (ul_lay U) (ul_fr U) p x \<and> same_image s x \<and> fds_of x = fds_of s \<and>
    (\<forall>a. in_user a 1 \<longrightarrow> \<not> (unat buf \<le> unat a \<and> unat a < unat buf + 1024) \<longrightarrow> load x a = load s a)"
proof -
  let ?m = "''EXCEPTION: PAGE FAULT ERROR'' @ [CHR 0x0A]" and ?h = "exception_handler_14_sub (ul_lay U) cb"
  let ?run = "runs_to_end V ?h main"
  have w: "world s" using assms(1) by (simp add: caller_def)
  have mt: "mounted s" using w by (simp add: world_def)
  have iu: "in_user buf (Suc (length (chomp l)))" by (rule in_user_mono [OF assms(2)]) (use assms(8) in simp)
  have l2: "\<forall>m \<in> {''391OS> '', ''exit''}. lit_ok U buf 1024 s m" "\<forall>m. outcome 256 = Some m \<longrightarrow> lit_ok U buf 1024 s m"
    using assms(3) by (simp_all add: outcome_def)
  have h: "?h = report_and_halt (ul_lay U) cb ?m" "plain (bytes_of ?m)" "?h \<in> set (exception_subs (ul_lay U) cb)"
    by (simp_all add: exception_handler_14_sub_def exception_subs_def plain_def bytes_of_def)
  let ?Q = "\<lambda>scr. \<exists>t u. starts_as s d (cmd_args (chomp l)) t \<and> main t = Some (Inl u) \<and> scr = fold vt_putc (bytes_of ?m) (screen_of u)"
  have exec: "\<exists>x. ece391_execute U ?run buf v = Some (256, x) \<and> resumed (ul_lay U) (ul_fr U) p v x \<and> ?Q (screen_of x)"
    if v: "same_world s v" "caller (ul_lay U) (ul_fr U) p v" "cstr v buf (chomp l)" "screen_of v = screen_of w" for v
  proof -
    have nv: "get_available_pid v \<noteq> FAILURE" using assms(12) v(1) by (simp add: same_world_def own_fds_only_def get_available_pid_def)
    have im: "same_image s v" using v(1) by (simp add: same_world_def)
    note exe = same_image_executable [OF im mt assms(10)]
    have len: "unat (inode_length v (inode d)) \<le> 0x3B8000" using exe(3) assms(11) by simp
    have lk: "lookup v (take 32 (cmd_name (chomp l))) = Some d" using assms(9) lookup_same [OF v(1) w] by simp
    have run: "\<exists>u. main t = Some (Inl u) \<and> same_world t u" if "starts_as v d (cmd_args (chomp l)) t" for t
      by (rule assms(13) [OF starts_as_same [OF v(1) w assms(10) that]])
    obtain x t u where "ece391_execute U ?run buf v = Some (256, x)" "resumed (ul_lay U) (ul_fr U) p v x" "starts_as v d (cmd_args (chomp l)) t"
        "main t = Some (Inl u)" "screen_of x = fold vt_putc (bytes_of ?m) (screen_of u)"
      using execute_faults [OF v(2) nv v(3) iu assms(6,8) lk exe(1) len run h] by blast
    then show ?thesis using starts_as_same [OF v(1) w assms(10)] by blast
  qed
  obtain x scr where x: "shell_turn U env ?run buf s = Some (Inr x)" "caller (ul_lay U) (ul_fr U) p x" "same_image s x" "?Q scr"
      "screen_of x = fold vt_putc (told 256) scr" "fds_of x = fds_of s"
      "\<forall>a. in_user a 1 \<longrightarrow> \<not> (unat buf \<le> unat a \<and> unat a < unat buf + 1024) \<longrightarrow> load x a = load s a"
    using shell_executes [OF assms(1,2) l2 assms(4-8), of ?run ?Q] exec by blast
  have tx: "bytes_of ''EXCEPTION: PAGE FAULT ERROR\<newline>program terminated by exception\<newline>'' = bytes_of ?m @ told 256"
    by (simp add: told_def outcome_def bytes_of_def)
  obtain t u where q: "starts_as s d (cmd_args (chomp l)) t" "main t = Some (Inl u)" "scr = fold vt_putc (bytes_of ?m) (screen_of u)" using x(4) by blast
  have "screen_of x = fold vt_putc (bytes_of ?m @ told 256) (screen_of u)" using x(5) q(3) by (simp only: fold_append o_apply)
  then show ?thesis using x(1-3,6,7) q(1,2) unfolding tx by blast
qed

text \<open>A program that writes to address 0 at once.\<close>

definition null_main :: "'a kernel_scheme \<Rightarrow> ('a kernel_scheme + int \<times> 'a kernel_scheme) option" where
  "null_main s = (case user_store 0 1 s of Inl u \<Rightarrow> Some (Inl u) | Inr u \<Rightarrow> Some (Inr (0, u)))"

lemma null_faults:
  assumes "starts_as s d w t"
  shows "null_main t = Some (Inl t)" "same_world t t"
proof -
  have "world t" "translate (ptmem t) (cr3 t) 0 = None" using assms unfolding starts_as_def by blast+
  then show "null_main t = Some (Inl t)" "same_world t t" by (simp_all add: null_main_def user_store_def same_world_refl)
qed

definition fault_strings :: "string list" where
  "fault_strings = [''391OS> '', ''exit'', ''program terminated by exception\<newline>'']"

theorem shell_survives_fault_witness:
  "\<exists>s1 w x (u :: kernel). putsl (demo_link fault_strings) ''391OS> '' (place_from 0 fault_strings demo) = Some s1 \<and>
     waited (typing (bytes_of ''hi 42\<newline>'')) (bytes_of ''hi 42\<newline>'') s1 w \<and>
     shell_turn (demo_link fault_strings) (typing (bytes_of ''hi 42\<newline>''))
       (runs_to_end (demo_link []) (exception_handler_14_sub demo_layout (\<lambda>c. 0x7FE000)) null_main) 0x08200000 (place_from 0 fault_strings demo)
      = Some (Inr x) \<and>
     screen_of x = fold vt_putc (bytes_of ''EXCEPTION: PAGE FAULT ERROR\<newline>program terminated by exception\<newline>'') (screen_of u)"
proof -
  let ?U = "demo_link fault_strings" and ?V = "demo_link []" and ?l = "bytes_of ''hi 42\<newline>''" and ?s = "place_from 0 fault_strings demo"
  have ok: "length fault_strings \<le> 100" "list_all short_text fault_strings" by code_simp+
  have wd: "world demo" using demo_caller by (simp add: caller_def)
  have "displays [] (slot 0) (256 * length fault_strings) demo ?s"
    using place_from_displays [OF wd, of 0 fault_strings] ok by simp
  then have sw: "same_world demo ?s" by (simp add: displays_def)
  have c: "caller (ul_lay ?U) (ul_fr ?U) 0 ?s" using caller_same [OF sw demo_caller] by (simp add: demo_link_def)
  then have w: "world ?s" by (simp add: caller_def)
  have lits: "\<forall>m \<in> {''391OS> '', ''exit'', ''program terminated by exception\<newline>''}. lit_ok ?U 0x08200000 1024 ?s m"
    using place_lit [OF wd ok, of _ "0x08200000" 1024] by (simp add: fault_strings_def)
  have l: "length ?l \<le> 128" "0 \<notin> set ?l" "chomp ?l = demo_cmd" "demo_cmd \<noteq> bytes_of ''exit''" by code_simp+
  obtain s1 where s1: "putsl ?U ''391OS> '' ?s = Some s1" "displays (bytes_of ''391OS> '') 0 0 ?s s1" "input_of s1 = input_of ?s"
    using putsl_displays [OF w] lits by blast
  have "terminals ?s = terminals demo" using machine_more_sel(5) [of ?s demo] by simp
  then have "snd (input_of s1 0) = 0" "terminal_being_serviced s1 = 0"
    using s1(2,3) sw demo_cursor by (simp_all add: input_of_def blank_terminal_def displays_def same_world_def)
  then obtain x where wt: "waited (typing ?l) ?l s1 x" using typing_waited [OF displays_world [OF s1(2)]] l(1,2) by blast
  have im: "same_image demo ?s" using sw by (simp add: same_world_def)
  have dir: "lookup ?s (take 32 (cmd_name (chomp ?l))) = Some hi_dentry"
    using demo_lookup same_image_directory [OF im demo_program(2)] l(3) by (simp add: lookup_def)
  have ex: "executable ?s hi_dentry" "unat (inode_length ?s 0) = 30"
    using same_image_executable [OF im demo_program(1,3)] demo_program(4) by simp_all
  have "pid_avail ?s = 1" using sw by (simp add: same_world_def own_fds_only_def)
  then have n: "get_available_pid ?s \<noteq> FAILURE" by (simp add: get_available_pid_def numeral_eq_Suc)
  have b: "in_user 0x08200000 1024" by (simp add: in_user_def)
  have q: "chomp ?l \<noteq> []" "chomp ?l \<noteq> bytes_of ''exit''" "length (chomp ?l) < 128" "unat (inode_length ?s (inode hi_dentry)) \<le> 0x3B8000"
    using l(4) by (simp_all add: l(3) demo_cmd_parts ex(2) demo_link_def)
  have nf: "\<exists>u. null_main t = Some (Inl u) \<and> same_world t u" if "starts_as ?s hi_dentry (cmd_args (chomp ?l)) t" for t
    using null_faults [OF that] by blast
  have lay: "ul_lay ?U = demo_layout" by (simp add: demo_link_def)
  note turn = shell_survives_fault [where main = null_main and V = ?V and cb = "\<lambda>c. 0x7FE000", OF c b lits s1(1) wt q(1-3) dir ex(1) q(4) n, unfolded lay]
  obtain y and u :: kernel where y: "shell_turn ?U (typing ?l) (runs_to_end ?V (exception_handler_14_sub demo_layout (\<lambda>c. 0x7FE000)) null_main) 0x08200000 ?s = Some (Inr y)"
      "screen_of y = fold vt_putc (bytes_of ''EXCEPTION: PAGE FAULT ERROR\<newline>program terminated by exception\<newline>'') (screen_of u)"
  proof (rule exE [OF turn])
    show "\<exists>u. null_main t = Some (Inl u) \<and> same_world t u" if "starts_as ?s hi_dentry (cmd_args (chomp ?l)) t" for t
      by (rule nf [OF that])
  qed (elim exE conjE, assumption | blast)+
  show ?thesis using s1(1) wt y by blast
qed

end
