(* ===== verification/Blink.thy ===== *)
theory Blink
  imports User_World
begin

unbundle bit_operations_syntax

text \<open>
  The blinking characters of the program \<^verbatim>\<open>fish\<close>: \<^verbatim>\<open>fish/blink.S\<close>, and the four functions of
  \<^verbatim>\<open>fish/fish.c\<close> it calls. Blink structures are 16 bytes of the static array \<^verbatim>\<open>blink_array\<close>, chained
  through their last field to a list that starts at \<^verbatim>\<open>mp1_list_head\<close>. Everything is bytes in the memory of the
  program, reached at the offsets the assembly code uses.
\<close>

section \<open>Halfwords\<close>

definition half_of_bytes :: "u8 \<Rightarrow> u8 \<Rightarrow> u16" where
  "half_of_bytes b0 b1 = of_nat (unat b0 + 256 * unat b1)"

definition load16 :: "'a machine_scheme \<Rightarrow> u32 \<Rightarrow> u16" where
  "load16 s a = half_of_bytes (load s a) (load s (a + 1))"

definition store16 :: "u32 \<Rightarrow> u16 \<Rightarrow> 'a machine_scheme \<Rightarrow> 'a machine_scheme" where
  "store16 a w s = write_bytes a [ucast w, ucast (drop_bit 8 w)] s"

section \<open>Data (fish.c, blink.h)\<close>

text \<open>Where the linker puts the static data, and where the two functions that have locals put them.\<close>

record blink_link =
  blink_array :: u32
  mp1_list_head :: u32
  vmem_base_addr :: u32
  add_temp :: u32
  find_key :: u32

record blink =
  location :: u16
  on_char :: u8
  off_char :: u8
  on_length :: u16
  off_length :: u16
  countdown :: u16
  status :: u16
  next_blink :: u32

definition blink_at :: "'a machine_scheme \<Rightarrow> u32 \<Rightarrow> blink" where
  "blink_at s p = \<lparr>location = load16 s p, on_char = load s (p + 2), off_char = load s (p + 3),
     on_length = load16 s (p + 4), off_length = load16 s (p + 6), countdown = load16 s (p + 8),
     status = load16 s (p + 10), next_blink = load32 s (p + 12)\<rparr>"

definition blink_slot :: "blink_link \<Rightarrow> nat \<Rightarrow> u32" where
  "blink_slot F i = blink_array F + of_nat (16 * i)"

section \<open>Memory functions of fish.c\<close>

definition ece391_memset :: "u32 \<Rightarrow> u8 \<Rightarrow> int \<Rightarrow> 'a machine_scheme \<Rightarrow> 'a machine_scheme" where
  "ece391_memset memory c n = for_loop 0 (nat n) (\<lambda>i. store (memory + of_nat i) c)"

definition ece391_memcpy :: "u32 \<Rightarrow> u32 \<Rightarrow> int \<Rightarrow> 'a machine_scheme \<Rightarrow> int \<times> 'a machine_scheme" where
  "ece391_memcpy dest src n s = (0, for_loop 0 (nat n) (\<lambda>i s. store (dest + of_nat i) (load s (src + of_nat i)) s) s)"

definition mp1_malloc :: "blink_link \<Rightarrow> 'a machine_scheme \<Rightarrow> u32" where
  "mp1_malloc F s = (case find (\<lambda>i. load16 s (blink_slot F i) = 0) [0..<2000] of Some i \<Rightarrow> blink_slot F i | None \<Rightarrow> 0)"

definition mp1_free :: "u32 \<Rightarrow> 'a machine_scheme \<Rightarrow> 'a machine_scheme" where
  "mp1_free memory = ece391_memset memory 0 16"

section \<open>blink.S\<close>

definition mp1_poke :: "blink_link \<Rightarrow> u8 \<Rightarrow> u32 \<Rightarrow> 'a machine_scheme \<Rightarrow> 'a machine_scheme" where
  "mp1_poke F cl eax s = store (load32 s (vmem_base_addr F) + eax) cl s"

text \<open>The position of a character in video memory: \<^verbatim>\<open>movzwl\<close>, \<^verbatim>\<open>shll $1\<close>.\<close>

definition cell :: "'a machine_scheme \<Rightarrow> u32 \<Rightarrow> u32" where
  "cell s p = push_bit 1 (ucast (load16 s p))"

definition tasklet_body :: "blink_link \<Rightarrow> u32 \<Rightarrow> 'a machine_scheme \<Rightarrow> 'a machine_scheme" where
  "tasklet_body F ebx s =
     (let s = store16 (ebx + 8) (load16 s (ebx + 8) - 1) s
      in if 0 < sint (load16 s (ebx + 8)) then s
         else let (dx, s) = (if load16 s (ebx + 10) AND 1 = 0
                             then let s = mp1_poke F (load s (ebx + 2)) (cell s ebx) s in (load16 s (ebx + 4), s)
                             else let s = mp1_poke F (load s (ebx + 3)) (cell s ebx) s in (load16 s (ebx + 6), s));
                  s = store16 (ebx + 8) dx s
              in store16 (ebx + 10) (load16 s (ebx + 10) XOR 1) s)"

partial_function (option) tasklet_loop :: "blink_link \<Rightarrow> u32 \<Rightarrow> 'a machine_scheme \<Rightarrow> 'a machine_scheme option" where
  "tasklet_loop F ebx s =
     (if ebx = 0 then Some s
      else let s = tasklet_body F ebx s in tasklet_loop F (load32 s (ebx + 12)) s)"

definition mp1_rtc_tasklet :: "blink_link \<Rightarrow> 'a machine_scheme \<Rightarrow> 'a machine_scheme option" where
  "mp1_rtc_tasklet F s = tasklet_loop F (load32 s (mp1_list_head F)) s"

partial_function (option) find_from :: "u16 \<Rightarrow> u32 \<Rightarrow> 'a machine_scheme \<Rightarrow> u32 option" where
  "find_from ax ebx s =
     (if ebx = 0 then Some 0 else if load16 s ebx = ax then Some ebx else find_from ax (load32 s (ebx + 12)) s)"

definition mp1_find_helper :: "blink_link \<Rightarrow> u32 \<Rightarrow> 'a machine_scheme \<Rightarrow> u32 option" where
  "mp1_find_helper F arg s = find_from (ucast arg) (load32 s (mp1_list_head F)) s"

text \<open>The second part of \<^verbatim>\<open>mp1_ioctl_add\<close>: a place for the structure, the head of the list, the character.\<close>

definition add_insert :: "blink_link \<Rightarrow> u32 \<Rightarrow> 'a machine_scheme \<Rightarrow> int \<times> 'a machine_scheme" where
  "add_insert F ebx s =
     (let edx = mp1_malloc F s
      in if edx = 0 then (-1, s)
         else let (eax, s) = ece391_memcpy edx ebx 16 s;
                  s = store32 (edx + 12) (load32 s (mp1_list_head F)) s;
                  s = store32 (mp1_list_head F) edx s
              in (0, mp1_poke F (load s (edx + 2)) (cell s edx) s))"

definition mp1_ioctl_add :: "blink_link \<Rightarrow> u32 \<Rightarrow> 'a machine_scheme \<Rightarrow> int \<times> 'a machine_scheme" where
  "mp1_ioctl_add F arg s =
     (let ebx = add_temp F; (eax, s) = ece391_memcpy ebx arg 16 s
      in if eax \<noteq> 0 then (-1, s)
         else if 80 * 25 \<le> load16 s ebx then (-1, s)
         else let s = store16 (ebx + 10) 1 s;
                  s = store16 (ebx + 8) (load16 s (ebx + 4)) s
              in add_insert F ebx s)"

text \<open>The address of the pointer that points to \<open>eax\<close>.\<close>

partial_function (option) remove_find_prev :: "u32 \<Rightarrow> u32 \<Rightarrow> 'a machine_scheme \<Rightarrow> u32 option" where
  "remove_find_prev eax edx s = (if load32 s edx = eax then Some edx else remove_find_prev eax (load32 s edx + 12) s)"

definition mp1_ioctl_remove :: "blink_link \<Rightarrow> u32 \<Rightarrow> 'a machine_scheme \<Rightarrow> (int \<times> 'a machine_scheme) option" where
  "mp1_ioctl_remove F arg s =
     (case mp1_find_helper F arg s of
        None \<Rightarrow> None
      | Some eax \<Rightarrow>
          if eax = 0 then Some (-1, s)
          else case remove_find_prev eax (mp1_list_head F) s of
                 None \<Rightarrow> None
               | Some edx \<Rightarrow> Some (0, mp1_free eax (store32 edx (load32 s (eax + 12)) s)))"

text \<open>
  The choice of the character: \<^verbatim>\<open>testb\<close> clears the overflow flag and copies the sign of the result to the sign
  flag, and \<^verbatim>\<open>cmovl\<close> moves if the two differ, which is if the result is negative.
\<close>

definition sync_char :: "'a machine_scheme \<Rightarrow> u32 \<Rightarrow> u8" where
  "sync_char s edi =
     (let ecx = load s (edi + 3); ebx = load s (edi + 2) in if sint (load s (edi + 10) AND 1) < 0 then ebx else ecx)"

definition sync_copy :: "u32 \<Rightarrow> u32 \<Rightarrow> 'a machine_scheme \<Rightarrow> 'a machine_scheme" where
  "sync_copy esi edi s =
     (let s = store16 (edi + 4) (load16 s (esi + 4)) s; s = store16 (edi + 6) (load16 s (esi + 6)) s;
          s = store16 (edi + 8) (load16 s (esi + 8)) s in store16 (edi + 10) (load16 s (esi + 10)) s)"

definition mp1_ioctl_sync :: "blink_link \<Rightarrow> u32 \<Rightarrow> 'a machine_scheme \<Rightarrow> (int \<times> 'a machine_scheme) option" where
  "mp1_ioctl_sync F arg s =
     (case mp1_find_helper F (drop_bit 16 arg) s of
        None \<Rightarrow> None
      | Some esi \<Rightarrow>
          if esi = 0 then Some (-1, s)
          else case mp1_find_helper F (arg AND 0xFFFF) s of
                 None \<Rightarrow> None
               | Some edi \<Rightarrow>
                   if edi = 0 then Some (-1, s)
                   else let s = sync_copy esi edi s in Some (0, mp1_poke F (sync_char s edi) (cell s edi) s))"

definition mp1_ioctl_find :: "blink_link \<Rightarrow> u32 \<Rightarrow> 'a machine_scheme \<Rightarrow> (int \<times> 'a machine_scheme) option" where
  "mp1_ioctl_find F arg s =
     (let (eax, s) = ece391_memcpy (find_key F) arg 2 s
      in if eax \<noteq> 0 then Some (-1, s)
         else case mp1_find_helper F (ucast (load16 s (find_key F))) s of
                None \<Rightarrow> None
              | Some eax \<Rightarrow>
                  if eax = 0 then Some (-1, s)
                  else let (r, s) = ece391_memcpy arg eax 16 s in Some (if r = 0 then 0 else -1, s))"

text \<open>The jump through \<^verbatim>\<open>call_table\<close>; behind its four entries there is no code.\<close>

definition mp1_ioctl :: "blink_link \<Rightarrow> u32 \<Rightarrow> u32 \<Rightarrow> 'a machine_scheme \<Rightarrow> (int \<times> 'a machine_scheme) option" where
  "mp1_ioctl F arg cmd s =
     (if cmd = 0 then Some (mp1_ioctl_add F arg s)
      else if cmd = 1 then mp1_ioctl_remove F arg s
      else if cmd = 2 then mp1_ioctl_find F arg s
      else if cmd = 3 then mp1_ioctl_sync F arg s
      else None)"

section \<open>Loads over stores\<close>

lemma unat_byte: "unat (ucast (drop_bit k w) :: u8) = unat w div 2 ^ k mod 256" for w :: "'n::len word"
  by (simp only: unsigned_ucast_eq unat_drop_bit_eq) (simp add: drop_bit_eq_div take_bit_eq_mod)

lemma unat_low_byte: "unat (ucast w :: u8) = unat w mod 256" for w :: "'n::len word"
  using unat_byte [of 0 w] by simp

lemma u16_bytes: "half_of_bytes (ucast w) (ucast (drop_bit 8 w)) = w"
proof -
  have "unat w < 256 * 256" using unsigned_less [of w] by simp
  then have "unat w mod 256 + 256 * (unat w div 2 ^ 8 mod 256) = unat w" using mod_mult2_eq [of "unat w" 256 256] by simp
  then show ?thesis unfolding half_of_bytes_def unat_byte unat_low_byte [of w] by (simp only: of_nat_unat ucast_id)
qed

lemma u32_bytes: "word_of_bytes (ucast w) (ucast (drop_bit 8 w)) (ucast (drop_bit 16 w)) (ucast (drop_bit 24 w)) = w"
proof -
  let ?n = "unat w"
  have "?n < 4294967296" using unsigned_less [of w] by simp
  then have n: "?n mod (256 * 16777216) = ?n" "?n div 2 ^ 24 mod 256 = ?n div 2 ^ 24" by (simp_all add: less_mult_imp_div_less)
  have "?n mod (256 * 16777216) = 256 * (?n div 256 mod (256 * 65536)) + ?n mod 256" using mod_mult2_eq [of ?n 256 "256 * 65536"] by simp
  moreover have "?n div 256 mod (256 * 65536) = 256 * (?n div 65536 mod (256 * 256)) + ?n div 256 mod 256"
    using mod_mult2_eq [of "?n div 256" 256 "256 * 256"] by (simp add: div_mult2_eq [symmetric])
  moreover have "?n div 65536 mod (256 * 256) = 256 * (?n div 16777216 mod 256) + ?n div 65536 mod 256"
    using mod_mult2_eq [of "?n div 65536" 256 256] by (simp add: div_mult2_eq [symmetric])
  ultimately have "?n mod 256 + 256 * (?n div 2 ^ 8 mod 256) + 65536 * (?n div 2 ^ 16 mod 256) + 16777216 * (?n div 2 ^ 24 mod 256) = ?n"
    using n by (simp add: distrib_left)
  then show ?thesis unfolding word_of_bytes_def unat_byte unat_low_byte [of w] by (simp only: of_nat_unat ucast_id)
qed

lemma store16_frame [simp]:
  "xlat (store16 a w s) = xlat s" "machine.more (store16 a w s) = machine.more s" "spread (store16 a w s) b n = spread s b n"
  "apart (store16 a w s) b n c m = apart s b n c m"
  by (simp_all add: store16_def)

lemma store32_frame [simp]:
  "xlat (store32 a w s) = xlat s" "machine.more (store32 a w s) = machine.more s" "spread (store32 a w s) b n = spread s b n"
  "apart (store32 a w s) b n c m = apart s b n c m"
  by (simp_all add: store32_def)

text \<open>What is read depends on the bytes that are read; a write elsewhere does not change them.\<close>

lemma load_offset: "read_bytes t b n = read_bytes s a n \<Longrightarrow> i < n \<Longrightarrow> load t (b + of_nat i) = load s (a + of_nat i)"
  by (metis nth_read_bytes)

lemma load_parts:
  assumes "read_bytes t b n = read_bytes s a n"
  shows "1 \<le> n \<Longrightarrow> load t b = load s a" "2 \<le> n \<Longrightarrow> load16 t b = load16 s a" "4 \<le> n \<Longrightarrow> load32 t b = load32 s a"
  using load_offset [OF assms, of 0] load_offset [OF assms, of 1] load_offset [OF assms, of 2] load_offset [OF assms, of 3]
  by (simp_all add: load16_def load32_def)

lemma read_within: "read_bytes t q n = read_bytes s p n \<Longrightarrow> j + m \<le> n \<Longrightarrow> read_bytes t (q + of_nat j) m = read_bytes s (p + of_nat j) m"
  using load_offset [of t q n s p] by (auto intro!: nth_equalityI simp: add.assoc simp flip: of_nat_add)

lemma blink_cong:
  assumes "read_bytes t q 16 = read_bytes s p 16"
  shows "blink_at t q = blink_at s p"
  using load_parts [OF assms] load_parts [OF read_within [OF assms, of 2 2]] load_parts [OF read_within [OF assms, of 3 1]]
    load_parts [OF read_within [OF assms, of 4 2]] load_parts [OF read_within [OF assms, of 6 2]]
    load_parts [OF read_within [OF assms, of 8 2]] load_parts [OF read_within [OF assms, of 10 2]] load_parts [OF read_within [OF assms, of 12 4]]
  by (simp add: blink_at_def)

lemma read_store16_apart: "apart s a 2 b n \<Longrightarrow> read_bytes (store16 a w s) b n = read_bytes s b n"
  unfolding store16_def by (rule read_write_apart) (simp add: numeral_2_eq_2)

lemma read_store32_apart: "apart s a 4 b n \<Longrightarrow> read_bytes (store32 a w s) b n = read_bytes s b n"
  unfolding store32_def by (rule read_write_apart) (simp add: numeral_eq_Suc)

lemma read_store16:
  assumes "spread s a 2"
  shows "load16 (store16 a w s) a = w"
  using load_write_nth [of s a "[ucast w, ucast (drop_bit 8 w)]" 0] load_write_nth [of s a "[ucast w, ucast (drop_bit 8 w)]" 1] assms
  by (simp add: load16_def store16_def numeral_2_eq_2 u16_bytes)

lemma read_store32:
  assumes "spread s a 4"
  shows "load32 (store32 a w s) a = w"
proof -
  have n: "load (store32 a w s) (a + of_nat i) = [ucast w, ucast (drop_bit 8 w), ucast (drop_bit 16 w), ucast (drop_bit 24 w)] ! i" if "i < 4" for i
    unfolding store32_def by (rule load_write_nth) (use assms that in \<open>simp_all add: numeral_eq_Suc\<close>)
  show ?thesis using n [of 0] n [of 1] n [of 2] n [of 3] by (simp add: load32_def u32_bytes)
qed

text \<open>A structure is an area of 16 distinct bytes; its fields are apart.\<close>

lemma parts_apart:
  assumes "spread s p n" "i + k \<le> j \<or> j + m \<le> i" "i + k \<le> n" "j + m \<le> n"
  shows "apart s (p + of_nat i) k (p + of_nat j) m"
  unfolding apart_def
proof (intro allI impI)
  fix x y assume "x < k" "y < m"
  then have "i + x < n" "j + y < n" "i + x \<noteq> j + y" using assms(2-4) by auto
  then show "xlat s (p + of_nat i + of_nat x) \<noteq> xlat s (p + of_nat j + of_nat y)"
    using spread_distinct [OF assms(1)] by (simp add: add.assoc flip: of_nat_add)
qed

lemma part_spread:
  assumes "spread s p n" "i + k \<le> n"
  shows "spread s (p + of_nat i) k"
proof -
  have "x = y" if "x < k" "y < k" "xlat s (p + of_nat (i + x)) = xlat s (p + of_nat (i + y))" for x y
  proof -
    have "i + x < n" "i + y < n" using that assms(2) by simp_all
    then show ?thesis using spread_distinct [OF assms(1)] that(3) by fastforce
  qed
  then show ?thesis by (auto simp: spread_def inj_on_def add.assoc)
qed

lemma field16:
  assumes "spread s p 16" "i + 2 \<le> 16"
  shows "load16 (store16 (p + of_nat i) w s) (p + of_nat i) = w"
    "j + 2 \<le> i \<or> i + 2 \<le> j \<Longrightarrow> j + 2 \<le> 16 \<Longrightarrow> load16 (store16 (p + of_nat i) w s) (p + of_nat j) = load16 s (p + of_nat j)"
    "j + 1 \<le> i \<or> i + 2 \<le> j \<Longrightarrow> j + 1 \<le> 16 \<Longrightarrow> load (store16 (p + of_nat i) w s) (p + of_nat j) = load s (p + of_nat j)"
    "j + 4 \<le> i \<or> i + 2 \<le> j \<Longrightarrow> j + 4 \<le> 16 \<Longrightarrow> load32 (store16 (p + of_nat i) w s) (p + of_nat j) = load32 s (p + of_nat j)"
  using read_store16 [OF part_spread [OF assms]] load_parts [OF read_store16_apart [OF parts_apart [OF assms(1) _ assms(2)]]]
  by blast+

lemma blink_fields:
  assumes "spread s p 16"
  shows "blink_at (store16 (p + 4) w s) p = (blink_at s p)\<lparr>on_length := w\<rparr>"
    "blink_at (store16 (p + 6) w s) p = (blink_at s p)\<lparr>off_length := w\<rparr>"
    "blink_at (store16 (p + 8) w s) p = (blink_at s p)\<lparr>countdown := w\<rparr>"
    "blink_at (store16 (p + 10) w s) p = (blink_at s p)\<lparr>status := w\<rparr>"
    "blink_at (store32 (p + 12) v s) p = (blink_at s p)\<lparr>next_blink := v\<rparr>"
proof -
  note f = field16 [OF assms] field16(2) [OF assms, of _ 0, unfolded of_nat_0 add_0_right]
  show "blink_at (store16 (p + 4) w s) p = (blink_at s p)\<lparr>on_length := w\<rparr>"
    using f(1) [of 4] f(5) [of 4] f(2) [of 4 6] f(2) [of 4 8] f(2) [of 4 10] f(3) [of 4 2] f(3) [of 4 3] f(4) [of 4 12] by (simp add: blink_at_def)
  show "blink_at (store16 (p + 6) w s) p = (blink_at s p)\<lparr>off_length := w\<rparr>"
    using f(1) [of 6] f(5) [of 6] f(2) [of 6 4] f(2) [of 6 8] f(2) [of 6 10] f(3) [of 6 2] f(3) [of 6 3] f(4) [of 6 12] by (simp add: blink_at_def)
  show "blink_at (store16 (p + 8) w s) p = (blink_at s p)\<lparr>countdown := w\<rparr>"
    using f(1) [of 8] f(5) [of 8] f(2) [of 8 4] f(2) [of 8 6] f(2) [of 8 10] f(3) [of 8 2] f(3) [of 8 3] f(4) [of 8 12] by (simp add: blink_at_def)
  show "blink_at (store16 (p + 10) w s) p = (blink_at s p)\<lparr>status := w\<rparr>"
    using f(1) [of 10] f(5) [of 10] f(2) [of 10 4] f(2) [of 10 6] f(2) [of 10 8] f(3) [of 10 2] f(3) [of 10 3] f(4) [of 10 12] by (simp add: blink_at_def)
  have a: "apart s (p + of_nat 12) 4 p 12" using parts_apart [OF assms, of 12 4 0 12] by simp
  have r: "read_bytes (store32 (p + 12) v s) p 12 = read_bytes s p 12" using read_store32_apart [OF a, of v] by simp
  have n: "load32 (store32 (p + of_nat 12) v s) (p + of_nat 12) = v" by (rule read_store32 [OF part_spread [OF assms]]) simp
  show "blink_at (store32 (p + 12) v s) p = (blink_at s p)\<lparr>next_blink := v\<rparr>"
    using load_parts [OF r] load_parts [OF read_within [OF r, of 2 2]] load_parts [OF read_within [OF r, of 3 1]]
      load_parts [OF read_within [OF r, of 4 2]] load_parts [OF read_within [OF r, of 6 2]]
      load_parts [OF read_within [OF r, of 8 2]] load_parts [OF read_within [OF r, of 10 2]] n
    by (simp add: blink_at_def)
qed

lemma read_store_apart: "apart s a 1 b n \<Longrightarrow> read_bytes (store a v s) b n = read_bytes s b n"
  using read_write_apart [of s a "[v]" b n] by simp

lemma blink_chars:
  assumes "spread s p 16"
  shows "blink_at (store (p + 2) v s) p = (blink_at s p)\<lparr>on_char := v\<rparr>"
    "blink_at (store (p + 3) v s) p = (blink_at s p)\<lparr>off_char := v\<rparr>"
    "blink_at (store16 p w s) p = (blink_at s p)\<lparr>location := w\<rparr>"
proof -
  have r: "read_bytes (store (p + of_nat i) v s) (p + of_nat j) m = read_bytes s (p + of_nat j) m" if "i + 1 \<le> j \<or> j + m \<le> i" "i + 1 \<le> 16" "j + m \<le> 16" for i j m
    by (rule read_store_apart [OF parts_apart [OF assms that]])
  have n: "load (store a v s) a = v" for a by (simp add: load_store)
  show "blink_at (store (p + 2) v s) p = (blink_at s p)\<lparr>on_char := v\<rparr>"
    using n [of "p + 2"] load_parts [OF r [of 2 0 2]] load_parts [OF r [of 2 3 1]] load_parts [OF r [of 2 4 2]] load_parts [OF r [of 2 6 2]]
      load_parts [OF r [of 2 8 2]] load_parts [OF r [of 2 10 2]] load_parts [OF r [of 2 12 4]] by (simp add: blink_at_def)
  show "blink_at (store (p + 3) v s) p = (blink_at s p)\<lparr>off_char := v\<rparr>"
    using n [of "p + 3"] load_parts [OF r [of 3 0 2]] load_parts [OF r [of 3 2 1]] load_parts [OF r [of 3 4 2]] load_parts [OF r [of 3 6 2]]
      load_parts [OF r [of 3 8 2]] load_parts [OF r [of 3 10 2]] load_parts [OF r [of 3 12 4]] by (simp add: blink_at_def)
  note f = field16 [OF assms, of 0, unfolded of_nat_0 add_0_right]
  show "blink_at (store16 p w s) p = (blink_at s p)\<lparr>location := w\<rparr>"
    using f(1) f(2) [of 4] f(2) [of 6] f(2) [of 8] f(2) [of 10] f(3) [of 2] f(3) [of 3] f(4) [of 12] by (simp add: blink_at_def)
qed

section \<open>Areas of memory\<close>

text \<open>Between two states only the \<open>n\<close> bytes at \<open>a\<close> differ.\<close>

definition writes_in :: "u32 \<Rightarrow> nat \<Rightarrow> 'a machine_scheme \<Rightarrow> 'a machine_scheme \<Rightarrow> bool" where
  "writes_in a n s t \<longleftrightarrow> xlat t = xlat s \<and> machine.more t = machine.more s \<and>
     (\<forall>q. q \<notin> (\<lambda>i. xlat s (a + of_nat i)) ` {..<n} \<longrightarrow> ram t q = ram s q)"

lemma writes_in_refl [simp]: "writes_in a n s s"
  by (simp add: writes_in_def)

lemma writes_in_trans: "writes_in a n s t \<Longrightarrow> writes_in a n t u \<Longrightarrow> writes_in a n s u"
  by (simp add: writes_in_def)

lemma writes_in_shift:
  assumes "writes_in (a + of_nat k) m s t" "k + m \<le> n"
  shows "writes_in a n s t"
proof -
  have "(\<lambda>i. xlat s (a + of_nat k + of_nat i)) ` {..<m} \<subseteq> (\<lambda>i. xlat s (a + of_nat i)) ` {..<n}"
  proof
    fix q assume "q \<in> (\<lambda>i. xlat s (a + of_nat k + of_nat i)) ` {..<m}"
    then obtain i where "i < m" "q = xlat s (a + of_nat (k + i))" by (auto simp: add.assoc)
    then show "q \<in> (\<lambda>i. xlat s (a + of_nat i)) ` {..<n}" using assms(2) by (intro image_eqI [of _ _ "k + i"]) auto
  qed
  then show ?thesis using assms(1) unfolding writes_in_def by blast
qed

lemma writes_in_write: "writes_in a (length bs) s (write_bytes a bs s)"
  using write_bytes_ram [of _ s a bs] by (simp add: writes_in_def)

lemma writes_in_store: "writes_in a 1 s (store a v s)"
  using writes_in_write [of a "[v]" s] by simp

lemma writes_in_store16: "writes_in a 2 s (store16 a w s)"
  using writes_in_write [of a "[ucast w, ucast (drop_bit 8 w)]" s] by (simp add: store16_def numeral_2_eq_2)

lemma writes_in_store32: "writes_in a 4 s (store32 a w s)"
  using writes_in_write [of a "[ucast w, ucast (drop_bit 8 w), ucast (drop_bit 16 w), ucast (drop_bit 24 w)]" s]
  by (simp add: store32_def numeral_eq_Suc)

lemma writes_in_apart:
  assumes "writes_in a n s t" "apart s a n b m"
  shows "read_bytes t b m = read_bytes s b m"
proof (rule nth_equalityI)
  fix i assume "i < length (read_bytes t b m)"
  then have "xlat s (b + of_nat i) \<notin> (\<lambda>i. xlat s (a + of_nat i)) ` {..<n}"
    using assms(2) unfolding apart_def image_iff by (metis lessThan_iff length_read_bytes)
  then show "read_bytes t b m ! i = read_bytes s b m ! i" using assms(1) \<open>i < length (read_bytes t b m)\<close> by (simp add: writes_in_def load_def)
qed simp

lemma writes_in_frame:
  assumes "writes_in a n s t"
  shows "xlat t = xlat s" "machine.more t = machine.more s" "spread t b m = spread s b m" "apart t b m c k = apart s b m c k"
  using assms by (simp_all add: writes_in_def spread_def apart_def)

lemma read_poke:
  assumes "spread s v n" "i < n"
  shows "read_bytes (store (v + of_nat i) c s) v n = (read_bytes s v n)[i := c]"
  using spread_distinct [OF assms(1)] assms(2) by (auto intro!: nth_equalityI simp: load_store nth_list_update)

lemma copy_bytes:
  assumes "apart s src n dst n"
  shows "for_loop 0 n (\<lambda>i s. store (dst + of_nat i) (load s (src + of_nat i)) s) s = write_bytes dst (read_bytes s src n) s"
proof -
  have "for_loop 0 m (\<lambda>i s. store (dst + of_nat i) (load s (src + of_nat i)) s) s = write_bytes dst (read_bytes s src m) s" if "m \<le> n" for m
    using that
  proof (induction m)
    case (Suc m)
    have "apart s dst m src n" by (rule apart_mono [OF apart_sym [OF assms]]) (use Suc.prems in simp_all)
    then have "load (write_bytes dst (read_bytes s src m) s) (src + of_nat m) = load s (src + of_nat m)"
      using Suc.prems by (intro load_write_apart [of _ _ _ _ n]) simp_all
    then show ?case using Suc read_bytes_add [of s src m 1]
      by (simp add: for_loop_Suc write_bytes_append read_bytes_Suc)
  qed simp
  then show ?thesis by simp
qed

lemma ece391_memcpy_eq: "apart s src n dst n \<Longrightarrow> ece391_memcpy dst src (int n) s = (0, write_bytes dst (read_bytes s src n) s)"
  by (simp add: ece391_memcpy_def copy_bytes)

lemma ece391_memset_eq: "ece391_memset a c (int n) s = write_bytes a (replicate n c) s"
proof (induction n)
  case (Suc n)
  have "replicate (Suc n) c = replicate n c @ [c]" by (simp add: replicate_append_same)
  then show ?case using Suc by (simp add: ece391_memset_def for_loop_Suc write_bytes_append nat_add_distrib del: replicate_Suc)
qed (simp add: ece391_memset_def)

end
