(* ===== verification/Blink_List.thy ===== *)
theory Blink_List
  imports Blink
begin

text \<open>
  The list of blinks as a list: the invariant \<open>blink_list\<close> of the chain of structures, the tasklet as one tick of every
  blink, and the requests of \<^verbatim>\<open>mp1_ioctl\<close> as functions on the list and the screen.
\<close>

section \<open>The list of blinks\<close>

definition blink_areas :: "blink_link \<Rightarrow> 'a machine_scheme \<Rightarrow> (u32 \<times> nat) list" where
  "blink_areas F s = [(blink_array F, 32000), (mp1_list_head F, 4), (vmem_base_addr F, 4), (add_temp F, 16), (find_key F, 2),
     (load32 s (vmem_base_addr F), 4000)]"

text \<open>The static data, the locals and the mapped screen are areas of distinct bytes that do not overlap.\<close>

definition blink_memory :: "blink_link \<Rightarrow> 'a machine_scheme \<Rightarrow> bool" where
  "blink_memory F s \<longleftrightarrow> 0 < unat (blink_array F) \<and> unat (blink_array F) + 32000 \<le> 2 ^ 32 \<and>
     list_all (\<lambda>(a, n). spread s a n) (blink_areas F s) \<and> sorted_wrt (\<lambda>(a, n) (b, m). apart s a n b m) (blink_areas F s)"

lemma blink_memory_areas:
  assumes "blink_memory F s" "x < 6" "y < 6" "x \<noteq> y" "blink_areas F s ! x = (a, n)" "blink_areas F s ! y = (b, m)"
  shows "apart s a n b m"
proof -
  have l: "length (blink_areas F s) = 6" by (simp add: blink_areas_def)
  have "apart s a n b m" if "x < y" "y < 6" "blink_areas F s ! x = (a, n)" "blink_areas F s ! y = (b, m)" for x y a n b m
    using sorted_wrt_nth_less [OF _ that(1), of "\<lambda>(a, n) (b, m). apart s a n b m" "blink_areas F s"] assms(1) that l
    by (simp add: blink_memory_def)
  then show ?thesis using assms(2-6) apart_sym by (metis linorder_neqE_nat)
qed

lemma blink_spread:
  assumes "blink_memory F s"
  shows "spread s (blink_array F) 32000" "spread s (mp1_list_head F) 4" "spread s (vmem_base_addr F) 4" "spread s (add_temp F) 16"
    "spread s (find_key F) 2" "spread s (load32 s (vmem_base_addr F)) 4000"
  using assms by (simp_all add: blink_memory_def blink_areas_def)

lemma blink_slot_word: "i < 2000 \<Longrightarrow> blink_memory F s \<Longrightarrow> unat (blink_slot F i) = unat (blink_array F) + 16 * i"
  unfolding blink_slot_def by (rule u32_add_less_iff [of _ 32000]) (simp_all add: blink_memory_def)

lemma blink_slot_inj:
  assumes "blink_memory F s" "i < 2000" "j < 2000"
  shows "blink_slot F i = blink_slot F j \<longleftrightarrow> i = j" "blink_slot F i \<noteq> 0"
proof -
  note w = blink_slot_word [OF assms(2,1)] blink_slot_word [OF assms(3,1)]
  show "blink_slot F i = blink_slot F j \<longleftrightarrow> i = j"
  proof
    assume "blink_slot F i = blink_slot F j"
    then have "unat (blink_slot F i) = unat (blink_slot F j)" by (rule arg_cong)
    then show "i = j" unfolding w by linarith
  qed simp
  have "0 < unat (blink_slot F i)" using assms(1) unfolding w blink_memory_def by linarith
  then show "blink_slot F i \<noteq> 0" by (metis less_irrefl unsigned_0)
qed

lemma slot_spread: "blink_memory F s \<Longrightarrow> i < 2000 \<Longrightarrow> spread s (blink_slot F i) 16"
  unfolding blink_slot_def by (rule part_spread [OF blink_spread(1)]) simp_all

lemma slot_apart:
  "blink_memory F s \<Longrightarrow> i < 2000 \<Longrightarrow> j < 2000 \<Longrightarrow> i \<noteq> j \<Longrightarrow> apart s (blink_slot F i) 16 (blink_slot F j) 16"
  unfolding blink_slot_def by (rule parts_apart [OF blink_spread(1)]) auto

lemma slot_area_apart:
  assumes "blink_memory F s" "i < 2000" "0 < x" "x < 6" "blink_areas F s ! x = (b, m)"
  shows "apart s (blink_slot F i) 16 b m"
proof -
  have "apart s (blink_array F) 32000 b m" by (rule blink_memory_areas [OF assms(1) _ assms(4) _ _ assms(5), of 0]) (use assms(3) in \<open>simp_all add: blink_areas_def\<close>)
  then show ?thesis unfolding blink_slot_def by (rule apart_shift_left) (use assms(2) in simp)
qed

text \<open>Only those areas change, the screen stays where it is mapped.\<close>

definition blink_frame :: "blink_link \<Rightarrow> 'a machine_scheme \<Rightarrow> 'a machine_scheme \<Rightarrow> bool" where
  "blink_frame F s t \<longleftrightarrow> xlat t = xlat s \<and> machine.more t = machine.more s \<and>
     load32 t (vmem_base_addr F) = load32 s (vmem_base_addr F) \<and>
     (\<forall>q. (\<forall>(a, n) \<in> set (blink_areas F s). q \<notin> (\<lambda>i. xlat s (a + of_nat i)) ` {..<n}) \<longrightarrow> ram t q = ram s q)"

lemma blink_frame_refl [simp]: "blink_frame F s s"
  by (simp add: blink_frame_def)

lemma blink_frame_areas: "blink_frame F s t \<Longrightarrow> blink_areas F t = blink_areas F s"
  by (simp add: blink_frame_def blink_areas_def)

lemma blink_frame_trans: "blink_frame F s t \<Longrightarrow> blink_frame F t u \<Longrightarrow> blink_frame F s u"
  using blink_frame_areas [of F s t] by (simp add: blink_frame_def)

lemma blink_frame_memory:
  assumes "blink_frame F s t"
  shows "blink_memory F t = blink_memory F s"
proof -
  have "xlat t = xlat s" using assms by (simp add: blink_frame_def)
  then have "spread t = spread s" "apart t = apart s" by (simp_all add: spread_def apart_def fun_eq_iff)
  then show ?thesis unfolding blink_memory_def blink_frame_areas [OF assms] by simp
qed

lemma blink_frame_area:
  assumes "blink_memory F s" "writes_in a n s t" "x < 6" "blink_areas F s ! x = (a, n)" "x \<noteq> 2"
  shows "blink_frame F s t"
proof -
  have v: "blink_areas F s ! 2 = (vmem_base_addr F, 4)" by (simp add: blink_areas_def)
  have "read_bytes t (vmem_base_addr F) 4 = read_bytes s (vmem_base_addr F) 4"
    by (rule writes_in_apart [OF assms(2) blink_memory_areas [OF assms(1,3) _ assms(5,4) v]]) simp
  then have "load32 t (vmem_base_addr F) = load32 s (vmem_base_addr F)" by (simp add: load_parts(3))
  moreover have "(a, n) \<in> set (blink_areas F s)" using assms(3,4) nth_mem [of x "blink_areas F s"] by (simp add: blink_areas_def)
  ultimately show ?thesis using assms(2) unfolding blink_frame_def writes_in_def by blast
qed

lemma writes_in_slot: "i < 2000 \<Longrightarrow> writes_in (blink_slot F i) 16 s t \<Longrightarrow> writes_in (blink_array F) 32000 s t"
  unfolding blink_slot_def by (erule writes_in_shift) simp

definition screen_bytes :: "blink_link \<Rightarrow> 'a machine_scheme \<Rightarrow> u8 list" where
  "screen_bytes F s = read_bytes s (load32 s (vmem_base_addr F)) 4000"

lemma blink_frame_read:
  assumes "blink_frame F s t" "\<forall>(a, n) \<in> set (blink_areas F s). apart s b m a n"
  shows "read_bytes t b m = read_bytes s b m"
proof (rule nth_equalityI)
  fix i assume "i < length (read_bytes t b m)"
  then have i: "i < m" by simp
  have "\<forall>(a, n) \<in> set (blink_areas F s). xlat s (b + of_nat i) \<notin> (\<lambda>i. xlat s (a + of_nat i)) ` {..<n}"
    using assms(2) i unfolding apart_def by fast
  then show "read_bytes t b m ! i = read_bytes s b m ! i" using assms(1) i by (simp add: blink_frame_def load_def)
qed simp

text \<open>What a write to one structure leaves alone.\<close>

lemma slot_step:
  assumes "blink_memory F s" "i < 2000" "writes_in (blink_slot F i) 16 s t"
  shows "blink_frame F s t" "load32 t (mp1_list_head F) = load32 s (mp1_list_head F)" "screen_bytes F t = screen_bytes F s"
    "j < 2000 \<Longrightarrow> j \<noteq> i \<Longrightarrow> blink_at t (blink_slot F j) = blink_at s (blink_slot F j)"
    "blink_at t (add_temp F) = blink_at s (add_temp F)"
proof -
  note n = slot_area_apart [OF assms(1,2)]
  show f: "blink_frame F s t"
    by (rule blink_frame_area [OF assms(1) writes_in_slot [OF assms(2,3)], of 0]) (simp_all add: blink_areas_def)
  have "read_bytes t (mp1_list_head F) 4 = read_bytes s (mp1_list_head F) 4"
    by (rule writes_in_apart [OF assms(3) n [of 1]]) (simp_all add: blink_areas_def)
  then show "load32 t (mp1_list_head F) = load32 s (mp1_list_head F)" by (simp add: load_parts(3))
  have "read_bytes t (load32 s (vmem_base_addr F)) 4000 = read_bytes s (load32 s (vmem_base_addr F)) 4000"
    by (rule writes_in_apart [OF assms(3) n [of 5]]) (simp_all add: blink_areas_def)
  then show "screen_bytes F t = screen_bytes F s" using f by (simp add: screen_bytes_def blink_frame_def)
  show "blink_at t (blink_slot F j) = blink_at s (blink_slot F j)" if "j < 2000" "j \<noteq> i"
    by (rule blink_cong [OF writes_in_apart [OF assms(3) slot_apart [OF assms(1,2)]]]) (use that in simp_all)
  show "blink_at t (add_temp F) = blink_at s (add_temp F)"
    by (rule blink_cong [OF writes_in_apart [OF assms(3) n [of 3]]]) (simp_all add: blink_areas_def)
qed

lemma blink_loads:
  "load16 s p = location (blink_at s p)" "load s (p + 2) = on_char (blink_at s p)" "load s (p + 3) = off_char (blink_at s p)"
  "load16 s (p + 4) = on_length (blink_at s p)" "load16 s (p + 6) = off_length (blink_at s p)"
  "load16 s (p + 8) = countdown (blink_at s p)" "load16 s (p + 10) = status (blink_at s p)" "load32 s (p + 12) = next_blink (blink_at s p)"
  by (simp_all add: blink_at_def)

lemma cell_nat: "cell s p = of_nat (2 * unat (location (blink_at s p)))"
proof -
  have "(ucast (load16 s p) :: u32) = of_nat (unat (load16 s p))" by simp
  then show ?thesis by (simp add: cell_def push_bit_eq_mult blink_loads(1) [symmetric])
qed

text \<open>What a character written to the screen leaves alone.\<close>

lemma poke_step:
  assumes "blink_memory F s" "location (blink_at s p) < 2000" "t = mp1_poke F c (cell s p) s"
  shows "blink_frame F s t" "load32 t (mp1_list_head F) = load32 s (mp1_list_head F)"
    "screen_bytes F t = (screen_bytes F s)[2 * unat (location (blink_at s p)) := c]"
    "j < 2000 \<Longrightarrow> blink_at t (blink_slot F j) = blink_at s (blink_slot F j)"
proof -
  let ?v = "load32 s (vmem_base_addr F)" and ?l = "unat (location (blink_at s p))"
  have l: "?l < 2000" using assms(2) by (simp add: word_less_nat_alt)
  have t: "t = store (?v + of_nat (2 * ?l)) c s" by (simp only: assms(3) mp1_poke_def cell_nat)
  have w: "writes_in ?v 4000 s t" unfolding t by (rule writes_in_shift [OF writes_in_store]) (use l in simp)
  show f: "blink_frame F s t" by (rule blink_frame_area [OF assms(1) w, of 5]) (simp_all add: blink_areas_def)
  have "read_bytes t (mp1_list_head F) 4 = read_bytes s (mp1_list_head F) 4"
    by (rule writes_in_apart [OF w blink_memory_areas [OF assms(1), of 5 1]]) (simp_all add: blink_areas_def)
  then show "load32 t (mp1_list_head F) = load32 s (mp1_list_head F)" by (simp add: load_parts(3))
  have v: "load32 t (vmem_base_addr F) = ?v" using f by (simp add: blink_frame_def)
  have "read_bytes t ?v 4000 = (read_bytes s ?v 4000)[2 * ?l := c]"
    unfolding t by (rule read_poke [OF blink_spread(6) [OF assms(1)]]) (use l in simp)
  then show "screen_bytes F t = (screen_bytes F s)[2 * ?l := c]" by (simp only: screen_bytes_def v)
  show "blink_at t (blink_slot F j) = blink_at s (blink_slot F j)" if "j < 2000"
    by (rule blink_cong [OF writes_in_apart [OF w apart_sym [OF slot_area_apart [OF assms(1) that, of 5]]]]) (simp_all add: blink_areas_def)
qed

section \<open>The tasklet\<close>

text \<open>One blink at one tick: what becomes of it, and the character it shows if it changes.\<close>

definition tick :: "blink \<Rightarrow> blink \<times> u8 option" where
  "tick b =
     (if 0 < sint (countdown b - 1) then (b\<lparr>countdown := countdown b - 1\<rparr>, None)
      else if status b AND 1 = 0 then (b\<lparr>countdown := on_length b, status := status b XOR 1\<rparr>, Some (on_char b))
      else (b\<lparr>countdown := off_length b, status := status b XOR 1\<rparr>, Some (off_char b)))"

definition show_at :: "u16 \<Rightarrow> u8 option \<Rightarrow> u8 list \<Rightarrow> u8 list" where
  "show_at l w scr = (case w of None \<Rightarrow> scr | Some c \<Rightarrow> scr[2 * unat l := c])"

lemma tick_kept [simp]: "location (fst (tick b)) = location b" "next_blink (fst (tick b)) = next_blink b"
  "on_char (fst (tick b)) = on_char b" "off_char (fst (tick b)) = off_char b"
  "on_length (fst (tick b)) = on_length b" "off_length (fst (tick b)) = off_length b"
  by (simp_all add: tick_def)

lemma tasklet_body_tick:
  fixes F :: blink_link
  assumes "blink_memory F s" "i < 2000" "location (blink_at s (blink_slot F i)) < 2000" "t = tasklet_body F (blink_slot F i) s"
  shows "blink_frame F s t" "load32 t (mp1_list_head F) = load32 s (mp1_list_head F)"
    "blink_at t (blink_slot F i) = fst (tick (blink_at s (blink_slot F i)))"
    "screen_bytes F t = show_at (location (blink_at s (blink_slot F i))) (snd (tick (blink_at s (blink_slot F i)))) (screen_bytes F s)"
    "j < 2000 \<Longrightarrow> j \<noteq> i \<Longrightarrow> blink_at t (blink_slot F j) = blink_at s (blink_slot F j)"
proof -
  let ?p = "blink_slot F i" let ?b = "blink_at s ?p"
  have w16: "writes_in ?p 16 u (store16 (?p + 8) v u)" "writes_in ?p 16 u (store16 (?p + 10) v u)" for u :: "'a machine_scheme" and v
    using writes_in_shift [OF writes_in_store16 [of "?p + of_nat 8" u v], of 16] writes_in_shift [OF writes_in_store16 [of "?p + of_nat 10" u v], of 16]
    by simp_all
  define s1 where "s1 = store16 (?p + 8) (countdown ?b - 1) s"
  note sp = slot_spread [OF assms(1,2)]
  note st1 = slot_step [OF assms(1,2) w16(1) [of s "countdown ?b - 1"], folded s1_def]
  have b1: "blink_at s1 ?p = ?b\<lparr>countdown := countdown ?b - 1\<rparr>" using blink_fields(3) [OF sp] by (simp add: s1_def)
  have m1: "blink_memory F s1" using blink_frame_memory [OF st1(1)] assms(1) by simp
  show "blink_frame F s t" "load32 t (mp1_list_head F) = load32 s (mp1_list_head F)" "blink_at t ?p = fst (tick ?b)"
    "screen_bytes F t = show_at (location ?b) (snd (tick ?b)) (screen_bytes F s)"
    "j < 2000 \<Longrightarrow> j \<noteq> i \<Longrightarrow> blink_at t (blink_slot F j) = blink_at s (blink_slot F j)"
  proof -
    let ?off = "status ?b AND 1 = 0"
    define c where "c = (if ?off then on_char ?b else off_char ?b)"
    define l where "l = (if ?off then on_length ?b else off_length ?b)"
    define s2 where "s2 = mp1_poke F c (cell s1 ?p) s1"
    define s3 where "s3 = store16 (?p + 8) l s2"
    define s4 where "s4 = store16 (?p + 10) (status ?b XOR 1) s3"
    have st2: "blink_frame F s1 s2" "load32 s2 (mp1_list_head F) = load32 s1 (mp1_list_head F)"
      "screen_bytes F s2 = (screen_bytes F s1)[2 * unat (location ?b) := c]"
      "\<And>j. j < 2000 \<Longrightarrow> blink_at s2 (blink_slot F j) = blink_at s1 (blink_slot F j)"
      using poke_step [OF m1 _ s2_def] assms(3) by (simp_all add: b1)
    have m2: "blink_memory F s2" using blink_frame_memory [OF st2(1)] m1 by simp
    note st3 = slot_step [OF m2 assms(2) w16(1) [of s2 l], folded s3_def]
    have m3: "blink_memory F s3" using blink_frame_memory [OF st3(1)] m2 by simp
    note st4 = slot_step [OF m3 assms(2) w16(2) [of s3 "status ?b XOR 1"], folded s4_def]
    have b2: "blink_at s2 ?p = ?b\<lparr>countdown := countdown ?b - 1\<rparr>" using st2(4) [OF assms(2)] b1 by simp
    have b3: "blink_at s3 ?p = ?b\<lparr>countdown := l\<rparr>" using blink_fields(3) [OF slot_spread [OF m2 assms(2)]] b2 by (simp add: s3_def)
    have b4: "blink_at s4 ?p = ?b\<lparr>countdown := l, status := status ?b XOR 1\<rparr>"
      using blink_fields(4) [OF slot_spread [OF m3 assms(2)]] b3 by (simp add: s4_def)
    have t: "t = (if 0 < sint (countdown ?b - 1) then s1 else s4)"
    proof (cases ?off)
      case True
      then have "s2 = mp1_poke F (on_char ?b) (cell s1 ?p) s1" "s3 = store16 (?p + 8) (on_length ?b) s2"
        by (simp_all add: c_def l_def s2_def s3_def)
      note d = this [symmetric]
      then show ?thesis using True b1 b2 b3
        by (simp add: assms(4) tasklet_body_def Let_def blink_loads [of _ ?p] s1_def [symmetric] d s4_def [symmetric])
    next
      case False
      then have "s2 = mp1_poke F (off_char ?b) (cell s1 ?p) s1" "s3 = store16 (?p + 8) (off_length ?b) s2"
        by (simp_all add: c_def l_def s2_def s3_def)
      note d = this [symmetric]
      then show ?thesis using False b1 b2 b3
        by (simp add: assms(4) tasklet_body_def Let_def blink_loads [of _ ?p] s1_def [symmetric] d s4_def [symmetric])
    qed
    have f4: "blink_frame F s s4" using st1(1) st2(1) st3(1) st4(1) by (blast intro: blink_frame_trans)
    show "blink_frame F s t" using t st1(1) f4 by simp
    show "load32 t (mp1_list_head F) = load32 s (mp1_list_head F)" using t st1(2) st2(2) st3(2) st4(2) by simp
    show "blink_at t ?p = fst (tick ?b)" using t b1 b4 by (simp add: tick_def l_def)
    show "screen_bytes F t = show_at (location ?b) (snd (tick ?b)) (screen_bytes F s)"
      using t st1(3) st2(3) st3(3) st4(3) by (simp add: tick_def c_def show_at_def)
    show "blink_at t (blink_slot F j) = blink_at s (blink_slot F j)" if "j < 2000" "j \<noteq> i"
      using t st1(4) [OF that] st2(4) [OF that(1)] st3(4) [OF that] st4(4) [OF that] by simp
  qed
qed

text \<open>The chain of structures from a pointer on, and the invariant of the list.\<close>

primrec linked :: "'a machine_scheme \<Rightarrow> u32 \<Rightarrow> u32 list \<Rightarrow> bool" where
  "linked s p [] \<longleftrightarrow> p = 0"
| "linked s p (q # qs) \<longleftrightarrow> p = q \<and> q \<noteq> 0 \<and> linked s (next_blink (blink_at s q)) qs"

lemma linked_cong: "(\<And>q. q \<in> set qs \<Longrightarrow> next_blink (blink_at t q) = next_blink (blink_at s q)) \<Longrightarrow> linked t p qs = linked s p qs"
  by (induction qs arbitrary: p) auto

definition blink_slots :: "blink_link \<Rightarrow> u32 set" where
  "blink_slots F = blink_slot F ` {..<2000}"

definition blink_list :: "blink_link \<Rightarrow> u32 list \<Rightarrow> 'a machine_scheme \<Rightarrow> bool" where
  "blink_list F ps s \<longleftrightarrow> blink_memory F s \<and> linked s (load32 s (mp1_list_head F)) ps \<and> distinct ps \<and> set ps \<subseteq> blink_slots F \<and>
     (\<forall>p \<in> blink_slots F. location (blink_at s p) \<noteq> 0 \<longleftrightarrow> p \<in> set ps) \<and> (\<forall>p \<in> set ps. location (blink_at s p) < 2000)"

fun tick_all :: "blink list \<Rightarrow> u8 list \<Rightarrow> u8 list" where
  "tick_all [] scr = scr"
| "tick_all (b # bs) scr = tick_all bs (show_at (location b) (snd (tick b)) scr)"

lemma tasklet_loop_ticks:
  fixes F :: blink_link
  assumes "blink_memory F s" "linked s p ps" "distinct ps" "set ps \<subseteq> blink_slots F" "\<forall>p \<in> set ps. location (blink_at s p) < 2000"
  shows "\<exists>t. tasklet_loop F p s = Some t \<and> blink_frame F s t \<and> load32 t (mp1_list_head F) = load32 s (mp1_list_head F) \<and>
    screen_bytes F t = tick_all (map (blink_at s) ps) (screen_bytes F s) \<and>
    (\<forall>q \<in> blink_slots F. blink_at t q = (if q \<in> set ps then fst (tick (blink_at s q)) else blink_at s q))"
  using assms
proof (induction ps arbitrary: p s)
  case Nil
  then show ?case by (simp add: tasklet_loop.simps)
next
  case (Cons q qs)
  then obtain i where i: "i < 2000" "q = blink_slot F i" by (auto simp: blink_slots_def)
  define u where "u = tasklet_body F q s"
  have "location (blink_at s (blink_slot F i)) < 2000" using Cons.prems(5) i(2) by simp
  note b = tasklet_body_tick [OF Cons.prems(1) i(1) this u_def [unfolded i(2)], folded i(2)]
  have o: "blink_at u r = blink_at s r" if r: "r \<in> blink_slots F" "r \<noteq> q" for r
    using b(5) r i(2) by (auto simp: blink_slots_def)
  have qs: "blink_at u r = blink_at s r" if "r \<in> set qs" for r using o [of r] that Cons.prems(3,4) by auto
  have m: "blink_memory F u" using blink_frame_memory [OF b(1)] Cons.prems(1) by simp
  have l: "linked u (next_blink (blink_at s q)) qs" using linked_cong [of qs u s] qs Cons.prems(2) by simp
  have c: "\<forall>r \<in> set qs. location (blink_at u r) < 2000" using qs Cons.prems(5) by simp
  have d: "distinct qs" "set qs \<subseteq> blink_slots F" using Cons.prems(3,4) by simp_all
  obtain t where t: "tasklet_loop F (next_blink (blink_at s q)) u = Some t" "blink_frame F u t"
      "load32 t (mp1_list_head F) = load32 u (mp1_list_head F)" "screen_bytes F t = tick_all (map (blink_at u) qs) (screen_bytes F u)"
      "\<forall>r \<in> blink_slots F. blink_at t r = (if r \<in> set qs then fst (tick (blink_at u r)) else blink_at u r)"
    using Cons.IH [OF m l d c] by blast
  have p: "p = q" "q \<noteq> 0" using Cons.prems(2) by simp_all
  have "load32 u (q + 12) = next_blink (blink_at s q)" using b(3) by (simp add: blink_loads)
  then have e: "tasklet_loop F p s = Some t" using t(1) p by (simp add: tasklet_loop.simps [of F q s] u_def [symmetric])
  have mp: "map (blink_at u) qs = map (blink_at s) qs" using qs by simp
  have "q \<notin> set qs" using Cons.prems(3) by simp
  then have "blink_at t r = (if r \<in> set (q # qs) then fst (tick (blink_at s r)) else blink_at s r)" if "r \<in> blink_slots F" for r
    using t(5) that b(3) o qs by auto
  then show ?case using e blink_frame_trans [OF b(1) t(2)] t(3,4) b(2,4) mp by auto
qed

lemma tasklet_ticks:
  assumes "blink_list F ps s"
  shows "\<exists>t. mp1_rtc_tasklet F s = Some t \<and> blink_list F ps t \<and> blink_frame F s t \<and>
    map (blink_at t) ps = map (\<lambda>b. fst (tick b)) (map (blink_at s) ps) \<and>
    screen_bytes F t = tick_all (map (blink_at s) ps) (screen_bytes F s)"
proof -
  have a: "blink_memory F s" "linked s (load32 s (mp1_list_head F)) ps" "distinct ps" "set ps \<subseteq> blink_slots F"
    "\<forall>p \<in> set ps. location (blink_at s p) < 2000" "\<forall>p \<in> blink_slots F. location (blink_at s p) \<noteq> 0 \<longleftrightarrow> p \<in> set ps"
    using assms by (simp_all add: blink_list_def)
  obtain t where t: "mp1_rtc_tasklet F s = Some t" "blink_frame F s t" "load32 t (mp1_list_head F) = load32 s (mp1_list_head F)"
      "screen_bytes F t = tick_all (map (blink_at s) ps) (screen_bytes F s)"
      "\<forall>q \<in> blink_slots F. blink_at t q = (if q \<in> set ps then fst (tick (blink_at s q)) else blink_at s q)"
    using tasklet_loop_ticks [OF a(1-5)] by (auto simp: mp1_rtc_tasklet_def)
  have p: "blink_at t q = fst (tick (blink_at s q))" if "q \<in> set ps" for q using t(5) a(4) that by auto
  have "linked t (load32 t (mp1_list_head F)) ps" using linked_cong [of ps t s] p a(2) t(3) by simp
  moreover have "location (blink_at t q) = location (blink_at s q)" if "q \<in> blink_slots F" for q using t(5) that by simp
  ultimately have "blink_list F ps t" using a blink_frame_memory [OF t(2)] by (auto simp: blink_list_def)
  then show ?thesis using t p by simp
qed

section \<open>A blink in time\<close>

lemma even_status: "w AND 1 = 0 \<longleftrightarrow> even w" for w :: u16
  by (simp add: and_one_eq even_iff_mod_2_eq_zero)

lemma sint_count:
  fixes w :: u16
  assumes "0 < unat w" "unat w < 32768"
  shows "0 < sint (w - 1) \<longleftrightarrow> 1 < unat w" "unat (w - 1) = unat w - 1"
proof -
  have w: "w - 1 = of_nat (unat w - 1)" using assms(1) by (simp add: of_nat_diff)
  have "sint (of_nat (unat w - 1) :: u16) = int (unat w - 1)"
    using assms(2) by (simp add: signed_of_nat signed_take_bit_int_eq_self)
  then show "0 < sint (w - 1) \<longleftrightarrow> 1 < unat w" unfolding w by simp
  show "unat (w - 1) = unat w - 1" unfolding w using assms(2) by (simp add: unat_of_nat take_bit_nat_eq_self)
qed

text \<open>
  A blink that is \<open>j\<close> ticks into its period: for the first \<open>on_length\<close> ticks of it the blink is on, and the
  countdown says how many ticks the present half goes on.
\<close>

definition period :: "blink \<Rightarrow> nat" where
  "period b = unat (on_length b) + unat (off_length b)"

definition lengths_ok :: "blink \<Rightarrow> bool" where
  "lengths_ok b \<longleftrightarrow> 0 < on_length b \<and> on_length b < 0x8000 \<and> 0 < off_length b \<and> off_length b < 0x8000"

definition in_phase :: "nat \<Rightarrow> blink \<Rightarrow> bool" where
  "in_phase j b \<longleftrightarrow> lengths_ok b \<and> j < period b \<and> (odd (status b) \<longleftrightarrow> j < unat (on_length b)) \<and>
     unat (countdown b) = (if j < unat (on_length b) then unat (on_length b) - j else period b - j)"

definition visible :: "blink \<Rightarrow> u8" where
  "visible b = (if odd (status b) then on_char b else off_char b)"

lemma tick_phase:
  assumes "in_phase j b"
  shows "in_phase (Suc j mod period b) (fst (tick b))"
proof -
  have l: "0 < unat (on_length b)" "unat (on_length b) < 32768" "0 < unat (off_length b)" "unat (off_length b) < 32768"
    "j < period b" "odd (status b) \<longleftrightarrow> j < unat (on_length b)"
    "unat (countdown b) = (if j < unat (on_length b) then unat (on_length b) - j else period b - j)"
    using assms by (simp_all add: in_phase_def lengths_ok_def word_less_nat_alt)
  have c: "0 < unat (countdown b)" "unat (countdown b) < 32768" using l by (auto simp: period_def)
  note k = sint_count [OF c]
  have p: "period (fst (tick b)) = period b" "lengths_ok (fst (tick b)) = lengths_ok b" by (simp_all add: period_def lengths_ok_def)
  have s: "Suc j mod period b = (if Suc j = period b then 0 else Suc j)" using l(5) by simp
  show ?thesis
  proof (cases "1 < unat (countdown b)")
    case True
    then have "fst (tick b) = b\<lparr>countdown := countdown b - 1\<rparr>" using k(1) by (simp add: tick_def)
    moreover have "Suc j < period b" "j < unat (on_length b) \<longleftrightarrow> Suc j < unat (on_length b)" using True l by (auto simp: period_def)
    ultimately show ?thesis using assms k(2) l by (auto simp: in_phase_def s period_def lengths_ok_def)
  next
    case False
    then have t: "fst (tick b) = b\<lparr>countdown := (if even (status b) then on_length b else off_length b), status := status b XOR 1\<rparr>"
      using k(1) by (simp add: tick_def even_status)
    show ?thesis
    proof (cases "j < unat (on_length b)")
      case True
      then have "Suc j = unat (on_length b)" "Suc j \<noteq> period b" using False c l by (auto simp: period_def)
      then show ?thesis using assms True l by (simp add: in_phase_def s t even_xor_iff period_def lengths_ok_def)
    next
      case F: False
      then have "Suc j = period b" using False c l by auto
      then show ?thesis using assms F l by (simp add: in_phase_def s t even_xor_iff period_def lengths_ok_def)
    qed
  qed
qed

lemma tick_visible: "scr ! (2 * unat (location b)) = visible b \<Longrightarrow> 2 * unat (location b) < length scr \<Longrightarrow>
    show_at (location b) (snd (tick b)) scr ! (2 * unat (location b)) = visible (fst (tick b))"
  by (auto simp: show_at_def tick_def visible_def even_status even_xor_iff)

lemma tick_all_other: "l \<notin> location ` set bs \<Longrightarrow> tick_all bs scr ! (2 * unat l) = scr ! (2 * unat l)"
proof (induction bs arbitrary: scr)
  case (Cons b bs)
  then have "l \<noteq> location b" by auto
  then have "2 * unat (location b) \<noteq> 2 * unat l" using unsigned_word_eqI [of "location b" l] by auto
  then have "show_at (location b) w scr ! (2 * unat l) = scr ! (2 * unat l)" for w by (simp add: show_at_def split: option.split)
  then show ?case using Cons by simp
qed simp

lemma length_show_at [simp]: "length (show_at l w scr) = length scr"
  by (simp add: show_at_def split: option.split)

lemma length_tick_all [simp]: "length (tick_all bs scr) = length scr"
  by (induction bs arbitrary: scr) simp_all

lemma tick_all_visible:
  assumes "distinct (map location bs)" "\<forall>b \<in> set bs. scr ! (2 * unat (location b)) = visible b \<and> 2 * unat (location b) < length scr"
  shows "\<forall>b \<in> set bs. tick_all bs scr ! (2 * unat (location b)) = visible (fst (tick b))"
  using assms
proof (induction bs arbitrary: scr)
  case (Cons b bs)
  let ?scr = "show_at (location b) (snd (tick b)) scr"
  have o: "?scr ! (2 * unat (location c)) = scr ! (2 * unat (location c))" if "c \<in> set bs" for c
  proof -
    have "location b \<noteq> location c" using Cons.prems(1) that by auto
    then have "2 * unat (location b) \<noteq> 2 * unat (location c)" using unsigned_word_eqI [of "location b" "location c"] by auto
    then show ?thesis by (simp add: show_at_def split: option.split)
  qed
  have "tick_all bs ?scr ! (2 * unat (location b)) = visible (fst (tick b))"
    using tick_all_other [of "location b" bs ?scr] tick_visible [of scr b] Cons.prems by simp
  moreover have "\<forall>c \<in> set bs. tick_all bs ?scr ! (2 * unat (location c)) = visible (fst (tick c))"
    by (rule Cons.IH) (use Cons.prems o in auto)
  ultimately show ?case by simp
qed simp

primrec tasklets :: "blink_link \<Rightarrow> nat \<Rightarrow> 'a machine_scheme \<Rightarrow> 'a machine_scheme option" where
  "tasklets F 0 s = Some s"
| "tasklets F (Suc n) s = (case mp1_rtc_tasklet F s of None \<Rightarrow> None | Some t \<Rightarrow> tasklets F n t)"

text \<open>The list, no two of whose blinks are at the same place, every one with its character on the screen.\<close>

definition blinks_shown :: "blink_link \<Rightarrow> u32 list \<Rightarrow> 'a machine_scheme \<Rightarrow> bool" where
  "blinks_shown F ps s \<longleftrightarrow> blink_list F ps s \<and> distinct (map (\<lambda>p. location (blink_at s p)) ps) \<and>
     (\<forall>p \<in> set ps. screen_bytes F s ! (2 * unat (location (blink_at s p))) = visible (blink_at s p))"

lemma tasklet_shown:
  assumes "blinks_shown F ps s"
  shows "\<exists>t. mp1_rtc_tasklet F s = Some t \<and> blinks_shown F ps t \<and> blink_frame F s t \<and>
    (\<forall>p \<in> set ps. blink_at t p = fst (tick (blink_at s p)))"
proof -
  have a: "blink_list F ps s" "distinct (map location (map (blink_at s) ps))"
    "\<forall>p \<in> set ps. screen_bytes F s ! (2 * unat (location (blink_at s p))) = visible (blink_at s p)"
    using assms by (simp_all add: blinks_shown_def comp_def)
  obtain t where t: "mp1_rtc_tasklet F s = Some t" "blink_list F ps t" "blink_frame F s t"
      "map (blink_at t) ps = map (\<lambda>b. fst (tick b)) (map (blink_at s) ps)"
      "screen_bytes F t = tick_all (map (blink_at s) ps) (screen_bytes F s)" using tasklet_ticks [OF a(1)] by blast
  have p: "blink_at t p = fst (tick (blink_at s p))" if "p \<in> set ps" for p using t(4) that by simp
  have "unat (location (blink_at s p)) < 2000" if "p \<in> set ps" for p
    using a(1) that by (simp add: blink_list_def word_less_nat_alt)
  then have "\<forall>b \<in> set (map (blink_at s) ps). screen_bytes F s ! (2 * unat (location b)) = visible b \<and> 2 * unat (location b) < length (screen_bytes F s)"
    using a(3) by (simp add: screen_bytes_def)
  from tick_all_visible [OF a(2) this] have "screen_bytes F t ! (2 * unat (location (blink_at t p))) = visible (blink_at t p)" if "p \<in> set ps" for p
    using that p t(5) by simp
  moreover have "map (\<lambda>p. location (blink_at t p)) ps = map location (map (blink_at s) ps)" using p by simp
  then have "distinct (map (\<lambda>p. location (blink_at t p)) ps)" using a(2) by (simp only:)
  ultimately have "blinks_shown F ps t" using t(2) by (simp add: blinks_shown_def)
  then show ?thesis using t(1,3) p by blast
qed

text \<open>
  The tasklet makes the characters blink: with blinks on the list whose lengths are between 1 and 32767, \<open>n\<close>
  runs of it come to an end, and every blink that was \<open>j\<close> ticks into its period is \<open>j + n\<close> ticks into it. It shows its
  first character for \<open>on_length\<close> ticks, then the other one for \<open>off_length\<close> ticks, and so on, however the
  others blink; nothing but the structures and the screen is written.
\<close>

theorem blinks_alternate:
  assumes "blinks_shown F ps s" "\<forall>p \<in> set ps. in_phase (j p) (blink_at s p)"
  shows "\<exists>t. tasklets F n s = Some t \<and> blinks_shown F ps t \<and> blink_frame F s t \<and>
    (\<forall>p \<in> set ps. let b = blink_at s p; k = (j p + n) mod period b
       in in_phase k (blink_at t p) \<and>
          screen_bytes F t ! (2 * unat (location b)) = (if k < unat (on_length b) then on_char b else off_char b))"
  using assms
proof (induction n arbitrary: s j)
  case 0
  have "in_phase (j p mod period (blink_at s p)) (blink_at s p) \<and> visible (blink_at s p) =
      (if j p mod period (blink_at s p) < unat (on_length (blink_at s p)) then on_char (blink_at s p) else off_char (blink_at s p))"
    if "p \<in> set ps" for p using 0(2) that by (simp add: in_phase_def visible_def)
  then show ?case using 0(1) by (simp add: blinks_shown_def Let_def)
next
  case (Suc n)
  obtain u where u: "mp1_rtc_tasklet F s = Some u" "blinks_shown F ps u" "blink_frame F s u" "\<forall>p \<in> set ps. blink_at u p = fst (tick (blink_at s p))"
    using tasklet_shown [OF Suc.prems(1)] by blast
  let ?k = "\<lambda>p. Suc (j p) mod period (blink_at s p)"
  have "\<forall>p \<in> set ps. in_phase (?k p) (blink_at u p)" using tick_phase Suc.prems(2) u(4) by simp
  from Suc.IH [OF u(2) this] obtain t where t: "tasklets F n u = Some t" "blinks_shown F ps t" "blink_frame F u t"
      "\<forall>p \<in> set ps. let b = blink_at u p; k = (?k p + n) mod period b
       in in_phase k (blink_at t p) \<and>
          screen_bytes F t ! (2 * unat (location b)) = (if k < unat (on_length b) then on_char b else off_char b)" by blast
  have "let b = blink_at s p; k = (j p + Suc n) mod period b
       in in_phase k (blink_at t p) \<and>
          screen_bytes F t ! (2 * unat (location b)) = (if k < unat (on_length b) then on_char b else off_char b)" if p: "p \<in> set ps" for p
  proof -
    have b: "blink_at u p = fst (tick (blink_at s p))" using u(4) p by blast
    have "period (blink_at u p) = period (blink_at s p)" by (simp add: b period_def)
    moreover have "(?k p + n) mod period (blink_at s p) = (j p + Suc n) mod period (blink_at s p)" by (simp add: mod_simps)
    ultimately show ?thesis using bspec [OF t(4) p] by (simp add: b Let_def)
  qed
  then show ?case using u(1,3) t(1-3) blink_frame_trans by (auto simp: Let_def)
qed

section \<open>Requests\<close>

lemma area_kept:
  assumes "blink_memory F s" "writes_in a n s t" "x < 6" "blink_areas F s ! x = (a, n)" "y < 6" "x \<noteq> y" "blink_areas F s ! y = (b, m)"
  shows "read_bytes t b m = read_bytes s b m"
  by (rule writes_in_apart [OF assms(2) blink_memory_areas [OF assms(1,3,5,6,4,7)]])

text \<open>What a write to the local structure of \<^verbatim>\<open>mp1_ioctl_add\<close>, the key of \<^verbatim>\<open>mp1_ioctl_find\<close> or the head of the list leaves alone.\<close>

lemma local_step:
  assumes "blink_memory F s" "writes_in a n s t" "x < 6" "blink_areas F s ! x = (a, n)" "x \<in> {1, 3, 4}"
  shows "blink_frame F s t" "screen_bytes F t = screen_bytes F s" "x \<noteq> 1 \<Longrightarrow> load32 t (mp1_list_head F) = load32 s (mp1_list_head F)"
    "j < 2000 \<Longrightarrow> blink_at t (blink_slot F j) = blink_at s (blink_slot F j)"
proof -
  have x: "x \<noteq> 2" "x \<noteq> 5" "0 < x" using assms(5) by auto
  note k = area_kept [OF assms(1-4)]
  show f: "blink_frame F s t" by (rule blink_frame_area [OF assms(1-4) x(1)])
  have "read_bytes t (load32 s (vmem_base_addr F)) 4000 = read_bytes s (load32 s (vmem_base_addr F)) 4000"
    by (rule k [of 5]) (use x in \<open>simp_all add: blink_areas_def\<close>)
  then show "screen_bytes F t = screen_bytes F s" using f by (simp add: screen_bytes_def blink_frame_def)
  have "read_bytes t (mp1_list_head F) 4 = read_bytes s (mp1_list_head F) 4" if "x \<noteq> 1"
    by (rule k [of 1]) (use that in \<open>simp_all add: blink_areas_def\<close>)
  then show "x \<noteq> 1 \<Longrightarrow> load32 t (mp1_list_head F) = load32 s (mp1_list_head F)" using load_parts(3) by blast
  show "blink_at t (blink_slot F j) = blink_at s (blink_slot F j)" if "j < 2000"
    by (rule blink_cong [OF writes_in_apart [OF assms(2) apart_sym [OF slot_area_apart [OF assms(1) that x(3) assms(3,4)]]]])
qed

lemma find_from_linked:
  "linked s p ps \<Longrightarrow> find_from l p s = Some (case find (\<lambda>q. location (blink_at s q) = l) ps of None \<Rightarrow> 0 | Some q \<Rightarrow> q)"
proof (induction ps arbitrary: p)
  case (Cons q qs)
  then show ?case by (simp add: find_from.simps [of l q s] blink_loads(1,8))
qed (simp add: find_from.simps)

lemma find_split:
  assumes "find P xs = Some x"
  shows "\<exists>ys zs. xs = ys @ x # zs \<and> P x \<and> (\<forall>y \<in> set ys. \<not> P y)"
proof -
  have "xs = takeWhile (\<lambda>y. \<not> P y) xs @ dropWhile (\<lambda>y. \<not> P y) xs" by simp
  moreover have "dropWhile (\<lambda>y. \<not> P y) xs = x # tl (dropWhile (\<lambda>y. \<not> P y) xs) \<and> P x"
    using assms by (induction xs) (auto split: if_splits)
  ultimately show ?thesis by (metis set_takeWhileD)
qed

lemma free_slot:
  assumes "blink_list F ps s" "length ps < 2000"
  shows "\<exists>i<2000. mp1_malloc F s = blink_slot F i \<and> blink_slot F i \<notin> set ps"
proof -
  have b: "blink_memory F s" "\<forall>p \<in> blink_slots F. location (blink_at s p) \<noteq> 0 \<longleftrightarrow> p \<in> set ps" "distinct ps" "set ps \<subseteq> blink_slots F"
    using assms(1) by (simp_all add: blink_list_def)
  have "inj_on (blink_slot F) {..<2000}" using blink_slot_inj(1) [OF b(1)] by (intro inj_onI) auto
  then have "card (blink_slots F) = 2000" by (simp add: blink_slots_def card_image)
  then have "\<not> blink_slots F \<subseteq> set ps" using assms(2) distinct_card [OF b(3)] card_mono [of "set ps" "blink_slots F"] by auto
  then obtain k where "k < 2000" "load16 s (blink_slot F k) = 0" using b(2) by (auto simp: blink_slots_def blink_loads)
  then have "\<exists>i. find (\<lambda>i. load16 s (blink_slot F i) = 0) [0..<2000] = Some i" by (auto simp: find_None_iff simp flip: not_None_eq)
  then obtain i where i: "find (\<lambda>i. load16 s (blink_slot F i) = 0) [0..<2000] = Some i" by blast
  then have "i < 2000" "load16 s (blink_slot F i) = 0" by (auto simp: find_Some_iff)
  moreover from this have "blink_slot F i \<notin> set ps" using b(2) by (auto simp: blink_slots_def blink_loads)
  ultimately show ?thesis using i by (auto simp: mp1_malloc_def)
qed

lemma no_slot:
  assumes "blink_list F ps s" "2000 \<le> length ps"
  shows "mp1_malloc F s = 0"
proof -
  have b: "\<forall>p \<in> blink_slots F. location (blink_at s p) \<noteq> 0 \<longleftrightarrow> p \<in> set ps" "distinct ps" "set ps \<subseteq> blink_slots F"
    using assms(1) by (simp_all add: blink_list_def)
  have "card (blink_slots F) \<le> 2000" using card_image_le [of "{..<2000 :: nat}" "blink_slot F"] by (simp add: blink_slots_def)
  then have "set ps = blink_slots F"
    using assms(2) distinct_card [OF b(2)] by (intro card_seteq [OF _ b(3)]) (simp_all add: blink_slots_def)
  then have "\<forall>i<2000. load16 s (blink_slot F i) \<noteq> 0" using b(1) by (simp add: blink_slots_def blink_loads)
  then have "find (\<lambda>i. load16 s (blink_slot F i) = 0) [0..<2000] = None" by (simp add: find_None_iff)
  then show ?thesis by (simp add: mp1_malloc_def)
qed

lemma blink_list_cong:
  assumes "blink_list F ps s" "blink_frame F s t" "load32 t (mp1_list_head F) = load32 s (mp1_list_head F)"
    and "\<And>j. j < 2000 \<Longrightarrow> blink_at t (blink_slot F j) = blink_at s (blink_slot F j)"
  shows "blink_list F ps t" "map (blink_at t) ps = map (blink_at s) ps"
proof -
  have e: "blink_at t q = blink_at s q" if "q \<in> blink_slots F" for q using assms(4) that by (auto simp: blink_slots_def)
  have p: "set ps \<subseteq> blink_slots F" using assms(1) by (simp add: blink_list_def)
  then show "map (blink_at t) ps = map (blink_at s) ps" using e by auto
  have "linked t (load32 t (mp1_list_head F)) ps = linked s (load32 s (mp1_list_head F)) ps"
    unfolding assms(3) using p e by (intro linked_cong) (auto dest!: subsetD)
  then show "blink_list F ps t" using assms(1) blink_frame_memory [OF assms(2)] p e by (auto simp: blink_list_def)
qed

text \<open>What the requests do to the list of blinks and the screen, pointers left out.\<close>

definition blink_value :: "blink \<Rightarrow> blink" where
  "blink_value b = b\<lparr>next_blink := 0\<rparr>"

definition blink_values :: "u32 list \<Rightarrow> 'a machine_scheme \<Rightarrow> blink list" where
  "blink_values ps s = map (\<lambda>p. blink_value (blink_at s p)) ps"

definition started :: "blink \<Rightarrow> blink" where
  "started b = blink_value b\<lparr>status := 1, countdown := on_length b\<rparr>"

definition add_blink :: "blink \<Rightarrow> blink list \<times> u8 list \<Rightarrow> int \<times> blink list \<times> u8 list" where
  "add_blink b = (\<lambda>(bs, scr).
     if 2000 \<le> location b \<or> 2000 \<le> length bs then (-1, bs, scr)
     else (0, started b # bs, scr[2 * unat (location b) := on_char b]))"

definition remove_blink :: "u16 \<Rightarrow> blink list \<times> u8 list \<Rightarrow> int \<times> blink list \<times> u8 list" where
  "remove_blink l = (\<lambda>(bs, scr).
     if l \<in> location ` set bs then (0, takeWhile (\<lambda>b. location b \<noteq> l) bs @ tl (dropWhile (\<lambda>b. location b \<noteq> l) bs), scr)
     else (-1, bs, scr))"

text \<open>The local structure is filled and marked; that is all that happens before a place is looked for.\<close>

lemma temp_step:
  fixes F :: blink_link
  assumes "blink_memory F s" "writes_in (add_temp F) 16 s t"
  shows "blink_frame F s t" "screen_bytes F t = screen_bytes F s" "load32 t (mp1_list_head F) = load32 s (mp1_list_head F)"
    "q \<in> blink_slots F \<Longrightarrow> blink_at t q = blink_at s q"
proof -
  note l = local_step [OF assms, of 3]
  have x: "blink_areas F s ! 3 = (add_temp F, 16)" by (simp add: blink_areas_def)
  then show "blink_frame F s t" "screen_bytes F t = screen_bytes F s" "load32 t (mp1_list_head F) = load32 s (mp1_list_head F)"
    using l(1-3) by simp_all
  show "q \<in> blink_slots F \<Longrightarrow> blink_at t q = blink_at s q" using l(4) x by (auto simp: blink_slots_def)
qed

lemma add_prepared:
  fixes F :: blink_link
  assumes "blink_memory F s" "apart s arg 16 (add_temp F) 16" "b = blink_at s arg"
  shows "\<exists>u. writes_in (add_temp F) 16 s u \<and>
    (if 2000 \<le> location b then mp1_ioctl_add F arg s = (-1, u)
     else mp1_ioctl_add F arg s = add_insert F (add_temp F) u \<and> blink_at u (add_temp F) = b\<lparr>status := 1, countdown := on_length b\<rparr>)"
proof -
  let ?x = "add_temp F"
  have w: "writes_in ?x 16 u (store16 (?x + 8) v u)" "writes_in ?x 16 u (store16 (?x + 10) v u)" for u :: "'a machine_scheme" and v
    using writes_in_shift [OF writes_in_store16 [of "?x + of_nat 8" u v], of 16] writes_in_shift [OF writes_in_store16 [of "?x + of_nat 10" u v], of 16]
    by simp_all
  define s1 where "s1 = write_bytes ?x (read_bytes s arg 16) s"
  define s2 where "s2 = store16 (?x + 10) 1 s1"
  define s3 where "s3 = store16 (?x + 8) (on_length b) s2"
  note sp = blink_spread(4) [OF assms(1)]
  have c1: "ece391_memcpy ?x arg 16 s = (0, s1)" using ece391_memcpy_eq [OF assms(2)] by (simp add: s1_def)
  have w1: "writes_in ?x 16 s s1" using writes_in_write [of ?x "read_bytes s arg 16" s] by (simp add: s1_def)
  have "read_bytes s1 ?x 16 = read_bytes s arg 16" using read_write_same [of s ?x "read_bytes s arg 16"] sp by (simp add: s1_def)
  then have b1: "blink_at s1 ?x = b" using blink_cong assms(3) by blast
  have b2: "blink_at s2 ?x = b\<lparr>status := 1\<rparr>" using blink_fields(4) [of s1 ?x] sp b1 by (simp add: s2_def s1_def)
  have b3: "blink_at s3 ?x = b\<lparr>status := 1, countdown := on_length b\<rparr>" using blink_fields(3) [of s2 ?x] sp b2 by (simp add: s3_def s2_def s1_def)
  have w3: "writes_in ?x 16 s s3" using w1 w [of s1] w [of s2] unfolding s3_def s2_def by (blast intro: writes_in_trans)
  show ?thesis
  proof (cases "2000 \<le> location b")
    case True
    then have "mp1_ioctl_add F arg s = (-1, s1)" by (simp add: mp1_ioctl_add_def c1 b1 blink_loads(1))
    then show ?thesis using True w1 by auto
  next
    case False
    then have "mp1_ioctl_add F arg s = add_insert F ?x s3"
      using b1 b2 by (simp add: mp1_ioctl_add_def c1 blink_loads [of _ ?x] s2_def [symmetric] s3_def [symmetric])
    then show ?thesis using False w3 b3 by auto
  qed
qed

lemma add_inserted:
  fixes F :: blink_link
  assumes "blink_memory F s" "mp1_malloc F s = blink_slot F i" "i < 2000" "b = blink_at s (add_temp F)" "location b < 2000"
  shows "\<exists>t. add_insert F (add_temp F) s = (0, t) \<and> blink_frame F s t \<and> load32 t (mp1_list_head F) = blink_slot F i \<and>
    blink_at t (blink_slot F i) = b\<lparr>next_blink := load32 s (mp1_list_head F)\<rparr> \<and>
    screen_bytes F t = (screen_bytes F s)[2 * unat (location b) := on_char b] \<and>
    (\<forall>q \<in> blink_slots F. q \<noteq> blink_slot F i \<longrightarrow> blink_at t q = blink_at s q)"
proof -
  let ?p = "blink_slot F i" and ?h = "load32 s (mp1_list_head F)" and ?x = "add_temp F"
  have p0: "?p \<noteq> 0" using blink_slot_inj(2) [OF assms(1,3,3)] .
  define s4 where "s4 = write_bytes ?p (read_bytes s ?x 16) s"
  define s5 where "s5 = store32 (?p + 12) ?h s4"
  define s6 where "s6 = store32 (mp1_list_head F) ?p s5"
  define s7 where "s7 = mp1_poke F (on_char b) (cell s6 ?p) s6"
  have ap: "apart s ?x 16 ?p 16" by (rule apart_sym [OF slot_area_apart [OF assms(1,3), of 3]]) (simp_all add: blink_areas_def)
  have c4: "ece391_memcpy ?p ?x 16 s = (0, s4)" using ece391_memcpy_eq [OF ap] by (simp add: s4_def)
  have "read_bytes s4 ?p 16 = read_bytes s ?x 16"
    using read_write_same [of s ?p "read_bytes s ?x 16"] slot_spread [OF assms(1,3)] by (simp add: s4_def)
  then have b4: "blink_at s4 ?p = b" using blink_cong assms(4) by blast
  have w4: "writes_in ?p 16 s s4" using writes_in_write [of ?p "read_bytes s ?x 16" s] by (simp add: s4_def)
  note t4 = slot_step [OF assms(1,3) w4]
  have m4: "blink_memory F s4" using blink_frame_memory [OF t4(1)] assms(1) by simp
  have w5: "writes_in ?p 16 s4 s5" using writes_in_shift [OF writes_in_store32 [of "?p + of_nat 12" s4 ?h], of 16] by (simp add: s5_def)
  note t5 = slot_step [OF m4 assms(3) w5]
  have m5: "blink_memory F s5" using blink_frame_memory [OF t5(1)] m4 by simp
  have b5: "blink_at s5 ?p = b\<lparr>next_blink := ?h\<rparr>" using blink_fields(5) [OF slot_spread [OF m4 assms(3)]] b4 by (simp add: s5_def)
  have w6: "writes_in (mp1_list_head F) 4 s5 s6" unfolding s6_def by (rule writes_in_store32)
  have t6: "blink_frame F s5 s6" "screen_bytes F s6 = screen_bytes F s5" "\<And>j. j < 2000 \<Longrightarrow> blink_at s6 (blink_slot F j) = blink_at s5 (blink_slot F j)"
    using local_step [OF m5 w6, of 1] by (simp_all add: blink_areas_def)
  have h6: "load32 s6 (mp1_list_head F) = ?p" unfolding s6_def by (rule read_store32 [OF blink_spread(2) [OF m5]])
  have m6: "blink_memory F s6" using blink_frame_memory [OF t6(1)] m5 by simp
  have b6: "blink_at s6 ?p = b\<lparr>next_blink := ?h\<rparr>" using t6(3) [OF assms(3)] b5 by simp
  have "location (blink_at s6 ?p) < 2000" using assms(5) by (simp add: b6)
  note t7 = poke_step [OF m6 this s7_def]
  have e: "add_insert F ?x s = (0, s7)"
    using assms(2) p0 c4 t4(2) b6 by (simp add: add_insert_def Let_def s5_def [symmetric] s6_def [symmetric] blink_loads [of s6 ?p] s7_def)
  have f7: "blink_frame F s s7" using t4(1) t5(1) t6(1) t7(1) by (blast intro: blink_frame_trans)
  have o: "blink_at s7 q = blink_at s q" if r: "q \<in> blink_slots F" "q \<noteq> ?p" for q
  proof -
    obtain k where k: "k < 2000" "q = blink_slot F k" using r(1) by (auto simp: blink_slots_def)
    then have n: "k \<noteq> i" using r(2) by auto
    show ?thesis unfolding k(2) using t4(4) [OF k(1) n] t5(4) [OF k(1) n] t6(3) [OF k(1)] t7(4) [OF k(1)] by simp
  qed
  have "screen_bytes F s7 = (screen_bytes F s)[2 * unat (location b) := on_char b]" using t7(3) t6(2) t5(3) t4(3) b6 by simp
  then show ?thesis using e f7 o t7(2) h6 t7(4) [OF assms(3)] b6 by simp
qed

lemma malloc_cong: "(\<And>q. q \<in> blink_slots F \<Longrightarrow> blink_at t q = blink_at s q) \<Longrightarrow> mp1_malloc F t = mp1_malloc F s"
proof -
  assume "\<And>q. q \<in> blink_slots F \<Longrightarrow> blink_at t q = blink_at s q"
  then have "find (\<lambda>i. load16 t (blink_slot F i) = 0) [0..<2000] = find (\<lambda>i. load16 s (blink_slot F i) = 0) [0..<2000]"
    by (intro find_cong) (auto simp: blink_loads(1) blink_slots_def)
  then show ?thesis by (simp only: mp1_malloc_def)
qed

text \<open>A request to add a blink that is valid and finds a place.\<close>

lemma add_steps:
  fixes F :: blink_link
  assumes "blink_memory F s" "apart s arg 16 (add_temp F) 16" "b = blink_at s arg" "location b < 2000"
    and "mp1_malloc F s = blink_slot F i" "i < 2000"
  shows "\<exists>t. mp1_ioctl_add F arg s = (0, t) \<and> blink_frame F s t \<and> load32 t (mp1_list_head F) = blink_slot F i \<and>
    blink_at t (blink_slot F i) = b\<lparr>status := 1, countdown := on_length b, next_blink := load32 s (mp1_list_head F)\<rparr> \<and>
    screen_bytes F t = (screen_bytes F s)[2 * unat (location b) := on_char b] \<and>
    (\<forall>q \<in> blink_slots F. q \<noteq> blink_slot F i \<longrightarrow> blink_at t q = blink_at s q)"
proof -
  have "\<not> 2000 \<le> location b" using assms(4) by (simp add: not_le)
  then obtain u where u: "writes_in (add_temp F) 16 s u" "mp1_ioctl_add F arg s = add_insert F (add_temp F) u"
      "blink_at u (add_temp F) = b\<lparr>status := 1, countdown := on_length b\<rparr>" using add_prepared [OF assms(1-3)] by auto
  note t = temp_step [OF assms(1) u(1)]
  have m: "blink_memory F u" using blink_frame_memory [OF t(1)] assms(1) by simp
  have a: "mp1_malloc F u = blink_slot F i" using malloc_cong t(4) assms(5) by metis
  have l: "location (b\<lparr>status := 1, countdown := on_length b\<rparr>) < 2000" using assms(4) by simp
  show ?thesis using add_inserted [OF m a assms(6) u(3) [symmetric] l] u(2) t blink_frame_trans [OF t(1)] by auto
qed

lemma add_refines:
  fixes F :: blink_link
  assumes "blink_list F ps s" "apart s arg 16 (add_temp F) 16" "location (blink_at s arg) \<noteq> 0"
    and "(r, bs, scr) = add_blink (blink_at s arg) (blink_values ps s, screen_bytes F s)"
  shows "\<exists>qs t. mp1_ioctl_add F arg s = (r, t) \<and> blink_list F qs t \<and> blink_values qs t = bs \<and> screen_bytes F t = scr \<and> blink_frame F s t"
proof -
  let ?b = "blink_at s arg"
  have l: "blink_memory F s" "linked s (load32 s (mp1_list_head F)) ps" "distinct ps" "set ps \<subseteq> blink_slots F"
    "\<forall>p \<in> blink_slots F. location (blink_at s p) \<noteq> 0 \<longleftrightarrow> p \<in> set ps" "\<forall>p \<in> set ps. location (blink_at s p) < 2000"
    using assms(1) by (simp_all add: blink_list_def)
  show ?thesis
  proof (cases "2000 \<le> location ?b \<or> 2000 \<le> length ps")
    case True
    obtain u where u: "writes_in (add_temp F) 16 s u"
        "if 2000 \<le> location ?b then mp1_ioctl_add F arg s = (-1, u) else mp1_ioctl_add F arg s = add_insert F (add_temp F) u"
      using add_prepared [OF l(1) assms(2) refl] by (auto split: if_splits)
    note t = temp_step [OF l(1) u(1)]
    have "mp1_malloc F u = 0" if "2000 \<le> length ps" using no_slot [OF assms(1) that] malloc_cong t(4) by metis
    then have "mp1_ioctl_add F arg s = (-1, u)" using u(2) True by (auto simp: add_insert_def split: if_splits)
    moreover have "blink_list F ps u" "blink_values ps u = blink_values ps s"
      using blink_list_cong [OF assms(1) t(1,3)] t(4) by (simp_all add: blink_slots_def blink_values_def)
    ultimately show ?thesis using True assms(4) t(1,2) by (auto simp: add_blink_def blink_values_def)
  next
    case False
    then obtain i where i: "i < 2000" "mp1_malloc F s = blink_slot F i" "blink_slot F i \<notin> set ps" using free_slot [OF assms(1)] by auto
    let ?p = "blink_slot F i"
    have "location ?b < 2000" using False by (simp add: not_le)
    then obtain t where t: "mp1_ioctl_add F arg s = (0, t)" "blink_frame F s t" "load32 t (mp1_list_head F) = ?p"
      "blink_at t ?p = ?b\<lparr>status := 1, countdown := on_length ?b, next_blink := load32 s (mp1_list_head F)\<rparr>"
      "screen_bytes F t = (screen_bytes F s)[2 * unat (location ?b) := on_char ?b]"
      "\<And>q. q \<in> blink_slots F \<Longrightarrow> q \<noteq> ?p \<Longrightarrow> blink_at t q = blink_at s q" using add_steps [OF l(1) assms(2) refl _ i(2,1)] by auto
    have o: "blink_at t q = blink_at s q" if "q \<in> set ps" for q using t(6) that l(4) i(3) by auto
    have "linked t (load32 s (mp1_list_head F)) ps" using linked_cong [of ps t s] o l(2) by simp
    then have "linked t (load32 t (mp1_list_head F)) (?p # ps)" using t(3,4) blink_slot_inj(2) [OF l(1) i(1,1)] by simp
    moreover have "blink_memory F t" using blink_frame_memory [OF t(2)] l(1) by simp
    moreover have "location (blink_at t q) \<noteq> 0 \<longleftrightarrow> q \<in> set (?p # ps)" if "q \<in> blink_slots F" for q
      using t(6) [OF that] l(5) that t(4) assms(3) by (cases "q = ?p") auto
    moreover have "location (blink_at t q) < 2000" if "q \<in> set (?p # ps)" for q using that t(4) o l(6) False by (auto simp: not_le)
    ultimately have "blink_list F (?p # ps) t" using l(3,4) i(1,3) by (simp add: blink_list_def blink_slots_def)
    moreover have "blink_values (?p # ps) t = started ?b # blink_values ps s"
      using t(4) o by (simp add: blink_values_def started_def blink_value_def)
    ultimately show ?thesis using t(1,2,5) assms(4) False by (auto simp: add_blink_def blink_values_def)
  qed
qed

lemma find_helper:
  assumes "blink_list F ps s"
  shows "mp1_find_helper F arg s = Some (case find (\<lambda>q. location (blink_at s q) = ucast arg) ps of None \<Rightarrow> 0 | Some q \<Rightarrow> q)"
  using assms find_from_linked by (auto simp: mp1_find_helper_def blink_list_def)

lemma find_prev_linked:
  "load32 s a = p \<Longrightarrow> linked s p (xs @ q # ys) \<Longrightarrow> q \<notin> set xs \<Longrightarrow>
     remove_find_prev q a s = Some (if xs = [] then a else last xs + 12)"
proof (induction xs arbitrary: a p)
  case Nil
  then show ?case by (simp add: remove_find_prev.simps)
next
  case (Cons x xs)
  then have "remove_find_prev q (x + 12) s = Some (if xs = [] then x + 12 else last xs + 12)" by (simp add: blink_loads(8))
  moreover have "load32 s a \<noteq> q" using Cons.prems by auto
  ultimately show ?case using Cons.prems by (simp add: remove_find_prev.simps [of q a s])
qed

lemma relink:
  assumes "linked s p (xs @ x # q # ys)" "x \<notin> set xs"
    and "next_blink (blink_at t x) = next_blink (blink_at s q)" "\<And>r. r \<in> set (xs @ ys) \<Longrightarrow> next_blink (blink_at t r) = next_blink (blink_at s r)"
  shows "linked t p (xs @ x # ys)"
  using assms
proof (induction xs arbitrary: p)
  case Nil
  then show ?case using linked_cong [of ys t s] by simp
qed simp

text \<open>Taking a structure out of the chain.\<close>

lemma unlink:
  fixes F :: blink_link
  assumes "blink_list F (xs @ q # ys) s"
  shows "\<exists>edx. remove_find_prev q (mp1_list_head F) s = Some edx \<and>
    (let t = store32 edx (next_blink (blink_at s q)) s
     in blink_frame F s t \<and> screen_bytes F t = screen_bytes F s \<and> linked t (load32 t (mp1_list_head F)) (xs @ ys) \<and>
        (\<forall>r \<in> blink_slots F. blink_value (blink_at t r) = blink_value (blink_at s r)))"
proof -
  have a: "blink_memory F s" "linked s (load32 s (mp1_list_head F)) (xs @ q # ys)" "distinct (xs @ q # ys)" "set (xs @ q # ys) \<subseteq> blink_slots F"
    using assms by (simp_all add: blink_list_def)
  have e: "remove_find_prev q (mp1_list_head F) s = Some (if xs = [] then mp1_list_head F else last xs + 12)"
    by (rule find_prev_linked [OF refl a(2)]) (use a(3) in simp)
  let ?v = "next_blink (blink_at s q)"
  show ?thesis
  proof (cases "xs = []")
    case True
    define t where "t = store32 (mp1_list_head F) ?v s"
    note l = local_step [OF a(1) writes_in_store32 [of "mp1_list_head F" s ?v, folded t_def], of 1]
    have x: "blink_areas F s ! 1 = (mp1_list_head F, 4)" by (simp add: blink_areas_def)
    have h: "load32 t (mp1_list_head F) = ?v" unfolding t_def by (rule read_store32 [OF blink_spread(2) [OF a(1)]])
    have b: "blink_at t r = blink_at s r" if "r \<in> blink_slots F" for r using l(4) x that by (auto simp: blink_slots_def)
    have "linked s ?v ys" using a(2) True by simp
    moreover have "next_blink (blink_at t r) = next_blink (blink_at s r)" if "r \<in> set ys" for r using b [of r] that a(4) by auto
    ultimately have "linked t ?v ys" using linked_cong [of ys t s] by blast
    then show ?thesis using e True h b l(1,2) x by (simp add: t_def [symmetric] Let_def)
  next
    case False
    then obtain zs x where x: "xs = zs @ [x]" by (metis append_butlast_last_id)
    then have "x \<in> blink_slots F" using a(4) by simp
    then obtain i where i: "i < 2000" "x = blink_slot F i" by (auto simp: blink_slots_def)
    define t where "t = store32 (x + 12) ?v s"
    have w: "writes_in x 16 s t" using writes_in_shift [OF writes_in_store32 [of "x + of_nat 12" s ?v], of 16] by (simp add: t_def)
    note st = slot_step [OF a(1) i(1) w [unfolded i(2)]]
    have bx: "blink_at t x = (blink_at s x)\<lparr>next_blink := ?v\<rparr>" using blink_fields(5) [OF slot_spread [OF a(1) i(1)]] by (simp add: t_def i(2))
    have b: "blink_at t r = blink_at s r" if r: "r \<in> blink_slots F" "r \<noteq> x" for r
    proof -
      obtain k where k: "k < 2000" "r = blink_slot F k" using r(1) by (auto simp: blink_slots_def)
      then have "k \<noteq> i" using r(2) i(2) by auto
      then show ?thesis using st(4) k by simp
    qed
    have "linked t (load32 s (mp1_list_head F)) (zs @ x # ys)"
    proof (rule relink)
      show "linked s (load32 s (mp1_list_head F)) (zs @ x # q # ys)" using a(2) x by simp
      show "x \<notin> set zs" using a(3) x by simp
      show "next_blink (blink_at t x) = ?v" by (simp add: bx)
      fix r assume "r \<in> set (zs @ ys)"
      then have "r \<in> blink_slots F" "r \<noteq> x" using a(3,4) x by auto
      then show "next_blink (blink_at t r) = next_blink (blink_at s r)" using b by simp
    qed
    then have "linked t (load32 t (mp1_list_head F)) (xs @ ys)" using st(2) x by simp
    moreover have "blink_value (blink_at t r) = blink_value (blink_at s r)" if "r \<in> blink_slots F" for r
      using b [OF that] bx by (cases "r = x") (simp_all add: blink_value_def)
    ultimately show ?thesis using e x st(1,3) by (simp add: t_def [symmetric] Let_def)
  qed
qed

lemma remove_refines:
  fixes F :: blink_link
  assumes "blink_list F ps s" "(r, bs, scr) = remove_blink (ucast arg) (blink_values ps s, screen_bytes F s)"
  shows "\<exists>qs t. mp1_ioctl_remove F arg s = Some (r, t) \<and> blink_list F qs t \<and> blink_values qs t = bs \<and> screen_bytes F t = scr \<and> blink_frame F s t"
proof -
  let ?l = "ucast arg :: u16" and ?P = "\<lambda>q. location (blink_at s q) = ucast arg"
  have loc: "location (blink_value b) = location b" for b by (simp add: blink_value_def)
  show ?thesis
  proof (cases "find ?P ps")
    case None
    then have "mp1_ioctl_remove F arg s = Some (-1, s)" by (simp add: mp1_ioctl_remove_def find_helper [OF assms(1)])
    moreover have "?l \<notin> location ` set (blink_values ps s)" using None by (auto simp: find_None_iff blink_values_def loc)
    ultimately show ?thesis using assms by (auto simp: remove_blink_def)
  next
    case (Some q)
    obtain xs ys where q: "ps = xs @ q # ys" "?P q" "\<forall>y \<in> set xs. \<not> ?P y" using find_split [OF Some] by blast
    have a: "blink_memory F s" "linked s (load32 s (mp1_list_head F)) ps" "distinct ps" "set ps \<subseteq> blink_slots F"
      "\<forall>p \<in> blink_slots F. location (blink_at s p) \<noteq> 0 \<longleftrightarrow> p \<in> set ps" "\<forall>p \<in> set ps. location (blink_at s p) < 2000"
      using assms(1) by (simp_all add: blink_list_def)
    then have "q \<in> blink_slots F" "q \<noteq> 0" using q(1) blink_slot_inj(2) [OF a(1)] by (auto simp: blink_slots_def)
    then obtain i where i: "i < 2000" "q = blink_slot F i" by (auto simp: blink_slots_def)
    obtain edx where edx: "remove_find_prev q (mp1_list_head F) s = Some edx" and u: "let t = store32 edx (next_blink (blink_at s q)) s
     in blink_frame F s t \<and> screen_bytes F t = screen_bytes F s \<and> linked t (load32 t (mp1_list_head F)) (xs @ ys) \<and>
        (\<forall>r \<in> blink_slots F. blink_value (blink_at t r) = blink_value (blink_at s r))" using unlink assms(1) q(1) by blast
    define u where "u = store32 edx (next_blink (blink_at s q)) s"
    define t where "t = mp1_free q u"
    have u: "blink_frame F s u" "screen_bytes F u = screen_bytes F s" "linked u (load32 u (mp1_list_head F)) (xs @ ys)"
        "\<And>r. r \<in> blink_slots F \<Longrightarrow> blink_value (blink_at u r) = blink_value (blink_at s r)"
      using u by (simp_all add: u_def Let_def)
    have m: "blink_memory F u" using blink_frame_memory [OF u(1)] a(1) by simp
    have t: "t = write_bytes q (replicate 16 0) u" using ece391_memset_eq [of q 0 16 u] by (simp add: t_def mp1_free_def)
    have w: "writes_in q 16 u t" using writes_in_write [of q "replicate 16 0" u] by (simp add: t)
    note st = slot_step [OF m i(1) w [unfolded i(2)]]
    have "read_bytes t q 16 = replicate 16 0" using read_write_same [of u q "replicate 16 0"] slot_spread [OF m i(1)] by (simp add: t i(2))
    then have "load t (q + of_nat 0) = 0" "load t (q + of_nat 1) = 0"
      using nth_read_bytes [of 0 16 t q] nth_read_bytes [of 1 16 t q] by (simp_all del: nth_read_bytes)
    then have bq: "location (blink_at t q) = 0" by (simp add: blink_at_def load16_def half_of_bytes_def)
    have b: "blink_at t p = blink_at u p" if p: "p \<in> blink_slots F" "p \<noteq> q" for p
    proof -
      obtain k where k: "k < 2000" "p = blink_slot F k" using p(1) by (auto simp: blink_slots_def)
      then have "k \<noteq> i" using p(2) i(2) by auto
      then show ?thesis using st(4) k by simp
    qed
    have v: "blink_value (blink_at t p) = blink_value (blink_at s p)" if "p \<in> blink_slots F" "p \<noteq> q" for p using b u(4) that by simp
    have locs: "location (blink_at t p) = location (blink_at s p)" if "p \<in> blink_slots F" "p \<noteq> q" for p
      using v [OF that] by (metis loc)
    have in_ps: "p \<in> blink_slots F" "p \<noteq> q" if "p \<in> set (xs @ ys)" for p using that a(3,4) q(1) by auto
    have "linked t (load32 t (mp1_list_head F)) (xs @ ys)"
      using u(3) st(2) linked_cong [of "xs @ ys" t u] b in_ps by simp
    moreover have "location (blink_at t p) \<noteq> 0 \<longleftrightarrow> p \<in> set (xs @ ys)" if "p \<in> blink_slots F" for p
      using locs [OF that] a(3,5) that bq q(1) by (cases "p = q") auto
    moreover have "location (blink_at t p) < 2000" if "p \<in> set (xs @ ys)" for p
      using locs in_ps [OF that] a(6) that q(1) by auto
    ultimately have "blink_list F (xs @ ys) t"
      using a(3,4) q(1) blink_frame_memory [OF st(1)] m by (simp add: blink_list_def)
    moreover have "blink_values (xs @ ys) t = blink_values (xs @ ys) s" using v in_ps by (simp add: blink_values_def)
    moreover have "remove_blink ?l (blink_values ps s, screen_bytes F s) = (0, blink_values (xs @ ys) s, screen_bytes F s)"
    proof -
      have n: "takeWhile (\<lambda>b. location b \<noteq> ?l) (blink_values ps s) = blink_values xs s"
        "dropWhile (\<lambda>b. location b \<noteq> ?l) (blink_values ps s) = blink_value (blink_at s q) # blink_values ys s"
        using q(2,3) by (simp_all add: blink_values_def q(1) loc takeWhile_append dropWhile_append)
      show ?thesis using q(2) unfolding remove_blink_def by (simp add: n) (simp add: blink_values_def q(1) loc)
    qed
    moreover have "mp1_ioctl_remove F arg s = Some (0, t)"
      using Some edx \<open>q \<noteq> 0\<close> by (simp add: mp1_ioctl_remove_def find_helper [OF assms(1)] t_def u_def blink_loads(8))
    moreover have "blink_frame F s t" using u(1) st(1) by (rule blink_frame_trans)
    ultimately show ?thesis using assms(2) st(3) u(2) by auto
  qed
qed

definition synced :: "blink \<Rightarrow> blink \<Rightarrow> blink" where
  "synced a b = b\<lparr>on_length := on_length a, off_length := off_length a, countdown := countdown a, status := status a\<rparr>"

definition sync_blinks :: "u16 \<Rightarrow> u16 \<Rightarrow> blink list \<times> u8 list \<Rightarrow> int \<times> blink list \<times> u8 list" where
  "sync_blinks l m = (\<lambda>(bs, scr).
     case find (\<lambda>b. location b = l) bs of None \<Rightarrow> (-1, bs, scr)
     | Some a \<Rightarrow>
         case find (\<lambda>b. location b = m) bs of None \<Rightarrow> (-1, bs, scr)
         | Some b \<Rightarrow> (0, takeWhile (\<lambda>b. location b \<noteq> m) bs @ synced a b # tl (dropWhile (\<lambda>b. location b \<noteq> m) bs),
                     scr[2 * unat m := off_char b]))"

lemma sync_copy_step:
  fixes F :: blink_link
  assumes "blink_memory F s" "i < 2000" "j < 2000" "t = sync_copy (blink_slot F i) (blink_slot F j) s"
  shows "blink_frame F s t" "load32 t (mp1_list_head F) = load32 s (mp1_list_head F)" "screen_bytes F t = screen_bytes F s"
    "blink_at t (blink_slot F j) = synced (blink_at s (blink_slot F i)) (blink_at s (blink_slot F j))"
    "k < 2000 \<Longrightarrow> k \<noteq> j \<Longrightarrow> blink_at t (blink_slot F k) = blink_at s (blink_slot F k)"
proof -
  let ?e = "blink_slot F i" and ?d = "blink_slot F j" let ?a = "blink_at s ?e" and ?b = "blink_at s ?d"
  have w: "writes_in ?d 16 u (store16 (?d + 4) v u)" "writes_in ?d 16 u (store16 (?d + 6) v u)"
    "writes_in ?d 16 u (store16 (?d + 8) v u)" "writes_in ?d 16 u (store16 (?d + 10) v u)" for u :: "'a machine_scheme" and v
    using writes_in_shift [OF writes_in_store16 [of "?d + of_nat 4" u v], of 16] writes_in_shift [OF writes_in_store16 [of "?d + of_nat 6" u v], of 16]
      writes_in_shift [OF writes_in_store16 [of "?d + of_nat 8" u v], of 16] writes_in_shift [OF writes_in_store16 [of "?d + of_nat 10" u v], of 16]
    by simp_all
  define s1 where "s1 = store16 (?d + 4) (on_length ?a) s"
  define s2 where "s2 = store16 (?d + 6) (off_length ?a) s1"
  define s3 where "s3 = store16 (?d + 8) (countdown ?a) s2"
  define s4 where "s4 = store16 (?d + 10) (status ?a) s3"
  note t1 = slot_step [OF assms(1,3) w(1) [of s "on_length ?a", folded s1_def]]
  have m1: "blink_memory F s1" using blink_frame_memory [OF t1(1)] assms(1) by simp
  note t2 = slot_step [OF m1 assms(3) w(2) [of s1 "off_length ?a", folded s2_def]]
  have m2: "blink_memory F s2" using blink_frame_memory [OF t2(1)] m1 by simp
  note t3 = slot_step [OF m2 assms(3) w(3) [of s2 "countdown ?a", folded s3_def]]
  have m3: "blink_memory F s3" using blink_frame_memory [OF t3(1)] m2 by simp
  note t4 = slot_step [OF m3 assms(3) w(4) [of s3 "status ?a", folded s4_def]]
  have d1: "blink_at s1 ?d = ?b\<lparr>on_length := on_length ?a\<rparr>" using blink_fields(1) [OF slot_spread [OF assms(1,3)]] by (simp add: s1_def)
  have d2: "blink_at s2 ?d = ?b\<lparr>on_length := on_length ?a, off_length := off_length ?a\<rparr>"
    using blink_fields(2) [OF slot_spread [OF m1 assms(3)]] d1 by (simp add: s2_def)
  have d3: "blink_at s3 ?d = ?b\<lparr>on_length := on_length ?a, off_length := off_length ?a, countdown := countdown ?a\<rparr>"
    using blink_fields(3) [OF slot_spread [OF m2 assms(3)]] d2 by (simp add: s3_def)
  have d4: "blink_at s4 ?d = synced ?a ?b"
    using blink_fields(4) [OF slot_spread [OF m3 assms(3)]] d3 by (simp add: s4_def synced_def)
  have e: "blink_at s1 ?e = ?a" "blink_at s2 ?e = ?a" "blink_at s3 ?e = ?a"
    using d1 d2 d3 t1(4) [OF assms(2)] t2(4) [OF assms(2)] t3(4) [OF assms(2)] by (cases "i = j"; simp)+
  have t: "t = s4"
    using e by (simp add: assms(4) sync_copy_def Let_def blink_loads [of _ ?e] s1_def [symmetric] s2_def [symmetric] s3_def [symmetric] s4_def [symmetric])
  show "blink_frame F s t" using t1(1) t2(1) t3(1) t4(1) unfolding t by (blast intro: blink_frame_trans)
  show "load32 t (mp1_list_head F) = load32 s (mp1_list_head F)" using t1(2) t2(2) t3(2) t4(2) by (simp add: t)
  show "screen_bytes F t = screen_bytes F s" using t1(3) t2(3) t3(3) t4(3) by (simp add: t)
  show "blink_at t ?d = synced ?a ?b" using d4 by (simp add: t)
  show "blink_at t (blink_slot F k) = blink_at s (blink_slot F k)" if "k < 2000" "k \<noteq> j"
    using t1(4) [OF that] t2(4) [OF that] t3(4) [OF that] t4(4) [OF that] by (simp add: t)
qed

lemma sync_char_off: "sync_char s p = off_char (blink_at s p)"
proof -
  have "sint (load s (p + 10) AND 1) = uint (load s (p + 10) AND 1)"
    by (simp add: and_one_eq) (cases "even (load s (p + 10))"; simp add: even_iff_mod_2_eq_zero odd_iff_mod_2_eq_one)
  then show ?thesis by (simp add: sync_char_def Let_def blink_loads(3))
qed

lemma find_mapped: "find P (map f xs) = map_option f (find (\<lambda>x. P (f x)) xs)"
  by (induction xs) simp_all

lemma location_value [simp]: "location (blink_value b) = location b" "off_char (blink_value b) = off_char b"
  by (simp_all add: blink_value_def)

lemma slot_of: "p \<in> blink_slots F \<Longrightarrow> \<exists>i<2000. p = blink_slot F i"
  by (auto simp: blink_slots_def)

lemma blink_list_slot: "blink_list F ps s \<Longrightarrow> q \<in> set ps \<Longrightarrow> q \<in> blink_slots F \<and> q \<noteq> 0 \<and> location (blink_at s q) < 2000"
proof -
  assume a: "blink_list F ps s" "q \<in> set ps"
  then have m: "blink_memory F s" "location (blink_at s q) < 2000" "q \<in> blink_slots F" by (auto simp: blink_list_def)
  then obtain i where "i < 2000" "q = blink_slot F i" using slot_of by blast
  then have "q \<noteq> 0" using blink_slot_inj(2) [OF m(1), of i i] by simp
  then show ?thesis using m by simp
qed

lemma linked_slots:
  assumes "set ps \<subseteq> blink_slots F" "\<And>q. q \<in> blink_slots F \<Longrightarrow> next_blink (blink_at t q) = next_blink (blink_at s q)"
  shows "linked t p ps = linked s p ps"
  using assms by (intro linked_cong) blast

lemma sync_refines:
  fixes F :: blink_link
  assumes "blink_list F ps s" "(r, bs, scr) = sync_blinks (ucast (drop_bit 16 arg)) (ucast arg) (blink_values ps s, screen_bytes F s)"
  shows "\<exists>t. mp1_ioctl_sync F arg s = Some (r, t) \<and> blink_list F ps t \<and> blink_values ps t = bs \<and> screen_bytes F t = scr \<and> blink_frame F s t"
proof -
  let ?l = "ucast (drop_bit 16 arg) :: u16" and ?m = "ucast arg :: u16"
  have "arg AND 0xFFFF = take_bit 16 arg" by (simp add: take_bit_eq_mask mask_eq_exp_minus_1)
  then have lo: "ucast (arg AND 0xFFFF) = ?m" by (simp only:) (rule bit_word_eqI, simp add: bit_simps)
  note hi = find_helper [OF assms(1), of "drop_bit 16 arg"] and lw = find_helper [OF assms(1), of "arg AND 0xFFFF", unfolded lo]
  have fv: "find (\<lambda>b. location b = k) (blink_values ps s) = map_option (\<lambda>p. blink_value (blink_at s p)) (find (\<lambda>p. location (blink_at s p) = k) ps)" for k
    by (simp add: blink_values_def find_mapped)
  show ?thesis
  proof (cases "find (\<lambda>p. location (blink_at s p) = ?l) ps")
    case None
    then show ?thesis using assms by (simp add: mp1_ioctl_sync_def hi sync_blinks_def fv)
  next
    case e: (Some e)
    then have "e \<in> set ps" by (auto simp: find_Some_iff)
    then obtain i where i: "i < 2000" "e = blink_slot F i" "e \<noteq> 0" using blink_list_slot [OF assms(1)] slot_of by blast
    show ?thesis
    proof (cases "find (\<lambda>p. location (blink_at s p) = ?m) ps")
      case None
      then show ?thesis using assms e i(3) by (simp add: mp1_ioctl_sync_def hi lw sync_blinks_def fv)
    next
      case d: (Some d)
      obtain xs ys where q: "ps = xs @ d # ys" "location (blink_at s d) = ?m" "\<forall>y \<in> set xs. location (blink_at s y) \<noteq> ?m" using find_split [OF d] by blast
      have a: "blink_memory F s" "linked s (load32 s (mp1_list_head F)) ps" "distinct ps" "set ps \<subseteq> blink_slots F"
        "\<forall>p \<in> blink_slots F. location (blink_at s p) \<noteq> 0 \<longleftrightarrow> p \<in> set ps" "\<forall>p \<in> set ps. location (blink_at s p) < 2000"
        using assms(1) by (simp_all add: blink_list_def)
      have "d \<in> set ps" using q(1) by simp
      then obtain j where j: "j < 2000" "d = blink_slot F j" "d \<noteq> 0" using blink_list_slot [OF assms(1)] slot_of by blast
      define u where "u = sync_copy e d s"
      define t where "t = mp1_poke F (off_char (blink_at s d)) (cell u d) u"
      note c = sync_copy_step [OF a(1) i(1) j(1) u_def [unfolded i(2) j(2)]]
      have m: "blink_memory F u" using blink_frame_memory [OF c(1)] a(1) by simp
      have ud: "blink_at u d = synced (blink_at s e) (blink_at s d)" using c(4) i(2) j(2) by simp
      have "location (blink_at u d) < 2000" using ud a(6) \<open>d \<in> set ps\<close> by (simp add: synced_def)
      note p = poke_step [OF m this t_def]
      have b: "blink_at t x = (if x = d then synced (blink_at s e) (blink_at s d) else blink_at s x)" if x: "x \<in> blink_slots F" for x
      proof -
        obtain k where k: "k < 2000" "x = blink_slot F k" using x by (auto simp: blink_slots_def)
        have "k \<noteq> j" if "x \<noteq> d" using that k(2) j(2) by auto
        then show ?thesis using p(4) [OF k(1)] c(5) [OF k(1)] k(2) ud by auto
      qed
      have kept: "next_blink (blink_at t x) = next_blink (blink_at s x)" "location (blink_at t x) = location (blink_at s x)" if "x \<in> blink_slots F" for x
        using b [OF that] by (simp_all add: synced_def)
      have f: "blink_frame F s t" using c(1) p(1) by (rule blink_frame_trans)
      have "linked t (load32 t (mp1_list_head F)) ps" using linked_slots [OF a(4) kept(1)] a(2) p(2) c(2) by simp
      then have "blink_list F ps t" using a kept(2) blink_frame_memory [OF f] by (auto simp: blink_list_def)
      moreover have "mp1_ioctl_sync F arg s = Some (0, t)"
        using e d i(3) j(3) ud by (simp add: mp1_ioctl_sync_def hi lw Let_def sync_char_off u_def [symmetric] t_def synced_def)
      moreover have "screen_bytes F t = (screen_bytes F s)[2 * unat ?m := off_char (blink_at s d)]" using p(3) c(3) ud q(2) by (simp add: synced_def)
      moreover have "blink_values ps t = blink_values xs s @ synced (blink_value (blink_at s e)) (blink_value (blink_at s d)) # blink_values ys s"
      proof -
        have "blink_at t x = blink_at s x" if "x \<in> set (xs @ ys)" for x using that b [of x] a(3,4) q(1) by auto
        moreover have "blink_at t d = synced (blink_at s e) (blink_at s d)" using b [of d] a(4) \<open>d \<in> set ps\<close> by auto
        ultimately show ?thesis by (simp add: blink_values_def q(1) synced_def blink_value_def)
      qed
      moreover have "takeWhile (\<lambda>b. location b \<noteq> ?m) (blink_values ps s) = blink_values xs s"
        "dropWhile (\<lambda>b. location b \<noteq> ?m) (blink_values ps s) = blink_value (blink_at s d) # blink_values ys s"
        using q(2,3) by (simp_all add: blink_values_def q(1) takeWhile_append dropWhile_append)
      ultimately show ?thesis using assms(2) e d f by (simp add: sync_blinks_def fv)
    qed
  qed
qed

text \<open>\<^verbatim>\<open>mp1_ioctl_find\<close> copies the structure out; the list and the screen stay.\<close>

lemma find_refines:
  fixes F :: blink_link
  assumes "blink_list F ps s" "\<forall>(a, n) \<in> set (blink_areas F s). apart s arg 16 a n" "spread s arg 16"
    and "f = find (\<lambda>b. location b = location (blink_at s arg)) (blink_values ps s)"
  shows "\<exists>t. mp1_ioctl_find F arg s = Some (case f of None \<Rightarrow> -1 | Some b \<Rightarrow> 0, t) \<and> blink_list F ps t \<and>
    blink_values ps t = blink_values ps s \<and> screen_bytes F t = screen_bytes F s \<and>
    (\<forall>b. f = Some b \<longrightarrow> blink_value (blink_at t arg) = b)"
proof -
  let ?l = "location (blink_at s arg)"
  have m: "blink_memory F s" using assms(1) by (simp add: blink_list_def)
  have ar: "apart s arg 16 (blink_array F) 32000" "apart s arg 16 (mp1_list_head F) 4" "apart s arg 16 (vmem_base_addr F) 4"
    "apart s arg 16 (find_key F) 2" "apart s arg 16 (load32 s (vmem_base_addr F)) 4000" using assms(2) by (simp_all add: blink_areas_def)
  define u where "u = write_bytes (find_key F) (read_bytes s arg 2) s"
  have a2: "apart s arg 2 (find_key F) 2" using apart_mono [OF ar(4)] by simp
  have c1: "ece391_memcpy (find_key F) arg 2 s = (0, u)" using ece391_memcpy_eq [OF a2] by (simp add: u_def)
  have "writes_in (find_key F) 2 s u" using writes_in_write [of "find_key F" "read_bytes s arg 2" s] by (simp add: u_def)
  note k = local_step [OF m this, of 4]
  have x: "blink_areas F s ! 4 = (find_key F, 2)" by (simp add: blink_areas_def)
  have fu: "blink_frame F s u" "screen_bytes F u = screen_bytes F s" "load32 u (mp1_list_head F) = load32 s (mp1_list_head F)"
    "\<And>j. j < 2000 \<Longrightarrow> blink_at u (blink_slot F j) = blink_at s (blink_slot F j)" using k x by simp_all
  note lu = blink_list_cong [OF assms(1) fu(1,3,4)]
  have xl: "xlat u = xlat s" using fu(1) by (simp add: blink_frame_def)
  have "read_bytes u (find_key F) 2 = read_bytes s arg 2"
    using read_write_same [of s "find_key F" "read_bytes s arg 2"] blink_spread(5) [OF m] by (simp add: u_def)
  from load_parts(2) [OF this] have key: "load16 u (find_key F) = ?l" by (simp add: blink_loads(1))
  note h = find_helper [OF lu(1), of "ucast (load16 u (find_key F))"]
  have fv: "find (\<lambda>b. location b = ?l) (blink_values ps s) = map_option (\<lambda>p. blink_value (blink_at u p)) (find (\<lambda>p. location (blink_at u p) = ?l) ps)"
  proof -
    have "blink_values ps s = map (\<lambda>p. blink_value (blink_at u p)) ps" using lu(2) by (simp add: blink_values_def)
    then show ?thesis by (simp add: find_mapped)
  qed
  have uu: "ucast (ucast w :: u32) = w" for w :: u16 by (rule bit_word_eqI) (simp add: bit_simps)
  have vu: "blink_values ps u = blink_values ps s" using lu(2) by (simp add: blink_values_def)
  show ?thesis
  proof (cases "find (\<lambda>p. location (blink_at u p) = ?l) ps")
    case None
    then have "mp1_ioctl_find F arg s = Some (-1, u)" using h by (simp add: mp1_ioctl_find_def c1 key uu)
    then show ?thesis using None assms(4) lu(1) vu fu(2) fv by simp
  next
    case (Some q)
    then have "q \<in> set ps" by (auto simp: find_Some_iff)
    then obtain i where i: "i < 2000" "q = blink_slot F i" "q \<noteq> 0" using blink_list_slot [OF assms(1)] slot_of by blast
    have as: "apart s (blink_array F) 32000 arg 16" by (rule apart_sym [OF ar(1)])
    have "apart u q 16 arg 16" unfolding apart_xlat [OF xl] i(2) blink_slot_def by (rule apart_shift_left [OF as]) (use i(1) in simp)
    then have c2: "ece391_memcpy arg q 16 u = (0, write_bytes arg (read_bytes u q 16) u)" using ece391_memcpy_eq [of u q 16 arg] by simp
    define t where "t = write_bytes arg (read_bytes u q 16) u"
    have w: "writes_in arg 16 u t" using writes_in_write [of arg "read_bytes u q 16" u] by (simp add: t_def)
    have e: "mp1_ioctl_find F arg s = Some (0, t)" using h Some i(3) c2 by (simp add: mp1_ioctl_find_def c1 key uu t_def)
    have "read_bytes t arg 16 = read_bytes u q 16"
      using read_write_same [of u arg "read_bytes u q 16"] assms(3) spread_xlat [OF xl] by (simp add: t_def)
    then have b: "blink_at t arg = blink_at u q" by (rule blink_cong)
    have keep: "read_bytes t a n = read_bytes u a n" if "apart s arg 16 a n" for a n
      by (rule writes_in_apart [OF w]) (use that in \<open>simp add: apart_xlat [OF xl]\<close>)
    have ht: "load32 t (mp1_list_head F) = load32 u (mp1_list_head F)" "load32 t (vmem_base_addr F) = load32 u (vmem_base_addr F)"
      using keep ar(2,3) load_parts(3) by blast+
    have v: "load32 u (vmem_base_addr F) = load32 s (vmem_base_addr F)" using fu(1) by (simp add: blink_frame_def)
    have sc: "screen_bytes F t = screen_bytes F u" using keep [OF ar(5)] ht(2) v by (simp add: screen_bytes_def)
    have st: "blink_at t p = blink_at u p" if "p \<in> blink_slots F" for p
    proof (rule blink_cong [OF keep])
      obtain j where j: "j < 2000" "p = blink_slot F j" using slot_of \<open>p \<in> blink_slots F\<close> by blast
      show "apart s arg 16 p 16" unfolding j(2) blink_slot_def by (rule apart_shift [OF ar(1)]) (use j(1) in simp)
    qed
    have xt: "xlat t = xlat s" using writes_in_frame(1) [OF w] xl by simp
    then have "spread t = spread s" "apart t = apart s" by (simp_all add: spread_def apart_def fun_eq_iff)
    moreover have "blink_areas F t = blink_areas F s" using ht(2) v by (simp add: blink_areas_def)
    ultimately have mt: "blink_memory F t" using m by (simp add: blink_memory_def)
    have l: "linked u (load32 u (mp1_list_head F)) ps" "distinct ps" "set ps \<subseteq> blink_slots F"
      "\<forall>p \<in> blink_slots F. location (blink_at u p) \<noteq> 0 \<longleftrightarrow> p \<in> set ps" "\<forall>p \<in> set ps. location (blink_at u p) < 2000"
      using lu(1) by (simp_all add: blink_list_def)
    have lt: "linked t (load32 t (mp1_list_head F)) ps" using linked_slots [OF l(3), of t u] st l(1) ht(1) by simp
    have "blink_list F ps t" using lt mt l st by (auto simp: blink_list_def)
    moreover have "blink_values ps t = blink_values ps s" using st l(3) vu by (auto simp: blink_values_def)
    ultimately show ?thesis using e Some assms(4) fv b sc fu(2) by simp
  qed
qed

text \<open>The requests by their number.\<close>

definition blink_request :: "u32 \<Rightarrow> u32 \<Rightarrow> blink \<Rightarrow> blink list \<times> u8 list \<Rightarrow> int \<times> blink list \<times> u8 list" where
  "blink_request cmd arg b st =
     (if cmd = 0 then add_blink b st
      else if cmd = 1 then remove_blink (ucast arg) st
      else if cmd = 2 then (if location b \<in> location ` set (fst st) then 0 else -1, st)
      else sync_blinks (ucast (drop_bit 16 arg)) (ucast arg) st)"

text \<open>
  C21: A request to \<^verbatim>\<open>mp1_ioctl\<close> returns and keeps the chain of structures a list without repetition in the array, with
  exactly the structures off the list marked as free. On the list and the screen it does what it is for: add puts a
  started blink in front and shows it, or refuses a place off the screen or a full array; remove takes the first blink at
  the place out; find only looks; sync gives a blink lengths, countdown and status of another, and then shows the
  second character of it, also if the status is on. An added blink must not be at place 0.
\<close>

theorem mp1_ioctl_refines:
  fixes F :: blink_link
  assumes "blink_list F ps s" "cmd < 4" "cmd = 0 \<longrightarrow> location (blink_at s arg) \<noteq> 0"
    and "cmd \<in> {0, 2} \<longrightarrow> spread s arg 16 \<and> (\<forall>(a, n) \<in> set (blink_areas F s). apart s arg 16 a n)"
  shows "\<exists>r t qs. mp1_ioctl F arg cmd s = Some (r, t) \<and> blink_list F qs t \<and>
    (r, blink_values qs t, screen_bytes F t) = blink_request cmd arg (blink_at s arg) (blink_values ps s, screen_bytes F s)"
proof -
  obtain r bs scr where e: "blink_request cmd arg (blink_at s arg) (blink_values ps s, screen_bytes F s) = (r, bs, scr)" by (metis prod_cases3)
  have "cmd = 0 \<or> cmd = 1 \<or> cmd = 2 \<or> cmd = 3" 
  proof -
    have "unat cmd < 4" using assms(2) by (simp add: word_less_nat_alt)
    then have "unat cmd = 0 \<or> unat cmd = 1 \<or> unat cmd = 2 \<or> unat cmd = 3" by linarith
    then show ?thesis by (elim disjE) (simp_all add: word_unat_eq_iff)
  qed
  then consider "cmd = 0" | "cmd = 1" | "cmd = 2" | "cmd = 3" by blast
  then show ?thesis
  proof cases
    case 1
    then have "apart s arg 16 (add_temp F) 16" using assms(4) by (simp add: blink_areas_def)
    then show ?thesis using add_refines [OF assms(1) _ assms(3) [rule_format, OF 1], of r bs scr] e 1
      by (auto simp: blink_request_def mp1_ioctl_def)
  next
    case 2
    then show ?thesis using remove_refines [OF assms(1), of r bs scr arg] e by (auto simp: blink_request_def mp1_ioctl_def)
  next
    case 3
    let ?f = "find (\<lambda>b. location b = location (blink_at s arg)) (blink_values ps s)"
    have "?f = None \<longleftrightarrow> location (blink_at s arg) \<notin> location ` set (blink_values ps s)" unfolding find_None_iff image_iff by metis
    then have "(case ?f of None \<Rightarrow> -1 | Some b \<Rightarrow> 0) = (if location (blink_at s arg) \<in> location ` set (blink_values ps s) then 0 else -1 :: int)"
      by (auto split: option.split)
    then show ?thesis using find_refines [OF assms(1) _ _ refl, of arg] 3 assms(4) by (auto simp: blink_request_def mp1_ioctl_def)
  next
    case 4
    then show ?thesis using sync_refines [OF assms(1), of r bs scr arg] e by (auto simp: blink_request_def mp1_ioctl_def)
  qed
qed

section \<open>A blink in the upper left corner\<close>

text \<open>On a list that leads back to its start the tasklet does not end.\<close>

lemma cycle_never_ends:
  fixes F :: blink_link
  assumes "blink_memory F s" "p \<in> blink_slots F" "location (blink_at s p) < 2000" "next_blink (blink_at s p) = p"
  shows "tasklet_loop F p s = None"
proof -
  let ?Q = "\<lambda>F p s. blink_memory F s \<and> p \<in> blink_slots F \<and> location (blink_at s p) < 2000 \<and> next_blink (blink_at s p) = p"
  have "tasklet_loop F p s = Some t \<Longrightarrow> \<not> ?Q F p s" for t
  proof (rule tasklet_loop.raw_induct [where P = "\<lambda>F p s t. \<not> ?Q F p s"])
    fix loop :: "blink_link \<Rightarrow> u32 \<Rightarrow> 'a machine_scheme \<Rightarrow> 'a machine_scheme option" and F :: blink_link and p and s t :: "'a machine_scheme"
    assume IH: "\<And>F p s t. loop F p s = Some t \<Longrightarrow> \<not> ?Q F p s"
      and e: "(if p = 0 then Some s else let s = tasklet_body F p s in loop F (load32 s (p + 12)) s) = Some t"
    show "\<not> ?Q F p s"
    proof
      assume a: "?Q F p s"
      then obtain i where i: "i < 2000" "p = blink_slot F i" using slot_of by blast
      have m: "blink_memory F s" "location (blink_at s (blink_slot F i)) < 2000" using a i(2) by simp_all
      note b = tasklet_body_tick [OF m(1) i(1) m(2) refl, folded i(2)]
      have "p \<noteq> 0" using blink_slot_inj(2) [OF m(1) i(1,1)] i(2) by simp
      moreover have "load32 (tasklet_body F p s) (p + 12) = p" using b(3) a by (simp add: blink_loads(8))
      ultimately have "loop F p (tasklet_body F p s) = Some t" using e by (simp add: Let_def)
      from IH [OF this] show False using a b(3) blink_frame_memory [OF b(1)] by simp
    qed
  qed
  then show ?thesis using assms by (cases "tasklet_loop F p s") auto
qed

text \<open>
  C22: A blink in the upper left corner, at location 0, is not seen by \<^verbatim>\<open>mp1_malloc\<close>, for which that value
  marks a free structure. The next blink that is added, wherever it is, gets the same structure, which then is its own
  successor: the tasklet never returns.
\<close>

theorem corner_blink_loops:
  fixes F :: blink_link
  assumes "blink_list F [] s" "apart s arg 16 (add_temp F) 16" "location (blink_at s arg) = 0"
    and "\<forall>(a, n) \<in> set (blink_areas F s). apart s arg' 16 a n" "location (blink_at s arg') < 2000"
    and "mp1_ioctl_add F arg s = (r, t)" "mp1_ioctl_add F arg' t = (r', u)"
  shows "r = 0 \<and> r' = 0 \<and> mp1_rtc_tasklet F u = None"
proof -
  have l: "blink_memory F s" "\<forall>p \<in> blink_slots F. location (blink_at s p) = 0" using assms(1) by (auto simp: blink_list_def)
  have first: "mp1_malloc F v = blink_slot F 0" if "location (blink_at v (blink_slot F 0)) = 0" for v :: "'a machine_scheme"
    using that by (simp add: mp1_malloc_def upt_conv_Cons [of 0 2000] blink_loads(1))
  have z: "blink_slot F 0 \<in> blink_slots F" by (simp add: blink_slots_def)
  have "location (blink_at s arg) < 2000" using assms(3) by simp
  from add_steps [OF l(1) assms(2) refl this first] l(2) z assms(3,6)
  have t: "r = 0" "blink_frame F s t" "load32 t (mp1_list_head F) = blink_slot F 0" "location (blink_at t (blink_slot F 0)) = 0" by auto
  have m: "blink_memory F t" using blink_frame_memory [OF t(2)] l(1) by simp
  have "apart s arg' 16 (add_temp F) 16" using assms(4) by (simp add: blink_areas_def)
  then have a: "apart t arg' 16 (add_temp F) 16" using t(2) by (simp add: blink_frame_def apart_def)
  have l': "location (blink_at t arg') < 2000" using blink_cong [OF blink_frame_read [OF t(2) assms(4)]] assms(5) by simp
  from add_steps [OF m a refl l' first [OF t(4)]] t(3) assms(7)
  have u: "r' = 0" "blink_frame F t u" "load32 u (mp1_list_head F) = blink_slot F 0"
    "next_blink (blink_at u (blink_slot F 0)) = blink_slot F 0" "location (blink_at u (blink_slot F 0)) < 2000" using l' by auto
  have "blink_memory F u" using blink_frame_memory [OF u(2)] m by simp
  from cycle_never_ends [OF this z u(5,4)] show ?thesis using t(1) u(1,3) by (simp add: mp1_rtc_tasklet_def)
qed

section \<open>A concrete memory\<close>

definition fish_link :: blink_link where
  "fish_link = \<lparr>blink_array = 0x08050000, mp1_list_head = 0x08058000, vmem_base_addr = 0x08058010, add_temp = 0x08058020, find_key = 0x08058040\<rparr>"

text \<open>Memory with an empty list, the screen at its place, and the blink of \<^verbatim>\<open>main\<close> at 0x08058060: I for 7 ticks and M for 6, in row 6, column 60.\<close>

definition fish_memory :: machine where
  "fish_memory = flat (\<lambda>a. if a = 0x08058011 then 0x80 else if a = 0x08058012 then 0x0B else if a = 0x08058060 then 0x1C
     else if a = 0x08058061 then 2 else if a = 0x08058062 then 0x49 else if a = 0x08058063 then 0x4D
     else if a = 0x08058064 then 7 else if a = 0x08058066 then 6 else 0)"

lemma fish_identity: "identity_on fish_memory a n \<longleftrightarrow> unat a + n \<le> 4294967296"
  by (simp add: fish_memory_def)

lemma fish_low: "unat a < 0x08058011 \<Longrightarrow> load fish_memory a = 0"
  by (auto simp: load_def fish_memory_def)

lemma fish_blink: "blink_at fish_memory 0x08058060 = \<lparr>location = 540, on_char = 0x49, off_char = 0x4D, on_length = 7, off_length = 6,
    countdown = 0, status = 0, next_blink = 0\<rparr>"
  by (simp add: blink_at_def load16_def load32_def half_of_bytes_def word_of_bytes_def load_def fish_memory_def)

lemma fish_blink_list: "blink_list fish_link [] fish_memory"
proof -
  have v: "load32 fish_memory 0x08058010 = 0xB8000" by (simp add: load32_def word_of_bytes_def load_def fish_memory_def)
  have m: "blink_memory fish_link fish_memory"
    by (simp add: blink_memory_def blink_areas_def fish_link_def v spread_identity apart_identity fish_identity)
  have "load32 fish_memory 0x08058000 = 0" by (simp add: load32_def word_of_bytes_def fish_low)
  moreover have "location (blink_at fish_memory p) = 0" if "p \<in> blink_slots fish_link" for p
  proof -
    obtain i where i: "i < 2000" "p = blink_slot fish_link i" using slot_of \<open>p \<in> blink_slots fish_link\<close> by blast
    have u: "unat p + 2 < 0x08058011" using blink_slot_word [OF i(1) m] i by (simp add: fish_link_def)
    then have "unat (p + 1) = unat p + 1" using u32_add_less_iff [of p 2 1] by simp
    then show ?thesis using u fish_low [of p] fish_low [of "p + 1"] by (simp add: blink_at_def load16_def half_of_bytes_def)
  qed
  ultimately show ?thesis using m by (simp add: blink_list_def fish_link_def)
qed

lemma fish_arg: "spread fish_memory 0x08058060 16 \<and> (\<forall>(a, n) \<in> set (blink_areas fish_link fish_memory). apart fish_memory 0x08058060 16 a n)"
proof -
  have v: "load32 fish_memory 0x08058010 = 0xB8000" by (simp add: load32_def word_of_bytes_def load_def fish_memory_def)
  show ?thesis by (simp add: blink_areas_def fish_link_def v spread_identity apart_identity fish_identity)
qed

lemma fish_added:
  "\<exists>t p. mp1_ioctl fish_link 0x08058060 0 fish_memory = Some (0, t) \<and> blink_list fish_link [p] t \<and>
     blink_values [p] t = [started (blink_at fish_memory 0x08058060)] \<and> screen_bytes fish_link t = (screen_bytes fish_link fish_memory)[1080 := 0x49]"
proof -
  have a: "apart fish_memory 0x08058060 16 (add_temp fish_link) 16" using fish_arg by (simp add: blink_areas_def)
  have e: "(0, [started (blink_at fish_memory 0x08058060)], (screen_bytes fish_link fish_memory)[1080 := 0x49]) =
      add_blink (blink_at fish_memory 0x08058060) (blink_values [] fish_memory, screen_bytes fish_link fish_memory)"
    by (simp add: add_blink_def blink_values_def fish_blink)
  obtain qs t where t: "mp1_ioctl_add fish_link 0x08058060 fish_memory = (0, t)" "blink_list fish_link qs t"
      "blink_values qs t = [started (blink_at fish_memory 0x08058060)]" "screen_bytes fish_link t = (screen_bytes fish_link fish_memory)[1080 := 0x49]"
    using add_refines [OF fish_blink_list a _ e] by (auto simp: fish_blink)
  then obtain p where "qs = [p]" by (auto simp: blink_values_def)
  then show ?thesis using t by (auto simp: mp1_ioctl_def)
qed

theorem mp1_ioctl_refines_witness:
  "\<exists>t p. mp1_ioctl fish_link 0x08058060 0 fish_memory = Some (0, t) \<and> blink_list fish_link [p] t \<and>
     blink_values [p] t = [started (blink_at fish_memory 0x08058060)] \<and> screen_bytes fish_link t = (screen_bytes fish_link fish_memory)[1080 := 0x49]"
proof -
  have "\<exists>r t qs. mp1_ioctl fish_link 0x08058060 0 fish_memory = Some (r, t) \<and> blink_list fish_link qs t \<and>
    (r, blink_values qs t, screen_bytes fish_link t) =
      blink_request 0 0x08058060 (blink_at fish_memory 0x08058060) (blink_values [] fish_memory, screen_bytes fish_link fish_memory)"
    by (rule mp1_ioctl_refines [OF fish_blink_list]) (use fish_arg in \<open>simp_all add: fish_blink\<close>)
  then obtain t qs where t: "mp1_ioctl fish_link 0x08058060 0 fish_memory = Some (0, t)" "blink_list fish_link qs t"
      "blink_values qs t = [started (blink_at fish_memory 0x08058060)]" "screen_bytes fish_link t = (screen_bytes fish_link fish_memory)[1080 := 0x49]"
    by (auto simp: blink_request_def add_blink_def blink_values_def fish_blink)
  then obtain p where "qs = [p]" by (auto simp: blink_values_def)
  then show ?thesis using t by blast
qed

theorem corner_blink_loops_witness:
  "\<exists>t u. mp1_ioctl_add fish_link 0x08058080 fish_memory = (0, t) \<and> mp1_ioctl_add fish_link 0x08058060 t = (0, u) \<and>
     mp1_rtc_tasklet fish_link u = None"
proof -
  obtain r t where t: "mp1_ioctl_add fish_link 0x08058080 fish_memory = (r, t)" by (metis prod.exhaust)
  obtain r' u where u: "mp1_ioctl_add fish_link 0x08058060 t = (r', u)" by (metis prod.exhaust)
  have a: "apart fish_memory 0x08058080 16 (add_temp fish_link) 16" by (simp add: fish_link_def apart_identity fish_identity)
  have z: "location (blink_at fish_memory 0x08058080) = 0"
    by (simp add: blink_at_def load16_def half_of_bytes_def load_def fish_memory_def)
  have l: "location (blink_at fish_memory 0x08058060) < 2000" by (simp add: fish_blink)
  have "r = 0 \<and> r' = 0 \<and> mp1_rtc_tasklet fish_link u = None"
    by (rule corner_blink_loops [OF fish_blink_list a z _ l t u]) (use fish_arg in blast)
  then show ?thesis using t u by blast
qed

lemma screen_cell: "length (screen_bytes F s) = 4000"
  by (simp add: screen_bytes_def)

theorem blinks_alternate_witness:
  "\<exists>s t. mp1_ioctl fish_link 0x08058060 0 fish_memory = Some (0, s) \<and> tasklets fish_link 10 s = Some t \<and>
     screen_bytes fish_link s ! 1080 = 0x49 \<and> screen_bytes fish_link t ! 1080 = 0x4D"
proof -
  obtain s p where s: "mp1_ioctl fish_link 0x08058060 0 fish_memory = Some (0, s)" "blink_list fish_link [p] s"
      "blink_values [p] s = [started (blink_at fish_memory 0x08058060)]" "screen_bytes fish_link s = (screen_bytes fish_link fish_memory)[1080 := 0x49]"
    using fish_added by blast
  have "blink_value (blink_at s p) = started (blink_at fish_memory 0x08058060)" using s(3) by (simp add: blink_values_def)
  then obtain q where b: "blink_at s p = \<lparr>location = 540, on_char = 0x49, off_char = 0x4D, on_length = 7, off_length = 6,
      countdown = 7, status = 1, next_blink = q\<rparr>" by (cases "blink_at s p") (simp add: started_def blink_value_def fish_blink)
  have c: "screen_bytes fish_link s ! 1080 = 0x49" using s(4) by (simp add: screen_cell)
  have "blinks_shown fish_link [p] s" using s(2) c b by (simp add: blinks_shown_def visible_def)
  from blinks_alternate [OF this, of "\<lambda>_. 0" 10] obtain t where "tasklets fish_link 10 s = Some t"
      "screen_bytes fish_link t ! 1080 = 0x4D"
    using b by (auto simp: in_phase_def lengths_ok_def period_def Let_def)
  then show ?thesis using s(1) c by blast
qed

end
