(* ===== verification/Fish.thy ===== *)
theory Fish
  imports Blink_List User_Programs
begin

text \<open>
  The program \<^verbatim>\<open>fish\<close>: \<^verbatim>\<open>fish/fish.c\<close>. It reads two pictures from files, puts every position at which
  one of them has a character on the list of blinks, and lets the tasklet of \<^verbatim>\<open>blink.S\<close> run at every tick of the
  real-time clock, so that the two pictures alternate on the screen.
\<close>

section \<open>Data\<close>

text \<open>The names of the files, and the locals of \<^verbatim>\<open>main\<close> and \<^verbatim>\<open>add_frames\<close> whose address is taken.\<close>

record fish_locals =
  file0 :: u32
  file1 :: u32
  main_blink :: u32
  garbage :: u32
  ret_val :: u32
  frame_blink :: u32
  c0 :: u32
  c1 :: u32

abbreviation (input) newline :: u8 where "newline \<equiv> 0x0A"
abbreviation (input) blank :: u8 where "blank \<equiv> 0x20"

section \<open>The pictures\<close>

definition mp1_set_video_mode :: "user_link \<Rightarrow> blink_link \<Rightarrow> 'a kernel_scheme \<Rightarrow> (u32 \<times> 'a kernel_scheme) option" where
  "mp1_set_video_mode U F s =
     do { (r, s) \<leftarrow> ece391_vidmap U (vmem_base_addr F) s;
          Some (if r = -1 then 0 else load32 s (vmem_base_addr F), s) }"

text \<open>One of the two blocks that read the next character of a line, unless the line is over.\<close>

definition frame_char ::
    "user_link \<Rightarrow> 'a waiting \<Rightarrow> int \<Rightarrow> u32 \<Rightarrow> int \<Rightarrow> 'a kernel_scheme \<Rightarrow> (int \<times> 'a kernel_scheme) option" where
  "frame_char U env fd c eof s =
     (if load s c \<noteq> newline
      then do { (num_bytes, s) \<leftarrow> ece391_read U env fd c 1 s;
                if num_bytes = 0 then Some (1, store c newline s) else Some (eof, s) }
      else Some (eof, s))"

definition frame_add :: "blink_link \<Rightarrow> fish_locals \<Rightarrow> int \<Rightarrow> int \<Rightarrow> 'a kernel_scheme \<Rightarrow> 'a kernel_scheme option" where
  "frame_add F G row col s =
     (let x = load s (c0 G); y = load s (c1 G)
      in if x \<noteq> blank \<and> x \<noteq> newline \<or> y \<noteq> blank \<and> y \<noteq> newline
         then let s = store (frame_blink G + 2) (if x = newline then blank else x) s;
                  s = store (frame_blink G + 3) (if y = newline then blank else y) s;
                  s = store16 (frame_blink G) (of_int (row * 80 + col + 40)) s
              in map_option snd (mp1_ioctl F (frame_blink G) 0 s)
         else Some s)"

partial_function (option) frame_cols ::
    "user_link \<Rightarrow> 'a waiting \<Rightarrow> blink_link \<Rightarrow> fish_locals \<Rightarrow> int \<Rightarrow> int \<Rightarrow> int \<Rightarrow> int \<Rightarrow> int \<Rightarrow> int \<Rightarrow> 'a kernel_scheme
       \<Rightarrow> (int \<times> int \<times> 'a kernel_scheme) option" where
  "frame_cols U env F G fd0 fd1 row col eof0 eof1 s =
     do { (eof0, s) \<leftarrow> frame_char U env fd0 (c0 G) eof0 s;
          (eof1, s) \<leftarrow> frame_char U env fd1 (c1 G) eof1 s;
          if load s (c0 G) = newline \<and> load s (c1 G) = newline then Some (eof0, eof1, s)
          else do { s \<leftarrow> frame_add F G row col s;
                    frame_cols U env F G fd0 fd1 row (col + 1) eof0 eof1 s } }"

text \<open>The end of a line of one of the files.\<close>

definition frame_line_end :: "user_link \<Rightarrow> int \<Rightarrow> u32 \<Rightarrow> int \<Rightarrow> 'a kernel_scheme \<Rightarrow> 'a kernel_scheme option" where
  "frame_line_end U fd c eof s =
     (if eof \<noteq> 0 then map_option snd (ece391_close U fd (store c newline s)) else Some (store c 0x30 s))"

partial_function (option) frame_rows ::
    "user_link \<Rightarrow> 'a waiting \<Rightarrow> blink_link \<Rightarrow> fish_locals \<Rightarrow> int \<Rightarrow> int \<Rightarrow> int \<Rightarrow> int \<Rightarrow> int \<Rightarrow> 'a kernel_scheme
       \<Rightarrow> 'a kernel_scheme option" where
  "frame_rows U env F G fd0 fd1 row eof0 eof1 s =
     (if eof0 = 0 \<or> eof1 = 0
      then do { (eof0, eof1, s) \<leftarrow> frame_cols U env F G fd0 fd1 row 0 eof0 eof1 s;
                s \<leftarrow> frame_line_end U fd0 (c0 G) eof0 s;
                s \<leftarrow> frame_line_end U fd1 (c1 G) eof1 s;
                frame_rows U env F G fd0 fd1 (row + 1) eof0 eof1 s }
      else Some s)"

text \<open>\<open>Inl\<close> is the end of the program by \<^verbatim>\<open>ece391_halt(-1)\<close>.\<close>

definition add_frames ::
    "user_link \<Rightarrow> 'a waiting \<Rightarrow> blink_link \<Rightarrow> fish_locals \<Rightarrow> 'a kernel_scheme \<Rightarrow> ('a kernel_scheme + 'a kernel_scheme) option" where
  "add_frames U env F G s =
     (let s = store (c0 G) 0x30 s; s = store (c1 G) 0x30 s;
          s = store16 (frame_blink G + 4) 15 s; s = store16 (frame_blink G + 6) 15 s
      in do { (fd0, s) \<leftarrow> ece391_open U (file0 G) s;
              if fd0 < 0 then Some (Inl s)
              else do { (fd1, s) \<leftarrow> ece391_open U (file1 G) s;
                        if fd1 < 0 then Some (Inl s)
                        else map_option Inr (frame_rows U env F G fd0 fd1 0 0 0 s) } })"

section \<open>main\<close>

text \<open>\<open>n\<close> ticks of the clock.\<close>

fun fish_ticks ::
    "user_link \<Rightarrow> 'a waiting \<Rightarrow> blink_link \<Rightarrow> fish_locals \<Rightarrow> int \<Rightarrow> nat \<Rightarrow> 'a kernel_scheme \<Rightarrow> 'a kernel_scheme option" where
  "fish_ticks U env F G rtc_fd 0 s = Some s"
| "fish_ticks U env F G rtc_fd (Suc n) s =
     do { (_, s) \<leftarrow> ece391_read U env rtc_fd (garbage G) 4 s;
          s \<leftarrow> mp1_rtc_tasklet F s;
          fish_ticks U env F G rtc_fd n s }"

definition put_blink :: "u32 \<Rightarrow> u8 \<Rightarrow> u8 \<Rightarrow> u16 \<Rightarrow> u16 \<Rightarrow> u16 \<Rightarrow> 'a machine_scheme \<Rightarrow> 'a machine_scheme" where
  "put_blink b x y on off l s =
     (let s = store (b + 2) x s; s = store (b + 3) y s; s = store16 (b + 4) on s; s = store16 (b + 6) off s in store16 b l s)"

text \<open>The value is what \<^verbatim>\<open>_start\<close> hands to \<^verbatim>\<open>halt\<close>, also if \<^verbatim>\<open>add_frames\<close> has called it with -1.\<close>

definition fish_main :: "user_link \<Rightarrow> 'a waiting \<Rightarrow> blink_link \<Rightarrow> fish_locals \<Rightarrow> 'a kernel_scheme \<Rightarrow> (int \<times> 'a kernel_scheme) option" where
  "fish_main U env F G s =
     (let s = ece391_memset (blink_array F) 0 (16 * 80 * 25) s
      in do { (v, s) \<leftarrow> mp1_set_video_mode U F s;
              if v = 0 then Some (-1, s)
              else do { (rtc_fd, s) \<leftarrow> ece391_open U (ul_lit U ''rtc'') s;
                        x \<leftarrow> add_frames U env F G s;
                        case x of Inl s \<Rightarrow> Some (-1, s)
                        | Inr s \<Rightarrow>
                            let s = store32 (ret_val G) 32 s
                            in do { (r, s) \<leftarrow> ece391_write U rtc_fd (ret_val G) 4 s;
                                    s \<leftarrow> fish_ticks U env F G rtc_fd 200 (store32 (ret_val G) (of_int r) s);
                                    (r, s) \<leftarrow> mp1_ioctl F (main_blink G) 0 (put_blink (main_blink G) 0x49 0x4D 7 6 (6 * 80 + 60) s);
                                    s \<leftarrow> fish_ticks U env F G rtc_fd 200 s;
                                    (r, s) \<leftarrow> mp1_ioctl F (push_bit 16 40 OR (6 * 80 + 60)) 3 s;
                                    s \<leftarrow> fish_ticks U env F G rtc_fd 200 s;
                                    (r, s) \<leftarrow> mp1_ioctl F 200 1 (store16 (main_blink G) 60 s);
                                    s \<leftarrow> fish_ticks U env F G rtc_fd 2000 s;
                                    (r, s) \<leftarrow> ece391_close U rtc_fd s;
                                    Some (0, s) } } })"

end
