(* ===== verification/Fish_Properties.thy ===== *)
theory Fish_Properties
  imports Fish
begin

text \<open>
  What \<^verbatim>\<open>fish\<close> shows: after \<^verbatim>\<open>add_frames\<close> the list holds one blink for every position at which one of the
  two pictures has a character, and from then on the tasklet alternates between the pictures.
\<close>

section \<open>The memory of the program\<close>

definition fish_areas :: "blink_link \<Rightarrow> fish_locals \<Rightarrow> (u32 \<times> nat) list" where
  "fish_areas F G = [(blink_array F, 32000), (mp1_list_head F, 4), (vmem_base_addr F, 4), (add_temp F, 16), (find_key F, 2),
     (frame_blink G, 16), (c0 G, 1), (c1 G, 1)]"

definition fish_layout :: "blink_link \<Rightarrow> fish_locals \<Rightarrow> bool" where
  "fish_layout F G \<longleftrightarrow> list_all (\<lambda>(a, n). in_user a n) (fish_areas F G) \<and> sorted_wrt (\<lambda>(a, n) (b, m). clear_of a n b m) (fish_areas F G)"

lemma user_areas_apart:
  assumes "world s" "in_user a n" "in_user b m" "clear_of a n b m"
  shows "apart s a n b m"
  unfolding apart_def
proof (intro allI impI)
  fix i j assume ij: "i < n" "j < m"
  have u: "unat (a + of_nat i) = unat a + i" "unat (b + of_nat j) = unat b + j" using unat_user assms(2,3) ij by blast+
  have "unat a + i \<noteq> unat b + j" using assms(4) ij by (auto simp: clear_of_def)
  then have "a + of_nat i \<noteq> b + of_nat j" using u by metis
  moreover have "in_user (a + of_nat i) 1" "in_user (b + of_nat j) 1" using in_user_shift assms(2,3) ij by simp_all
  ultimately show "xlat s (a + of_nat i) \<noteq> xlat s (b + of_nat j)" using user_xlat [OF assms(1)] by blast
qed

lemma fish_blink_memory:
  assumes "world s" "fish_layout F G" "load32 s (vmem_base_addr F) = VIDEO"
  shows "blink_memory F s" "apart s (frame_blink G) 16 (add_temp F) 16"
proof -
  have u: "in_user (blink_array F) 32000" "in_user (mp1_list_head F) 4" "in_user (vmem_base_addr F) 4" "in_user (add_temp F) 16"
    "in_user (find_key F) 2" "in_user (frame_blink G) 16" using assms(2) by (simp_all add: fish_layout_def fish_areas_def)
  have "spread s VIDEO 4000" using assms(1) by (simp add: world_def video_mapped_def)
  moreover have "0 < unat (blink_array F)" "unat (blink_array F) + 32000 \<le> 2 ^ 32" using u(1) by (simp_all add: in_user_def)
  ultimately show "blink_memory F s"
    using u user_area [OF assms(1)] user_areas_apart [OF assms(1)] assms(2)
    by (simp add: blink_memory_def blink_areas_def assms(3) fish_layout_def fish_areas_def)
  have "clear_of (add_temp F) 16 (frame_blink G) 16" using assms(2) by (simp add: fish_layout_def fish_areas_def)
  then show "apart s (frame_blink G) 16 (add_temp F) 16" by (intro apart_sym [OF user_areas_apart [OF assms(1) u(4,6)]])
qed

section \<open>What keeps the blinks\<close>

lemma value_parts: "blinks_shown F ps s \<longleftrightarrow> blink_list F ps s \<and> distinct (map location (blink_values ps s)) \<and>
    (\<forall>b \<in> set (blink_values ps s). screen_bytes F s ! (2 * unat (location b)) = visible b)"
  by (simp add: blinks_shown_def blink_values_def comp_def) (auto simp: visible_def blink_value_def)

definition fish_live :: "blink_link \<Rightarrow> u32 list \<Rightarrow> 'a kernel_scheme \<Rightarrow> bool" where
  "fish_live F ps s \<longleftrightarrow> world s \<and> load32 s (vmem_base_addr F) = VIDEO \<and> blink_list F ps s"

definition fish_inv :: "blink_link \<Rightarrow> fish_locals \<Rightarrow> u32 list \<Rightarrow> 'a kernel_scheme \<Rightarrow> bool" where
  "fish_inv F G ps s \<longleftrightarrow> world s \<and> load32 s (vmem_base_addr F) = VIDEO \<and> blinks_shown F ps s"

lemma slot_bytes:
  assumes "read_bytes t (blink_array F) 32000 = read_bytes s (blink_array F) 32000" "q \<in> blink_slots F"
  shows "blink_at t q = blink_at s q"
proof -
  obtain i where i: "i < 2000" "q = blink_slot F i" using slot_of [OF assms(2)] by blast
  have "read_bytes t q 16 = read_bytes s q 16" unfolding i(2) blink_slot_def by (rule read_within [OF assms(1)]) (use i(1) in simp)
  then show ?thesis by (rule blink_cong)
qed

text \<open>Nothing is written but \<open>n\<close> bytes of the program that are not part of the list.\<close>

definition off_list :: "blink_link \<Rightarrow> u32 \<Rightarrow> nat \<Rightarrow> bool" where
  "off_list F a n \<longleftrightarrow> clear_of a n (blink_array F) 32000 \<and> clear_of a n (mp1_list_head F) 4 \<and> clear_of a n (vmem_base_addr F) 4"

lemma fish_live_displays:
  fixes s :: "'a kernel_scheme"
  assumes "fish_live F ps s" "fish_layout F G" "displays [] a n s t" "off_list F a n"
  shows "fish_live F ps t" "blink_values ps t = blink_values ps s" "screen_bytes F t = screen_bytes F s"
proof -
  have u: "in_user (blink_array F) 32000" "in_user (mp1_list_head F) 4" "in_user (vmem_base_addr F) 4"
    using assms(2) by (simp_all add: fish_layout_def fish_areas_def)
  have b: "read_bytes t (blink_array F) 32000 = read_bytes s (blink_array F) 32000" "read_bytes t (mp1_list_head F) 4 = read_bytes s (mp1_list_head F) 4"
    "read_bytes t (vmem_base_addr F) 4 = read_bytes s (vmem_base_addr F) 4"
    using displays_field(2) [OF assms(3)] u assms(4) by (simp_all add: off_list_def)
  have w: "world t" using displays_world [OF assms(3)] by blast
  have v: "load32 t (vmem_base_addr F) = VIDEO" using load_parts(3) [OF b(3)] assms(1) by (simp add: fish_live_def)
  have h: "load32 t (mp1_list_head F) = load32 s (mp1_list_head F)" using load_parts(3) [OF b(2)] by simp
  note e = slot_bytes [OF b(1)]
  have l: "blink_memory F s" "linked s (load32 s (mp1_list_head F)) ps" "distinct ps" "set ps \<subseteq> blink_slots F"
    "\<forall>p \<in> blink_slots F. location (blink_at s p) \<noteq> 0 \<longleftrightarrow> p \<in> set ps" "\<forall>p \<in> set ps. location (blink_at s p) < 2000"
    using assms(1) by (simp_all add: fish_live_def blink_list_def)
  have "linked t (load32 t (mp1_list_head F)) ps" using linked_slots [OF l(4), of t s] e l(2) h by simp
  then have "blink_list F ps t" using l e fish_blink_memory(1) [OF w assms(2) v] by (auto simp: blink_list_def)
  then show "fish_live F ps t" using w v by (simp add: fish_live_def)
  show "blink_values ps t = blink_values ps s" using e l(4) by (auto simp: blink_values_def)
  have "screen_of t = screen_of s" using assms(3) by (simp add: displays_def)
  then have "cells (screen_of t) = cells (screen_of s)" by simp
  then show "screen_bytes F t = screen_bytes F s" using v assms(1) by (simp add: screen_bytes_def term_vt_def fish_live_def)
qed

lemma fish_inv_live: "fish_inv F G ps s \<Longrightarrow> fish_live F ps s"
  by (simp add: fish_inv_def fish_live_def blinks_shown_def)

lemma fish_inv_displays:
  fixes s :: "'a kernel_scheme"
  assumes "fish_inv F G ps s" "fish_layout F G" "displays [] a n s t" "off_list F a n"
  shows "fish_inv F G ps t" "blink_values ps t = blink_values ps s"
proof -
  note l = fish_live_displays [OF fish_inv_live [OF assms(1)] assms(2-4)]
  show "blink_values ps t = blink_values ps s" by (rule l(2))
  show "fish_inv F G ps t" using l assms(1) by (simp add: fish_inv_def fish_live_def value_parts)
qed

text \<open>A request writes only the static data of \<^verbatim>\<open>blink.S\<close> and the screen.\<close>

lemma request_world:
  fixes s :: "'a kernel_scheme"
  assumes "world s" "fish_layout F G" "load32 s (vmem_base_addr F) = VIDEO" "blink_frame F s t"
  shows "same_world s t" "fds_of t = fds_of s" "in_user x m \<Longrightarrow> \<forall>(a, n) \<in> set (take 5 (fish_areas F G)). clear_of a n x m \<Longrightarrow> read_bytes t x m = read_bytes s x m"
proof -
  have u: "in_user (blink_array F) 32000" "in_user (mp1_list_head F) 4" "in_user (vmem_base_addr F) 4" "in_user (add_temp F) 16"
    "in_user (find_key F) 2" using assms(2) by (simp_all add: fish_layout_def fish_areas_def)
  have ar: "blink_areas F s = take 5 (fish_areas F G) @ [(VIDEO, 4000)]" by (simp add: blink_areas_def fish_areas_def assms(3))
  have m: "machine.more t = machine.more s" "xlat t = xlat s" using assms(4) by (simp_all add: blink_frame_def)
  show "read_bytes t x m = read_bytes s x m" if x: "in_user x m" "\<forall>(a, n) \<in> set (take 5 (fish_areas F G)). clear_of a n x m"
  proof (rule blink_frame_read [OF assms(4)])
    have "apart s x m a n" if "(a, n) \<in> set (take 5 (fish_areas F G))" for a n
    proof -
      have "in_user a n" using that u by (auto simp: fish_areas_def)
      then show ?thesis using x that user_areas_apart [OF assms(1)] apart_sym by blast
    qed
    then show "\<forall>(a, n) \<in> set (blink_areas F s). apart s x m a n" using user_area(2) [OF assms(1) x(1)] by (auto simp: ar)
  qed
  note more = machine_more_sel [of t s, OF m(1)]
  have cur: "cursor_of i t = cursor_of i s" for i by (simp add: cursor_of_def more)
  have "read_bytes t (bootblock s) (image_size s) = read_bytes s (bootblock s) (image_size s)"
  proof (rule blink_frame_read [OF assms(4)])
    have "apart s VIDEO 4000 (bootblock s) (image_size s)" using assms(1) by (simp add: world_def)
    then show "\<forall>(a, n) \<in> set (blink_areas F s). apart s (bootblock s) (image_size s) a n"
      using u user_area(3) [OF assms(1)] by (auto simp: ar fish_areas_def intro: apart_sym)
  qed
  moreover have "bootblock t = bootblock s" "inodes t = inodes s" "datablocks t = datablocks s" using m(1) by (cases s; cases t; simp)+
  ultimately have im: "same_image s t" using load_offset [of t "bootblock s" "image_size s" s "bootblock s"] by (simp add: same_image_def)
  obtain p where p: "procs_ok s" "running s p" using assms(1) by (auto simp: world_def)
  have sp: "same_procs s t" by (rule same_procs_more) (use m(1) in \<open>cases s; cases t; simp\<close>)
  have "world t"
    using p assms(1) same_procs_ok [OF sp] same_procs_running [OF sp] by (intro world_image [OF assms(1) im m(2)]) (auto simp: cur more world_def)
  moreover have "own_memory_only s t" unfolding own_memory_only_def
  proof (intro allI impI)
    fix q assume q: "program_memory q" "q \<notin> xlat s ` {a. in_user a 1}"
    have "q \<notin> (\<lambda>i. xlat s (a + of_nat i)) ` {..<n}" if "(a, n) \<in> set (blink_areas F s)" for a n
    proof (cases "a = VIDEO")
      case True
      then have "n = 4000" using that u by (auto simp: ar fish_areas_def in_user_def)
      then show ?thesis using assms(1) q(1) True by (auto simp: world_def window_def)
    next
      case False
      then have "in_user a n" using that u by (auto simp: ar fish_areas_def)
      then have "in_user (a + of_nat i) 1" if "i < n" for i using in_user_shift that by simp
      then show ?thesis using q(2) by auto
    qed
    then have "\<forall>(a, n) \<in> set (blink_areas F s). q \<notin> (\<lambda>i. xlat s (a + of_nat i)) ` {..<n}" by blast
    then show "ram t q = ram s q" using assms(4) unfolding blink_frame_def by blast
  qed
  ultimately show "same_world s t" using im m(2) own_fds_only_same [OF sp] by (simp add: same_world_def more current_pcb_def)
  show "fds_of t = fds_of s" by (simp add: more current_pcb_def)
qed

text \<open>The invariant while the pictures are read: the lengths of the next blink are set.\<close>

definition drawing :: "blink_link \<Rightarrow> fish_locals \<Rightarrow> u32 list \<Rightarrow> 'a kernel_scheme \<Rightarrow> bool" where
  "drawing F G ps s \<longleftrightarrow> fish_inv F G ps s \<and> on_length (blink_at s (frame_blink G)) = 15 \<and> off_length (blink_at s (frame_blink G)) = 15"

lemma fish_parts:
  assumes "fish_layout F G"
  shows "off_list F (c0 G) 1" "off_list F (c1 G) 1" "off_list F (frame_blink G) 16" "clear_of (c0 G) 1 (frame_blink G) 16"
    "clear_of (c1 G) 1 (frame_blink G) 16" "clear_of (c0 G) 1 (c1 G) 1" "clear_of (c1 G) 1 (c0 G) 1" "in_user (c0 G) 1" "in_user (c1 G) 1" "in_user (frame_blink G) 16"
    "clear_of (frame_blink G) 16 (c0 G) 1" "clear_of (frame_blink G) 16 (c1 G) 1"
  using assms by (simp_all add: fish_layout_def fish_areas_def off_list_def clear_of_def disj_commute)

lemma drawing_displays:
  assumes "drawing F G ps s" "fish_layout F G" "displays [] a n s t" "off_list F a n" "clear_of a n (frame_blink G) 16"
  shows "drawing F G ps t" "blink_values ps t = blink_values ps s"
proof -
  have i: "fish_inv F G ps s" using assms(1) by (simp add: drawing_def)
  have "blink_at t (frame_blink G) = blink_at s (frame_blink G)"
    by (rule blink_cong [OF displays_field(2) [OF assms(3) fish_parts(10) [OF assms(2)] assms(5)]])
  then show "drawing F G ps t" "blink_values ps t = blink_values ps s"
    using fish_inv_displays [OF i assms(2-4)] assms(1) by (simp_all add: drawing_def)
qed

section \<open>Reading a line of a picture\<close>

text \<open>
  The reader of a file with the variable \<open>c\<close>: \<open>l\<close> is what is left of the present line, \<open>r\<close> what follows it, or
  \<open>None\<close> if the file ends with it. Either the line is being read, or its end has been read.
\<close>

definition line_read :: "'a kernel_scheme \<Rightarrow> nat \<Rightarrow> u32 \<Rightarrow> u32 \<Rightarrow> u8 list \<Rightarrow> u8 list option \<Rightarrow> int \<Rightarrow> bool" where
  "line_read s fd ino c l r eof \<longleftrightarrow> load s c \<noteq> newline \<and> newline \<notin> set l \<and> eof = 0 \<and>
     (\<exists>pos. reads_file s fd ino pos \<and> drop pos (file_of s ino) = l @ (case r of None \<Rightarrow> [] | Some u \<Rightarrow> newline # u))"

definition line_over :: "'a kernel_scheme \<Rightarrow> nat \<Rightarrow> u32 \<Rightarrow> u32 \<Rightarrow> u8 list option \<Rightarrow> int \<Rightarrow> bool" where
  "line_over s fd ino c r eof \<longleftrightarrow> load s c = newline \<and> eof = (if r = None then 1 else 0) \<and>
     (\<forall>u. r = Some u \<longrightarrow> (\<exists>pos. reads_file s fd ino pos \<and> drop pos (file_of s ino) = u))"

definition reader :: "'a kernel_scheme \<Rightarrow> nat \<Rightarrow> u32 \<Rightarrow> u32 \<Rightarrow> u8 list \<Rightarrow> u8 list option \<Rightarrow> int \<Rightarrow> bool" where
  "reader s fd ino c l r eof \<longleftrightarrow> line_read s fd ino c l r eof \<or> l = [] \<and> line_over s fd ino c r eof"

lemma reads_file_kept: "reads_file s fd ino pos \<Longrightarrow> same_world s t \<Longrightarrow> fds_of t fd = fds_of s fd \<Longrightarrow> reads_file t fd ino pos \<and> file_of t ino = file_of s ino"
proof -
  assume a: "reads_file s fd ino pos" "same_world s t" "fds_of t fd = fds_of s fd"
  then have f: "file_ok s ino" by (simp add: reads_file_def)
  show ?thesis using a same_world_file [OF a(2) f] by (simp add: reads_file_def open_at_def)
qed

lemma reader_kept:
  assumes "reader s fd ino c l r eof" "same_world s t" "fds_of t fd = fds_of s fd" "load t c = load s c"
  shows "reader t fd ino c l r eof"
  using assms reads_file_kept [OF _ assms(2,3)] unfolding reader_def line_read_def line_over_def by fastforce

lemma frame_char_reads:
  fixes s :: "'a kernel_scheme"
  assumes "world s" "in_user c 1" "reader s fd ino c l r eof"
  shows "\<exists>eof' t. frame_char U env (int fd) c eof s = Some (eof', t) \<and> displays [] c 1 s t \<and> same_fds fd s t \<and>
    load t c = (case l of [] \<Rightarrow> newline | x # _ \<Rightarrow> x) \<and> reader t fd ino c (tl l) r eof'"
proof (rule assms(3) [unfolded reader_def, THEN disjE])
  assume "l = [] \<and> line_over s fd ino c r eof"
  then have o: "l = []" "line_over s fd ino c r eof" by simp_all
  then have "frame_char U env (int fd) c eof s = Some (eof, s)" by (simp add: frame_char_def line_over_def)
  then show ?thesis using o displays_refl [OF assms(1)] by (auto simp: reader_def same_fds_def line_over_def)
next
  assume "line_read s fd ino c l r eof"
  then obtain pos where p: "load s c \<noteq> newline" "newline \<notin> set l" "eof = 0" "reads_file s fd ino pos"
      "drop pos (file_of s ino) = l @ (case r of None \<Rightarrow> [] | Some u \<Rightarrow> newline # u)" by (auto simp: line_read_def)
  obtain t where t: "ece391_read U env (int fd) c 1 s = Some (int (min 1 (length (file_of s ino) - pos)), t)" "displays [] c 1 s t"
      "read_bytes t c (min 1 (length (file_of s ino) - pos)) = take 1 (drop pos (file_of s ino))"
      "reads_file t fd ino (pos + min 1 (length (file_of s ino) - pos))" "same_fds fd s t"
    using read_user_file [OF assms(1) p(4) assms(2) _ refl] by fastforce
  have fo: "file_of t ino = file_of s ino" using same_world_file [OF displays_same [OF t(2)]] p(4) by (simp add: reads_file_def)
  show ?thesis
  proof (cases "drop pos (file_of s ino)")
    case Nil
    then have n: "length (file_of s ino) - pos = 0" "l = []" "r = None" using p(5) by (auto split: option.splits)
    let ?t = "store c newline t"
    have d: "displays [] c 1 s ?t" using displays_trans [OF t(2) store_user [OF displays_world [OF t(2)] assms(2)]] by simp
    have "frame_char U env (int fd) c eof s = Some (1, ?t)" using p(1) t(1) n(1) by (simp add: frame_char_def)
    moreover have "line_over ?t fd ino c r 1" using n by (simp add: line_over_def load_store)
    moreover have "same_fds fd s ?t" using t(5) by (simp add: same_fds_def)
    ultimately show ?thesis using d n by (auto simp: reader_def load_store)
  next
    case (Cons x xs)
    then have "0 < length (file_of s ino) - pos" by (metis drop_all list.distinct(1) not_gr_zero diff_is_0_eq)
    then have m: "min 1 (length (file_of s ino) - pos) = 1" by simp
    have lx: "load t c = x" using t(3) [unfolded m Cons] by (simp add: read_bytes_def)
    have e: "frame_char U env (int fd) c eof s = Some (eof, t)" using p(1) t(1) m by (simp add: frame_char_def)
    have dr: "drop (pos + 1) (file_of t ino) = xs" using Cons fo by (metis add.commute drop_Suc drop_drop list.sel(3) plus_1_eq_Suc tl_drop)
    show ?thesis
    proof (cases l)
      case Nil
      then obtain u where u: "r = Some u" "x = newline" "xs = u" using p(5) Cons by (auto split: option.splits)
      then have "line_over t fd ino c r eof" using t(4) dr lx p(3) m by (auto simp: line_over_def)
      then show ?thesis using e t(2,5) lx Nil u(2) by (auto simp: reader_def)
    next
      case l: (Cons y ys)
      then have y: "y = x" "xs = ys @ (case r of None \<Rightarrow> [] | Some u \<Rightarrow> newline # u)" using p(5) Cons by simp_all
      then have "line_read t fd ino c ys r eof" using t(4) dr lx p(2,3) m l by (auto simp: line_read_def)
      then show ?thesis using e t(2,5) lx l y(1) by (auto simp: reader_def)
    qed
  qed
qed

section \<open>Adding a position\<close>

text \<open>The blink of one position of the pictures, in the state in which the list has it.\<close>

definition picture_blink :: "nat \<times> u8 \<times> u8 \<Rightarrow> blink" where
  "picture_blink = (\<lambda>(k, x, y). \<lparr>location = of_nat k, on_char = x, off_char = y, on_length = 15, off_length = 15,
     countdown = 15, status = 1, next_blink = 0\<rparr>)"

lemma u16_small: "k < 2000 \<Longrightarrow> unat (of_nat k :: u16) = k"
  by (simp add: unat_of_nat take_bit_nat_eq_self)

lemma put_frame_blink:
  fixes s :: "'a kernel_scheme"
  assumes "world s" "in_user p 16" "t = store16 p w (store (p + 3) y (store (p + 2) x s))"
  shows "displays [] p 16 s t" "blink_at t p = (blink_at s p)\<lparr>location := w, on_char := x, off_char := y\<rparr>"
proof -
  have sp: "spread s p 16" using user_area(1) [OF assms(1,2)] .
  let ?u = "store (p + 2) x s" let ?v = "store (p + 3) y ?u"
  have d2: "displays [] p 16 s ?u" using store_at(1) [OF assms(1,2), of 2 x] by simp
  have d3: "displays [] p 16 s ?v" using displays_trans [OF d2 store_at(1) [OF displays_world [OF d2] assms(2), of 3 y, simplified]] by simp
  have d4: "displays [] p 16 ?v t" unfolding assms(3) store16_def by (rule write_user [OF displays_world [OF d3] assms(2)]) simp
  show "displays [] p 16 s t" using displays_trans [OF d3 d4] by simp
  show "blink_at t p = (blink_at s p)\<lparr>location := w, on_char := x, off_char := y\<rparr>"
    using blink_chars(3) [of ?v p w] blink_chars(2) [of ?u p y] blink_chars(1) [OF sp, of x] sp by (simp add: assms(3))
qed

lemma frame_add_adds:
  fixes s :: "'a kernel_scheme"
  assumes "drawing F G ps s" "fish_layout F G" "row * 80 + col + 40 = int k" "k < 2000" "0 < k" "length ps < 2000"
    and "of_nat k \<notin> location ` set (blink_values ps s)"
    and "x = (if load s (c0 G) = newline then blank else load s (c0 G))" "y = (if load s (c1 G) = newline then blank else load s (c1 G))"
  shows "\<exists>t qs. frame_add F G row col s = Some t \<and> drawing F G qs t \<and> same_world s t \<and> fds_of t = fds_of s \<and>
    load t (c0 G) = load s (c0 G) \<and> load t (c1 G) = load s (c1 G) \<and>
    blink_values qs t = (if x = blank \<and> y = blank then blink_values ps s else picture_blink (k, x, y) # blink_values ps s)"
proof (cases "x = blank \<and> y = blank")
  case True
  then have "frame_add F G row col s = Some s" using assms(8,9) by (auto simp: frame_add_def Let_def split: if_splits)
  moreover have "same_world s s" using assms(1) by (simp add: drawing_def fish_inv_def same_world_refl)
  ultimately show ?thesis using assms(1) True by auto
next
  case False
  let ?p = "frame_blink G" note lay = fish_parts [OF assms(2)]
  have w: "world s" "load32 s (vmem_base_addr F) = VIDEO" "blinks_shown F ps s" "on_length (blink_at s ?p) = 15" "off_length (blink_at s ?p) = 15"
    using assms(1) by (simp_all add: drawing_def fish_inv_def)
  define u where "u = store16 ?p (of_int (row * 80 + col + 40)) (store (?p + 3) y (store (?p + 2) x s))"
  note pu = put_frame_blink [OF w(1) lay(10) u_def]
  have i: "fish_inv F G ps s" using assms(1) by (simp add: drawing_def)
  note iu = fish_inv_displays [OF i assms(2) pu(1) lay(3)]
  have e: "frame_add F G row col s = map_option snd (mp1_ioctl F ?p 0 u)"
  proof -
    have "load s (c0 G) \<noteq> blank \<and> load s (c0 G) \<noteq> newline \<or> load s (c1 G) \<noteq> blank \<and> load s (c1 G) \<noteq> newline"
      using False assms(8,9) by (auto split: if_splits)
    then show ?thesis unfolding u_def assms(8,9) frame_add_def Let_def by (simp only: if_True)
  qed
  let ?b = "blink_at u ?p"
  have loc: "location ?b = of_nat k" using pu(2) assms(3) by simp
  have nz: "location ?b \<noteq> 0"
  proof
    assume "location ?b = 0"
    then have "unat (of_nat k :: u16) = 0" using loc by simp
    then show False using u16_small [OF assms(4)] assms(5) by simp
  qed
  have small: "\<not> 2000 \<le> location ?b" using u16_small [OF assms(4)] assms(4) by (simp add: loc word_le_nat_alt)
  have wu: "world u" "load32 u (vmem_base_addr F) = VIDEO" "blinks_shown F ps u" using iu(1) by (simp_all add: fish_inv_def)
  note m = fish_blink_memory [OF wu(1) assms(2) wu(2)]
  have ab: "(0, started ?b # blink_values ps u, (screen_bytes F u)[2 * unat (location ?b) := on_char ?b]) =
      add_blink ?b (blink_values ps u, screen_bytes F u)" using small assms(6) by (simp add: add_blink_def blink_values_def)
  have "blink_list F ps u" using wu(3) by (simp add: blinks_shown_def)
  from add_refines [OF this m(2) nz ab] obtain qs t where t: "mp1_ioctl_add F ?p u = (0, t)" "blink_list F qs t"
      "blink_values qs t = started ?b # blink_values ps u" "screen_bytes F t = (screen_bytes F u)[2 * unat (location ?b) := on_char ?b]" "blink_frame F u t" by blast
  note rw = request_world [OF wu(1) assms(2) wu(2) t(5)]
  have sb: "started ?b = picture_blink (k, x, y)" using pu(2) w(4,5) loc by (simp add: started_def blink_value_def picture_blink_def)
  have bl: "blink_values qs t = picture_blink (k, x, y) # blink_values ps s" using t(3) sb iu(2) by simp
  have sh: "screen_bytes F t ! (2 * unat (location b)) = visible b" if b: "b \<in> set (blink_values qs t)" for b
  proof (cases "b = picture_blink (k, x, y)")
    case True
    then show ?thesis using t(4) loc pu(2) u16_small [OF assms(4)] assms(4) by (simp add: picture_blink_def visible_def screen_cell)
  next
    case F: False
    then have b': "b \<in> set (blink_values ps u)" using b t(3) sb by auto
    then have "location b \<in> location ` set (blink_values ps s)" using iu(2) by (intro imageI) simp
    then have "location b \<noteq> location ?b" using assms(7) loc by metis
    then have "unat (location ?b) \<noteq> unat (location b)" using unsigned_word_eqI by metis
    then show ?thesis using t(4) b' wu(3) by (simp add: value_parts)
  qed
  have "distinct (map location (blink_values qs t))" using bl assms(7) w(3) by (simp add: value_parts picture_blink_def)
  then have "blinks_shown F qs t" using t(2) sh by (simp add: value_parts)
  moreover have sw: "same_world s t" using same_world_trans [OF displays_same [OF pu(1)] rw(1)] .
  moreover have "load32 t (vmem_base_addr F) = VIDEO" using t(5) wu(2) by (simp add: blink_frame_def)
  moreover have keep: "read_bytes t a n = read_bytes u a n" if "(a, n) \<in> {(?p, 16), (c0 G, 1), (c1 G, 1)}" for a n
    by (rule rw(3)) (use that assms(2) in \<open>auto simp: fish_layout_def fish_areas_def\<close>)
  have "blink_at t ?p = ?b" by (rule blink_cong [OF keep]) simp
  moreover have "world t" using sw by (simp add: same_world_def)
  ultimately have "drawing F G qs t" using pu(2) w(4,5) by (simp add: drawing_def fish_inv_def)
  moreover have "load t c = load s c" if c: "c \<in> {c0 G, c1 G}" for c
  proof -
    have "load t c = load u c" using load_parts(1) [OF keep [of c 1]] c by auto
    also have "\<dots> = load s c" using displays_load_nth [OF pu(1), of c 1 0] c lay by auto
    finally show ?thesis .
  qed
  moreover have "frame_add F G row col s = Some t" using e t(1) by (simp add: mp1_ioctl_def)
  moreover have "machine.more u = machine.more s" by (simp add: u_def)
  then have "fds_of t = fds_of s" using rw(2) machine_more_sel [of u s] by (simp add: current_pcb_def)
  ultimately show ?thesis using sw bl False by auto
qed

section \<open>The positions of two pictures\<close>

text \<open>A position on the screen and its two characters, if they are not both blank.\<close>

definition spot :: "nat \<Rightarrow> u8 \<Rightarrow> u8 \<Rightarrow> (nat \<times> u8 \<times> u8) list" where
  "spot k x y = (if x = blank \<and> y = blank then [] else [(k, x, y)])"

fun row_spots :: "nat \<Rightarrow> u8 list \<Rightarrow> u8 list \<Rightarrow> (nat \<times> u8 \<times> u8) list" where
  "row_spots k [] [] = []"
| "row_spots k (x # l) [] = spot k x blank @ row_spots (k + 1) l []"
| "row_spots k [] (y # m) = spot k blank y @ row_spots (k + 1) [] m"
| "row_spots k (x # l) (y # m) = spot k x y @ row_spots (k + 1) l m"

text \<open>The first line of what is left of a file, and what is left after it; \<open>None\<close> is the end of the file.\<close>

definition first_line :: "u8 list option \<Rightarrow> u8 list" where
  "first_line a = (case a of None \<Rightarrow> [] | Some t \<Rightarrow> takeWhile (\<lambda>c. c \<noteq> newline) t)"

definition later_lines :: "u8 list option \<Rightarrow> u8 list option" where
  "later_lines a = (case a of None \<Rightarrow> None
     | Some t \<Rightarrow> if newline \<in> set t then Some (tl (dropWhile (\<lambda>c. c \<noteq> newline) t)) else None)"

definition left_over :: "u8 list option \<Rightarrow> nat" where
  "left_over a = (case a of None \<Rightarrow> 0 | Some t \<Rightarrow> Suc (length t))"

lemma left_over_less: "a \<noteq> None \<Longrightarrow> left_over (later_lines a) < left_over a"
proof -
  assume "a \<noteq> None"
  then obtain t where "a = Some t" by blast
  then show ?thesis using length_dropWhile_le [of "\<lambda>c. c \<noteq> newline" t] by (simp add: left_over_def later_lines_def less_Suc_eq_le)
qed

lemma left_over_le: "left_over (later_lines a) \<le> left_over a"
  using left_over_less [of a] by (cases a) (auto simp: later_lines_def less_imp_le)

function picture_spots :: "nat \<Rightarrow> u8 list option \<Rightarrow> u8 list option \<Rightarrow> (nat \<times> u8 \<times> u8) list" where
  "picture_spots row a b =
     (if a = None \<and> b = None then []
      else row_spots (row * 80 + 40) (first_line a) (first_line b) @ picture_spots (row + 1) (later_lines a) (later_lines b))"
  by pat_completeness auto
termination
proof (relation "measure (\<lambda>(row, a, b). left_over a + left_over b)")
  fix row :: nat and a b :: "u8 list option"
  assume "\<not> (a = None \<and> b = None)"
  then show "((row + 1, later_lines a, later_lines b), (row, a, b)) \<in> measure (\<lambda>(row, a, b). left_over a + left_over b)"
    using left_over_less [of a] left_over_less [of b] left_over_le [of a] left_over_le [of b] by (cases "a = None") auto
qed simp

declare picture_spots.simps [simp del]

definition spots_ok :: "(nat \<times> u8 \<times> u8) list \<Rightarrow> bool" where
  "spots_ok D \<longleftrightarrow> distinct (map fst D) \<and> (\<forall>k \<in> fst ` set D. 0 < k \<and> k < 2000)"

lemma spots_ok_prefix: "spots_ok (D @ E) \<Longrightarrow> spots_ok D"
  by (auto simp: spots_ok_def)

lemma spots_ok_length:
  assumes "spots_ok D"
  shows "length D < 2000"
proof -
  have "set (map fst D) \<subseteq> {1..<2000}" using assms by (auto simp: spots_ok_def)
  from card_mono [OF _ this] show ?thesis using assms distinct_card [of "map fst D"] by (simp add: spots_ok_def)
qed

text \<open>The list holds the positions \<open>D\<close>, the last one in front.\<close>

definition drawn :: "blink_link \<Rightarrow> fish_locals \<Rightarrow> (nat \<times> u8 \<times> u8) list \<Rightarrow> 'a kernel_scheme \<Rightarrow> bool" where
  "drawn F G D s \<longleftrightarrow> (\<exists>ps. drawing F G ps s \<and> blink_values ps s = map picture_blink (rev D))"

lemma drawn_displays:
  assumes "drawn F G D s" "fish_layout F G" "displays [] a n s t" "off_list F a n" "clear_of a n (frame_blink G) 16"
  shows "drawn F G D t"
  using assms(1) drawing_displays [OF _ assms(2-5)] unfolding drawn_def by metis

lemma drawn_world: "drawn F G D s \<Longrightarrow> world s"
  by (auto simp: drawn_def drawing_def fish_inv_def)

lemma picture_location: "location (picture_blink x) = of_nat (fst x)"
  by (simp add: picture_blink_def split: prod.split)

lemma drawn_add:
  fixes s :: "'a kernel_scheme"
  assumes "drawn F G D s" "fish_layout F G" "row * 80 + col + 40 = int k" "spots_ok (D @ spot k x y)"
    and "x = (if load s (c0 G) = newline then blank else load s (c0 G))" "y = (if load s (c1 G) = newline then blank else load s (c1 G))"
  shows "\<exists>t. frame_add F G row col s = Some t \<and> drawn F G (D @ spot k x y) t \<and> same_world s t \<and> fds_of t = fds_of s \<and>
    load t (c0 G) = load s (c0 G) \<and> load t (c1 G) = load s (c1 G)"
proof -
  obtain ps where ps: "drawing F G ps s" "blink_values ps s = map picture_blink (rev D)" using assms(1) by (auto simp: drawn_def)
  show ?thesis
  proof (cases "x = blank \<and> y = blank")
    case True
    then have "frame_add F G row col s = Some s" using assms(5,6) by (auto simp: frame_add_def Let_def split: if_splits)
    then show ?thesis using assms(1) True drawn_world [OF assms(1)] by (auto simp: spot_def same_world_refl)
  next
    case False
    then have "spot k x y = [(k, x, y)]" by (auto simp: spot_def)
    then have D: "spots_ok (D @ [(k, x, y)])" using assms(4) by simp
    then have k: "k < 2000" "0 < k" "k \<notin> fst ` set D" by (auto simp: spots_ok_def)
    have "length ps = length D" using arg_cong [OF ps(2), of length] by (simp add: blink_values_def)
    then have l: "length ps < 2000" using spots_ok_length [OF D] by simp
    have "(of_nat k :: u16) \<noteq> of_nat (fst p)" if "p \<in> set D" for p
    proof
      assume "(of_nat k :: u16) = of_nat (fst p)"
      then have "unat (of_nat k :: u16) = unat (of_nat (fst p) :: u16)" by simp
      moreover have "fst p < 2000" using D that by (auto simp: spots_ok_def)
      ultimately have "k = fst p" using u16_small k(1) by simp
      then show False using k(3) that by blast
    qed
    moreover have "location ` set (blink_values ps s) = (\<lambda>p. of_nat (fst p)) ` set D" by (simp add: ps(2) image_image picture_location)
    ultimately have n: "of_nat k \<notin> location ` set (blink_values ps s)" by (simp only: image_iff) blast
    from frame_add_adds [OF ps(1) assms(2,3) k(1,2) l n assms(5,6)] obtain t qs where
      "frame_add F G row col s = Some t" "drawing F G qs t" "same_world s t" "fds_of t = fds_of s"
      "load t (c0 G) = load s (c0 G)" "load t (c1 G) = load s (c1 G)"
      "blink_values qs t = picture_blink (k, x, y) # blink_values ps s" using False by auto
    then show ?thesis using False ps(2) by (auto simp: drawn_def spot_def)
  qed
qed

section \<open>Reading the pictures\<close>

definition head :: "u8 list \<Rightarrow> u8" where
  "head l = (case l of [] \<Rightarrow> blank | x # _ \<Rightarrow> x)"

lemma row_spots_step:
  "row_spots k l m = (if l = [] \<and> m = [] then [] else spot k (head l) (head m) @ row_spots (k + 1) (tl l) (tl m))"
  by (cases l; cases m) (simp_all add: head_def)

lemma reader_over: "reader s fd ino c l r eof \<Longrightarrow> load s c = newline \<Longrightarrow> line_over s fd ino c r eof"
  by (auto simp: reader_def line_read_def)

lemma reader_line: "reader s fd ino c l r eof \<Longrightarrow> newline \<notin> set l"
  by (auto simp: reader_def line_read_def)

definition other_fds :: "nat \<Rightarrow> nat \<Rightarrow> 'a kernel_scheme \<Rightarrow> 'a kernel_scheme \<Rightarrow> bool" where
  "other_fds i j s t \<longleftrightarrow> (\<forall>k. k \<noteq> i \<longrightarrow> k \<noteq> j \<longrightarrow> fds_of t k = fds_of s k)"

text \<open>Both characters of the next position.\<close>

lemma two_chars:
  fixes s :: "'a kernel_scheme"
  assumes "drawn F G D s" "fish_layout F G" "i \<noteq> j" "reader s i ino (c0 G) l r e0" "reader s j jno (c1 G) m q e1"
  shows "\<exists>e0' e1' t u. frame_char U env (int i) (c0 G) e0 s = Some (e0', u) \<and> frame_char U env (int j) (c1 G) e1 u = Some (e1', t) \<and>
    drawn F G D t \<and> same_world s t \<and> other_fds i j s t \<and>
    reader t i ino (c0 G) (tl l) r e0' \<and> reader t j jno (c1 G) (tl m) q e1' \<and>
    load t (c0 G) = (case l of [] \<Rightarrow> newline | x # _ \<Rightarrow> x) \<and> load t (c1 G) = (case m of [] \<Rightarrow> newline | x # _ \<Rightarrow> x)"
proof -
  note lay = fish_parts [OF assms(2)]
  obtain e0' u where u: "frame_char U env (int i) (c0 G) e0 s = Some (e0', u)" "displays [] (c0 G) 1 s u" "same_fds i s u"
      "load u (c0 G) = (case l of [] \<Rightarrow> newline | x # _ \<Rightarrow> x)" "reader u i ino (c0 G) (tl l) r e0'"
    using frame_char_reads [OF drawn_world [OF assms(1)] lay(8) assms(4)] by blast
  note du = drawn_displays [OF assms(1,2) u(2) lay(1,4)]
  have "fds_of u j = fds_of s j" using u(3) assms(3) by (simp add: same_fds_def)
  moreover have "load u (c1 G) = load s (c1 G)" using displays_load_nth [OF u(2) lay(9,6), of 0] by simp
  ultimately have "reader u j jno (c1 G) m q e1" using reader_kept [OF assms(5) displays_same [OF u(2)]] by simp
  then obtain e1' t where t: "frame_char U env (int j) (c1 G) e1 u = Some (e1', t)" "displays [] (c1 G) 1 u t" "same_fds j u t"
      "load t (c1 G) = (case m of [] \<Rightarrow> newline | x # _ \<Rightarrow> x)" "reader t j jno (c1 G) (tl m) q e1'"
    using frame_char_reads [OF drawn_world [OF du] lay(9)] by blast
  note dt = drawn_displays [OF du assms(2) t(2) lay(2,5)]
  have "fds_of t i = fds_of u i" using t(3) assms(3) by (simp add: same_fds_def)
  moreover have l0: "load t (c0 G) = load u (c0 G)" using displays_load_nth [OF t(2) lay(8,7), of 0] by simp
  ultimately have "reader t i ino (c0 G) (tl l) r e0'" using reader_kept [OF u(5) displays_same [OF t(2)]] by simp
  moreover have "other_fds i j s t" using u(3) t(3) by (auto simp: other_fds_def same_fds_def)
  moreover have "same_world s t" using same_world_trans [OF displays_same [OF u(2)] displays_same [OF t(2)]] .
  ultimately show ?thesis using u(1,4) t(1,4,5) dt l0 by auto
qed

lemma frame_cols_draws:
  fixes s :: "'a kernel_scheme"
  assumes "drawn F G D s" "fish_layout F G" "i \<noteq> j" "reader s i ino (c0 G) l r e0" "reader s j jno (c1 G) m q e1"
    and "row * 80 + col + 40 = int k" "spots_ok (D @ row_spots k l m)"
  shows "\<exists>e0' e1' t. frame_cols U env F G (int i) (int j) row col e0 e1 s = Some (e0', e1', t) \<and>
    drawn F G (D @ row_spots k l m) t \<and> same_world s t \<and> other_fds i j s t \<and>
    line_over t i ino (c0 G) r e0' \<and> line_over t j jno (c1 G) q e1'"
  using assms
proof (induction "length l + length m" arbitrary: D s l m e0 e1 col k rule: less_induct)
  case less
  obtain f0 f1 t u where t: "frame_char U env (int i) (c0 G) e0 s = Some (f0, u)" "frame_char U env (int j) (c1 G) e1 u = Some (f1, t)"
      "drawn F G D t" "same_world s t" "other_fds i j s t" "reader t i ino (c0 G) (tl l) r f0" "reader t j jno (c1 G) (tl m) q f1"
      "load t (c0 G) = (case l of [] \<Rightarrow> newline | x # _ \<Rightarrow> x)" "load t (c1 G) = (case m of [] \<Rightarrow> newline | x # _ \<Rightarrow> x)"
    using two_chars [OF less.prems(1-5)] by blast
  have nl: "newline \<notin> set l" "newline \<notin> set m" using reader_line less.prems(4,5) by blast+
  show ?case
  proof (cases "l = [] \<and> m = []")
    case True
    then have "frame_cols U env F G (int i) (int j) row col e0 e1 s = Some (f0, f1, t)"
      using t(1,2,8,9) by (simp add: frame_cols.simps)
    then show ?thesis using True t reader_over by fastforce
  next
    case False
    have over: "load t (c0 G) = newline \<longleftrightarrow> l = []" "load t (c1 G) = newline \<longleftrightarrow> m = []" using t(8,9) nl by (cases l; cases m; simp; blast)+
    have h: "head l = (if load t (c0 G) = newline then blank else load t (c0 G))" "head m = (if load t (c1 G) = newline then blank else load t (c1 G))"
      using over t(8,9) by (auto simp: head_def split: list.splits)
    have rs: "row_spots k l m = spot k (head l) (head m) @ row_spots (k + 1) (tl l) (tl m)" using row_spots_step [of k l m] unfolding if_not_P [OF False] .
    have ok: "spots_ok (D @ spot k (head l) (head m))" using less.prems(7) unfolding rs by (metis append.assoc spots_ok_prefix)
    obtain v where v: "frame_add F G row col t = Some v" "drawn F G (D @ spot k (head l) (head m)) v" "same_world t v" "fds_of v = fds_of t"
        "load v (c0 G) = load t (c0 G)" "load v (c1 G) = load t (c1 G)" using drawn_add [OF t(3) assms(2) less.prems(6) ok h] by blast
    have rv: "reader v i ino (c0 G) (tl l) r f0" "reader v j jno (c1 G) (tl m) q f1"
      using reader_kept [OF t(6) v(3)] reader_kept [OF t(7) v(3)] v(4-6) by simp_all
    have len: "length (tl l) + length (tl m) < length l + length m" using False by (cases l; cases m) auto
    have k: "row * 80 + (col + 1) + 40 = int (k + 1)" using less.prems(6) by simp
    have ok': "spots_ok ((D @ spot k (head l) (head m)) @ row_spots (k + 1) (tl l) (tl m))" using less.prems(7) by (simp add: rs)
    obtain g0 g1 w where w: "frame_cols U env F G (int i) (int j) row (col + 1) f0 f1 v = Some (g0, g1, w)"
        "drawn F G ((D @ spot k (head l) (head m)) @ row_spots (k + 1) (tl l) (tl m)) w" "same_world v w" "other_fds i j v w"
        "line_over w i ino (c0 G) r g0" "line_over w j jno (c1 G) q g1"
      using less.hyps [OF len v(2) assms(2,3) rv k ok'] by blast
    have "frame_cols U env F G (int i) (int j) row col e0 e1 s = Some (g0, g1, w)"
      using t(1,2) over False v(1) w(1) by (subst frame_cols.simps) auto
    moreover have "same_world s w" using t(4) v(3) w(3) same_world_trans by blast
    moreover have "other_fds i j s w" using t(5) v(4) w(4) by (auto simp: other_fds_def)
    ultimately show ?thesis using w(2,5,6) by (auto simp: rs)
  qed
qed

text \<open>Between two rows: \<open>a\<close> is what is left of a file, \<open>None\<close> if its end has been reached.\<close>

definition row_start :: "'a kernel_scheme \<Rightarrow> nat \<Rightarrow> u32 \<Rightarrow> u32 \<Rightarrow> u8 list option \<Rightarrow> int \<Rightarrow> bool" where
  "row_start s fd ino c a eof \<longleftrightarrow>
     (case a of None \<Rightarrow> load s c = newline \<and> eof = 1
      | Some t \<Rightarrow> load s c \<noteq> newline \<and> eof = 0 \<and> (\<exists>pos. reads_file s fd ino pos \<and> drop pos (file_of s ino) = t))"

lemma first_later: "t = first_line (Some t) @ (case later_lines (Some t) of None \<Rightarrow> [] | Some u \<Rightarrow> newline # u)"
proof (cases "newline \<in> set t")
  case True
  then have "dropWhile (\<lambda>c. c \<noteq> newline) t \<noteq> []" by (auto simp: dropWhile_eq_Nil_conv)
  then have "dropWhile (\<lambda>c. c \<noteq> newline) t = newline # tl (dropWhile (\<lambda>c. c \<noteq> newline) t)"
    using hd_dropWhile [of "\<lambda>c. c \<noteq> newline" t] by (cases "dropWhile (\<lambda>c. c \<noteq> newline) t") auto
  then show ?thesis using takeWhile_dropWhile_id [of "\<lambda>c. c \<noteq> newline" t] True by (simp add: first_line_def later_lines_def)
next
  case False
  then have tw: "takeWhile (\<lambda>c. c \<noteq> newline) t = t" unfolding takeWhile_eq_all_conv by auto
  show ?thesis unfolding first_line_def later_lines_def by (simp only: option.case False if_False append_Nil2 tw)
qed

lemma row_start_reader: "row_start s fd ino c a eof \<Longrightarrow> reader s fd ino c (first_line a) (later_lines a) eof"
proof (cases a)
  case None
  then show "row_start s fd ino c a eof \<Longrightarrow> reader s fd ino c (first_line a) (later_lines a) eof"
    by (simp add: row_start_def reader_def line_over_def first_line_def later_lines_def)
next
  case (Some t)
  moreover have "newline \<notin> set (first_line (Some t))" by (auto simp: first_line_def dest: set_takeWhileD)
  ultimately show "row_start s fd ino c a eof \<Longrightarrow> reader s fd ino c (first_line a) (later_lines a) eof"
    using first_later [of t] by (auto simp: row_start_def reader_def line_read_def)
qed

lemma row_start_kept:
  assumes "row_start s fd ino c a eof" "same_world s t" "fds_of t fd = fds_of s fd" "load t c = load s c"
  shows "row_start t fd ino c a eof"
  using assms reads_file_kept [OF _ assms(2,3)] unfolding row_start_def by (fastforce split: option.splits)

lemma frame_line_end_step:
  fixes s :: "'a kernel_scheme"
  assumes "world s" "in_user c 1" "2 \<le> fd" "fd < 8" "line_over s fd ino c r eof"
  shows "\<exists>t. frame_line_end U (int fd) c eof s = Some t \<and> displays [] c 1 s t \<and> row_start t fd ino c r eof \<and> (\<forall>k. k \<noteq> fd \<longrightarrow> fds_of t k = fds_of s k)"
proof (cases r)
  case None
  then have e: "eof = 1" using assms(5) by (simp add: line_over_def)
  let ?u = "store c newline s"
  note d = store_user [OF assms(1,2), of newline]
  obtain x t where t: "ece391_close U (int fd) ?u = Some (x, t)" "displays [] c 0 ?u t" "\<forall>k. k \<noteq> fd \<longrightarrow> fds_of t k = fds_of ?u k"
    using close_open [OF displays_world [OF d] assms(3,4)] by blast
  have "load t c = newline" using displays_load [OF t(2) assms(2)] by (simp add: load_store)
  then have "row_start t fd ino c r eof" using None e by (simp add: row_start_def)
  moreover have "displays [] c 1 s t" using displays_trans [OF d displays_mono [OF t(2)]] by simp
  ultimately show ?thesis using t(1,3) e by (auto simp: frame_line_end_def)
next
  case (Some u)
  then obtain pos where p: "eof = 0" "reads_file s fd ino pos" "drop pos (file_of s ino) = u" using assms(5) by (auto simp: line_over_def)
  let ?t = "store c 0x30 s"
  note d = store_user [OF assms(1,2), of "0x30"]
  have "reads_file ?t fd ino pos \<and> file_of ?t ino = file_of s ino" by (rule reads_file_kept [OF p(2) displays_same [OF d]]) simp
  then have "row_start ?t fd ino c r eof" using Some p by (auto simp: row_start_def load_store)
  then show ?thesis using d p(1) by (auto simp: frame_line_end_def)
qed

lemma frame_rows_draws:
  fixes s :: "'a kernel_scheme"
  assumes "drawn F G D s" "fish_layout F G" "i \<noteq> j" "2 \<le> i" "i < 8" "2 \<le> j" "j < 8" "row_start s i ino (c0 G) a e0" "row_start s j jno (c1 G) b e1"
    and "spots_ok (D @ picture_spots row a b)"
  shows "\<exists>t. frame_rows U env F G (int i) (int j) (int row) e0 e1 s = Some t \<and> drawn F G (D @ picture_spots row a b) t \<and> same_world s t \<and>
    other_fds i j s t"
  using assms
proof (induction row a b arbitrary: D s e0 e1 rule: picture_spots.induct)
  case (1 row a b)
  note lay = fish_parts [OF assms(2)]
  have over: "e0 = 0 \<or> e1 = 0 \<longleftrightarrow> \<not> (a = None \<and> b = None)" using "1.prems"(8,9) by (auto simp: row_start_def split: option.splits)
  show ?case
  proof (cases "a = None \<and> b = None")
    case True
    then have "frame_rows U env F G (int i) (int j) (int row) e0 e1 s = Some s" using over by (subst frame_rows.simps) simp
    moreover have "picture_spots row a b = []" using True by (subst picture_spots.simps) simp
    ultimately show ?thesis using "1.prems"(1) drawn_world [OF "1.prems"(1)] by (auto simp: same_world_refl other_fds_def)
  next
    case False
    let ?R = "row_spots (row * 80 + 40) (first_line a) (first_line b)" and ?P = "picture_spots (row + 1) (later_lines a) (later_lines b)"
    have ps: "picture_spots row a b = ?R @ ?P" using False by (subst picture_spots.simps) (simp only: if_False)
    have ok: "spots_ok (D @ ?R)" using "1.prems"(10) unfolding ps by (metis append.assoc spots_ok_prefix)
    have k: "int row * 80 + 0 + 40 = int (row * 80 + 40)" by simp
    obtain f0 f1 t where t: "frame_cols U env F G (int i) (int j) (int row) 0 e0 e1 s = Some (f0, f1, t)" "drawn F G (D @ ?R) t" "same_world s t"
        "other_fds i j s t"
        "line_over t i ino (c0 G) (later_lines a) f0" "line_over t j jno (c1 G) (later_lines b) f1"
      using frame_cols_draws [OF "1.prems"(1,2,3) row_start_reader [OF "1.prems"(8)] row_start_reader [OF "1.prems"(9)] k ok] by blast
    obtain u where u: "frame_line_end U (int i) (c0 G) f0 t = Some u" "displays [] (c0 G) 1 t u" "row_start u i ino (c0 G) (later_lines a) f0"
        "\<forall>k. k \<noteq> i \<longrightarrow> fds_of u k = fds_of t k"
      using frame_line_end_step [OF drawn_world [OF t(2)] lay(8) assms(4,5) t(5)] by blast
    have "reader u j jno (c1 G) [] (later_lines b) f1"
      by (rule reader_kept [OF _ displays_same [OF u(2)]]) (use t(6) u(4) assms(3) displays_load_nth [OF u(2) lay(9,6), of 0] in \<open>auto simp: reader_def\<close>)
    moreover have "load u (c1 G) = newline" using displays_load_nth [OF u(2) lay(9,6), of 0] t(6) by (simp add: line_over_def)
    ultimately have "line_over u j jno (c1 G) (later_lines b) f1" by (rule reader_over)
    then obtain v where v: "frame_line_end U (int j) (c1 G) f1 u = Some v" "displays [] (c1 G) 1 u v" "row_start v j jno (c1 G) (later_lines b) f1"
        "\<forall>k. k \<noteq> j \<longrightarrow> fds_of v k = fds_of u k"
      using frame_line_end_step [OF displays_world [OF u(2)] lay(9) assms(6,7)] by blast
    have rv: "row_start v i ino (c0 G) (later_lines a) f0"
      by (rule row_start_kept [OF u(3) displays_same [OF v(2)]]) (use v(4) assms(3) displays_load_nth [OF v(2) lay(8,7), of 0] in auto)
    have dv: "drawn F G (D @ ?R) v" using drawn_displays [OF drawn_displays [OF t(2) assms(2) u(2) lay(1,4)] assms(2) v(2) lay(2,5)] .
    have ok': "spots_ok ((D @ ?R) @ ?P)" using "1.prems"(10) by (simp add: ps)
    obtain w where w: "frame_rows U env F G (int i) (int j) (int (row + 1)) f0 f1 v = Some w" "drawn F G ((D @ ?R) @ ?P) w" "same_world v w" "other_fds i j v w"
      using "1.IH" [OF False dv assms(2-7) rv v(3) ok'] by blast
    have "frame_rows U env F G (int i) (int j) (int row) e0 e1 s = Some w"
      using over False t(1) u(1) v(1) w(1) by (subst frame_rows.simps) (simp add: add.commute)
    moreover have "same_world s w" using same_world_trans [OF t(3) same_world_trans [OF displays_same [OF u(2)] same_world_trans [OF displays_same [OF v(2)] w(3)]]] .
    moreover have "other_fds i j s w" using t(4) u(4) v(4) w(4) unfolding other_fds_def by metis
    ultimately show ?thesis using w(2) by (simp add: ps)
  qed
qed

section \<open>The program shows its pictures\<close>

text \<open>Two descriptors are free.\<close>

definition two_free :: "'a kernel_scheme \<Rightarrow> bool" where
  "two_free s \<longleftrightarrow> (\<forall>i. \<not> {2..<8} \<subseteq> insert i (in_use (fds_of s)))"

lemma in_use_insert: "in_use (f(i := opened d s)) \<subseteq> insert i (in_use f)"
  by (auto simp: in_use_def)

text \<open>A constant text, out of the way of the data that is written.\<close>

definition fish_writes :: "blink_link \<Rightarrow> fish_locals \<Rightarrow> (u32 \<times> nat) list" where
  "fish_writes F G = [(blink_array F, 32000), (vmem_base_addr F, 4), (c0 G, 1), (c1 G, 1), (frame_blink G, 16)]"

definition fish_text :: "blink_link \<Rightarrow> fish_locals \<Rightarrow> u32 \<Rightarrow> u8 list \<Rightarrow> 'a kernel_scheme \<Rightarrow> bool" where
  "fish_text F G p w s \<longleftrightarrow> cstr s p w \<and> in_user p (Suc (length w)) \<and> list_all (\<lambda>(a, n). clear_of a n p (Suc (length w))) (fish_writes F G)"

lemma fish_text_kept:
  assumes "fish_text F G p w s" "displays [] a n s t" "(a, n) \<in> set (fish_writes F G) \<or> n = 0"
  shows "fish_text F G p w t"
proof -
  have "clear_of a n p (Suc (length w))" using assms(1,3) by (auto simp: fish_text_def list_all_iff clear_of_def)
  then have "cstr t p w" using displays_cstr [OF assms(2)] assms(1) by (simp add: fish_text_def)
  then show ?thesis using assms(1) by (simp add: fish_text_def)
qed

lemma add_frames_draws:
  fixes s :: "'a kernel_scheme"
  assumes "fish_inv F G [] s" "fish_layout F G" "two_free s" "fish_text F G (file0 G) w0 s" "fish_text F G (file1 G) w1 s"
    and "lookup s (take 32 w0) = Some d0" "filetype d0 = 2" "file_ok s (inode d0)"
    and "lookup s (take 32 w1) = Some d1" "filetype d1 = 2" "file_ok s (inode d1)"
    and "D = picture_spots 0 (Some (file_of s (inode d0))) (Some (file_of s (inode d1)))" "spots_ok D"
  shows "\<exists>t. add_frames U env F G s = Some (Inr t) \<and> drawn F G D t \<and> same_world s t \<and> (\<forall>k \<in> in_use (fds_of s). fds_of t k = fds_of s k)"
proof -
  note lay = fish_parts [OF assms(2)] let ?b = "frame_blink G"
  have ws: "world s" using assms(1) by (simp add: fish_inv_def)
  define s1 where "s1 = store (c0 G) 0x30 s"
  define s2 where "s2 = store (c1 G) 0x30 s1"
  define s3 where "s3 = store16 (?b + 4) 15 s2"
  define s4 where "s4 = store16 (?b + 6) 15 s3"
  have e1: "displays [] (c0 G) 1 s s1" unfolding s1_def by (rule store_user [OF ws lay(8)])
  have e2: "displays [] (c1 G) 1 s1 s2" unfolding s2_def by (rule store_user [OF displays_world [OF e1] lay(9)])
  have wr: "displays [] ?b 16 u (store16 (?b + of_nat k) v u)" if "world u" "k + 2 \<le> 16" for u :: "'a kernel_scheme" and k v
  proof -
    have "displays [] (?b + of_nat k) 2 u (store16 (?b + of_nat k) v u)"
      unfolding store16_def by (rule write_user [OF that(1) in_user_shift [OF lay(10)]]) (use that(2) in simp_all)
    then show ?thesis by (rule displays_wider) (use unat_user [OF lay(10), of k] that(2) in simp_all)
  qed
  have e3: "displays [] ?b 16 s2 s3" using wr [OF displays_world [OF e2], of 4 15] by (simp add: s3_def)
  have e4: "displays [] ?b 16 s3 s4" using wr [OF displays_world [OF e3], of 6 15] by (simp add: s4_def)
  note i1 = fish_inv_displays [OF assms(1,2) e1 lay(1)]
  note i2 = fish_inv_displays [OF i1(1) assms(2) e2 lay(2)]
  note i3 = fish_inv_displays [OF i2(1) assms(2) e3 lay(3)]
  note i4 = fish_inv_displays [OF i3(1) assms(2) e4 lay(3)]
  have w4: "world s4" using displays_world [OF e4] .
  have sw: "same_world s s4" using displays_same [OF e1] displays_same [OF e2] displays_same [OF e3] displays_same [OF e4] same_world_trans by blast
  have sp: "spread u ?b 16" if "world u" for u :: "'a kernel_scheme" using user_area(1) [OF that lay(10)] .
  have "blink_at s4 ?b = (blink_at s2 ?b)\<lparr>on_length := 15, off_length := 15\<rparr>"
    using blink_fields(2) [OF sp [OF displays_world [OF e3]], of 15] blink_fields(1) [OF sp [OF displays_world [OF e2]], of 15] by (simp add: s4_def s3_def)
  then have dr: "drawn F G [] s4" using i4(1) by (auto simp: drawn_def drawing_def blink_values_def intro!: exI [of _ "[]"])
  have c4: "load s4 (c0 G) = 0x30" "load s4 (c1 G) = 0x30"
    using displays_load_nth [OF e4 lay(8,11), of 0] displays_load_nth [OF e3 lay(8,11), of 0] displays_load_nth [OF e2 lay(8,7), of 0]
      displays_load_nth [OF e4 lay(9,12), of 0] displays_load_nth [OF e3 lay(9,12), of 0] by (simp_all add: s1_def s2_def load_store)
  have nm: "fish_text F G p w s4" if "fish_text F G p w s" for p w
    by (rule fish_text_kept [OF fish_text_kept [OF fish_text_kept [OF fish_text_kept [OF that e1] e2] e3] e4]) (simp_all add: fish_writes_def)
  have fds4: "fds_of s4 = fds_of s"
    using machine_more_sel [of s4 s] by (simp add: s1_def s2_def s3_def s4_def current_pcb_def)
  have look: "lookup s4 w = lookup s w" for w by (rule lookup_same [OF sw ws])
  have op: "\<exists>i t. ece391_open U p u = Some (int i, t) \<and> 2 \<le> i \<and> i < 8 \<and> i \<notin> in_use (fds_of u) \<and> displays [] x 0 u t \<and> fds_of t = (fds_of u)(i := opened d u)"
    if "world u" "fish_text F G p w u" "lookup u (take 32 w) = Some d" "filetype d = 2" "fd_free u" for u :: "'a kernel_scheme" and p w d x
  proof (rule open_user [OF that(1)])
    show "in_user p 1" using that(2) by (auto simp: fish_text_def intro: in_user_mono)
    show "lookup u (field_text u p 32) = Some d" using cstr_field_text [of u p w 32] that(2,3) by (simp add: fish_text_def)
  qed (use that in simp_all)
  have "fd_free s4" using assms(3) unfolding fd_free_def two_free_def fds4 by blast
  then obtain i t where t: "ece391_open U (file0 G) s4 = Some (int i, t)" "2 \<le> i" "i < 8" "i \<notin> in_use (fds_of s4)" "displays [] ?b 0 s4 t"
      "fds_of t = (fds_of s4)(i := opened d0 s4)" using op [OF w4 nm [OF assms(4)] _ assms(7)] assms(6) look by metis
  have sw4: "same_world s4 t" using displays_same [OF t(5)] .
  have wt: "world t" using displays_world [OF t(5)] .
  have "fd_free t" using assms(3) in_use_insert [of "fds_of s4" i d0 s4] unfolding fd_free_def two_free_def fds4 t(6) by blast
  moreover have "lookup t (take 32 w1) = Some d1" using lookup_same [OF sw4 w4] look assms(9) by simp
  ultimately obtain j u where u: "ece391_open U (file1 G) t = Some (int j, u)" "2 \<le> j" "j < 8" "j \<notin> in_use (fds_of t)" "displays [] ?b 0 t u"
      "fds_of u = (fds_of t)(j := opened d1 t)" using op [OF wt fish_text_kept [OF nm [OF assms(5)] t(5)] _ assms(10)] by metis
  have sfu: "same_world s u" using sw sw4 displays_same [OF u(5)] same_world_trans by blast
  have "i \<in> in_use (fds_of t)" using t(3) by (simp add: t(6) in_use_def opened_def)
  then have ij: "i \<noteq> j" using u(4) by blast
  have f0: "file_ok s4 (inode d0)" "file_of s4 (inode d0) = file_of s (inode d0)" using same_world_file [OF sw assms(8)] by simp_all
  have f1: "file_ok t (inode d1)" "file_of t (inode d1) = file_of s (inode d1)" using same_world_file [OF same_world_trans [OF sw sw4] assms(11)] by simp_all
  have r0: "reads_file t i (inode d0) 0" by (rule opened_file [OF sw4 _ assms(7) t(3) f0(1)]) (simp add: t(6))
  have "file_of t (inode d0) = file_of s (inode d0)" using same_world_file [OF sw4 f0(1)] f0(2) by simp
  moreover have "reads_file u i (inode d0) 0 \<and> file_of u (inode d0) = file_of t (inode d0)"
    by (rule reads_file_kept [OF r0 displays_same [OF u(5)]]) (use ij u(6) in simp)
  moreover have r1: "reads_file u j (inode d1) 0" by (rule opened_file [OF displays_same [OF u(5)] _ assms(10) u(3) f1(1)]) (simp add: u(6))
  moreover have "file_of u (inode d1) = file_of s (inode d1)" using same_world_file [OF displays_same [OF u(5)] f1(1)] f1(2) by simp
  moreover have "load u x = load s4 x" if "x \<in> {c0 G, c1 G}" for x
    using displays_load [OF u(5), of x] displays_load [OF t(5), of x] that lay(8,9) le_less_linear [of "unat ?b" "unat x"] by auto
  then have "load u (c0 G) = 0x30" "load u (c1 G) = 0x30" using c4 by simp_all
  ultimately have rs: "row_start u i (inode d0) (c0 G) (Some (file_of s (inode d0))) 0" "row_start u j (inode d1) (c1 G) (Some (file_of s (inode d1))) 0"
    by (auto simp: row_start_def intro!: exI [of _ 0])
  have z: "off_list F ?b 0" "clear_of ?b 0 ?b 16" by (simp_all add: off_list_def clear_of_def)
  have du: "drawn F G [] u" using drawn_displays [OF drawn_displays [OF dr assms(2) t(5) z] assms(2) u(5) z] .
  have ok: "spots_ok ([] @ picture_spots 0 (Some (file_of s (inode d0))) (Some (file_of s (inode d1))))" using assms(12,13) by simp
  obtain v where v: "frame_rows U env F G (int i) (int j) (int 0) 0 0 u = Some v" "drawn F G D v" "same_world u v" "other_fds i j u v"
    using frame_rows_draws [OF du assms(2) ij t(2,3) u(2,3) rs ok] assms(12) by auto
  have "add_frames U env F G s = Some (Inr v)"
    using t(1) u(1) v(1) by (simp add: add_frames_def Let_def s1_def [symmetric] s2_def [symmetric] s3_def [symmetric] s4_def [symmetric])
  moreover have "fds_of v k = fds_of s k" if "k \<in> in_use (fds_of s)" for k
  proof -
    have "k \<noteq> i" using that t(4) fds4 by auto
    moreover have "k \<noteq> j" using that u(4) fds4 \<open>k \<noteq> i\<close> by (auto simp: t(6) in_use_def)
    ultimately show ?thesis using v(4) by (simp add: other_fds_def u(6) t(6) fds4)
  qed
  ultimately show ?thesis using v(2) same_world_trans [OF sfu v(3)] by blast
qed

end
