(* ===== verification/Fish_Run.thy ===== *)
theory Fish_Run
  imports Fish_Properties User_Pingpong User_Grep_All
begin

text \<open>
  The program \<^verbatim>\<open>fish\<close> from its start to its end: the list is empty after the first lines of \<^verbatim>\<open>main\<close>, every tick of
  the clock is one tick of every blink, the pictures alternate on the screen, and \<^verbatim>\<open>main\<close> returns 0.
\<close>

section \<open>Ticks of the clock\<close>

lemma fish_live_request:
  fixes s :: "'a kernel_scheme"
  assumes "fish_live F ps s" "fish_layout F G" "blink_frame F s t" "blink_list F qs t"
  shows "fish_live F qs t" "same_world s t" "fds_of t = fds_of s"
proof -
  have w: "world s" "load32 s (vmem_base_addr F) = VIDEO" using assms(1) by (simp_all add: fish_live_def)
  note r = request_world [OF w(1) assms(2) w(2) assms(3)]
  show "same_world s t" "fds_of t = fds_of s" by (fact r(1), fact r(2))
  have "load32 t (vmem_base_addr F) = VIDEO" using assms(3) w(2) by (simp add: blink_frame_def)
  then show "fish_live F qs t" using r(1) assms(4) by (simp add: fish_live_def same_world_def)
qed

lemma off_nothing: "off_list F a 0"
  by (simp add: off_list_def clear_of_def)

lemma fish_read_rtc:
  fixes s :: "'a kernel_scheme"
  assumes "world s" "ticks env" "reads_rtc s fd" "in_user (garbage G) 4"
  shows "\<exists>t. ece391_read U env (int fd) (garbage G) 4 s = Some (0, t) \<and> displays [] 0 0 s t \<and> fds_of t = fds_of s"
  using read_user_rtc [OF assms(1,2), of fd "garbage G" 4] assms(3) in_user_mono [OF assms(4), of 1] by (simp add: reads_rtc_def)

lemma fish_ticks_live:
  fixes s :: "'a kernel_scheme"
  assumes "fish_live F ps s" "fish_layout F G" "ticks env" "reads_rtc s fd" "in_user (garbage G) 4"
  shows "\<exists>t. fish_ticks U env F G (int fd) n s = Some t \<and> fish_live F ps t \<and> same_world s t \<and> fds_of t = fds_of s"
  using assms(1,4)
proof (induction n arbitrary: s)
  case 0
  then show ?case by (simp add: fish_live_def same_world_refl)
next
  case (Suc n)
  have w: "world s" using Suc.prems(1) by (simp add: fish_live_def)
  obtain u where u: "ece391_read U env (int fd) (garbage G) 4 s = Some (0, u)" "displays [] 0 0 s u" "fds_of u = fds_of s"
    using fish_read_rtc [OF w assms(3) Suc.prems(2) assms(5)] by blast
  have lu: "fish_live F ps u" by (rule fish_live_displays(1) [OF Suc.prems(1) assms(2) u(2) off_nothing])
  then obtain v where v: "mp1_rtc_tasklet F u = Some v" "blink_list F ps v" "blink_frame F u v"
    using tasklet_ticks [of F ps u] by (auto simp: fish_live_def)
  note lv = fish_live_request [OF lu assms(2) v(3,2)]
  have "reads_rtc v fd" using Suc.prems(2) u(3) lv(3) by (simp add: reads_rtc_def)
  from Suc.IH [OF lv(1) this] obtain t where t: "fish_ticks U env F G (int fd) n v = Some t" "fish_live F ps t" "same_world v t" "fds_of t = fds_of v"
    by blast
  have "same_world s t" by (rule same_world_trans [OF displays_same [OF u(2)] same_world_trans [OF lv(2) t(3)]])
  then show ?case using u(1,3) v(1) lv(3) t by simp
qed

section \<open>The pictures alternate\<close>

text \<open>A position of the pictures after \<open>n\<close> ticks.\<close>

definition picture_at :: "nat \<Rightarrow> nat \<times> u8 \<times> u8 \<Rightarrow> blink \<Rightarrow> bool" where
  "picture_at n p b \<longleftrightarrow> location b = of_nat (fst p) \<and> on_char b = fst (snd p) \<and> off_char b = snd (snd p) \<and>
     on_length b = 15 \<and> off_length b = 15 \<and> in_phase (n mod 30) b"

lemma picture_start: "picture_at 0 p (picture_blink p)"
  by (cases p) (simp add: picture_at_def picture_blink_def in_phase_def lengths_ok_def period_def)

lemma picture_value [simp]: "picture_at n p (blink_value b) = picture_at n p b"
  by (simp add: picture_at_def blink_value_def in_phase_def lengths_ok_def period_def)

lemma tick_picture: "picture_at n p b \<Longrightarrow> picture_at (Suc n) p (fst (tick b))"
  using tick_phase [of "n mod 30" b] by (simp add: picture_at_def period_def mod_Suc_eq)

definition showing :: "blink_link \<Rightarrow> fish_locals \<Rightarrow> nat \<Rightarrow> (nat \<times> u8 \<times> u8) list \<Rightarrow> 'a kernel_scheme \<Rightarrow> bool" where
  "showing F G n D s \<longleftrightarrow> (\<exists>ps. fish_inv F G ps s \<and> list_all2 (picture_at n) (rev D) (blink_values ps s))"

lemma drawn_showing: "drawn F G D s \<Longrightarrow> showing F G 0 D s"
  by (auto simp: drawn_def drawing_def showing_def list_all2_map2 picture_start list_all2_same)

lemma tasklet_showing:
  fixes s :: "'a kernel_scheme"
  assumes "showing F G n D s" "fish_layout F G"
  shows "\<exists>t. mp1_rtc_tasklet F s = Some t \<and> showing F G (Suc n) D t \<and> fds_of t = fds_of s"
proof -
  obtain ps where p: "fish_inv F G ps s" "list_all2 (picture_at n) (rev D) (blink_values ps s)" using assms(1) by (auto simp: showing_def)
  then obtain t where t: "mp1_rtc_tasklet F s = Some t" "blinks_shown F ps t" "blink_frame F s t" "\<forall>p \<in> set ps. blink_at t p = fst (tick (blink_at s p))"
    using tasklet_shown [of F ps s] by (auto simp: fish_inv_def)
  have "blink_list F ps t" using t(2) by (simp add: blinks_shown_def)
  note l = fish_live_request [OF fish_inv_live [OF p(1)] assms(2) t(3) this]
  have "list_all2 (\<lambda>p q. picture_at n p (blink_at s q)) (rev D) ps" using p(2) by (simp add: blink_values_def list_all2_map2)
  then have "list_all2 (\<lambda>p q. picture_at (Suc n) p (blink_at t q)) (rev D) ps"
    using t(4) tick_picture by (auto simp: list_all2_conv_all_nth)
  then have "list_all2 (picture_at (Suc n)) (rev D) (blink_values ps t)" by (simp add: blink_values_def list_all2_map2)
  moreover have "fish_inv F G ps t" using l(1) t(2) by (simp add: fish_inv_def fish_live_def)
  ultimately show ?thesis using t(1) l(3) by (auto simp: showing_def)
qed

lemma fish_ticks_showing:
  fixes s :: "'a kernel_scheme"
  assumes "showing F G m D s" "fish_layout F G" "ticks env" "reads_rtc s fd" "in_user (garbage G) 4"
  shows "\<exists>t. fish_ticks U env F G (int fd) n s = Some t \<and> showing F G (m + n) D t"
  using assms(1,4)
proof (induction n arbitrary: m s)
  case 0
  then show ?case by simp
next
  case (Suc n)
  obtain ps where p: "fish_inv F G ps s" "list_all2 (picture_at m) (rev D) (blink_values ps s)" using Suc.prems(1) by (auto simp: showing_def)
  have w: "world s" using p(1) by (simp add: fish_inv_def)
  obtain u where u: "ece391_read U env (int fd) (garbage G) 4 s = Some (0, u)" "displays [] 0 0 s u" "fds_of u = fds_of s"
    using fish_read_rtc [OF w assms(3) Suc.prems(2) assms(5)] by blast
  have "showing F G m D u" using fish_inv_displays [OF p(1) assms(2) u(2) off_nothing] p(2) by (auto simp: showing_def)
  from tasklet_showing [OF this assms(2)] obtain v where v: "mp1_rtc_tasklet F u = Some v" "showing F G (Suc m) D v" "fds_of v = fds_of u" by blast
  have "reads_rtc v fd" using Suc.prems(2) u(3) v(3) by (simp add: reads_rtc_def)
  from Suc.IH [OF v(2) this] show ?case using u(1) v(1) by simp
qed

lemma showing_screen:
  fixes s :: "'a kernel_scheme"
  assumes "showing F G n D s" "spots_ok D" "(k, x, y) \<in> set D"
  shows "load s (VIDEO + of_nat (2 * k)) = (if n mod 30 < 15 then x else y)"
proof -
  obtain ps where p: "fish_inv F G ps s" "list_all2 (picture_at n) (rev D) (blink_values ps s)" using assms(1) by (auto simp: showing_def)
  have k: "k < 2000" using assms(2,3) by (auto simp: spots_ok_def image_iff Bex_def)
  have "(k, x, y) \<in> set (rev D)" using assms(3) by simp
  then obtain b where b: "b \<in> set (blink_values ps s)" "picture_at n (k, x, y) b"
  proof -
    obtain i where "i < length (rev D)" "rev D ! i = (k, x, y)" using \<open>(k, x, y) \<in> set (rev D)\<close> unfolding in_set_conv_nth by blast
    then show thesis using list_all2_nthD [OF p(2)] list_all2_lengthD [OF p(2)] that nth_mem by metis
  qed
  then have "screen_bytes F s ! (2 * unat (location b)) = visible b" using p(1) by (simp add: fish_inv_def value_parts)
  moreover have "location b = of_nat k" using b(2) by (simp add: picture_at_def)
  ultimately have "screen_bytes F s ! (2 * k) = visible b" using u16_small [OF k] by simp
  moreover have "screen_bytes F s ! (2 * k) = load s (VIDEO + of_nat (2 * k))" using p(1) k by (simp add: screen_bytes_def fish_inv_def)
  moreover have "visible b = (if n mod 30 < 15 then x else y)" using b(2) by (simp add: visible_def picture_at_def in_phase_def)
  ultimately show ?thesis by simp
qed

section \<open>The first lines of main\<close>

text \<open>The tables of the address spaces are not seen by a program.\<close>

lemma remapped_same:
  "load (s\<lparr>ptmem := m\<rparr>) = load s" "fds_of (s\<lparr>ptmem := m\<rparr>) = fds_of s" "load32 (s\<lparr>ptmem := m\<rparr>) a = load32 s a"
  "cstr (s\<lparr>ptmem := m\<rparr>) p w = cstr s p w" "same_image s (s\<lparr>ptmem := m\<rparr>)"
proof -
  show l: "load (s\<lparr>ptmem := m\<rparr>) = load s" by (simp add: load_def fun_eq_iff)
  then show "load32 (s\<lparr>ptmem := m\<rparr>) a = load32 s a" by (simp add: load32_def)
  show "fds_of (s\<lparr>ptmem := m\<rparr>) = fds_of s" by (simp add: current_pcb_def)
  show "cstr (s\<lparr>ptmem := m\<rparr>) p w = cstr s p w" by (simp add: cstr_def read_bytes_def l)
  show "same_image s (s\<lparr>ptmem := m\<rparr>)" by (simp add: same_image_def l)
qed

lemma remapped_world:
  assumes "world s"
  shows "world (s\<lparr>ptmem := m\<rparr>)" "lookup (s\<lparr>ptmem := m\<rparr>) w = lookup s w"
    "file_ok s ino \<Longrightarrow> file_ok (s\<lparr>ptmem := m\<rparr>) ino \<and> file_of (s\<lparr>ptmem := m\<rparr>) ino = file_of s ino"
proof -
  note im = remapped_same(5) [of s m]
  obtain p where p: "procs_ok s" "running s p" using assms by (auto simp: world_def)
  then have "procs_ok (s\<lparr>ptmem := m\<rparr>)" "running (s\<lparr>ptmem := m\<rparr>) p" by (simp_all add: procs_ok_def running_def pid_set_def current_pcb_def)
  then show "world (s\<lparr>ptmem := m\<rparr>)"
    by (intro world_image [OF assms im]) (use assms in \<open>auto simp: world_def cursor_of_def\<close>)
  show "lookup (s\<lparr>ptmem := m\<rparr>) w = lookup s w" using same_image_directory [OF im] assms by (simp add: lookup_def world_def)
  assume f: "file_ok s ino"
  then have "mounted s" "inode_wf s ino" by (simp_all add: file_ok_def)
  note v = same_image_wf [OF im this]
  show "file_ok (s\<lparr>ptmem := m\<rparr>) ino \<and> file_of (s\<lparr>ptmem := m\<rparr>) ino = file_of s ino"
    using v(1,2,3) v(4) [of 0 "unat (inode_length s ino)"] f by (simp add: file_ok_def file_of_def)
qed

lemma remapped_write: "(write_bytes a bs s)\<lparr>ptmem := m\<rparr> = write_bytes a bs (s\<lparr>ptmem := m\<rparr>)"
proof (induction bs arbitrary: a s)
  case (Cons b bs)
  have "(store a b s)\<lparr>ptmem := m\<rparr> = store a b (s\<lparr>ptmem := m\<rparr>)" unfolding store_def by (cases s) simp
  then show ?case using Cons.IH [of "a + 1" "store a b s"] by simp
qed simp

lemma remapped_store32: "(store32 a w s)\<lparr>ptmem := m\<rparr> = store32 a w (s\<lparr>ptmem := m\<rparr>)"
  unfolding store32_def by (rule remapped_write)

lemma vidmap_user:
  fixes s :: "'a kernel_scheme"
  assumes "world s" "in_user a 4"
  shows "\<exists>m. ece391_vidmap U a s = Some (0, store32 a VIDEO (s\<lparr>ptmem := m\<rparr>))"
proof -
  obtain p where p: "procs_ok s" "running s p" using assms(1) by (auto simp: world_def)
  have "in_user a 1" by (rule in_user_mono [OF assms(2)]) simp
  note v = vidmap_eq [OF p in_user_pointer [OF this] user_area(1) [OF assms], of "ul_lay U"]
  obtain m where "setup_user_access_pte (get_base_page_table_for_pid (ul_lay U) p) VIDEO
      (setup_user_access_pde (get_page_directory_for_pid (ul_lay U) p) VIDEO (store32 a VIDEO s)) = (store32 a VIDEO s)\<lparr>ptmem := m\<rparr>"
    by (simp add: setup_user_access_pte_def setup_user_access_pde_def set_entry_def Let_def)
  then have "sys_vidmap (ul_lay U) a s = (0, store32 a VIDEO (s\<lparr>ptmem := m\<rparr>))" using v remapped_store32 [of m a VIDEO s] by simp
  then show ?thesis by (auto simp: user_calls(6) [of 0 0])
qed

lemma fish_starts:
  fixes s :: "'a kernel_scheme"
  assumes "world s" "fish_layout F G" "load32 s (mp1_list_head F) = 0"
  shows "\<exists>m t. mp1_set_video_mode U F (ece391_memset (blink_array F) 0 (16 * 80 * 25) s) = Some (VIDEO, t) \<and>
    (let r = s\<lparr>ptmem := m\<rparr> in fish_inv F G [] t \<and> same_world r t \<and> fds_of t = fds_of s \<and>
       (\<forall>p w. fish_text F G p w s \<longrightarrow> fish_text F G p w t))"
proof -
  have u: "in_user (blink_array F) 32000" "in_user (mp1_list_head F) 4" "in_user (vmem_base_addr F) 4"
    and c: "clear_of (blink_array F) 32000 (mp1_list_head F) 4" "clear_of (vmem_base_addr F) 4 (mp1_list_head F) 4"
      "clear_of (vmem_base_addr F) 4 (blink_array F) 32000"
    using assms(2) by (simp_all add: fish_layout_def fish_areas_def clear_of_def disj_commute)
  let ?s1 = "ece391_memset (blink_array F) 0 (16 * 80 * 25) s"
  have e: "?s1 = write_bytes (blink_array F) (replicate 32000 0) s" using ece391_memset_eq [of "blink_array F" 0 32000 s] by simp
  have w1: "world ?s1" unfolding e by (rule displays_world [OF write_user [OF assms(1) u(1)]]) simp
  obtain m where m: "ece391_vidmap U (vmem_base_addr F) ?s1 = Some (0, store32 (vmem_base_addr F) VIDEO (?s1\<lparr>ptmem := m\<rparr>))"
    using vidmap_user [OF w1 u(3)] by blast
  define r where "r = s\<lparr>ptmem := m\<rparr>"
  define r1 where "r1 = write_bytes (blink_array F) (replicate 32000 0) r"
  define t where "t = store32 (vmem_base_addr F) VIDEO r1"
  have wr: "world r" unfolding r_def by (rule remapped_world(1) [OF assms(1)])
  have d1: "displays [] (blink_array F) 32000 r r1" unfolding r1_def by (rule write_user [OF wr u(1)]) simp
  have d2: "displays [] (vmem_base_addr F) 4 r1 t" unfolding t_def store32_def by (rule write_user [OF displays_world [OF d1] u(3)]) simp
  have v: "load32 t (vmem_base_addr F) = VIDEO" unfolding t_def by (rule read_store32 [OF user_area(1) [OF displays_world [OF d1] u(3)]])
  have run: "mp1_set_video_mode U F ?s1 = Some (VIDEO, t)"
    using m [unfolded e remapped_write] v unfolding e by (simp add: mp1_set_video_mode_def r_def [symmetric] r1_def [symmetric] t_def [symmetric])
  have h: "load32 t (mp1_list_head F) = 0"
    using load_parts(3) [OF displays_field(2) [OF d1 u(2) c(1)]] load_parts(3) [OF displays_field(2) [OF d2 u(2) c(2)]] assms(3) by (simp add: r_def remapped_same)
  have "read_bytes r1 (blink_array F) 32000 = replicate 32000 0"
    unfolding r1_def using read_write_same [of r "blink_array F" "replicate 32000 0"] user_area(1) [OF wr u(1)] by simp
  then have z: "read_bytes t (blink_array F) 32000 = replicate 32000 0" using displays_field(2) [OF d2 u(1) c(3)] by simp
  have loc: "location (blink_at t p) = 0" if p: "p \<in> blink_slots F" for p
  proof -
    obtain i where i: "i < 2000" "p = blink_slot F i" using slot_of [OF p] by blast
    have "load t (blink_array F + of_nat (16 * i + j)) = 0" if j: "j < 2" for j
      using arg_cong [OF z, of "\<lambda>l. l ! (16 * i + j)"] i(1) j by (simp del: of_nat_add of_nat_mult)
    from this [of 0] this [of 1] show ?thesis by (simp add: blink_at_def load16_def half_of_bytes_def i(2) blink_slot_def ac_simps)
  qed
  have "blink_list F [] t" using fish_blink_memory(1) [OF displays_world [OF d2] assms(2) v] h loc by (simp add: blink_list_def)
  then have "fish_inv F G [] t" using displays_world [OF d2] v by (simp add: fish_inv_def value_parts blink_values_def)
  moreover have "same_world r t" by (rule same_world_trans [OF displays_same [OF d1] displays_same [OF d2]])
  moreover have "machine.more t = machine.more r" by (simp add: t_def r1_def)
  then have "fds_of t = fds_of s" using machine_more_sel [of t r] by (simp add: r_def current_pcb_def)
  moreover have "fish_text F G p w t" if "fish_text F G p w s" for p w
  proof -
    have "fish_text F G p w r" using that by (simp add: fish_text_def r_def remapped_same)
    then show ?thesis by (rule fish_text_kept [OF fish_text_kept [OF _ d1] d2]) (simp_all add: fish_writes_def)
  qed
  ultimately show ?thesis using run by (auto simp: r_def Let_def)
qed

text \<open>What \<^verbatim>\<open>main\<close> needs: its data in place, an empty list head, three descriptors, two pictures and the clock.\<close>

definition fish_frame :: "blink_link \<Rightarrow> fish_locals \<Rightarrow> bool" where
  "fish_frame F G \<longleftrightarrow> fish_layout F G \<and> in_user (main_blink G) 16 \<and> in_user (ret_val G) 4 \<and> in_user (garbage G) 4 \<and>
     off_list F (main_blink G) 16 \<and> off_list F (ret_val G) 4 \<and> clear_of (main_blink G) 16 (add_temp F) 16"

definition three_free :: "'a kernel_scheme \<Rightarrow> bool" where
  "three_free s \<longleftrightarrow> (\<forall>i j. \<not> {2..<8} \<subseteq> insert i (insert j (in_use (fds_of s))))"

definition picture_file :: "'a kernel_scheme \<Rightarrow> u8 list \<Rightarrow> dentry \<Rightarrow> bool" where
  "picture_file s w d \<longleftrightarrow> lookup s (take 32 w) = Some d \<and> filetype d = 2 \<and> file_ok s (inode d)"

definition fish_pictures :: "'a kernel_scheme \<Rightarrow> dentry \<Rightarrow> dentry \<Rightarrow> (nat \<times> u8 \<times> u8) list" where
  "fish_pictures s d0 d1 = picture_spots 0 (Some (file_of s (inode d0))) (Some (file_of s (inode d1)))"

definition fish_ready :: "user_link \<Rightarrow> blink_link \<Rightarrow> fish_locals \<Rightarrow> u8 list \<Rightarrow> u8 list \<Rightarrow> dentry \<Rightarrow> dentry \<Rightarrow> 'a kernel_scheme \<Rightarrow> bool" where
  "fish_ready U F G w0 w1 d0 d1 s \<longleftrightarrow> world s \<and> fish_frame F G \<and> load32 s (mp1_list_head F) = 0 \<and> three_free s \<and>
     fish_text F G (file0 G) w0 s \<and> fish_text F G (file1 G) w1 s \<and> fish_text F G (ul_lit U ''rtc'') (bytes_of ''rtc'') s \<and>
     picture_file s w0 d0 \<and> picture_file s w1 d1 \<and> (\<exists>d. lookup s (bytes_of ''rtc'') = Some d \<and> filetype d = 0) \<and>
     spots_ok (fish_pictures s d0 d1)"

lemma picture_same:
  assumes "world s" "same_world (s\<lparr>ptmem := m\<rparr>) t" "picture_file s w d"
  shows "picture_file t w d" "file_of t (inode d) = file_of s (inode d)"
proof -
  have f: "file_ok s (inode d)" using assms(3) by (simp add: picture_file_def)
  note r = remapped_world(3) [OF assms(1) f, of m]
  show "file_of t (inode d) = file_of s (inode d)" using same_world_file(2) [OF assms(2)] r by simp
  show "picture_file t w d"
    using same_world_file(1) [OF assms(2)] r lookup_same [OF assms(2) remapped_world(1) [OF assms(1)]] remapped_world(2) [OF assms(1)] assms(3)
    by (simp add: picture_file_def)
qed

lemma fish_opens:
  fixes s :: "'a kernel_scheme"
  assumes "fish_ready U F G w0 w1 d0 d1 s"
  shows "\<exists>m t i u. mp1_set_video_mode U F (ece391_memset (blink_array F) 0 (16 * 80 * 25) s) = Some (VIDEO, t) \<and>
    ece391_open U (ul_lit U ''rtc'') t = Some (int i, u) \<and> 2 \<le> i \<and> reads_rtc u i \<and> fish_inv F G [] u \<and> same_world (s\<lparr>ptmem := m\<rparr>) u \<and> two_free u \<and>
    (\<forall>p w. fish_text F G p w s \<longrightarrow> fish_text F G p w u)"
proof -
  have r: "world s" "fish_layout F G" "load32 s (mp1_list_head F) = 0" "three_free s" "fish_text F G (ul_lit U ''rtc'') (bytes_of ''rtc'') s"
    using assms by (simp_all add: fish_ready_def fish_frame_def)
  obtain d where d: "lookup s (bytes_of ''rtc'') = Some d" "filetype d = 0" using assms by (auto simp: fish_ready_def)
  obtain m t where t: "mp1_set_video_mode U F (ece391_memset (blink_array F) 0 (16 * 80 * 25) s) = Some (VIDEO, t)"
      "fish_inv F G [] t" "same_world (s\<lparr>ptmem := m\<rparr>) t" "fds_of t = fds_of s" "\<forall>p w. fish_text F G p w s \<longrightarrow> fish_text F G p w t"
    using fish_starts [OF r(1-3), of U] unfolding Let_def by blast
  have wt: "world t" using t(2) by (simp add: fish_inv_def)
  have tx: "fish_text F G (ul_lit U ''rtc'') (bytes_of ''rtc'') t" using t(5) r(5) by blast
  then have l: "in_user (ul_lit U ''rtc'') 1" "field_text t (ul_lit U ''rtc'') 32 = bytes_of ''rtc''"
    using cstr_field_text [of t "ul_lit U ''rtc''" "bytes_of ''rtc''" 32] by (auto simp: fish_text_def bytes_of_def intro: in_user_mono)
  have lk: "lookup t (bytes_of ''rtc'') = Some d"
    using lookup_same [OF t(3) remapped_world(1) [OF r(1)]] remapped_world(2) [OF r(1)] d(1) by simp
  have "fd_free t" using r(4) unfolding fd_free_def three_free_def t(4) by blast
  from open_user_rtc [OF wt l(1) _ d(2) this, where b = 0 and n = 0] l(2) lk obtain i u where
      u: "ece391_open U (ul_lit U ''rtc'') t = Some (int i, u)" "2 \<le> i" "i < 8" "displays [] 0 0 t u" "fds_of u = (fds_of t)(i := opened d t)" by metis
  have "fish_inv F G [] u" by (rule fish_inv_displays(1) [OF t(2) r(2) u(4) off_nothing])
  moreover have "same_world (s\<lparr>ptmem := m\<rparr>) u" by (rule same_world_trans [OF t(3) displays_same [OF u(4)]])
  moreover have "two_free u" using r(4) in_use_insert [of "fds_of s" i d t] unfolding two_free_def three_free_def u(5) t(4) by blast
  moreover have "reads_rtc u i" using u(3,5) d(2) by (simp add: reads_rtc_def opened_def fops_of_def)
  moreover have "fish_text F G p w u" if "fish_text F G p w s" for p w by (rule fish_text_kept [OF _ u(4)]) (use t(5) that in auto)
  ultimately show ?thesis using t(1) u(1,2) by blast
qed

lemma fish_draws:
  fixes s u :: "'a kernel_scheme"
  assumes "fish_ready U F G w0 w1 d0 d1 s" "fish_inv F G [] u" "same_world (s\<lparr>ptmem := m\<rparr>) u" "two_free u" "reads_rtc u i"
    and "\<forall>p w. fish_text F G p w s \<longrightarrow> fish_text F G p w u"
  shows "\<exists>t. add_frames U env F G u = Some (Inr t) \<and> drawn F G (fish_pictures s d0 d1) t \<and> same_world (s\<lparr>ptmem := m\<rparr>) t \<and> reads_rtc t i"
proof -
  have r: "world s" "fish_layout F G" "fish_text F G (file0 G) w0 u" "fish_text F G (file1 G) w1 u" "spots_ok (fish_pictures s d0 d1)"
    "picture_file s w0 d0" "picture_file s w1 d1"
    using assms(1,6) by (simp_all add: fish_ready_def fish_frame_def)
  note p0 = picture_same [OF r(1) assms(3) r(6)] and p1 = picture_same [OF r(1) assms(3) r(7)]
  have D: "fish_pictures s d0 d1 = picture_spots 0 (Some (file_of u (inode d0))) (Some (file_of u (inode d1)))"
    using p0(2) p1(2) by (simp add: fish_pictures_def)
  obtain t where t: "add_frames U env F G u = Some (Inr t)" "drawn F G (fish_pictures s d0 d1) t" "same_world u t" "\<forall>k \<in> in_use (fds_of u). fds_of t k = fds_of u k"
    using add_frames_draws [OF assms(2) r(2) assms(4) r(3,4) _ _ _ _ _ _ D r(5), of U env] p0(1) p1(1) unfolding picture_file_def by blast
  have "i \<in> in_use (fds_of u)" using assms(5) by (simp add: reads_rtc_def in_use_def)
  then have "reads_rtc t i" using t(4) assms(5) by (simp add: reads_rtc_def)
  then show ?thesis using t(1,2) same_world_trans [OF assms(3) t(3)] by blast
qed


section \<open>The end of main\<close>

text \<open>The list is one list, whatever is on it, and the descriptor is that of the clock.\<close>

definition alive :: "blink_link \<Rightarrow> nat \<Rightarrow> 'a kernel_scheme \<Rightarrow> bool" where
  "alive F fd s \<longleftrightarrow> (\<exists>ps. fish_live F ps s) \<and> reads_rtc s fd"

lemma alive_world: "alive F fd s \<Longrightarrow> world s"
  by (auto simp: alive_def fish_live_def)

lemma alive_ticks:
  fixes s :: "'a kernel_scheme"
  assumes "alive F fd s" "fish_frame F G" "ticks env"
  shows "\<exists>t. fish_ticks U env F G (int fd) n s = Some t \<and> alive F fd t \<and> same_world s t"
proof -
  obtain ps where p: "fish_live F ps s" "reads_rtc s fd" using assms(1) by (auto simp: alive_def)
  have f: "fish_layout F G" "in_user (garbage G) 4" using assms(2) by (simp_all add: fish_frame_def)
  obtain t where "fish_ticks U env F G (int fd) n s = Some t" "fish_live F ps t" "same_world s t" "fds_of t = fds_of s"
    using fish_ticks_live [OF p(1) f(1) assms(3) p(2) f(2)] by blast
  then show ?thesis using p(2) by (auto simp: alive_def reads_rtc_def)
qed

lemma alive_displays:
  fixes s :: "'a kernel_scheme"
  assumes "alive F fd s" "fish_layout F G" "displays [] a n s t" "off_list F a n" "fds_of t = fds_of s"
  shows "alive F fd t"
  using assms(1,5) fish_live_displays(1) [OF _ assms(2-4)] unfolding alive_def reads_rtc_def by metis

lemma alive_request:
  fixes s :: "'a kernel_scheme"
  assumes "alive F fd s" "fish_layout F G" "blink_frame F s t" "blink_list F qs t"
  shows "alive F fd t" "same_world s t"
proof -
  obtain ps where p: "fish_live F ps s" "reads_rtc s fd" using assms(1) by (auto simp: alive_def)
  note l = fish_live_request [OF p(1) assms(2-4)]
  show "same_world s t" by (rule l(2))
  show "alive F fd t" using l(1,3) p(2) by (auto simp: alive_def reads_rtc_def)
qed

lemma alive_ioctl:
  fixes s :: "'a kernel_scheme"
  assumes "alive F fd s" "fish_layout F G" "cmd \<in> {1, 3} \<or> cmd = 0 \<and> in_user arg 16 \<and> clear_of arg 16 (add_temp F) 16 \<and> location (blink_at s arg) \<noteq> 0"
  shows "\<exists>r t. mp1_ioctl F arg cmd s = Some (r, t) \<and> alive F fd t \<and> same_world s t"
proof -
  obtain ps where p: "world s" "blink_list F ps s" using assms(1) by (auto simp: alive_def fish_live_def)
  have "\<exists>r t qs. mp1_ioctl F arg cmd s = Some (r, t) \<and> blink_frame F s t \<and> blink_list F qs t"
  proof -
    consider "cmd = 0" "in_user arg 16" "clear_of arg 16 (add_temp F) 16" "location (blink_at s arg) \<noteq> 0" | "cmd = 1" | "cmd = 3" using assms(3) by blast
    then show ?thesis
    proof cases
      case 1
      have "in_user (add_temp F) 16" using assms(2) by (simp add: fish_layout_def fish_areas_def)
      then have "apart s arg 16 (add_temp F) 16" using user_areas_apart [OF p(1) 1(2) _ 1(3)] by blast
      then show ?thesis using add_refines [OF p(2) _ 1(4)] 1(1) by (cases "add_blink (blink_at s arg) (blink_values ps s, screen_bytes F s)") (force simp: mp1_ioctl_def)
    next
      case 2
      then show ?thesis using remove_refines [OF p(2)] by (cases "remove_blink (ucast arg) (blink_values ps s, screen_bytes F s)") (force simp: mp1_ioctl_def)
    next
      case 3
      then show ?thesis using sync_refines [OF p(2)]
        by (cases "sync_blinks (ucast (drop_bit 16 arg)) (ucast arg) (blink_values ps s, screen_bytes F s)") (force simp: mp1_ioctl_def)
    qed
  qed
  then show ?thesis using alive_request [OF assms(1,2)] by blast
qed

lemma write_user_rtc:
  fixes s :: "'a kernel_scheme"
  assumes "world s" "reads_rtc s fd" "in_user buf 4" "load32 s buf = 32"
  shows "\<exists>t. ece391_write U (int fd) buf 4 s = Some (1, t) \<and> displays [] 0 0 s t \<and> fds_of t = fds_of s"
proof -
  have "rtc_cond 32" by (simp add: rtc_cond_iff) (rule bexI [of _ 5]; simp)
  moreover have "rate_loop (FREQ_FORMULA_VAL div 32) 1 = Some (16 - int 5)" using rate_of_freq [of 5] by simp
  ultimately obtain t where w: "write_rtc (ul_dev U) (int fd) buf 4 s = Some (1, t)" using assms(4) by (simp add: write_rtc_def Let_def case_prod_beta)
  have "in_user buf 1" by (rule in_user_mono [OF assms(3)]) simp
  then have "ece391_write U (int fd) buf 4 s = Some (1, t)"
    using w assms(2) in_user_pointer [of buf] by (simp add: reads_rtc_def user_calls sys_write_def Let_def w_func_def)
  moreover have "displays [] 0 0 s t" "fds_of t = fds_of s"
    using quiet_user [OF assms(1) write_rtc_same [OF w]] w
    by (auto simp: write_rtc_def Let_def case_prod_beta cursor_of_def cli_and_save_def cli_def restore_flags_def enable_irq_def inb_def outb_def split: if_splits option.splits)
  ultimately show ?thesis by blast
qed

lemma put_blink_user:
  fixes s :: "'a kernel_scheme"
  assumes "world s" "in_user p 16"
  shows "displays [] p 16 s (put_blink p x y on off l s)" "location (blink_at (put_blink p x y on off l s) p) = l" "fds_of (put_blink p x y on off l s) = fds_of s"
proof -
  have wr: "displays [] p 16 u (store16 (p + of_nat k) v u)" if "world u" "k + 2 \<le> 16" for u :: "'a kernel_scheme" and k v
  proof -
    have "displays [] (p + of_nat k) 2 u (store16 (p + of_nat k) v u)"
      unfolding store16_def by (rule write_user [OF that(1) in_user_shift [OF assms(2)]]) (use that(2) in simp_all)
    then show ?thesis by (rule displays_wider) (use unat_user [OF assms(2), of k] that(2) in simp_all)
  qed
  let ?a = "store (p + 2) x s" let ?b = "store (p + 3) y ?a" let ?c = "store16 (p + 4) on ?b" let ?d = "store16 (p + 6) off ?c"
  note a = store_at(1) [OF assms, of 2 x, simplified]
  note b = displays_two [OF a store_at(1) [OF displays_world [OF a] assms(2), of 3 y, simplified]]
  note c = displays_two [OF b wr [OF displays_world [OF b], of 4 on, simplified]]
  note d = displays_two [OF c wr [OF displays_world [OF c], of 6 off, simplified]]
  note e = displays_two [OF d wr [OF displays_world [OF d], of 0 l, simplified]]
  show "displays [] p 16 s (put_blink p x y on off l s)" using e by (simp add: put_blink_def Let_def)
  show "location (blink_at (put_blink p x y on off l s) p) = l"
    using read_store16 [OF part_spread [of ?d p 16 0 2], of l] user_area(1) [OF displays_world [OF d] assms(2)] by (simp add: put_blink_def Let_def blink_at_def)
  show "fds_of (put_blink p x y on off l s) = fds_of s" using machine_more_sel [of "put_blink p x y on off l s" s] by (simp add: put_blink_def Let_def current_pcb_def)
qed

lemma store32_user:
  fixes s :: "'a kernel_scheme"
  assumes "world s" "in_user a 4"
  shows "displays [] a 4 s (store32 a w s)" "fds_of (store32 a w s) = fds_of s" "load32 (store32 a w s) a = w"
  using write_user [OF assms, of "[ucast w, ucast (drop_bit 8 w), ucast (drop_bit 16 w), ucast (drop_bit 24 w)]"] machine_more_sel [of "store32 a w s" s]
    read_store32 [OF user_area(1) [OF assms], of w]
  by (simp_all add: store32_def current_pcb_def)

lemma alive_rest:
  fixes s :: "'a kernel_scheme"
  assumes "alive F fd s" "fish_frame F G" "ticks env" "2 \<le> fd"
  shows "\<exists>t. same_world s t \<and>
    do { (r, s) \<leftarrow> ece391_write U (int fd) (ret_val G) 4 (store32 (ret_val G) 32 s);
         s \<leftarrow> fish_ticks U env F G (int fd) 200 (store32 (ret_val G) (of_int r) s);
         (r, s) \<leftarrow> mp1_ioctl F (main_blink G) 0 (put_blink (main_blink G) 0x49 0x4D 7 6 (6 * 80 + 60) s);
         s \<leftarrow> fish_ticks U env F G (int fd) 200 s;
         (r, s) \<leftarrow> mp1_ioctl F (push_bit 16 40 OR (6 * 80 + 60)) 3 s;
         s \<leftarrow> fish_ticks U env F G (int fd) 200 s;
         (r, s) \<leftarrow> mp1_ioctl F 200 1 (store16 (main_blink G) 60 s);
         s \<leftarrow> fish_ticks U env F G (int fd) 2000 s;
         (r, s) \<leftarrow> ece391_close U (int fd) s;
         Some (0, s) } = Some (0 :: int, t)"
proof -
  have f: "fish_layout F G" "in_user (main_blink G) 16" "in_user (ret_val G) 4" "off_list F (main_blink G) 16" "off_list F (ret_val G) 4"
    "clear_of (main_blink G) 16 (add_temp F) 16" using assms(2) by (simp_all add: fish_frame_def)
  note a1 = store32_user [OF alive_world [OF assms(1)] f(3), of 32]
  note l1 = alive_displays [OF assms(1) f(1) a1(1) f(5) a1(2)]
  have "reads_rtc (store32 (ret_val G) 32 s) fd" using l1 by (simp add: alive_def)
  from write_user_rtc [OF alive_world [OF l1] this f(3) a1(3)] obtain b where
    b: "ece391_write U (int fd) (ret_val G) 4 (store32 (ret_val G) 32 s) = Some (1, b)" "displays [] 0 0 (store32 (ret_val G) 32 s) b"
      "fds_of b = fds_of (store32 (ret_val G) 32 s)" by blast
  note l2 = alive_displays [OF l1 f(1) b(2) off_nothing b(3)]
  note a3 = store32_user [OF alive_world [OF l2] f(3), of "of_int 1"]
  note l3 = alive_displays [OF l2 f(1) a3(1) f(5) a3(2)]
  obtain c where c: "fish_ticks U env F G (int fd) 200 (store32 (ret_val G) (of_int 1) b) = Some c" "alive F fd c" "same_world (store32 (ret_val G) (of_int 1) b) c"
    using alive_ticks [OF l3 assms(2,3)] by blast
  note p = put_blink_user [OF alive_world [OF c(2)] f(2), of "0x49" "0x4D" 7 6 "6 * 80 + 60"]
  let ?p = "put_blink (main_blink G) 0x49 0x4D 7 6 (6 * 80 + 60) c"
  note l4 = alive_displays [OF c(2) f(1) p(1) f(4) p(3)]
  obtain r d where d: "mp1_ioctl F (main_blink G) 0 ?p = Some (r, d)" "alive F fd d" "same_world ?p d"
    using alive_ioctl [OF l4 f(1), of 0 "main_blink G"] f(2,6) p(2) by auto
  obtain e where e: "fish_ticks U env F G (int fd) 200 d = Some e" "alive F fd e" "same_world d e" using alive_ticks [OF d(2) assms(2,3)] by blast
  obtain r' g where g: "mp1_ioctl F (push_bit 16 40 OR (6 * 80 + 60)) 3 e = Some (r', g)" "alive F fd g" "same_world e g"
    using alive_ioctl [OF e(2) f(1), of 3] by blast
  obtain h where h: "fish_ticks U env F G (int fd) 200 g = Some h" "alive F fd h" "same_world g h" using alive_ticks [OF g(2) assms(2,3)] by blast
  have "displays [] (main_blink G) 16 h (store16 (main_blink G) 60 h)"
    unfolding store16_def by (rule write_user [OF alive_world [OF h(2)] f(2)]) simp
  moreover have "fds_of (store16 (main_blink G) 60 h) = fds_of h" using machine_more_sel [of "store16 (main_blink G) 60 h" h] by (simp add: current_pcb_def)
  ultimately have l5: "alive F fd (store16 (main_blink G) 60 h)" "same_world h (store16 (main_blink G) 60 h)"
    using alive_displays [OF h(2) f(1) _ f(4)] displays_same by blast+
  obtain r'' j where j: "mp1_ioctl F 200 1 (store16 (main_blink G) 60 h) = Some (r'', j)" "alive F fd j" "same_world (store16 (main_blink G) 60 h) j"
    using alive_ioctl [OF l5(1) f(1), of 1] by blast
  obtain k where k: "fish_ticks U env F G (int fd) 2000 j = Some k" "alive F fd k" "same_world j k" using alive_ticks [OF j(2) assms(2,3)] by blast
  have "fd < 8" using assms(1) by (simp add: alive_def reads_rtc_def)
  then obtain q t where t: "ece391_close U (int fd) k = Some (q, t)" "displays [] 0 0 k t" using close_open [OF alive_world [OF k(2)] assms(4)] by blast
  have "same_world s c" using same_world_trans [OF displays_same [OF a1(1)] same_world_trans [OF displays_same [OF b(2)] same_world_trans [OF displays_same [OF a3(1)] c(3)]]] .
  moreover have "same_world c h" using same_world_trans [OF displays_same [OF p(1)] same_world_trans [OF d(3) same_world_trans [OF e(3) same_world_trans [OF g(3) h(3)]]]] .
  moreover have "same_world h t" using same_world_trans [OF l5(2) same_world_trans [OF j(3) same_world_trans [OF k(3) displays_same [OF t(2)]]]] .
  ultimately have "same_world s t" using same_world_trans by blast
  then show ?thesis by (intro exI [of _ t]) (simp only: b(1) c(1) d(1) e(1) g(1) h(1) j(1) k(1) t(1) bind.bind_lunit case_prod_conv)
qed


section \<open>Pictures that fit\<close>

text \<open>The lines of a picture: no more than 25, of no more than 40 characters each, and all positions are on the screen and distinct.\<close>

function picture_lines :: "u8 list option \<Rightarrow> u8 list list" where
  "picture_lines a = (if a = None then [] else first_line a # picture_lines (later_lines a))"
  by pat_completeness auto
termination by (relation "measure left_over") (use left_over_less in auto)

declare picture_lines.simps [simp del]

definition picture_fits :: "nat \<Rightarrow> u8 list option \<Rightarrow> bool" where
  "picture_fits row a \<longleftrightarrow> row + length (picture_lines a) \<le> 25 \<and> list_all (\<lambda>l. length l \<le> 40) (picture_lines a)"

lemma picture_lines_simps [simp]:
  "picture_lines None = []"
  "picture_lines (Some t) = first_line (Some t) # picture_lines (later_lines (Some t))"
  by (simp_all add: picture_lines.simps [of None] picture_lines.simps [of "Some t"])

lemma spot_place: "p \<in> set (spot k x y) \<Longrightarrow> fst p = k" "distinct (map fst (spot k x y))"
  by (auto simp: spot_def split: if_splits)

lemma row_spots_bounds: "p \<in> set (row_spots k l m) \<Longrightarrow> k \<le> fst p \<and> fst p < k + max (length l) (length m)"
  by (induction k l m rule: row_spots.induct) (auto dest: spot_place(1))

lemma row_spots_later [simp]: "(k, p) \<notin> set (row_spots (Suc k) l m)"
  using row_spots_bounds [of "(k, p)" "Suc k" l m] by auto

lemma row_spots_distinct: "distinct (map fst (row_spots k l m))"
  by (induction k l m rule: row_spots.induct) (auto simp: spot_place(2) dest!: spot_place(1))

lemma picture_fits_step:
  assumes "picture_fits row (Some t)"
  shows "length (first_line (Some t)) \<le> 40" "picture_fits (row + 1) (later_lines (Some t))" "row < 25"
  using assms by (simp_all add: picture_fits_def)

lemma picture_places:
  assumes "picture_fits row a \<or> a = None" "picture_fits row b \<or> b = None"
  shows "(\<forall>p \<in> set (picture_spots row a b). row * 80 + 40 \<le> fst p \<and> fst p < 2000) \<and> distinct (map fst (picture_spots row a b))"
  using assms
proof (induction row a b rule: picture_spots.induct)
  case (1 row a b)
  show ?case
  proof (cases "a = None \<and> b = None")
    case True
    then show ?thesis by (subst (1 2) picture_spots.simps) simp
  next
    case False
    let ?R = "row_spots (row * 80 + 40) (first_line a) (first_line b)" and ?P = "picture_spots (row + 1) (later_lines a) (later_lines b)"
    have ps: "picture_spots row a b = ?R @ ?P" using False by (subst picture_spots.simps) (simp only: if_False)
    have l: "length (first_line a) \<le> 40" "length (first_line b) \<le> 40" "row < 25"
      using "1.prems" False by (cases a; cases b; auto simp: first_line_def [of None] dest: picture_fits_step)+
    have "picture_fits (row + 1) (later_lines a) \<or> later_lines a = None" "picture_fits (row + 1) (later_lines b) \<or> later_lines b = None"
      using "1.prems" by (cases a; cases b; auto simp: later_lines_def [of None] dest: picture_fits_step(2))+
    note P = "1.IH" [OF False this]
    have R: "\<forall>p \<in> set ?R. row * 80 + 40 \<le> fst p \<and> fst p < row * 80 + 80" "distinct (map fst ?R)"
      using row_spots_bounds [of _ "row * 80 + 40" "first_line a" "first_line b"] row_spots_distinct l(1,2) by fastforce+
    have "fst ` set ?R \<inter> fst ` set ?P = {}" using P R(1) by fastforce
    then have "distinct (map fst (?R @ ?P))" using P R(2) by simp
    moreover have "\<forall>p \<in> set (?R @ ?P). row * 80 + 40 \<le> fst p \<and> fst p < 2000" using P R(1) l(3) by fastforce
    ultimately show ?thesis unfolding ps by blast
  qed
qed

lemma pictures_fit:
  assumes "picture_fits 0 (Some t)" "picture_fits 0 (Some u)"
  shows "spots_ok (picture_spots 0 (Some t) (Some u))"
  using picture_places [of 0 "Some t" "Some u"] assms by (auto simp: spots_ok_def)

text \<open>The pictures of the repository, \<^verbatim>\<open>fish/frame0.txt\<close> and \<^verbatim>\<open>fish/frame1.txt\<close>, fit; a percent sign stands for a backslash here.\<close>

definition picture_line :: "string \<Rightarrow> u8 list" where
  "picture_line l = map (\<lambda>b. if b = of_char CHR ''%'' then 0x5C else b) (bytes_of l)"

definition frame0_txt :: "u8 list" where
  "frame0_txt = concat (map picture_line
     [''/%/%/%/%/%/%/%/%/%/%/%/%\<newline>'',
      ''         o\<newline>'',
      ''           o    o\<newline>'',
      ''       o\<newline>'',
      ''             o\<newline>'',
      ''        o     O\<newline>'',
      ''    _    %\<newline>'',
      '' |%/.%   | %/  /  /\<newline>'',
      '' |=  _>   %|   % /\<newline>'',
      '' |/%_/    |/   |/\<newline>'',
      ''----------M----M--------\<newline>''])"

definition frame1_txt :: "u8 list" where
  "frame1_txt = concat (map picture_line
     [''%/%/%/%/%/%/%/%/%/%/%/%/\<newline>'',
      ''           o    o\<newline>'',
      ''       o\<newline>'',
      ''             o\<newline>'',
      ''        o     o\<newline>'',
      ''\<newline>'',
      ''    _   /\<newline>'',
      '' |%/.%  % %/  %  /\<newline>'',
      '' |=  _>  % %   %|\<newline>'',
      '' |/%_>    |/   |/\<newline>'',
      ''----------M----M--------\<newline>''])"

lemma repository_pictures: "spots_ok (picture_spots 0 (Some frame0_txt) (Some frame1_txt))"
  by (rule pictures_fit) code_simp+

section \<open>A concrete run\<close>

definition fish_demo :: kernel where
  "fish_demo = user_demo [''rtc'', ''hi'']"

definition fish_stack :: fish_locals where
  "fish_stack = \<lparr>file0 = slot 1, file1 = slot 1, main_blink = 0x08058060, garbage = 0x08058080, ret_val = 0x08058090,
     frame_blink = 0x080580A0, c0 = 0x080580B0, c1 = 0x080580B1\<rparr>"

lemma fish_demo_facts:
  "world fish_demo" "xlat fish_demo = (\<lambda>a. a)" "pcbs fish_demo = (\<lambda>_. (blank_pcb 0)\<lparr>args := 0x450010\<rparr>)" "lookup fish_demo w = lookup started_demo w"
  "file_ok fish_demo 0" "file_of fish_demo 0 = hi_file"
  using user_demo_facts [of "[''rtc'', ''hi'']"] by (simp_all add: fish_demo_def short_text_def bytes_of_def)

lemma fish_demo_head: "load32 fish_demo 0x08058000 = 0"
proof -
  have "load fish_demo a = load flat_demo a" if "a \<in> {0x08058000, 0x08058001, 0x08058002, 0x08058003}" for a
  proof -
    have "load fish_demo a = load started_demo a"
      unfolding fish_demo_def user_demo_def by (rule place_from_below) (use that in \<open>auto simp: short_text_def bytes_of_def\<close>)
    also have "\<dots> = load flat_demo a" using that by (auto simp: started_demo_def load_def store_def)
    finally show ?thesis .
  qed
  then show ?thesis by (simp add: load32_def word_of_bytes_def load_def demo_ram_def demo_segments_def hi_file_def)
qed

lemma fish_demo_text:
  assumes "w \<in> {''rtc'', ''hi''}"
  shows "fish_text fish_link fish_stack (ul_lit (demo_link [''rtc'', ''hi'']) w) (bytes_of w) fish_demo"
proof -
  have "lit_ok (demo_link [''rtc'', ''hi'']) 0x08050000 0x9000 fish_demo w"
    unfolding fish_demo_def by (rule user_demo_lit) (use assms in \<open>simp_all add: short_text_def bytes_of_def\<close>)
  then show ?thesis by (auto simp: lit_ok_def fish_text_def fish_writes_def fish_link_def fish_stack_def clear_of_def bytes_of_def)
qed

lemma fish_demo_pictures:
  "fish_pictures fish_demo hi_dentry hi_dentry = map (\<lambda>(i, c). (40 + i, c, c)) (enumerate 0 hi_file)"
  by (simp add: fish_pictures_def hi_dentry_def fish_demo_facts picture_spots.simps [of 0] picture_spots.simps [of "Suc 0"] first_line_def later_lines_def hi_file_def spot_def)

lemma fish_demo_ready: "fish_ready (demo_link [''rtc'', ''hi'']) fish_link fish_stack [0x68, 0x69] [0x68, 0x69] hi_dentry hi_dentry fish_demo"
proof -
  let ?U = "demo_link [''rtc'', ''hi'']"
  have l: "ul_lit ?U ''hi'' = slot 1" "bytes_of ''hi'' = [0x68, 0x69]" "bytes_of ''rtc'' = [0x72, 0x74, 0x63]"
    by (simp_all add: demo_link_def bytes_of_def)
  have fr: "fish_frame fish_link fish_stack"
    by (simp add: fish_frame_def fish_layout_def fish_areas_def fish_link_def fish_stack_def in_user_def off_list_def clear_of_def)
  have "in_use (fds_of fish_demo) = {0, 1}"
    by (auto simp: in_use_def fish_demo_facts(3) blank_pcb_def fresh_fds_def std_fd_def)
  moreover have "\<not> {2..<8} \<subseteq> insert i (insert j {0, 1})" for i j :: nat
  proof
    assume "{2..<8} \<subseteq> insert i (insert j {0, 1})"
    then have "{2, 3, 4} \<subseteq> insert i (insert j {0, 1})" by (rule subset_trans [rotated]) simp
    then show False by auto
  qed
  ultimately have f: "three_free fish_demo" by (simp add: three_free_def)
  have p: "picture_file fish_demo [0x68, 0x69] hi_dentry"
    using started_lookup(1) fish_demo_facts(5) by (simp add: picture_file_def fish_demo_facts(4) hi_dentry_def)
  have r: "lookup fish_demo [0x72, 0x74, 0x63] = Some rtc_dentry"
    unfolding fish_demo_facts(4) by (simp add: lookup_def started_dir dentry_name_def dot_dentry_def rtc_dentry_def hi_dentry_def)
  have t: "fish_text fish_link fish_stack (slot 1) [0x68, 0x69] fish_demo" using fish_demo_text [of "''hi''"] l by simp
  have sp: "spots_ok (fish_pictures fish_demo hi_dentry hi_dentry)" by (simp add: fish_demo_pictures spots_ok_def hi_file_def)
  show ?thesis
    unfolding fish_ready_def using fish_demo_facts(1) fr f p t fish_demo_text [of "''rtc''"] r sp fish_demo_head
    by (simp add: l fish_stack_def [THEN arg_cong, of file0] fish_stack_def [THEN arg_cong, of file1] rtc_dentry_def fish_link_def [THEN arg_cong, of mp1_list_head])
qed



end
