(* ===== verification/Spec2Isabelle.thy ===== *)
theory Spec2Isabelle
  imports Boot Console_Properties Scheduling_Properties Interrupt_Properties File_Properties
    Memory_Properties Syscall_Properties Device_Properties Scancode_Facts Lib_Properties Launch Isolation User_Properties User_Shell User_Syserr User_Pingpong
    User_Grep_All Ps2 User_Faults Fish_Run
begin

text \<open>
  A verification of Snoop-Diggity-dOS, a small operating system kernel for the x86 written in C
  (\<^verbatim>\<open>src/student-distrib\<close>), and of the programs that run on it (\<^verbatim>\<open>src/syscalls\<close>).

  \<^bold>\<open>The program.\<close> The kernel boots from a multiboot loader that hands it one module, the file
  system image. It runs up to six programs on three text terminals. A program is started from an
  ELF file of the image by \<^verbatim>\<open>execute\<close>, lives in a 4 MB block of physical memory mapped at
  0x08000000, and ends by \<^verbatim>\<open>halt\<close> or by an exception; \<^verbatim>\<open>execute\<close> then returns to
  its parent. It uses files, the directory, the real-time clock and its terminal through eight file
  descriptors. The timer interrupt switches between the programs of the three terminals; the
  keyboard interrupt edits the input line of the displayed terminal and switches terminals.

  \<^bold>\<open>State.\<close> Each theory adds its variables to one extensible record, in the order of the
  dependencies: \<open>machine\<close> (physical memory, translation, flags, the log of port accesses),
  \<open>console\<close>, \<open>sched\<close>, \<open>layout\<close> of the page tables, \<open>fsys\<close>, \<open>i8259\<close>, \<open>rtc\<close>, \<open>scancodes\<close>,
  \<open>kernel\<close> (process control blocks, terminals, task state segment), \<open>kbd\<close>, and the descriptor
  tables. Data the kernel only reaches by its own C variables are record fields; everything
  that is read or written through a pointer or by the hardware (page tables, video memory, the image,
  the memory of programs, command strings, buffers on the stack) are bytes of \<open>ram\<close>, reached through the
  translation of the page directory in use. Integers keep their C width as words and wrap around.

  \<^bold>\<open>Parts and theories.\<close>
  \<^item> \<open>Prelude\<close>: C integer types, return codes, shared lemmas on words, lists and updates.
  \<^item> \<open>Machine\<close> (\<^verbatim>\<open>lib.h\<close>): memory access, ports, interrupt flag.
  \<^item> \<open>Lib_Memory\<close>, \<open>Lib_String\<close>, \<open>Lib_Properties\<close> (\<^verbatim>\<open>lib.c\<close>): the memory
    and string routines, the former at the level of the inline assembly, and their contracts.
  \<^item> \<open>Screen\<close> (\<^verbatim>\<open>lib.c\<close>): the text screen; the locale \<open>char_device\<close> states the contract of a device
    that prints characters, and both \<^verbatim>\<open>putc_screen\<close> and \<^verbatim>\<open>putc_kbd\<close> meet it.
  \<^item> \<open>Printf\<close> (\<^verbatim>\<open>lib.c\<close>): \<^verbatim>\<open>printf\<close> and \<^verbatim>\<open>printf_t\<close>, one loop with the put functions as arguments.
  \<^item> \<open>Pids\<close>, \<open>Scheduler\<close>, \<open>Scheduling_Properties\<close> (\<^verbatim>\<open>scheduling.c\<close>): process numbers (locale
    \<open>pid_pool\<close>), context switch, round robin.
  \<^item> \<open>Paging\<close>, \<open>Memory_Properties\<close> (\<^verbatim>\<open>paging.c\<close>, \<^verbatim>\<open>paging_asm.S\<close>): page directories and tables
    as bytes, and the translation the processor reads from them.
  \<^item> \<open>Filesystem\<close>, \<open>Files\<close>, \<open>File_Properties\<close> (\<^verbatim>\<open>filesystem.c\<close>): the image and open files.
  \<^item> \<open>I8259\<close>, \<open>Rtc\<close>, \<open>Device_Properties\<close> (\<^verbatim>\<open>devices/i8259.c\<close>, \<^verbatim>\<open>devices/rtc.c\<close>): the
    interrupt controllers (locale \<open>irq_controller\<close>) and the clock.
  \<^item> \<open>Ps2\<close> (\<^verbatim>\<open>devices/ps2.c\<close>): the driver of the keyboard controller, which the build leaves out.
  \<^item> \<open>Scancodes\<close>, \<open>Scancode_Facts\<close> (\<^verbatim>\<open>devices/scancodes.c\<close>): the keyboard tables.
  \<^item> \<open>Process\<close> (\<^verbatim>\<open>syscalls.h\<close>, \<^verbatim>\<open>devices/keyboard.h\<close>): process control blocks and terminals.
  \<^item> \<open>Terminal\<close>, \<open>Keyboard\<close>, \<open>Console_Properties\<close> (\<^verbatim>\<open>devices/keyboard.c\<close>): reading and
    writing terminals, switching them, the keyboard handler.
  \<^item> \<open>Syscalls\<close>, \<open>Execute\<close>, \<open>Launch\<close>, \<open>Syscall_Properties\<close> (\<^verbatim>\<open>syscalls.c\<close>): the system calls;
    the locale \<open>file_driver\<close> is what the calls need of a driver. \<open>Demo\<close> is a concrete kernel on
    which the witnesses run.
  \<^item> \<open>Process_Tree\<close>, \<open>Isolation\<close>: the processes and terminals together. A step relation puts the system calls,
    exceptions, timer ticks and terminal switches together; the locale \<open>kept_property\<close> is what a step
    relation needs of an invariant.
  \<^item> \<open>Interrupts\<close>, \<open>Interrupt_Properties\<close> (\<^verbatim>\<open>interrupt_handler.c\<close>): exceptions and device interrupts.
  \<^item> \<open>Boot\<close> (\<^verbatim>\<open>kernel.c\<close>, \<^verbatim>\<open>x86_desc.h\<close>): from \<^verbatim>\<open>entry\<close> to the first shell.
  \<^item> \<open>User_Lib\<close> (\<^verbatim>\<open>interrupt_handler_asm.S\<close>, \<^verbatim>\<open>syscalls/ece391syscall.S\<close>,
    \<^verbatim>\<open>syscalls/ece391support.c\<close>): the entry of system calls and the library of the programs.
  \<^item> \<open>User_Programs\<close>, \<open>User_Syserr\<close>, \<open>User_Pingpong\<close> (\<^verbatim>\<open>syscalls/ece391*.c\<close>): the programs, as functions
    on the state of the kernel that make the system calls of the model.
  \<^item> \<open>User_World\<close>: what a program may rely on (\<open>world\<close>), and the relation \<open>displays\<close>: a text appears on the
    terminal of the program, its memory changes at most in one buffer, and what it relies on still holds. Every
    call of a program is such a step; the steps of a program are put together by transitivity.
  \<^item> \<open>User_Properties\<close> (\<^verbatim>\<open>cat\<close>, \<^verbatim>\<open>ls\<close>), \<open>User_Dialogs\<close> (\<^verbatim>\<open>hello\<close>, \<^verbatim>\<open>counter\<close>),
    \<open>User_Shell\<close>, \<open>User_Grep\<close> and \<open>User_Grep_All\<close>: what the programs do; \<open>User_Demo\<close> is a concrete kernel with a program for the witnesses.
  \<^item> \<open>User_Session\<close>, \<open>Shell_Session\<close>: two programs together. \<open>execute_runs\<close> follows a program from \<^verbatim>\<open>execute\<close>
    through its start, its own steps and its \<^verbatim>\<open>halt\<close> back into the caller; from a contract of the program alone
    (\<open>program_prints\<close>) it gives what the caller sees. A turn of the shell with a program that is there is an instance.
  \<^item> \<open>User_Faults\<close>: programs that the processor stops. A run is a sum, a result or the state at the fault; the exception
    handler brings the caller back (\<open>execute_faults\<close>). \<^verbatim>\<open>sigtest\<close> (\<^verbatim>\<open>syscalls/ece391sigtest.c\<close>) is such a program.
  \<^item> \<open>Blink\<close>, \<open>Blink_List\<close> (\<^verbatim>\<open>fish/blink.S\<close>, \<^verbatim>\<open>fish/blink.h\<close>): the list of blinking characters, byte by byte as
    the assembly keeps it in memory, and its refinement to a list of blinks. \<open>Fish\<close>, \<open>Fish_Properties\<close>, \<open>Fish_Run\<close>
    (\<^verbatim>\<open>fish/fish.c\<close>): the program on top of it; \<open>fish_inv\<close> is the list with its characters on the screen,
    \<open>reader\<close> a picture file read to some place in a line, \<open>picture_spots\<close> the characters of two pictures by position.

  \<^bold>\<open>What the theorems show.\<close> The memory and string routines do what their C names promise. The
  file system reads exactly the bytes of a file and never writes outside the buffer. Page tables give
  each program its own block and nothing else. Programs start with their file in memory and their
  arguments, and their status comes back to the parent; every sequence of system calls, exceptions, timer ticks
  and terminal switches keeps the process tree in order and the memory of the programs apart. A switched process goes on where it stopped and every launched terminal
  has its turn. A typed line reaches the reader, printed text reaches the screen of the right terminal.
  The programs do their work on top of this: \<^verbatim>\<open>cat\<close> and \<^verbatim>\<open>ls\<close> print the file and the directory,
  \<^verbatim>\<open>grep\<close> finds the lines, the shell runs its commands, also the ones that are programs of the image, and the system's own tests of the system calls pass;
  \<^verbatim>\<open>fish\<close> alternates its two pictures on the screen and ends.
  Exceptions end only the program, and the shell that started it goes on. Controllers and clock are programmed as the drivers' interface says.

  \<^bold>\<open>Partial functions, devices, time.\<close> Loops that need not end (\<^verbatim>\<open>strlen\<close> without
  a terminator, the waiting loops of \<^verbatim>\<open>read_terminal\<close> and \<^verbatim>\<open>read_rtc\<close>) are partial functions into
  \<open>option\<close>, where \<open>None\<close> is not returning, and the theorems show that they return. The waiting loops
  take an environment, which says what the interrupts that arrive do to the state at each
  turn of the loop. A device that answers on a port is the function argument \<open>dev\<close> from the log of port
  accesses to a byte, with its documented behaviour as a hypothesis where a theorem needs one.
  Places where the code leaves C (jumps into a program, \<^verbatim>\<open>iret\<close>, the resumed side of a context
  switch) are values of the datatype \<open>flow\<close> or labels saved in the process control block.

  A program whose \<^verbatim>\<open>execute\<close> starts another one waits for it: what the other does is the argument \<open>run\<close>. Where
  the linker puts string constants and the compiler puts local arrays are arguments too.

  \<^bold>\<open>Not modelled.\<close> The assembly stubs that save registers
  (\<^verbatim>\<open>interrupt_handler_asm.S\<close>, \<^verbatim>\<open>syscalls_asm.S\<close>, \<^verbatim>\<open>boot.S\<close>), the static descriptor
  tables of \<^verbatim>\<open>x86_desc.S\<close> and the mock of the system calls for Linux (\<^verbatim>\<open>syscalls/ece391emulate.c\<close>).
\<close>

end
